(* ===== verification/Prelude.thy ===== *)
theory Prelude
  imports Main "HOL-Library.AList" "HOL-Library.Multiset"
begin

text \<open>
  The prelude of the development: the Python data and control constructs that every component
  shares, with the generic lemmas on them.

  \<^item> A Python exception is a value of \<open>py_error\<close>; a function that may raise has the
    result type \<open>py_error + 'a\<close> (or a sum with an error type of its own component);
    \<open>rbind\<close> is sequencing, \<open>for_each\<close> a \<^verbatim>\<open>for\<close> loop whose body may raise.
  \<^item> A \<^verbatim>\<open>dict\<close> is an association list with distinct keys in insertion order;
    the locale \<open>dictionary\<close> states what its clients rely on, and is interpreted on the
    association lists.
  \<^item> \<open>py_index\<close>, \<open>py_slice\<close> are list indexing and slicing with negative positions.
  \<^item> String helpers (\<^verbatim>\<open>strip\<close>, \<^verbatim>\<open>split\<close>, \<^verbatim>\<open>startswith\<close>,
    substring test) used by the parsers.
\<close>

section \<open>Errors and sequencing\<close>

datatype py_error =
    IndexError | KeyError | ValueError | ZeroDivisionError | AssertionError
  | TypeError | AttributeError | UnboundLocalError | NameError | IOError | OSError
  | UnicodeDecodeError | SystemExit int

type_synonym 'a result = "py_error + 'a"

definition rbind :: "'e + 'a \<Rightarrow> ('a \<Rightarrow> 'e + 'b) \<Rightarrow> 'e + 'b" where
  "rbind r f = (case r of Inl e \<Rightarrow> Inl e | Inr a \<Rightarrow> f a)"

fun for_each :: "('s \<Rightarrow> 'x \<Rightarrow> 'e + 's) \<Rightarrow> 'x list \<Rightarrow> 's \<Rightarrow> 'e + 's" where
  "for_each body [] s = Inr s"
| "for_each body (x # xs) s = rbind (body s x) (for_each body xs)"

text \<open>A list comprehension whose expression may raise.\<close>

fun map_res :: "('x \<Rightarrow> 'e + 'y) \<Rightarrow> 'x list \<Rightarrow> 'e + 'y list" where
  "map_res f [] = Inr []"
| "map_res f (x # xs) = rbind (f x) (\<lambda>y. rbind (map_res f xs) (\<lambda>ys. Inr (y # ys)))"

definition py_assert :: "bool \<Rightarrow> 'a result \<Rightarrow> 'a result" where
  "py_assert b r = (if b then r else Inl AssertionError)"

named_theorems py_simps \<open>unfolding rules for the Python constructs of the prelude\<close>

lemma rbind_simps [simp]:
  "rbind (Inl e) f = Inl e"
  "rbind (Inr a) f = f a"
  by (simp_all add: rbind_def)

lemma rbind_eq_Inr: "rbind r f = Inr b \<longleftrightarrow> (\<exists>a. r = Inr a \<and> f a = Inr b)"
  by (cases r) simp_all

lemma rbind_eq_Inl: "rbind r f = Inl e \<longleftrightarrow> r = Inl e \<or> (\<exists>a. r = Inr a \<and> f a = Inl e)"
  by (cases r) simp_all

lemma rbind_assoc: "rbind (rbind r f) g = rbind r (\<lambda>x. rbind (f x) g)"
  by (cases r) simp_all

lemma for_each_append:
  "for_each body (xs @ ys) s = rbind (for_each body xs s) (for_each body ys)"
proof (induction xs arbitrary: s)
  case Nil
  show ?case by simp
next
  case (Cons x xs)
  then show ?case by (cases "body s x") simp_all
qed

text \<open>A property that the body keeps is kept by the whole loop, also when it raises.\<close>

lemma for_each_invariant:
  assumes "\<And>s x s'. x \<in> set xs \<Longrightarrow> I s \<Longrightarrow> body s x = Inr s' \<Longrightarrow> I s'"
    and "I s" and "for_each body xs s = Inr s'"
  shows "I s'"
  using assms
proof (induction xs arbitrary: s)
  case Nil
  then show ?case by simp
next
  case (Cons x xs)
  from Cons.prems(3) obtain t where t: "body s x = Inr t" and rest: "for_each body xs t = Inr s'"
    by (auto simp: rbind_eq_Inr)
  from Cons.prems(1,2) t have "I t" by (meson list.set_intros(1))
  with Cons rest show ?case by (meson list.set_intros(2))
qed

text \<open>A loop whose body never raises while the invariant holds ends normally.\<close>

lemma for_each_total:
  assumes "\<And>s x. x \<in> set xs \<Longrightarrow> I s \<Longrightarrow> \<exists>s'. body s x = Inr s' \<and> I s'" and "I s"
  shows "\<exists>s'. for_each body xs s = Inr s' \<and> I s'"
  using assms
proof (induction xs arbitrary: s)
  case (Cons x xs)
  then obtain t where "body s x = Inr t" "I t" by (meson list.set_intros(1))
  with Cons.IH [of t] Cons.prems(1) show ?case by simp
qed simp

lemma for_each_Inr_fold:
  "for_each (\<lambda>s x. Inr (f x s)) xs s = Inr (fold f xs s)"
  by (induction xs arbitrary: s) simp_all

lemma map_res_Inr:
  "(\<And>x. x \<in> set xs \<Longrightarrow> f x = Inr (g x)) \<Longrightarrow> map_res f xs = Inr (map g xs)"
  by (induction xs) simp_all

lemma map_res_cong [fundef_cong]:
  "xs = ys \<Longrightarrow> (\<And>x. x \<in> set ys \<Longrightarrow> f x = g x) \<Longrightarrow> map_res f xs = map_res g ys"
  by (induction xs arbitrary: ys) auto

lemma map_res_eq_Inr:
  "map_res f xs = Inr ys \<longleftrightarrow> list_all2 (\<lambda>x y. f x = Inr y) xs ys"
  by (induction xs arbitrary: ys) (auto simp: rbind_eq_Inr list_all2_Cons1)

text \<open>A loop that reads its items while it uses them succeeds as if all were read first.\<close>

lemma for_each_read:
  "for_each (\<lambda>s x. rbind (rd x) (ap s)) xs s = Inr s' \<longleftrightarrow>
     (\<exists>ys. map_res rd xs = Inr ys \<and> for_each ap ys s = Inr s')"
proof (induction xs arbitrary: s)
  case (Cons x xs)
  show ?case by (cases "rd x") (auto simp: rbind_eq_Inr Cons.IH)
qed simp

lemma for_each_concat: "for_each (\<lambda>s xs. for_each ap xs s) xss s = for_each ap (concat xss) s"
proof (induction xss arbitrary: s)
  case (Cons xs xss)
  then show ?case by (cases "for_each ap xs s") (simp_all add: for_each_append)
qed simp

lemma map_res_exists:
  "(\<exists>ys. map_res f xs = Inr ys) \<longleftrightarrow> (\<forall>x\<in>set xs. \<exists>y. f x = Inr y)"
  by (induction xs) (auto simp: rbind_eq_Inr)

text \<open>Every element of the second of two related lists has a partner in the first.\<close>

lemma list_all2_partner: "list_all2 P xs ys \<Longrightarrow> y \<in> set ys \<Longrightarrow> \<exists>x\<in>set xs. P x y"
  by (induction rule: list_all2_induct) auto

text \<open>A comprehension whose expression either succeeds or raises one fixed exception.\<close>

lemma map_res_cases:
  assumes "\<And>x. x \<in> set xs \<Longrightarrow> ok x \<Longrightarrow> \<exists>y. f x = Inr y \<and> P x y"
    and "\<And>x. x \<in> set xs \<Longrightarrow> \<not> ok x \<Longrightarrow> f x = Inl e"
  shows "if list_all ok xs then \<exists>ys. map_res f xs = Inr ys \<and> list_all2 P xs ys else map_res f xs = Inl e"
  using assms
proof (induction xs)
  case (Cons x xs)
  have IH: "if list_all ok xs then \<exists>ys. map_res f xs = Inr ys \<and> list_all2 P xs ys else map_res f xs = Inl e"
    using Cons by simp
  show ?case
  proof (cases "ok x")
    case True
    then obtain y where "f x = Inr y" "P x y" using Cons.prems(1) [of x] by auto
    with IH True show ?thesis by (auto split: if_splits)
  next
    case False
    with Cons.prems(2) [of x] show ?thesis by simp
  qed
qed simp

section \<open>Searching and first occurrences\<close>

lemma find_SomeD: "find P xs = Some x \<Longrightarrow> x \<in> set xs \<and> P x"
  by (auto simp: find_Some_iff in_set_conv_nth)

text \<open>The items of a list without repetitions, each at its first occurrence.\<close>

fun first_occurrences :: "'a list \<Rightarrow> 'a list" where
  "first_occurrences [] = []"
| "first_occurrences (x # xs) = x # filter (\<lambda>y. y \<noteq> x) (first_occurrences xs)"

lemma set_first_occurrences [simp]: "set (first_occurrences xs) = set xs"
  by (induction xs) auto

lemma distinct_first_occurrences [simp]: "distinct (first_occurrences xs)"
  by (induction xs) auto

lemma first_occurrences_distinct: "distinct xs \<Longrightarrow> first_occurrences xs = xs"
proof (induction xs)
  case (Cons x xs)
  then have "filter (\<lambda>y. y \<noteq> x) xs = xs" by (auto simp: filter_id_conv)
  with Cons show ?case by simp
qed simp

section \<open>Dictionaries\<close>

type_synonym ('k, 'v) dict = "('k \<times> 'v) list"

definition dict_keys :: "('k, 'v) dict \<Rightarrow> 'k list" where
  "dict_keys d = map fst d"

definition has_key :: "('k, 'v) dict \<Rightarrow> 'k \<Rightarrow> bool" where
  "has_key d k = (map_of d k \<noteq> None)"

definition dict_ok :: "('k, 'v) dict \<Rightarrow> bool" where
  "dict_ok d = distinct (dict_keys d)"

text \<open>\<^verbatim>\<open>d[k]\<close> and \<^verbatim>\<open>del d[k]\<close> raise \<^verbatim>\<open>KeyError\<close> on a missing key.\<close>

definition dict_get :: "('k, 'v) dict \<Rightarrow> 'k \<Rightarrow> 'v result" where
  "dict_get d k = (case map_of d k of None \<Rightarrow> Inl KeyError | Some v \<Rightarrow> Inr v)"

definition dict_del :: "('k, 'v) dict \<Rightarrow> 'k \<Rightarrow> ('k, 'v) dict result" where
  "dict_del d k = (if has_key d k then Inr (AList.delete k d) else Inl KeyError)"

text \<open>\<^verbatim>\<open>d[k] += n\<close>\<close>

definition dict_add :: "('k, int) dict \<Rightarrow> 'k \<Rightarrow> int \<Rightarrow> ('k, int) dict result" where
  "dict_add d k n = rbind (dict_get d k) (\<lambda>v. Inr (AList.update k (v + n) d))"

lemma has_key_iff: "has_key d k \<longleftrightarrow> k \<in> set (dict_keys d)"
  by (auto simp: has_key_def dict_keys_def map_of_eq_None_iff)

lemma map_of_update [simp]:
  "map_of (AList.update k v d) x = (if x = k then Some v else map_of d x)"
  by (simp add: update_conv')

lemma map_of_delete_if [simp]:
  "map_of (AList.delete k d) x = (if x = k then None else map_of d x)"
  by (simp add: delete_conv')

lemma set_dict_update: "set (AList.update k v d) \<subseteq> insert (k, v) (set d)"
  by (induction d) auto

lemma dict_update_new: "k \<notin> fst ` set d \<Longrightarrow> AList.update k v d = d @ [(k, v)]"
  by (induction d) auto

lemma dict_keys_update:
  "dict_keys (AList.update k v d) = (if has_key d k then dict_keys d else dict_keys d @ [k])"
  by (auto simp: dict_keys_def update_keys has_key_def map_of_eq_None_iff)

lemma dict_keys_delete: "dict_keys (AList.delete k d) = removeAll k (dict_keys d)"
  by (simp add: dict_keys_def delete_keys)

lemma dict_ok_update [simp, intro]: "dict_ok d \<Longrightarrow> dict_ok (AList.update k v d)"
  by (simp add: dict_ok_def dict_keys_update has_key_iff)

lemma dict_ok_delete [simp, intro]: "dict_ok d \<Longrightarrow> dict_ok (AList.delete k d)"
  by (simp add: dict_ok_def dict_keys_delete distinct_removeAll)

lemma dict_ok_Nil [simp, intro]: "dict_ok []"
  by (simp add: dict_ok_def dict_keys_def)

lemma length_dict_delete:
  "has_key d k \<Longrightarrow> length (AList.delete k d) < length d"
  by (induction d) (auto simp: has_key_def AList.delete_eq less_Suc_eq_le split: if_splits
      intro: le_imp_less_Suc)

lemma length_dict_update:
  "has_key d k \<Longrightarrow> length (AList.update k v d) = length d"
  using dict_keys_update [of k v d] by (metis dict_keys_def length_map)

text \<open>
  What the clients of a dictionary rely on: lookup after an insertion, the order of the keys
  (a key keeps its place, a new key comes last) and the invariant.
\<close>

locale dictionary =
  fixes empty :: "'d"
    and lookup :: "'d \<Rightarrow> 'k \<Rightarrow> 'v option"
    and insert :: "'k \<Rightarrow> 'v \<Rightarrow> 'd \<Rightarrow> 'd"
    and keys :: "'d \<Rightarrow> 'k list"
    and ok :: "'d \<Rightarrow> bool"
  assumes lookup_empty: "lookup empty k = None"
    and lookup_insert: "lookup (insert k v d) x = (if x = k then Some v else lookup d x)"
    and keys_empty: "keys empty = []"
    and keys_insert: "keys (insert k v d) = (if k \<in> set (keys d) then keys d else keys d @ [k])"
    and keys_lookup: "k \<in> set (keys d) \<longleftrightarrow> lookup d k \<noteq> None"
    and ok_empty: "ok empty"
    and ok_insert: "ok d \<Longrightarrow> ok (insert k v d)"
    and ok_distinct: "ok d \<Longrightarrow> distinct (keys d)"
begin

lemma lookup_insert_loop:
  "lookup (fold (\<lambda>x. insert (f x) (g x)) xs d) k =
     (case find (\<lambda>x. f x = k) (rev xs) of Some x \<Rightarrow> Some (g x) | None \<Rightarrow> lookup d k)"
proof (induction xs rule: rev_induct)
  case Nil
  show ?case by simp
next
  case (snoc x xs)
  then show ?case by (simp add: lookup_insert)
qed

lemma set_keys_insert_loop:
  "set (keys (fold (\<lambda>x. insert (f x) (g x)) xs d)) = f ` set xs \<union> set (keys d)"
  by (induction xs arbitrary: d) (auto simp: keys_insert)

lemma ok_insert_loop:
  "ok d \<Longrightarrow> ok (fold (\<lambda>x. insert (f x) (g x)) xs d)"
  by (induction xs arbitrary: d) (simp_all add: ok_insert)

text \<open>A loop that inserts its items in turn leaves the keys in the order of first occurrence.\<close>

lemma keys_insert_loop:
  "keys (fold (\<lambda>x. insert x (g x)) xs d) =
     keys d @ filter (\<lambda>x. x \<notin> set (keys d)) (first_occurrences xs)"
proof (induction xs arbitrary: d)
  case Nil
  show ?case by simp
next
  case (Cons x xs)
  then show ?case by (auto simp: keys_insert intro!: filter_cong)
qed

end

interpretation adict: dictionary "[]" map_of AList.update dict_keys dict_ok
  by unfold_locales
    (auto simp: dict_keys_update has_key_iff dict_ok_def dict_keys_def map_of_eq_None_iff
        distinct_update update_keys)

section \<open>Indexing and slicing\<close>

text \<open>\<^verbatim>\<open>xs[i]\<close>: a negative index counts from the end, an index out of range raises.\<close>

definition py_index :: "'a list \<Rightarrow> int \<Rightarrow> 'a result" where
  "py_index xs i =
     (if 0 \<le> i \<and> nat i < length xs then Inr (xs ! nat i)
      else if i < 0 \<and> nat (- i) \<le> length xs then Inr (xs ! (length xs - nat (- i)))
      else Inl IndexError)"

text \<open>A slice position is clamped to the list.\<close>

definition slice_pos :: "nat \<Rightarrow> int \<Rightarrow> nat" where
  "slice_pos n i = nat (if i < 0 then max 0 (int n + i) else min (int n) i)"

definition py_slice :: "'a list \<Rightarrow> int \<Rightarrow> int \<Rightarrow> 'a list" where
  "py_slice xs a b =
     (let i = slice_pos (length xs) a; j = slice_pos (length xs) b in drop i (take j xs))"

text \<open>\<^verbatim>\<open>xs[:b]\<close> and \<^verbatim>\<open>xs[a:]\<close>\<close>

definition slice_to :: "'a list \<Rightarrow> int \<Rightarrow> 'a list" where
  "slice_to xs b = take (slice_pos (length xs) b) xs"

definition slice_from :: "'a list \<Rightarrow> int \<Rightarrow> 'a list" where
  "slice_from xs a = drop (slice_pos (length xs) a) xs"

lemma slice_pos_nat [simp]: "slice_pos n (int i) = min n i"
  by (simp add: slice_pos_def min_def)

lemma slice_pos_0 [simp]: "slice_pos n 0 = 0"
  by (simp add: slice_pos_def)

lemma py_index_nat: "i < length xs \<Longrightarrow> py_index xs (int i) = Inr (xs ! i)"
  by (simp add: py_index_def)

lemma py_slice_nat: "py_slice xs (int i) (int j) = drop i (take j xs)"
  by (simp add: py_slice_def take_drop min_def)

text \<open>A filter whose predicate holds exactly on a block of positions is a slice.\<close>

lemma filter_eq_block:
  "(\<And>k. k < length xs \<Longrightarrow> P (xs ! k) \<longleftrightarrow> i \<le> k \<and> k < j) \<Longrightarrow> filter P xs = drop i (take j xs)"
proof (induction xs arbitrary: i j)
  case (Cons x xs)
  have "P (xs ! k) \<longleftrightarrow> i - 1 \<le> k \<and> k < j - 1" if "k < length xs" for k
    using Cons.prems [of "Suc k"] that by auto
  from Cons.IH [of "i - 1" "j - 1", OF this] Cons.prems [of 0] show ?case
    by (cases i; cases j) auto
qed simp

section \<open>Strings\<close>

definition is_space :: "char \<Rightarrow> bool" where
  "is_space c = (c \<in> {CHR '' '', CHR 0x09, CHR 0x0A, CHR 0x0B, CHR 0x0C, CHR 0x0D})"

text \<open>The longest prefix without a character of a class, and what follows it.\<close>

definition span_at :: "('a \<Rightarrow> bool) \<Rightarrow> 'a list \<Rightarrow> 'a list \<times> 'a list" where
  "span_at P s = (takeWhile (\<lambda>c. \<not> P c) s, dropWhile (\<lambda>c. \<not> P c) s)"

text \<open>\<^verbatim>\<open>s.strip()\<close>\<close>

definition strip :: "string \<Rightarrow> string" where
  "strip s = rev (dropWhile is_space (rev (dropWhile is_space s)))"

text \<open>\<^verbatim>\<open>s.startswith(p)\<close>, \<^verbatim>\<open>s.endswith(p)\<close> and \<^verbatim>\<open>p in s\<close>\<close>

fun startswith :: "string \<Rightarrow> string \<Rightarrow> bool" where
  "startswith s [] = True"
| "startswith [] (p # ps) = False"
| "startswith (c # s) (p # ps) = (c = p \<and> startswith s ps)"

definition endswith :: "string \<Rightarrow> string \<Rightarrow> bool" where
  "endswith s p = startswith (rev s) (rev p)"

fun contains :: "string \<Rightarrow> string \<Rightarrow> bool" where
  "contains [] p = (p = [])"
| "contains (c # s) p = (startswith (c # s) p \<or> contains s p)"

text \<open>\<^verbatim>\<open>s.split(c)\<close> at every occurrence of the character \<^verbatim>\<open>c\<close>\<close>

fun split_on :: "char \<Rightarrow> string \<Rightarrow> string list" where
  "split_on c [] = [[]]"
| "split_on c (x # xs) =
     (if x = c then [] # split_on c xs
      else (case split_on c xs of [] \<Rightarrow> [[x]] | w # ws \<Rightarrow> (x # w) # ws))"

text \<open>\<^verbatim>\<open>s.split(c, 1)\<close>: at the first occurrence only\<close>

definition split_once :: "char \<Rightarrow> string \<Rightarrow> string list" where
  "split_once c s =
     (if c \<in> set s then [takeWhile (\<lambda>x. x \<noteq> c) s, tl (dropWhile (\<lambda>x. x \<noteq> c) s)] else [s])"

text \<open>\<^verbatim>\<open>sep.join(ws)\<close>\<close>

fun join_with :: "string \<Rightarrow> string list \<Rightarrow> string" where
  "join_with sep [] = []"
| "join_with sep [w] = w"
| "join_with sep (w # ws) = w @ sep @ join_with sep ws"

text \<open>\<^verbatim>\<open>os.path.join(a, b)\<close>\<close>

definition path_join :: "string \<Rightarrow> string \<Rightarrow> string" where
  "path_join a b =
     (if startswith b ''/'' then b
      else if a = [] \<or> endswith a ''/'' then a @ b
      else a @ ''/'' @ b)"

text \<open>\<^verbatim>\<open>str(n)\<close> and \<^verbatim>\<open>'%i' % n\<close>\<close>

definition digit_char :: "nat \<Rightarrow> char" where
  "digit_char n = char_of (48 + n)"

fun show_nat :: "nat \<Rightarrow> string" where
  "show_nat n = (if n < 10 then [digit_char n] else show_nat (n div 10) @ [digit_char (n mod 10)])"

declare show_nat.simps [simp del]

definition show_int :: "int \<Rightarrow> string" where
  "show_int i = (if i < 0 then CHR ''-'' # show_nat (nat (- i)) else show_nat (nat i))"

definition is_digit :: "char \<Rightarrow> bool" where
  "is_digit c = (48 \<le> (of_char c :: nat) \<and> (of_char c :: nat) \<le> 57)"

text \<open>\<^verbatim>\<open>int(s)\<close> of a string of digits\<close>

definition int_of_digits :: "string \<Rightarrow> int" where
  "int_of_digits s = foldl (\<lambda>n c. 10 * n + (int (of_char c) - 48)) 0 s"

text \<open>What follows a fixed prefix.\<close>

definition after_prefix :: "string \<Rightarrow> string \<Rightarrow> string option" where
  "after_prefix p s = (if startswith s p then Some (drop (length p) s) else None)"

lemma startswith_iff: "startswith s p \<longleftrightarrow> (\<exists>t. s = p @ t)"
  by (induction s p rule: startswith.induct) auto

lemma endswith_iff: "endswith s p \<longleftrightarrow> (\<exists>t. s = t @ p)"
  unfolding endswith_def startswith_iff by (metis rev_append rev_rev_ident)

lemma contains_iff: "contains s p \<longleftrightarrow> (\<exists>a b. s = a @ p @ b)"
proof (induction s)
  case Nil
  then show ?case by auto
next
  case (Cons c s)
  show ?case
  proof
    assume "contains (c # s) p"
    then consider "startswith (c # s) p" | "contains s p" by auto
    then show "\<exists>a b. c # s = a @ p @ b"
    proof cases
      case 1
      then obtain t where "c # s = [] @ p @ t" by (auto simp: startswith_iff)
      then show ?thesis by blast
    next
      case 2
      then obtain a b where "s = a @ p @ b" using Cons by blast
      then have "c # s = (c # a) @ p @ b" by simp
      then show ?thesis by blast
    qed
  next
    assume "\<exists>a b. c # s = a @ p @ b"
    then obtain a b where ab: "c # s = a @ p @ b" by blast
    show "contains (c # s) p"
    proof (cases a)
      case Nil
      with ab have "startswith (c # s) p" by (simp add: startswith_iff)
      then show ?thesis by simp
    next
      case (Cons x a')
      with ab have "\<exists>a b. s = a @ p @ b" by auto
      with \<open>contains s p \<longleftrightarrow> (\<exists>a b. s = a @ p @ b)\<close> show ?thesis by simp
    qed
  qed
qed

lemma split_on_not_Nil [simp]: "split_on c s \<noteq> []"
  by (induction s) (auto split: list.splits)

lemma join_with_Cons: "ws \<noteq> [] \<Longrightarrow> join_with sep (w # ws) = w @ sep @ join_with sep ws"
  by (cases ws) simp_all

text \<open>Joining the pieces of a split with the separator gives the string back.\<close>

lemma join_split_on: "join_with [c] (split_on c s) = s"
proof (induction s)
  case Nil
  show ?case by simp
next
  case (Cons x s)
  show ?case
  proof (cases "split_on c s")
    case (Cons w ws)
    with Cons.IH show ?thesis
      by (cases ws) (auto simp: join_with_Cons)
  qed simp
qed

text \<open>A printed number has only digits and reads back as itself.\<close>

lemma digit_char_simps:
  assumes "d < 10"
  shows "is_digit (digit_char d)" "int (of_char (digit_char d)) - 48 = int d"
  using assms by (auto simp: digit_char_def is_digit_def)

lemma int_of_digits_snoc: "int_of_digits (s @ [c]) = 10 * int_of_digits s + (int (of_char c) - 48)"
  by (simp add: int_of_digits_def)

lemma show_nat_digits: "list_all is_digit (show_nat n) \<and> show_nat n \<noteq> []"
proof (induction n rule: show_nat.induct)
  case (1 n)
  then show ?case
    by (cases "n < 10") (simp_all add: show_nat.simps [of n] digit_char_simps)
qed

lemma int_of_show_nat: "int_of_digits (show_nat n) = int n"
proof (induction n rule: show_nat.induct)
  case (1 n)
  show ?case
  proof (cases "n < 10")
    case True
    then show ?thesis by (simp add: show_nat.simps [of n] int_of_digits_def digit_char_simps)
  next
    case False
    with 1 show ?thesis
      by (simp add: show_nat.simps [of n] int_of_digits_snoc digit_char_simps) presburger
  qed
qed

lemma takeWhile_digits:
  "takeWhile is_digit (show_nat n @ c # s) = (if is_digit c then show_nat n @ takeWhile is_digit (c # s) else show_nat n)"
  using show_nat_digits [of n] by (auto simp: takeWhile_append list_all_iff)

section \<open>Termination of a system of steps\<close>

text \<open>
  An invariant, a weight that every step decreases, and progress: from these every execution ends,
  and ends in a final state. The interface of the systems of concurrent threads.
\<close>

locale terminating_system =
  fixes step :: "'s \<Rightarrow> 's \<Rightarrow> bool"
    and inv :: "'s \<Rightarrow> bool"
    and weight :: "'s \<Rightarrow> nat"
    and final :: "'s \<Rightarrow> bool"
  assumes inv_step: "inv s \<Longrightarrow> step s s' \<Longrightarrow> inv s'"
    and weight_step: "step s s' \<Longrightarrow> weight s' < weight s"
    and progress: "inv s \<Longrightarrow> \<not> final s \<Longrightarrow> \<exists>s'. step s s'"
begin

lemma execution_bounded: "(step ^^ n) s s' \<Longrightarrow> n + weight s' \<le> weight s"
proof (induction n arbitrary: s')
  case (Suc n)
  then obtain t where "(step ^^ n) s t" "step t s'" by auto
  with Suc.IH [of t] weight_step [of t s'] show ?case by simp
qed simp

lemma inv_execution: "step\<^sup>*\<^sup>* s s' \<Longrightarrow> inv s \<Longrightarrow> inv s'"
  by (induction rule: rtranclp_induct) (auto intro: inv_step)

lemma stuck_final: "inv s \<Longrightarrow> step\<^sup>*\<^sup>* s s' \<Longrightarrow> (\<nexists>t. step s' t) \<Longrightarrow> final s'"
  using inv_execution progress by blast

lemma reaches_final: "inv s \<Longrightarrow> \<exists>s'. step\<^sup>*\<^sup>* s s' \<and> final s'"
proof (induction "weight s" arbitrary: s rule: less_induct)
  case less
  show ?case
  proof (cases "final s")
    case False
    with less.prems obtain t where "step s t" using progress by blast
    with less.hyps [of t] weight_step inv_step less.prems show ?thesis
      by (meson converse_rtranclp_into_rtranclp)
  qed blast
qed

end

end
