(* ===== verification/ModuleScan.thy ===== *)
theory ModuleScan
  imports Prelude
begin

text \<open>
  The header scanner of the Python bindings: \<^verbatim>\<open>bindings/python/ns3modulescan-modular.py\<close> and
  the table and the path function of \<^verbatim>\<open>bindings/python/ns3modulescan.py\<close>. The hook is called for
  every C++ definition the parser meets; it fills the annotations of the definition, rewrites the
  default values of its arguments and takes entries out of the table of annotations, which is
  shared by all calls. What the parser reports on a definition (\<^verbatim>\<open>pygccxml\<close>) is the record
  \<open>decl\<close>; its functions on template names and the search for a declaration by its name
  (\<^verbatim>\<open>pybindgen\<close>) are the record \<open>scanner\<close>, a parameter.
\<close>

section \<open>The path of a header below the directory ns3\<close>

text \<open>\<^verbatim>\<open>os.path.split\<close>: the last component, and the rest without its trailing slashes unless
  it has nothing else.\<close>

definition rstrip_slash :: "string \<Rightarrow> string" where
  "rstrip_slash s = rev (dropWhile (\<lambda>c. c = CHR ''/'') (rev s))"

definition path_split :: "string \<Rightarrow> string \<times> string" where
  "path_split p =
     (let tail = rev (takeWhile (\<lambda>c. c \<noteq> CHR ''/'') (rev p));
          head = take (length p - length tail) p
      in (if list_all (\<lambda>c. c = CHR ''/'') head then head else rstrip_slash head, tail))"

text \<open>\<^verbatim>\<open>os.path.join(*l)\<close>, which takes at least one argument\<close>

fun join_all :: "string list \<Rightarrow> string result" where
  "join_all [] = Inl TypeError"
| "join_all (a # l) = Inr (foldl path_join a l)"

lemma path_split_prefix: "\<exists>t. p = fst (path_split p) @ t"
proof -
  define tail where "tail = rev (takeWhile (\<lambda>c. c \<noteq> CHR ''/'') (rev p))"
  define head where "head = take (length p - length tail) p"
  have "\<exists>t. head = rstrip_slash head @ t"
    by (metis rstrip_slash_def rev_append rev_rev_ident takeWhile_dropWhile_id)
  moreover have "p = head @ drop (length p - length tail) p" by (simp add: head_def)
  moreover have "fst (path_split p) = head \<or> fst (path_split p) = rstrip_slash head"
    by (simp add: path_split_def Let_def tail_def head_def)
  ultimately show ?thesis by (metis append.assoc)
qed

lemma path_split_shorter: "fst (path_split p) \<noteq> p \<Longrightarrow> length (fst (path_split p)) < length p"
  using path_split_prefix [of p] by (metis append_Nil2 length_append length_greater_0_conv less_add_same_cancel1)

text \<open>
  \<^verbatim>\<open>get_ns3_relative_path\<close> of \<^verbatim>\<open>ns3modulescan-modular.py\<close>: the loop over the components from
  the last one, with \<^verbatim>\<open>ValueError\<close> at the root.
\<close>

function relative_loop :: "string \<Rightarrow> string list \<Rightarrow> string result" where
  "relative_loop head l =
     (if head = [] then Inl AssertionError
      else if fst (path_split head) = head then Inl ValueError
      else if snd (path_split head) = ''ns3'' then join_all l
      else relative_loop (fst (path_split head)) (snd (path_split head) # l))"
  by pat_completeness auto
termination by (relation "measure (\<lambda>(h, l). length h)") (simp_all add: path_split_shorter)

declare relative_loop.simps [simp del]

definition get_ns3_relative_path :: "string \<Rightarrow> string option result" where
  "get_ns3_relative_path path =
     (if path = [] then Inr None else rbind (relative_loop path []) (\<lambda>s. Inr (Some s)))"

text \<open>
  The same function of \<^verbatim>\<open>ns3modulescan.py\<close>, without the tests for an empty path and for the root;
  its loop may not end.
\<close>

partial_function (option) old_relative_loop :: "string \<Rightarrow> string list \<Rightarrow> string result option" where
  "old_relative_loop head l =
     (if head = [] then Some (Inl AssertionError)
      else if snd (path_split head) = ''ns3'' then Some (join_all l)
      else old_relative_loop (fst (path_split head)) (snd (path_split head) # l))"

definition old_relative_path :: "string \<Rightarrow> string result option" where
  "old_relative_path path = old_relative_loop path []"

section \<open>Paths by their components\<close>

definition component :: "string \<Rightarrow> bool" where
  "component c = (c \<noteq> [] \<and> CHR ''/'' \<notin> set c)"

text \<open>The text of an absolute or a relative path with given components\<close>

definition path_text :: "bool \<Rightarrow> string list \<Rightarrow> string" where
  "path_text absolute cs = (if absolute then ''/'' else []) @ join_with ''/'' cs"

definition after_last :: "'a \<Rightarrow> 'a list \<Rightarrow> 'a list" where
  "after_last x xs = rev (takeWhile (\<lambda>y. y \<noteq> x) (rev xs))"

lemma join_with_snoc: "cs \<noteq> [] \<Longrightarrow> join_with sep (cs @ [c]) = join_with sep cs @ sep @ c"
proof (induction cs)
  case (Cons d cs)
  then show ?case by (cases cs) (simp_all add: join_with_Cons)
qed simp

lemma path_text_snoc:
  "path_text absolute (cs @ [c]) =
     (if cs = [] then path_text absolute [] else path_text absolute cs @ ''/'') @ c"
  by (simp add: path_text_def join_with_snoc)

lemma path_text_last:
  assumes "cs \<noteq> []" "list_all component cs"
  shows "\<exists>p c. path_text absolute cs = p @ [c] \<and> c \<noteq> CHR ''/''"
proof -
  obtain ds d where cs: "cs = ds @ [d]" using assms(1) by (metis rev_exhaust)
  with assms(2) have d: "d = butlast d @ [last d]" "last d \<in> set d" "CHR ''/'' \<notin> set d"
    by (auto simp: component_def)
  then have "last d \<noteq> CHR ''/''" by metis
  moreover have "\<exists>p. path_text absolute cs = p @ [last d]"
    unfolding cs path_text_snoc by (metis append.assoc d(1))
  ultimately show ?thesis by blast
qed

lemma rstrip_slash_text:
  assumes "cs \<noteq> []" "list_all component cs"
  shows "rstrip_slash (path_text absolute cs @ ''/'') = path_text absolute cs"
  using path_text_last [OF assms, of absolute] by (auto simp: rstrip_slash_def)

lemma path_split_text:
  assumes "list_all component (cs @ [c])"
  shows "path_split (path_text absolute (cs @ [c])) = (path_text absolute cs, c)"
proof -
  define pre where "pre = (if cs = [] then path_text absolute [] else path_text absolute cs @ ''/'')"
  have whole: "path_text absolute (cs @ [c]) = pre @ c" by (simp add: pre_def path_text_snoc)
  have end_slash: "pre = [] \<or> (\<exists>q. pre = q @ ''/'')" by (auto simp: pre_def path_text_def)
  have "CHR ''/'' \<notin> set c" using assms by (simp add: component_def)
  then have "takeWhile (\<lambda>x. x \<noteq> CHR ''/'') (rev c @ rev pre) = rev c @ takeWhile (\<lambda>x. x \<noteq> CHR ''/'') (rev pre)"
    by (intro takeWhile_append2) (metis set_rev)
  moreover have "takeWhile (\<lambda>x. x \<noteq> CHR ''/'') (rev pre) = []"
    using end_slash by (elim disjE exE) simp_all
  ultimately have tail: "takeWhile (\<lambda>x. x \<noteq> CHR ''/'') (rev (pre @ c)) = rev c" by simp
  have split: "path_split (pre @ c) = (if list_all (\<lambda>x. x = CHR ''/'') pre then pre else rstrip_slash pre, c)"
    unfolding path_split_def Let_def tail by simp
  show ?thesis
  proof (cases "cs = []")
    case True
    then show ?thesis using split whole by (simp add: pre_def path_text_def)
  next
    case False
    have clean: "list_all component cs" using assms by simp
    obtain p x where "path_text absolute cs = p @ [x]" "x \<noteq> CHR ''/''"
      using path_text_last [OF False clean] by blast
    then have "\<not> list_all (\<lambda>x. x = CHR ''/'') pre" using False by (simp add: pre_def)
    with split whole False show ?thesis by (simp add: pre_def rstrip_slash_text [OF False clean])
  qed
qed

lemma path_text_Nil: "path_text absolute [] = (if absolute then ''/'' else [])"
  by (simp add: path_text_def)

lemma path_split_root: "path_split ''/'' = (''/'', [])"
  by (simp add: path_split_def)

lemma path_text_not_Nil: "list_all component cs \<Longrightarrow> cs \<noteq> [] \<Longrightarrow> path_text absolute cs \<noteq> []"
  using path_text_last [of cs absolute] by (metis append_is_Nil_conv not_Cons_self2)

lemma path_text_longer:
  "list_all component (cs @ [c]) \<Longrightarrow> path_text absolute cs \<noteq> path_text absolute (cs @ [c])"
proof
  assume a: "list_all component (cs @ [c])" "path_text absolute cs = path_text absolute (cs @ [c])"
  have "length (path_text absolute cs) + length c \<le> length (path_text absolute (cs @ [c]))"
    unfolding path_text_snoc by simp
  with a show False by (simp add: component_def)
qed

lemma join_all_components:
  "list_all component l \<Longrightarrow> l \<noteq> [] \<Longrightarrow> join_all l = Inr (join_with ''/'' l)"
proof (induction l rule: rev_induct)
  case (snoc c l)
  show ?case
  proof (cases l)
    case Nil
    then show ?thesis by simp
  next
    case (Cons a l')
    have l: "l \<noteq> []" "list_all component l" using snoc.prems Cons by auto
    have "join_with ''/'' l = foldl path_join a l'"
      using snoc.IH l Cons by simp
    moreover obtain p x where "join_with ''/'' l = p @ [x]" "x \<noteq> CHR ''/''"
      using path_text_last [OF l, of False] by (auto simp: path_text_def)
    moreover have "\<not> startswith c ''/''"
      using snoc.prems by (cases c) (auto simp: component_def)
    ultimately show ?thesis
      using join_with_snoc [OF l(1), of "''/''" c] Cons by (simp add: path_join_def endswith_def)
  qed
qed simp

lemma relative_loop_text:
  assumes "list_all component cs" "list_all component l"
  shows "relative_loop (path_text absolute cs) l =
    (if ''ns3'' \<in> set cs then join_all (after_last ''ns3'' cs @ l)
     else if absolute then Inl ValueError else Inl AssertionError)"
  using assms
proof (induction cs arbitrary: l rule: rev_induct)
  case Nil
  show ?case by (simp add: path_text_Nil relative_loop.simps path_split_root)
next
  case (snoc c cs)
  have step: "relative_loop (path_text absolute (cs @ [c])) l =
      (if c = ''ns3'' then join_all l else relative_loop (path_text absolute cs) (c # l))"
    using path_text_not_Nil [of "cs @ [c]" absolute] snoc.prems path_text_longer [of cs c absolute]
    by (simp add: relative_loop.simps [of "path_text absolute (cs @ [c])"] path_split_text)
  show ?case
  proof (cases "c = ''ns3''")
    case True
    then show ?thesis using step by (simp add: after_last_def)
  next
    case False
    with snoc.IH [of "c # l"] snoc.prems step show ?thesis by (simp add: after_last_def)
  qed
qed

lemma set_after_last: "set (after_last x xs) \<subseteq> set xs"
  unfolding after_last_def by (metis set_rev set_takeWhileD subsetI)

lemma after_last_Nil: "x \<in> set xs \<Longrightarrow> after_last x xs = [] \<longleftrightarrow> last xs = x"
  by (induction xs rule: rev_induct) (auto simp: after_last_def)

text \<open>The two loops agree where the first one does not stop at the root; there the second runs forever.\<close>

lemma old_loop_root:
  assumes "old_relative_loop h l = Some r"
  shows "fst (path_split h) \<noteq> h \<or> h = [] \<or> snd (path_split h) = ''ns3''"
proof (rule old_relative_loop.raw_induct [where P = "\<lambda>h l r. fst (path_split h) \<noteq> h \<or> h = [] \<or> snd (path_split h) = ''ns3''", OF _ assms])
  fix f :: "string \<Rightarrow> string list \<Rightarrow> string result option" and h l r
  assume IH: "\<And>h l r. f h l = Some r \<Longrightarrow> fst (path_split h) \<noteq> h \<or> h = [] \<or> snd (path_split h) = ''ns3''"
    and "(if h = [] then Some (Inl AssertionError)
          else if snd (path_split h) = ''ns3'' then Some (join_all l)
          else f (fst (path_split h)) (snd (path_split h) # l)) = Some r"
  then have "f (fst (path_split h)) (snd (path_split h) # l) = Some r"
    if "h \<noteq> []" "snd (path_split h) \<noteq> ''ns3''" using that by simp
  then show "fst (path_split h) \<noteq> h \<or> h = [] \<or> snd (path_split h) = ''ns3''"
    using IH by metis
qed

lemma split_at_root: "fst (path_split h) = h \<Longrightarrow> snd (path_split h) \<noteq> ''ns3''"
proof
  assume a: "fst (path_split h) = h" "snd (path_split h) = ''ns3''"
  define tail where "tail = rev (takeWhile (\<lambda>c. c \<noteq> CHR ''/'') (rev h))"
  have tail: "tail = ''ns3''" using a(2) by (simp add: path_split_def Let_def tail_def)
  have "length (fst (path_split h)) \<le> length (take (length h - length tail) h)"
    by (simp add: path_split_def Let_def tail_def [symmetric] rstrip_slash_def length_dropWhile_le
        del: length_take)
      (metis length_dropWhile_le length_rev)
  moreover have "length tail \<le> length h" unfolding tail_def by (metis length_rev length_takeWhile_le)
  ultimately show False using a(1) tail by simp
qed

lemma loops_agree:
  "old_relative_loop h l =
     (if relative_loop h l = Inl ValueError then None else Some (relative_loop h l))"
proof (induction h l rule: relative_loop.induct)
  case (1 h l)
  show ?case
  proof (cases "h \<noteq> [] \<and> fst (path_split h) = h")
    case True
    then have "old_relative_loop h l = None"
      using old_loop_root [of h l] split_at_root [of h] by (cases "old_relative_loop h l") auto
    with True show ?thesis by (simp add: relative_loop.simps)
  next
    case False
    have "join_all l \<noteq> Inl ValueError" by (cases l) simp_all
    with False 1 show ?thesis
      by (subst (1 2) relative_loop.simps, subst old_relative_loop.simps) auto
  qed
qed

section \<open>The table of annotations\<close>

text \<open>The value of an annotation: \<^verbatim>\<open>None\<close>, \<^verbatim>\<open>True\<close>, a string, or, under the key
  \<^verbatim>\<open>params\<close>, the annotations of the parameters.\<close>

type_synonym param_anns = "(string, (string, string) dict) dict"

datatype ann = ANone | ATrue | AStr string | AParams param_anns

type_synonym ann_table = "(string, (string, ann) dict) dict"

definition type_annotations :: ann_table where
  "type_annotations =
   [(''::ns3::AttributeChecker'',
      [(''automatic_type_narrowing'', AStr ''true''),
       (''allow_subclassing'', AStr ''false'')]),
    (''::ns3::AttributeValue'',
      [(''automatic_type_narrowing'', AStr ''true''),
       (''allow_subclassing'', AStr ''false'')]),
    (''::ns3::CommandLine'',
      [(''allow_subclassing'', AStr ''true'')]),
    (''::ns3::NscTcpL4Protocol'',
      [(''ignore'', AStr ''true'')]),
    (''ns3::RandomVariable::RandomVariable(ns3::RandomVariableBase const & variable) [constructor]'',
      [(''ignore'', ANone)]),
    (''ns3::RandomVariableBase * ns3::RandomVariable::Peek() const [member function]'',
      [(''ignore'', ANone)]),
    (''void ns3::RandomVariable::GetSeed(uint32_t * seed) const [member function]'',
      [(''params'', AParams [(''seed'', [(''direction'', ''out''), (''array_length'', ''6'')])])]),
    (''bool ns3::TypeId::LookupAttributeByName(std::string name, ns3::TypeId::AttributeInformation * info) const [member function]'',
      [(''params'', AParams [(''info'', [(''transfer_ownership'', ''false'')])])]),
    (''static bool ns3::TypeId::LookupByNameFailSafe(std::string name, ns3::TypeId * tid) [member function]'',
      [(''ignore'', ANone)]),
    (''bool ns3::TraceSourceAccessor::ConnectWithoutContext(ns3::ObjectBase * obj, ns3::CallbackBase const & cb) const [member function]'',
      [(''params'', AParams [(''obj'', [(''transfer_ownership'', ''false'')])])]),
    (''bool ns3::TraceSourceAccessor::Connect(ns3::ObjectBase * obj, std::string context, ns3::CallbackBase const & cb) const [member function]'',
      [(''params'', AParams [(''obj'', [(''transfer_ownership'', ''false'')])])]),
    (''bool ns3::TraceSourceAccessor::DisconnectWithoutContext(ns3::ObjectBase * obj, ns3::CallbackBase const & cb) const [member function]'',
      [(''params'', AParams [(''obj'', [(''transfer_ownership'', ''false'')])])]),
    (''bool ns3::TraceSourceAccessor::Disconnect(ns3::ObjectBase * obj, std::string context, ns3::CallbackBase const & cb) const [member function]'',
      [(''params'', AParams [(''obj'', [(''transfer_ownership'', ''false'')])])]),
    (''bool ns3::AttributeAccessor::Set(ns3::ObjectBase * object, ns3::AttributeValue const & value) const [member function]'',
      [(''params'', AParams [(''object'', [(''transfer_ownership'', ''false'')])])]),
    (''ns3::EmpiricalVariable::EmpiricalVariable(ns3::RandomVariableBase const & variable) [constructor]'',
      [(''ignore'', ANone)]),
    (''static ns3::AttributeList * ns3::AttributeList::GetGlobal() [member function]'',
      [(''caller_owns_return'', AStr ''false'')]),
    (''void ns3::CommandLine::Parse(int argc, char * * argv) const [member function]'',
      [(''ignore'', ANone)]),
    (''extern void ns3::PythonCompleteConstruct(ns3::Ptr<ns3::Object> object, ns3::TypeId typeId, ns3::AttributeList const & attributes) [free function]'',
      [(''ignore'', ANone)]),
    (''ns3::Ptr<ns3::Ipv4RoutingProtocol> ns3::Ipv4ListRouting::GetRoutingProtocol(uint32_t index, int16_t & priority) const [member function]'',
      [(''params'', AParams [(''priority'', [(''direction'', ''out'')])])]),
    (''ns3::Ipv4RoutingTableEntry * ns3::GlobalRouter::GetInjectedRoute(uint32_t i) [member function]'',
      [(''params'', AParams [(''return'', [(''caller_owns_return'', ''false'')])])]),
    (''ns3::Ipv4RoutingTableEntry * ns3::Ipv4GlobalRouting::GetRoute(uint32_t i) const [member function]'',
      [(''params'', AParams [(''return'', [(''caller_owns_return'', ''false'')])])]),
    (''::ns3::TestCase'',
      [(''ignore'', AStr ''true'')]),
    (''::ns3::TestRunner'',
      [(''ignore'', AStr ''true'')]),
    (''::ns3::TestSuite'',
      [(''ignore'', AStr ''true'')])]"

text \<open>\<^verbatim>\<open>d.update(e)\<close>\<close>

definition dict_merge :: "('k, 'v) dict \<Rightarrow> ('k, 'v) dict \<Rightarrow> ('k, 'v) dict" where
  "dict_merge d e = fold (\<lambda>(k, v). AList.update k v) e d"

section \<open>The hook\<close>

datatype decl_kind =
    ClassDecl | EnumDecl | FreeFunction | MemberFunction | Constructor | OtherCallable | OtherDecl

text \<open>\<^verbatim>\<open>isinstance(definition, calldef_t)\<close>\<close>

definition is_calldef :: "decl_kind \<Rightarrow> bool" where
  "is_calldef k = (k \<in> {FreeFunction, MemberFunction, Constructor, OtherCallable})"

text \<open>A definition as the parser reports it: its kind, its name and that of its parent, the file,
  \<^verbatim>\<open>str(definition)\<close> and \<^verbatim>\<open>decl_string\<close>.\<close>

record decl =
  d_kind :: decl_kind
  d_name :: string
  d_parent :: string
  d_file :: string
  d_text :: string
  d_string :: string

text \<open>The functions on template names, and the file of a declaration found by its name (none when
  what is found has no location).\<close>

record scanner =
  template_args :: "string \<Rightarrow> string list"
  is_instantiation :: "string \<Rightarrow> bool"
  template_split :: "string \<Rightarrow> string \<times> string list"
  declaration_file :: "string \<Rightarrow> string option"

record hook_state =
  table :: ann_table
  global_annotations :: "(string, ann) dict"
  parameter_annotations :: param_anns
  default_values :: "string option list"

definition put_ann :: "string \<Rightarrow> ann \<Rightarrow> hook_state \<Rightarrow> hook_state" where
  "put_ann k v s = s\<lparr>global_annotations := AList.update k v (global_annotations s)\<rparr>"

text \<open>\<^verbatim>\<open>name.replace('-', '_')\<close>, and the \<^verbatim>\<open>repr\<close> of a module name\<close>

definition underscores :: "string \<Rightarrow> string" where
  "underscores s = map (\<lambda>c. if c = CHR ''-'' then CHR ''_'' else c) s"

definition repr_name :: "string \<Rightarrow> string" where
  "repr_name s = [CHR 0x27] @ s @ [CHR 0x27]"

definition member_of :: "string \<Rightarrow> decl \<Rightarrow> bool" where
  "member_of cls d = (d_kind d = MemberFunction \<and> d_parent d = cls)"

definition comment_step :: "string \<Rightarrow> string \<Rightarrow> decl \<Rightarrow> hook_state \<Rightarrow> hook_state" where
  "comment_step header m d =
     put_ann ''pygen_comment'' (AStr (header @ '' (module '' @ repr_name m @ ''): '' @ d_text d))"

definition get_object_step :: "scanner \<Rightarrow> decl \<Rightarrow> hook_state \<Rightarrow> hook_state" where
  "get_object_step sc d s =
     (if member_of ''Object'' d \<and> d_name d = ''GetObject'' \<and> template_args sc (d_text d) = [''ns3::Object'']
      then put_ann ''template_instance_names'' (AStr ''ns3::Object=>GetObject'') s else s)"

definition schedule_step :: "decl \<Rightarrow> hook_state \<Rightarrow> hook_state" where
  "schedule_step d s =
     (if member_of ''Simulator'' d \<and> startswith (d_name d) ''Schedule'' then put_ann ''ignore'' ANone s else s)"

definition run_step :: "decl \<Rightarrow> hook_state \<Rightarrow> hook_state" where
  "run_step d s = (if member_of ''Simulator'' d \<and> d_name d = ''Run'' then put_ann ''ignore'' ATrue s else s)"

definition fix_default :: "string option \<Rightarrow> string option" where
  "fix_default v =
     (if v = Some ''ns3::MilliSeconds( )'' then Some ''ns3::MilliSeconds(0)''
      else if v = Some ''ns3::Seconds( )'' then Some ''ns3::Seconds(0)'' else v)"

definition defaults_step :: "decl \<Rightarrow> hook_state \<Rightarrow> hook_state" where
  "defaults_step d s =
     (if is_calldef (d_kind d) then s\<lparr>default_values := map fix_default (default_values s)\<rparr> else s)"

text \<open>
  The modules of the template arguments of a class: an argument without a location or outside of
  ns-3 is skipped, one whose header has no module raises \<^verbatim>\<open>KeyError\<close> (a missing file name is
  looked up as \<^verbatim>\<open>None\<close>).
\<close>

fun template_modules :: "scanner \<Rightarrow> (string, string) dict \<Rightarrow> string list \<Rightarrow> string list result" where
  "template_modules sc hm [] = Inr []"
| "template_modules sc hm (p # ps) =
     (case declaration_file sc p of
        None \<Rightarrow> template_modules sc hm ps
      | Some f \<Rightarrow>
         (case get_ns3_relative_path f of
            Inl ValueError \<Rightarrow> template_modules sc hm ps
          | Inl e \<Rightarrow> Inl e
          | Inr None \<Rightarrow> Inl KeyError
          | Inr (Some h) \<Rightarrow>
              rbind (dict_get hm h) (\<lambda>m. rbind (template_modules sc hm ps) (\<lambda>ms. Inr (m # ms)))))"

definition class_module ::
  "scanner \<Rightarrow> (string, string) dict \<Rightarrow> string \<Rightarrow> string \<Rightarrow> decl \<Rightarrow> string result" where
  "class_module sc hm this m d =
     (if is_instantiation sc (d_string d) then
        rbind (template_modules sc hm (snd (template_split sc (d_name d))))
          (\<lambda>ms. Inr (if this \<in> set ms then this else m))
      else Inr m)"

definition import_step :: "string \<Rightarrow> string \<Rightarrow> hook_state \<Rightarrow> hook_state" where
  "import_step this m s =
     (if m \<noteq> this then put_ann ''import_from_module'' (AStr (''ns.'' @ underscores m)) s else s)"

text \<open>The classes with a treatment of their own end the hook: the first component is the early return.\<close>

definition class_step :: "decl \<Rightarrow> hook_state \<Rightarrow> bool \<times> hook_state" where
  "class_step d s =
     (if startswith (d_string d) ''::ns3::SimpleRefCount<'' then
        (True, put_ann ''automatic_type_narrowing'' (AStr ''true'')
                (put_ann ''peekref_method'' (AStr ''GetReferenceCount'')
                  (put_ann ''decref_method'' (AStr ''Unref'')
                    (put_ann ''incref_method'' (AStr ''Ref'') s))))
      else if startswith (d_string d) ''::ns3::Callback<'' then (True, put_ann ''ignore'' ANone s)
      else if startswith (d_string d) ''::ns3::TracedCallback<'' then (True, put_ann ''ignore'' ANone s)
      else if startswith (d_string d) ''::ns3::Ptr<'' then (True, put_ann ''ignore'' ANone s)
      else
        case map_of (table s) (d_string d) of
          None \<Rightarrow> (False, s)
        | Some as \<Rightarrow> (False, s\<lparr>global_annotations := dict_merge (global_annotations s) as\<rparr>))"

definition enum_step :: "string \<Rightarrow> string \<Rightarrow> decl \<Rightarrow> hook_state \<Rightarrow> hook_state" where
  "enum_step this m d s =
     (if d_kind d = EnumDecl \<and> m \<noteq> this then put_ann ''import_from_module'' (AStr (''ns.'' @ m)) s else s)"

definition function_step :: "string \<Rightarrow> string \<Rightarrow> decl \<Rightarrow> hook_state \<Rightarrow> bool \<times> hook_state" where
  "function_step this m d s =
     (if d_kind d = FreeFunction \<and> (m \<noteq> this \<or> d_name d = ''PeekPointer'')
      then (True, put_ann ''ignore'' ANone s) else (False, s))"

text \<open>
  The customization of methods, constructors and functions by the table: the annotations of the
  parameters are taken out of the entry, which is the one in the shared table, and what is left
  goes to the annotations of the definition.
\<close>

fun params_of :: "(string, ann) dict \<Rightarrow> param_anns option" where
  "params_of as = (case map_of as ''params'' of Some (AParams ps) \<Rightarrow> Some ps | _ \<Rightarrow> None)"

definition table_step :: "decl \<Rightarrow> hook_state \<Rightarrow> hook_state" where
  "table_step d s =
     (if d_kind d \<in> {FreeFunction, MemberFunction, Constructor} then
        case map_of (table s) (d_text d) of
          None \<Rightarrow> s
        | Some as \<Rightarrow>
            (let left = AList.delete ''params'' as in
             s\<lparr>parameter_annotations :=
                 (case params_of as of Some ps \<Rightarrow> dict_merge (parameter_annotations s) ps
                                     | None \<Rightarrow> parameter_annotations s),
               table := AList.update (d_text d) left (table s),
               global_annotations := dict_merge (global_annotations s) left\<rparr>)
      else s)"

definition hook_rest :: "string \<Rightarrow> string \<Rightarrow> decl \<Rightarrow> hook_state \<Rightarrow> hook_state" where
  "hook_rest this m d s =
     (case function_step this m d (enum_step this m d s) of
        (True, s') \<Rightarrow> s' | (False, s') \<Rightarrow> table_step d s')"

definition common_steps :: "scanner \<Rightarrow> string \<Rightarrow> string \<Rightarrow> decl \<Rightarrow> hook_state \<Rightarrow> hook_state" where
  "common_steps sc header m d s =
     defaults_step d (run_step d (schedule_step d (get_object_step sc d (comment_step header m d s))))"

definition class_rest :: "string \<Rightarrow> string \<Rightarrow> decl \<Rightarrow> hook_state \<Rightarrow> hook_state" where
  "class_rest this m d s =
     (case class_step d (import_step this m s) of (True, s') \<Rightarrow> s' | (False, s') \<Rightarrow> hook_rest this m d s')"

definition hook_body ::
  "scanner \<Rightarrow> (string, string) dict \<Rightarrow> string \<Rightarrow> string \<Rightarrow> string \<Rightarrow> decl \<Rightarrow> hook_state \<Rightarrow> hook_state result" where
  "hook_body sc hm this header m d s =
     (let s' = common_steps sc header m d s in
      if d_kind d = ClassDecl
      then rbind (class_module sc hm this m d) (\<lambda>m'. Inr (class_rest this m' d s'))
      else Inr (hook_rest this m d s'))"

text \<open>\<^verbatim>\<open>PreScanHook.__call__\<close>\<close>

definition pre_scan_hook ::
  "scanner \<Rightarrow> (string, string) dict \<Rightarrow> string \<Rightarrow> decl \<Rightarrow> hook_state \<Rightarrow> hook_state result" where
  "pre_scan_hook sc hm this d s =
     (case get_ns3_relative_path (d_file d) of
        Inl ValueError \<Rightarrow> Inr s
      | Inl e \<Rightarrow> Inl e
      | Inr None \<Rightarrow> Inr s
      | Inr (Some header) \<Rightarrow>
          if header = [] then Inr s
          else rbind (dict_get hm header) (\<lambda>m. hook_body sc hm this header m d s))"

section \<open>The list of callback classes\<close>

text \<open>\<^verbatim>\<open>repr\<close> of a list of type names\<close>

definition repr_names :: "string list \<Rightarrow> string" where
  "repr_names ps = ''['' @ join_with '', '' (map repr_name ps) @ '']''"

text \<open>\<^verbatim>\<open>scan_callback_classes\<close> on the classes of the module, with the text of the file\<close>

definition nl_char :: string where
  "nl_char = [CHR 0x0A]"

definition scan_callback_classes :: "scanner \<Rightarrow> decl list \<Rightarrow> string result" where
  "scan_callback_classes sc classes =
     rbind (for_each (\<lambda>out cls.
              if \<not> startswith (d_name cls) ''Callback<'' then Inr out
              else if \<not> is_instantiation sc (d_string cls) then Inl AssertionError
              else Inr (out @ ''    '' @ repr_names (snd (template_split sc (d_string cls))) @ '','' @ nl_char))
            classes (''callback_classes = ['' @ nl_char))
       (\<lambda>out. Inr (out @ '']'' @ nl_char))"

text \<open>The header that \<^verbatim>\<open>ns3_module_scan\<close> scans, and the exit status of the program.\<close>

definition dirname :: "string \<Rightarrow> string" where
  "dirname p = fst (path_split p)"

definition scan_header :: "(string \<Rightarrow> bool) \<Rightarrow> string \<Rightarrow> string \<Rightarrow> string \<Rightarrow> string" where
  "scan_header exists top_builddir module_name output_file =
     (let h = path_join (dirname output_file) ''scan-header.h'' in
      if exists h then h
      else path_join (path_join top_builddir ''ns3'') (module_name @ ''-module.h''))"

section \<open>Properties of the path function\<close>

lemma join_all_after_last:
  assumes "list_all component cs" "''ns3'' \<in> set cs"
  shows "join_all (after_last ''ns3'' cs) =
    (if last cs = ''ns3'' then Inl TypeError else Inr (join_with ''/'' (after_last ''ns3'' cs)))"
proof (cases "after_last ''ns3'' cs = []")
  case True
  then show ?thesis using after_last_Nil [OF assms(2)] by simp
next
  case False
  have "list_all component (after_last ''ns3'' cs)"
    using assms(1) set_after_last [of "''ns3''" cs] by (auto simp: list_all_iff)
  with False after_last_Nil [OF assms(2)] show ?thesis by (simp add: join_all_components)
qed

text \<open>
  C29: the path of a header relative to the last directory named \<^verbatim>\<open>ns3\<close>. For a path with the
  components \<open>cs\<close> the function of the modular scanner always returns: the components after the
  last \<^verbatim>\<open>ns3\<close> if there are any, \<^verbatim>\<open>TypeError\<close> if \<^verbatim>\<open>ns3\<close> is the last component,
  \<^verbatim>\<open>ValueError\<close> for an absolute path without \<^verbatim>\<open>ns3\<close> (which its callers take as not from
  ns-3) and \<^verbatim>\<open>AssertionError\<close> for a relative one. The older function returns the same except
  on the absolute path without \<^verbatim>\<open>ns3\<close>, where it never returns.
\<close>

theorem relative_path_correct:
  assumes "list_all component cs" and "cs \<noteq> []"
  shows "get_ns3_relative_path (path_text absolute cs) =
      (if ''ns3'' \<in> set cs
       then if last cs = ''ns3'' then Inl TypeError
            else Inr (Some (join_with ''/'' (after_last ''ns3'' cs)))
       else Inl (if absolute then ValueError else AssertionError))
    \<and> rel_option (\<lambda>old new. rbind old (\<lambda>s. Inr (Some s)) = new)
        (old_relative_path (path_text absolute cs))
        (if absolute \<and> ''ns3'' \<notin> set cs then None
         else Some (get_ns3_relative_path (path_text absolute cs)))"
proof -
  have loop: "relative_loop (path_text absolute cs) [] =
      (if ''ns3'' \<in> set cs
       then if last cs = ''ns3'' then Inl TypeError
            else Inr (join_with ''/'' (after_last ''ns3'' cs))
       else Inl (if absolute then ValueError else AssertionError))"
    using relative_loop_text [OF assms(1), of "[]" absolute] join_all_after_last [OF assms(1)]
    by (auto split: if_splits)
  have "path_text absolute cs \<noteq> []" by (rule path_text_not_Nil [OF assms])
  then have new: "get_ns3_relative_path (path_text absolute cs) =
      rbind (relative_loop (path_text absolute cs) []) (\<lambda>s. Inr (Some s))"
    by (simp add: get_ns3_relative_path_def)
  show ?thesis
    unfolding new old_relative_path_def loops_agree loop by simp
qed

theorem relative_path_correct_witness:
  "get_ns3_relative_path ''/b/ns3/ns3/core/a.h'' = Inr (Some ''core/a.h'')
   \<and> get_ns3_relative_path ''/usr/a.h'' = Inl ValueError
   \<and> old_relative_path ''/usr/a.h'' = None"
  using relative_path_correct [of "[''b'', ''ns3'', ''ns3'', ''core'', ''a.h'']" True]
    relative_path_correct [of "[''usr'', ''a.h'']" True]
  by (simp add: component_def path_text_def after_last_def)

section \<open>Properties of the hook\<close>

definition callable :: "decl \<Rightarrow> bool" where
  "callable d = (d_kind d \<in> {FreeFunction, MemberFunction, Constructor})"

text \<open>The entries of the table that the hook reads for a definition are the same in two states,
  and so is everything else.\<close>

definition same_entries :: "decl \<Rightarrow> hook_state \<Rightarrow> hook_state \<Rightarrow> bool" where
  "same_entries d s s' =
     ((d_kind d = ClassDecl \<longrightarrow> map_of (table s) (d_string d) = map_of (table s') (d_string d)) \<and>
      (callable d \<longrightarrow> map_of (table s) (d_text d) = map_of (table s') (d_text d)))"

definition outputs :: "hook_state \<Rightarrow> (string, ann) dict \<times> param_anns \<times> string option list" where
  "outputs s = (global_annotations s, parameter_annotations s, default_values s)"

definition agree :: "decl \<Rightarrow> hook_state \<Rightarrow> hook_state \<Rightarrow> bool" where
  "agree d s s' = (same_entries d s s' \<and> outputs s = outputs s')"

named_theorems hook_steps \<open>what the steps of the hook do with two states that agree, and with the table\<close>

lemma agree_put_ann [hook_steps]: "agree d s s' \<Longrightarrow> agree d (put_ann k v s) (put_ann k v s')"
  by (simp add: agree_def same_entries_def outputs_def put_ann_def)

lemma table_put_ann [hook_steps, simp]: "table (put_ann k v s) = table s"
  by (simp add: put_ann_def)

lemma agree_steps [hook_steps]:
  assumes "agree d s s'"
  shows "agree d (comment_step h m d s) (comment_step h m d s')"
    "agree d (get_object_step sc d s) (get_object_step sc d s')"
    "agree d (schedule_step d s) (schedule_step d s')"
    "agree d (run_step d s) (run_step d s')"
    "agree d (import_step this m s) (import_step this m s')"
    "agree d (enum_step this m d s) (enum_step this m d s')"
  using assms
  by (simp_all add: comment_step_def get_object_step_def schedule_step_def run_step_def
      import_step_def enum_step_def agree_put_ann)

lemma agree_defaults [hook_steps]: "agree d s s' \<Longrightarrow> agree d (defaults_step d s) (defaults_step d s')"
  by (simp add: agree_def same_entries_def outputs_def defaults_step_def)

lemma table_steps [hook_steps, simp]:
  "table (comment_step h m d s) = table s" "table (get_object_step sc d s) = table s"
  "table (schedule_step d s) = table s" "table (run_step d s) = table s"
  "table (import_step this m s) = table s" "table (enum_step this m d s) = table s"
  "table (defaults_step d s) = table s"
  by (simp_all add: comment_step_def get_object_step_def schedule_step_def run_step_def
      import_step_def enum_step_def defaults_step_def)

lemma agree_class_step [hook_steps]:
  assumes "agree d s s'" "d_kind d = ClassDecl"
  shows "fst (class_step d s) = fst (class_step d s')"
    "agree d (snd (class_step d s)) (snd (class_step d s'))"
proof -
  have "map_of (table s) (d_string d) = map_of (table s') (d_string d)"
    using assms by (simp add: agree_def same_entries_def)
  moreover have "agree d (s\<lparr>global_annotations := dict_merge (global_annotations s) as\<rparr>)
      (s'\<lparr>global_annotations := dict_merge (global_annotations s') as\<rparr>)" for as
    using assms by (simp add: agree_def same_entries_def outputs_def)
  ultimately show "fst (class_step d s) = fst (class_step d s')"
    "agree d (snd (class_step d s)) (snd (class_step d s'))"
    using assms(1) by (auto simp: class_step_def agree_put_ann split: option.splits)
qed

lemma table_class_step [hook_steps]: "table (snd (class_step d s)) = table s"
  by (simp add: class_step_def split: option.splits)

lemma agree_function_step [hook_steps]:
  "agree d s s' \<Longrightarrow> fst (function_step this m d s) = fst (function_step this m d s')"
  "agree d s s' \<Longrightarrow> agree d (snd (function_step this m d s)) (snd (function_step this m d s'))"
  by (auto simp: function_step_def agree_put_ann)

lemma table_function_step [hook_steps]: "table (snd (function_step this m d s)) = table s"
  by (simp add: function_step_def)

lemma outputs_table_step: "agree d s s' \<Longrightarrow> outputs (table_step d s) = outputs (table_step d s')"
  by (auto simp: agree_def same_entries_def outputs_def table_step_def callable_def Let_def
      split: option.splits)

lemma table_table_step:
  "map_of (table (table_step d s)) k =
     (if callable d \<and> k = d_text d then map_option (AList.delete ''params'') (map_of (table s) k)
      else map_of (table s) k)"
  by (auto simp: table_step_def callable_def Let_def split: option.splits)

lemma hook_rest_agree:
  assumes "agree d s s'"
  shows "outputs (hook_rest this m d s) = outputs (hook_rest this m d s')"
proof -
  define e e' where "e = function_step this m d (enum_step this m d s)"
    and "e' = function_step this m d (enum_step this m d s')"
  have "agree d (enum_step this m d s) (enum_step this m d s')" using assms by (rule agree_steps)
  then have "fst e = fst e'" "agree d (snd e) (snd e')"
    unfolding e_def e'_def by (rule agree_function_step)+
  then show ?thesis
    unfolding hook_rest_def e_def [symmetric] e'_def [symmetric]
    by (cases e; cases e') (auto simp: outputs_table_step agree_def split: bool.split)
qed

lemma hook_rest_table:
  "map_of (table (hook_rest this m d s)) k =
     (if callable d \<and> k = d_text d \<and> \<not> fst (function_step this m d s)
      then map_option (AList.delete ''params'') (map_of (table s) k) else map_of (table s) k)"
proof -
  define e where "e = function_step this m d (enum_step this m d s)"
  have e: "fst e = fst (function_step this m d s)" "table (snd e) = table s"
    by (simp_all add: e_def table_function_step) (simp add: function_step_def)
  show ?thesis unfolding hook_rest_def e_def [symmetric] using e
    by (cases e) (auto simp: table_table_step split: bool.split)
qed

lemma agree_common [hook_steps]: "agree d s s' \<Longrightarrow> agree d (common_steps sc h m d s) (common_steps sc h m d s')"
  unfolding common_steps_def by (intro agree_defaults agree_steps)

lemma table_common [hook_steps, simp]: "table (common_steps sc h m d s) = table s"
  by (simp add: common_steps_def)

lemma class_rest_agree:
  assumes "agree d s s'" "d_kind d = ClassDecl"
  shows "outputs (class_rest this m d s) = outputs (class_rest this m d s')"
  using agree_class_step [OF agree_steps(5) [OF assms(1), of this m] assms(2)]
  by (cases "class_step d (import_step this m s)"; cases "class_step d (import_step this m s')")
    (auto simp: class_rest_def hook_rest_agree agree_def split: bool.split)

lemma class_rest_table:
  "d_kind d = ClassDecl \<Longrightarrow> map_of (table (class_rest this m d s)) k = map_of (table s) k"
  using table_class_step [of d "import_step this m s"]
  by (cases "class_step d (import_step this m s)")
    (auto simp: class_rest_def hook_rest_table callable_def split: bool.split)

text \<open>
  The hook depends on the table only at the entry of its own definition, and changes it only there.
\<close>

definition same_result :: "hook_state result \<Rightarrow> hook_state result \<Rightarrow> bool" where
  "same_result r r' = (map_sum id outputs r = map_sum id outputs r')"

lemma hook_body_agree:
  assumes "agree d s s'"
  shows "same_result (hook_body sc hm this h m d s) (hook_body sc hm this h m d s')"
proof -
  have f: "agree d (common_steps sc h m d s) (common_steps sc h m d s')"
    using assms by (rule agree_common)
  show ?thesis
    by (cases "class_module sc hm this m d")
      (simp_all add: same_result_def hook_body_def Let_def class_rest_agree [OF f] hook_rest_agree [OF f])
qed

lemma hook_agree:
  "agree d s s' \<Longrightarrow> same_result (pre_scan_hook sc hm this d s) (pre_scan_hook sc hm this d s')"
  unfolding pre_scan_hook_def
  by (cases "get_ns3_relative_path (d_file d)")
    (auto simp: hook_body_agree [unfolded same_result_def agree_def] same_result_def agree_def rbind_def
        dict_get_def split: py_error.split option.split)

lemma hook_body_table:
  assumes "hook_body sc hm this h m d s = Inr s'" and "\<not> callable d \<or> k \<noteq> d_text d"
  shows "map_of (table s') k = map_of (table s) k"
  using assms
  by (cases "d_kind d = ClassDecl")
    (auto simp: hook_body_def Let_def rbind_eq_Inr class_rest_table hook_rest_table)

lemma hook_table:
  assumes "pre_scan_hook sc hm this d s = Inr s'" and "\<not> callable d \<or> k \<noteq> d_text d"
  shows "map_of (table s') k = map_of (table s) k"
  using assms(1) hook_body_table [OF _ assms(2)]
  by (auto simp: pre_scan_hook_def rbind_eq_Inr split: sum.splits py_error.splits option.splits if_splits)

text \<open>
  A scan: the parser calls the hook for each definition in turn, with empty annotations and the
  default values of its arguments; only the table is passed on.
\<close>

definition fresh :: "ann_table \<Rightarrow> string option list \<Rightarrow> hook_state" where
  "fresh tbl dv = \<lparr>table = tbl, global_annotations = [], parameter_annotations = [], default_values = dv\<rparr>"

fun scan_defs ::
  "scanner \<Rightarrow> (string, string) dict \<Rightarrow> string \<Rightarrow> ann_table \<Rightarrow> (decl \<times> string option list) list
   \<Rightarrow> hook_state list result" where
  "scan_defs sc hm this tbl [] = Inr []"
| "scan_defs sc hm this tbl ((d, dv) # ds) =
     rbind (pre_scan_hook sc hm this d (fresh tbl dv))
       (\<lambda>s. rbind (scan_defs sc hm this (table s) ds) (\<lambda>ss. Inr (s # ss)))"

definition texts_apart :: "decl list \<Rightarrow> bool" where
  "texts_apart ds =
     (distinct (map d_text (filter callable ds)) \<and>
      list_all (\<lambda>d. d_kind d = ClassDecl \<longrightarrow> d_string d \<notin> d_text ` set (filter callable ds)) ds)"

lemma fresh_agree:
  "(\<And>k. k \<in> {d_string d, d_text d} \<Longrightarrow> k \<notin> K \<Longrightarrow> map_of tbl k = map_of tbl' k) \<Longrightarrow>
   (d_kind d = ClassDecl \<Longrightarrow> d_string d \<notin> K) \<Longrightarrow> (callable d \<Longrightarrow> d_text d \<notin> K) \<Longrightarrow>
   agree d (fresh tbl dv) (fresh tbl' dv)"
  by (simp add: agree_def same_entries_def outputs_def fresh_def)

lemma scan_defs_independent:
  assumes "distinct (map d_text (filter callable (map fst ds)))"
    and "\<And>d dv. (d, dv) \<in> set ds \<Longrightarrow> d_kind d = ClassDecl \<Longrightarrow>
           d_string d \<notin> K \<and> d_string d \<notin> d_text ` set (filter callable (map fst ds))"
    and "K \<inter> d_text ` set (filter callable (map fst ds)) = {}"
    and "\<And>k. k \<notin> K \<Longrightarrow> map_of tbl k = map_of tbl' k"
  shows "map_sum id (map outputs) (scan_defs sc hm this tbl ds) =
    map_res (\<lambda>(d, dv). map_sum id outputs (pre_scan_hook sc hm this d (fresh tbl' dv))) ds"
  using assms
proof (induction ds arbitrary: tbl K)
  case (Cons p ds)
  obtain d dv where p: "p = (d, dv)" by (cases p)
  have "agree d (fresh tbl dv) (fresh tbl' dv)"
    using Cons.prems p by (intro fresh_agree [of d K]) auto
  then have same: "map_sum id outputs (pre_scan_hook sc hm this d (fresh tbl dv)) =
      map_sum id outputs (pre_scan_hook sc hm this d (fresh tbl' dv))"
    by (rule hook_agree [unfolded same_result_def])
  show ?case
  proof (cases "pre_scan_hook sc hm this d (fresh tbl dv)")
    case (Inl e)
    with same p show ?thesis by (cases "pre_scan_hook sc hm this d (fresh tbl' dv)") simp_all
  next
    case (Inr s)
    define K' where "K' = (if callable d then insert (d_text d) K else K)"
    have keys: "map_of (table s) k = map_of tbl' k" if "k \<notin> K'" for k
    proof -
      have "\<not> callable d \<or> k \<noteq> d_text d" "k \<notin> K" using that by (auto simp: K'_def split: if_splits)
      then show ?thesis using hook_table [OF Inr] Cons.prems(4) by (simp add: fresh_def)
    qed
    have rest: "map_sum id (map outputs) (scan_defs sc hm this (table s) ds) =
      map_res (\<lambda>(d, dv). map_sum id outputs (pre_scan_hook sc hm this d (fresh tbl' dv))) ds"
    proof (rule Cons.IH [OF _ _ _ keys])
      show "distinct (map d_text (filter callable (map fst ds)))"
        using Cons.prems(1) p by (simp split: if_splits)
      show "d_string x \<notin> K' \<and> d_string x \<notin> d_text ` set (filter callable (map fst ds))"
        if "(x, y) \<in> set ds" "d_kind x = ClassDecl" for x y
        using Cons.prems(2) [of x y] that p by (auto simp: K'_def split: if_splits)
      show "K' \<inter> d_text ` set (filter callable (map fst ds)) = {}"
        using Cons.prems(1,3) p by (auto simp: K'_def split: if_splits)
    qed
    have head: "map_sum id outputs (pre_scan_hook sc hm this d (fresh tbl' dv)) = Inr (outputs s)"
      using same Inr by simp
    show ?thesis
      unfolding p scan_defs.simps map_res.simps prod.case head Inr rbind_simps rest [symmetric]
      by (cases "scan_defs sc hm this (table s) ds") simp_all
  qed
qed simp

text \<open>
  C24: although the hook takes annotations out of the table that all its calls share, a scan gives
  every definition the annotations it would get from the table as it was at the start (and raises
  what the first failing definition raises), as long as no two functions, methods or constructors
  have the same text and none has the text of a class.
\<close>

theorem scan_independent:
  assumes "texts_apart (map fst ds)"
  shows "map_sum id (map outputs) (scan_defs sc hm this tbl ds) =
    map_res (\<lambda>(d, dv). map_sum id outputs (pre_scan_hook sc hm this d (fresh tbl dv))) ds"
proof (rule scan_defs_independent [where K = "{}"])
  show "distinct (map d_text (filter callable (map fst ds)))" using assms by (simp add: texts_apart_def)
  show "d_string d \<notin> {} \<and> d_string d \<notin> d_text ` set (filter callable (map fst ds))"
    if "(d, dv) \<in> set ds" "d_kind d = ClassDecl" for d dv
  proof -
    have "d \<in> set (map fst ds)" using that(1) by force
    with that(2) assms show ?thesis unfolding texts_apart_def list_all_iff by blast
  qed
qed simp_all

definition demo_scanner :: scanner where
  "demo_scanner = \<lparr>template_args = (\<lambda>_. []), is_instantiation = (\<lambda>s. contains s ''<''),
     template_split = (\<lambda>_. (''Ptr'', [''ns3::Node''])), declaration_file = (\<lambda>_. Some ''/b/ns3/node.h'')\<rparr>"

definition seed_decl :: decl where
  "seed_decl = \<lparr>d_kind = MemberFunction, d_name = ''GetSeed'', d_parent = ''RandomVariable'',
     d_file = ''/b/ns3/random.h'',
     d_text = ''void ns3::RandomVariable::GetSeed(uint32_t * seed) const [member function]'',
     d_string = ''::ns3::RandomVariable::GetSeed''\<rparr>"

theorem scan_independent_witness:
  "map_sum id (map outputs)
     (scan_defs demo_scanner [(''random.h'', ''core'')] ''core'' type_annotations [(seed_decl, [])]) =
   Inr [([(''pygen_comment'', AStr (''random.h (module '' @ repr_name ''core'' @ ''): '' @ d_text seed_decl))],
         [(''seed'', [(''direction'', ''out''), (''array_length'', ''6'')])], [])]"
proof -
  have "texts_apart (map fst [(seed_decl, [])])"
    by (simp add: texts_apart_def callable_def seed_decl_def)
  note scan = scan_independent [OF this, of demo_scanner "[(''random.h'', ''core'')]" "''core''" type_annotations]
  show ?thesis unfolding scan by code_simp
qed

text \<open>Scanned a second time, a definition gets no parameter annotations.\<close>

lemma params_taken_once:
  assumes "pre_scan_hook sc hm this d s = Inr s'" and "callable d"
    and "get_ns3_relative_path (d_file d) = Inr (Some h)" "h \<noteq> []" "map_of hm h = Some m"
    and "\<not> fst (function_step this m d s)"
  shows "map_of (table s') (d_text d) = map_option (AList.delete ''params'') (map_of (table s) (d_text d))"
proof -
  have "s' = hook_rest this m d (common_steps sc h m d s)"
    using assms by (auto simp: pre_scan_hook_def hook_body_def Let_def dict_get_def callable_def)
  moreover have "fst (function_step this m d (common_steps sc h m d s)) = fst (function_step this m d s)"
    by (simp add: function_step_def)
  ultimately show ?thesis using assms(2,6) by (simp add: hook_rest_table)
qed

lemma second_scan_without_params:
  "map_sum id (map (\<lambda>s. parameter_annotations s))
     (scan_defs demo_scanner [(''random.h'', ''core'')] ''core'' type_annotations [(seed_decl, []), (seed_decl, [])]) =
   Inr [[(''seed'', [(''direction'', ''out''), (''array_length'', ''6'')])], []]"
  by code_simp

section \<open>The module a class belongs to\<close>

definition owned :: "scanner \<Rightarrow> (string, string) dict \<Rightarrow> string \<Rightarrow> string \<Rightarrow> decl \<Rightarrow> bool" where
  "owned sc hm this m d =
     (m = this \<or> is_instantiation sc (d_string d) \<and>
       (case template_modules sc hm (snd (template_split sc (d_name d))) of
          Inl _ \<Rightarrow> False | Inr ms \<Rightarrow> this \<in> set ms))"

lemma dict_merge_other: "k \<notin> fst ` set e \<Longrightarrow> map_of (dict_merge d e) k = map_of d k"
  unfolding dict_merge_def by (induction e arbitrary: d) auto

lemma put_ann_other: "k \<noteq> k' \<Longrightarrow> map_of (global_annotations (put_ann k' v s)) k = map_of (global_annotations s) k"
  by (simp add: put_ann_def)

lemma common_no_import:
  "map_of (global_annotations (common_steps sc h m d s)) ''import_from_module'' =
   map_of (global_annotations s) ''import_from_module''"
  by (simp add: common_steps_def defaults_step_def run_step_def schedule_step_def get_object_step_def
      comment_step_def put_ann_other)

lemma class_rest_import:
  assumes "d_kind d = ClassDecl"
    and "\<And>as. map_of (table s) (d_string d) = Some as \<Longrightarrow> ''import_from_module'' \<notin> fst ` set as"
  shows "map_of (global_annotations (class_rest this m d s)) ''import_from_module'' =
    (if m = this then map_of (global_annotations s) ''import_from_module''
     else Some (AStr (''ns.'' @ underscores m)))"
proof -
  define i where "i = import_step this m s"
  have i: "table i = table s" "map_of (global_annotations i) ''import_from_module'' =
      (if m = this then map_of (global_annotations s) ''import_from_module''
       else Some (AStr (''ns.'' @ underscores m)))"
    by (simp_all add: i_def) (simp add: import_step_def put_ann_def)
  have step: "map_of (global_annotations (snd (class_step d i))) ''import_from_module'' =
      map_of (global_annotations i) ''import_from_module''"
    using assms(2) i(1) by (auto simp: class_step_def put_ann_other dict_merge_other split: option.split)
  have rest: "hook_rest this m d t = t" for t
    using assms(1) by (simp add: hook_rest_def function_step_def enum_step_def table_step_def)
  have "class_rest this m d s = snd (class_step d i)"
    by (cases "class_step d i") (simp add: class_rest_def i_def [symmetric] rest split: bool.split)
  with step i(2) show ?thesis by simp
qed

text \<open>
  A class is taken from another Python module exactly when it does not belong to the scanned
  module: neither its header nor, for a template instance, the header of one of the arguments is
  of this module. Then the module named is the one of its header, with underscores.
\<close>

theorem class_import_correct:
  assumes "pre_scan_hook sc hm this d s = Inr s'" and "d_kind d = ClassDecl"
    and "get_ns3_relative_path (d_file d) = Inr (Some h)" and "h \<noteq> []" and "map_of hm h = Some m"
    and "map_of (global_annotations s) ''import_from_module'' = None"
    and "\<And>as. map_of (table s) (d_string d) = Some as \<Longrightarrow> ''import_from_module'' \<notin> fst ` set as"
  shows "map_of (global_annotations s') ''import_from_module'' =
    (if owned sc hm this m d then None else Some (AStr (''ns.'' @ underscores m)))"
proof -
  obtain m' where m': "class_module sc hm this m d = Inr m'" "s' = class_rest this m' d (common_steps sc h m d s)"
    using assms(1-5) by (auto simp: pre_scan_hook_def hook_body_def Let_def dict_get_def rbind_eq_Inr)
  then have "m' = (if owned sc hm this m d then this else m)"
    by (auto simp: class_module_def owned_def rbind_eq_Inr split: if_splits)
  moreover have "m \<noteq> this" if "\<not> owned sc hm this m d" using that by (simp add: owned_def)
  ultimately show ?thesis
    using class_rest_import [OF assms(2), of "common_steps sc h m d s" this m'] assms(6,7) m'(2)
    by (simp add: common_no_import)
qed

definition node_decl :: decl where
  "node_decl = \<lparr>d_kind = ClassDecl, d_name = ''Node'', d_parent = ''ns3'', d_file = ''/b/ns3/node.h'',
     d_text = ''ns3::Node [class]'', d_string = ''::ns3::Node''\<rparr>"

theorem class_import_correct_witness:
  "\<exists>s'. pre_scan_hook demo_scanner [(''node.h'', ''point-to-point'')] ''core'' node_decl (fresh [] []) = Inr s' \<and>
     map_of (global_annotations s') ''import_from_module'' = Some (AStr ''ns.point_to_point'')"
proof -
  have run: "pre_scan_hook demo_scanner [(''node.h'', ''point-to-point'')] ''core'' node_decl (fresh [] []) =
    Inr (class_rest ''core'' ''point-to-point'' node_decl
      (common_steps demo_scanner ''node.h'' ''point-to-point'' node_decl (fresh [] [])))"
    by code_simp
  have header: "get_ns3_relative_path (d_file node_decl) = Inr (Some ''node.h'')" by code_simp
  have "\<not> owned demo_scanner [(''node.h'', ''point-to-point'')] ''core'' ''point-to-point'' node_decl"
    by code_simp
  with class_import_correct [OF run _ header] run show ?thesis
    by (simp add: node_decl_def fresh_def underscores_def)
qed

end
