(* ===== verification/BindingGen.thy ===== *)
theory BindingGen
  imports Prelude
begin

text \<open>
  The generator of the Python bindings: \<^verbatim>\<open>bindings/python/ns3modulegen_core_customizations.py\<close>
  (smart pointers, callbacks, the construction of objects) and the driver
  \<^verbatim>\<open>bindings/python/ns3modulegen-modular.py\<close>. The code generator \<^verbatim>\<open>pybindgen\<close> that they
  customize is a parameter where its results matter: which C++ types it has a handler for, and the
  name under which it declares a variable.
\<close>

section \<open>Smart pointers\<close>

text \<open>The regular expression \<^verbatim>\<open>(ns3::|::ns3::|)Ptr<([^>]+)>\s*$\<close>, with its second group.\<close>

definition ptr_prefixes :: "string list" where
  "ptr_prefixes = [''ns3::'', ''::ns3::'', []]"

definition match_target :: "string \<Rightarrow> string option" where
  "match_target s =
     (case span_at (\<lambda>c. c = CHR ''>'') s of
        (g, []) \<Rightarrow> None
      | (g, _ # ws) \<Rightarrow> if g \<noteq> [] \<and> list_all is_space ws then Some g else None)"

definition match_ptr :: "string \<Rightarrow> string option" where
  "match_ptr name =
     (case List.find (\<lambda>p. startswith name (p @ ''Ptr<'')) ptr_prefixes of
        None \<Rightarrow> None
      | Some p \<Rightarrow> match_target (drop (length (p @ ''Ptr<'')) name))"

text \<open>\<^verbatim>\<open>_get_untransformed_type_traits\<close>: the type of the plain pointer, and whether the target is
  constant; none when the name is not one of a smart pointer.\<close>

definition drop_const_front :: "string \<times> bool \<Rightarrow> string \<times> bool" where
  "drop_const_front nc =
     (if startswith (fst nc) ''const '' then (drop (length ''const '') (fst nc), True) else nc)"

definition drop_const_back :: "string \<times> bool \<Rightarrow> string \<times> bool" where
  "drop_const_back nc =
     (if endswith (fst nc) '' const'' then (take (length (fst nc) - length '' const'') (fst nc), True) else nc)"

definition drop_root :: "string \<Rightarrow> string" where
  "drop_root s = (if startswith s ''::'' then drop 2 s else s)"

definition untransformed_type_traits :: "string \<Rightarrow> string option \<times> bool" where
  "untransformed_type_traits name =
     (case match_ptr name of
        None \<Rightarrow> (None, False)
      | Some g \<Rightarrow>
          (let (name1, is_const) = drop_const_back (drop_const_front (strip g, False))
           in (Some (drop_root (name1 @ '' *'')), is_const)))"

definition get_untransformed_name :: "string \<Rightarrow> string option" where
  "get_untransformed_name name = fst (untransformed_type_traits name)"

text \<open>
  \<^verbatim>\<open>create_type_handler\<close>: the keyword argument that fixes the ownership, the corrected C++ type
  that the handler is created with, and the plain pointer type of the transformation. A slice of
  \<^verbatim>\<open>None\<close> raises \<^verbatim>\<open>TypeError\<close>.
\<close>

datatype handler_kind = ParameterHandler | ReturnHandler | OtherHandler

definition corrected_ctype :: "string \<Rightarrow> bool \<Rightarrow> string" where
  "corrected_ctype orig is_const =
     ''ns3::Ptr< '' @ take (length orig - 2) orig @ (if is_const then '' const >'' else '' >'')"

definition create_type_handler :: "handler_kind \<Rightarrow> string \<Rightarrow> (string \<times> string \<times> string) result" where
  "create_type_handler kind ctype =
     (if kind = OtherHandler then Inl AssertionError
      else
        let owner = (if kind = ParameterHandler then ''transfer_ownership'' else ''caller_owns_return'') in
        case untransformed_type_traits ctype of
          (None, _) \<Rightarrow> Inl TypeError
        | (Some orig, is_const) \<Rightarrow> Inr (owner, corrected_ctype orig is_const, orig))"

definition untransform :: "string \<Rightarrow> string \<Rightarrow> string" where
  "untransform untransformed_ctype expression =
     ''const_cast<'' @ untransformed_ctype @ ''> (ns3::PeekPointer ('' @ expression @ ''))''"

definition transform :: "string \<Rightarrow> string \<Rightarrow> string result" where
  "transform untransformed_ctype expression =
     (if untransformed_ctype = [] then Inl IndexError
      else py_assert (last untransformed_ctype = CHR ''*'')
        (Inr (''ns3::Ptr< '' @ butlast untransformed_ctype @ '' > ('' @ expression @ '')'')))"

section \<open>Callbacks\<close>

text \<open>The names of the callback type and of the class that implements it in Python\<close>

definition callback_name :: "string list \<Rightarrow> string" where
  "callback_name params = ''ns3::Callback< '' @ join_with '', '' params @ '' >''"

definition impl_name :: "nat \<Rightarrow> string" where
  "impl_name i = ''PythonCallbackImpl'' @ show_nat i"

text \<open>The handler that \<^verbatim>\<open>register_callback_classes\<close> registers for a callback type.\<close>

record callback_handler =
  ctype :: string
  impl :: string
  template_arguments :: "string list"
  disabled :: bool

definition register_callback_classes :: "string list list \<Rightarrow> callback_handler list" where
  "register_callback_classes callbacks =
     map (\<lambda>(i, ps). \<lparr>ctype = callback_name ps, impl = impl_name i, template_arguments = ps, disabled = False\<rparr>)
       (enumerate 0 callbacks)"

text \<open>The errors of the generator of one wrapper\<close>

datatype gen_error = CodeGenerationError | NotSupportedError | PyRaise py_error

text \<open>What a handler adds to a wrapper function: declarations, the parsed parameters, the
  statements before the call and the arguments of the call. An error check is the condition with
  the code that sets the exception.\<close>

datatype statement = Code string | ErrorCheck string string

record wrapper_code =
  declarations :: "(string \<times> string \<times> string option) list"
  parse_params :: "(string \<times> string list \<times> string \<times> bool) list"
  before_call :: "statement list"
  call_params :: "string list"

definition callable_check :: "string \<Rightarrow> string \<Rightarrow> statement" where
  "callable_check py_callback name =
     ErrorCheck (''!PyCallable_Check('' @ py_callback @ '')'')
       (''PyErr_SetString(PyExc_TypeError, '' @ [CHR 0x22] @ ''parameter '' @ [CHR 0x27] @ name @ [CHR 0x27] @
        '' must be callbale'' @ [CHR 0x22] @ '');'')"

text \<open>\<^verbatim>\<open>PythonCallbackParameter.convert_python_to_c\<close>; \<open>declare\<close> is the name a variable gets.\<close>

definition convert_python_to_c ::
  "(string \<Rightarrow> string) \<Rightarrow> callback_handler \<Rightarrow> string \<Rightarrow> string option \<Rightarrow> gen_error + wrapper_code" where
  "convert_python_to_c declare h name dflt =
     (if disabled h then Inl CodeGenerationError
      else
        let py_callback = declare name;
            args = join_with '', '' (template_arguments h)
        in case dflt of
          None \<Rightarrow>
            (let callback_impl = declare (name @ ''_cb_impl'') in
             Inr \<lparr>declarations = [(''PyObject*'', name, None), (''ns3::Ptr<'' @ impl h @ ''>'', name @ ''_cb_impl'', None)],
                  parse_params = [(''O'', [''&'' @ py_callback], name, False)],
                  before_call =
                    [callable_check py_callback name,
                     Code (callback_impl @ '' = ns3::Create<'' @ impl h @ ''> ('' @ py_callback @ '');'')],
                  call_params = [''ns3::Callback<'' @ args @ ''> ('' @ callback_impl @ '')'']\<rparr>)
        | Some dv \<Rightarrow>
            (let val = declare (name @ ''_value'') in
             Inr \<lparr>declarations = [(''PyObject*'', name, Some ''NULL''), (''ns3::Callback<'' @ args @ ''>'', name @ ''_value'', Some dv)],
                  parse_params = [(''O'', [''&'' @ py_callback], name, True)],
                  before_call =
                    [Code (''if ('' @ py_callback @ '') {''),
                     callable_check py_callback name,
                     Code (val @ '' = ns3::Callback<'' @ args @ ''> (ns3::Create<'' @ impl h @ ''> ('' @ py_callback @ ''));''),
                     Code ''}''],
                  call_params = [val]\<rparr>))"

definition callback_to_python :: "callback_handler \<Rightarrow> gen_error + wrapper_code" where
  "callback_to_python h = Inl NotSupportedError"

text \<open>
  \<^verbatim>\<open>generate_callback_classes\<close>: the implementation class of a callback is written when there are
  handlers for the type it returns and for all its parameters. Without a handler for the returned
  type it is skipped; without one for a parameter the handlers of the callback are disabled too.
\<close>

record type_handlers =
  return_known :: "string \<Rightarrow> bool"
  param_known :: "string \<Rightarrow> bool"

record callback_gen =
  handlers :: "callback_handler list"
  generated :: "(string \<times> string list) list"
  gen_warnings :: "string list"

definition callback_parameters :: "string list \<Rightarrow> string list" where
  "callback_parameters ps = filter (\<lambda>a. a \<noteq> ''ns3::empty'') (tl ps)"

definition disable :: "string \<Rightarrow> callback_handler list \<Rightarrow> callback_handler list" where
  "disable cls hs = map (\<lambda>h. if ctype h = cls then h\<lparr>disabled := True\<rparr> else h) hs"

definition generate_callback_class :: "type_handlers \<Rightarrow> callback_gen \<Rightarrow> nat \<times> string list \<Rightarrow> callback_gen result" where
  "generate_callback_class th st ips =
     (let cls = callback_name (snd ips); args = callback_parameters (snd ips) in
      rbind (py_index (snd ips) 0) (\<lambda>ret.
        if \<not> return_known th ret then Inr (st\<lparr>gen_warnings := gen_warnings st @ [ret]\<rparr>)
        else if \<not> list_all (param_known th) args then
          Inr (st\<lparr>gen_warnings := gen_warnings st @ filter (\<lambda>a. \<not> param_known th a) args,
                 handlers := disable cls (handlers st)\<rparr>)
        else Inr (st\<lparr>generated := generated st @ [(impl_name (fst ips), args)]\<rparr>)))"

definition generate_callback_classes :: "type_handlers \<Rightarrow> callback_handler list \<Rightarrow> string list list \<Rightarrow> callback_gen result" where
  "generate_callback_classes th hs callbacks =
     for_each (generate_callback_class th) (enumerate 0 callbacks) \<lparr>handlers = hs, generated = [], gen_warnings = []\<rparr>"

section \<open>The construction of objects\<close>

record cpp_class =
  full_name :: string
  cannot_be_constructed :: bool
  incomplete_type :: bool

text \<open>
  \<^verbatim>\<open>ns3_object_instance_creation_function\<close>: the format string for a class that cannot be
  constructed has two places and one value, which raises \<^verbatim>\<open>TypeError\<close>.
\<close>

definition ns3_object_instance_creation :: "cpp_class \<Rightarrow> string \<Rightarrow> string \<Rightarrow> string \<Rightarrow> gen_error + string list" where
  "ns3_object_instance_creation cls lvalue parameters construct_type_name =
     (if lvalue = [] \<or> startswith lvalue ''None'' then Inl (PyRaise AssertionError)
      else if cannot_be_constructed cls then Inl (PyRaise TypeError)
      else if incomplete_type cls then Inl CodeGenerationError
      else Inr [lvalue @ '' = new '' @ construct_type_name @ ''('' @ parameters @ '');'', lvalue @ ''->Ref ();''])"

definition ns3_object_post_creation :: "string \<Rightarrow> string" where
  "ns3_object_post_creation lvalue = ''ns3::CompleteConstruct('' @ lvalue @ '');''"

text \<open>\<^verbatim>\<open>Attribute_customizations\<close>: a parameter by its class (for references to a class), its
  default value and the type of that.\<close>

record meth_param =
  ref_class :: "string option"
  default_value :: "string option"
  default_value_type :: "string option"

definition attribute_param :: "meth_param \<Rightarrow> meth_param" where
  "attribute_param p =
     (if ref_class p = Some ''AttributeValue'' \<and> default_value p \<noteq> None \<and> default_value_type p = None
      then p\<lparr>default_value_type := Some ''ns3::EmptyAttributeValue''\<rparr> else p)"

definition attribute_customizations :: "meth_param list list list \<Rightarrow> meth_param list list list" where
  "attribute_customizations classes = map (map (map attribute_param)) classes"

text \<open>\<^verbatim>\<open>add_std_ios_openmode\<close>\<close>

definition ios_constant :: "string \<times> string \<Rightarrow> string" where
  "ios_constant up_flag =
     ''PyModule_AddIntConstant(m, (char *) '' @ [CHR 0x22] @ ''STD_IOS_'' @ fst up_flag @ [CHR 0x22] @
     '', std::ios::'' @ snd up_flag @ '');''"

definition add_std_ios_openmode :: "string list" where
  "add_std_ios_openmode = map ios_constant
     [(''IN'', ''in''), (''OUT'', ''out''), (''ATE'', ''ate''), (''APP'', ''app''), (''TRUNC'', ''trunc''), (''BINARY'', ''binary'')]"

section \<open>The driver\<close>

text \<open>
  \<^verbatim>\<open>ErrorHandler.handle_error\<close>: the warning is placed at the frame of the API definitions found
  first in the reversed stack, or nowhere. The stack is reversed in place; it is returned too.
\<close>

definition handle_error :: "string \<Rightarrow> (string \<times> nat) list \<Rightarrow> (string \<times> nat) option \<times> (string \<times> nat) list" where
  "handle_error apidefs_file stack =
     (List.find (\<lambda>l. fst l = apidefs_file) (rev stack), rev stack)"

text \<open>What \<^verbatim>\<open>main\<close> imports from the directory \<^verbatim>\<open>bindings\<close> of the module: whether the API
  definitions and the customizations are found, which functions the customizations have, and the
  list of callbacks if there is one.\<close>

record importer =
  has_apidefs :: "string \<Rightarrow> bool"
  customizations :: "string list option"
  callbacks_list :: "string list list option"

datatype phase =
    ModuleInit | SetName string | AddInclude string | IosOpenmode
  | RegisterTypes | PostTypes | RegisterCallbacks "string list list"
  | RegisterMethods | PostMethods | ObjectCustomizations | AttributeCustomizations
  | GenerateCallbacks "string list list" | RegisterFunctions | PostFunctions | Generate

datatype driver_error = ImportError | ArgumentError

definition hooked :: "importer \<Rightarrow> string \<Rightarrow> phase \<Rightarrow> phase list" where
  "hooked im name ph = (case customizations im of Some fs \<Rightarrow> if name \<in> set fs then [ph] else [] | None \<Rightarrow> [])"

definition generation :: "importer \<Rightarrow> string \<Rightarrow> string \<Rightarrow> phase list" where
  "generation im module_name extension_name =
     (let cbs = (case callbacks_list im of Some c \<Rightarrow> c | None \<Rightarrow> []) in
      [ModuleInit, SetName extension_name,
       AddInclude ([CHR 0x22] @ ''ns3/'' @ module_name @ ''-module.h'' @ [CHR 0x22]), IosOpenmode, RegisterTypes]
      @ hooked im ''post_register_types'' PostTypes
      @ [RegisterCallbacks cbs, RegisterMethods]
      @ hooked im ''post_register_methods'' PostMethods
      @ [ObjectCustomizations, AttributeCustomizations, GenerateCallbacks cbs, RegisterFunctions]
      @ hooked im ''post_register_functions'' PostFunctions
      @ [Generate])"

text \<open>\<^verbatim>\<open>main\<close>, with the search path of the interpreter, which the \<^verbatim>\<open>finally\<close> clause restores.\<close>

definition base_name :: "string \<Rightarrow> string" where
  "base_name p = rev (takeWhile (\<lambda>c. c \<noteq> CHR ''/'') (rev p))"

definition modulegen_main ::
  "(string list \<Rightarrow> importer) \<Rightarrow> string list \<Rightarrow> string list \<Rightarrow> (driver_error + phase list) \<times> string list" where
  "modulegen_main imports argv sys_path =
     (case tl argv of
        [module_abs_src_path, tgt, extension_name, output_cc_file_name] \<Rightarrow>
          (let path = path_join module_abs_src_path ''bindings'' # sys_path;
               im = imports path
           in (if has_apidefs im (''modulegen__'' @ tgt)
               then Inr (generation im (base_name module_abs_src_path) extension_name)
               else Inl ImportError,
               tl path))
      | _ \<Rightarrow> (Inl ArgumentError, sys_path))"

section \<open>Properties of the smart pointers\<close>

text \<open>A class name as a smart pointer is written with: not empty or a keyword, without template brackets,
  spaces at its ends, a \<^verbatim>\<open>const\<close> or a leading \<^verbatim>\<open>::\<close>.\<close>

definition plain_class :: "string \<Rightarrow> bool" where
  "plain_class n =
     (n \<noteq> [] \<and> n \<noteq> ''const'' \<and> CHR ''>'' \<notin> set n \<and> \<not> is_space (hd n) \<and> \<not> is_space (last n) \<and>
      \<not> startswith n ''const '' \<and> \<not> endswith n '' const'' \<and> \<not> startswith n ''::'')"

text \<open>The ways to write a smart pointer to the class\<close>

definition pointee :: "bool \<Rightarrow> bool \<Rightarrow> string \<Rightarrow> bool \<Rightarrow> string" where
  "pointee front root n behind =
     (if front then ''const '' else []) @ (if root then ''::'' else []) @ n @ (if behind then '' const'' else [])"

definition spelling :: "string \<Rightarrow> string \<Rightarrow> string \<Rightarrow> string \<Rightarrow> string \<Rightarrow> string" where
  "spelling p w1 x w2 w3 = p @ ''Ptr<'' @ w1 @ x @ w2 @ ''>'' @ w3"

lemma strip_padded:
  assumes "list_all is_space w1" "list_all is_space w2" "x \<noteq> []" "\<not> is_space (hd x)" "\<not> is_space (last x)"
  shows "strip (w1 @ x @ w2) = x"
proof -
  have front: "dropWhile is_space (w @ y) = y" if "list_all is_space w" "y \<noteq> []" "\<not> is_space (hd y)" for w y
    using that by (induction w) (auto simp: neq_Nil_conv)
  have "dropWhile is_space (w1 @ x @ w2) = x @ w2" using assms by (intro front) simp_all
  moreover have "dropWhile is_space (rev w2 @ rev x) = rev x" using assms by (intro front) (simp_all add: hd_rev)
  ultimately show ?thesis by (simp add: strip_def)
qed

lemma pointee_ends:
  assumes "plain_class n"
  shows "pointee front root n behind \<noteq> []" "\<not> is_space (hd (pointee front root n behind))"
    "\<not> is_space (last (pointee front root n behind))" "CHR ''>'' \<notin> set (pointee front root n behind)"
  using assms by (auto simp: plain_class_def pointee_def is_space_def)

lemma no_bracket_in_space: "list_all is_space w \<Longrightarrow> CHR ''>'' \<notin> set w"
proof -
  have "\<not> is_space (CHR ''>'')" by (simp add: is_space_def)
  then show "list_all is_space w \<Longrightarrow> CHR ''>'' \<notin> set w" by (metis list_all_iff)
qed

lemma match_target_some:
  assumes "g \<noteq> []" "CHR ''>'' \<notin> set g" "list_all is_space w"
  shows "match_target (g @ ''>'' @ w) = Some g"
proof -
  have "takeWhile (\<lambda>c. \<not> c = CHR ''>'') (g @ CHR ''>'' # w) = g" "dropWhile (\<lambda>c. \<not> c = CHR ''>'') (g @ CHR ''>'' # w) = CHR ''>'' # w"
    using assms(2) by (induction g) auto
  with assms show ?thesis by (simp add: match_target_def span_at_def)
qed

lemma match_target_none:
  assumes "CHR ''>'' \<notin> set g" "\<not> list_all is_space w"
  shows "match_target (g @ ''>'' @ w) = None"
proof -
  have "dropWhile (\<lambda>c. \<not> c = CHR ''>'') (g @ CHR ''>'' # w) = CHR ''>'' # w"
    using assms(1) by (induction g) auto
  with assms show ?thesis by (simp add: match_target_def span_at_def)
qed

lemma match_ptr_prefix: "p \<in> set ptr_prefixes \<Longrightarrow> match_ptr (p @ ''Ptr<'' @ s) = match_target s"
  by (auto simp: match_ptr_def ptr_prefixes_def)

lemma rooted_no_const: "\<not> endswith n '' const'' \<Longrightarrow> \<not> endswith (''::'' @ n) '' const''"
proof
  assume n: "\<not> endswith n '' const''" and "endswith (''::'' @ n) '' const''"
  then obtain t where "''::'' @ n = t @ '' const''" by (auto simp: endswith_iff)
  then consider "''::'' @ n = '' const''" | c where "''::'' @ n = c # '' const''" | u where "n = u @ '' const''"
    by (cases t rule: list.exhaust [case_product list.exhaust]) (auto simp: Cons_eq_append_conv)
  then show False using n by cases (auto simp: endswith_iff)
qed

lemma drop_const_pointee:
  assumes "plain_class n"
  shows "drop_const_back (drop_const_front (pointee front root n behind, False)) =
    ((if root then ''::'' else []) @ n, front \<or> behind)"
proof -
  define y where "y = (if root then ''::'' else []) @ n"
  have front: "drop_const_front (pointee front root n behind, False) = (y @ (if behind then '' const'' else []), front)"
  proof (cases front)
    case True
    then show ?thesis by (simp add: drop_const_front_def pointee_def y_def)
  next
    case False
    have "\<not> startswith (n @ '' const'') ''const ''"
    proof
      assume "startswith (n @ '' const'') ''const ''"
      with assms show False
        by (auto simp: plain_class_def startswith_iff append_eq_Cons_conv is_space_def)
    qed
    with False assms show ?thesis
      by (simp add: drop_const_front_def pointee_def y_def plain_class_def)
  qed
  have "\<not> endswith y '' const''"
    using assms rooted_no_const [of n] by (simp add: plain_class_def y_def)
  moreover have "endswith (y @ '' const'') '' const''" by (auto simp: endswith_iff)
  ultimately show ?thesis
    unfolding front by (auto simp: drop_const_back_def y_def [symmetric])
qed

lemma drop_root_pointee:
  assumes "plain_class n"
  shows "drop_root (((if root then ''::'' else []) @ n) @ '' *'') = n @ '' *''"
proof (cases root)
  case True
  then show ?thesis by (simp add: drop_root_def)
next
  case False
  have "\<not> startswith (n @ '' *'') ''::''"
  proof
    assume "startswith (n @ '' *'') ''::''"
    with assms show False by (auto simp: plain_class_def startswith_iff append_eq_Cons_conv)
  qed
  with False show ?thesis by (simp add: drop_root_def)
qed

lemma traits_spelling:
  assumes "plain_class n" "p \<in> set ptr_prefixes" "list_all is_space w1" "list_all is_space w2" "list_all is_space w3"
  shows "untransformed_type_traits (spelling p w1 (pointee front root n behind) w2 w3) = (Some (n @ '' *''), front \<or> behind)"
proof -
  define x where "x = pointee front root n behind"
  note x = pointee_ends [OF assms(1), of front root behind, folded x_def]
  have "match_ptr (spelling p w1 x w2 w3) = match_target ((w1 @ x @ w2) @ ''>'' @ w3)"
    using match_ptr_prefix [OF assms(2), of "(w1 @ x @ w2) @ ''>'' @ w3"] by (simp add: spelling_def)
  also have "\<dots> = Some (w1 @ x @ w2)"
    using x(1,4) no_bracket_in_space [OF assms(3)] no_bracket_in_space [OF assms(4)] assms(5)
    by (intro match_target_some) simp_all
  finally have "match_ptr (spelling p w1 x w2 w3) = Some (w1 @ x @ w2)" .
  moreover have "strip (w1 @ x @ w2) = x" by (rule strip_padded [OF assms(3,4) x(1,2,3)])
  ultimately show ?thesis
    using drop_const_pointee [OF assms(1), of front root behind] drop_root_pointee [OF assms(1), of root]
    by (simp add: untransformed_type_traits_def x_def [symmetric])
qed

lemma corrected_is_spelling:
  "corrected_ctype (n @ '' *'') c = spelling ''ns3::'' '' '' (pointee False False n c) '' '' []"
  by (simp add: corrected_ctype_def spelling_def pointee_def)

text \<open>
  C28: every spelling of a smart pointer to a class (with the namespace \<^verbatim>\<open>ns3\<close>, with a leading
  \<^verbatim>\<open>::\<close> or with neither, with any spaces, with \<^verbatim>\<open>const\<close> in front, behind or both) gets the
  one corrected type \<^verbatim>\<open>ns3::Ptr< n >\<close> or \<^verbatim>\<open>ns3::Ptr< n const >\<close> and the pointer type
  \<^verbatim>\<open>n *\<close>; the corrected type is recognised again and is its own correction; and the transformation
  of the pointer type is a smart pointer to the class.
\<close>

theorem smart_pointer_canonical:
  assumes "plain_class n" and "p \<in> set ptr_prefixes"
    and "list_all is_space w1" and "list_all is_space w2" and "list_all is_space w3"
    and "kind \<noteq> OtherHandler"
  shows "\<exists>owner canonical.
    create_type_handler kind (spelling p w1 (pointee front root n behind) w2 w3) =
      Inr (owner, canonical, n @ '' *'') \<and>
    canonical = corrected_ctype (n @ '' *'') (front \<or> behind) \<and>
    create_type_handler kind canonical = Inr (owner, canonical, n @ '' *'') \<and>
    transform (n @ '' *'') e = Inr (''ns3::Ptr< '' @ n @ ''  > ('' @ e @ '')'')"
proof -
  have "untransformed_type_traits (corrected_ctype (n @ '' *'') c) = (Some (n @ '' *''), c)" for c
    unfolding corrected_is_spelling
    by (subst traits_spelling [OF assms(1)]) (simp_all add: ptr_prefixes_def is_space_def)
  with traits_spelling [OF assms(1-5), of front root behind] assms(6) show ?thesis
    by (simp add: create_type_handler_def Let_def transform_def py_assert_def butlast_append)
qed

theorem smart_pointer_canonical_witness:
  "create_type_handler ParameterHandler ''Ptr< const ::ns3::Node >'' =
     Inr (''transfer_ownership'', ''ns3::Ptr< ns3::Node const >'', ''ns3::Node *'')"
proof -
  have plain: "plain_class ''ns3::Node''" by (simp add: plain_class_def is_space_def endswith_def)
  from smart_pointer_canonical [OF plain, of "[]" "'' ''" "'' ''" "[]" ParameterHandler True True False e]
  obtain owner where "create_type_handler ParameterHandler ''Ptr< const ::ns3::Node >'' =
      Inr (owner, ''ns3::Ptr< ns3::Node const >'', ''ns3::Node *'')"
    by (auto simp: spelling_def pointee_def corrected_ctype_def is_space_def ptr_prefixes_def)
  moreover have "owner = ''transfer_ownership'' \<or> create_type_handler ParameterHandler s \<noteq> Inr (owner, c, o')" for s c o'
    by (auto simp: create_type_handler_def split: prod.splits option.splits)
  ultimately show ?thesis by metis
qed

text \<open>A pointer to a template instance is not recognised.\<close>

lemma template_pointee_refused:
  assumes "CHR ''>'' \<notin> set a" "\<not> list_all is_space b" "p \<in> set ptr_prefixes" "kind \<noteq> OtherHandler"
  shows "get_untransformed_name (p @ ''Ptr<'' @ a @ ''>'' @ b) = None"
    "create_type_handler kind (p @ ''Ptr<'' @ a @ ''>'' @ b) = Inl TypeError"
  using match_ptr_prefix [OF assms(3), of "a @ ''>'' @ b"] match_target_none [OF assms(1,2)] assms(4)
  by (simp_all add: get_untransformed_name_def create_type_handler_def untransformed_type_traits_def)

section \<open>Properties of the callbacks\<close>

definition gives_impl :: "type_handlers \<Rightarrow> string list \<Rightarrow> bool" where
  "gives_impl th ps = (return_known th (hd ps) \<and> list_all (param_known th) (callback_parameters ps))"

definition gives_disabled :: "type_handlers \<Rightarrow> string list \<Rightarrow> bool" where
  "gives_disabled th ps = (return_known th (hd ps) \<and> \<not> list_all (param_known th) (callback_parameters ps))"

lemma impl_name_inject: "impl_name i = impl_name j \<longleftrightarrow> i = j"
proof
  assume "impl_name i = impl_name j"
  then have "int_of_digits (show_nat i) = int_of_digits (show_nat j)" by (simp add: impl_name_def)
  then show "i = j" by (simp add: int_of_show_nat)
qed simp

lemma generate_one:
  assumes "ps \<noteq> []"
  shows "\<exists>st'. generate_callback_class th st (i, ps) = Inr st' \<and>
    generated st' = generated st @ (if gives_impl th ps then [(impl_name i, callback_parameters ps)] else []) \<and>
    handlers st' = (if gives_disabled th ps then disable (callback_name ps) (handlers st) else handlers st)"
proof -
  have "py_index ps 0 = Inr (hd ps)" using assms by (simp add: py_index_def hd_conv_nth)
  then show ?thesis
    by (auto simp: generate_callback_class_def Let_def gives_impl_def gives_disabled_def)
qed

lemma disable_map: "disable c hs = map (\<lambda>h. h\<lparr>disabled := disabled h \<or> ctype h = c\<rparr>) hs"
  unfolding disable_def by (intro map_cong) auto

lemma generate_all:
  assumes "list_all (\<lambda>ip. snd ip \<noteq> []) ips"
  shows "\<exists>st'. for_each (generate_callback_class th) ips st = Inr st' \<and>
    generated st' = generated st @ map (\<lambda>(i, ps). (impl_name i, callback_parameters ps)) (filter (gives_impl th \<circ> snd) ips) \<and>
    handlers st' = map (\<lambda>h. h\<lparr>disabled := disabled h \<or>
       (\<exists>ip\<in>set ips. gives_disabled th (snd ip) \<and> ctype h = callback_name (snd ip))\<rparr>) (handlers st)"
  using assms
proof (induction ips arbitrary: st)
  case (Cons ip ips)
  obtain i ps where ip: "ip = (i, ps)" by (cases ip)
  obtain st1 where st1: "generate_callback_class th st (i, ps) = Inr st1"
    "generated st1 = generated st @ (if gives_impl th ps then [(impl_name i, callback_parameters ps)] else [])"
    "handlers st1 = (if gives_disabled th ps then disable (callback_name ps) (handlers st) else handlers st)"
    using generate_one [of ps th st i] Cons.prems ip by auto
  obtain st' where st': "for_each (generate_callback_class th) ips st1 = Inr st'"
    "generated st' = generated st1 @ map (\<lambda>(i, ps). (impl_name i, callback_parameters ps)) (filter (gives_impl th \<circ> snd) ips)"
    "handlers st' = map (\<lambda>h. h\<lparr>disabled := disabled h \<or>
       (\<exists>ip\<in>set ips. gives_disabled th (snd ip) \<and> ctype h = callback_name (snd ip))\<rparr>) (handlers st1)"
    using Cons.IH [of st1] Cons.prems by (simp only: list.pred_inject) blast
  have "handlers st' = map (\<lambda>h. h\<lparr>disabled := disabled h \<or>
       (\<exists>ip\<in>set (ip # ips). gives_disabled th (snd ip) \<and> ctype h = callback_name (snd ip))\<rparr>) (handlers st)"
    unfolding st'(3) st1(3) ip by (auto simp: disable_map)
  with st1(1,2) st'(1,2) ip show ?case by (auto simp: comp_def)
qed simp


definition demo_handlers :: type_handlers where
  "demo_handlers = \<lparr>return_known = (\<lambda>r. r = ''void''), param_known = (\<lambda>p. p = ''double'')\<rparr>"

definition demo_callbacks :: "string list list" where
  "demo_callbacks = [[''void'', ''double''], [''void'', ''Foo''], [''int'']]"


text \<open>
  A callback whose returned type has no handler: no class is generated, and the wrapper that names
  the class is generated all the same.
\<close>

lemma dangling_callback:
  assumes "ps \<noteq> []" "\<not> return_known th (hd ps)"
  shows "\<exists>st. generate_callback_classes th (register_callback_classes [ps]) [ps] = Inr st \<and>
    generated st = [] \<and> (\<exists>code. convert_python_to_c declare (handlers st ! 0) name dflt = Inr code)"
proof -
  have "list_all (\<lambda>ps. ps \<noteq> []) [ps]" "distinct (map callback_name [ps])" using assms(1) by simp_all
  moreover have "py_index ps 0 = Inr (hd ps)" using assms(1) by (simp add: py_index_def hd_conv_nth)
  ultimately show ?thesis
    using assms(2)
    by (auto simp: generate_callback_classes_def generate_callback_class_def register_callback_classes_def Let_def
        convert_python_to_c_def split: option.split)
qed

section \<open>Properties of the driver and of the other customizations\<close>

lemma attribute_customizations_idem:
  "attribute_customizations (attribute_customizations cs) = attribute_customizations cs"
  by (simp add: attribute_customizations_def attribute_param_def comp_def)

text \<open>Every run leaves the search path as it was; when it generates, the types are registered
  before the methods and these before the functions, and the callbacks are generated from the list
  they were registered from.\<close>

lemma modulegen_path_restored: "snd (modulegen_main imports argv path) = path"
  by (auto simp: modulegen_main_def Let_def split: list.splits)

lemma modulegen_callbacks_same:
  assumes "fst (modulegen_main imports argv path) = Inr phases"
  shows "\<exists>cbs before between after. phases = before @ RegisterCallbacks cbs # between @ GenerateCallbacks cbs # after \<and>
    RegisterTypes \<in> set before \<and> RegisterMethods \<in> set between \<and> RegisterFunctions \<in> set after"
proof -
  obtain im m e where "phases = generation im m e"
    using assms by (auto simp: modulegen_main_def Let_def split: list.splits if_splits)
  then show ?thesis
    unfolding generation_def Let_def
    by (intro exI [of _ "case callbacks_list im of Some c \<Rightarrow> c | None \<Rightarrow> []"]
        exI [of _ "[ModuleInit, SetName e, AddInclude ([CHR 0x22] @ ''ns3/'' @ m @ ''-module.h'' @ [CHR 0x22]), IosOpenmode, RegisterTypes]
          @ hooked im ''post_register_types'' PostTypes"]
        exI [of _ "RegisterMethods # hooked im ''post_register_methods'' PostMethods @ [ObjectCustomizations, AttributeCustomizations]"]
        exI [of _ "RegisterFunctions # hooked im ''post_register_functions'' PostFunctions @ [Generate]"]) simp
qed

text \<open>The stack is reversed in place: handled a second time, an error is placed at the other end.\<close>

lemma handle_error_twice:
  "fst (handle_error f (snd (handle_error f stack))) = List.find (\<lambda>l. fst l = f) stack"
  by (simp add: handle_error_def)

end
