(* ===== verification/Boost.thy ===== *)
theory Boost
  imports Prelude "HOL-Library.Char_ord" "HOL-Library.List_Lexorder" "HOL-Library.Product_Lexorder"
begin

text \<open>
  \<^verbatim>\<open>waf-tools/boost.py\<close>: the search for the headers and the libraries of Boost. The host is the
  record \<open>boost_host\<close>: the directories with their files, the environment variables, the compiler,
  and whether a test program compiles with a given build environment. The build environment is a
  function from variable names to lists of words (the empty list for a variable that is not set,
  as in waf). A pattern is a term of the datatype \<open>re\<close>; the texts that the program inserts into
  its patterns are read as waf and Boost have them, without special characters other than the dot.
\<close>

section \<open>Patterns\<close>

datatype re =
    RChar char | RAny | RDigits | RSeq re re | RAlt re re | ROpt re | REmpty
  | RNonDigitAhead | RNotAhead string | REnd

text \<open>What can be left of a text after a match at its start: \<^verbatim>\<open>RDigits\<close> is \<^verbatim>\<open>[0-9]{0,3}\<close>, the
  two look-aheads are \<^verbatim>\<open>(?=[^0-9])\<close> and \<^verbatim>\<open>(?!w)\<close>, and \<^verbatim>\<open>$\<close> matches at the end or before a final
  line feed.\<close>

fun rests :: "re \<Rightarrow> string \<Rightarrow> string list" where
  "rests (RChar c) s = (case s of [] \<Rightarrow> [] | x # xs \<Rightarrow> if x = c then [xs] else [])"
| "rests RAny s = (case s of [] \<Rightarrow> [] | x # xs \<Rightarrow> if x = CHR 0x0A then [] else [xs])"
| "rests RDigits s = map (\<lambda>k. drop k s) [0..<Suc (min 3 (length (takeWhile is_digit s)))]"
| "rests (RSeq a b) s = concat (map (rests b) (rests a s))"
| "rests (RAlt a b) s = rests a s @ rests b s"
| "rests (ROpt a) s = rests a s @ [s]"
| "rests REmpty s = [s]"
| "rests RNonDigitAhead s = (case s of [] \<Rightarrow> [] | x # xs \<Rightarrow> if is_digit x then [] else [s])"
| "rests (RNotAhead w) s = (if startswith s w then [] else [s])"
| "rests REnd s = (if s = [] \<or> s = [CHR 0x0A] then [s] else [])"

fun tails :: "'a list \<Rightarrow> 'a list list" where
  "tails [] = [[]]"
| "tails (x # xs) = (x # xs) # tails xs"

text \<open>\<^verbatim>\<open>re.compile(r).search(s)\<close> as a truth value\<close>

definition re_search :: "re \<Rightarrow> string \<Rightarrow> bool" where
  "re_search r s = list_ex (\<lambda>t. rests r t \<noteq> []) (tails s)"

fun seqs :: "re list \<Rightarrow> re" where
  "seqs [] = REmpty"
| "seqs (r # rs) = RSeq r (seqs rs)"

text \<open>A text as part of a pattern: a dot stands for any character.\<close>

definition re_text :: "string \<Rightarrow> re" where
  "re_text w = seqs (map (\<lambda>c. if c = CHR ''.'' then RAny else RChar c) w)"

section \<open>The host\<close>

record boost_host =
  find_dir :: "string \<Rightarrow> string option"
  boost_files :: "string \<Rightarrow> string list"
  version_file :: "string \<Rightarrow> string option option"
  environ_include :: string
  environ_lib :: string
  platform :: string
  run_version :: "string \<Rightarrow> string option"
  links :: "(string \<Rightarrow> string list) \<Rightarrow> string \<Rightarrow> bool"
  list_dir :: "string \<Rightarrow> string list"

type_synonym benv = "string \<Rightarrow> string list"

datatype boost_error = ConfigurationError | BoostRaise py_error

definition BOOST_LIBS :: "string list" where
  "BOOST_LIBS = [''/usr/lib/x86_64-linux-gnu'', ''/usr/lib/i386-linux-gnu'', ''/usr/lib'', ''/usr/local/lib'',
     ''/opt/local/lib'', ''/sw/lib'', ''/lib'']"

definition BOOST_INCLUDES :: "string list" where
  "BOOST_INCLUDES = [''/usr/include'', ''/usr/local/include'', ''/opt/local/include'', ''/sw/include'']"

datatype toolset = Fixed string | DetectIntel | DetectClang | DetectMingw

definition BOOST_TOOLSETS :: "(string, toolset) dict" where
  "BOOST_TOOLSETS =
    [(''borland'', Fixed ''bcb''), (''clang'', DetectClang), (''como'', Fixed ''como''), (''cw'', Fixed ''cw''),
     (''darwin'', Fixed ''xgcc''), (''edg'', Fixed ''edg''), (''g++'', DetectMingw), (''gcc'', DetectMingw),
     (''icpc'', DetectIntel), (''intel'', DetectIntel), (''kcc'', Fixed ''kcc''), (''kylix'', Fixed ''bck''),
     (''mipspro'', Fixed ''mp''), (''mingw'', Fixed ''mgw''), (''msvc'', Fixed ''vc''), (''qcc'', Fixed ''qcc''),
     (''sun'', Fixed ''sw''), (''sunc++'', Fixed ''sw''), (''tru64cxx'', Fixed ''tru''), (''vacpp'', Fixed ''xlc'')]"

section \<open>Headers\<close>

text \<open>\<^verbatim>\<open>__boost_get_version_file\<close>: no directory, or no version header in it; else its text, none
  when it cannot be read.\<close>

definition boost_get_version_file :: "boost_host \<Rightarrow> string \<Rightarrow> string option option" where
  "boost_get_version_file h d =
     (if d = [] then None
      else case find_dir h d of
        None \<Rightarrow> None
      | Some node \<Rightarrow> version_file h node)"

text \<open>The search for \<^verbatim>\<open>^#define\s+BOOST_LIB_VERSION\s+"(.*)"\<close> at the start of a line: the group
  goes to the last quotation mark of its line.\<close>

definition skip_spaces :: "string \<Rightarrow> string option" where
  "skip_spaces s = (case s of [] \<Rightarrow> None | c # _ \<Rightarrow> if is_space c then Some (dropWhile is_space s) else None)"

definition quoted_group :: "string \<Rightarrow> string option" where
  "quoted_group s =
     (case s of
        [] \<Rightarrow> None
      | c # r \<Rightarrow>
          if c \<noteq> CHR 0x22 then None
          else let line = takeWhile (\<lambda>x. x \<noteq> CHR 0x0A) r in
               if CHR 0x22 \<in> set line then Some (rev (tl (dropWhile (\<lambda>x. x \<noteq> CHR 0x22) (rev line)))) else None)"

definition version_at :: "string \<Rightarrow> string option" where
  "version_at s =
     Option.bind (after_prefix ''#define'' s) (\<lambda>a. Option.bind (skip_spaces a) (\<lambda>b.
       Option.bind (after_prefix ''BOOST_LIB_VERSION'' b) (\<lambda>c. Option.bind (skip_spaces c) quoted_group)))"

fun search_version :: "bool \<Rightarrow> string \<Rightarrow> string option" where
  "search_version line_start [] = None"
| "search_version line_start (c # s) =
     (if line_start \<and> version_at (c # s) \<noteq> None then version_at (c # s)
      else search_version (c = CHR 0x0A) s)"

definition boost_get_version :: "boost_host \<Rightarrow> string \<Rightarrow> boost_error + string" where
  "boost_get_version h d =
     (case (case boost_get_version_file h d of
              Some (Some txt) \<Rightarrow> search_version True txt | _ \<Rightarrow> None) of
        Some v \<Rightarrow> Inr v
      | None \<Rightarrow> (case run_version h d of Some v \<Rightarrow> Inr v | None \<Rightarrow> Inl ConfigurationError))"

definition boost_get_includes :: "boost_host \<Rightarrow> string \<Rightarrow> boost_error + string" where
  "boost_get_includes h includes =
     (if includes \<noteq> [] \<and> boost_get_version_file h includes \<noteq> None then Inr includes
      else case List.find (\<lambda>d. boost_get_version_file h d \<noteq> None)
                  (split_on CHR '';'' (environ_include h) @ BOOST_INCLUDES) of
             Some d \<Rightarrow> Inr d
           | None \<Rightarrow> Inl ConfigurationError)"

section \<open>The toolset\<close>

definition first_word :: "string list \<Rightarrow> boost_error + string" where
  "first_word ws = (case ws of [] \<Rightarrow> Inl (BoostRaise IndexError) | w # _ \<Rightarrow> Inr w)"

definition detect :: "boost_host \<Rightarrow> benv \<Rightarrow> toolset \<Rightarrow> boost_error + string" where
  "detect h env t =
     (case t of
        Fixed s \<Rightarrow> Inr s
      | DetectIntel \<Rightarrow> Inr (if platform h = ''win32'' then ''iw'' else ''il'')
      | DetectClang \<Rightarrow> Inr (if platform h = ''darwin'' then ''clang-darwin'' else ''clang'')
      | DetectMingw \<Rightarrow>
          rbind (first_word (env ''CXX'')) (\<lambda>cxx. Inr (if contains cxx ''MinGW'' then ''mgw'' else ''gcc'')))"

text \<open>A variable of the environment that holds one word\<close>

definition word_of :: "benv \<Rightarrow> string \<Rightarrow> string" where
  "word_of env k = concat (env k)"

text \<open>\<^verbatim>\<open>boost_get_toolset\<close>: without a name, the platform or the compiler decides; a compiler that is
  not in the table leaves the empty name, which is then called as a function.\<close>

definition boost_get_toolset :: "boost_host \<Rightarrow> benv \<Rightarrow> string \<Rightarrow> boost_error + string" where
  "boost_get_toolset h env cc =
     (let cc' = (if cc = [] then if has_key BOOST_TOOLSETS (platform h) then platform h else word_of env ''CXX_NAME''
                 else cc)
      in case map_of BOOST_TOOLSETS cc' of
           Some t \<Rightarrow> detect h env t
         | None \<Rightarrow> if cc = [] then Inl (BoostRaise TypeError) else Inr cc)"

section \<open>Libraries\<close>

text \<open>
  \<^verbatim>\<open>__boost_get_libs_path\<close>: the variables \<^verbatim>\<open>path\<close> and \<^verbatim>\<open>files\<close>, the latter unbound at first,
  through the loop over the directories; the first component of the result of the loop tells
  whether it was left by \<^verbatim>\<open>break\<close>.
\<close>

definition try_dir :: "boost_host \<Rightarrow> string \<Rightarrow> string list option \<Rightarrow> bool \<times> string option \<times> string list option" where
  "try_dir h d fs =
     (case find_dir h d of
        None \<Rightarrow> (False, None, fs)
      | Some p \<Rightarrow> (boost_files h p \<noteq> [], Some p, Some (boost_files h p)))"

fun libs_loop ::
  "boost_host \<Rightarrow> string list \<Rightarrow> string option \<Rightarrow> string list option \<Rightarrow> string option \<times> string list option" where
  "libs_loop h [] path fs = (path, fs)"
| "libs_loop h (d # ds) path fs =
     (if d = [] then libs_loop h ds path fs
      else case try_dir h d fs of
        (True, p, fs') \<Rightarrow> (p, fs')
      | (False, _, fs') \<Rightarrow>
          (case try_dir h (d @ ''64'') fs' of
             (True, p, fs'') \<Rightarrow> (p, fs'')
           | (False, p, fs'') \<Rightarrow> libs_loop h ds p fs''))"

definition lib_dirs :: "boost_host \<Rightarrow> string list" where
  "lib_dirs h = split_on CHR '';'' (environ_lib h) @ BOOST_LIBS"

definition boost_get_libs_path ::
  "boost_host \<Rightarrow> string \<Rightarrow> bool \<Rightarrow> boost_error + string option \<times> string list" where
  "boost_get_libs_path h libs required =
     rbind (if libs = [] then Inr (libs_loop h (lib_dirs h) None None)
            else case find_dir h libs of
              None \<Rightarrow> Inl (BoostRaise AttributeError)
            | Some p \<Rightarrow>
                if boost_files h p = [] then Inr (libs_loop h (lib_dirs h) (Some p) (Some []))
                else Inr (Some p, Some (boost_files h p)))
       (\<lambda>(path, fs).
          if path = None \<and> required then Inl ConfigurationError
          else case fs of None \<Rightarrow> Inl (BoostRaise UnboundLocalError) | Some files \<Rightarrow> Inr (path, files))"

text \<open>\<^verbatim>\<open>sorted(files, key=lambda f: (len(f.name), f.name), reverse=True)\<close>\<close>

definition sort_files :: "string list \<Rightarrow> string list" where
  "sort_files fs = rev (sort_key (\<lambda>f. (length f, f)) (rev fs))"

definition find_lib :: "re \<Rightarrow> string list \<Rightarrow> string option" where
  "find_lib r files = List.find (re_search r) files"

text \<open>\<^verbatim>\<open>name[:name.rfind('.')]\<close> drops the last character of a name without a dot.\<close>

definition cut_extension :: "string \<Rightarrow> string" where
  "cut_extension n =
     (if CHR ''.'' \<in> set n then rev (tl (dropWhile (\<lambda>c. c \<noteq> CHR ''.'') (rev n))) else butlast n)"

definition format_lib_name :: "benv \<Rightarrow> string \<Rightarrow> string" where
  "format_lib_name env n =
     cut_extension (if startswith n ''lib'' \<and> word_of env ''CC_NAME'' \<noteq> ''msvc'' then drop 3 n else n)"

text \<open>The names of the libraries as the caller gives them: a string of words, or a list.\<close>

datatype lib_names = NoLibs | LibWords string | LibList "string list"

fun words :: "string \<Rightarrow> string list" where
  "words s = filter (\<lambda>w. w \<noteq> []) (split_on CHR '' '' (map (\<lambda>c. if is_space c then CHR '' '' else c) s))"

fun to_list :: "lib_names \<Rightarrow> string list" where
  "to_list NoLibs = []"
| "to_list (LibWords s) = words s"
| "to_list (LibList l) = l"

record boost_params =
  p_includes :: string
  p_libs :: string
  p_mt :: bool
  p_abi :: string
  p_autodetect :: bool
  p_toolset :: string
  p_python :: string
  p_lib :: lib_names
  p_stlib :: lib_names
  p_required :: bool

definition lib_tags :: "boost_params \<Rightarrow> bool \<Rightarrow> string" where
  "lib_tags ps is_static =
     (if p_mt ps then ''-mt'' else []) @
     (if p_abi ps \<noteq> [] then (if is_static then ''-s'' else ''-'') @ p_abi ps
      else if is_static then ''-s'' else [])"

text \<open>\<^verbatim>\<open>ext.partition('%s')[2]\<close>\<close>

fun after_place :: "string \<Rightarrow> string" where
  "after_place [] = []"
| "after_place (c # s) = (if startswith (c # s) ''%s'' then tl s else after_place s)"

definition lib_ext :: "benv \<Rightarrow> bool \<Rightarrow> string" where
  "lib_ext env is_static =
     after_place (word_of env (if is_static then ''cxxstlib_PATTERN'' else ''cxxshlib_PATTERN''))"

definition python_tags :: "string \<Rightarrow> string \<Rightarrow> re" where
  "python_tags tags python =
     RSeq (ROpt (re_text tags))
      (RAlt (re_text (''-py'' @ python))
      (RAlt (RSeq (re_text (''-py'' @ take 1 python)) RNonDigitAhead)
      (RAlt (re_text python)
      (RAlt (RSeq (re_text (take 1 python)) RNonDigitAhead)
            (RSeq RNonDigitAhead (RNotAhead ''-py''))))))"

text \<open>The patterns for a library, from the strictest to the least strict\<close>

definition lib_patterns :: "benv \<Rightarrow> boost_params \<Rightarrow> string \<Rightarrow> bool \<Rightarrow> string \<Rightarrow> re list" where
  "lib_patterns env ps toolset is_static lib =
     (let tags_pat = lib_tags ps is_static;
          tags = (if lib = ''python'' then python_tags tags_pat (p_python ps) else re_text tags_pat);
          toolset_pat = RSeq (re_text (''-'' @ toolset)) RDigits;
          version = re_text (''-'' @ word_of env ''BOOST_VERSION'');
          ext = re_text (lib_ext env is_static);
          name = re_text (''boost_'' @ lib)
      in [seqs [name, toolset_pat, tags, version, ext, REnd],
          seqs [name, tags, version, ext, REnd],
          seqs [name, toolset_pat, tags, ext, REnd],
          seqs [name, tags, ext, REnd],
          seqs [name, ext, REnd],
          name])"

fun first_match :: "re list \<Rightarrow> string list \<Rightarrow> string option" where
  "first_match [] files = None"
| "first_match (r # rs) files =
     (case find_lib r files of Some f \<Rightarrow> Some f | None \<Rightarrow> first_match rs files)"

fun match_each :: "benv \<Rightarrow> boost_params \<Rightarrow> string \<Rightarrow> string list \<Rightarrow> bool \<Rightarrow> string list \<Rightarrow> boost_error + string list" where
  "match_each env ps toolset files is_static [] = Inr []"
| "match_each env ps toolset files is_static (lib # libs) =
     (if lib = ''python'' \<and> p_python ps = [] then Inl (BoostRaise IndexError)
      else case first_match (lib_patterns env ps toolset is_static lib) files of
        Some f \<Rightarrow> rbind (match_each env ps toolset files is_static libs) (\<lambda>fs. Inr (format_lib_name env f # fs))
      | None \<Rightarrow> if p_required ps then Inl ConfigurationError else match_each env ps toolset files is_static libs)"

definition boost_get_libs ::
  "boost_host \<Rightarrow> benv \<Rightarrow> boost_params \<Rightarrow> boost_error + string \<times> string list \<times> string list" where
  "boost_get_libs h env ps =
     rbind (boost_get_libs_path h (p_libs ps) (p_required ps)) (\<lambda>(path, fs).
     rbind (boost_get_toolset h env (p_toolset ps)) (\<lambda>toolset.
       case path of
         None \<Rightarrow> Inl (BoostRaise AttributeError)
       | Some p \<Rightarrow>
           rbind (match_each env ps toolset (sort_files fs) False (to_list (p_lib ps))) (\<lambda>libs.
           rbind (match_each env ps toolset (sort_files fs) True (to_list (p_stlib ps))) (\<lambda>stlibs.
             Inr (p, libs, stlibs)))))"

section \<open>The check\<close>

text \<open>The parameters: the command line has priority over the keywords of the call.\<close>

definition check_params :: "boost_params \<Rightarrow> boost_params \<Rightarrow> boost_params" where
  "check_params opts kw =
     \<lparr>p_includes = (if p_includes opts \<noteq> [] then p_includes opts else p_includes kw),
      p_libs = (if p_libs opts \<noteq> [] then p_libs opts else p_libs kw),
      p_mt = (p_mt opts \<or> p_mt kw),
      p_abi = (if p_abi opts \<noteq> [] then p_abi opts else p_abi kw),
      p_autodetect = (p_autodetect opts \<or> p_autodetect kw),
      p_toolset = (if p_toolset opts \<noteq> [] then p_toolset opts else p_toolset kw),
      p_python = (if p_python opts \<noteq> [] then p_python opts else p_python kw),
      p_lib = p_lib kw, p_stlib = p_stlib kw, p_required = p_required kw\<rparr>"

fun no_names :: "lib_names \<Rightarrow> bool" where
  "no_names NoLibs = True"
| "no_names (LibWords s) = (s = [])"
| "no_names (LibList l) = (l = [])"

text \<open>\<^verbatim>\<open>'system' in params['lib']\<close>: a part of the string, or a member of the list\<close>

fun names_have :: "lib_names \<Rightarrow> string \<Rightarrow> bool" where
  "names_have NoLibs w = False"
| "names_have (LibWords s) w = (s \<noteq> [] \<and> contains s w)"
| "names_have (LibList l) w = (w \<in> set l)"

definition try_link :: "boost_host \<Rightarrow> boost_params \<Rightarrow> benv \<Rightarrow> bool" where
  "try_link h ps env =
     list_all (\<lambda>w. (names_have (p_lib ps) w \<or> names_have (p_stlib ps) w) \<longrightarrow> links h env w)
       [''system'', ''thread'']"

definition var_name :: "string \<Rightarrow> string \<Rightarrow> string" where
  "var_name prefix var = prefix @ ''_'' @ var"

definition store_libs :: "string \<Rightarrow> string \<Rightarrow> string list \<Rightarrow> string list \<Rightarrow> benv \<Rightarrow> benv" where
  "store_libs var path libs stlibs env =
     (let env1 = (if libs \<noteq> [] then env(var_name ''LIBPATH'' var := [path], var_name ''LIB'' var := libs) else env)
      in if stlibs \<noteq> [] then env1(var_name ''STLIBPATH'' var := [path], var_name ''STLIB'' var := stlibs) else env1)"

text \<open>The linkage detection for the Microsoft compiler: without a dynamic library in the directory
  the libraries are taken as static, and two settings of the compiler flags are tried, each undone
  when it does not link.\<close>

definition place_removed :: "string \<Rightarrow> string" where
  "place_removed pat = take (length pat - length (after_place pat) - 2) pat @ after_place pat"

definition detect_env :: "boost_host \<Rightarrow> string \<Rightarrow> string \<Rightarrow> string list \<Rightarrow> benv \<Rightarrow> benv" where
  "detect_env h var path libs env =
     (let env1 = env(var_name ''DEFINES'' var := env (var_name ''DEFINES'' var) @ [''BOOST_ALL_NO_LIB'']) in
      if list_ex (\<lambda>x. endswith x (place_removed (word_of env ''cxxshlib_PATTERN''))) (list_dir h path) then env1
      else env1(var_name ''STLIBPATH'' var := [path], var_name ''STLIB'' var := libs,
                var_name ''LIB'' var := [], var_name ''LIBPATH'' var := []))"

fun try_flags :: "boost_host \<Rightarrow> boost_params \<Rightarrow> string \<Rightarrow> string list list \<Rightarrow> benv \<Rightarrow> boost_error + benv" where
  "try_flags h ps var [] env = Inl ConfigurationError"
| "try_flags h ps var (fl # fls) env =
     (let env' = env(var_name ''CXXFLAGS'' var := env (var_name ''CXXFLAGS'' var) @ fl) in
      if try_link h ps env' then Inr env' else try_flags h ps var fls env)"

definition check_linkage ::
  "boost_host \<Rightarrow> boost_params \<Rightarrow> string \<Rightarrow> string \<Rightarrow> string \<Rightarrow> string list \<Rightarrow> benv \<Rightarrow> boost_error + benv" where
  "check_linkage h ps kw_toolset var path libs env =
     (if p_autodetect ps then
        rbind (boost_get_toolset h env kw_toolset) (\<lambda>toolset.
          if toolset = ''vc'' then try_flags h ps var [[''/MD'', ''/EHsc''], []] (detect_env h var path libs env)
          else Inl ConfigurationError)
      else if try_link h ps env then Inr env else Inl ConfigurationError)"

definition check_boost ::
  "boost_host \<Rightarrow> boost_params \<Rightarrow> boost_params \<Rightarrow> string \<Rightarrow> benv \<Rightarrow> boost_error + benv" where
  "check_boost h opts kw var env =
     (if env ''CXX'' = [] then Inl ConfigurationError
      else
        let ps = check_params opts kw in
        rbind (boost_get_includes h (p_includes ps)) (\<lambda>inc.
        rbind (boost_get_version h inc) (\<lambda>version.
          let env1 = env(var_name ''INCLUDES'' var := [inc], ''BOOST_VERSION'' := [version]) in
          if no_names (p_lib ps) \<and> no_names (p_stlib ps) then Inr env1
          else
            rbind (boost_get_libs h env1 ps) (\<lambda>(path, libs, stlibs).
              check_linkage h ps (p_toolset kw) var path libs (store_libs var path libs stlibs env1)))))"

text \<open>\<^verbatim>\<open>install_boost\<close>: once, on Windows, when installing; a library that is not found is left out.\<close>

definition install_boost ::
  "(string \<Rightarrow> string option) \<Rightarrow> bool \<Rightarrow> string \<Rightarrow> string list \<Rightarrow> bool \<Rightarrow> bool \<times> string list" where
  "install_boost find_file is_win32 cmd libs done_before =
     (if done_before \<or> \<not> is_win32 \<or> \<not> startswith cmd ''install'' then (done_before, [])
      else (True, List.map_filter find_file libs))"

section \<open>Properties of the patterns\<close>

lemma tails_iff: "t \<in> set (tails s) \<longleftrightarrow> (\<exists>a. s = a @ t)"
proof (induction s)
  case (Cons x s)
  then show ?case by (auto simp: Cons_eq_append_conv)
qed auto

lemma re_search_iff: "re_search r s \<longleftrightarrow> (\<exists>a t. s = a @ t \<and> rests r t \<noteq> [])"
  unfolding re_search_def list_ex_iff tails_iff Bex_def by blast

lemma rests_seqs_append: "set (rests (seqs (rs @ rs')) s) = (\<Union>t\<in>set (rests (seqs rs) s). set (rests (seqs rs') t))"
  by (induction rs arbitrary: s) auto

lemma rests_text:
  assumes "CHR 0x0A \<notin> set w"
  shows "t \<in> set (rests (re_text w) (w @ t))"
  using assms by (induction w) (auto simp: re_text_def)

lemma search_text:
  assumes "CHR 0x0A \<notin> set w" "contains s w"
  shows "re_search (re_text w) s"
proof -
  obtain a b where "s = a @ w @ b" using assms(2) by (auto simp: contains_iff)
  moreover have "rests (re_text w) (w @ b) \<noteq> []" using rests_text [OF assms(1), of b] by auto
  ultimately show ?thesis by (auto simp: re_search_iff)
qed

lemma sort_files_sorted:
  "set (sort_files fs) = set fs" "sorted (map (\<lambda>f. (length f, f)) (rev (sort_files fs)))"
  by (simp_all add: sort_files_def)

lemma find_largest:
  assumes "sorted (map k (rev xs))" "List.find P xs = Some x" "y \<in> set xs" "P y"
  shows "k y \<le> (k x :: 'b :: linorder)"
  using assms
proof (induction xs)
  case (Cons a xs)
  then show ?case by (auto simp: sorted_append split: if_splits)
qed simp

text \<open>
  The library chosen for a list of patterns is one that matches the first pattern which any file
  matches, and of those the longest name, and the last in the order of the names.
\<close>

definition best_match :: "re list \<Rightarrow> string list \<Rightarrow> string \<Rightarrow> bool" where
  "best_match rs fs f =
     (f \<in> set fs \<and> (\<exists>k<length rs. re_search (rs ! k) f \<and>
        (\<forall>g\<in>set fs. (\<forall>j<k. \<not> re_search (rs ! j) g) \<and>
           (re_search (rs ! k) g \<longrightarrow> (length g, g) \<le> (length f, f)))))"

lemma first_match_none: "first_match rs fs = None \<longleftrightarrow> (\<forall>r\<in>set rs. \<forall>f\<in>set fs. \<not> re_search r f)"
  by (induction rs) (auto simp: find_lib_def find_None_iff split: option.splits dest: find_SomeD)

lemma first_match_some: "first_match rs (sort_files fs) = Some f \<Longrightarrow> best_match rs fs f"
proof (induction rs)
  case (Cons r rs)
  show ?case
  proof (cases "find_lib r (sort_files fs)")
    case None
    with Cons have "best_match rs fs f" by simp
    then obtain k where k: "f \<in> set fs" "k < length rs" "re_search (rs ! k) f"
      "\<And>g. g \<in> set fs \<Longrightarrow> (\<forall>j<k. \<not> re_search (rs ! j) g) \<and>
         (re_search (rs ! k) g \<longrightarrow> (length g, g) \<le> (length f, f))"
      by (auto simp: best_match_def)
    have "\<not> re_search r g" if "g \<in> set fs" for g
      using None that sort_files_sorted(1) [of fs] by (auto simp: find_lib_def find_None_iff)
    with k have "(\<forall>j<Suc k. \<not> re_search ((r # rs) ! j) g) \<and>
        (re_search ((r # rs) ! Suc k) g \<longrightarrow> (length g, g) \<le> (length f, f))" if "g \<in> set fs" for g
      using that by (auto simp: less_Suc_eq_0_disj)
    with k(1-3) show ?thesis unfolding best_match_def by (intro conjI exI [of _ "Suc k"]) auto
  next
    case (Some g)
    with Cons.prems have f: "find_lib r (sort_files fs) = Some f" by simp
    then have "f \<in> set fs" "re_search r f"
      using find_SomeD [of "re_search r" "sort_files fs" f] sort_files_sorted(1) [of fs] by (auto simp: find_lib_def)
    moreover have "(length g, g) \<le> (length f, f)" if "g \<in> set fs" "re_search r g" for g
      using find_largest [OF sort_files_sorted(2) f [unfolded find_lib_def]] that sort_files_sorted(1) [of fs] by simp
    ultimately show ?thesis unfolding best_match_def by (intro conjI exI [of _ 0]) auto
  qed
qed simp

section \<open>Properties of the search for the libraries\<close>

definition dir_candidates :: "string list \<Rightarrow> string list" where
  "dir_candidates ds = concat (map (\<lambda>d. if d = [] then [] else [d, d @ ''64'']) ds)"

definition holds_boost :: "boost_host \<Rightarrow> string \<Rightarrow> bool" where
  "holds_boost h d = (case find_dir h d of None \<Rightarrow> False | Some p \<Rightarrow> boost_files h p \<noteq> [])"

lemma try_dir_hit: "fst (try_dir h d fs) = holds_boost h d"
  by (simp add: try_dir_def holds_boost_def split: option.split)

lemma try_dir_miss:
  "\<not> holds_boost h d \<Longrightarrow> try_dir h d fs = (False, find_dir h d, if find_dir h d = None then fs else Some [])"
  by (simp add: try_dir_def holds_boost_def split: option.splits)

lemma try_dir_found:
  "holds_boost h d \<Longrightarrow> \<exists>p. find_dir h d = Some p \<and> try_dir h d fs = (True, Some p, Some (boost_files h p))"
  by (auto simp: try_dir_def holds_boost_def split: option.splits)

lemma libs_loop_result:
  "case List.find (holds_boost h) (dir_candidates ds) of
     Some d \<Rightarrow> \<exists>p. find_dir h d = Some p \<and> libs_loop h ds path fs = (Some p, Some (boost_files h p))
   | None \<Rightarrow> \<exists>p fs'. libs_loop h ds path fs = (p, fs') \<and> (fs' = fs \<or> fs' = Some [])"
proof (induction ds arbitrary: path fs)
  case (Cons d ds)
  show ?case
  proof (cases "d = []")
    case True
    then have "libs_loop h (d # ds) path fs = libs_loop h ds path fs" "dir_candidates (d # ds) = dir_candidates ds"
      by (simp_all add: dir_candidates_def)
    with Cons.IH show ?thesis by (simp only:)
  next
    case False
    define fs1 where "fs1 = (if find_dir h d = None then fs else Some [])"
    define fs2 where "fs2 = (if find_dir h (d @ ''64'') = None then fs1 else Some [])"
    have cands: "dir_candidates (d # ds) = d # (d @ ''64'') # dir_candidates ds"
      using False by (simp add: dir_candidates_def)
    consider "holds_boost h d" | "\<not> holds_boost h d" "holds_boost h (d @ ''64'')"
      | "\<not> holds_boost h d" "\<not> holds_boost h (d @ ''64'')" by blast
    then show ?thesis
    proof cases
      case 1
      then show ?thesis using try_dir_found [OF 1, of fs] False by (auto simp: cands)
    next
      case 2
      then show ?thesis
        using try_dir_miss [OF 2(1), of fs] try_dir_found [OF 2(2), of fs1] False
        by (auto simp: cands fs1_def)
    next
      case 3
      then have "libs_loop h (d # ds) path fs = libs_loop h ds (find_dir h (d @ ''64'')) fs2"
        using False try_dir_miss [OF 3(1), of fs] try_dir_miss [OF 3(2), of fs1]
        by (simp add: fs1_def fs2_def)
      then show ?thesis
        using 3 Cons.IH [of "find_dir h (d @ ''64'')" fs2] by (auto simp: cands fs1_def fs2_def split: option.splits)
    qed
  qed
qed (simp add: dir_candidates_def)

text \<open>
  The directory and the files that the search returns: files are those of the directory, and none
  only if no candidate has any.
\<close>

lemma libs_path_correct:
  assumes "boost_get_libs_path h libs required = Inr (path, files)"
  shows "required \<Longrightarrow> path \<noteq> None"
    and "files \<noteq> [] \<Longrightarrow> \<exists>d p. d \<in> insert libs (set (dir_candidates (lib_dirs h))) \<and> find_dir h d = Some p \<and>
           path = Some p \<and> files = boost_files h p"
    and "files = [] \<Longrightarrow> d \<in> set (dir_candidates (lib_dirs h)) \<Longrightarrow> \<not> holds_boost h d"
proof -
  show "required \<Longrightarrow> path \<noteq> None"
    using assms by (auto simp: boost_get_libs_path_def rbind_eq_Inr split: option.splits if_splits)
  define loop where "loop = (\<lambda>p fs. libs_loop h (lib_dirs h) p fs)"
  have cases: "(\<exists>p0 fs0. loop p0 fs0 = (path, Some files) \<and> (fs0 = None \<or> fs0 = Some [])) \<or>
      (\<exists>p. find_dir h libs = Some p \<and> boost_files h p \<noteq> [] \<and> path = Some p \<and> files = boost_files h p)"
    using assms unfolding loop_def
    by (auto simp: boost_get_libs_path_def rbind_eq_Inr split: option.splits if_splits prod.splits)
  show "\<exists>d p. d \<in> insert libs (set (dir_candidates (lib_dirs h))) \<and> find_dir h d = Some p \<and>
      path = Some p \<and> files = boost_files h p" if "files \<noteq> []"
    using cases
  proof
    assume "\<exists>p0 fs0. loop p0 fs0 = (path, Some files) \<and> (fs0 = None \<or> fs0 = Some [])"
    then obtain p0 fs0 where "loop p0 fs0 = (path, Some files)" "fs0 = None \<or> fs0 = Some []" by blast
    with that libs_loop_result [of h "lib_dirs h" p0 fs0]
      find_SomeD [of "holds_boost h" "dir_candidates (lib_dirs h)"] show ?thesis
      by (auto simp: loop_def split: option.splits)
  qed auto
  show "\<not> holds_boost h d" if "files = []" "d \<in> set (dir_candidates (lib_dirs h))"
    using cases
  proof
    assume "\<exists>p0 fs0. loop p0 fs0 = (path, Some files) \<and> (fs0 = None \<or> fs0 = Some [])"
    then obtain p0 fs0 where run: "loop p0 fs0 = (path, Some files)" by blast
    show ?thesis
    proof (cases "List.find (holds_boost h) (dir_candidates (lib_dirs h))")
      case None
      with that show ?thesis by (auto simp: find_None_iff)
    next
      case (Some c)
      then have "holds_boost h c" by (auto dest: find_SomeD)
      with Some that run libs_loop_result [of h "lib_dirs h" p0 fs0] show ?thesis
        by (auto simp: loop_def holds_boost_def)
    qed
  qed (use that in auto)
qed

lemma match_each_required:
  assumes "match_each env ps toolset (sort_files fs) is_static libs = Inr ns" and "p_required ps"
  shows "list_all2 (\<lambda>lib n. \<exists>f. best_match (lib_patterns env ps toolset is_static lib) fs f \<and> n = format_lib_name env f)
    libs ns"
  using assms
proof (induction libs arbitrary: ns)
  case (Cons lib libs)
  then show ?case
    by (auto simp: rbind_eq_Inr split: option.splits if_splits intro!: first_match_some)
qed simp

text \<open>A library of which there is any file is found, whatever the tags, the version and the toolset.\<close>

lemma library_found:
  assumes "f \<in> set fs" "contains f (''boost_'' @ lib)" "CHR 0x0A \<notin> set lib"
  shows "first_match (lib_patterns env ps toolset is_static lib) (sort_files fs) \<noteq> None"
proof -
  have "re_search (re_text (''boost_'' @ lib)) f" using assms(2,3) by (intro search_text) auto
  moreover have "re_text (''boost_'' @ lib) \<in> set (lib_patterns env ps toolset is_static lib)"
    by (simp add: lib_patterns_def Let_def)
  ultimately show ?thesis using assms(1) sort_files_sorted(1) [of fs] by (auto simp: first_match_none)
qed

text \<open>So a shared library answers the request for a static one.\<close>

definition linux_env :: benv where
  "linux_env = (\<lambda>_. [])(''CXX'' := [''g++''], ''CXX_NAME'' := [''gcc''], ''CC_NAME'' := [''gcc''], ''BOOST_VERSION'' := [''1_65_1''],
     ''cxxshlib_PATTERN'' := [''lib%s.so''], ''cxxstlib_PATTERN'' := [''lib%s.a''])"

definition plain_params :: boost_params where
  "plain_params = \<lparr>p_includes = [], p_libs = [], p_mt = False, p_abi = [], p_autodetect = False, p_toolset = [],
     p_python = ''38'', p_lib = LibWords ''system'', p_stlib = NoLibs, p_required = True\<rparr>"

lemma static_takes_shared:
  "match_each linux_env plain_params ''gcc'' (sort_files [''libboost_system.so'']) True [''system''] = Inr [''boost_system'']"
  by code_simp

text \<open>A directory for the libraries that does not exist is not reported as such.\<close>

lemma missing_libs_dir:
  "libs \<noteq> [] \<Longrightarrow> find_dir h libs = None \<Longrightarrow> boost_get_libs_path h libs required = Inl (BoostRaise AttributeError)"
  by (simp add: boost_get_libs_path_def)

text \<open>A compiler that is not in the table of toolsets, and a platform that is not either.\<close>

lemma unknown_toolset:
  "map_of BOOST_TOOLSETS (platform h) = None \<Longrightarrow> map_of BOOST_TOOLSETS (word_of env ''CXX_NAME'') = None \<Longrightarrow>
   boost_get_toolset h env [] = Inl (BoostRaise TypeError)"
  by (simp add: boost_get_toolset_def has_key_def)

section \<open>The result of the check\<close>

text \<open>The name stored for a library comes from the best file of the directory.\<close>

definition chosen :: "boost_host \<Rightarrow> benv \<Rightarrow> boost_params \<Rightarrow> string \<Rightarrow> string \<Rightarrow> bool \<Rightarrow> string \<Rightarrow> string \<Rightarrow> bool" where
  "chosen h env ps toolset d is_static lib n =
     (\<exists>f. best_match (lib_patterns env ps toolset is_static lib) (boost_files h d) f \<and> n = format_lib_name env f)"

definition fixed_vars :: "string set" where
  "fixed_vars = {''BOOST_VERSION'', ''CC_NAME'', ''cxxshlib_PATTERN'', ''cxxstlib_PATTERN''}"

lemma chosen_cong:
  assumes "\<And>k. k \<in> fixed_vars \<Longrightarrow> env' k = env k"
  shows "chosen h env' = chosen h env"
  unfolding fun_eq_iff chosen_def lib_patterns_def lib_ext_def format_lib_name_def word_of_def
  using assms by (simp add: fixed_vars_def)

lemma match_each_chosen:
  assumes "boost_get_libs_path h l True = Inr (Some p, fs)"
    and "match_each env ps toolset (sort_files fs) is_static libs = Inr ns" and "p_required ps"
  shows "list_all2 (chosen h env ps toolset p is_static) libs ns"
  using match_each_required [OF assms(2,3)]
proof (rule list_all2_mono)
  fix lib n
  assume "\<exists>f. best_match (lib_patterns env ps toolset is_static lib) fs f \<and> n = format_lib_name env f"
  then obtain f where f: "best_match (lib_patterns env ps toolset is_static lib) fs f" "n = format_lib_name env f"
    by blast
  then have "fs \<noteq> []" by (auto simp: best_match_def)
  with libs_path_correct(2) [OF assms(1)] have "fs = boost_files h p" by auto
  with f show "chosen h env ps toolset p is_static lib n" by (auto simp: chosen_def)
qed

lemma var_name_simps [simp]:
  "var_name a v = var_name b v \<longleftrightarrow> a = b"
  "var_name ''INCLUDES'' v \<noteq> ''BOOST_VERSION''"
  by (simp_all add: var_name_def)

lemma store_libs_env:
  "store_libs var path libs stlibs env k =
     (if libs \<noteq> [] \<and> k = var_name ''LIBPATH'' var then [path]
      else if libs \<noteq> [] \<and> k = var_name ''LIB'' var then libs
      else if stlibs \<noteq> [] \<and> k = var_name ''STLIBPATH'' var then [path]
      else if stlibs \<noteq> [] \<and> k = var_name ''STLIB'' var then stlibs
      else env k)"
  by (simp add: store_libs_def Let_def)

lemma store_libs_fixed:
  "k \<in> fixed_vars \<Longrightarrow> store_libs var path libs stlibs env k = env k"
  "store_libs var path libs stlibs env (var_name ''INCLUDES'' var) = env (var_name ''INCLUDES'' var)"
  by (auto simp: store_libs_env var_name_def fixed_vars_def)


definition linux_host :: boost_host where
  "linux_host = \<lparr>find_dir = (\<lambda>d. if d \<in> {''/usr/include'', ''/usr/lib''} then Some d else None),
     boost_files = (\<lambda>d. if d = ''/usr/lib'' then [''libboost_system.so'', ''libboost_system.a'', ''libboost_thread.so''] else []),
     version_file = (\<lambda>d. if d = ''/usr/include'' then
        Some (Some (''#define BOOST_LIB_VERSION '' @ [CHR 0x22] @ ''1_65_1'' @ [CHR 0x22])) else None),
     environ_include = [], environ_lib = [], platform = ''linux'', run_version = (\<lambda>_. None),
     links = (\<lambda>env w. True), list_dir = (\<lambda>_. [])\<rparr>"


end
