(* ===== verification/MiscTools.thy ===== *)
theory MiscTools
  imports Prelude
begin

text \<open>
  \<^verbatim>\<open>waf-tools/misc.py\<close>: file copies, the substitution of variables in a template file, and the
  task that runs a command. The tree of files of waf is a parameter (the record \<open>node_tree\<close>), and
  so are the exit status of a command and the result of a copy. Texts are ASCII.
\<close>

section \<open>Substitution\<close>

definition m4_char :: "char \<Rightarrow> bool" where
  "m4_char c =
     (is_digit c \<or> (65 \<le> (of_char c :: nat) \<and> (of_char c :: nat) \<le> 90) \<or>
      (97 \<le> (of_char c :: nat) \<and> (of_char c :: nat) \<le> 122) \<or> c = CHR ''_'')"

text \<open>A match of \<^verbatim>\<open>@(\w+)@\<close> at an at sign, given what follows it: the name and the rest.\<close>

definition m4_match :: "string \<Rightarrow> (string \<times> string) option" where
  "m4_match s =
     (case dropWhile m4_char s of
        [] \<Rightarrow> None
      | c # r \<Rightarrow> if c = CHR ''@'' \<and> takeWhile m4_char s \<noteq> [] then Some (takeWhile m4_char s, r) else None)"

lemma m4_match_shorter: "m4_match s = Some (w, r) \<Longrightarrow> length r < length s"
  using length_dropWhile_le [of m4_char s] by (auto simp: m4_match_def split: list.splits if_splits)

text \<open>\<^verbatim>\<open>m4_re.sub\<close> with the replacement as a function of the name, and \<^verbatim>\<open>m4_re.findall\<close>\<close>

function m4_sub :: "(string \<Rightarrow> string) \<Rightarrow> string \<Rightarrow> string" where
  "m4_sub f [] = []"
| "m4_sub f (c # s) =
     (case (if c = CHR ''@'' then m4_match s else None) of
        Some (w, r) \<Rightarrow> f w @ m4_sub f r
      | None \<Rightarrow> c # m4_sub f s)"
  by pat_completeness auto
termination
  by (relation "measure (\<lambda>(f, s). length s)") (auto split: if_splits dest: m4_match_shorter)

function m4_names :: "string \<Rightarrow> string list" where
  "m4_names [] = []"
| "m4_names (c # s) =
     (case (if c = CHR ''@'' then m4_match s else None) of
        Some (w, r) \<Rightarrow> w # m4_names r
      | None \<Rightarrow> m4_names s)"
  by pat_completeness auto
termination
  by (relation "measure length") (auto split: if_splits dest: m4_match_shorter)

text \<open>\<^verbatim>\<open>code.replace('%', '%%')\<close>, and \<^verbatim>\<open>s % di\<close> for the two forms of places that occur\<close>

fun double_percent :: "string \<Rightarrow> string" where
  "double_percent [] = []"
| "double_percent (c # s) = (if c = CHR ''%'' then c # c # double_percent s else c # double_percent s)"

function percent_dict :: "(string, string) dict \<Rightarrow> string \<Rightarrow> string result" where
  "percent_dict di [] = Inr []"
| "percent_dict di (c # s) =
     (if c \<noteq> CHR ''%'' then rbind (percent_dict di s) (\<lambda>t. Inr (c # t))
      else case s of
        [] \<Rightarrow> Inl ValueError
      | d # s' \<Rightarrow>
          if d = CHR ''%'' then rbind (percent_dict di s') (\<lambda>t. Inr (CHR ''%'' # t))
          else if d = CHR ''('' then
            (let name = takeWhile (\<lambda>x. x \<noteq> CHR '')'') s'; r = dropWhile (\<lambda>x. x \<noteq> CHR '')'') s' in
             if startswith r '')s'' then
               rbind (dict_get di name) (\<lambda>v. rbind (percent_dict di (drop 2 r)) (\<lambda>t. Inr (v @ t)))
             else Inl ValueError)
          else Inl TypeError)"
  by pat_completeness auto
termination
  by (relation "measure (\<lambda>(di, s). length s)")
    (auto simp: less_Suc_eq_le intro: le_trans [OF diff_le_self] length_dropWhile_le le_SucI)

text \<open>
  \<^verbatim>\<open>subst_func\<close>: the dictionary of the task, or of its generator; when both are empty, every name
  of the template with its value in the environment, or the value of its upper-case form.
\<close>

definition upper_name :: "string \<Rightarrow> string" where
  "upper_name s = map (\<lambda>c. if 97 \<le> (of_char c :: nat) \<and> (of_char c :: nat) \<le> 122
                           then char_of ((of_char c :: nat) - 32) else c) s"

definition env_value :: "(string \<Rightarrow> string) \<Rightarrow> string \<Rightarrow> string" where
  "env_value get_flat i = (if get_flat i \<noteq> [] then get_flat i else get_flat (upper_name i))"

definition subst_dict ::
  "(string \<Rightarrow> string) \<Rightarrow> (string, string) dict \<Rightarrow> (string, string) dict \<Rightarrow> string \<Rightarrow> (string, string) dict" where
  "subst_dict get_flat task_dict generator_dict code =
     (let di = (if task_dict \<noteq> [] then task_dict else generator_dict) in
      if di = [] then fold (\<lambda>i. AList.update i (env_value get_flat i)) (m4_names code) [] else di)"

definition subst_func ::
  "(string \<Rightarrow> string) \<Rightarrow> (string, string) dict \<Rightarrow> (string, string) dict \<Rightarrow> string \<Rightarrow> string result" where
  "subst_func get_flat task_dict generator_dict input =
     (let code = double_percent input;
          s = m4_sub (\<lambda>w. ''%('' @ w @ '')s'') code
      in percent_dict (subst_dict get_flat task_dict generator_dict code) s)"

section \<open>The reference: one pass over the template\<close>

function m4_fill :: "(string \<Rightarrow> string option) \<Rightarrow> string \<Rightarrow> string result" where
  "m4_fill v [] = Inr []"
| "m4_fill v (c # s) =
     (case (if c = CHR ''@'' then m4_match s else None) of
        Some (w, r) \<Rightarrow>
          (case v w of None \<Rightarrow> Inl KeyError | Some x \<Rightarrow> rbind (m4_fill v r) (\<lambda>t. Inr (x @ t)))
      | None \<Rightarrow> rbind (m4_fill v s) (\<lambda>t. Inr (c # t)))"
  by pat_completeness auto
termination
  by (relation "measure (\<lambda>(f, s). length s)") (auto split: if_splits dest: m4_match_shorter)

lemma m4_char_simps [simp]:
  "\<not> m4_char CHR ''%''" "\<not> m4_char CHR ''@''" "\<not> m4_char CHR '')''"
  by (simp_all add: m4_char_def is_digit_def)

lemma double_takeWhile: "takeWhile m4_char (double_percent s) = takeWhile m4_char s"
  by (induction s) auto

lemma double_dropWhile: "dropWhile m4_char (double_percent s) = double_percent (dropWhile m4_char s)"
  by (induction s) auto

lemma m4_match_double: "m4_match (double_percent s) = map_option (\<lambda>(w, r). (w, double_percent r)) (m4_match s)"
  unfolding m4_match_def double_takeWhile double_dropWhile
  by (cases "dropWhile m4_char s") (simp_all del: dropWhile_eq_Nil_conv)

lemma m4_match_name: "m4_match s = Some (w, r) \<Longrightarrow> w \<noteq> [] \<and> list_all m4_char w"
  by (auto simp: m4_match_def list_all_iff dest: set_takeWhileD split: list.splits if_splits)

lemma percent_place:
  assumes "list_all m4_char w"
  shows "percent_dict di (''%('' @ w @ '')s'' @ s) =
    rbind (dict_get di w) (\<lambda>v. rbind (percent_dict di s) (\<lambda>t. Inr (v @ t)))"
proof -
  have "CHR '')'' \<notin> set w" using assms m4_char_simps(3) by (metis list_all_iff)
  then have "takeWhile (\<lambda>x. x \<noteq> CHR '')'') (w @ '')s'' @ s) = w" "dropWhile (\<lambda>x. x \<noteq> CHR '')'') (w @ '')s'' @ s) = '')s'' @ s"
    by (induction w) auto
  then show ?thesis by (simp add: Let_def)
qed

lemma percent_m4:
  "percent_dict di (m4_sub (\<lambda>w. ''%('' @ w @ '')s'') (double_percent s)) = m4_fill (map_of di) s"
proof (induction "map_of di" s rule: m4_fill.induct)
  case (2 c s)
  show ?case
  proof (cases "if c = CHR ''@'' then m4_match s else None")
    case None
    then have m: "(if c = CHR ''@'' then m4_match (double_percent s) else None) = None"
      by (auto simp: m4_match_double split: if_splits)
    show ?thesis
    proof (cases "c = CHR ''%''")
      case True
      then show ?thesis using 2(1) [OF None] by simp
    next
      case False
      then show ?thesis using 2(1) [OF None] None m by simp
    qed
  next
    case (Some p)
    obtain w r where p: "p = (w, r)" by (cases p)
    have c: "c = CHR ''@''" and m: "m4_match s = Some (w, r)" using Some p by (auto split: if_splits)
    have "percent_dict di (m4_sub (\<lambda>w. ''%('' @ w @ '')s'') (double_percent (c # s))) =
        percent_dict di (''%('' @ w @ '')s'' @ m4_sub (\<lambda>w. ''%('' @ w @ '')s'') (double_percent r))"
      by (simp add: c m m4_match_double)
    also have "\<dots> = rbind (dict_get di w) (\<lambda>v. rbind (m4_fill (map_of di) r) (\<lambda>t. Inr (v @ t)))"
      using percent_place m4_match_name [OF m] 2(2) [OF Some p [symmetric]] by (cases "map_of di w") (simp_all add: dict_get_def)
    also have "\<dots> = m4_fill (map_of di) (c # s)"
      by (simp add: c m dict_get_def split: option.split)
    finally show ?thesis .
  qed
qed simp

lemma m4_names_double: "m4_names (double_percent s) = m4_names s"
proof (induction s rule: m4_names.induct)
  case (2 c s)
  show ?case
  proof (cases "if c = CHR ''@'' then m4_match s else None")
    case None
    then have m: "(if c = CHR ''@'' then m4_match (double_percent s) else None) = None"
      by (auto simp: m4_match_double split: if_splits)
    then show ?thesis using 2(1) [OF None] None by (cases "c = CHR ''%''") simp_all
  next
    case (Some p)
    obtain w r where p: "p = (w, r)" by (cases p)
    have "c = CHR ''@''" "m4_match s = Some (w, r)" using Some p by (auto split: if_splits)
    then show ?thesis using 2(2) [OF Some p [symmetric]] by (simp add: m4_match_double)
  qed
qed simp

lemma m4_fill_cong: "(\<And>w. w \<in> set (m4_names s) \<Longrightarrow> v w = v' w) \<Longrightarrow> m4_fill v s = m4_fill v' s"
proof (induction s rule: m4_names.induct)
  case (2 c s)
  show ?case
  proof (cases "if c = CHR ''@'' then m4_match s else None")
    case None
    then show ?thesis using 2(1) [OF None] 2(3) by simp
  next
    case (Some p)
    obtain w r where p: "p = (w, r)" by (cases p)
    then have n: "m4_names (c # s) = w # m4_names r" using Some by simp
    then show ?thesis using 2(2) [OF Some p [symmetric]] 2(3) Some p by (simp split: option.split)
  qed
qed simp

lemma map_of_env_dict:
  "map_of (fold (\<lambda>i. AList.update i (f i)) ns d) w = (if w \<in> set ns then Some (f w) else map_of d w)"
  by (induction ns arbitrary: d) auto

text \<open>
  C30: the substitution by way of Python's formatting operator is one pass over the template that
  puts the value of a name in the place of \<^verbatim>\<open>@name@\<close> and keeps every other character, the
  percent signs too. The values are those of the task's dictionary, or the generator's, where a
  missing name raises \<^verbatim>\<open>KeyError\<close>; without dictionaries they come from the environment and
  nothing is missing.
\<close>

theorem subst_func_correct:
  "subst_func get_flat task_dict generator_dict input =
     m4_fill (if task_dict \<noteq> [] then map_of task_dict
              else if generator_dict \<noteq> [] then map_of generator_dict
              else (\<lambda>w. Some (env_value get_flat w))) input"
proof -
  define di where "di = subst_dict get_flat task_dict generator_dict (double_percent input)"
  have "subst_func get_flat task_dict generator_dict input = m4_fill (map_of di) input"
    unfolding subst_func_def Let_def di_def by (rule percent_m4)
  also have "\<dots> = m4_fill (if task_dict \<noteq> [] then map_of task_dict
              else if generator_dict \<noteq> [] then map_of generator_dict
              else (\<lambda>w. Some (env_value get_flat w))) input"
    by (rule m4_fill_cong) (simp add: di_def subst_dict_def Let_def m4_names_double map_of_env_dict)
  finally show ?thesis .
qed

lemma m4_fill_total: "m4_fill (\<lambda>w. Some (f w)) s = Inr (m4_sub f s)"
proof (induction s rule: m4_names.induct)
  case (2 c s)
  show ?case
  proof (cases "if c = CHR ''@'' then m4_match s else None")
    case None
    then show ?thesis using 2(1) [OF None] by simp
  next
    case (Some p)
    obtain w r where p: "p = (w, r)" by (cases p)
    then show ?thesis using 2(2) [OF Some p [symmetric]] Some by simp
  qed
qed simp

section \<open>Files and commands\<close>

record file_node =
  abs_path :: string
  src_path :: string
  bld_path :: string
  node_name :: string

text \<open>The tree of files: what is found below the directory of the task generator.\<close>

record node_tree =
  find_resource :: "string \<Rightarrow> file_node option"
  find_or_declare :: "string \<Rightarrow> file_node option"
  find_directory :: "string \<Rightarrow> file_node option"

datatype misc_error = WafError string | MiscRaise py_error

text \<open>\<^verbatim>\<open>copy_attrs\<close> on objects as dictionaries of attributes; a missing attribute is the empty tuple.\<close>

definition copy_attrs :: "(string, 'v list) dict \<Rightarrow> string list \<Rightarrow> bool \<Rightarrow> (string, 'v list) dict \<Rightarrow> (string, 'v list) dict" where
  "copy_attrs orig names only_if_set dest =
     fold (\<lambda>a d. let u = (case map_of orig a of Some v \<Rightarrow> v | None \<Rightarrow> []) in
                 if u \<noteq> [] \<or> \<not> only_if_set then AList.update a u d else d) names dest"

text \<open>\<^verbatim>\<open>copy_func\<close>: the exit status, with the change of the mode that follows a copy\<close>

definition copy_func :: "(string \<Rightarrow> string \<Rightarrow> bool) \<Rightarrow> nat \<Rightarrow> file_node \<Rightarrow> file_node \<Rightarrow> int \<times> (string \<times> nat) option" where
  "copy_func copies mode infile outfile =
     (if \<not> copies (abs_path infile) (abs_path outfile) then (1, None)
      else (0, if mode \<noteq> 0 then Some (abs_path outfile, mode) else None))"

text \<open>\<^verbatim>\<open>apply_copy\<close>: one task per source; the target name is used for a single source only.\<close>

definition apply_copy :: "node_tree \<Rightarrow> string list \<Rightarrow> string \<Rightarrow> misc_error + (file_node \<times> file_node option) list" where
  "apply_copy tree sources tgt =
     map_res (\<lambda>filename.
       case find_resource tree filename of
         None \<Rightarrow> Inl (WafError (''cannot find input file '' @ filename @ '' for processing''))
       | Some node \<Rightarrow>
           Inr (node, find_or_declare tree (if tgt = [] \<or> length sources > 1 then node_name node else tgt))) sources"

text \<open>
  The arguments of a command: plain text, or a file or directory with a template. The message for
  one that is not found has one place for two values and raises \<^verbatim>\<open>TypeError\<close> instead.
\<close>

datatype arg_kind = InputFile | OutputFile | InputDir | OutputDir

datatype cmd_arg = PlainArg string | NodeArg arg_kind string string

fun find_node :: "node_tree \<Rightarrow> arg_kind \<Rightarrow> string \<Rightarrow> misc_error + file_node" where
  "find_node tree kind n =
     (case (case kind of
              InputFile \<Rightarrow> find_resource tree n
            | OutputFile \<Rightarrow> find_or_declare tree n
            | InputDir \<Rightarrow> find_directory tree n
            | OutputDir \<Rightarrow> find_directory tree n) of
        None \<Rightarrow> Inl (MiscRaise TypeError)
      | Some node \<Rightarrow> Inr node)"

text \<open>\<^verbatim>\<open>template % path\<close> with one value\<close>

fun fill_template :: "string \<Rightarrow> string option \<Rightarrow> string result" where
  "fill_template [] v = (case v of None \<Rightarrow> Inr [] | Some _ \<Rightarrow> Inl TypeError)"
| "fill_template [c] v =
     (if c = CHR ''%'' then Inl ValueError else rbind (fill_template [] v) (\<lambda>t. Inr (c # t)))"
| "fill_template (c # d # s) v =
     (if c \<noteq> CHR ''%'' then rbind (fill_template (d # s) v) (\<lambda>t. Inr (c # t))
      else if d = CHR ''%'' then rbind (fill_template s v) (\<lambda>t. Inr (CHR ''%'' # t))
      else if d = CHR ''s'' then
        (case v of None \<Rightarrow> Inl TypeError | Some x \<Rightarrow> rbind (fill_template s None) (\<lambda>t. Inr (x @ t)))
      else Inl ValueError)"

definition get_path :: "arg_kind \<Rightarrow> string \<Rightarrow> bool \<Rightarrow> file_node \<Rightarrow> string result" where
  "get_path kind template absolute node =
     fill_template template
       (Some (if absolute \<or> kind \<in> {InputDir, OutputDir} then abs_path node
              else if kind = InputFile then src_path node else bld_path node))"

record cmd_generator =
  g_command :: "string option"
  g_external :: bool
  g_argv :: "cmd_arg list"
  g_stdin :: "string option"
  g_stdout :: "string option"
  g_stderr :: "string option"
  g_hidden_inputs :: "string list"
  g_hidden_outputs :: "string list"
  g_no_inputs :: bool
  g_no_outputs :: bool
  g_cwd :: "string option"

record cmd_task =
  t_command :: "string + file_node"
  t_args :: "(cmd_arg \<times> file_node option) list"
  t_stdin :: "file_node option"
  t_stdout :: "file_node option"
  t_stderr :: "file_node option"
  t_inputs :: "file_node list"
  t_outputs :: "file_node list"
  t_cwd :: "string option"
  t_always :: bool

definition resolve_arg :: "node_tree \<Rightarrow> cmd_arg \<Rightarrow> misc_error + cmd_arg \<times> file_node option" where
  "resolve_arg tree a =
     (case a of
        PlainArg s \<Rightarrow> Inr (a, None)
      | NodeArg kind n t \<Rightarrow> rbind (find_node tree kind n) (\<lambda>node. Inr (a, Some node)))"

fun arg_file :: "arg_kind \<Rightarrow> cmd_arg \<times> file_node option \<Rightarrow> file_node option" where
  "arg_file kind (NodeArg k n t, Some node) = (if k = kind then Some node else None)"
| "arg_file kind _ = None"

definition stream_node :: "(string \<Rightarrow> file_node option) \<Rightarrow> string option \<Rightarrow> misc_error + file_node option" where
  "stream_node find_it name =
     (case name of
        None \<Rightarrow> Inr None
      | Some n \<Rightarrow> (case find_it n of None \<Rightarrow> Inl (WafError (''File '' @ n @ '' not found'')) | Some node \<Rightarrow> Inr (Some node)))"

definition hidden_nodes :: "(string \<Rightarrow> file_node option) \<Rightarrow> string list \<Rightarrow> misc_error + file_node list" where
  "hidden_nodes find_it names =
     map_res (\<lambda>n. case find_it n of None \<Rightarrow> Inl (WafError (''File '' @ n @ '' not found in dir '')) | Some node \<Rightarrow> Inr node) names"

definition find_command :: "node_tree \<Rightarrow> cmd_generator \<Rightarrow> misc_error + (string + file_node)" where
  "find_command tree g =
     (case g_command g of
        None \<Rightarrow> Inl (WafError ''command-output missing command'')
      | Some c \<Rightarrow>
          if g_external g then Inr (Inl c)
          else case find_resource tree c of None \<Rightarrow> Inl (MiscRaise AssertionError) | Some node \<Rightarrow> Inr (Inr node))"

text \<open>\<^verbatim>\<open>apply_cmd_output\<close>; the working directory of the task is that of the build variant, whatever
  the generator asks for.\<close>

definition apply_cmd_output :: "node_tree \<Rightarrow> string \<Rightarrow> cmd_generator \<Rightarrow> misc_error + cmd_task" where
  "apply_cmd_output tree variant_dir g =
     rbind (find_command tree g) (\<lambda>cmd.
     rbind (map_res (resolve_arg tree) (g_argv g)) (\<lambda>args.
     rbind (stream_node (find_or_declare tree) (g_stdout g)) (\<lambda>out.
     rbind (stream_node (find_or_declare tree) (g_stderr g)) (\<lambda>err.
     rbind (stream_node (find_resource tree) (g_stdin g)) (\<lambda>inp.
     rbind (hidden_nodes (find_resource tree) (g_hidden_inputs g)) (\<lambda>hin.
     rbind (hidden_nodes (find_or_declare tree) (g_hidden_outputs g)) (\<lambda>hout.
       let ins = List.map_filter (arg_file InputFile) args @ (case inp of None \<Rightarrow> [] | Some n \<Rightarrow> [n]) @ hin;
           outs = List.map_filter (arg_file OutputFile) args @ (case out of None \<Rightarrow> [] | Some n \<Rightarrow> [n]) @
             (case err of None \<Rightarrow> [] | Some n \<Rightarrow> [n]) @ hout
       in if ins = [] \<and> \<not> g_no_inputs g then
            Inl (WafError ''command-output objects must have at least one input file or give self.no_inputs'')
          else if outs = [] \<and> \<not> g_no_outputs g then
            Inl (WafError ''command-output objects must have at least one output file or give self.no_outputs'')
          else Inr \<lparr>t_command = cmd, t_args = args, t_stdin = inp, t_stdout = out, t_stderr = err,
            t_inputs = ins, t_outputs = outs, t_cwd = Some variant_dir, t_always = (ins = [])\<rparr>)))))))"

text \<open>\<^verbatim>\<open>command_output.run\<close>: the arguments and the opened files; the exit status is that of the command.\<close>

definition node_path :: "string option \<Rightarrow> file_node \<Rightarrow> string" where
  "node_path cwd n = (if cwd = None then bld_path n else abs_path n)"

definition run_arg :: "string option \<Rightarrow> cmd_arg \<times> file_node option \<Rightarrow> string result" where
  "run_arg cwd a =
     (case a of
        (PlainArg s, _) \<Rightarrow> Inr s
      | (NodeArg kind n t, Some node) \<Rightarrow> get_path kind t (cwd \<noteq> None) node
      | (NodeArg kind n t, None) \<Rightarrow> Inl AttributeError)"

record process_start =
  ps_argv :: "string list"
  ps_stdin :: "string option"
  ps_stdout :: "string option"
  ps_stderr :: "string option"
  ps_cwd :: "string option"

definition start_of :: "cmd_task \<Rightarrow> process_start result" where
  "start_of t =
     rbind (map_res (run_arg (t_cwd t)) (t_args t)) (\<lambda>args.
       Inr \<lparr>ps_argv = (case t_command t of Inl c \<Rightarrow> c | Inr n \<Rightarrow> node_path (t_cwd t) n) # args,
            ps_stdin = map_option (node_path (t_cwd t)) (t_stdin t),
            ps_stdout = map_option (node_path (t_cwd t)) (t_stdout t),
            ps_stderr = map_option (node_path (t_cwd t)) (t_stderr t), ps_cwd = t_cwd t\<rparr>)"

definition command_output_run :: "(process_start \<Rightarrow> int) \<Rightarrow> cmd_task \<Rightarrow> int result" where
  "command_output_run execute t = rbind (start_of t) (\<lambda>p. Inr (execute p))"

section \<open>Properties of the commands\<close>

text \<open>The working directory that the generator asks for has no effect.\<close>

lemma cwd_ignored: "apply_cmd_output tree v (g\<lparr>g_cwd := c\<rparr>) = apply_cmd_output tree v g"
  unfolding apply_cmd_output_def find_command_def by (simp cong: if_cong option.case_cong)

text \<open>A missing file among the arguments is reported by a \<^verbatim>\<open>TypeError\<close>.\<close>

lemma missing_argument:
  assumes "find_command tree g = Inr cmd" "g_argv g = NodeArg InputFile n t # as" "find_resource tree n = None"
  shows "apply_cmd_output tree v g = Inl (MiscRaise TypeError)"
  using assms by (simp add: apply_cmd_output_def resolve_arg_def)

definition passed :: "node_tree \<Rightarrow> cmd_arg \<Rightarrow> string \<Rightarrow> bool" where
  "passed tree a s =
     (case a of
        PlainArg w \<Rightarrow> s = w
      | NodeArg kind n t \<Rightarrow> (\<exists>node. find_node tree kind n = Inr node \<and> fill_template t (Some (abs_path node)) = Inr s))"

lemma resolve_run:
  assumes "resolve_arg tree a = Inr b" "run_arg (Some v) b = Inr s"
  shows "passed tree a s"
proof (cases a)
  case (PlainArg w)
  then show ?thesis using assms by (auto simp: resolve_arg_def run_arg_def passed_def)
next
  case (NodeArg kind n t)
  then show ?thesis using assms by (auto simp: resolve_arg_def run_arg_def passed_def get_path_def rbind_eq_Inr)
qed

text \<open>
  The process of a task runs in the directory of the build variant, and its arguments are those of
  the generator in order, the files by their absolute paths.
\<close>

lemma command_arguments:
  assumes "apply_cmd_output tree v g = Inr t" and "start_of t = Inr p"
  shows "ps_cwd p = Some v \<and> list_all2 (passed tree) (g_argv g) (tl (ps_argv p))"
proof -
  obtain args where args: "map_res (resolve_arg tree) (g_argv g) = Inr args" and t: "t_args t = args" "t_cwd t = Some v"
    using assms(1) by (auto simp: apply_cmd_output_def rbind_eq_Inr Let_def split: if_splits)
  obtain ss where ss: "map_res (run_arg (Some v)) args = Inr ss" and p: "tl (ps_argv p) = ss" "ps_cwd p = Some v"
    using assms(2) t by (auto simp: start_of_def rbind_eq_Inr)
  have "list_all2 (passed tree) (g_argv g) ss"
    using args ss unfolding map_res_eq_Inr by (rule list_all2_trans [rotated]) (auto intro: resolve_run)
  with p show ?thesis by simp
qed

text \<open>A task without inputs is one that the generator declares so, and always runs.\<close>

lemma task_inputs:
  "apply_cmd_output tree v g = Inr t \<Longrightarrow>
     (t_inputs t \<noteq> [] \<or> g_no_inputs g) \<and> (t_outputs t \<noteq> [] \<or> g_no_outputs g) \<and> t_always t = (t_inputs t = [])"
  by (auto simp: apply_cmd_output_def rbind_eq_Inr Let_def split: if_splits)

lemma copy_attrs_get:
  "distinct names \<Longrightarrow> map_of (copy_attrs orig names only_if_set dest) a =
     (let u = (case map_of orig a of Some v \<Rightarrow> v | None \<Rightarrow> []) in
      if a \<in> set names \<and> (u \<noteq> [] \<or> \<not> only_if_set) then Some u else map_of dest a)"
  unfolding copy_attrs_def by (induction names arbitrary: dest) (auto simp: Let_def)

end
