(* ===== verification/CompileDb.thy ===== *)
theory CompileDb
  imports Prelude
begin

text \<open>
  \<^verbatim>\<open>waf-tools/clang_compilation_database.py\<close>, the file of compile commands, and
  \<^verbatim>\<open>waf-tools/relocation.py\<close>, the move of the source tree. Parameters: \<^verbatim>\<open>os.path.relpath\<close>, and
  what reading the old database gives (reading and writing JSON is not modelled).
\<close>

section \<open>Quoting\<close>

text \<open>\<^verbatim>\<open>shlex.quote\<close>\<close>

definition safe_char :: "char \<Rightarrow> bool" where
  "safe_char c =
     (is_digit c \<or> (65 \<le> (of_char c :: nat) \<and> (of_char c :: nat) \<le> 90) \<or>
      (97 \<le> (of_char c :: nat) \<and> (of_char c :: nat) \<le> 122) \<or> c \<in> set ''_@%+=:,./-'')"

definition apostrophe :: char where
  "apostrophe = CHR 0x27"

definition double_quote :: char where
  "double_quote = CHR 0x22"

definition quote_char :: "char \<Rightarrow> string" where
  "quote_char c =
     (if c = apostrophe then [apostrophe, double_quote, apostrophe, double_quote, apostrophe] else [c])"

definition quote :: "string \<Rightarrow> string" where
  "quote s =
     (if s = [] then [apostrophe, apostrophe]
      else if list_all safe_char s then s
      else [apostrophe] @ concat (map quote_char s) @ [apostrophe])"

section \<open>The database\<close>

record db_entry =
  db_directory :: string
  db_command :: string
  db_file :: string

text \<open>A compile task: its last command, when it has run, its working directory, when it has one, and
  the path of its first input.\<close>

record compile_task =
  last_cmd :: "string list option"
  task_cwd :: "string option"
  first_input :: string

text \<open>\<^verbatim>\<open>collect_compilation_db_tasks\<close>: the list of the build context, created with the function that
  writes the database at the first call.\<close>

record build_context =
  db_tasks :: "compile_task list option"
  post_funs :: nat

definition collect_tasks :: "(compile_task \<times> bool) list \<Rightarrow> build_context \<Rightarrow> build_context" where
  "collect_tasks compiled ctx =
     (let ctx' = (case db_tasks ctx of
                    Some _ \<Rightarrow> ctx
                  | None \<Rightarrow> ctx\<lparr>db_tasks := Some [], post_funs := Suc (post_funs ctx)\<rparr>)
      in ctx'\<lparr>db_tasks := map_option (\<lambda>ts. ts @ map fst (filter snd compiled)) (db_tasks ctx')\<rparr>)"

definition task_entry :: "(string \<Rightarrow> string \<Rightarrow> string) \<Rightarrow> string \<Rightarrow> compile_task \<Rightarrow> db_entry option" where
  "task_entry relpath variant_dir t =
     (case last_cmd t of
        None \<Rightarrow> None
      | Some cmd \<Rightarrow>
          (let directory = (case task_cwd t of Some d \<Rightarrow> d | None \<Rightarrow> variant_dir) in
           Some \<lparr>db_directory = directory, db_command = join_with '' '' (map quote cmd),
                 db_file = relpath (first_input t) directory\<rparr>))"

text \<open>\<^verbatim>\<open>write_compilation_database\<close>: the old entries by file, then those of the tasks; the old
  database is empty when there is no file.\<close>

definition write_compilation_database ::
  "(string \<Rightarrow> string \<Rightarrow> string) \<Rightarrow> string \<Rightarrow> db_entry list option \<Rightarrow> compile_task list \<Rightarrow> db_entry list" where
  "write_compilation_database relpath variant_dir old tasks =
     (let root = (case old of Some r \<Rightarrow> r | None \<Rightarrow> []);
          db0 = fold (\<lambda>x. AList.update (db_file x) x) root [];
          db1 = fold (\<lambda>t db. case task_entry relpath variant_dir t of
                               None \<Rightarrow> db | Some e \<Rightarrow> AList.update (db_file e) e db) tasks db0
      in map snd db1)"

section \<open>Relocation\<close>

text \<open>The nodes of the build by their paths, each with its children (or none, for a file).\<close>

type_synonym node_store = "string \<Rightarrow> (string, string) dict option"

record project_dirs =
  top_dir :: string
  out_dir :: string

text \<open>
  \<^verbatim>\<open>init_dirs\<close> up to the call of the original: the source directory of the last build is replaced
  by the new one, which gets its children. The result tells whether the project is configured.
\<close>

definition relocate :: "string option \<Rightarrow> project_dirs \<Rightarrow> node_store \<Rightarrow> unit option \<times> node_store" where
  "relocate old_srcdir dirs nodes =
     (if \<not> (startswith (top_dir dirs) ''/'' \<and> startswith (out_dir dirs) ''/'') then (None, nodes)
      else
        (Some (),
         case old_srcdir of
           None \<Rightarrow> nodes
         | Some srcdir \<Rightarrow>
             (case nodes srcdir of
                Some children \<Rightarrow>
                  if srcdir \<noteq> [] \<and> srcdir \<noteq> top_dir dirs \<and> children \<noteq> []
                  then nodes(top_dir dirs \<mapsto> children, srcdir \<mapsto> []) else nodes
              | None \<Rightarrow> nodes)))"

text \<open>\<^verbatim>\<open>uid\<close>: the digest of the class name and of the paths relative to the source directory\<close>

definition task_uid :: "(string list \<Rightarrow> 'd) \<Rightarrow> (string \<Rightarrow> string) \<Rightarrow> string \<Rightarrow> string list \<Rightarrow> string list \<Rightarrow> 'd" where
  "task_uid digest from_src class_name inputs outputs = digest (class_name # map from_src (inputs @ outputs))"

text \<open>\<^verbatim>\<open>apply_incpaths\<close>: a directory below the source tree by its path from the build directory\<close>

definition apply_incpaths :: "(string \<Rightarrow> bool) \<Rightarrow> (string \<Rightarrow> string) \<Rightarrow> string list \<Rightarrow> string list" where
  "apply_incpaths below_src from_bld dirs =
     map (\<lambda>x. if below_src x \<and> from_bld x \<noteq> [] then from_bld x else x) dirs"

section \<open>Splitting a command line\<close>

text \<open>The reference for the quoting: how a shell splits a line into words at spaces, with text in
  single or in double quotes taken as it is.\<close>

datatype sh_mode = Between | Bare | InSingle | InDouble

fun sh_words :: "sh_mode \<Rightarrow> string \<Rightarrow> string \<Rightarrow> string list option" where
  "sh_words Between acc [] = Some []"
| "sh_words Bare acc [] = Some [acc]"
| "sh_words InSingle acc [] = None"
| "sh_words InDouble acc [] = None"
| "sh_words Between acc (c # s) =
     (if c = CHR '' '' then sh_words Between [] s
      else if c = apostrophe then sh_words InSingle [] s
      else if c = double_quote then sh_words InDouble [] s
      else sh_words Bare [c] s)"
| "sh_words Bare acc (c # s) =
     (if c = CHR '' '' then map_option (Cons acc) (sh_words Between [] s)
      else if c = apostrophe then sh_words InSingle acc s
      else if c = double_quote then sh_words InDouble acc s
      else sh_words Bare (acc @ [c]) s)"
| "sh_words InSingle acc (c # s) =
     (if c = apostrophe then sh_words Bare acc s else sh_words InSingle (acc @ [c]) s)"
| "sh_words InDouble acc (c # s) =
     (if c = double_quote then sh_words Bare acc s else sh_words InDouble (acc @ [c]) s)"

definition shell_split :: "string \<Rightarrow> string list option" where
  "shell_split s = sh_words Between [] s"

lemma safe_char_plain: "safe_char c \<Longrightarrow> c \<noteq> CHR '' '' \<and> c \<noteq> apostrophe \<and> c \<noteq> double_quote"
  by (auto simp: safe_char_def apostrophe_def double_quote_def is_digit_def)

lemma quotes_differ [simp]: "apostrophe \<noteq> double_quote" "double_quote \<noteq> apostrophe" "apostrophe \<noteq> CHR '' ''"
  "double_quote \<noteq> CHR '' ''"
  by (simp_all add: apostrophe_def double_quote_def)

lemma sh_bare: "list_all safe_char w \<Longrightarrow> sh_words Bare acc (w @ s) = sh_words Bare (acc @ w) s"
  using safe_char_plain by (induction w arbitrary: acc) auto

lemma sh_quoted: "sh_words InSingle acc (concat (map quote_char w) @ s) = sh_words InSingle (acc @ w) s"
  by (induction w arbitrary: acc) (simp_all add: quote_char_def)

lemma sh_quote: "sh_words Between acc (quote w @ s) = sh_words Bare w s"
proof -
  consider "w = []" | "w \<noteq> []" "list_all safe_char w" | "w \<noteq> []" "\<not> list_all safe_char w" by blast
  then show ?thesis
  proof cases
    case 2
    then obtain c v where w: "w = c # v" by (cases w) auto
    then have "safe_char c" "list_all safe_char v" using 2 by simp_all
    then show ?thesis using w 2 safe_char_plain [of c] by (simp add: quote_def sh_bare)
  next
    case 3
    have "sh_words InSingle [] (concat (map quote_char w) @ apostrophe # s) = sh_words InSingle w (apostrophe # s)"
      by (simp only: sh_quoted append_Nil)
    with 3 show ?thesis by (simp add: quote_def)
  qed (simp add: quote_def)
qed

lemma split_quoted_from:
  "ws \<noteq> [] \<Longrightarrow> sh_words Between acc (join_with '' '' (map quote ws)) = Some ws"
proof (induction ws arbitrary: acc)
  case (Cons w ws)
  show ?case
  proof (cases ws)
    case Nil
    then show ?thesis using sh_quote [of acc w "[]"] by simp
  next
    case (Cons v vs)
    then show ?thesis using Cons.IH [of "[]"] by (simp add: sh_quote)
  qed
qed simp

lemma split_quoted: "shell_split (join_with '' '' (map quote ws)) = Some ws"
  using split_quoted_from [of ws "[]"] by (cases "ws = []") (simp_all add: shell_split_def)

section \<open>Properties of the database\<close>

definition by_file :: "db_entry list \<Rightarrow> (string, db_entry) dict \<Rightarrow> (string, db_entry) dict" where
  "by_file es db = fold (\<lambda>x. AList.update (db_file x) x) es db"

definition keyed :: "(string, db_entry) dict \<Rightarrow> bool" where
  "keyed db = list_all (\<lambda>(f, e). db_file e = f) db"

lemma keyed_by_file: "keyed db \<Longrightarrow> keyed (by_file es db)"
proof (induction es arbitrary: db)
  case (Cons e es)
  have "keyed (AList.update (db_file e) e db)"
    using Cons.prems set_dict_update [of "db_file e" e db] by (auto simp: keyed_def list_all_iff)
  with Cons.IH show ?case by (simp add: by_file_def)
qed (simp add: by_file_def)

lemma task_loop:
  "fold (\<lambda>t db. case task_entry r v t of None \<Rightarrow> db | Some e \<Rightarrow> AList.update (db_file e) e db) ts db =
   by_file (List.map_filter (task_entry r v) ts) db"
  by (induction ts arbitrary: db) (simp_all add: by_file_def List.map_filter_simps split: option.split)

lemma find_by_file:
  "keyed db \<Longrightarrow> List.find (\<lambda>e. db_file e = f) (map snd db) = map_of db f"
  by (induction db) (auto simp: keyed_def)

lemma database_by_file:
  "write_compilation_database r v old ts =
     map snd (by_file (List.map_filter (task_entry r v) ts) (by_file (case old of Some x \<Rightarrow> x | None \<Rightarrow> []) []))"
  unfolding write_compilation_database_def Let_def task_loop by (simp add: by_file_def)

text \<open>
  C27: the database of compile commands has one entry for each file: that of the last task for it
  which ran, or, for a file that was not compiled now, the last one of the old database. The
  command of a task's entry, split by a shell, is the command that was run.
\<close>

theorem compilation_database_correct:
  "distinct (map db_file (write_compilation_database relpath variant_dir old tasks)) \<and>
   List.find (\<lambda>e. db_file e = f) (write_compilation_database relpath variant_dir old tasks) =
     (case List.find (\<lambda>e. db_file e = f) (rev (List.map_filter (task_entry relpath variant_dir) tasks)) of
        Some e \<Rightarrow> Some e
      | None \<Rightarrow> List.find (\<lambda>e. db_file e = f) (rev (case old of Some r \<Rightarrow> r | None \<Rightarrow> []))) \<and>
   map_option (\<lambda>e. shell_split (db_command e)) (task_entry relpath variant_dir t) = map_option Some (last_cmd t)"
proof -
  define es where "es = List.map_filter (task_entry relpath variant_dir) tasks"
  define root where "root = (case old of Some r \<Rightarrow> r | None \<Rightarrow> [])"
  define db where "db = by_file es (by_file root [])"
  have db: "write_compilation_database relpath variant_dir old tasks = map snd db"
    by (simp add: database_by_file db_def es_def root_def)
  have ok: "keyed db" "dict_ok db"
    unfolding db_def
    by (intro keyed_by_file) (simp add: keyed_def, simp add: by_file_def adict.ok_insert_loop)
  have "map db_file (map snd db) = dict_keys db"
    using ok(1) by (induction db) (auto simp: keyed_def dict_keys_def)
  moreover have "map_of db f = (case List.find (\<lambda>e. db_file e = f) (rev es) of
      Some e \<Rightarrow> Some e | None \<Rightarrow> List.find (\<lambda>e. db_file e = f) (rev root))"
    by (simp add: db_def by_file_def adict.lookup_insert_loop split: option.split)
  moreover have "map_option (\<lambda>e. shell_split (db_command e)) (task_entry relpath variant_dir t) = map_option Some (last_cmd t)"
    by (cases "last_cmd t") (simp_all add: task_entry_def Let_def split_quoted)
  ultimately show ?thesis
    using ok find_by_file [OF ok(1), of f] unfolding db es_def root_def by (simp add: dict_ok_def)
qed

text \<open>The function that writes the database is registered once for a build.\<close>

lemma registered_once:
  "db_tasks ctx = None \<Longrightarrow> post_funs (fold collect_tasks (c # cs) ctx) = Suc (post_funs ctx)"
proof -
  have later: "db_tasks (collect_tasks c ctx) \<noteq> None" for c ctx
    by (auto simp: collect_tasks_def Let_def split: option.splits)
  have same: "db_tasks ctx \<noteq> None \<Longrightarrow> post_funs (collect_tasks c ctx) = post_funs ctx" for c ctx
    by (auto simp: collect_tasks_def Let_def)
  have rest: "db_tasks ctx \<noteq> None \<Longrightarrow> post_funs (fold collect_tasks cs ctx) = post_funs ctx" for cs ctx
    using later same by (induction cs arbitrary: ctx) simp_all
  assume "db_tasks ctx = None"
  then have "post_funs (collect_tasks c ctx) = Suc (post_funs ctx)"
    by (simp add: collect_tasks_def Let_def)
  with rest [OF later] show ?thesis by simp
qed

text \<open>After a relocation the new source directory has the children of the old one, which has none;
  a second run with the new directory stored changes nothing.\<close>

lemma relocate_moves:
  assumes "nodes srcdir = Some children" "children \<noteq> []" "srcdir \<noteq> []" "srcdir \<noteq> top_dir dirs"
    and "relocate (Some srcdir) dirs nodes = (Some (), nodes')"
  shows "nodes' (top_dir dirs) = Some children" "nodes' srcdir = Some []"
    "snd (relocate (Some (top_dir dirs)) dirs nodes') = nodes'"
  using assms by (auto simp: relocate_def split: if_splits option.splits)

end
