(* ===== verification/NfdStatus.thy ===== *)
theory NfdStatus
  imports Prelude
begin

text \<open>
  \<^verbatim>\<open>src/ndnSIM/NFD/tools/nfd-status-http-server.py\<close>: the HTTP server for the status page of the
  NDN forwarding daemon. The report program, the validation of an IP address and the serving of
  static files by the standard server are parameters.
\<close>

section \<open>Requests\<close>

text \<open>\<^verbatim>\<open>urlsplit(target).path\<close>: without a scheme, the host part after two slashes, the query and the
  fragment.\<close>

definition scheme_char :: "char \<Rightarrow> bool" where
  "scheme_char c =
     (is_digit c \<or> (65 \<le> (of_char c :: nat) \<and> (of_char c :: nat) \<le> 90) \<or>
      (97 \<le> (of_char c :: nat) \<and> (of_char c :: nat) \<le> 122) \<or> c \<in> set ''+-.'')"

definition drop_scheme :: "string \<Rightarrow> string" where
  "drop_scheme s =
     (let p = takeWhile (\<lambda>c. c \<noteq> CHR '':'') s in
      if CHR '':'' \<in> set s \<and> p \<noteq> [] \<and> list_all scheme_char p \<and> \<not> is_digit (hd p) \<and> hd p \<notin> set ''+-.''
      then drop (Suc (length p)) s else s)"

definition drop_netloc :: "string \<Rightarrow> string" where
  "drop_netloc s =
     (if startswith s ''//'' then dropWhile (\<lambda>c. c \<notin> set ''/?#'') (drop 2 s) else s)"

definition url_path :: "string \<Rightarrow> string" where
  "url_path s = takeWhile (\<lambda>c. c \<notin> set ''?#'') (drop_netloc (drop_scheme s))"

datatype nfdc_result = NfdcOutput string | NfdcOSError | NfdcExit int

datatype response = Sent nat string | StaticFile

record nfd_server =
  allowRobots :: bool
  verbose :: bool

definition stylesheet :: string where
  "stylesheet = ''<?xml-stylesheet type='' @ [CHR 0x22] @ ''text/xsl'' @ [CHR 0x22] @ '' href='' @ [CHR 0x22] @
     ''nfd-status.xsl'' @ [CHR 0x22] @ ''?>''"

text \<open>\<^verbatim>\<open>__serveReport\<close>: the response with the lines it logs; \<^verbatim>\<open>output.index\<close> raises on an output
  without the character.\<close>

definition add_stylesheet :: "string \<Rightarrow> string result" where
  "add_stylesheet out =
     (if CHR ''>'' \<notin> set out then Inl ValueError
      else let pos = length (takeWhile (\<lambda>c. c \<noteq> CHR ''>'') out) + 1
           in Inr (take pos out @ stylesheet @ drop pos out))"

definition serve_report :: "nfdc_result \<Rightarrow> (response \<times> string list) result" where
  "serve_report r =
     (case r of
        NfdcOSError \<Rightarrow> Inr (Sent 500 [], [''error invoking nfdc: ''])
      | NfdcExit code \<Rightarrow>
          Inr (Sent 504 (''Cannot connect to NFD (code '' @ show_int code @ '')''),
               [''error invoking nfdc: command exited with status '' @ show_int code])
      | NfdcOutput out \<Rightarrow> rbind (add_stylesheet out) (\<lambda>xml. Inr (Sent 200 xml, [])))"

definition do_GET :: "nfd_server \<Rightarrow> nfdc_result \<Rightarrow> string \<Rightarrow> (response \<times> string list) result" where
  "do_GET srv r tgt =
     (let p = url_path tgt in
      if p = ''/'' then serve_report r
      else if p = ''/robots.txt'' \<and> allowRobots srv then Inr (Sent 404 [], [])
      else Inr (StaticFile, []))"

section \<open>The program\<close>

text \<open>\<^verbatim>\<open>int(arg)\<close>: spaces around, a sign, digits with single underscores between them\<close>

definition python_int :: "string \<Rightarrow> int option" where
  "python_int s =
     (let t = strip s;
          neg = startswith t ''-'';
          d = (if startswith t ''-'' \<or> startswith t ''+'' then tl t else t);
          groups = split_on CHR ''_'' d
      in if list_all (\<lambda>g. g \<noteq> [] \<and> list_all is_digit g) groups
         then Some ((if neg then - 1 else 1) * int_of_digits (concat groups)) else None)"

datatype argument_error = ArgumentTypeError string

definition portNumber :: "string \<Rightarrow> argument_error + int" where
  "portNumber arg =
     (let value = (case python_int arg of Some v \<Rightarrow> v | None \<Rightarrow> - 1) in
      if value < 0 \<or> value > 65535 then Inl (ArgumentTypeError arg) else Inr value)"

text \<open>\<^verbatim>\<open>ipAddress\<close>, with the validated address and its version\<close>

definition ipAddress :: "(string \<Rightarrow> (string \<times> nat) option) \<Rightarrow> string \<Rightarrow> argument_error + string \<times> nat" where
  "ipAddress ip_address arg = (case ip_address arg of Some v \<Rightarrow> Inr v | None \<Rightarrow> Inl (ArgumentTypeError arg))"

text \<open>The line printed when the server has started\<close>

definition server_url :: "string \<times> nat \<Rightarrow> int \<Rightarrow> string" where
  "server_url addr port =
     (if snd addr = 6 then ''http://['' @ fst addr @ '']:'' else ''http://'' @ fst addr @ '':'') @ show_int port"

section \<open>Properties\<close>

text \<open>The report is the output with the stylesheet after the first closing bracket, and nothing
  else changed.\<close>

lemma add_stylesheet_correct:
  assumes "CHR ''>'' \<notin> set pre"
  shows "add_stylesheet (pre @ ''>'' @ post) = Inr (pre @ ''>'' @ stylesheet @ post)"
proof -
  have "takeWhile (\<lambda>c. c \<noteq> CHR ''>'') (pre @ CHR ''>'' # post) = pre"
    using assms by (induction pre) auto
  then show ?thesis by (simp add: add_stylesheet_def Let_def)
qed

text \<open>A report program that prints nothing leaves the request without any response.\<close>

lemma empty_report: "url_path tgt = ''/'' \<Longrightarrow> do_GET srv (NfdcOutput []) tgt = Inl ValueError"
  by (simp add: do_GET_def serve_report_def add_stylesheet_def)

text \<open>Every accepted port number is one of the 65536, and every one of these is accepted as printed.\<close>

lemma port_in_range: "portNumber arg = Inr p \<Longrightarrow> 0 \<le> p \<and> p \<le> 65535"
  by (auto simp: portNumber_def Let_def split: if_splits)

lemma digit_no_blank: "is_digit c \<Longrightarrow> \<not> is_space c"
  by (auto simp: is_digit_def is_space_def)

lemma split_on_none: "c \<notin> set s \<Longrightarrow> split_on c s = [s]"
  by (induction s) auto

lemma strip_digits: "list_all is_digit s \<Longrightarrow> strip s = s"
proof -
  have drop: "dropWhile is_space s = s" if "list_all is_digit s" for s
    using that digit_no_blank by (cases s) auto
  assume "list_all is_digit s"
  with drop [of s] drop [of "rev s"] show ?thesis by (simp add: strip_def)
qed

lemma python_int_digits: "list_all is_digit s \<Longrightarrow> s \<noteq> [] \<Longrightarrow> python_int s = Some (int_of_digits s)"
proof -
  assume s: "list_all is_digit s" "s \<noteq> []"
  have "\<not> is_digit CHR ''_''" "\<not> is_digit CHR ''-''" "\<not> is_digit CHR ''+''" by (simp_all add: is_digit_def)
  then have "CHR ''_'' \<notin> set s" "\<not> startswith s ''-''" "\<not> startswith s ''+''"
    using s by (metis list_all_iff) (use s \<open>\<not> is_digit CHR ''-''\<close> \<open>\<not> is_digit CHR ''+''\<close> in \<open>cases s; auto\<close>)+
  with s show ?thesis by (simp add: python_int_def Let_def strip_digits split_on_none)
qed

lemma port_roundtrip: "p \<le> 65535 \<Longrightarrow> portNumber (show_nat p) = Inr (int p)"
  using show_nat_digits [of p] by (simp add: portNumber_def Let_def python_int_digits int_of_show_nat)

text \<open>The report is served only for the root path, and its error codes tell what went wrong.\<close>

lemma do_GET_cases:
  "do_GET srv r tgt =
     (if url_path tgt \<noteq> ''/'' then
        Inr (if url_path tgt = ''/robots.txt'' \<and> allowRobots srv then Sent 404 [] else StaticFile, [])
      else serve_report r)"
  by (simp add: do_GET_def Let_def)

end
