(* ===== verification/VizItems.thy ===== *)
theory VizItems
  imports Prelude Complex_Main
begin

text \<open>
  Items and start of the visualizer: the SVG icons of \<^verbatim>\<open>src/visualizer/visualizer/svgitem.py\<close> with
  their placement in \<^verbatim>\<open>core.py\<close>, the tooltip of a node and the search for the item that has
  one, and the start of the visualizer with its initialization hooks. Floats are rational numbers;
  loading an image and what the simulator reports on a node are parameters.
\<close>

section \<open>SVG items\<close>

record svg_handle =
  props_width :: rat
  props_height :: rat

record svg_item =
  svg_x :: rat
  svg_y :: rat
  svg_sx :: rat
  svg_sy :: rat
  svg_width :: rat
  svg_height :: rat
  svg_handle_of :: svg_handle
  custom_width :: "rat option"
  custom_height :: "rat option"

definition new_svg_item :: "rat \<Rightarrow> rat \<Rightarrow> svg_handle \<Rightarrow> svg_item" where
  "new_svg_item x y img =
     \<lparr>svg_x = x, svg_y = y, svg_sx = 1, svg_sy = 1, svg_width = props_width img, svg_height = props_height img,
      svg_handle_of = img, custom_width = None, custom_height = None\<rparr>"

definition float_div :: "rat \<Rightarrow> rat \<Rightarrow> rat result" where
  "float_div a b = (if b = 0 then Inl ZeroDivisionError else Inr (a / b))"

text \<open>\<^verbatim>\<open>_size_changed\<close>\<close>

definition size_changed :: "svg_item \<Rightarrow> svg_item result" where
  "size_changed it =
     (let hw = props_width (svg_handle_of it); hh = props_height (svg_handle_of it) in
      case (custom_width it, custom_height it) of
        (None, None) \<Rightarrow> Inr (it\<lparr>svg_width := hw, svg_height := hh, svg_sx := 1, svg_sy := 1\<rparr>)
      | (Some w, None) \<Rightarrow>
          rbind (float_div w hw) (\<lambda>s. Inr (it\<lparr>svg_width := w, svg_sx := s, svg_sy := s, svg_height := hh * s\<rparr>))
      | (None, Some h) \<Rightarrow>
          rbind (float_div h hh) (\<lambda>s. Inr (it\<lparr>svg_height := h, svg_sy := s, svg_sx := s, svg_width := hw * s\<rparr>))
      | (Some w, Some h) \<Rightarrow>
          rbind (float_div w hw) (\<lambda>sx. rbind (float_div h hh) (\<lambda>sy.
            Inr (it\<lparr>svg_width := w, svg_height := h, svg_sx := sx, svg_sy := sy\<rparr>))))"

text \<open>\<^verbatim>\<open>do_set_property\<close> and \<^verbatim>\<open>do_get_property\<close>; reading the width sets the size back to that of the
  image.\<close>

definition set_svg_property :: "string \<Rightarrow> rat \<Rightarrow> svg_item \<Rightarrow> svg_item result" where
  "set_svg_property p v it =
     (if p = ''x'' then Inr (it\<lparr>svg_x := v\<rparr>)
      else if p = ''y'' then Inr (it\<lparr>svg_y := v\<rparr>)
      else if p = ''width'' then size_changed (it\<lparr>custom_width := Some v\<rparr>)
      else if p = ''height'' then size_changed (it\<lparr>custom_height := Some v\<rparr>)
      else Inl AttributeError)"

definition get_svg_property :: "string \<Rightarrow> svg_item \<Rightarrow> (rat \<times> svg_item) result" where
  "get_svg_property p it =
     (if p = ''x'' then Inr (svg_x it, it)
      else if p = ''y'' then Inr (svg_y it, it)
      else if p = ''width'' then
        (let it' = it\<lparr>svg_width := props_width (svg_handle_of it), svg_height := props_height (svg_handle_of it)\<rparr>
         in Inr (svg_width it', it'))
      else if p = ''height'' then Inr (svg_height it, it)
      else Inl AttributeError)"

text \<open>The box of an item for the canvas, and the test for the pointer\<close>

definition simple_update :: "svg_item \<Rightarrow> rat \<times> rat \<times> rat \<times> rat" where
  "simple_update it = (svg_x it, svg_y it, svg_x it + svg_width it, svg_y it + svg_height it)"

definition is_item_at :: "rat \<Rightarrow> rat \<Rightarrow> svg_item \<Rightarrow> bool" where
  "is_item_at x y it =
     (\<not> (x < svg_x it \<or> x > svg_x it + svg_width it \<or> y < svg_y it \<or> y > svg_y it + svg_height it))"

text \<open>The area that \<^verbatim>\<open>do_simple_paint\<close> paints: the image, moved and scaled\<close>

definition painted :: "svg_item \<Rightarrow> rat \<times> rat \<times> rat \<times> rat" where
  "painted it =
     (svg_x it, svg_y it, svg_x it + svg_sx it * props_width (svg_handle_of it),
      svg_y it + svg_sy it * props_height (svg_handle_of it))"

text \<open>\<^verbatim>\<open>rsvg_handle_factory\<close>: the cache and the images loaded so far\<close>

definition rsvg_handle_factory ::
  "(string \<Rightarrow> 'h result) \<Rightarrow> string \<Rightarrow> (string, 'h) dict \<Rightarrow> 'h result \<times> (string, 'h) dict" where
  "rsvg_handle_factory load base cache =
     (case map_of cache base of
        Some img \<Rightarrow> (Inr img, cache)
      | None \<Rightarrow> (case load base of Inl e \<Rightarrow> (Inl e, cache) | Inr img \<Rightarrow> (Inr img, AList.update base img cache)))"

text \<open>\<^verbatim>\<open>Node._update_svg_position\<close>, and \<^verbatim>\<open>Node.set_svg_icon\<close> with the image and the node's position\<close>

definition update_svg_position :: "rat \<Rightarrow> rat \<Rightarrow> rat \<Rightarrow> rat \<Rightarrow> svg_item \<Rightarrow> svg_item" where
  "update_svg_position align_x align_y x y it =
     it\<lparr>svg_x := x - (1 - align_x) * svg_width it, svg_y := y - (1 - align_y) * svg_height it\<rparr>"

definition set_optional :: "string \<Rightarrow> rat option \<Rightarrow> (rat \<Rightarrow> rat) \<Rightarrow> svg_item \<Rightarrow> svg_item result" where
  "set_optional p v scale it = (case v of None \<Rightarrow> Inr it | Some d \<Rightarrow> set_svg_property p (scale d) it)"

definition set_svg_icon ::
  "(rat \<Rightarrow> rat) \<Rightarrow> svg_handle result \<Rightarrow> rat option \<Rightarrow> rat option \<Rightarrow> rat \<Rightarrow> rat \<Rightarrow> rat \<Rightarrow> rat \<Rightarrow> svg_item result" where
  "set_svg_icon to_canvas loaded width height align_x align_y x y =
     (if width = None \<and> height = None then Inl ValueError
      else
        rbind loaded (\<lambda>img.
        rbind (set_optional ''width'' width to_canvas (new_svg_item x y img)) (\<lambda>it.
        rbind (set_optional ''height'' height to_canvas it) (\<lambda>it'.
          Inr (update_svg_position align_x align_y x y it')))))"

section \<open>Tooltips\<close>

record tip_device =
  tip_name :: string
  tip_type :: string
  tip_ipv4 :: "(string \<times> string) list option"
  tip_ipv6 :: "(string \<times> string) list option"
  tip_mac :: string

record tip_node =
  tip_index :: nat
  tip_node_name :: string
  tip_mobility :: "string option"
  tip_devices :: "tip_device list"

definition addresses_line :: "string \<Rightarrow> (string \<times> string) list option \<Rightarrow> string list" where
  "addresses_line title as =
     (case as of
        None \<Rightarrow> []
      | Some l \<Rightarrow> [''    <b>'' @ title @ '' Addresses:</b> '' @ join_with ''; '' (map (\<lambda>(a, m). a @ ''/'' @ m) l)])"

definition device_lines :: "nat \<Rightarrow> tip_device \<Rightarrow> string list" where
  "device_lines i d =
     [[], ''  <u>NetDevice '' @ show_nat i @ '':</u>''] @
     (if tip_name d \<noteq> [] then [''    <b>Name:</b> '' @ tip_name d] else []) @
     [''    <b>Type:</b> '' @ tip_type d] @
     addresses_line ''IPv4'' (tip_ipv4 d) @ addresses_line ''IPv6'' (tip_ipv6 d) @
     [''    <b>MAC Address:</b> '' @ tip_mac d]"

text \<open>\<^verbatim>\<open>Node.tooltip_query\<close>; \<open>extra\<close> are the lines that the handlers of the signal add.\<close>

definition tooltip_lines :: "string list \<Rightarrow> tip_node \<Rightarrow> string list" where
  "tooltip_lines extra n =
     [''<b><u>Node '' @ show_nat (tip_index n) @ ''</u></b>'' @
        (if tip_node_name n \<noteq> [] then '' <b>('' @ tip_node_name n @ '')</b>'' else []), []] @ extra @
     (case tip_mobility n of None \<Rightarrow> [] | Some m \<Rightarrow> [''  <b>Mobility Model</b>: '' @ m]) @
     concat (map (\<lambda>(i, d). device_lines i d) (enumerate 0 (tip_devices n)))"

text \<open>\<^verbatim>\<open>_canvas_tooltip_cb\<close>: from the item at the pointer up through its parents, each with the object
  it belongs to, if any.\<close>

fun tooltip_object :: "'o option list \<Rightarrow> 'o option" where
  "tooltip_object [] = None"
| "tooltip_object (None # items) = tooltip_object items"
| "tooltip_object (Some ob # items) = Some ob"

section \<open>Start\<close>

datatype 'a viz_action =
    RunSimulator | LoadPlugins | CreateVisualizer | IdleAdd 'a | EnablePrinting | StartVisualizer

definition add_initialization_hook :: "'a \<Rightarrow> 'a list \<Rightarrow> 'a list" where
  "add_initialization_hook hook hooks = hooks @ [hook]"

text \<open>\<^verbatim>\<open>set_bounds\<close>: the hook sets the bounds of the canvas\<close>

definition set_bounds_hook :: "rat \<Rightarrow> rat \<Rightarrow> rat \<Rightarrow> rat \<Rightarrow> (rat \<times> rat \<times> rat \<times> rat) list \<Rightarrow> (rat \<times> rat \<times> rat \<times> rat) list result" where
  "set_bounds_hook x1 y1 x2 y2 hooks =
     py_assert (x2 > x1) (py_assert (y2 > y1) (Inr (add_initialization_hook (x1, y1, x2, y2) hooks)))"

definition start_actions :: "bool \<Rightarrow> bool \<Rightarrow> 'a list \<Rightarrow> 'a viz_action list result" where
  "start_actions instance_exists import_failed hooks =
     py_assert (\<not> instance_exists)
       (Inr (if import_failed then [RunSimulator]
             else [LoadPlugins, CreateVisualizer] @ map IdleAdd hooks @ [EnablePrinting, StartVisualizer]))"

section \<open>Properties of the SVG items\<close>

text \<open>The area where the pointer finds an item is the area where it is painted.\<close>

definition svg_consistent :: "svg_item \<Rightarrow> bool" where
  "svg_consistent it = (simple_update it = painted it)"

definition valid_image :: "svg_handle \<Rightarrow> bool" where
  "valid_image img = (props_width img > 0 \<and> props_height img > 0)"

lemma size_changed_total:
  assumes "valid_image (svg_handle_of it)"
  shows "\<exists>it'. size_changed it = Inr it' \<and> svg_consistent it' \<and> svg_handle_of it' = svg_handle_of it \<and>
    (custom_width it \<noteq> None \<longrightarrow> Some (svg_width it') = custom_width it) \<and>
    (custom_height it \<noteq> None \<longrightarrow> Some (svg_height it') = custom_height it) \<and>
    (custom_width it = None \<or> custom_height it = None \<longrightarrow> svg_sx it' = svg_sy it')"
  using assms
  by (auto simp: size_changed_def Let_def float_div_def svg_consistent_def simple_update_def painted_def
      valid_image_def split: option.split)

lemma set_property_consistent:
  assumes "svg_consistent it" "valid_image (svg_handle_of it)" "p \<in> {''x'', ''y'', ''width'', ''height''}"
  shows "\<exists>it'. set_svg_property p v it = Inr it' \<and> svg_consistent it' \<and> svg_handle_of it' = svg_handle_of it"
proof -
  have "svg_consistent (it\<lparr>svg_x := v\<rparr>)" "svg_consistent (it\<lparr>svg_y := v\<rparr>)"
    using assms(1) by (simp_all add: svg_consistent_def simple_update_def painted_def)
  moreover have "\<exists>it'. size_changed (it\<lparr>custom_width := Some v\<rparr>) = Inr it' \<and> svg_consistent it' \<and> svg_handle_of it' = svg_handle_of it"
    "\<exists>it'. size_changed (it\<lparr>custom_height := Some v\<rparr>) = Inr it' \<and> svg_consistent it' \<and> svg_handle_of it' = svg_handle_of it"
    using size_changed_total [of "it\<lparr>custom_width := Some v\<rparr>"] size_changed_total [of "it\<lparr>custom_height := Some v\<rparr>"] assms(2)
    by auto
  ultimately show ?thesis using assms(3) by (auto simp: set_svg_property_def)
qed

text \<open>
  An icon set with a width, a height or both is painted where the pointer finds it, has the given
  size, keeps the proportions of the image when only one is given, and is placed by its alignment:
  with 0 its right or lower edge is at the node, with 1 its left or upper edge.
\<close>

theorem svg_icon_correct:
  assumes "valid_image img" and "width \<noteq> None \<or> height \<noteq> None"
  shows "\<exists>it. set_svg_icon to_canvas (Inr img) width height align_x align_y x y = Inr it \<and>
    svg_consistent it \<and>
    (\<forall>w. width = Some w \<longrightarrow> svg_width it = to_canvas w) \<and> (\<forall>h. height = Some h \<longrightarrow> svg_height it = to_canvas h) \<and>
    (width = None \<or> height = None \<longrightarrow> svg_width it * props_height img = svg_height it * props_width img) \<and>
    x = svg_x it + (1 - align_x) * svg_width it \<and> y = svg_y it + (1 - align_y) * svg_height it"
  using assms
  by (cases width; cases height)
    (auto simp: set_svg_icon_def set_optional_def set_svg_property_def size_changed_def new_svg_item_def Let_def
        float_div_def svg_consistent_def simple_update_def painted_def valid_image_def update_svg_position_def)

text \<open>Reading the width of a scaled item makes the two areas different, and gives the width of the
  image.\<close>

lemma get_width_breaks:
  assumes "valid_image (svg_handle_of it)" "set_svg_property ''width'' w it = Inr it'"
    "get_svg_property ''width'' it' = Inr (v, it'')"
  shows "v = props_width (svg_handle_of it)" "w \<noteq> props_width (svg_handle_of it) \<Longrightarrow> \<not> svg_consistent it''"
proof -
  have it': "svg_handle_of it' = svg_handle_of it" "svg_sx it' = w / props_width (svg_handle_of it)"
    using assms(1,2)
    by (auto simp: set_svg_property_def size_changed_def Let_def float_div_def valid_image_def split: option.splits)
  have it'': "v = props_width (svg_handle_of it')"
    "it'' = it'\<lparr>svg_width := props_width (svg_handle_of it'), svg_height := props_height (svg_handle_of it')\<rparr>"
    using assms(3) by (auto simp: get_svg_property_def Let_def)
  show "v = props_width (svg_handle_of it)" using it'' it' by simp
  show "w \<noteq> props_width (svg_handle_of it) \<Longrightarrow> \<not> svg_consistent it''"
    using it' assms(1) by (simp add: it''(2) svg_consistent_def simple_update_def painted_def valid_image_def)
qed

text \<open>The cache: a second request for an image gives the same one and loads nothing.\<close>

lemma handle_cached:
  assumes "rsvg_handle_factory load base cache = (Inr img, cache')"
  shows "rsvg_handle_factory load' base cache' = (Inr img, cache')"
  using assms by (auto simp: rsvg_handle_factory_def split: option.splits sum.splits)

lemma tooltip_object_first:
  "tooltip_object items = Some ob \<longleftrightarrow> (\<exists>n. n < length items \<and> items ! n = Some ob \<and> (\<forall>m<n. items ! m = None))"
proof (induction items rule: tooltip_object.induct)
  case (2 items)
  show ?case
  proof
    assume "tooltip_object (None # items) = Some ob"
    then obtain n where "n < length items" "items ! n = Some ob" "\<forall>m<n. items ! m = None" using 2 by auto
    then show "\<exists>n<length (None # items). (None # items) ! n = Some ob \<and> (\<forall>m<n. (None # items) ! m = None)"
      by (intro exI [of _ "Suc n"]) (auto simp: less_Suc_eq_0_disj)
  next
    assume "\<exists>n<length (None # items). (None # items) ! n = Some ob \<and> (\<forall>m<n. (None # items) ! m = None)"
    then obtain n where n: "n < length (None # items)" "(None # items) ! n = Some ob" "\<forall>m<n. (None # items) ! m = None" by auto
    then obtain k where "n = Suc k" by (cases n) auto
    with n have "k < length items" "items ! k = Some ob" "\<forall>m<k. items ! m = None" by auto
    with 2 show "tooltip_object (None # items) = Some ob" by auto
  qed
next
  case (3 ob' items)
  have "\<not> (\<forall>m<n. (Some ob' # items) ! m = None)" if "n \<noteq> 0" for n
    using that by (auto intro!: exI [of _ 0])
  then show ?case by (metis length_greater_0_conv list.distinct(1) nth_Cons_0 option.inject not_less_zero tooltip_object.simps(3))
qed simp

end
