(* ===== verification/TestConfig.thy ===== *)
theory TestConfig
  imports Prelude "HOL-Library.Char_ord" "HOL-Library.List_Lexorder"
begin

text \<open>
  \<^verbatim>\<open>test.py\<close>: the configuration that it reads from the files of waf, and the listing of the tests
  and their kinds. The evaluation of a Python literal and the execution of an assignment are
  parameters (they are what Python does with a line that waf has written); so are the files and
  the run of the test runner.
\<close>

section \<open>The configuration\<close>

definition interesting_config_items :: "string list" where
  "interesting_config_items =
    [''NS3_ENABLED_MODULES'', ''NS3_ENABLED_CONTRIBUTED_MODULES'', ''NS3_MODULE_PATH'', ''NSC_ENABLED'',
     ''ENABLE_REAL_TIME'', ''ENABLE_THREADING'', ''ENABLE_EXAMPLES'', ''ENABLE_TESTS'', ''EXAMPLE_DIRECTORIES'',
     ''ENABLE_PYTHON_BINDINGS'', ''NSCLICK'', ''ENABLE_BRITE'', ''ENABLE_OPENFLOW'', ''APPNAME'', ''BUILD_PROFILE'',
     ''VERSION'', ''PYTHON'', ''VALGRIND_FOUND'']"

text \<open>The loop over the lock file: the variables \<^verbatim>\<open>top_dir\<close> and \<^verbatim>\<open>out_dir\<close>, unbound at first.\<close>

definition assigned :: "(string \<Rightarrow> string result) \<Rightarrow> string \<Rightarrow> string result" where
  "assigned py_eval line =
     (case split_on CHR ''='' line of
        [key, val] \<Rightarrow> py_eval (strip val)
      | _ \<Rightarrow> Inl ValueError)"

definition lock_line ::
  "(string \<Rightarrow> string result) \<Rightarrow> string option \<times> string option \<Rightarrow> string \<Rightarrow> (string option \<times> string option) result" where
  "lock_line py_eval dirs line =
     (if startswith line ''top_dir ='' then rbind (assigned py_eval line) (\<lambda>d. Inr (Some d, snd dirs))
      else if startswith line ''out_dir ='' then rbind (assigned py_eval line) (\<lambda>d. Inr (fst dirs, Some d))
      else Inr dirs)"

text \<open>The loop over the cache file: a line is executed once for every item it starts with.\<close>

definition cache_line ::
  "(string \<Rightarrow> (string \<times> 'v) result) \<Rightarrow> (string, 'v) dict \<Rightarrow> string \<Rightarrow> (string, 'v) dict result" where
  "cache_line py_exec globals line =
     for_each (\<lambda>g item. if startswith line item then rbind (py_exec line) (\<lambda>(k, v). Inr (AList.update k v g)) else Inr g)
       interesting_config_items globals"

record waf_files =
  lock_platform :: "string list option"
  lock_linux2 :: "string list option"
  cache_py :: "string \<Rightarrow> string list option"

record 'v test_globals =
  basedir :: string
  builddir :: string
  settings :: "(string, 'v) dict"

definition read_lock :: "waf_files \<Rightarrow> string list result" where
  "read_lock fs =
     (case lock_platform fs of
        Some ls \<Rightarrow> Inr ls
      | None \<Rightarrow> (case lock_linux2 fs of Some ls \<Rightarrow> Inr ls | None \<Rightarrow> Inl (SystemExit 2)))"

definition read_waf_config ::
  "(string \<Rightarrow> string result) \<Rightarrow> (string \<Rightarrow> (string \<times> 'v) result) \<Rightarrow> waf_files \<Rightarrow> (string, 'v) dict \<Rightarrow> 'v test_globals result" where
  "read_waf_config py_eval py_exec fs defaults =
     rbind (read_lock fs) (\<lambda>ls.
     rbind (for_each (lock_line py_eval) ls (None, None)) (\<lambda>dirs.
       case dirs of
         (Some top_dir, Some out_dir) \<Rightarrow>
           (case cache_py fs (out_dir @ ''/c4che/_cache.py'') of
              None \<Rightarrow> Inl IOError
            | Some cs \<Rightarrow>
                rbind (for_each (cache_line py_exec) cs defaults) (\<lambda>g.
                  Inr \<lparr>basedir = top_dir, builddir = out_dir, settings = g\<rparr>))
       | _ \<Rightarrow> Inl UnboundLocalError))"

section \<open>Listing\<close>

text \<open>The listing with \<^verbatim>\<open>--list\<close>: the lines printed, given the exit status and the output of the test
  runner. Whatever happens, the program then ends with status 0.\<close>

definition newline_char :: char where
  "newline_char = CHR 0x0A"

definition list_command :: "string \<Rightarrow> string" where
  "list_command constrained =
     '' --print-test-name-list --print-test-types'' @ (if constrained \<noteq> [] then '' --test-type='' @ constrained else [])"

definition tests_listed :: "string \<Rightarrow> string list" where
  "tests_listed standard_out = filter (\<lambda>item. strip item \<noteq> []) (sort (split_on newline_char standard_out))"

definition list_tests :: "int \<Rightarrow> string \<Rightarrow> string list \<Rightarrow> string list \<times> int" where
  "list_tests rc standard_out example_names =
     (if rc \<noteq> 0 then
        ([''test.py error:  test-runner return code returned '' @ show_int rc,
          ''To debug, try running '' @ [CHR 0x27] @ ''./waf --run '' @ [CHR 0x22] @ ''test-runner --print-test-name-list'' @
            [CHR 0x22, CHR 0x27, newline_char]], 0)
      else
        ([''Test Type    Test Name'', ''---------    ---------''] @
         tests_listed standard_out @
         map (\<lambda>item. ''example      '' @ item) (sort example_names) @ [[]], 0))"

section \<open>Properties\<close>

text \<open>The lines of a lock file as waf writes them\<close>

definition lock_text :: "(string \<Rightarrow> string) \<Rightarrow> string \<times> string \<Rightarrow> string" where
  "lock_text repr kv = fst kv @ '' = '' @ repr (snd kv) @ [newline_char]"

definition dir_assignments :: "string \<Rightarrow> (string \<times> string) list \<Rightarrow> string list" where
  "dir_assignments k kvs = map snd (filter (\<lambda>kv. fst kv = k) kvs)"

lemma split_on_once:
  "c \<notin> set a \<Longrightarrow> c \<notin> set b \<Longrightarrow> split_on c (a @ c # b) = [a, b]"
proof -
  assume ab: "c \<notin> set a" "c \<notin> set b"
  have b: "split_on c b = [b]" using ab(2) by (induction b) auto
  show ?thesis using ab(1) by (induction a) (auto simp: b)
qed

lemma strip_assigned:
  "r \<noteq> [] \<Longrightarrow> \<not> is_space (hd r) \<Longrightarrow> \<not> is_space (last r) \<Longrightarrow> strip ('' '' @ r @ [newline_char]) = r"
proof -
  assume r: "r \<noteq> []" "\<not> is_space (hd r)" "\<not> is_space (last r)"
  have "dropWhile is_space ('' '' @ r @ [newline_char]) = r @ [newline_char]"
    using r by (cases r) (simp_all add: is_space_def)
  moreover have "dropWhile is_space (rev (r @ [newline_char])) = rev r"
    using r(1,3) by (cases r rule: rev_cases) (simp_all add: is_space_def newline_char_def)
  ultimately show ?thesis by (simp add: strip_def)
qed

text \<open>What the reading of a configuration relies on: the evaluation is the inverse of the printing,
  and a printed path has no equality sign and no spaces at its ends.\<close>

definition printed_well :: "(string \<Rightarrow> string) \<Rightarrow> (string \<Rightarrow> string result) \<Rightarrow> string \<Rightarrow> bool" where
  "printed_well repr py_eval v =
     (py_eval (repr v) = Inr v \<and> repr v \<noteq> [] \<and> \<not> is_space (hd (repr v)) \<and> \<not> is_space (last (repr v)) \<and>
      CHR ''='' \<notin> set (repr v))"

lemma assigned_text:
  assumes "CHR ''='' \<notin> set k" "printed_well repr py_eval v"
  shows "assigned py_eval (lock_text repr (k, v)) = Inr v"
proof -
  have "split_on CHR ''='' ((k @ '' '') @ CHR ''='' # ('' '' @ repr v @ [newline_char])) =
      [k @ '' '', '' '' @ repr v @ [newline_char]]"
    using assms by (intro split_on_once) (auto simp: printed_well_def newline_char_def)
  moreover have "strip ('' '' @ repr v @ [newline_char]) = repr v"
    using assms(2) by (intro strip_assigned) (auto simp: printed_well_def)
  ultimately show ?thesis using assms(2) by (simp add: assigned_def lock_text_def printed_well_def)
qed

lemma lock_text_starts:
  assumes "CHR ''='' \<notin> set k" "k' \<in> {''top_dir'', ''out_dir''}" "CHR '' '' \<notin> set k"
  shows "startswith (lock_text repr (k, v)) (k' @ '' ='') \<longleftrightarrow> k = k'"
proof
  assume "startswith (lock_text repr (k, v)) (k' @ '' ='')"
  then obtain t where "k @ '' = '' @ repr v @ [newline_char] = k' @ '' ='' @ t" by (auto simp: startswith_iff lock_text_def)
  moreover have word: "takeWhile (\<lambda>c. c \<noteq> CHR '' '') (a @ CHR '' '' # s) = a" if "CHR '' '' \<notin> set a" for a s
    using that by (induction a) auto
  moreover have "CHR '' '' \<notin> set k'" using assms(2) by auto
  ultimately have "k = k'" using word [of k] word [of k'] assms(3) by (metis append_Cons append_Nil)
  then show "k = k'" by simp
qed (auto simp: startswith_iff lock_text_def)

definition lock_key :: "string \<Rightarrow> bool" where
  "lock_key k = (CHR ''='' \<notin> set k \<and> CHR '' '' \<notin> set k)"

definition last_or :: "'a option \<Rightarrow> 'a list \<Rightarrow> 'a option" where
  "last_or d xs = (if xs = [] then d else Some (last xs))"

lemma lock_loop:
  assumes "list_all (\<lambda>(k, v). lock_key k \<and> (k \<in> {''top_dir'', ''out_dir''} \<longrightarrow> printed_well repr py_eval v)) kvs"
  shows "for_each (lock_line py_eval) (map (lock_text repr) kvs) (t, d) =
    Inr (last_or t (dir_assignments ''top_dir'' kvs), last_or d (dir_assignments ''out_dir'' kvs))"
  using assms
proof (induction kvs arbitrary: t d)
  case (Cons kv kvs)
  obtain k v where kv: "kv = (k, v)" by (cases kv)
  have k: "lock_key k" "k \<in> {''top_dir'', ''out_dir''} \<Longrightarrow> printed_well repr py_eval v"
    using Cons.prems kv by auto
  have starts: "startswith (lock_text repr (k, v)) ''top_dir ='' \<longleftrightarrow> k = ''top_dir''"
    "startswith (lock_text repr (k, v)) ''out_dir ='' \<longleftrightarrow> k = ''out_dir''"
    using lock_text_starts [of k "''top_dir''" repr v] lock_text_starts [of k "''out_dir''" repr v] k(1)
    by (simp_all add: lock_key_def)
  have step: "lock_line py_eval (t, d) (lock_text repr (k, v)) =
      Inr (if k = ''top_dir'' then Some v else t, if k = ''out_dir'' then Some v else d)"
  proof -
    have "assigned py_eval (lock_text repr (k, v)) = Inr v" if "k \<in> {''top_dir'', ''out_dir''}"
      using k that assigned_text [of k repr py_eval v] by (simp add: lock_key_def)
    then show ?thesis by (auto simp: lock_line_def starts)
  qed
  show ?case
    using Cons.IH Cons.prems step by (auto simp: kv dir_assignments_def last_or_def)
qed (simp add: dir_assignments_def last_or_def)

text \<open>A line of the cache that starts with an item is executed.\<close>

definition executed :: "string \<Rightarrow> bool" where
  "executed line = list_ex (startswith line) interesting_config_items"

lemma items_loop:
  assumes "py_exec line = Inr (k, v)"
  shows "\<exists>g'. for_each (\<lambda>g item. if startswith line item then rbind (py_exec line) (\<lambda>(k, v). Inr (AList.update k v g)) else Inr g)
      items g = Inr g' \<and>
    (\<forall>x. map_of g' x = (if list_ex (startswith line) items \<and> x = k then Some v else map_of g x))"
proof (induction items arbitrary: g)
  case (Cons item items)
  show ?case
  proof (cases "startswith line item")
    case True
    then show ?thesis using Cons.IH [of "AList.update k v g"] by (auto simp: assms)
  next
    case False
    then show ?thesis using Cons.IH [of g] by simp
  qed
qed simp

lemma cache_loop:
  assumes "list_all (\<lambda>l. py_exec l = Inr (name l, val l)) cs"
  shows "\<exists>g'. for_each (cache_line py_exec) cs g = Inr g' \<and>
    (\<forall>x. map_of g' x = (case List.find (\<lambda>l. executed l \<and> name l = x) (rev cs) of
       Some l \<Rightarrow> Some (val l) | None \<Rightarrow> map_of g x))"
  using assms
proof (induction cs rule: rev_induct)
  case (snoc l cs)
  then obtain g' where g': "for_each (cache_line py_exec) cs g = Inr g'"
    "\<And>x. map_of g' x = (case List.find (\<lambda>l. executed l \<and> name l = x) (rev cs) of
       Some l \<Rightarrow> Some (val l) | None \<Rightarrow> map_of g x)"
    by auto
  obtain g'' where g'': "cache_line py_exec g' l = Inr g''"
    "\<And>x. map_of g'' x = (if executed l \<and> x = name l then Some (val l) else map_of g' x)"
    using items_loop [of py_exec l "name l" "val l" interesting_config_items g'] snoc.prems
    by (auto simp: cache_line_def executed_def)
  show ?case using g' g'' by (auto simp: for_each_append)
qed simp

text \<open>
  From a lock file and a cache as waf writes them the configuration is read completely. The
  directories are those of the last assignments, and each setting has the value of the last line
  of the cache that is executed and assigns it, or its default; a missing lock file ends the
  program with status 2.
\<close>

theorem read_waf_config_correct:
  assumes "read_lock fs = Inr (map (lock_text repr) kvs)"
    and "list_all (\<lambda>(k, v). lock_key k \<and> (k \<in> {''top_dir'', ''out_dir''} \<longrightarrow> printed_well repr py_eval v)) kvs"
    and "dir_assignments ''top_dir'' kvs \<noteq> []" and "dir_assignments ''out_dir'' kvs \<noteq> []"
    and "cache_py fs (last (dir_assignments ''out_dir'' kvs) @ ''/c4che/_cache.py'') = Some cs"
    and "list_all (\<lambda>l. py_exec l = Inr (name l, val l)) cs"
  shows "\<exists>g. read_waf_config py_eval py_exec fs defaults = Inr g \<and>
    basedir g = last (dir_assignments ''top_dir'' kvs) \<and> builddir g = last (dir_assignments ''out_dir'' kvs) \<and>
    (\<forall>x. map_of (settings g) x = (case List.find (\<lambda>l. executed l \<and> name l = x) (rev cs) of
       Some l \<Rightarrow> Some (val l) | None \<Rightarrow> map_of defaults x))"
proof -
  obtain g' where "for_each (cache_line py_exec) cs defaults = Inr g'"
    "\<And>x. map_of g' x = (case List.find (\<lambda>l. executed l \<and> name l = x) (rev cs) of
       Some l \<Rightarrow> Some (val l) | None \<Rightarrow> map_of defaults x)"
    using cache_loop [OF assms(6)] by blast
  then show ?thesis
    using assms(1,3,4,5) lock_loop [OF assms(2), of None None] by (simp add: read_waf_config_def last_or_def)
qed

definition demo_repr :: "string \<Rightarrow> string" where
  "demo_repr s = [CHR 0x27] @ s @ [CHR 0x27]"

definition demo_eval_literal :: "string \<Rightarrow> string result" where
  "demo_eval_literal s = (if length s < 2 then Inl ValueError else Inr (butlast (tl s)))"

definition demo_waf_files :: waf_files where
  "demo_waf_files = \<lparr>lock_platform = None,
     lock_linux2 = Some [lock_text demo_repr (''argv'', ''x''), lock_text demo_repr (''out_dir'', ''/n/build''), lock_text demo_repr (''top_dir'', ''/n'')],
     cache_py = (\<lambda>p. if p = ''/n/build/c4che/_cache.py'' then Some [''APPNAME = ns''] else None)\<rparr>"

definition demo_exec :: "string \<Rightarrow> (string \<times> string) result" where
  "demo_exec l = Inr (takeWhile (\<lambda>c. c \<noteq> CHR '' '') l, drop 10 l)"

theorem read_waf_config_correct_witness:
  "\<exists>g. read_waf_config demo_eval_literal demo_exec demo_waf_files [(''VERSION'', [])] = Inr g \<and>
     basedir g = ''/n'' \<and> builddir g = ''/n/build'' \<and>
     map_of (settings g) ''APPNAME'' = Some ''ns'' \<and> map_of (settings g) ''VERSION'' = Some []"
proof -
  define kvs where "kvs = [(''argv'', ''x''), (''out_dir'', ''/n/build''), (''top_dir'', ''/n'')]"
  have lock: "read_lock demo_waf_files = Inr (map (lock_text demo_repr) kvs)"
    by (simp add: read_lock_def demo_waf_files_def kvs_def)
  have keys: "list_all (\<lambda>(k, v). lock_key k \<and> (k \<in> {''top_dir'', ''out_dir''} \<longrightarrow> printed_well demo_repr demo_eval_literal v)) kvs"
    by (simp add: kvs_def lock_key_def printed_well_def demo_repr_def demo_eval_literal_def is_space_def)
  have dirs: "dir_assignments ''top_dir'' kvs = [''/n'']" "dir_assignments ''out_dir'' kvs = [''/n/build'']"
    by (simp_all add: kvs_def dir_assignments_def)
  have cache: "cache_py demo_waf_files (last (dir_assignments ''out_dir'' kvs) @ ''/c4che/_cache.py'') = Some [''APPNAME = ns'']"
    by (simp add: dirs demo_waf_files_def)
  have run: "list_all (\<lambda>l. demo_exec l = Inr (takeWhile (\<lambda>c. c \<noteq> CHR '' '') l, drop 10 l)) [''APPNAME = ns'']"
    by (simp add: demo_exec_def)
  have ex: "executed ''APPNAME = ns''" by code_simp
  from read_waf_config_correct [OF lock keys _ _ cache run, of "[(''VERSION'', [])]"] dirs ex show ?thesis
    by auto
qed

text \<open>A directory with an equality sign in its name cannot be read.\<close>

lemma equality_sign_in_path:
  assumes "startswith line ''top_dir =''" "length (filter (\<lambda>c. c = CHR ''='') line) > 1"
  shows "lock_line py_eval dirs line = Inl ValueError"
proof -
  have "length (split_on c s) = Suc (length (filter (\<lambda>x. x = c) s))" for c s
  proof (induction s)
    case (Cons x s)
    then show ?case by (cases "split_on c s") auto
  qed simp
  from this [of "CHR ''=''" line] assms(2) have "length (split_on CHR ''='' line) > 2" by simp
  then have "assigned py_eval line = Inl ValueError" by (auto simp: assigned_def split: list.split)
  with assms(1) show ?thesis by (simp add: lock_line_def)
qed

text \<open>The listing has every non-blank line of the test runner and every example, sorted; when the
  test runner fails, the program ends with status 0 all the same.\<close>

lemma tests_listed_sorted:
  "sorted (tests_listed out)" "mset (tests_listed out) = filter_mset (\<lambda>l. strip l \<noteq> []) (mset (split_on newline_char out))"
  by (simp_all add: tests_listed_def sorted_filter [where f = id, simplified])

lemma list_failure_status: "snd (list_tests rc out names) = 0"
  by (simp add: list_tests_def)

end
