(* ===== verification/PortTests.thy ===== *)
theory PortTests
  imports ModuleScan Complex_Main
begin

text \<open>
  \<^verbatim>\<open>utils/tests\<close>: the suites that run waf and \<^verbatim>\<open>test.py\<close> with many options. \<^verbatim>\<open>TestBase.py\<close>
  runs a list of shell commands and counts the failures; \<^verbatim>\<open>test-waf.py\<close> and \<^verbatim>\<open>test-test.py\<close>
  make the lists. The exit status of the commands (which may depend on their position), whether the
  output file can be opened and the format \<^verbatim>\<open>%.2f\<close> are parameters; \<open>exe\<close> is
  \<^verbatim>\<open>sys.executable\<close>.
\<close>

section \<open>Running commands\<close>

text \<open>\<^verbatim>\<open>cmd.replace(sys.executable, '')\<close>\<close>

function remove_text :: "string \<Rightarrow> string \<Rightarrow> string" where
  "remove_text sub s =
     (if sub = [] then s
      else case s of
        [] \<Rightarrow> []
      | c # r \<Rightarrow> if startswith s sub then remove_text sub (drop (length sub) s) else c # remove_text sub r)"
  by pat_completeness auto
termination by (relation "measure (\<lambda>(sub, s). length s)") auto

declare remove_text.simps [simp del]

text \<open>\<^verbatim>\<open>set_workdir\<close>, from the names in the current directory, its path and that of its parent: the
  directory to change to, if any\<close>

definition set_workdir :: "string list \<Rightarrow> string \<Rightarrow> string \<Rightarrow> string option result" where
  "set_workdir dir_files here parent =
     (if ''VERSION.info'' \<notin> set dir_files \<and> ''waf'' \<notin> set dir_files then
        if snd (path_split here) = ''tests'' \<and> snd (path_split parent) = ''utils'' then Inr (Some ''../../'')
        else Inl (SystemExit 1)
      else Inr None)"

record port_options =
  out_file :: string
  list_cmds :: bool
  mute :: bool
  custcmd :: "string option"

text \<open>What a run has done: the commands called, with the stream for their output, the texts printed
  and those written to the output file.\<close>

datatype out_stream = OutFile | Sink

record port_run =
  final_return :: int
  passed_cases :: nat
  failed_cases :: "string list"
  calls :: "(string \<times> out_stream) list"
  printed :: "string list"
  written :: "string list"

definition print_case_in_file :: "string \<Rightarrow> string list" where
  "print_case_in_file case_string = [replicate 100 (CHR ''-''), ''running test case '' @ case_string, []]"

definition print_failed_cases :: "string list \<Rightarrow> string list" where
  "print_failed_cases failed = [[], ''Failed Cases:''] @ failed"

definition print_cmds :: "string \<Rightarrow> string list \<Rightarrow> string list" where
  "print_cmds exe cmds = ''Commands to be executed:'' # map (remove_text exe) cmds"

definition progress_text :: "(rat \<Rightarrow> string) \<Rightarrow> nat \<Rightarrow> nat \<Rightarrow> nat \<Rightarrow> string" where
  "progress_text fixed2 passed n_cases done_cases =
     ''[ '' @ show_nat passed @ '' out of '' @ show_nat n_cases @ '' ] test cases passed; Progress = '' @
     fixed2 (of_nat done_cases * 100 / of_nat n_cases) @ ''% ''"

definition run_case ::
  "string \<Rightarrow> port_options \<Rightarrow> (nat \<Rightarrow> string \<Rightarrow> int) \<Rightarrow> (rat \<Rightarrow> string) \<Rightarrow> nat \<Rightarrow> nat \<times> string \<Rightarrow> port_run \<Rightarrow> port_run" where
  "run_case exe opts call fixed2 n_cases icmd st =
     (let case_string = remove_text exe (snd icmd);
          ret = call (fst icmd) (snd icmd);
          st = st\<lparr>calls := calls st @ [(snd icmd, if mute opts then Sink else OutFile)],
                  printed := printed st @ [''running test case: '' @ case_string],
                  written := written st @ print_case_in_file case_string\<rparr>;
          st = (if ret = 0 then st\<lparr>passed_cases := passed_cases st + 1\<rparr>
                else st\<lparr>final_return := 1, failed_cases := failed_cases st @ [case_string]\<rparr>)
      in st\<lparr>printed := printed st @ [progress_text fixed2 (passed_cases st) n_cases (fst icmd + 1), []]\<rparr>)"

definition new_run :: port_run where
  "new_run = \<lparr>final_return = 0, passed_cases = 0, failed_cases = [], calls = [], printed = [], written = []\<rparr>"

text \<open>\<^verbatim>\<open>runtests\<close>: the returned value (\<open>None\<close> when the commands are only listed) and the run\<close>

definition runtests ::
  "string \<Rightarrow> port_options \<Rightarrow> bool \<Rightarrow> (nat \<Rightarrow> string \<Rightarrow> int) \<Rightarrow> (rat \<Rightarrow> string) \<Rightarrow> string list \<Rightarrow> (int option \<times> port_run) result" where
  "runtests exe opts writable call fixed2 cmds =
     (if list_cmds opts then Inr (None, new_run\<lparr>printed := print_cmds exe cmds\<rparr>)
      else if \<not> writable then Inl OSError
      else
        (let st = fold (run_case exe opts call fixed2 (length cmds)) (enumerate 0 cmds) new_run;
             verdict = (if final_return st \<noteq> 0 then print_failed_cases (failed_cases st) else [[], ''All cases passed''])
         in Inr (Some (final_return st),
                 st\<lparr>printed := printed st @ verdict @ [''Detailed output available in '' @ out_file opts, []]\<rparr>)))"

text \<open>\<^verbatim>\<open>sys.exit(main(sys.argv))\<close>: \<open>None\<close> is status 0.\<close>

definition port_exit_status :: "int option \<Rightarrow> int" where
  "port_exit_status r = (case r of None \<Rightarrow> 0 | Some c \<Rightarrow> c)"

section \<open>The suite for waf\<close>

definition chain :: "string option \<Rightarrow> string option \<Rightarrow> string list \<Rightarrow> string list" where
  "chain pre post main_cmd_list =
     (let before = (case pre of Some p \<Rightarrow> if p \<noteq> [] then p @ '' && '' else [] | None \<Rightarrow> []);
          after = (case post of Some p \<Rightarrow> if p \<noteq> [] then '' && '' @ p else [] | None \<Rightarrow> [])
      in map (\<lambda>c. before @ c @ after) main_cmd_list)"

definition config_test_cases :: "string list" where
  "config_test_cases =
    [''--enable-gcov'',
     ''--enable-sudo'',
     ''--enable-sudo'',
     ''--enable-tests'',
     ''--disable-tests'',
     ''--enable-examples'',
     ''--disable-examples'',
     ''--doxygen-no-build'',
     ''--enable-static'',
     ''--enable-mpi'',
     ''--enable-rpath'',
     ''--enable-modules=build/utils/test-runner.cc.1.o'',
     ''--boost-static'',
     ''--boost-mt'',
     ''--boost-linkage_autodetect'',
     ''--boost-python=33'',
     ''--disable-gtk'',
     ''--int64x64=cairo'',
     ''--disable-pthread'',
     ''--force-planetlab'',
     ''--nopyc'',
     ''--nopyo'',
     ''--disable-python'',
     ''--apiscan=all'',
     ''--with-python=/usr/bin/python2.7'',
     ''-o test_out && rm -rf test_out'',
     ''--out=test_out && rm -rf test_out'',
     ''-t test_top && rm -rf test_top'',
     ''--top=test_top && rm -rf test_top'',
     ''--download'',
     ''--check-c-compiler=gc'',
     ''--check-cxx-compiler=g++'']"

definition basic_test_cases :: "string list" where
  "basic_test_cases =
    [''--version'',
     ''-h'',
     ''--help'']"

definition build_test_cases :: "string list" where
  "build_test_cases =
    [''-j10'',
     ''--jobs=10'',
     ''-d optimized'',
     ''-d debug'',
     ''-d release'',
     ''--build-profile optimized'',
     ''--build-profile debug'',
     ''--build-profile release'',
     ''-p'',
     ''--progress'']"

definition step_test_cases :: "string list" where
  "step_test_cases =
    [''--files='' @ [CHR 0x22] @ ''*/main.c,*/test/main.o'' @ [CHR 0x22]]"

definition install_test_cases :: "string list" where
  "install_test_cases =
    [''-f'',
     ''--force'',
     ''--prefix=./test-prefix && rm -rf ./test-prefix'',
     ''--exec-prefix=.'',
     ''--bindir=./test-prefix/bin --sbindir=./test-prefix/sbin --libexecdir=./test-prefix/libexec --sysconfdir=./test-prefix/etc --sharedstatedir=./test-prefix/com --localstatedir=./test-prefix/var --libdir=./test-prefix/lib --includedir=./test-prefix/include --oldincludedir=./test-prefix/usr/include --datarootdir=./test-prefix/share --datadir=./test-prefix/share_root --infodir=./test-prefix/info --localedir=./test-prefix/locale --mandir=./test-prefix/man --docdir=./test-prefix/doc/package --htmldir=./test-prefix/doc --dvidir=./test-prefix/doc --pdfdir=./test-prefix/doc --psdir=./test-prefix/doc && rm -rf ./test-prefix'']"

definition common_test_cases :: "string list" where
  "common_test_cases =
    [[],
     ''-k'',
     ''--keep'',
     ''-v'',
     ''--verbose'',
     ''--nocache'',
     ''--zones=task_gen'',
     ''--zones=deps'',
     ''--zones=tasks'',
     ''--no-task-lines'']"

definition test_case_mappings :: "(string, string list) dict" where
  "test_case_mappings =
    [(''basic'', basic_test_cases), (''configure'', config_test_cases), (''build'', build_test_cases),
     (''step'', step_test_cases), (''install'', install_test_cases)]"

definition three_times :: "string \<Rightarrow> string \<Rightarrow> string \<Rightarrow> string \<Rightarrow> string" where
  "three_times waf a b c = waf @ a @ waf @ b @ waf @ c"

text \<open>The commands for one command of waf: the loop body of \<^verbatim>\<open>main\<close>\<close>

definition option_cases :: "string \<Rightarrow> string \<Rightarrow> string list" where
  "option_cases waf cmd =
     map (\<lambda>opt. waf @ '' '' @ cmd @ '' '' @ opt)
       ((if cmd = ''basic'' then [] else common_test_cases) @
        (case map_of test_case_mappings cmd of Some ts \<Rightarrow> ts | None \<Rightarrow> []))"

definition command_cases :: "string \<Rightarrow> string \<Rightarrow> string list" where
  "command_cases waf cmd =
     (let cmd_list = option_cases waf cmd @
            (if cmd = ''basic'' then
               [three_times waf '' configure && '' '' build && '' '' --run scratch/myfirst'',
                three_times waf '' configure && '' '' build && '' '' --pyrun scratch/myfirst.py'']
             else [])
      in if cmd = ''build'' then
           chain (Some (waf @ '' configure'')) (Some (waf @ '' clean'')) cmd_list @
           [three_times waf '' configure --enable-gcov && '' '' build --lcov-report && '' '' clean'']
         else if cmd = ''configure'' then chain None (Some (waf @ '' distclean'')) cmd_list
         else if cmd = ''distcheck'' then chain (Some (waf @ '' dist'')) (Some ''rm -rf ns-3*.tar.bz2'') cmd_list
         else if cmd = ''docs'' then chain (Some (waf @ '' configure'')) (Some (waf @ '' distclean'')) cmd_list
         else if cmd = ''install'' then chain (Some (waf @ '' configure'')) (Some (waf @ '' uninstall'')) cmd_list
         else if cmd = ''list'' then chain (Some (waf @ '' configure'')) (Some (waf @ '' distclean'')) cmd_list
         else if cmd = ''shell'' then chain (Some (waf @ '' configure'')) (Some (waf @ '' distclean'')) cmd_list
         else if cmd = ''step'' then chain (Some (waf @ '' configure'')) (Some (waf @ '' distclean'')) cmd_list
         else if cmd = ''uninstall'' then chain (Some (waf @ '' install'')) None cmd_list
         else cmd_list)"

definition default_commands :: "string list" where
  "default_commands = [''basic'', ''build'', ''configure'', ''step'', ''clean'', ''dist'', ''list'']"

definition waf_suite :: "string \<Rightarrow> string option \<Rightarrow> string list" where
  "waf_suite exe override =
     concat (map (command_cases (exe @ '' waf''))
       (case override of Some s \<Rightarrow> if s \<noteq> [] then split_on CHR '','' s else default_commands
                       | None \<Rightarrow> default_commands))"

section \<open>The suite for test.py\<close>

text \<open>The literals for \<^verbatim>\<open>-f\<close> and \<^verbatim>\<open>-g\<close> in the source have no comma between them and are one
  string.\<close>

definition test_py_cases :: "string list" where
  "test_py_cases =
    [[],
     ''-h'',
     ''--help'',
     ''-b build/'',
     ''--buildpath=build/'',
     ''-c performance'',
     ''--constrain=performance'',
     ''-d'',
     ''--duration'',
     ''-e socket-options-ipv6'',
     ''--example=socket-options-ipv6'',
     ''-u'',
     ''--update-data'',
     ''-f EXTENSIVE --fullness=EXTENSIVE-g'',
     ''--grind'',
     ''-l'',
     ''--list'',
     ''-m'',
     ''--multiple'',
     ''-n'',
     ''--nowaf'',
     ''-p first'',
     ''--pyexample=first'',
     ''-r'',
     ''--retain'',
     ''-s ns3-tcp-interoperability'',
     ''--suite=ns3-tcp-interoperability'',
     ''-t t_opt.txt'',
     ''--text=t_opt.txt && rm -rf t_opt.txt'',
     ''-v'',
     ''--verbose'',
     ''-w t_opt.html && rm -rf t_opt.html'',
     ''--web=t_opt.html && rm -rf t_opt.html'',
     ''--html=t_opt.html && rm -rf t_opt.html'',
     ''-x t_opt.xml && rm -rf t_opt.xml'',
     ''--xml=t_opt.xml && rm -rf t_opt.xml'']"

definition test_py_suite :: "string \<Rightarrow> string list" where
  "test_py_suite exe =
     map (\<lambda>opt. (exe @ '' waf configure --enable-tests --enable-examples'') @ '' && '' @ exe @ '' test.py '' @ opt @
            '' && '' @ exe @ '' waf clean'') test_py_cases"

section \<open>What a run reports\<close>

definition case_failed :: "(nat \<Rightarrow> string \<Rightarrow> int) \<Rightarrow> nat \<times> string \<Rightarrow> bool" where
  "case_failed call icmd = (call (fst icmd) (snd icmd) \<noteq> 0)"

lemma run_case_fields:
  "calls (run_case exe opts call fixed2 n_cases ic st) = calls st @ [(snd ic, if mute opts then Sink else OutFile)]"
  "passed_cases (run_case exe opts call fixed2 n_cases ic st) = passed_cases st + (if case_failed call ic then 0 else 1)"
  "failed_cases (run_case exe opts call fixed2 n_cases ic st) =
     failed_cases st @ (if case_failed call ic then [remove_text exe (snd ic)] else [])"
  "final_return (run_case exe opts call fixed2 n_cases ic st) = (if case_failed call ic then 1 else final_return st)"
  "written (run_case exe opts call fixed2 n_cases ic st) = written st @ print_case_in_file (remove_text exe (snd ic))"
  by (simp_all add: run_case_def Let_def case_failed_def)

lemma run_cases:
  assumes "r = fold (run_case exe opts call fixed2 n_cases) ics st"
  shows "calls r = calls st @ map (\<lambda>ic. (snd ic, if mute opts then Sink else OutFile)) ics \<and>
    passed_cases r = passed_cases st + length (filter (\<lambda>ic. \<not> case_failed call ic) ics) \<and>
    failed_cases r = failed_cases st @ map (\<lambda>ic. remove_text exe (snd ic)) (filter (case_failed call) ics) \<and>
    final_return r = (if list_all (\<lambda>ic. \<not> case_failed call ic) ics then final_return st else 1) \<and>
    written r = written st @ concat (map (\<lambda>ic. print_case_in_file (remove_text exe (snd ic))) ics)"
  unfolding assms by (induction ics rule: rev_induct) (auto simp: run_case_fields)

text \<open>
  A run that is not a listing calls every command once and in order, with its output to the file or
  away; it counts and lists the failures, writes a heading for every command, and ends with
  status 0 exactly when all commands succeed.
\<close>

theorem runtests_correct:
  assumes "\<not> list_cmds opts"
  shows "\<exists>r. runtests exe opts True call fixed2 cmds = Inr (Some (final_return r), r) \<and>
    map fst (calls r) = cmds \<and> list_all (\<lambda>c. snd c = (if mute opts then Sink else OutFile)) (calls r) \<and>
    passed_cases r + length (failed_cases r) = length cmds \<and>
    failed_cases r = map (\<lambda>ic. remove_text exe (snd ic)) (filter (case_failed call) (enumerate 0 cmds)) \<and>
    (port_exit_status (Some (final_return r)) = 0 \<longleftrightarrow> (\<forall>i<length cmds. call i (cmds ! i) = 0)) \<and>
    written r = concat (map (print_case_in_file \<circ> remove_text exe) cmds)"
proof -
  define ics where "ics = enumerate 0 cmds"
  define r where "r = fold (run_case exe opts call fixed2 (length cmds)) ics new_run"
  define verdict where "verdict = (if final_return r \<noteq> 0 then print_failed_cases (failed_cases r) else [[], ''All cases passed''])"
  note run = run_cases [OF r_def]
  have cmds: "map snd ics = cmds" "length ics = length cmds" by (simp_all add: ics_def)
  have "runtests exe opts True call fixed2 cmds =
      Inr (Some (final_return r), r\<lparr>printed := printed r @ verdict @ [''Detailed output available in '' @ out_file opts, []]\<rparr>)"
    using assms by (simp add: runtests_def Let_def r_def ics_def verdict_def)
  moreover have "map fst (calls r) = cmds" "list_all (\<lambda>c. snd c = (if mute opts then Sink else OutFile)) (calls r)"
    using run cmds(1) by (simp_all add: new_run_def comp_def list_all_iff)
  moreover have "passed_cases r + length (failed_cases r) = length cmds"
    using run sum_length_filter_compl [of "case_failed call" ics] cmds(2) by (simp add: new_run_def)
  moreover have "failed_cases r = map (\<lambda>ic. remove_text exe (snd ic)) (filter (case_failed call) (enumerate 0 cmds))"
    using run by (simp add: new_run_def ics_def)
  moreover have "port_exit_status (Some (final_return r)) = 0 \<longleftrightarrow> (\<forall>i<length cmds. call i (cmds ! i) = 0)"
    using run by (simp add: new_run_def port_exit_status_def list_all_length ics_def case_failed_def nth_enumerate_eq)
  moreover have "written r = concat (map (print_case_in_file \<circ> remove_text exe) (map snd ics))"
    using run by (simp add: new_run_def comp_def)
  ultimately show ?thesis unfolding cmds(1)
    by (intro exI [of _ "r\<lparr>printed := printed r @ verdict @ [''Detailed output available in '' @ out_file opts, []]\<rparr>"]) simp
qed

text \<open>With \<^verbatim>\<open>-c\<close> nothing is run and the status is 0.\<close>

lemma runtests_listing:
  "list_cmds opts \<Longrightarrow> \<exists>r. runtests exe opts writable call fixed2 cmds = Inr (None, r) \<and> calls r = [] \<and> port_exit_status None = 0"
  by (simp add: runtests_def new_run_def port_exit_status_def)

text \<open>One of the two files is enough for a directory to be accepted.\<close>

lemma workdir_with_waf: "''waf'' \<in> set fs \<Longrightarrow> set_workdir fs here parent = Inr None"
  by (simp add: set_workdir_def)

text \<open>The default suite has 109 commands; every command of a build configures first and cleans up
  afterwards.\<close>

lemma waf_suite_default: "length (waf_suite exe None) = 109" "waf_suite exe (Some []) = waf_suite exe None"
  by (simp_all add: waf_suite_def default_commands_def command_cases_def option_cases_def chain_def
      test_case_mappings_def config_test_cases_def basic_test_cases_def build_test_cases_def
      step_test_cases_def common_test_cases_def Let_def)

lemma build_cases_clean:
  "list_all (\<lambda>c. startswith c (waf @ '' configure'') \<and> endswith c ('' && '' @ waf @ '' clean'')) (command_cases waf ''build'')"
  by (auto simp: command_cases_def chain_def three_times_def Let_def list_all_iff startswith_iff endswith_iff)

text \<open>\<^verbatim>\<open>waf\<close> is called with a command named \<^verbatim>\<open>basic\<close>, which it does not have.\<close>

lemma basic_is_no_command: "waf @ '' basic --version'' \<in> set (command_cases waf ''basic'')"
  by (simp add: command_cases_def option_cases_def test_case_mappings_def basic_test_cases_def Let_def)

text \<open>The option \<^verbatim>\<open>-g\<close> of \<^verbatim>\<open>test.py\<close> is not tested: the comma before it is missing.\<close>

lemma grind_not_tested:
  "''-g'' \<notin> set test_py_cases \<and> ''-f EXTENSIVE --fullness=EXTENSIVE-g'' \<in> set test_py_cases"
  by (simp add: test_py_cases_def)

end
