(* ===== verification/Bianchi.thy ===== *)
theory Bianchi
  imports Prelude Complex_Main "HOL-Library.Log_Nat"
begin

text \<open>
  \<^verbatim>\<open>src/wifi/examples/reference/bianchi11ax.py\<close>: the reference values for the throughput of a
  saturated 802.11ax network by Bianchi's model. Floats and numpy arrays are rational numbers and
  lists of them; the format \<^verbatim>\<open>{:.4f}\<close> is a parameter. Times are in seconds, lengths in bits.
\<close>

section \<open>Parameters\<close>

definition CWmin :: nat where "CWmin = 15"
definition CWmax :: nat where "CWmax = 1023"
definition L_DATA :: rat where "L_DATA = 1500 * 8"
definition L_ACK :: rat where "L_ACK = 14 * 8"
definition EP :: rat where "EP = L_DATA / (1 - 0)"
definition T_GI :: rat where "T_GI = 800 / 10 ^ 9"
definition T_SYMBOL_ACK :: rat where "T_SYMBOL_ACK = 4 / 10 ^ 6"
definition T_SYMBOL_DATA :: rat where "T_SYMBOL_DATA = 128 / 10 ^ 7 + T_GI"
definition T_PHY_ACK :: rat where "T_PHY_ACK = 20 / 10 ^ 6"
definition T_PHY_DATA :: rat where "T_PHY_DATA = 44 / 10 ^ 6"
definition L_SERVICE :: rat where "L_SERVICE = 16"
definition L_TAIL :: rat where "L_TAIL = 6"
definition L_MAC :: rat where "L_MAC = 30 * 8"
definition L_APP_HDR :: rat where "L_APP_HDR = 8 * 8"
definition T_SIFS :: rat where "T_SIFS = 16 / 10 ^ 6"
definition T_DIFS :: rat where "T_DIFS = 34 / 10 ^ 6"
definition T_SLOT :: rat where "T_SLOT = 9 / 10 ^ 6"
definition air_delay :: rat where "air_delay = 1 / 10 ^ 7"
definition L_MPDU_HEADER :: rat where "L_MPDU_HEADER = 4"
definition L_MSDU_HEADER :: rat where "L_MSDU_HEADER = 14 * 8"

lemmas bianchi_parameters = L_DATA_def L_ACK_def EP_def T_GI_def T_SYMBOL_ACK_def T_SYMBOL_DATA_def
  T_PHY_ACK_def T_PHY_DATA_def L_SERVICE_def L_TAIL_def L_MAC_def L_APP_HDR_def T_SIFS_def T_DIFS_def
  T_SLOT_def air_delay_def L_MPDU_HEADER_def L_MSDU_HEADER_def

section \<open>Durations\<close>

text \<open>The kinds of aggregation: the code chooses \<^verbatim>\<open>A_MPDU\<close>, or \<^verbatim>\<open>NONE\<close> for at most one frame; the
  branch for \<^verbatim>\<open>A_MSDU\<close> is never taken.\<close>

datatype aggregation = NoAggregation | A_MSDU | A_MPDU

definition aggregation_type :: "int \<Rightarrow> aggregation" where
  "aggregation_type k = (if k \<le> 1 then NoAggregation else A_MPDU)"

definition K_MSDU :: rat where "K_MSDU = 1"

definition K_MPDU :: "int \<Rightarrow> rat" where
  "K_MPDU k = (if aggregation_type k = NoAggregation then 1 else of_int k)"

definition frame_bits :: "int \<Rightarrow> rat" where
  "frame_bits k = (case aggregation_type k of
       NoAggregation \<Rightarrow> L_SERVICE + (L_MAC + L_DATA + L_APP_HDR) + L_TAIL
     | A_MSDU \<Rightarrow> L_SERVICE + K_MPDU k * (L_MAC + L_MPDU_HEADER + K_MSDU * (L_MSDU_HEADER + L_DATA + L_APP_HDR)) + L_TAIL
     | A_MPDU \<Rightarrow> L_SERVICE + K_MPDU k * (L_MAC + L_MPDU_HEADER + L_DATA + L_APP_HDR) + L_TAIL)"

text \<open>The number of OFDM symbols for a number of bits\<close>

definition n_symbols :: "rat \<Rightarrow> rat \<Rightarrow> rat \<Rightarrow> rat result" where
  "n_symbols rate symbol bits =
     (let n_dbps = rate * symbol in
      if n_dbps = 0 then Inl ZeroDivisionError else Inr (of_int \<lceil>bits / n_dbps\<rceil>))"

definition t_data :: "rat \<Rightarrow> int \<Rightarrow> rat result" where
  "t_data data_rate k =
     rbind (n_symbols data_rate T_SYMBOL_DATA (frame_bits k)) (\<lambda>n. Inr (T_PHY_DATA + T_SYMBOL_DATA * n))"

definition t_ack :: "rat \<Rightarrow> rat result" where
  "t_ack ack_rate =
     rbind (n_symbols ack_rate T_SYMBOL_ACK (L_SERVICE + L_ACK + L_TAIL)) (\<lambda>n. Inr (T_PHY_ACK + T_SYMBOL_ACK * n))"

text \<open>The times of a successful slot and of a collision\<close>

definition t_success :: "int \<Rightarrow> rat \<Rightarrow> rat \<Rightarrow> rat" where
  "t_success difs td ta =
     (if difs = 1 then td + T_SIFS + ta + T_DIFS else td + T_SIFS + ta + T_DIFS + air_delay) / (1 - 0) + T_SLOT"

definition t_collision :: "int \<Rightarrow> rat \<Rightarrow> rat \<Rightarrow> rat" where
  "t_collision difs td ta = (if difs = 1 then td + T_DIFS else td + T_DIFS + T_SIFS + ta + air_delay)"

section \<open>The transmission probability\<close>

definition linspace :: "rat \<Rightarrow> rat \<Rightarrow> nat \<Rightarrow> rat list" where
  "linspace a b num = map (\<lambda>i. a + of_nat i * ((b - a) / (of_nat num - 1))) [0..<num]"

definition nA :: "nat list" where
  "nA = map (\<lambda>x. nat \<lfloor>x\<rfloor>) (linspace 5 50 10)"

definition backoff_stages :: nat where
  "backoff_stages = floorlog 2 ((CWmax + 1) div (CWmin + 1)) - 1"

text \<open>The collision probability for a transmission probability \<open>t\<close> of \<open>n\<close> stations, and the
  transmission probability that follows from it\<close>

definition collision :: "nat \<Rightarrow> rat \<Rightarrow> rat" where
  "collision n t = 1 - (1 - t) ^ (n - 1)"

definition taup_at :: "nat \<Rightarrow> rat \<Rightarrow> rat" where
  "taup_at n t =
     (let w = of_nat CWmin + 1; p = collision n t;
          ps = fold (\<lambda>i ps. ps + (2 * p) ^ i) [0..<backoff_stages] (p * 0)
      in 2 / (1 + w + p * w * ps))"

definition argmin :: "rat list \<Rightarrow> nat" where
  "argmin xs = length (takeWhile (\<lambda>x. x \<noteq> Min (set xs)) xs)"

definition tau_index :: "nat \<Rightarrow> nat \<Rightarrow> nat" where
  "tau_index points n =
     (let tau1 = linspace 0 (1 / 10) points; taup = map (taup_at n) tau1
      in argmin (map2 (\<lambda>x y. \<bar>x - y\<bar>) tau1 taup))"

definition tau_of :: "nat \<Rightarrow> nat \<Rightarrow> rat" where
  "tau_of points n = map (taup_at n) (linspace 0 (1 / 10) points) ! tau_index points n"

section \<open>The throughput\<close>

definition Ptr :: "nat \<Rightarrow> rat \<Rightarrow> rat" where
  "Ptr n tau = 1 - (1 - tau) ^ n"

definition Ps :: "nat \<Rightarrow> rat \<Rightarrow> rat" where
  "Ps n tau = of_nat n * tau * (1 - tau) ^ (n - 1) / Ptr n tau"

definition throughput :: "int \<Rightarrow> rat \<Rightarrow> rat \<Rightarrow> nat \<Rightarrow> rat \<Rightarrow> rat" where
  "throughput k t_s t_c n tau =
     K_MSDU * K_MPDU k * Ps n tau * Ptr n tau * EP /
     ((1 - Ptr n tau) * T_SLOT + Ptr n tau * Ps n tau * t_s + Ptr n tau * (1 - Ps n tau) * t_c) / 10 ^ 6"

text \<open>\<^verbatim>\<open>bianchi_ax\<close>; the number of grid points is 100000 in the code. After the durations no division
  can fail: the probability of a transmission in a slot is positive.\<close>

definition bianchi_ax :: "nat \<Rightarrow> rat \<Rightarrow> rat \<Rightarrow> int \<Rightarrow> int \<Rightarrow> rat list result" where
  "bianchi_ax points data_rate ack_rate k difs =
     rbind (t_data data_rate k) (\<lambda>td. rbind (t_ack ack_rate) (\<lambda>ta.
       Inr (map (\<lambda>n. throughput k (t_success difs td ta) (t_collision difs td ta) n (tau_of points n)) nA)))"

section \<open>The result files\<close>

definition str_result :: "(rat \<Rightarrow> string) \<Rightarrow> rat list \<Rightarrow> nat \<Rightarrow> nat \<Rightarrow> string" where
  "str_result fixed4 bianchi_result mcs bw =
     ''    {'' @ CHR 0x22 # ''HeMcs'' @ show_nat mcs @ ''_'' @ show_nat bw @ ''MHz'' @ CHR 0x22 # '', {'' @ [CHR 0x0A] @
     concat (map (\<lambda>(i, s). ''        {'' @ show_nat (5 * (i + 1)) @ '', '' @ fixed4 s @ ''},'' @ [CHR 0x0A])
               (enumerate 0 bianchi_result)) @
     ''    }},'' @ [CHR 0x0A]"

text \<open>The data rates of the modulations for each channel width; the acknowledgement rates are the same
  for all widths.\<close>

definition data_rates :: "(nat \<times> rat list) list" where
  "data_rates =
    [(20, map (\<lambda>x. x * 1000) [8603, 17206, 25800, 34400, 51500, 68800, 77400, 86000, 103200, 114700, 129000, 143400]),
     (40, map (\<lambda>x. x * 1000) [17200, 34400, 51500, 68800, 103200, 137600, 154900, 172100, 206500, 229400, 258100, 286800]),
     (80, map (\<lambda>x. x * 1000) [36000, 72100, 108100, 144100, 216200, 288200, 324300, 360300, 432400, 480400, 540400, 600500]),
     (160, map (\<lambda>x. x * 1000) [72100, 144100, 216200, 288200, 432400, 576500, 648500, 720600, 864700, 960800, 1080900, 1201000])]"

definition ack_rates :: "rat list" where
  "ack_rates = map (\<lambda>x. x * 1000000) ([6, 12, 12] @ replicate 9 24)"

text \<open>The entries of a file, in order: the modulation, the width and the values. The arguments for one
  frame and for \<^verbatim>\<open>difs\<close> are those of the script.\<close>

definition table_entries :: "nat \<Rightarrow> int \<Rightarrow> (rat list \<times> nat \<times> nat) list result" where
  "table_entries points difs =
     map_res (\<lambda>(bw, i, data_rate, ack_rate).
         rbind (bianchi_ax points data_rate ack_rate 1 difs) (\<lambda>r. Inr (r, i, bw)))
       (concat (map (\<lambda>(bw, rates). map (\<lambda>(i, r). (bw, i, r)) (enumerate 0 (zip rates ack_rates))) data_rates))"

definition result_file :: "(rat \<Rightarrow> string) \<Rightarrow> nat \<Rightarrow> int \<Rightarrow> string result" where
  "result_file fixed4 points difs =
     rbind (table_entries points difs) (\<lambda>es. Inr (concat (map (\<lambda>(r, i, bw). str_result fixed4 r i bw) es)))"

section \<open>The fixed point\<close>

lemma nA_values: "nA = [5, 10, 15, 20, 25, 30, 35, 40, 45, 50]"
  by (simp add: nA_def linspace_def upt_rec)

lemma backoff_stages_value: "backoff_stages = 6"
  unfolding backoff_stages_def CWmin_def CWmax_def by code_simp

lemma taup_at_sum:
  "taup_at n t = 2 / (17 + 16 * collision n t * (\<Sum>i<6. (2 * collision n t) ^ i))"
  by (simp add: taup_at_def Let_def backoff_stages_value CWmin_def eval_nat_numeral algebra_simps)

lemma collision_mono:
  assumes "0 \<le> s" "s \<le> t" "t \<le> 1"
  shows "0 \<le> collision n s" "collision n s \<le> collision n t" "collision n t \<le> 1"
  using assms by (simp_all add: collision_def power_le_one power_mono)

lemma collision_mono_stations:
  assumes "0 \<le> t" "t \<le> 1" "n \<le> m" shows "collision n t \<le> collision m t"
  using assms by (simp add: collision_def power_decreasing diff_le_mono)

lemma collision_sum_mono:
  assumes "0 \<le> p" "p \<le> (q :: rat)"
  shows "0 \<le> p * (\<Sum>i<6. (2 * p) ^ i)" "p * (\<Sum>i<6. (2 * p) ^ i) \<le> q * (\<Sum>i<6. (2 * q) ^ i)"
  using assms by (auto intro!: mult_nonneg_nonneg mult_mono sum_nonneg sum_mono power_mono)

lemma taup_at_le:
  assumes "0 \<le> collision n s" "collision n s \<le> collision m t"
  shows "taup_at m t \<le> taup_at n s"
proof -
  have "0 \<le> collision n s * (\<Sum>i<6. (2 * collision n s) ^ i)"
    "collision n s * (\<Sum>i<6. (2 * collision n s) ^ i) \<le> collision m t * (\<Sum>i<6. (2 * collision m t) ^ i)"
    using collision_sum_mono [OF assms] by blast+
  then show ?thesis unfolding taup_at_sum mult.assoc by (intro divide_left_mono mult_pos_pos) auto
qed

lemma taup_at_bounds:
  assumes "0 \<le> t" "t \<le> 1" shows "0 < taup_at n t" "taup_at n t \<le> 2 / 17"
proof -
  have "0 \<le> collision n t * (\<Sum>i<6. (2 * collision n t) ^ i)"
    using collision_sum_mono [of "collision n t"] collision_mono [of t t n] assms by simp
  then have "17 \<le> 17 + 16 * collision n t * (\<Sum>i<6. (2 * collision n t) ^ i)" by simp
  then show "0 < taup_at n t" "taup_at n t \<le> 2 / 17"
    unfolding taup_at_sum by (simp_all add: divide_simps)
qed

lemma taup_at_end:
  assumes "5 \<le> n" shows "taup_at n (1 / 10) < 1 / 10"
proof -
  have "taup_at n (1 / 10) \<le> taup_at 5 (1 / 10)"
    using assms collision_mono [of "1 / 10" "1 / 10" 5] by (intro taup_at_le collision_mono_stations) simp_all
  also have "\<dots> < 1 / 10"
    by (simp add: taup_at_sum collision_def eval_nat_numeral)
  finally show ?thesis .
qed

text \<open>The difference of the grid point and the probability computed from it grows with the point.\<close>

lemma excess_mono:
  assumes "0 \<le> s" "s < t" "t \<le> 1" shows "s - taup_at n s < t - taup_at n t"
  using taup_at_le [of n s n t] collision_mono [of s t n] assms by simp

lemma argmin_least:
  assumes "xs \<noteq> []"
  shows "argmin xs < length xs" "i < length xs \<Longrightarrow> xs ! argmin xs \<le> xs ! i"
proof -
  have m: "Min (set xs) \<in> set xs" using assms by simp
  then show l: "argmin xs < length xs"
    unfolding argmin_def by (metis (mono_tags) linorder_neqE_nat length_takeWhile_le not_le_imp_less order_le_less
        takeWhile_eq_all_conv takeWhile_eq_take take_all_iff)
  have "xs ! argmin xs = Min (set xs)"
    using nth_length_takeWhile [of "\<lambda>x. x \<noteq> Min (set xs)" xs] l by (simp add: argmin_def)
  then show "i < length xs \<Longrightarrow> xs ! argmin xs \<le> xs ! i" by simp
qed

lemma linspace_nth: "i < num \<Longrightarrow> linspace a b num ! i = a + of_nat i * ((b - a) / (of_nat num - 1))"
  by (simp add: linspace_def)

lemma linspace_length: "length (linspace a b num) = num"
  by (simp add: linspace_def)

definition grid_point :: "nat \<Rightarrow> nat \<Rightarrow> rat" where
  "grid_point points i = of_nat i / (10 * (of_nat points - 1))"

definition grid_step :: "nat \<Rightarrow> rat" where
  "grid_step points = 1 / (10 * (of_nat points - 1))"

lemma grid_nth: "i < points \<Longrightarrow> linspace 0 (1 / 10) points ! i = grid_point points i"
  by (simp add: linspace_nth grid_point_def)

lemma grid_point_range:
  assumes "i < points" "2 \<le> points" shows "0 \<le> grid_point points i" "grid_point points i \<le> 1 / 10"
proof -
  have "(of_nat i :: rat) \<le> of_nat points - 1" using assms(1) of_nat_le_iff [of "i + 1" points, where 'a = rat] by simp
  moreover have "(2 :: rat) \<le> of_nat points" using assms(2) of_nat_le_iff [of 2 points, where 'a = rat] by simp
  ultimately show "0 \<le> grid_point points i" "grid_point points i \<le> 1 / 10"
    by (simp_all add: grid_point_def divide_simps)
qed

lemma grid_point_Suc: "grid_point points (Suc i) = grid_point points i + grid_step points"
  by (simp add: grid_point_def grid_step_def add_divide_distrib)

lemma grid_step_pos: "2 \<le> points \<Longrightarrow> 0 < grid_step points"
  using of_nat_le_iff [of 2 points, where 'a = rat] by (simp add: grid_step_def)

lemma tau_index_least:
  assumes "2 \<le> points"
  shows "tau_index points n < points"
    and "i < points \<Longrightarrow> \<bar>grid_point points (tau_index points n) - taup_at n (grid_point points (tau_index points n))\<bar>
           \<le> \<bar>grid_point points i - taup_at n (grid_point points i)\<bar>"
proof -
  define ds where "ds = map (\<lambda>x. \<bar>x - taup_at n x\<bar>) (linspace 0 (1 / 10) points)"
  have idx: "tau_index points n = argmin ds"
    by (simp add: tau_index_def ds_def Let_def map2_map_map [where f = id and g = "taup_at n", simplified])
  have len: "length ds = points" by (simp add: ds_def linspace_length)
  with assms have "ds \<noteq> []" by auto
  note least = argmin_least [OF this, folded idx, unfolded len]
  from least(1) show "tau_index points n < points" .
  have nth: "j < points \<Longrightarrow> ds ! j = \<bar>grid_point points j - taup_at n (grid_point points j)\<bar>" for j
    by (simp add: ds_def linspace_length grid_nth)
  show "\<bar>grid_point points (tau_index points n) - taup_at n (grid_point points (tau_index points n))\<bar>
      \<le> \<bar>grid_point points i - taup_at n (grid_point points i)\<bar>" if "i < points"
    using least(2) [OF that] nth [OF that] nth [OF least(1)] by simp
qed

lemma larger_is_positive: "x < y \<Longrightarrow> \<bar>x\<bar> \<le> \<bar>y\<bar> \<Longrightarrow> 0 < (y :: rat)"
  by simp

lemma smaller_is_negative: "x < y \<Longrightarrow> \<bar>y\<bar> \<le> \<bar>x\<bar> \<Longrightarrow> (x :: rat) < 0"
  by simp

text \<open>
  The grid point with the least error lies next to the only fixed point: a step above it the
  probability is smaller than its argument, a step below it is larger.
\<close>

lemma tau_crossing:
  assumes "5 \<le> n" "2 \<le> points" and b: "b = tau_index points n" and t: "0 \<le> t" "t \<le> 1"
  shows "grid_point points b + grid_step points \<le> t \<Longrightarrow> taup_at n t < t"
    and "t \<le> grid_point points b - grid_step points \<Longrightarrow> t < taup_at n t"
proof -
  define h where "h x = x - taup_at n x" for x
  have mono: "h x < h y" if "0 \<le> x" "x < y" "y \<le> 1" for x y
    using excess_mono [OF that] by (simp add: h_def)
  have bp: "b < points" unfolding b by (rule tau_index_least(1) [OF assms(2)])
  have least: "\<bar>h (grid_point points b)\<bar> \<le> \<bar>h (grid_point points i)\<bar>" if "i < points" for i
    unfolding b h_def by (rule tau_index_least(2) [OF assms(2) that])
  note range = grid_point_range [OF _ assms(2)] and step = grid_step_pos [OF assms(2)]
  have up: "0 < h (grid_point points (Suc b))" if "Suc b < points"
  proof (rule larger_is_positive [OF mono least [OF that]])
    show "0 \<le> grid_point points b" by (rule range [OF bp])
    show "grid_point points b < grid_point points (Suc b)" using step by (simp add: grid_point_Suc)
    show "grid_point points (Suc b) \<le> 1" using range(2) [OF that] by simp
  qed
  have "0 < h t" if "grid_point points b + grid_step points \<le> t"
  proof (cases "Suc b < points")
    case True
    from that have "grid_point points (Suc b) \<le> t" by (simp add: grid_point_Suc)
    with up [OF True] mono [of "grid_point points (Suc b)" t] range [OF True] t show ?thesis
      by (cases "grid_point points (Suc b) = t") (auto simp: order_le_less)
  next
    case False
    with bp have "points = Suc b" by simp
    moreover from this have "(of_nat b :: rat) \<noteq> 0" using assms(2) by simp
    ultimately have "grid_point points b = 1 / 10" by (simp add: grid_point_def)
    with that step mono [of "1 / 10" t] taup_at_end [OF assms(1)] t show ?thesis by (simp add: h_def)
  qed
  then show "grid_point points b + grid_step points \<le> t \<Longrightarrow> taup_at n t < t" by (simp add: h_def)
  have "h t < 0" if below: "t \<le> grid_point points b - grid_step points"
  proof (cases b)
    case 0
    with below step t show ?thesis by (simp add: grid_point_def)
  next
    case (Suc c)
    have c: "c < points" using bp Suc by simp
    have "h (grid_point points c) < 0"
    proof (rule smaller_is_negative [OF mono least [OF c]])
      show "0 \<le> grid_point points c" by (rule range [OF c])
      show "grid_point points c < grid_point points b" using step by (simp add: Suc grid_point_Suc)
      show "grid_point points b \<le> 1" using range(2) [OF bp] by simp
    qed
    moreover from below have "t \<le> grid_point points c" by (simp add: Suc grid_point_Suc)
    ultimately show ?thesis using mono [of t "grid_point points c"] range [OF c] t
      by (cases "grid_point points c = t") (auto simp: order_le_less)
  qed
  then show "t \<le> grid_point points b - grid_step points \<Longrightarrow> t < taup_at n t" by (simp add: h_def)
qed

section \<open>Bounds of the throughput\<close>

lemma tau_of_grid:
  assumes "2 \<le> points"
  shows "tau_of points n = taup_at n (grid_point points (tau_index points n))"
  using tau_index_least(1) [OF assms] by (simp add: tau_of_def linspace_length grid_nth)

lemma tau_of_bounds:
  assumes "2 \<le> points" shows "0 < tau_of points n" "tau_of points n \<le> 2 / 17"
proof -
  have "0 \<le> grid_point points (tau_index points n)" "grid_point points (tau_index points n) \<le> 1"
    using grid_point_range [OF tau_index_least(1) [OF assms, of n] assms] by simp_all
  then show "0 < tau_of points n" "tau_of points n \<le> 2 / 17"
    unfolding tau_of_grid [OF assms] by (rule taup_at_bounds)+
qed

lemma one_transmission_le:
  assumes "0 \<le> x" "x \<le> (1 :: rat)"
  shows "of_nat n * x * (1 - x) ^ (n - 1) \<le> 1 - (1 - x) ^ n"
proof -
  have "of_nat n * (1 - x) ^ (n - 1) = (\<Sum>i<n. (1 - x) ^ (n - 1))" by simp
  also have "\<dots> \<le> (\<Sum>i<n. (1 - x) ^ i)" using assms by (intro sum_mono power_decreasing) auto
  finally have "x * (of_nat n * (1 - x) ^ (n - 1)) \<le> x * (\<Sum>i<n. (1 - x) ^ i)"
    using assms(1) by (rule mult_left_mono)
  also have "\<dots> = 1 - (1 - x) ^ n" using one_diff_power_eq [of "1 - x" n] by simp
  finally show ?thesis by (simp add: algebra_simps)
qed

lemma Ptr_bounds: "0 < x \<Longrightarrow> x < 1 \<Longrightarrow> 0 < n \<Longrightarrow> 0 < Ptr n x \<and> Ptr n x \<le> 1"
  by (simp add: Ptr_def power_Suc_less_one power_less_one_iff)

lemma Ps_bounds:
  assumes "0 < x" "x < 1" "0 < n" shows "0 < Ps n x" "Ps n x \<le> 1"
  using Ptr_bounds [OF assms] one_transmission_le [of x n] assms
  by (simp_all add: Ps_def divide_le_eq) (simp add: Ptr_def)

lemma K_MPDU_pos: "1 \<le> K_MPDU k"
  by (auto simp: K_MPDU_def aggregation_type_def)

lemma payload_pos: "0 < K_MPDU k * EP"
  using K_MPDU_pos [of k] by (simp add: bianchi_parameters)

lemma frame_bits_exceed: "K_MPDU k * EP < frame_bits k"
  using K_MPDU_pos [of k]
  by (auto simp: frame_bits_def aggregation_type_def K_MPDU_def bianchi_parameters)

text \<open>A frame takes longer than its payload needs at the data rate.\<close>

lemma t_data_bounds:
  assumes "0 < data_rate"
  obtains td where "t_data data_rate k = Inr td" "K_MPDU k * EP / data_rate < td"
proof
  let ?n = "of_int \<lceil>frame_bits k / (data_rate * T_SYMBOL_DATA)\<rceil> :: rat"
  have s: "0 < T_SYMBOL_DATA" by (simp add: bianchi_parameters)
  show "t_data data_rate k = Inr (T_PHY_DATA + T_SYMBOL_DATA * ?n)"
    using assms s by (simp add: t_data_def n_symbols_def Let_def)
  have "K_MPDU k * EP / data_rate < frame_bits k / data_rate"
    by (rule divide_strict_right_mono [OF frame_bits_exceed assms])
  also have "\<dots> = T_SYMBOL_DATA * (frame_bits k / (data_rate * T_SYMBOL_DATA))" using assms s by simp
  also have "\<dots> \<le> T_SYMBOL_DATA * ?n" using s by (intro mult_left_mono) simp_all
  also have "\<dots> \<le> T_PHY_DATA + T_SYMBOL_DATA * ?n" by (simp add: T_PHY_DATA_def)
  finally show "K_MPDU k * EP / data_rate < T_PHY_DATA + T_SYMBOL_DATA * ?n" .
qed

lemma t_ack_bounds:
  assumes "0 < ack_rate"
  obtains ta where "t_ack ack_rate = Inr ta" "0 < ta"
proof
  let ?n = "of_int \<lceil>(L_SERVICE + L_ACK + L_TAIL) / (ack_rate * T_SYMBOL_ACK)\<rceil> :: rat"
  have s: "0 < ack_rate * T_SYMBOL_ACK" using assms by (simp add: bianchi_parameters)
  show "t_ack ack_rate = Inr (T_PHY_ACK + T_SYMBOL_ACK * ?n)"
    using s by (simp add: t_ack_def n_symbols_def Let_def zero_less_mult_iff) auto
  have "0 \<le> (L_SERVICE + L_ACK + L_TAIL) / (ack_rate * T_SYMBOL_ACK)"
    using s by (simp add: bianchi_parameters)
  also have "\<dots> \<le> ?n" by simp
  finally show "0 < T_PHY_ACK + T_SYMBOL_ACK * ?n" by (simp add: T_PHY_ACK_def T_SYMBOL_ACK_def add_pos_nonneg)
qed

text \<open>The share of the time in successful transmissions bounds the throughput.\<close>

lemma throughput_bounds:
  assumes "0 < x" "x < 1" "0 < n" "0 < ts" "0 \<le> tc"
  shows "0 < throughput k ts tc n x" "throughput k ts tc n x * 10 ^ 6 \<le> K_MPDU k * EP / ts"
proof -
  define g where "g = Ptr n x * Ps n x"
  define d where "d = (1 - Ptr n x) * T_SLOT + g * ts + Ptr n x * (1 - Ps n x) * tc"
  note p = Ptr_bounds [OF assms(1-3)] Ps_bounds [OF assms(1-3)]
  have g: "0 < g" using p by (simp add: g_def)
  have d: "g * ts \<le> d" using p assms(5) by (simp add: d_def T_SLOT_def)
  have gt: "0 < g * ts" using g assms(4) by simp
  have e: "0 < K_MPDU k * EP" by (rule payload_pos)
  have t: "throughput k ts tc n x = K_MPDU k * EP * g / d / 10 ^ 6"
    by (simp add: throughput_def K_MSDU_def g_def d_def algebra_simps)
  show "0 < throughput k ts tc n x"
    unfolding t using mult_pos_pos [OF e g] gt d by simp
  have "K_MPDU k * EP * g / d \<le> K_MPDU k * EP * g / (g * ts)"
    using mult_pos_pos [OF e g] gt d by (intro divide_left_mono) auto
  also have "\<dots> = K_MPDU k * EP / ts" using g by simp
  finally show "throughput k ts tc n x * 10 ^ 6 \<le> K_MPDU k * EP / ts" by (simp add: t)
qed

lemma throughput_below_rate:
  assumes "0 < data_rate" "K_MPDU k * EP / data_rate < td" "0 < ta" "0 < x" "x < 1" "0 < n"
  shows "0 < throughput k (t_success difs td ta) (t_collision difs td ta) n x"
    and "throughput k (t_success difs td ta) (t_collision difs td ta) n x * 10 ^ 6 < data_rate"
proof -
  have e: "0 < K_MPDU k * EP" by (rule payload_pos)
  then have "0 < K_MPDU k * EP / data_rate" using assms(1) by (rule divide_pos_pos)
  with assms(2) have td: "0 < td" by simp
  have ts: "td < t_success difs td ta" using assms(3) by (simp add: t_success_def bianchi_parameters)
  have tc: "0 \<le> t_collision difs td ta" using assms(3) td by (simp add: t_collision_def bianchi_parameters)
  have "0 < t_success difs td ta" using td ts by simp
  note b = throughput_bounds [OF assms(4-6) this tc, of k]
  from b(1) show "0 < throughput k (t_success difs td ta) (t_collision difs td ta) n x" .
  have "K_MPDU k * EP / t_success difs td ta < K_MPDU k * EP / td"
    using e td ts by (intro divide_strict_left_mono) auto
  also have "\<dots> < data_rate" using assms(1,2) td by (simp add: divide_less_eq mult.commute)
  finally show "throughput k (t_success difs td ta) (t_collision difs td ta) n x * 10 ^ 6 < data_rate"
    using b(2) by simp
qed

definition near_fixed_point :: "nat \<Rightarrow> nat \<Rightarrow> rat \<Rightarrow> bool" where
  "near_fixed_point points n g =
     (\<forall>t. 0 \<le> t \<and> t \<le> 1 \<longrightarrow>
        (g + grid_step points \<le> t \<longrightarrow> taup_at n t < t) \<and> (t \<le> g - grid_step points \<longrightarrow> t < taup_at n t))"

text \<open>
  C31: for positive rates the model is computed without an exception, with one value for each of the
  ten numbers of stations. Each value is the throughput at a transmission probability computed
  from a grid point next to the fixed point of the model (one step above the point the
  probability is below its argument, one step below it is above), and it is positive and below
  the data rate.
\<close>

theorem bianchi_ax_correct:
  assumes "0 < data_rate" and "0 < ack_rate" and "2 \<le> points"
  shows "\<exists>td ta vs. t_data data_rate k = Inr td \<and> t_ack ack_rate = Inr ta \<and>
    bianchi_ax points data_rate ack_rate k difs = Inr vs \<and>
    list_all2 (\<lambda>n v. 0 < v \<and> v * 10 ^ 6 < data_rate \<and>
        (\<exists>g. near_fixed_point points n g \<and>
             v = throughput k (t_success difs td ta) (t_collision difs td ta) n (taup_at n g)))
      [5, 10, 15, 20, 25, 30, 35, 40, 45, 50] vs"
proof -
  obtain td where td: "t_data data_rate k = Inr td" "K_MPDU k * EP / data_rate < td"
    using t_data_bounds [OF assms(1)] .
  obtain ta where ta: "t_ack ack_rate = Inr ta" "0 < ta" using t_ack_bounds [OF assms(2)] .
  define thr where "thr = throughput k (t_success difs td ta) (t_collision difs td ta)"
  define f where "f n = thr n (tau_of points n)" for n
  have "bianchi_ax points data_rate ack_rate k difs = Inr (map f nA)"
    by (simp add: bianchi_ax_def td(1) ta(1) f_def thr_def)
  moreover have "0 < f n \<and> f n * 10 ^ 6 < data_rate \<and> (\<exists>g. near_fixed_point points n g \<and> f n = thr n (taup_at n g))"
    if "5 \<le> n" for n
  proof -
    have "0 < tau_of points n" "tau_of points n < 1" "0 < n"
      using tau_of_bounds [OF assms(3), of n] that by simp_all
    then have "0 < f n" "f n * 10 ^ 6 < data_rate"
      unfolding f_def thr_def by (rule throughput_below_rate [OF assms(1) td(2) ta(2)])+
    moreover have "near_fixed_point points n (grid_point points (tau_index points n))"
      unfolding near_fixed_point_def using tau_crossing [OF that assms(3) refl] by blast
    ultimately show ?thesis unfolding f_def tau_of_grid [OF assms(3)] by blast
  qed
  moreover have "\<forall>n\<in>set nA. 5 \<le> n" by (simp add: nA_values)
  ultimately show ?thesis
    using td(1) ta(1) unfolding thr_def nA_values [symmetric]
    by (intro exI [of _ td] exI [of _ ta] exI [of _ "map f nA"] conjI) (simp_all add: list_all2_map2 list_all2_same)
qed

theorem bianchi_ax_correct_witness:
  "\<exists>td ta vs. bianchi_ax 100000 8603000 6000000 1 1 = Inr vs \<and> t_data 8603000 1 = Inr td \<and>
     t_ack 6000000 = Inr ta \<and> length vs = 10"
  using bianchi_ax_correct [of 8603000 6000000 100000 1 1] by (auto dest: list_all2_lengthD)

text \<open>The two files are written completely: 48 entries with ten values each.\<close>

lemma table_entries_complete:
  obtains es where "table_entries points difs = Inr es" "length es = 48" "list_all (\<lambda>(r, i, bw). length r = 10) es"
proof -
  define jobs where "jobs = concat (map (\<lambda>(bw, rates). map (\<lambda>(i, r). (bw, i, r)) (enumerate 0 (zip rates ack_rates))) data_rates)"
  define f where "f = (\<lambda>(bw :: nat, i :: nat, data_rate, ack_rate).
         rbind (bianchi_ax points data_rate ack_rate 1 difs) (\<lambda>r. Inr (r, i, bw)))"
  have rates: "list_all (\<lambda>(bw, i, dr, ar). 0 < dr \<and> 0 < ar) jobs" and len: "length jobs = 48"
    by (simp_all add: jobs_def data_rates_def ack_rates_def eval_nat_numeral)
  have "\<exists>y. f x = Inr y \<and> length (fst y) = 10" if "x \<in> set jobs" for x
  proof -
    obtain bw i dr ar where x: "x = (bw, i, dr, ar)" by (cases x)
    with rates that have "0 < dr" "0 < ar" by (auto simp: list_all_iff)
    then obtain td ta where "t_data dr 1 = Inr td" "t_ack ar = Inr ta"
      by (metis t_data_bounds t_ack_bounds)
    then show ?thesis by (simp add: f_def x bianchi_ax_def nA_values)
  qed
  then have f: "list_all (\<lambda>x. \<exists>y. f x = Inr y \<and> length (fst y) = 10) jobs" by (simp add: list_all_iff)
  then have "\<exists>es. map_res f jobs = Inr es" unfolding map_res_exists list_all_iff by blast
  then obtain es where es: "map_res f jobs = Inr es" ..
  then have "list_all2 (\<lambda>x y. f x = Inr y) jobs es" by (simp add: map_res_eq_Inr)
  then have "length es = length jobs \<and> list_all (\<lambda>(r, i, bw). length r = 10) es"
    using f by (induction rule: list_all2_induct) auto
  moreover have "table_entries points difs = map_res f jobs" by (simp add: table_entries_def f_def jobs_def)
  ultimately show thesis using that es len by simp
qed

end
