(* ===== verification/RadUtil.thy ===== *)
theory RadUtil
  imports Prelude "HOL-Library.Sublist"
begin

text \<open>
  \<^verbatim>\<open>bindings/python/rad_util.py\<close>: the utility functions of the binding generator
  (Python 2 code: \<^verbatim>\<open>/\<close> on integers is floor division). Modelled here: the conversions
  between integers and binary strings, greatest common factor, least common multiple and
  fractions, permutations, transposition, duplicate removal, dictionary reversal, bit
  manipulation, common prefixes and suffixes, rotations (used by the cycle finder of
  \<^verbatim>\<open>topsort.py\<close>), grid rounding and command-line splitting. Numbers are
  integers; the functions on floats are in the theory \<open>RadFloat\<close>.
\<close>

unbundle bit_operations_syntax

section \<open>Definitions\<close>

subsection \<open>Binary strings\<close>

definition hex_digit :: "nat \<Rightarrow> char" where
  "hex_digit d = ''0123456789abcdef'' ! d"

fun hex_nat :: "nat \<Rightarrow> string" where
  "hex_nat n = (if n < 16 then [hex_digit n] else hex_nat (n div 16) @ [hex_digit (n mod 16)])"

declare hex_nat.simps [simp del]

text \<open>\<^verbatim>\<open>hex(i)\<close>, without the \<^verbatim>\<open>L\<close> suffix of a long (the code removes it)\<close>

definition py_hex :: "int \<Rightarrow> string" where
  "py_hex i = (if i < 0 then ''-0x'' @ hex_nat (nat (- i)) else ''0x'' @ hex_nat (nat i))"

definition hex2bin :: "(char, string) dict" where
  "hex2bin =
     [(CHR ''0'', ''0000''), (CHR ''1'', ''0001''), (CHR ''2'', ''0010''), (CHR ''3'', ''0011''),
      (CHR ''4'', ''0100''), (CHR ''5'', ''0101''), (CHR ''6'', ''0110''), (CHR ''7'', ''0111''),
      (CHR ''8'', ''1000''), (CHR ''9'', ''1001''), (CHR ''a'', ''1010''), (CHR ''b'', ''1011''),
      (CHR ''c'', ''1100''), (CHR ''d'', ''1101''), (CHR ''e'', ''1110''), (CHR ''f'', ''1111'')]"

definition int2bin :: "int \<Rightarrow> int \<Rightarrow> string result" where
  "int2bin i n =
     rbind (map_res (dict_get hex2bin) (drop 2 (py_hex i)))
       (\<lambda>parts. let bits = concat parts in
          if CHR ''1'' \<in> set (slice_to bits (- n)) then Inl ValueError
          else let tail = slice_from bits (- n) in
               Inr (replicate (nat (n - int (length tail))) (CHR ''0'') @ tail))"

text \<open>
  \<^verbatim>\<open>int(s, 2)\<close>: surrounding white space, a sign and a \<^verbatim>\<open>0b\<close> prefix are
  accepted; anything else than binary digits raises.
\<close>

definition bits_val :: "string \<Rightarrow> int" where
  "bits_val = foldl (\<lambda>a c. 2 * a + (if c = CHR ''1'' then 1 else 0)) 0"

definition split_sign :: "string \<Rightarrow> bool \<times> string" where
  "split_sign s = (case s of [] \<Rightarrow> (False, [])
     | c # cs \<Rightarrow> if c = CHR ''-'' then (True, cs) else if c = CHR ''+'' then (False, cs)
                 else (False, s))"

definition drop_base :: "string \<Rightarrow> string" where
  "drop_base s = (case s of c # d # ds \<Rightarrow>
       if c = CHR ''0'' \<and> (d = CHR ''b'' \<or> d = CHR ''B'') then ds else s | _ \<Rightarrow> s)"

definition bin2int :: "string \<Rightarrow> int result" where
  "bin2int s =
     (let (neg, t) = split_sign (strip s); u = drop_base t in
      if u = [] \<or> \<not> list_all (\<lambda>c. c = CHR ''0'' \<or> c = CHR ''1'') u then Inl ValueError
      else Inr (if neg then - bits_val u else bits_val u))"

definition reverse :: "string \<Rightarrow> string" where
  "reverse s = rev s"

subsection \<open>Matrices\<close>

text \<open>\<^verbatim>\<open>zip(*matrix)\<close> stops at the shortest row.\<close>

function zip_rows :: "'a list list \<Rightarrow> 'a list list" where
  "zip_rows rows =
     (if rows = [] \<or> [] \<in> set rows then [] else map hd rows # zip_rows (map tl rows))"
  by pat_completeness auto
termination
  by (relation "measure (\<lambda>rows. length (hd rows))") (auto simp: hd_map neq_Nil_conv)

declare zip_rows.simps [simp del]

definition transpose :: "'a list list \<Rightarrow> 'a list list" where
  "transpose matrix = zip_rows matrix"

subsection \<open>Integers\<close>

text \<open>The loop of \<^verbatim>\<open>gcf\<close>; on integers the test on \<^verbatim>\<open>epsilon\<close> is the test for zero.\<close>

function gcf_loop :: "int \<Rightarrow> int \<Rightarrow> int" where
  "gcf_loop res remainder =
     (if remainder = 0 then res else gcf_loop remainder (res mod remainder))"
  by pat_completeness auto
termination
  by (relation "measure (\<lambda>(res, remainder). nat \<bar>remainder\<bar>)") (auto simp: abs_mod_less)

declare gcf_loop.simps [simp del]

definition gcf :: "int \<Rightarrow> int \<Rightarrow> int" where
  "gcf a b = \<bar>gcf_loop (max a b) (min a b)\<bar>"

definition lcm_of :: "int \<Rightarrow> int \<Rightarrow> int" where
  "lcm_of a b = (let denom = gcf a b in if denom = 0 then 0 else a * (b div denom))"

definition reduce_fraction :: "int \<times> int \<Rightarrow> (int \<times> int) result" where
  "reduce_fraction fraction =
     (let (numerator, denominator) = fraction; common_factor = \<bar>gcf numerator denominator\<bar> in
      if common_factor = 0 then Inl ZeroDivisionError
      else Inr (numerator div common_factor, denominator div common_factor))"

definition lsb :: "int \<Rightarrow> nat \<Rightarrow> int" where
  "lsb x n = x AND (2 ^ n - 1)"

definition gray_encode :: "int \<Rightarrow> int" where
  "gray_encode i = i XOR drop_bit 1 i"

text \<open>
  \<^verbatim>\<open>round_grid\<close> on integers. For modes \<^verbatim>\<open>1\<close> and \<^verbatim>\<open>-1\<close> the variable
  \<^verbatim>\<open>add_one\<close> is assigned only when the value is off the grid.
\<close>

definition round_grid :: "int \<Rightarrow> int \<Rightarrow> int \<Rightarrow> int result" where
  "round_grid value grid mode =
     (if grid = 0 then Inl ZeroDivisionError else
      let off_grid = value mod grid;
          add_one = (if mode = 0 then Inr (if grid \<le> 2 * off_grid then 1 else 0)
                     else if mode = 1 \<and> off_grid \<noteq> 0 then Inr 1
                     else if mode = -1 \<and> off_grid \<noteq> 0 then Inr 0
                     else Inl UnboundLocalError)
      in rbind add_one (\<lambda>k. Inr ((value div grid + k) * grid)))"

subsection \<open>Lists and dictionaries\<close>

text \<open>\<^verbatim>\<open>new_list.insert(i, item)\<close> on a copy of the list\<close>

definition insert_at :: "nat \<Rightarrow> 'a \<Rightarrow> 'a list \<Rightarrow> 'a list" where
  "insert_at i item xs = take i xs @ item # drop i xs"

fun permutations :: "'a list \<Rightarrow> 'a list list" where
  "permutations (item # x # xs) =
     concat (map (\<lambda>sub_list. map (\<lambda>i. insert_at i item sub_list) [0..<length (item # x # xs)])
       (permutations (x # xs)))"
| "permutations input_list = [input_list]"

text \<open>
  \<^verbatim>\<open>uniquify\<close>: the fast algorithm uses a dictionary and is abandoned (as Python's
  \<^verbatim>\<open>TypeError\<close> is caught) when some item is not hashable.
\<close>

fun uniq_ordered :: "('a, int) dict \<Rightarrow> 'a list \<Rightarrow> 'a list" where
  "uniq_ordered d [] = []"
| "uniq_ordered d (x # xs) =
     (if has_key d x then uniq_ordered d xs else x # uniq_ordered (AList.update x 0 d) xs)"

definition uniq_dict :: "'a list \<Rightarrow> ('a, int) dict" where
  "uniq_dict xs = fold (\<lambda>x. AList.update x 0) xs []"

fun uniq_slow :: "'a list \<Rightarrow> 'a list \<Rightarrow> 'a list" where
  "uniq_slow res [] = res"
| "uniq_slow res (x # xs) = uniq_slow (if x \<in> set res then res else res @ [x]) xs"

definition uniquify :: "('a \<Rightarrow> bool) \<Rightarrow> 'a list \<Rightarrow> bool \<Rightarrow> 'a list" where
  "uniquify hashable xs preserve_order =
     (if list_all hashable xs
      then (if preserve_order then uniq_ordered [] xs else dict_keys (uniq_dict xs))
      else uniq_slow [] xs)"

definition reverse_dict :: "('k, 'v) dict \<Rightarrow> ('v, 'k) dict" where
  "reverse_dict d = fold (\<lambda>(k, v). AList.update v k) d []"

function common_prefix :: "'a list \<Rightarrow> 'a list \<Rightarrow> nat \<Rightarrow> 'a list" where
  "common_prefix s1 s2 i =
     (if i < min (length s1) (length s2) \<and> s1 ! i = s2 ! i
      then s1 ! i # common_prefix s1 s2 (Suc i) else [])"
  by pat_completeness auto
termination
  by (relation "measure (\<lambda>(s1, s2, i). length s1 - i)") auto

declare common_prefix.simps [simp del]

text \<open>The second loop reads \<^verbatim>\<open>s[-i]\<close>, that is, position \<open>i - 1\<close> of the reversed strings.\<close>

definition find_common_fixes :: "'a list \<Rightarrow> 'a list \<Rightarrow> 'a list \<times> 'a list" where
  "find_common_fixes s1 s2 =
     (common_prefix s1 s2 0, rev (common_prefix (rev s1) (rev s2) 0))"

definition start_indexes :: "'a list \<Rightarrow> 'a \<Rightarrow> nat list" where
  "start_indexes seq1 head_item = filter (\<lambda>i. seq1 ! i = head_item) [0..<length seq1]"

definition is_rotated :: "'a list \<Rightarrow> 'a list \<Rightarrow> bool result" where
  "is_rotated seq1 seq2 =
     (if length seq1 \<noteq> length seq2 then Inr False
      else rbind (py_index seq2 0) (\<lambda>head_item.
        let double_seq1 = seq1 @ seq1 in
        Inr (list_ex (\<lambda>i. take (length seq1) (drop i double_seq1) = seq2)
               (start_indexes seq1 head_item))))"

datatype arg_value = NoValue | StrValue string | ListValue "string list"

fun get_args_loop ::
  "string list \<Rightarrow> (string, arg_value) dict \<Rightarrow> string list \<Rightarrow> (string, arg_value) dict" where
  "get_args_loop [] d args = AList.update ''args'' (ListValue args) d"
| "get_args_loop (arg # argv) d args =
     (if startswith arg ''-''
      then let parts = split_on (CHR ''='') (dropWhile (\<lambda>c. c = CHR ''-'') arg) in
           get_args_loop argv
             (AList.update (hd parts) (if length parts = 2 then StrValue (parts ! 1) else NoValue) d)
             args
      else get_args_loop argv d (args @ [arg]))"

definition get_args :: "string list \<Rightarrow> (string, arg_value) dict" where
  "get_args argv = get_args_loop argv [] []"


section \<open>Properties\<close>

subsection \<open>Binary strings\<close>

lemma bits_val_Nil [simp]: "bits_val [] = 0"
  by (simp add: bits_val_def)

lemma bits_val_append: "bits_val (u @ v) = bits_val u * 2 ^ length v + bits_val v"
proof (induction v rule: rev_induct)
  case Nil
  show ?case by (simp add: bits_val_def)
next
  case (snoc c v)
  have step: "bits_val (w @ [c]) = 2 * bits_val w + (if c = CHR ''1'' then 1 else 0)" for w
    by (simp add: bits_val_def)
  have "bits_val (u @ v @ [c]) = 2 * bits_val (u @ v) + (if c = CHR ''1'' then 1 else 0)"
    using step [of "u @ v"] by simp
  then show ?case using snoc step [of v] by (simp add: algebra_simps)
qed

lemma bits_val_Cons: "bits_val (c # v) = (if c = CHR ''1'' then 2 ^ length v else 0) + bits_val v"
  using bits_val_append [of "[c]" v] by (simp add: bits_val_def)

lemma bits_val_bounds: "0 \<le> bits_val v \<and> bits_val v < 2 ^ length v"
  by (induction v) (auto simp: bits_val_Cons)

lemma bits_val_pos: "CHR ''1'' \<in> set v \<Longrightarrow> 1 \<le> bits_val v"
proof (induction v)
  case (Cons c v)
  then show ?case using bits_val_bounds [of v]
    by (cases "c = CHR ''1''") (auto simp: bits_val_Cons intro: order_trans [OF one_le_power])
qed simp

lemma bits_val_zero: "CHR ''1'' \<notin> set v \<Longrightarrow> bits_val v = 0"
  by (induction v) (auto simp: bits_val_Cons)

definition hex_bits :: "char \<Rightarrow> string" where
  "hex_bits c = the (map_of hex2bin c)"

lemma hex_digit_cases: "d < 16 \<Longrightarrow> d \<in> {0, 1, 2, 3, 4, 5, 6, 7, 8, 9, 10, 11, 12, 13, 14, 15 :: nat}"
  by (simp, presburger)

lemma hex_digit_bits:
  assumes "d < 16"
  shows "dict_get hex2bin (hex_digit d) = Inr (hex_bits (hex_digit d))"
    and "bits_val (hex_bits (hex_digit d)) = int d"
    and "length (hex_bits (hex_digit d)) = 4"
    and "set (hex_bits (hex_digit d)) \<subseteq> {CHR ''0'', CHR ''1''}"
  using hex_digit_cases [OF assms]
  by (elim insertE; simp add: hex_digit_def dict_get_def hex2bin_def hex_bits_def bits_val_def)+

lemma hex_nat_bits:
  "map_res (dict_get hex2bin) (hex_nat n) = Inr (map hex_bits (hex_nat n))
   \<and> bits_val (concat (map hex_bits (hex_nat n))) = int n
   \<and> set (concat (map hex_bits (hex_nat n))) \<subseteq> {CHR ''0'', CHR ''1''}"
proof -
  have digits: "\<forall>c \<in> set (hex_nat n). \<exists>d < 16. c = hex_digit d"
  proof (induction n rule: hex_nat.induct)
    case (1 n)
    then show ?case
      by (subst hex_nat.simps) (auto intro: exI [of _ "n mod 16"])
  qed
  have "bits_val (concat (map hex_bits (hex_nat n))) = int n"
  proof (induction n rule: hex_nat.induct)
    case (1 n)
    show ?case
    proof (cases "n < 16")
      case True
      then show ?thesis by (subst hex_nat.simps) (simp add: hex_digit_bits)
    next
      case False
      with 1 have "bits_val (concat (map hex_bits (hex_nat (n div 16)))) = int (n div 16)" by simp
      with False show ?thesis
        by (subst hex_nat.simps) (simp add: bits_val_append hex_digit_bits zdiv_int zmod_int)
    qed
  qed
  moreover have "map_res (dict_get hex2bin) (hex_nat n) = Inr (map hex_bits (hex_nat n))"
  proof (rule map_res_Inr)
    fix c assume "c \<in> set (hex_nat n)"
    with digits obtain d where "d < 16" "c = hex_digit d" by blast
    then show "dict_get hex2bin c = Inr (hex_bits c)" using hex_digit_bits(1) by simp
  qed
  moreover have "set (concat (map hex_bits (hex_nat n))) \<subseteq> {CHR ''0'', CHR ''1''}"
  proof
    fix x assume "x \<in> set (concat (map hex_bits (hex_nat n)))"
    then obtain c where "c \<in> set (hex_nat n)" and x: "x \<in> set (hex_bits c)" by auto
    with digits obtain d where "d < 16" "c = hex_digit d" by blast
    then show "x \<in> {CHR ''0'', CHR ''1''}" using hex_digit_bits(4) x by blast
  qed
  ultimately show ?thesis by blast
qed

text \<open>A string of binary digits reads back as its value.\<close>

lemma bin2int_digits:
  assumes "s \<noteq> []" and "set s \<subseteq> {CHR ''0'', CHR ''1''}"
  shows "bin2int s = Inr (bits_val s)"
proof -
  from assms obtain c cs where s: "s = c # cs" and c: "c = CHR ''0'' \<or> c = CHR ''1''"
    by (cases s) auto
  from assms(2) have nospace: "\<forall>x \<in> set s. \<not> is_space x" by (auto simp: is_space_def)
  have id: "dropWhile is_space t = t" if "\<forall>x \<in> set t. \<not> is_space x" for t
    using that by (cases t) auto
  from nospace have "strip s = s" by (simp add: strip_def id)
  moreover have "split_sign s = (False, s)" using s c by (auto simp: split_sign_def)
  moreover have "drop_base s = s" using s assms(2) by (auto simp: drop_base_def split: list.splits)
  moreover have "list_all (\<lambda>c. c = CHR ''0'' \<or> c = CHR ''1'') s"
    using assms(2) by (auto simp: list_all_iff)
  ultimately show ?thesis using assms(1) by (simp add: bin2int_def)
qed

text \<open>
  For a non-negative integer and a positive width, \<open>int2bin\<close> gives a string of
  exactly that width which \<open>bin2int\<close> reads back as the integer when the integer fits, and
  raises \<^verbatim>\<open>ValueError\<close> when it does not.
\<close>

theorem int2bin_bin2int:
  assumes "0 \<le> i" and "0 < n"
  shows "if i < 2 ^ nat n
         then (\<exists>s. int2bin i n = Inr s \<and> int (length s) = n \<and> bin2int s = Inr i)
         else int2bin i n = Inl ValueError"
proof -
  define w where "w = concat (map hex_bits (hex_nat (nat i)))"
  define m where "m = length w - nat n"
  have wval: "bits_val w = i" and wset: "set w \<subseteq> {CHR ''0'', CHR ''1''}"
    and wres: "map_res (dict_get hex2bin) (drop 2 (py_hex i)) = Inr (map hex_bits (hex_nat (nat i)))"
    using hex_nat_bits [of "nat i"] assms(1) by (simp_all add: w_def py_hex_def)
  have pos: "slice_pos (length w) (- n) = m" using assms(2) by (simp add: slice_pos_def m_def)
  have val: "i = bits_val (take m w) * 2 ^ length (drop m w) + bits_val (drop m w)"
    using wval bits_val_append [of "take m w" "drop m w"] by simp
  have len: "length (drop m w) \<le> nat n" and cut: "m > 0 \<Longrightarrow> length (drop m w) = nat n"
    by (simp_all add: m_def)
  have code: "int2bin i n = (if CHR ''1'' \<in> set (take m w) then Inl ValueError
      else Inr (replicate (nat (n - int (length (drop m w)))) (CHR ''0'') @ drop m w))"
    by (simp add: int2bin_def wres slice_to_def slice_from_def pos Let_def flip: w_def)
  show ?thesis
  proof (cases "CHR ''1'' \<in> set (take m w)")
    case True
    then have "m > 0" by (cases m) auto
    with cut have "length (drop m w) = nat n" by simp
    then have "i = bits_val (take m w) * 2 ^ nat n + bits_val (drop m w)" using val by simp
    moreover have "1 * 2 ^ nat n \<le> bits_val (take m w) * 2 ^ nat n"
      by (rule mult_right_mono) (use bits_val_pos [OF True] in simp_all)
    ultimately have "2 ^ nat n \<le> i" using bits_val_bounds [of "drop m w"] by linarith
    with code True show ?thesis by simp
  next
    case False
    let ?s = "replicate (nat (n - int (length (drop m w)))) (CHR ''0'') @ drop m w"
    have vs: "bits_val ?s = i"
      using val False by (simp add: bits_val_append bits_val_zero)
    have ls: "length ?s = nat n" using len by simp
    have "i < 2 ^ nat n" using vs ls bits_val_bounds [of ?s] by simp
    moreover have "bin2int ?s = Inr i"
    proof (subst vs [symmetric], rule bin2int_digits)
      show "?s \<noteq> []" using ls assms(2) by (metis length_0_conv nat_0_iff not_le)
      show "set ?s \<subseteq> {CHR ''0'', CHR ''1''}"
        using wset set_drop_subset [of m w] by auto
    qed
    moreover have "int (length ?s) = n" using ls assms(2) by simp
    moreover have "int2bin i n = Inr ?s" using code False by simp
    ultimately show ?thesis by auto
  qed
qed

theorem int2bin_bin2int_witness:
  "\<exists>s. int2bin 123 8 = Inr s \<and> int (length s) = 8 \<and> bin2int s = Inr 123"
  using int2bin_bin2int [of 123 8] by simp


subsection \<open>Integers\<close>

lemma gcf_loop_gcd: "\<bar>gcf_loop a b\<bar> = gcd a b"
proof (induction a b rule: gcf_loop.induct)
  case (1 a b)
  then show ?case
    by (cases "b = 0") (simp_all add: gcf_loop.simps [of a b] gcf_loop.simps [of a 0] gcd_red_int [of a b])
qed

lemma gcf_gcd: "gcf a b = gcd a b"
  by (simp add: gcf_def gcf_loop_gcd max_def min_def gcd.commute)

text \<open>
  \<open>gcf\<close> is the greatest common divisor for all integers, signs and zeros included;
  \<open>lcm_of\<close> is the least common multiple up to the sign; and \<open>reduce_fraction\<close> gives an
  equal fraction in lowest terms, raising only on \<open>0/0\<close>.
\<close>

theorem gcf_lcm_reduce:
  "gcf a b = gcd a b \<and> \<bar>lcm_of a b\<bar> = lcm a b \<and>
   reduce_fraction (a, b) =
     (if a = 0 \<and> b = 0 then Inl ZeroDivisionError else Inr (a div gcd a b, b div gcd a b)) \<and>
   (a \<noteq> 0 \<or> b \<noteq> 0 \<longrightarrow> coprime (a div gcd a b) (b div gcd a b) \<and>
      (a div gcd a b) * b = (b div gcd a b) * a)"
proof (intro conjI impI)
  show "gcf a b = gcd a b" by (rule gcf_gcd)
  show "\<bar>lcm_of a b\<bar> = lcm a b"
  proof (cases "gcd a b = 0")
    case True
    then show ?thesis by (simp add: lcm_of_def gcf_gcd)
  next
    case False
    then have "\<bar>lcm_of a b\<bar> = \<bar>a * b\<bar> div gcd a b"
      by (simp add: lcm_of_def gcf_gcd div_mult_swap abs_mult abs_div)
    then show ?thesis by (simp add: lcm_altdef_int abs_mult)
  qed
  show "reduce_fraction (a, b) =
     (if a = 0 \<and> b = 0 then Inl ZeroDivisionError else Inr (a div gcd a b, b div gcd a b))"
    by (auto simp: reduce_fraction_def gcf_gcd Let_def)
next
  assume "a \<noteq> 0 \<or> b \<noteq> 0"
  then show "coprime (a div gcd a b) (b div gcd a b)" by (rule div_gcd_coprime)
  show "(a div gcd a b) * b = (b div gcd a b) * a"
    by (simp add: div_mult_swap mult.commute)
qed

theorem gcf_lcm_reduce_witness:
  "reduce_fraction (-2, 4) = Inr (-1, 2) \<and> coprime (-2 div gcd (-2) (4::int)) (4 div gcd (-2) (4::int))"
  using gcf_lcm_reduce [of "-2" 4] by simp

lemma xor_succ_mask: "\<exists>k. int n XOR int (Suc n) = mask (Suc k)"
proof (induction n rule: less_induct)
  case (less n)
  show ?case
  proof (cases "even n")
    case True
    then obtain j where n: "n = 2 * j" by (elim evenE)
    have "int n XOR int (Suc n) = mask (Suc 0)"
      unfolding n by (subst xor_int_rec) simp
    then show ?thesis by blast
  next
    case False
    then obtain j where n: "n = 2 * j + 1" by (elim oddE)
    with less.IH [of j] obtain k where k: "int j XOR int (Suc j) = mask (Suc k)" by auto
    have e: "int n = 2 * int j + 1" "int (Suc n) = 2 * int (Suc j)" using n by simp_all
    have "int n XOR int (Suc n) = 1 + 2 * (int j XOR int (Suc j))"
      unfolding e by (subst xor_int_rec) simp
    also have "\<dots> = mask (Suc (Suc k))"
      unfolding k by (simp add: mask_eq_exp_minus_1)
    finally show ?thesis by blast
  qed
qed

lemma xor_eq_0_iff_int: "a XOR b = 0 \<longleftrightarrow> a = b" for a b :: int
proof
  assume "a XOR b = 0"
  then have "(a XOR b) XOR b = b" by simp
  then show "a = b" by (simp add: xor.assoc)
qed simp

lemma gray_encode_xor: "gray_encode a XOR gray_encode b = (a XOR b) XOR drop_bit 1 (a XOR b)"
  by (simp add: gray_encode_def drop_bit_xor xor.assoc xor.left_commute)

text \<open>
  \<open>gray_encode\<close> is a Gray code on the non-negative integers: the codes of two
  successive numbers differ in exactly one bit, and different numbers have different codes.
\<close>

theorem gray_encode_correct:
  "(\<exists>k. gray_encode (int n + 1) XOR gray_encode (int n) = 2 ^ k) \<and>
   (gray_encode (int n) = gray_encode (int m) \<longrightarrow> n = m)"
proof (intro conjI impI)
  obtain k where k: "int n XOR int (Suc n) = mask (Suc k)" using xor_succ_mask by blast
  have m: "int (Suc n) XOR int n = mask (Suc k)" using k by (simp only: xor.commute)
  have "gray_encode (int (Suc n)) XOR gray_encode (int n) = mask (Suc k) XOR drop_bit 1 (mask (Suc k))"
    unfolding gray_encode_xor m ..
  then have "gray_encode (int n + 1) XOR gray_encode (int n) = mask (Suc k) XOR mask k"
    by (simp add: drop_bit_mask_eq add.commute)
  also have "\<dots> = 2 ^ k"
    by (rule bit_eqI) (auto simp: bit_simps)
  finally show "\<exists>k. gray_encode (int n + 1) XOR gray_encode (int n) = 2 ^ k" by blast
next
  assume "gray_encode (int n) = gray_encode (int m)"
  then have "gray_encode (int n) XOR gray_encode (int m) = 0" by simp
  then have "(int n XOR int m) XOR drop_bit 1 (int n XOR int m) = 0"
    by (simp add: gray_encode_xor)
  then have "int n XOR int m = (int n XOR int m) div 2"
    by (simp add: xor_eq_0_iff_int drop_bit_eq_div)
  moreover have "int n XOR int m \<ge> 0" by simp
  ultimately have "int n XOR int m = 0" by presburger
  then show "n = m" by (simp add: xor_eq_0_iff_int)
qed

theorem gray_encode_correct_witness:
  "gray_encode (int 5) = gray_encode (int 5) \<and> (5::nat) = 5 \<and> gray_encode 4 XOR gray_encode 3 = 2 ^ 2"
  using gray_encode_correct [of 5 5] by (simp add: gray_encode_def)

text \<open>
  On integers and a positive grid, rounding to the nearest never raises and returns a
  multiple of the grid at a distance of at most half a grid; rounding up or down returns the
  neighbouring multiple for a value off the grid, but raises
  \<^verbatim>\<open>UnboundLocalError\<close> for a value that is already on the grid.
\<close>

theorem round_grid_correct:
  assumes "0 < grid"
  shows "(\<exists>r. round_grid v grid 0 = Inr r \<and> grid dvd r \<and> 2 * \<bar>r - v\<bar> \<le> grid) \<and>
    (if grid dvd v then round_grid v grid 1 = Inl UnboundLocalError \<and>
                        round_grid v grid (-1) = Inl UnboundLocalError
     else (\<exists>r. round_grid v grid 1 = Inr r \<and> grid dvd r \<and> v < r \<and> r < v + grid) \<and>
          (\<exists>r. round_grid v grid (-1) = Inr r \<and> grid dvd r \<and> v - grid < r \<and> r < v))"
proof -
  define q where "q = v div grid"
  define o' where "o' = v mod grid"
  have v: "v = q * grid + o'" by (simp add: q_def o'_def)
  have o: "0 \<le> o'" "o' < grid" using assms by (simp_all add: o'_def)
  have dvd: "grid dvd v \<longleftrightarrow> o' = 0" by (simp add: o'_def dvd_eq_mod_eq_0)
  have near: "round_grid v grid 0 = Inr ((q + (if grid \<le> 2 * o' then 1 else 0)) * grid)"
    using assms by (simp add: round_grid_def q_def o'_def Let_def)
  have "2 * \<bar>(q + (if grid \<le> 2 * o' then 1 else 0)) * grid - v\<bar> \<le> grid"
    using o unfolding v by (simp add: algebra_simps abs_if)
  with near have "\<exists>r. round_grid v grid 0 = Inr r \<and> grid dvd r \<and> 2 * \<bar>r - v\<bar> \<le> grid"
    by simp
  moreover have "round_grid v grid 1 = (if o' = 0 then Inl UnboundLocalError else Inr ((q + 1) * grid))"
    "round_grid v grid (-1) = (if o' = 0 then Inl UnboundLocalError else Inr (q * grid))"
    using assms by (simp_all add: round_grid_def q_def o'_def Let_def)
  ultimately show ?thesis using o unfolding dvd by (auto simp: v algebra_simps)
qed

theorem round_grid_correct_witness:
  "round_grid 7 5 1 = Inr 10 \<and> round_grid 10 5 1 = Inl UnboundLocalError"
proof -
  have "round_grid 10 5 1 = Inl UnboundLocalError" using round_grid_correct [of 5 10] by simp
  then show ?thesis by (simp add: round_grid_def)
qed


subsection \<open>Lists and dictionaries\<close>

lemma insert_at_image:
  "{insert_at i x ys | i. i < Suc (length ys)} = {zs. \<exists>u v. zs = u @ x # v \<and> ys = u @ v}"
proof (intro set_eqI iffI)
  fix zs assume "zs \<in> {insert_at i x ys | i. i < Suc (length ys)}"
  then obtain i where "zs = take i ys @ x # drop i ys" by (auto simp: insert_at_def)
  moreover have "ys = take i ys @ drop i ys" by simp
  ultimately show "zs \<in> {zs. \<exists>u v. zs = u @ x # v \<and> ys = u @ v}" by blast
next
  fix zs assume "zs \<in> {zs. \<exists>u v. zs = u @ x # v \<and> ys = u @ v}"
  then obtain u v where "zs = u @ x # v" "ys = u @ v" by blast
  then have "zs = insert_at (length u) x ys \<and> length u < Suc (length ys)"
    by (simp add: insert_at_def)
  then show "zs \<in> {insert_at i x ys | i. i < Suc (length ys)}" by blast
qed

lemma set_permutations_Cons:
  "set (permutations (a # x # xs)) =
     (\<Union>ys \<in> set (permutations (x # xs)). (\<lambda>i. insert_at i a ys) ` {0..<length (a # x # xs)})"
  by (simp del: upt_Suc)

text \<open>
  \<open>permutations\<close> lists exactly the rearrangements of its argument, and lists
  \<open>n!\<close> of them (so each once when the items are distinct).
\<close>

theorem permutations_correct:
  "set (permutations xs) = {ys. mset ys = mset xs} \<and> length (permutations xs) = fact (length xs)"
proof (induction xs rule: permutations.induct)
  case (1 a x xs)
  then have IH: "set (permutations (x # xs)) = {ys. mset ys = mset (x # xs)}" by blast
  have len: "length ys = length (x # xs)" if "ys \<in> set (permutations (x # xs))" for ys
  proof -
    from that 1 have "mset ys = mset (x # xs)" by blast
    then show ?thesis by (rule mset_eq_length)
  qed
  have "set (permutations (a # x # xs)) =
      (\<Union>ys \<in> set (permutations (x # xs)). {insert_at i a ys | i. i < Suc (length ys)})"
    unfolding set_permutations_Cons using len by (fastforce simp: image_iff)
  also have "\<dots> = {zs. \<exists>u v. zs = u @ a # v \<and> mset (u @ v) = mset (x # xs)}"
    unfolding insert_at_image IH by blast
  also have "\<dots> = {zs. mset zs = mset (a # x # xs)}" (is "?L = ?R")
  proof
    show "?L \<subseteq> ?R" by auto
    show "?R \<subseteq> ?L"
    proof
      fix zs assume zs: "zs \<in> ?R"
      then have "a \<in> set zs" by (metis list.set_intros(1) mem_Collect_eq mset_eq_setD)
      then obtain u v where uv: "zs = u @ a # v" by (auto dest: split_list)
      with zs have "mset (u @ v) = mset (x # xs)" by simp
      with uv show "zs \<in> ?L" by blast
    qed
  qed
  finally have s: "set (permutations (a # x # xs)) = {zs. mset zs = mset (a # x # xs)}" .
  have "length (permutations (a # x # xs)) = length (permutations (x # xs)) * length (a # x # xs)"
    by (simp add: length_concat comp_def sum_list_triv)
  with 1 s show ?case by (simp add: algebra_simps)
qed (auto simp: size_eq_0_iff_empty)

lemma rotate_window:
  assumes "i < length xs"
  shows "take (length xs) (drop i (xs @ xs)) = rotate i xs"
  using assms by (simp add: rotate_drop_take)

text \<open>
  On a non-empty second sequence, \<open>is_rotated\<close> never raises and decides whether the
  second sequence is a rotation of the first.
\<close>

theorem is_rotated_correct:
  assumes "seq2 \<noteq> []"
  shows "is_rotated seq1 seq2 = Inr (\<exists>k. seq2 = rotate k seq1)"
proof (cases "length seq1 = length seq2")
  case False
  then show ?thesis by (auto simp: is_rotated_def)
next
  case True
  let ?n = "length seq1"
  have hd0: "py_index seq2 0 = Inr (seq2 ! 0)" using assms by (simp add: py_index_def)
  have "(\<exists>k. seq2 = rotate k seq1) \<longleftrightarrow>
        (\<exists>i \<in> set (start_indexes seq1 (seq2 ! 0)). take ?n (drop i (seq1 @ seq1)) = seq2)"
    (is "?L \<longleftrightarrow> ?R")
  proof
    assume ?R
    then show ?L by (auto simp: start_indexes_def rotate_window simp del: drop_append)
  next
    assume ?L
    then obtain k where k: "seq2 = rotate k seq1" by blast
    let ?i = "k mod ?n"
    have i: "?i < ?n" using assms True by (cases seq1) auto
    have r: "seq2 = rotate ?i seq1" using k by (simp add: rotate_conv_mod [of k])
    have "seq2 ! 0 = seq1 ! ((?i + 0) mod ?n)"
      unfolding r by (rule nth_rotate) (use i in auto)
    with i have "seq1 ! ?i = seq2 ! 0" by simp
    with i r show ?R by (auto simp: start_indexes_def rotate_window simp del: drop_append
          intro!: bexI [of _ ?i])
  qed
  then show ?thesis
    using True hd0 by (simp add: is_rotated_def list_ex_iff del: drop_append take_append)
qed

theorem is_rotated_correct_witness:
  "is_rotated ''ABCD'' ''CDAB'' = Inr (\<exists>k. ''CDAB'' = rotate k ''ABCD'')"
  by (rule is_rotated_correct) simp

lemma common_prefix_lcp:
  "common_prefix s1 s2 i = longest_common_prefix (drop i s1) (drop i s2)"
proof (induction s1 s2 i rule: common_prefix.induct)
  case (1 s1 s2 i)
  show ?case
  proof (cases "i < min (length s1) (length s2)")
    case True
    then have "drop i s1 = s1 ! i # drop (Suc i) s1" "drop i s2 = s2 ! i # drop (Suc i) s2"
      by (simp_all add: Cons_nth_drop_Suc)
    with True 1 show ?thesis by (simp add: common_prefix.simps [of s1 s2 i])
  next
    case False
    then have "drop i s1 = [] \<or> drop i s2 = []" by auto
    with False show ?thesis by (cases "drop i s1") (auto simp: common_prefix.simps [of s1 s2 i])
  qed
qed

text \<open>
  \<open>find_common_fixes\<close> returns the longest common prefix and the longest common
  suffix of its arguments.
\<close>

theorem find_common_fixes_longest:
  "case find_common_fixes s1 s2 of (p, s) \<Rightarrow>
     (\<forall>q. prefix q s1 \<and> prefix q s2 \<longleftrightarrow> prefix q p) \<and>
     (\<forall>q. suffix q s1 \<and> suffix q s2 \<longleftrightarrow> suffix q s)"
proof -
  have lcp: "prefix q a \<and> prefix q b \<longleftrightarrow> prefix q (longest_common_prefix a b)" for q a b :: "'a list"
    by (meson longest_common_prefix_max_prefix longest_common_prefix_prefix1
        longest_common_prefix_prefix2 prefix_order.trans)
  show ?thesis
    using lcp [of _ s1 s2] lcp [of _ "rev s1" "rev s2"]
    by (simp add: find_common_fixes_def common_prefix_lcp suffix_to_prefix)
qed


lemma uniq_ordered_first:
  "uniq_ordered d xs = filter (\<lambda>x. \<not> has_key d x) (first_occurrences xs)"
  by (induction xs arbitrary: d) (auto simp: has_key_def intro!: filter_cong)

lemma uniq_slow_first:
  "uniq_slow res xs = res @ filter (\<lambda>x. x \<notin> set res) (first_occurrences xs)"
  by (induction xs arbitrary: res) (auto intro!: filter_cong)

lemma uniq_dict_first: "dict_keys (uniq_dict xs) = first_occurrences xs"
  using adict.keys_insert_loop [of "\<lambda>_. 0" xs "[]"] by (simp add: uniq_dict_def dict_keys_def)

text \<open>
  \<open>uniquify\<close> removes duplicates: whichever of its three algorithms runs, the result
  has no repetition and the items of the input, in the order of their first occurrence (for the
  dictionary version this is the insertion order of dictionaries).
\<close>

theorem uniquify_correct:
  "uniquify hashable xs preserve_order = first_occurrences xs \<and>
   distinct (uniquify hashable xs preserve_order) \<and> set (uniquify hashable xs preserve_order) = set xs"
  by (simp add: uniquify_def uniq_ordered_first uniq_slow_first uniq_dict_first has_key_def)

lemma reverse_dict_lookup:
  "map_of (reverse_dict d) v = (case find (\<lambda>p. snd p = v) (rev d) of Some p \<Rightarrow> Some (fst p) | None \<Rightarrow> None)"
proof -
  have "reverse_dict d = fold (\<lambda>p. AList.update (snd p) (fst p)) d []"
    by (simp add: reverse_dict_def case_prod_beta')
  then show ?thesis using adict.lookup_insert_loop [of snd fst d "[]" v] by (simp split: option.split)
qed

text \<open>
  \<open>reverse_dict\<close> inverts a dictionary with distinct values: looking a value up in
  the result gives its key; and its keys are always distinct and are the values of the
  dictionary.
\<close>

theorem reverse_dict_inverts:
  assumes "dict_ok d"
  shows "dict_ok (reverse_dict d) \<and> set (dict_keys (reverse_dict d)) = set (map snd d) \<and>
    (distinct (map snd d) \<longrightarrow> (map_of (reverse_dict d) v = Some k \<longleftrightarrow> map_of d k = Some v))"
proof (intro conjI impI)
  have rd: "reverse_dict d = fold (\<lambda>p. AList.update (snd p) (fst p)) d []"
    by (simp add: reverse_dict_def case_prod_beta')
  show "dict_ok (reverse_dict d)" unfolding rd by (rule adict.ok_insert_loop) simp
  show "set (dict_keys (reverse_dict d)) = set (map snd d)"
    unfolding rd adict.set_keys_insert_loop by (simp add: dict_keys_def)
next
  assume dv: "distinct (map snd d)"
  have key: "map_of d k = Some v \<longleftrightarrow> (k, v) \<in> set d"
    using assms by (simp add: dict_ok_def dict_keys_def)
  have uniq: "p = q" if "p \<in> set d" "q \<in> set d" "snd p = snd q" for p q
    using dv that by (metis distinct_map inj_on_def)
  show "map_of (reverse_dict d) v = Some k \<longleftrightarrow> map_of d k = Some v"
  proof
    assume "map_of (reverse_dict d) v = Some k"
    then obtain p where "find (\<lambda>p. snd p = v) (rev d) = Some p" "fst p = k"
      by (auto simp: reverse_dict_lookup split: option.splits)
    then have "p \<in> set d" "snd p = v" "fst p = k" by (auto dest: find_SomeD)
    then show "map_of d k = Some v" by (auto simp: key)
  next
    assume "map_of d k = Some v"
    then have kv: "(k, v) \<in> set d" by (simp add: key)
    show "map_of (reverse_dict d) v = Some k"
    proof (cases "find (\<lambda>p. snd p = v) (rev d)")
      case None
      with kv show ?thesis by (auto simp: find_None_iff)
    next
      case (Some p)
      then have "p \<in> set d" "snd p = v"
        by (auto dest: find_SomeD)
      with uniq [of p "(k, v)"] kv have "p = (k, v)" by simp
      with Some show ?thesis by (simp add: reverse_dict_lookup)
    qed
  qed
qed

theorem reverse_dict_inverts_witness:
  "map_of (reverse_dict [(''a'', 1::nat), (''b'', 2)]) 2 = Some ''b''"
  using reverse_dict_inverts [of "[(''a'', 1::nat), (''b'', 2)]" 2 "''b''"]
  by (simp add: dict_ok_def dict_keys_def)

text \<open>The remaining helpers: the least significant bits, and transposition.\<close>

lemma lsb_mod: "lsb x n = x mod 2 ^ n"
  by (simp add: lsb_def flip: mask_eq_exp_minus_1 take_bit_eq_mask take_bit_eq_mod)

lemma reverse_reverse: "reverse (reverse s) = s"
  by (simp add: reverse_def)

end
