(* ===== verification/Topsort.thy ===== *)
theory Topsort
  imports RadUtil
begin

text \<open>
  \<^verbatim>\<open>bindings/python/topsort.py\<close>: topological sorting (one list, or a generator of
  dependency levels) and cycle finding, as used to order the modules of the binding generator.
  Each \<^verbatim>\<open>for\<close> and \<^verbatim>\<open>while\<close> loop is a function; \<^verbatim>\<open>CycleError\<close> and
  \<^verbatim>\<open>KeyError\<close> are values. A generator is modelled by the list of what it yields and the
  way it ends. The lemmas show that \<open>topsort\<close> terminates, never raises
  \<^verbatim>\<open>KeyError\<close>, and returns an ordering of all nodes in which parents precede children
  exactly when the dependency graph is acyclic; that the levels partition the nodes and
  increase along every dependency; and that \<open>find_cycles\<close> yields genuine cycles only.
\<close>

section \<open>Definitions\<close>

datatype 'a topsort_error =
    TKeyError
  | CycleError "'a list" "('a, int) dict" "('a, 'a list) dict"

text \<open>The counters: \<^verbatim>\<open>del\<close>, \<^verbatim>\<open>+=\<close> and \<^verbatim>\<open>-=\<close> raise on a missing key.\<close>

definition key_err :: "'b result \<Rightarrow> 'a topsort_error + 'b" where
  "key_err r = (case r of Inl _ \<Rightarrow> Inl TKeyError | Inr b \<Rightarrow> Inr b)"

text \<open>One turn of the loop that counts the parents and collects the children.\<close>

definition tally_pair ::
  "('a, int) dict \<times> ('a, 'a list) dict \<Rightarrow> 'a \<times> 'a \<Rightarrow>
   'a topsort_error + (('a, int) dict \<times> ('a, 'a list) dict)" where
  "tally_pair st pair =
     (let (num_parents, children) = st; (parent, child) = pair;
          np1 = (if has_key num_parents parent then num_parents
                 else AList.update parent 0 num_parents);
          np2 = (if has_key np1 child then np1 else AList.update child 0 np1)
      in rbind (key_err (dict_add np2 child 1)) (\<lambda>np3.
           Inr (np3, AList.update parent
             ((case map_of children parent of None \<Rightarrow> [] | Some cs \<Rightarrow> cs) @ [child]) children)))"

definition tally ::
  "('a \<times> 'a) list \<Rightarrow> 'a topsort_error + (('a, int) dict \<times> ('a, 'a list) dict)" where
  "tally pairlist = for_each tally_pair pairlist ([], [])"

definition no_parent :: "('a, int) dict \<Rightarrow> 'a list" where
  "no_parent num_parents = filter (\<lambda>x. map_of num_parents x = Some 0) (dict_keys num_parents)"

text \<open>
  The inner loop of \<open>topsort\<close>: knock down the parent count of each child, and append a
  child to the answer when its count reaches zero.
\<close>

fun knock_down ::
  "'a list \<Rightarrow> ('a, int) dict \<Rightarrow> 'a list \<Rightarrow> 'a topsort_error + (('a, int) dict \<times> 'a list)" where
  "knock_down [] num_parents todo = Inr (num_parents, todo)"
| "knock_down (child # cs) num_parents todo =
     rbind (key_err (dict_add num_parents child (-1))) (\<lambda>np.
       knock_down cs np (if map_of np child = Some 0 then todo @ [child] else todo))"

lemma length_knock_down:
  "knock_down cs np todo = Inr (np', todo') \<Longrightarrow> length np' = length np"
proof (induction cs arbitrary: np todo)
  case Nil
  then show ?case by simp
next
  case (Cons c cs)
  from Cons.prems obtain np1 where np1: "dict_add np c (-1) = Inr np1"
    and rest: "\<exists>t. knock_down cs np1 t = Inr (np', todo')"
    by (auto simp: rbind_eq_Inr key_err_def split: sum.splits)
  from rest Cons.IH have "length np' = length np1" by blast
  also from np1 have "length np1 = length np"
    by (auto simp: dict_add_def dict_get_def rbind_eq_Inr has_key_def length_dict_update
        split: option.splits)
  finally show ?case .
qed

text \<open>
  The loop over \<open>answer\<close>, which grows while it is iterated: \<open>visited\<close> is the part
  already iterated and \<open>todo\<close> the rest, so that the list is always \<open>visited @ todo\<close>.
  Every turn deletes a key of \<open>num_parents\<close>, so the loop ends.
\<close>

function topsort_loop ::
  "'a list \<Rightarrow> 'a list \<Rightarrow> ('a, int) dict \<Rightarrow> ('a, 'a list) dict \<Rightarrow>
   'a topsort_error + ('a list \<times> ('a, int) dict \<times> ('a, 'a list) dict)" where
  "topsort_loop visited [] num_parents children = Inr (visited, num_parents, children)"
| "topsort_loop visited (parent # todo) num_parents children =
     (case dict_del num_parents parent of
        Inl _ \<Rightarrow> Inl TKeyError
      | Inr np1 \<Rightarrow>
          (case map_of children parent of
             None \<Rightarrow> topsort_loop (visited @ [parent]) todo np1 children
           | Some cs \<Rightarrow>
               (case knock_down cs np1 todo of
                  Inl e \<Rightarrow> Inl e
                | Inr (np2, todo2) \<Rightarrow>
                    topsort_loop (visited @ [parent]) todo2 np2 (AList.delete parent children))))"
  by pat_completeness auto
termination
  by (relation "measure (\<lambda>(visited, todo, np, ch). length np)")
    (auto simp: dict_del_def length_dict_delete dest: length_knock_down split: if_splits)

definition topsort :: "('a \<times> 'a) list \<Rightarrow> 'a topsort_error + 'a list" where
  "topsort pairlist =
     rbind (tally pairlist) (\<lambda>(num_parents, children).
       rbind (topsort_loop [] (no_parent num_parents) num_parents children)
         (\<lambda>(answer, np, ch).
            if np \<noteq> [] then Inl (CycleError answer np ch) else Inr answer))"

subsection \<open>Levels\<close>

text \<open>How a generator ends: exhausted, or with an exception.\<close>

datatype 'a gen_end = StopIteration | GenCycle "('a, int) dict" "('a, 'a list) dict" | GenKeyError

fun decrement_all :: "'a list \<Rightarrow> ('a, int) dict \<Rightarrow> 'a topsort_error + ('a, int) dict" where
  "decrement_all [] num_parents = Inr num_parents"
| "decrement_all (child # cs) num_parents =
     rbind (key_err (dict_add num_parents child (-1))) (decrement_all cs)"

text \<open>The body of the inner loop: account for one item of a level.\<close>

definition remove_parent ::
  "('a, int) dict \<times> ('a, 'a list) dict \<Rightarrow> 'a \<Rightarrow>
   'a topsort_error + (('a, int) dict \<times> ('a, 'a list) dict)" where
  "remove_parent st level_parent =
     (let (num_parents, children) = st in
      rbind (key_err (dict_del num_parents level_parent)) (\<lambda>np.
        (case map_of children level_parent of
           None \<Rightarrow> Inr (np, children)
         | Some cs \<Rightarrow> rbind (decrement_all cs np) (\<lambda>np'.
             Inr (np', AList.delete level_parent children)))))"

definition remove_level ::
  "'a list \<Rightarrow> ('a, int) dict \<times> ('a, 'a list) dict \<Rightarrow>
   'a topsort_error + (('a, int) dict \<times> ('a, 'a list) dict)" where
  "remove_level level st = for_each remove_parent level st"

lemma dict_add_length: "dict_add np c n = Inr np' \<Longrightarrow> length np' = length np"
  by (auto simp: dict_add_def dict_get_def rbind_eq_Inr has_key_def length_dict_update
      split: option.splits)

lemma decrement_all_length: "decrement_all cs np = Inr np' \<Longrightarrow> length np' = length np"
proof (induction cs arbitrary: np)
  case (Cons c cs)
  then show ?case
    by (auto simp: rbind_eq_Inr key_err_def dict_add_length split: sum.splits)
qed simp

lemma remove_parent_length:
  "remove_parent (np, ch) p = Inr (np', ch') \<Longrightarrow> length np' < length np"
  by (auto simp: remove_parent_def Let_def rbind_eq_Inr key_err_def dict_del_def
      length_dict_delete split: sum.splits option.splits if_splits dest!: decrement_all_length)

lemma remove_level_length:
  "remove_level level (np, ch) = Inr (np', ch') \<Longrightarrow> length np' \<le> length np \<and>
     (level \<noteq> [] \<longrightarrow> length np' < length np)"
proof (induction level arbitrary: np ch)
  case Nil
  then show ?case by (simp add: remove_level_def)
next
  case (Cons p level)
  from Cons.prems obtain np1 ch1 where 1: "remove_parent (np, ch) p = Inr (np1, ch1)"
    and 2: "remove_level level (np1, ch1) = Inr (np', ch')"
    by (auto simp: remove_level_def rbind_eq_Inr)
  from remove_parent_length [OF 1] Cons.IH [OF 2] show ?case by auto
qed

function topsort_levels_core ::
  "('a, int) dict \<Rightarrow> ('a, 'a list) dict \<Rightarrow> 'a list list \<times> 'a gen_end" where
  "topsort_levels_core num_parents children =
     (let level_parents = no_parent num_parents in
      if level_parents = []
      then ([], if num_parents \<noteq> [] then GenCycle num_parents children else StopIteration)
      else (case remove_level level_parents (num_parents, children) of
              Inl _ \<Rightarrow> ([level_parents], GenKeyError)
            | Inr (np, ch) \<Rightarrow>
                (let (levels, fin) = topsort_levels_core np ch in (level_parents # levels, fin))))"
  by pat_completeness auto
termination
  by (relation "measure (\<lambda>(np, ch). length np)") (auto dest: remove_level_length)

declare topsort_levels_core.simps [simp del]

definition topsort_levels :: "('a \<times> 'a) list \<Rightarrow> 'a list list \<times> 'a gen_end" where
  "topsort_levels pairlist =
     (case tally pairlist of
        Inl _ \<Rightarrow> ([], GenKeyError)
      | Inr (num_parents, children) \<Rightarrow> topsort_levels_core num_parents children)"


section \<open>Counting parents\<close>

definition pair_nodes :: "('a \<times> 'a) list \<Rightarrow> 'a set" where
  "pair_nodes ps = fst ` set ps \<union> snd ` set ps"

definition children_of :: "('a \<times> 'a) list \<Rightarrow> 'a \<Rightarrow> 'a list" where
  "children_of ps p = map snd (filter (\<lambda>e. fst e = p) ps)"

text \<open>The number of dependencies of a node whose parent is outside \<open>D\<close>.\<close>

definition parents_left :: "('a \<times> 'a) list \<Rightarrow> 'a set \<Rightarrow> 'a \<Rightarrow> int" where
  "parents_left ps D x = int (length (filter (\<lambda>e. snd e = x \<and> fst e \<notin> D) ps))"

lemma finite_pair_nodes [simp]: "finite (pair_nodes ps)"
  by (simp add: pair_nodes_def)

lemma pair_nodes_pair: "(a, b) \<in> set ps \<Longrightarrow> a \<in> pair_nodes ps \<and> b \<in> pair_nodes ps"
  by (force simp: pair_nodes_def)

lemma set_children_of: "set (children_of ps p) = {c. (p, c) \<in> set ps}"
  by (force simp: children_of_def)

lemma parents_left_eq_0: "parents_left ps D x = 0 \<longleftrightarrow> (\<forall>p. (p, x) \<in> set ps \<longrightarrow> p \<in> D)"
  by (auto simp: parents_left_def filter_empty_conv)

lemma parents_left_nonneg [simp]: "0 \<le> parents_left ps D x"
  by (simp add: parents_left_def)

lemma parents_left_insert:
  "p \<notin> D \<Longrightarrow>
   parents_left ps (insert p D) x = parents_left ps D x - int (count_list (children_of ps p) x)"
  by (induction ps) (auto simp: parents_left_def children_of_def)

text \<open>
  The state after the nodes of \<open>D\<close> have been removed: exactly the other nodes are counted,
  each with the parents it has outside \<open>D\<close>, and the children of the others are all there.
\<close>

definition graph_state ::
  "('a \<times> 'a) list \<Rightarrow> 'a set \<Rightarrow> ('a, int) dict \<Rightarrow> ('a, 'a list) dict \<Rightarrow> bool" where
  "graph_state ps D np ch \<longleftrightarrow>
     dict_ok np \<and> set (dict_keys np) = pair_nodes ps - D \<and>
     (\<forall>x \<in> pair_nodes ps - D. map_of np x = Some (parents_left ps D x)) \<and>
     (\<forall>p. p \<notin> D \<longrightarrow> map_of ch p = (if children_of ps p = [] then None else Some (children_of ps p)))"

lemma graph_state_has_key: "graph_state ps D np ch \<Longrightarrow> has_key np x \<longleftrightarrow> x \<in> pair_nodes ps - D"
  by (simp add: graph_state_def has_key_iff)

lemma no_parent_graph_state:
  assumes "graph_state ps D np ch"
  shows "distinct (no_parent np)"
    and "set (no_parent np) = {x \<in> pair_nodes ps - D. parents_left ps D x = 0}"
  using assms by (auto simp: no_parent_def graph_state_def dict_ok_def)

text \<open>The first loop builds this state for \<open>D = {}\<close>, and raises no error.\<close>

lemma tally_pair_ok:
  "\<exists>np3. tally_pair (np, ch) (p, c) = Inr (np3, AList.update p
       ((case map_of ch p of None \<Rightarrow> [] | Some cs \<Rightarrow> cs) @ [c]) ch) \<and>
     (dict_ok np \<longrightarrow> dict_ok np3) \<and>
     (\<forall>x. map_of np3 x = (if x = c then Some ((case map_of np c of None \<Rightarrow> 0 | Some n \<Rightarrow> n) + 1)
        else if x = p then Some (case map_of np p of None \<Rightarrow> 0 | Some n \<Rightarrow> n) else map_of np x))"
  by (auto simp: tally_pair_def Let_def has_key_def dict_add_def dict_get_def key_err_def
      split: option.splits)

lemma tally_graph_state: "\<exists>np ch. tally ps = Inr (np, ch) \<and> graph_state ps {} np ch"
proof (induction ps rule: rev_induct)
  case Nil
  show ?case by (auto simp: tally_def graph_state_def pair_nodes_def children_of_def dict_keys_def)
next
  case (snoc e ps)
  then obtain np ch where t: "tally ps = Inr (np, ch)" and g: "graph_state ps {} np ch" by blast
  obtain p c where e: "e = (p, c)" by fastforce
  obtain np3 where t3: "tally_pair (np, ch) (p, c) = Inr (np3, AList.update p
       ((case map_of ch p of None \<Rightarrow> [] | Some cs \<Rightarrow> cs) @ [c]) ch)"
    and ok3: "dict_ok np3"
    and m3: "\<forall>x. map_of np3 x = (if x = c then Some ((case map_of np c of None \<Rightarrow> 0 | Some n \<Rightarrow> n) + 1)
        else if x = p then Some (case map_of np p of None \<Rightarrow> 0 | Some n \<Rightarrow> n) else map_of np x)"
    using tally_pair_ok [of np ch p c] g by (auto simp: graph_state_def)
  have nodes: "pair_nodes (ps @ [(p, c)]) = insert p (insert c (pair_nodes ps))"
    by (auto simp: pair_nodes_def)
  have cnt: "map_of np x = (if x \<in> pair_nodes ps then Some (parents_left ps {} x) else None)" for x
    using g by (auto simp: graph_state_def map_of_eq_None_iff dict_keys_def)
  have zero: "x \<notin> pair_nodes ps \<Longrightarrow> parents_left ps {} x = 0" for x
    by (auto simp: parents_left_eq_0 dest: pair_nodes_pair)
  have left: "parents_left (ps @ [(p, c)]) {} x = parents_left ps {} x + (if x = c then 1 else 0)" for x
    by (simp add: parents_left_def)
  have "\<forall>x. map_of np3 x = (if x \<in> pair_nodes (ps @ [(p, c)])
      then Some (parents_left (ps @ [(p, c)]) {} x) else None)"
    by (auto simp: m3 cnt zero left nodes)
  moreover from this have "set (dict_keys np3) = pair_nodes (ps @ [(p, c)])"
    by (auto simp: has_key_iff [symmetric] has_key_def split: if_splits)
  moreover have "children_of (ps @ [(p, c)]) q = children_of ps q @ (if q = p then [c] else [])" for q
    by (simp add: children_of_def)
  ultimately have "graph_state (ps @ [(p, c)]) {} np3 (AList.update p
       ((case map_of ch p of None \<Rightarrow> [] | Some cs \<Rightarrow> cs) @ [c]) ch)"
    using g ok3 by (auto simp: graph_state_def)
  with t t3 show ?case by (simp add: e tally_def for_each_append)
qed

section \<open>Removing a node\<close>

lemma decrement_all_ok:
  assumes "\<And>c. c \<in> set cs \<Longrightarrow> has_key np c"
  shows "\<exists>np'. decrement_all cs np = Inr np' \<and> dict_keys np' = dict_keys np \<and>
           (\<forall>x. map_of np' x = map_option (\<lambda>n. n - int (count_list cs x)) (map_of np x))"
  using assms
proof (induction cs arbitrary: np)
  case Nil
  then show ?case by (simp add: option.map_ident)
next
  case (Cons c cs)
  from Cons.prems [of c] obtain n where n: "map_of np c = Some n" by (auto simp: has_key_def)
  let ?np = "AList.update c (n - 1) np"
  have add: "dict_add np c (-1) = Inr ?np" using n by (simp add: dict_add_def dict_get_def)
  have keys: "dict_keys ?np = dict_keys np" using n by (simp add: dict_keys_update has_key_def)
  have "has_key ?np x" if "x \<in> set cs" for x
    using Cons.prems that by (simp add: has_key_iff keys)
  from Cons.IH [OF this] obtain np' where np': "decrement_all cs ?np = Inr np'"
    "dict_keys np' = dict_keys np"
    "\<forall>x. map_of np' x = map_option (\<lambda>n. n - int (count_list cs x)) (map_of ?np x)"
    using keys by auto
  moreover have "\<forall>x. map_of np' x = map_option (\<lambda>n. n - int (count_list (c # cs) x)) (map_of np x)"
    using np'(3) n by auto
  ultimately show ?case using add by (auto simp: key_err_def)
qed

text \<open>
  \<open>knock_down\<close> is \<open>decrement_all\<close>, and appends exactly the children that lose their
  last parent, each once.
\<close>

lemma knock_down_decrement:
  assumes "\<And>c. c \<in> set cs \<Longrightarrow> \<exists>n. map_of np c = Some n \<and> int (count_list cs c) \<le> n"
    and "decrement_all cs np = Inr np'"
  shows "\<exists>new. knock_down cs np todo = Inr (np', todo @ new) \<and> distinct new \<and>
           set new = {c \<in> set cs. map_of np' c = Some 0}"
  using assms
proof (induction cs arbitrary: np todo)
  case Nil
  then show ?case by simp
next
  case (Cons c cs)
  then obtain n where n: "map_of np c = Some n" and le: "int (count_list (c # cs) c) \<le> n"
    by (meson list.set_intros(1))
  let ?np = "AList.update c (n - 1) np"
  have add: "dict_add np c (-1) = Inr ?np" using n by (simp add: dict_add_def dict_get_def)
  have dec: "decrement_all cs ?np = Inr np'" using Cons.prems(2) add by (simp add: key_err_def)
  have pre: "\<exists>n. map_of ?np x = Some n \<and> int (count_list cs x) \<le> n" if x: "x \<in> set cs" for x
  proof (cases "x = c")
    case True
    with le show ?thesis by simp
  next
    case False
    with Cons.prems(1) [of x] x show ?thesis by auto
  qed
  have final: "map_of np' c = Some (n - 1 - int (count_list cs c))"
  proof -
    have "has_key ?np x" if "x \<in> set cs" for x using pre [OF that] by (auto simp: has_key_def)
    then show ?thesis using decrement_all_ok [of cs ?np] dec by auto
  qed
  let ?todo = "if n - 1 = 0 then todo @ [c] else todo"
  from Cons.IH [OF pre dec, of ?todo] obtain new where
    new: "knock_down cs ?np ?todo = Inr (np', ?todo @ new)" "distinct new"
      "set new = {c \<in> set cs. map_of np' c = Some 0}" by blast
  have code: "knock_down (c # cs) np todo = Inr (np', ?todo @ new)"
    using add new(1) by (simp add: key_err_def)
  show ?case
  proof (cases "n = 1")
    case True
    with le have "c \<notin> set cs" by (simp add: count_list_0_iff [symmetric])
    with True final new code show ?thesis
      by (intro exI [of _ "c # new"]) (auto simp: count_list_0_iff)
  next
    case False
    have "c \<in> set cs" if "map_of np' c = Some 0"
      using that final False by (metis count_list_0_iff diff_zero of_nat_0 option.inject right_minus_eq)
    with False new code show ?thesis by (intro exI [of _ new]) auto
  qed
qed

text \<open>A set of removed nodes is closed when it contains the parents of its members.\<close>

definition parent_closed :: "('a \<times> 'a) list \<Rightarrow> 'a set \<Rightarrow> bool" where
  "parent_closed ps D \<longleftrightarrow> (\<forall>(p, c) \<in> set ps. c \<in> D \<longrightarrow> p \<in> D)"

lemma remove_node_children:
  assumes g: "graph_state ps D np ch" and closed: "parent_closed ps D"
    and p: "p \<in> pair_nodes ps - D" and zero: "parents_left ps D p = 0"
    and c: "c \<in> set (children_of ps p)"
  shows "c \<in> pair_nodes ps - insert p D"
    and "map_of (AList.delete p np) c = Some (parents_left ps D c)"
    and "int (count_list (children_of ps p) c) \<le> parents_left ps D c"
proof -
  from c have e: "(p, c) \<in> set ps" by (simp add: set_children_of)
  with p closed have "c \<notin> D" by (auto simp: parent_closed_def)
  moreover from e zero p have "c \<noteq> p" by (auto simp: parents_left_eq_0)
  ultimately show 1: "c \<in> pair_nodes ps - insert p D" using pair_nodes_pair [OF e] by simp
  then show "map_of (AList.delete p np) c = Some (parents_left ps D c)"
    using g by (auto simp: graph_state_def)
  show "int (count_list (children_of ps p) c) \<le> parents_left ps D c"
    using p parents_left_insert [of p D ps c] parents_left_nonneg [of ps "insert p D" c] by simp
qed

lemma remove_node:
  assumes g: "graph_state ps D np ch" and closed: "parent_closed ps D"
    and p: "p \<in> pair_nodes ps - D" and zero: "parents_left ps D p = 0"
  shows "\<exists>np'. decrement_all (children_of ps p) (AList.delete p np) = Inr np' \<and>
    graph_state ps (insert p D) np' (AList.delete p ch) \<and>
    (children_of ps p = [] \<longrightarrow> graph_state ps (insert p D) np' ch)"
proof -
  note ch_facts = remove_node_children [OF g closed p zero]
  have "has_key (AList.delete p np) c" if "c \<in> set (children_of ps p)" for c
    using ch_facts(2) [OF that] unfolding has_key_def by simp
  from decrement_all_ok [OF this] obtain np' where
    np': "decrement_all (children_of ps p) (AList.delete p np) = Inr np'"
    "dict_keys np' = dict_keys (AList.delete p np)"
    "\<forall>x. map_of np' x = map_option (\<lambda>n. n - int (count_list (children_of ps p) x))
       (map_of (AList.delete p np) x)" by blast
  have "dict_ok np'" using g np'(2) dict_ok_delete [of np p] by (simp add: graph_state_def dict_ok_def)
  moreover have "set (dict_keys np') = pair_nodes ps - insert p D"
    using g np'(2) by (auto simp: graph_state_def dict_keys_delete)
  moreover have "\<forall>x \<in> pair_nodes ps - insert p D. map_of np' x = Some (parents_left ps (insert p D) x)"
    using g np'(3) p by (auto simp: graph_state_def parents_left_insert)
  ultimately show ?thesis
    using np'(1) g by (auto simp: graph_state_def)
qed


section \<open>The sorted list\<close>

definition precedes :: "'a list \<Rightarrow> 'a \<Rightarrow> 'a \<Rightarrow> bool" where
  "precedes xs a b \<longleftrightarrow> (\<exists>u v w. xs = u @ a # v @ b # w)"

text \<open>Every dependency of a list member goes to an earlier member.\<close>

definition parents_first :: "('a \<times> 'a) list \<Rightarrow> 'a list \<Rightarrow> bool" where
  "parents_first ps xs \<longleftrightarrow> (\<forall>(p, c) \<in> set ps. c \<in> set xs \<longrightarrow> precedes xs p c)"

lemma precedes_snoc: "precedes xs a b \<Longrightarrow> precedes (xs @ [x]) a b"
  by (auto simp: precedes_def) (metis append.assoc append_Cons)

lemma precedes_last: "a \<in> set xs \<Longrightarrow> precedes (xs @ [x]) a x"
proof -
  assume "a \<in> set xs"
  then obtain u v where "xs = u @ a # v" by (auto dest: split_list)
  then have "xs @ [x] = u @ a # v @ x # []" by simp
  then show ?thesis unfolding precedes_def by blast
qed

lemma parents_first_closed: "parents_first ps xs \<Longrightarrow> parent_closed ps (set xs)"
  by (fastforce simp: parents_first_def parent_closed_def precedes_def)

lemma parents_first_snoc:
  assumes "parents_first ps xs" and "parents_left ps (set xs) x = 0"
  shows "parents_first ps (xs @ [x])"
  unfolding parents_first_def
proof (clarify)
  fix p c assume e: "(p, c) \<in> set ps" and c: "c \<in> set (xs @ [x])"
  show "precedes (xs @ [x]) p c"
  proof (cases "c \<in> set xs")
    case True
    with assms(1) e show ?thesis by (auto simp: parents_first_def intro: precedes_snoc)
  next
    case False
    with c have "c = x" by simp
    with assms(2) e have "p \<in> set xs" by (auto simp: parents_left_eq_0)
    with \<open>c = x\<close> show ?thesis by (simp add: precedes_last)
  qed
qed

definition loop_inv ::
  "('a \<times> 'a) list \<Rightarrow> 'a list \<Rightarrow> 'a list \<Rightarrow> ('a, int) dict \<Rightarrow> ('a, 'a list) dict \<Rightarrow> bool" where
  "loop_inv ps V T np ch \<longleftrightarrow>
     distinct (V @ T) \<and> set V \<subseteq> pair_nodes ps \<and> graph_state ps (set V) np ch \<and>
     set T = {x \<in> pair_nodes ps - set V. parents_left ps (set V) x = 0} \<and> parents_first ps V"

text \<open>One turn of the loop keeps the invariant and raises no error.\<close>

lemma topsort_loop_turn:
  assumes inv: "loop_inv ps V (p # T) np ch"
  shows "\<exists>np' ch' T'. topsort_loop V (p # T) np ch = topsort_loop (V @ [p]) T' np' ch' \<and>
           loop_inv ps (V @ [p]) T' np' ch'"
proof -
  from inv have g: "graph_state ps (set V) np ch" and pf: "parents_first ps V"
    and p: "p \<in> pair_nodes ps - set V" and zero: "parents_left ps (set V) p = 0"
    and T: "set (p # T) = {x \<in> pair_nodes ps - set V. parents_left ps (set V) x = 0}"
    and dist: "distinct (V @ p # T)"
    by (auto simp: loop_inv_def)
  note closed = parents_first_closed [OF pf]
  have del: "dict_del np p = Inr (AList.delete p np)"
    using graph_state_has_key [OF g] p by (simp add: dict_del_def)
  obtain np' where np': "decrement_all (children_of ps p) (AList.delete p np) = Inr np'"
    and g': "graph_state ps (set (V @ [p])) np' (AList.delete p ch)"
    and g0: "children_of ps p = [] \<Longrightarrow> graph_state ps (set (V @ [p])) np' ch"
    using remove_node [OF g closed p zero] by auto
  have pre: "\<exists>n. map_of (AList.delete p np) c = Some n \<and> int (count_list (children_of ps p) c) \<le> n"
    if "c \<in> set (children_of ps p)" for c
    using remove_node_children(2,3) [OF g closed p zero that] by blast
  from knock_down_decrement [OF pre np', of T] obtain new where
    new: "knock_down (children_of ps p) (AList.delete p np) T = Inr (np', T @ new)" "distinct new"
      "set new = {c \<in> set (children_of ps p). map_of np' c = Some 0}" by blast
  have mem: "x \<in> set new \<longleftrightarrow> x \<in> pair_nodes ps - set (V @ [p]) \<and>
      parents_left ps (set (V @ [p])) x = 0 \<and> parents_left ps (set V) x \<noteq> 0" for x
  proof (cases "x \<in> set (children_of ps p)")
    case True
    have "(p, x) \<in> set ps" using True by (simp add: set_children_of)
    then have "parents_left ps (set V) x \<noteq> 0" using p by (auto simp: parents_left_eq_0)
    then show ?thesis using True remove_node_children(1) [OF g closed p zero True] g' new(3)
      by (auto simp: graph_state_def)
  next
    case False
    then have "parents_left ps (set (V @ [p])) x = parents_left ps (set V) x"
      using p parents_left_insert [of p "set V" ps x] by (simp add: count_list_0_iff)
    with False new(3) show ?thesis by auto
  qed
  have dec: "parents_left ps (set (V @ [p])) x = 0" if "parents_left ps (set V) x = 0" for x
    using that by (auto simp: parents_left_eq_0)
  have T': "set (T @ new) =
      {x \<in> pair_nodes ps - set (V @ [p]). parents_left ps (set (V @ [p])) x = 0}"
    using T mem dec dist by auto
  have "distinct ((V @ [p]) @ T @ new)"
    using dist new(2) mem T by auto
  moreover have "parents_first ps (V @ [p])" by (rule parents_first_snoc [OF pf zero])
  moreover have "set (V @ [p]) \<subseteq> pair_nodes ps" using inv p by (auto simp: loop_inv_def)
  ultimately have inv': "loop_inv ps (V @ [p]) (T @ new) np' (AList.delete p ch)"
    and inv0: "children_of ps p = [] \<Longrightarrow> loop_inv ps (V @ [p]) (T @ new) np' ch"
    using g' g0 T' unfolding loop_inv_def by blast+
  show ?thesis
  proof (cases "children_of ps p = []")
    case True
    then have "map_of ch p = None" using g p by (simp add: graph_state_def)
    with True del new(1) have "topsort_loop V (p # T) np ch = topsort_loop (V @ [p]) (T @ new) np' ch"
      by simp
    with inv0 [OF True] show ?thesis by blast
  next
    case False
    then have "map_of ch p = Some (children_of ps p)" using g p by (simp add: graph_state_def)
    with del new(1) have
      "topsort_loop V (p # T) np ch = topsort_loop (V @ [p]) (T @ new) np' (AList.delete p ch)"
      by simp
    with inv' show ?thesis by blast
  qed
qed

lemma topsort_loop_ok:
  assumes "loop_inv ps V T np ch"
  shows "\<exists>V' np' ch'. topsort_loop V T np ch = Inr (V', np', ch') \<and> loop_inv ps V' [] np' ch'"
  using assms
proof (induction "card (pair_nodes ps - set V)" arbitrary: V T np ch rule: less_induct)
  case less
  show ?case
  proof (cases T)
    case Nil
    with less.prems show ?thesis by auto
  next
    case (Cons p T1)
    with less.prems have p: "p \<in> pair_nodes ps - set V" by (auto simp: loop_inv_def)
    from topsort_loop_turn [OF less.prems [unfolded Cons]] obtain np' ch' T' where
      turn: "topsort_loop V (p # T1) np ch = topsort_loop (V @ [p]) T' np' ch'"
      and inv: "loop_inv ps (V @ [p]) T' np' ch'" by blast
    have "card (pair_nodes ps - set (V @ [p])) < card (pair_nodes ps - set V)"
      using p by (intro psubset_card_mono) auto
    from less.hyps [OF this inv] turn Cons show ?thesis by simp
  qed
qed

lemma loop_inv_start:
  assumes "graph_state ps {} np ch"
  shows "loop_inv ps [] (no_parent np) np ch"
  using assms no_parent_graph_state [OF assms] by (simp add: loop_inv_def parents_first_def)

lemma topsort_outcome:
  "\<exists>V np ch. loop_inv ps V [] np ch \<and>
     topsort ps = (if np \<noteq> [] then Inl (CycleError V np ch) else Inr V)"
proof -
  obtain np ch where t: "tally ps = Inr (np, ch)" and g: "graph_state ps {} np ch"
    using tally_graph_state by blast
  from topsort_loop_ok [OF loop_inv_start [OF g]] obtain V np' ch' where
    "topsort_loop [] (no_parent np) np ch = Inr (V, np', ch')" "loop_inv ps V [] np' ch'" by blast
  with t show ?thesis by (auto simp: topsort_def)
qed


text \<open>
  In a finite graph, a non-empty set of nodes in which every node has a parent contains a cycle.
\<close>

lemma cycle_if_all_have_parents:
  assumes "x \<in> S" and "\<And>x. x \<in> S \<Longrightarrow> \<exists>y \<in> S. (y, x) \<in> set ps"
  shows "\<not> acyclic (set ps)"
proof
  assume "acyclic (set ps)"
  then have "wf (set ps)" by (simp add: finite_acyclic_wf)
  then obtain z where "z \<in> S" "\<forall>y. (y, z) \<in> set ps \<longrightarrow> y \<notin> S"
    using assms(1) by (meson wfE_min)
  with assms(2) show False by blast
qed

definition position :: "'a list \<Rightarrow> 'a \<Rightarrow> nat" where
  "position xs x = length (takeWhile (\<lambda>y. y \<noteq> x) xs)"

lemma position_precedes: "distinct xs \<Longrightarrow> precedes xs a b \<Longrightarrow> position xs a < position xs b"
proof -
  assume "distinct xs" and "precedes xs a b"
  then obtain u v w where xs: "xs = u @ a # v @ b # w" and d: "distinct (u @ a # v @ b # w)"
    by (auto simp: precedes_def)
  then have "takeWhile (\<lambda>y. y \<noteq> a) xs = u" "takeWhile (\<lambda>y. y \<noteq> b) xs = u @ a # v"
    by (auto simp: takeWhile_append takeWhile_eq_all_conv)
  then show ?thesis by (simp add: position_def)
qed

lemma acyclic_if_increasing:
  assumes "\<And>a b. (a, b) \<in> set ps \<Longrightarrow> (f a :: nat) < f b"
  shows "acyclic (set ps)"
proof (rule acyclicI, rule allI, rule notI)
  have mono: "(a, b) \<in> (set ps)\<^sup>+ \<Longrightarrow> f a < f b" for a b
    by (induction rule: trancl_induct) (auto dest: assms)
  fix x assume "(x, x) \<in> (set ps)\<^sup>+"
  then show False using mono [of x x] by simp
qed

lemma loop_inv_final:
  assumes inv: "loop_inv ps V [] np ch"
  shows "np = [] \<longleftrightarrow> set V = pair_nodes ps"
    and "np \<noteq> [] \<Longrightarrow> \<not> acyclic (set ps)"
    and "np = [] \<Longrightarrow> acyclic (set ps)"
proof -
  have keys: "set (dict_keys np) = pair_nodes ps - set V"
    using inv by (simp add: loop_inv_def graph_state_def)
  show eq: "np = [] \<longleftrightarrow> set V = pair_nodes ps"
    using keys inv by (auto simp: dict_keys_def loop_inv_def)
  have parent: "\<exists>y \<in> pair_nodes ps - set V. (y, x) \<in> set ps" if "x \<in> pair_nodes ps - set V" for x
  proof -
    from inv that have "parents_left ps (set V) x \<noteq> 0" by (auto simp: loop_inv_def)
    then obtain y where "(y, x) \<in> set ps" "y \<notin> set V" by (auto simp: parents_left_eq_0)
    then show ?thesis using pair_nodes_pair by fastforce
  qed
  show "\<not> acyclic (set ps)" if "np \<noteq> []"
  proof -
    from that keys obtain x where "x \<in> pair_nodes ps - set V"
      by (metis dict_keys_def equals0I length_0_conv length_map list.set(2) neq_Nil_conv insertI1)
    then show ?thesis using parent by (rule cycle_if_all_have_parents)
  qed
  show "acyclic (set ps)" if "np = []"
  proof (rule acyclic_if_increasing)
    fix a b assume "(a, b) \<in> set ps"
    with inv eq that have "precedes V a b"
      by (auto simp: loop_inv_def parents_first_def dest: pair_nodes_pair)
    then show "position V a < position V b"
      using inv by (auto simp: loop_inv_def intro: position_precedes)
  qed
qed

text \<open>
  C6: when \<open>topsort\<close> returns a list, the list contains every element that occurs in a
  pair exactly once, and every parent stands before each of its children.
\<close>

theorem topsort_sound:
  assumes "topsort pairlist = Inr answer"
  shows "distinct answer \<and> set answer = fst ` set pairlist \<union> snd ` set pairlist \<and>
         (\<forall>(parent, child) \<in> set pairlist. precedes answer parent child)"
proof -
  obtain V np ch where inv: "loop_inv pairlist V [] np ch"
    and out: "topsort pairlist = (if np \<noteq> [] then Inl (CycleError V np ch) else Inr V)"
    using topsort_outcome by blast
  from out assms have np: "np = []" and V: "answer = V" by (auto split: if_splits)
  have all: "set V = pair_nodes pairlist" using np loop_inv_final(1) [OF inv] by simp
  have "precedes V p c" if "(p, c) \<in> set pairlist" for p c
    using inv that all pair_nodes_pair [OF that] by (auto simp: loop_inv_def parents_first_def)
  moreover have "distinct V" using inv by (simp add: loop_inv_def)
  ultimately show ?thesis using all V by (auto simp: pair_nodes_def)
qed

theorem topsort_sound_witness:
  "distinct [1::nat, 2, 3] \<and> precedes [1::nat, 2, 3] 1 3"
proof -
  have t: "topsort [(1::nat, 2), (1, 3), (2, 3)] = Inr [1, 2, 3]" by code_simp
  from topsort_sound [OF t] show ?thesis by simp
qed

text \<open>
  C7: \<open>topsort\<close> always terminates and never raises \<^verbatim>\<open>KeyError\<close>: it returns
  a list exactly when the dependency relation is acyclic, and otherwise raises
  \<^verbatim>\<open>CycleError\<close> with the elements sorted so far and, for each element that could
  not be sorted, the positive number of its unsorted parents.
\<close>

theorem topsort_complete:
  "if acyclic (set pairlist) then (\<exists>answer. topsort pairlist = Inr answer)
   else (\<exists>answer np ch. topsort pairlist = Inl (CycleError answer np ch) \<and> np \<noteq> [] \<and>
           set (dict_keys np) = (fst ` set pairlist \<union> snd ` set pairlist) - set answer \<and>
           (\<forall>(x, n) \<in> set np. 0 < n))"
proof -
  obtain V np ch where inv: "loop_inv pairlist V [] np ch"
    and out: "topsort pairlist = (if np \<noteq> [] then Inl (CycleError V np ch) else Inr V)"
    using topsort_outcome by blast
  show ?thesis
  proof (cases "np = []")
    case True
    with loop_inv_final(3) [OF inv] out show ?thesis by auto
  next
    case False
    have pos: "0 < n" if "(x, n) \<in> set np" for x n
    proof -
      from inv have ok: "distinct (map fst np)" and keys: "set (dict_keys np) = pair_nodes pairlist - set V"
        by (auto simp: loop_inv_def graph_state_def dict_ok_def dict_keys_def)
      from that keys have x: "x \<in> pair_nodes pairlist - set V" by (force simp: dict_keys_def)
      moreover have "map_of np x = Some n" using ok that by simp
      ultimately have "n = parents_left pairlist (set V) x"
        using inv by (auto simp: loop_inv_def graph_state_def)
      moreover have "parents_left pairlist (set V) x \<noteq> 0" using inv x by (auto simp: loop_inv_def)
      ultimately show ?thesis using parents_left_nonneg [of pairlist "set V" x] by linarith
    qed
    have "set (dict_keys np) = (fst ` set pairlist \<union> snd ` set pairlist) - set V"
      using inv by (simp add: loop_inv_def graph_state_def pair_nodes_def)
    with False pos loop_inv_final(2) [OF inv] out show ?thesis by auto
  qed
qed


theorem topsort_complete_witness:
  "topsort [(1::nat, 2), (2, 3), (3, 2)] =
     Inl (CycleError [1] [(2, 1), (3, 1)] [(2, [3]), (3, [2])]) \<and>
   \<not> acyclic (set [(1::nat, 2), (2, 3), (3, 2)])"
proof -
  have t: "topsort [(1::nat, 2), (2, 3), (3, 2)] =
      Inl (CycleError [1] [(2, 1), (3, 1)] [(2, [3]), (3, [2])])" by code_simp
  then show ?thesis using topsort_complete [of "[(1::nat, 2), (2, 3), (3, 2)]"]
    by (auto simp del: set_simps)
qed

section \<open>The levels\<close>

lemma remove_parent_ok:
  assumes g: "graph_state ps D np ch" and closed: "parent_closed ps D"
    and p: "p \<in> pair_nodes ps - D" and zero: "parents_left ps D p = 0"
  shows "\<exists>np' ch'. remove_parent (np, ch) p = Inr (np', ch') \<and> graph_state ps (insert p D) np' ch'"
proof -
  have del: "dict_del np p = Inr (AList.delete p np)"
    using graph_state_has_key [OF g] p by (simp add: dict_del_def)
  obtain np' where np': "decrement_all (children_of ps p) (AList.delete p np) = Inr np'"
    "graph_state ps (insert p D) np' (AList.delete p ch)"
    "children_of ps p = [] \<longrightarrow> graph_state ps (insert p D) np' ch"
    using remove_node [OF g closed p zero] by blast
  moreover have "map_of ch p = (if children_of ps p = [] then None else Some (children_of ps p))"
    using g p by (simp add: graph_state_def)
  ultimately show ?thesis using del by (cases "children_of ps p = []") (auto simp: remove_parent_def key_err_def)
qed

lemma parent_closed_insert:
  "parent_closed ps D \<Longrightarrow> parents_left ps D p = 0 \<Longrightarrow> parent_closed ps (insert p D)"
  by (auto simp: parent_closed_def parents_left_eq_0)

lemma remove_level_ok:
  assumes "graph_state ps D np ch" and "parent_closed ps D" and "distinct level"
    and "\<And>p. p \<in> set level \<Longrightarrow> p \<in> pair_nodes ps - D \<and> parents_left ps D p = 0"
  shows "\<exists>np' ch'. remove_level level (np, ch) = Inr (np', ch') \<and>
           graph_state ps (D \<union> set level) np' ch' \<and> parent_closed ps (D \<union> set level)"
  using assms
proof (induction level arbitrary: D np ch)
  case Nil
  then show ?case by (simp add: remove_level_def)
next
  case (Cons p level)
  then have p: "p \<in> pair_nodes ps - D" "parents_left ps D p = 0" by auto
  from remove_parent_ok [OF Cons.prems(1,2) p] obtain np1 ch1 where
    1: "remove_parent (np, ch) p = Inr (np1, ch1)" "graph_state ps (insert p D) np1 ch1" by blast
  have c: "parent_closed ps (insert p D)" using Cons.prems(2) p(2) by (rule parent_closed_insert)
  have "q \<in> pair_nodes ps - insert p D \<and> parents_left ps (insert p D) q = 0" if "q \<in> set level" for q
    using Cons.prems(3) Cons.prems(4) [of q] that by (auto simp: parents_left_eq_0)
  from Cons.IH [OF 1(2) c _ this] Cons.prems(3) 1(1) show ?case
    by (auto simp: remove_level_def)
qed

text \<open>
  The specification of the levels after the nodes \<open>D\<close>: each level is exactly the set of
  remaining nodes all of whose parents are in \<open>D\<close> or an earlier level.
\<close>

fun level_spec :: "('a \<times> 'a) list \<Rightarrow> 'a set \<Rightarrow> 'a list list \<Rightarrow> bool" where
  "level_spec ps D [] = True"
| "level_spec ps D (level # levels) =
     (level \<noteq> [] \<and> distinct level \<and>
      set level = {x \<in> pair_nodes ps - D. \<forall>p. (p, x) \<in> set ps \<longrightarrow> p \<in> D} \<and>
      level_spec ps (D \<union> set level) levels)"

definition all_parents_in :: "('a \<times> 'a) list \<Rightarrow> 'a set \<Rightarrow> 'a set" where
  "all_parents_in ps D = {x \<in> pair_nodes ps - D. \<forall>p. (p, x) \<in> set ps \<longrightarrow> p \<in> D}"

lemma levels_core_ok:
  assumes "graph_state ps D np ch" and "parent_closed ps D" and "D \<subseteq> pair_nodes ps"
  shows "\<exists>levels fin. topsort_levels_core np ch = (levels, fin) \<and> level_spec ps D levels \<and>
    (let R = D \<union> set (concat levels) in
     all_parents_in ps R = {} \<and> R \<subseteq> pair_nodes ps \<and> parent_closed ps R \<and>
     (if R = pair_nodes ps then fin = StopIteration else \<exists>np' ch'. fin = GenCycle np' ch' \<and> np' \<noteq> []))"
  using assms
proof (induction "card (pair_nodes ps - D)" arbitrary: D np ch rule: less_induct)
  case less
  let ?L = "no_parent np"
  note L = no_parent_graph_state [OF less.prems(1)]
  have set_L: "set ?L = all_parents_in ps D" by (simp add: L(2) all_parents_in_def parents_left_eq_0)
  have keys: "set (dict_keys np) = pair_nodes ps - D"
    using less.prems(1) by (simp add: graph_state_def)
  have empty_iff: "np = [] \<longleftrightarrow> D = pair_nodes ps"
    using keys less.prems(3) by (auto simp: dict_keys_def)
  show ?case
  proof (cases "?L = []")
    case True
    then have "topsort_levels_core np ch =
        ([], if np \<noteq> [] then GenCycle np ch else StopIteration)"
      by (simp add: topsort_levels_core.simps [of np ch])
    with True set_L empty_iff less.prems show ?thesis by (auto simp: Let_def)
  next
    case False
    have mem: "p \<in> pair_nodes ps - D \<and> parents_left ps D p = 0" if "p \<in> set ?L" for p
      using that L(2) by simp
    from remove_level_ok [OF less.prems(1,2) L(1) mem] obtain np' ch' where
      r: "remove_level ?L (np, ch) = Inr (np', ch')" "graph_state ps (D \<union> set ?L) np' ch'"
      "parent_closed ps (D \<union> set ?L)" by blast
    have sub: "D \<union> set ?L \<subseteq> pair_nodes ps" using less.prems(3) L(2) by auto
    have "card (pair_nodes ps - (D \<union> set ?L)) < card (pair_nodes ps - D)"
      using False L(2) by (intro psubset_card_mono) (auto simp: filter_empty_conv neq_Nil_conv)
    from less.hyps [OF this r(2,3) sub] obtain levels fin where
      IH: "topsort_levels_core np' ch' = (levels, fin)" "level_spec ps (D \<union> set ?L) levels"
      "let R = (D \<union> set ?L) \<union> set (concat levels) in
       all_parents_in ps R = {} \<and> R \<subseteq> pair_nodes ps \<and> parent_closed ps R \<and>
       (if R = pair_nodes ps then fin = StopIteration else \<exists>np' ch'. fin = GenCycle np' ch' \<and> np' \<noteq> [])"
      by blast
    have "topsort_levels_core np ch = (?L # levels, fin)"
      using False r(1) IH(1) by (simp add: topsort_levels_core.simps [of np ch])
    moreover have "level_spec ps D (?L # levels)"
      using False L set_L IH(2) by (simp add: all_parents_in_def)
    moreover have "D \<union> set (concat (?L # levels)) = (D \<union> set ?L) \<union> set (concat levels)" by auto
    ultimately show ?thesis using IH(3) by (metis (no_types, lifting))
  qed
qed


lemma level_spec_nth:
  "level_spec ps D levels \<Longrightarrow> i < length levels \<Longrightarrow>
   levels ! i \<noteq> [] \<and> set (levels ! i) = all_parents_in ps (D \<union> set (concat (take i levels)))"
proof (induction levels arbitrary: D i)
  case (Cons l ls)
  show ?case
  proof (cases i)
    case 0
    with Cons.prems show ?thesis by (simp add: all_parents_in_def)
  next
    case (Suc j)
    from Cons.prems(1) have "level_spec ps (D \<union> set l) ls" unfolding level_spec.simps by blast
    from Cons.IH [OF this, of j] Cons.prems(2) Suc show ?thesis by (simp add: Un_assoc)
  qed
qed simp

lemma level_spec_distinct:
  "level_spec ps D levels \<Longrightarrow> distinct (concat levels) \<and> set (concat levels) \<inter> D = {}"
proof (induction levels arbitrary: D)
  case (Cons l ls)
  from Cons.prems have "level_spec ps (D \<union> set l) ls" unfolding level_spec.simps by blast
  from Cons.IH [OF this] Cons.prems show ?case by auto
qed simp

lemma level_spec_precedes:
  assumes spec: "level_spec ps {} levels" and e: "(p, c) \<in> set ps" and c: "c \<in> set (concat levels)"
  shows "precedes (concat levels) p c"
proof -
  from c obtain i where i: "i < length levels" "c \<in> set (levels ! i)"
    by (metis (no_types, lifting) in_set_conv_nth set_concat UN_iff)
  then have "p \<in> set (concat (take i levels))"
    using level_spec_nth [OF spec i(1)] e by (auto simp: all_parents_in_def)
  then obtain u v where u: "concat (take i levels) = u @ p # v" by (meson split_list)
  obtain s t where s: "levels ! i = s @ c # t" using i(2) by (meson split_list)
  have "levels = take i levels @ levels ! i # drop (Suc i) levels" using i(1) by (rule id_take_nth_drop)
  then have "concat levels = concat (take i levels) @ levels ! i @ concat (drop (Suc i) levels)"
    by (metis concat.simps(2) concat_append)
  with u s have "concat levels = u @ p # (v @ s) @ c # (t @ concat (drop (Suc i) levels))" by simp
  then show ?thesis unfolding precedes_def by blast
qed

text \<open>
  The generator \<open>topsort_levels\<close> never raises \<^verbatim>\<open>KeyError\<close>. Its
  levels are non-empty and disjoint, and level \<open>i\<close> is exactly the set of the elements not
  in an earlier level all of whose parents are in earlier levels. It ends normally, with every
  element in some level, exactly when the dependency relation is acyclic; otherwise it ends with
  \<^verbatim>\<open>CycleError\<close>.
\<close>

theorem topsort_levels_correct:
  "case topsort_levels ps of (levels, fin) \<Rightarrow>
     distinct (concat levels) \<and>
     (\<forall>i < length levels. levels ! i \<noteq> [] \<and>
        set (levels ! i) = {x \<in> fst ` set ps \<union> snd ` set ps - set (concat (take i levels)).
                              \<forall>p. (p, x) \<in> set ps \<longrightarrow> p \<in> set (concat (take i levels))}) \<and>
     (if acyclic (set ps) then fin = StopIteration \<and> set (concat levels) = fst ` set ps \<union> snd ` set ps
      else (\<exists>np ch. fin = GenCycle np ch \<and> np \<noteq> []))"
proof -
  obtain np ch where t: "tally ps = Inr (np, ch)" and g: "graph_state ps {} np ch"
    using tally_graph_state by blast
  have "parent_closed ps {}" by (simp add: parent_closed_def)
  from levels_core_ok [OF g this] obtain levels fin where
    core: "topsort_levels_core np ch = (levels, fin)" and spec: "level_spec ps {} levels"
    and none: "all_parents_in ps (set (concat levels)) = {}"
    and sub: "set (concat levels) \<subseteq> pair_nodes ps"
    and fin: "if set (concat levels) = pair_nodes ps then fin = StopIteration
              else \<exists>np' ch'. fin = GenCycle np' ch' \<and> np' \<noteq> []"
    by (auto simp: Let_def simp del: set_concat)
  have run: "topsort_levels ps = (levels, fin)" using t core by (simp add: topsort_levels_def)
  have acyc: "acyclic (set ps) \<longleftrightarrow> set (concat levels) = pair_nodes ps"
  proof
    assume a: "acyclic (set ps)"
    have "\<exists>y \<in> pair_nodes ps - set (concat levels). (y, x) \<in> set ps"
      if "x \<in> pair_nodes ps - set (concat levels)" for x
      using none that pair_nodes_pair [of _ x ps] unfolding all_parents_in_def by blast
    then have "pair_nodes ps - set (concat levels) = {}"
      using cycle_if_all_have_parents [of _ "pair_nodes ps - set (concat levels)" ps] a by blast
    with sub show "set (concat levels) = pair_nodes ps" by blast
  next
    assume all: "set (concat levels) = pair_nodes ps"
    show "acyclic (set ps)"
    proof (rule acyclic_if_increasing)
      fix a b assume "(a, b) \<in> set ps"
      then have "precedes (concat levels) a b"
        using level_spec_precedes [OF spec] all pair_nodes_pair by fastforce
      then show "position (concat levels) a < position (concat levels) b"
        using level_spec_distinct [OF spec] by (blast intro: position_precedes)
    qed
  qed
  have "\<forall>i < length levels. levels ! i \<noteq> [] \<and> set (levels ! i) = all_parents_in ps (set (concat (take i levels)))"
    using level_spec_nth [OF spec] by simp
  then show ?thesis
    using run level_spec_distinct [OF spec] fin acyc
    by (auto simp: all_parents_in_def pair_nodes_def simp del: set_concat split: if_splits)
qed

theorem topsort_levels_correct_witness:
  "topsort_levels [(1::nat, 2), (1, 3), (2, 3)] = ([[1], [2], [3]], StopIteration) \<and>
   distinct (concat [[1::nat], [2], [3]])"
proof -
  have t: "topsort_levels [(1::nat, 2), (1, 3), (2, 3)] = ([[1], [2], [3]], StopIteration)"
    by code_simp
  show ?thesis
    using topsort_levels_correct [of "[(1::nat, 2), (1, 3), (2, 3)]"] t by (simp del: set_concat)
qed

end
