(* ===== verification/FindCycles.thy ===== *)
theory FindCycles
  imports Topsort
begin

text \<open>
  \<^verbatim>\<open>find_cycles\<close> of \<^verbatim>\<open>bindings/python/topsort.py\<close>: a depth-first search over an
  explicit stack of paths that yields every elementary cycle of a dependency dictionary once up
  to rotation (rotations are recognised by \<open>is_rotated\<close> of \<open>RadUtil\<close>). The generator
  is modelled by the list \<^verbatim>\<open>cycles\<close> that it maintains, which holds what it has yielded,
  in order. The stack has its top at the head of the list. The lemmas show termination, that no
  exception is raised, soundness, the absence of duplicates, and completeness.
\<close>

section \<open>Definitions\<close>

text \<open>The inner loop over the cycles found so far, left at the first rotation of the new one.\<close>

fun is_dup :: "'a list list \<Rightarrow> 'a list \<Rightarrow> bool result" where
  "is_dup [] cycle = Inr False"
| "is_dup (other_cycle # cycles) cycle =
     rbind (is_rotated other_cycle cycle) (\<lambda>b. if b then Inr True else is_dup cycles cycle)"

text \<open>The state of the generator: the cycles, the visited nodes and the stack of paths.\<close>

record 'a finder =
  cycles :: "'a list list"
  visited_nodes :: "'a list"
  paths :: "'a list list"

definition visit_child :: "'a list \<Rightarrow> 'a finder \<Rightarrow> 'a \<Rightarrow> 'a finder result" where
  "visit_child path st child =
     (if child \<in> set path
      then let cycle = dropWhile (\<lambda>x. x \<noteq> child) path in
           rbind (is_dup (cycles st) cycle) (\<lambda>dup.
             Inr (if dup then st else st\<lparr>cycles := cycles st @ [cycle]\<rparr>))
      else Inr (st\<lparr>paths := (path @ [child]) # paths st,
                   visited_nodes := child # visited_nodes st\<rparr>))"

definition visit_children :: "'a list \<Rightarrow> 'a list \<Rightarrow> 'a finder \<Rightarrow> 'a finder result" where
  "visit_children path children st = for_each (visit_child path) children st"

text \<open>The body of the \<^verbatim>\<open>while\<close> loop, for the path popped from the stack.\<close>

definition search_step :: "('a, 'a list) dict \<Rightarrow> 'a list \<Rightarrow> 'a finder \<Rightarrow> 'a finder result" where
  "search_step parent_children path st =
     rbind (py_index path (-1)) (\<lambda>parent.
       case map_of parent_children parent of
         None \<Rightarrow> Inr st
       | Some children \<Rightarrow> visit_children path children st)"

definition dict_nodes :: "('a, 'a list) dict \<Rightarrow> 'a set" where
  "dict_nodes d = set (dict_keys d) \<union> (\<Union>cs \<in> snd ` set d. set cs)"

definition out_degree :: "('a, 'a list) dict \<Rightarrow> nat" where
  "out_degree d = sum_list (map (\<lambda>e. length (snd e)) d)"

text \<open>
  The termination measure: a path weighs \<open>(B + 1) ^ k\<close>, where \<open>k\<close> nodes are not on it and
  \<open>B\<close> bounds the number of children.
\<close>

definition path_weight :: "('a, 'a list) dict \<Rightarrow> 'a list \<Rightarrow> nat" where
  "path_weight d path = Suc (out_degree d) ^ card (dict_nodes d - set path)"

definition stack_weight :: "('a, 'a list) dict \<Rightarrow> 'a list list \<Rightarrow> nat" where
  "stack_weight d ps = sum_list (map (path_weight d) ps)"

lemma stack_weight_append: "stack_weight d (xs @ ys) = stack_weight d xs + stack_weight d ys"
  by (simp add: stack_weight_def)

lemma stack_weight_rev: "stack_weight d (rev xs) = stack_weight d xs"
  by (induction xs) (simp_all add: stack_weight_append, simp add: stack_weight_def)

lemma py_index_last: "path \<noteq> [] \<Longrightarrow> py_index path (-1) = Inr (last path)"
  by (cases path rule: rev_cases) (auto simp: py_index_def nth_append)

lemma py_index_last_Inr: "py_index path (-1) = Inr x \<Longrightarrow> path \<noteq> [] \<and> x = last path"
  using py_index_last [of path] by (cases "path = []") (simp_all add: py_index_def)

lemma visit_children_paths:
  "visit_children path cs st = Inr st' \<Longrightarrow>
   paths st' = rev (map (\<lambda>c. path @ [c]) (filter (\<lambda>c. c \<notin> set path) cs)) @ paths st"
proof (induction cs arbitrary: st)
  case Nil
  then show ?case by (simp add: visit_children_def)
next
  case (Cons c cs)
  from Cons.prems obtain st1 where 1: "visit_child path st c = Inr st1"
    and 2: "visit_children path cs st1 = Inr st'"
    by (auto simp: visit_children_def rbind_eq_Inr)
  from 1 have "paths st1 = (if c \<in> set path then paths st else (path @ [c]) # paths st)"
    by (auto simp: visit_child_def Let_def rbind_eq_Inr split: if_splits)
  with Cons.IH [OF 2] show ?case by simp
qed

lemma finite_dict_nodes [simp]: "finite (dict_nodes d)"
  by (simp add: dict_nodes_def)

lemma out_degree_bound: "map_of d p = Some cs \<Longrightarrow> length cs \<le> out_degree d"
  unfolding out_degree_def
  by (metis (no_types, lifting) elem_le_sum_list in_set_conv_nth length_map map_of_SomeD nth_map snd_conv)

lemma children_in_dict_nodes: "map_of d p = Some cs \<Longrightarrow> c \<in> set cs \<Longrightarrow> c \<in> dict_nodes d"
  by (auto simp: dict_nodes_def dest!: map_of_SomeD intro!: bexI)

lemma pushed_weight:
  assumes "map_of d p = Some cs"
  shows "stack_weight d (map (\<lambda>c. path @ [c]) (filter (\<lambda>c. c \<notin> set path) cs)) < path_weight d path"
proof -
  let ?k = "card (dict_nodes d - set path)"
  let ?B = "out_degree d"
  let ?new = "filter (\<lambda>c. c \<notin> set path) cs"
  have w: "Suc ?B * path_weight d (path @ [c]) = path_weight d path" if "c \<in> set ?new" for c
  proof -
    from that assms have c: "c \<in> dict_nodes d - set path" by (auto dest: children_in_dict_nodes)
    then have "?k = Suc (card (dict_nodes d - set path - {c}))"
      by (intro card_Suc_Diff1 [symmetric]) auto
    moreover have "dict_nodes d - set (path @ [c]) = dict_nodes d - set path - {c}" by auto
    ultimately show ?thesis by (simp add: path_weight_def)
  qed
  have "Suc ?B * stack_weight d (map (\<lambda>c. path @ [c]) ?new) = length ?new * path_weight d path"
  proof -
    have "Suc ?B * sum_list (map f xs) = sum_list (map (\<lambda>c. Suc ?B * f c) xs)" for f :: "'a \<Rightarrow> nat" and xs
      by (rule sum_list_const_mult [symmetric])
    then have "Suc ?B * stack_weight d (map (\<lambda>c. path @ [c]) ?new) =
        sum_list (map (\<lambda>c. Suc ?B * path_weight d (path @ [c])) ?new)"
      by (simp only: stack_weight_def map_map comp_def)
    also have "\<dots> = sum_list (map (\<lambda>c. path_weight d path) ?new)"
      using w by (intro arg_cong [where f = sum_list] map_cong refl)
    finally show ?thesis by (simp add: sum_list_triv)
  qed
  also have "\<dots> \<le> ?B * path_weight d path"
    using out_degree_bound [OF assms] length_filter_le [of "\<lambda>c. c \<notin> set path" cs]
    by (intro mult_right_mono) linarith+
  also have "\<dots> < Suc ?B * path_weight d path" by (simp add: path_weight_def)
  finally show ?thesis by (simp only: nat_mult_less_cancel1 mult_less_cancel1)
qed

lemma search_step_weight:
  assumes "search_step d path (st\<lparr>paths := rest\<rparr>) = Inr st'"
  shows "stack_weight d (paths st') < stack_weight d (path # rest)"
proof -
  have pos: "0 < path_weight d path" by (simp add: path_weight_def)
  from assms obtain p where
    r: "(case map_of d p of None \<Rightarrow> Inr (st\<lparr>paths := rest\<rparr>)
         | Some children \<Rightarrow> visit_children path children (st\<lparr>paths := rest\<rparr>)) = Inr st'"
    by (auto simp: search_step_def rbind_eq_Inr)
  show ?thesis
  proof (cases "map_of d p")
    case None
    with r pos show ?thesis by (auto simp: stack_weight_def)
  next
    case (Some cs)
    with r have "paths st' = rev (map (\<lambda>c. path @ [c]) (filter (\<lambda>c. c \<notin> set path) cs)) @ rest"
      using visit_children_paths by fastforce
    then have "stack_weight d (paths st') =
        stack_weight d (map (\<lambda>c. path @ [c]) (filter (\<lambda>c. c \<notin> set path) cs)) + stack_weight d rest"
      by (simp add: stack_weight_append stack_weight_rev del: rev_map)
    with pushed_weight [OF Some, of path] show ?thesis by (simp add: stack_weight_def)
  qed
qed

function search_paths :: "('a, 'a list) dict \<Rightarrow> 'a finder \<Rightarrow> 'a finder result" where
  "search_paths parent_children st =
     (case paths st of
        [] \<Rightarrow> Inr st
      | path # rest \<Rightarrow>
          (case search_step parent_children path (st\<lparr>paths := rest\<rparr>) of
             Inl e \<Rightarrow> Inl e
           | Inr st' \<Rightarrow> search_paths parent_children st'))"
  by pat_completeness auto
termination
  by (relation "measure (\<lambda>(d, st). stack_weight d (paths st))") (auto dest: search_step_weight)

declare search_paths.simps [simp del]

text \<open>One turn of the outer loop: start from a parent that is on no traversed path.\<close>

definition search_from :: "('a, 'a list) dict \<Rightarrow> 'a finder \<Rightarrow> 'a \<Rightarrow> 'a finder result" where
  "search_from parent_children st parent =
     (if parent \<in> set (visited_nodes st) then Inr st
      else search_paths parent_children (st\<lparr>paths := [[parent]]\<rparr>))"

definition find_cycles :: "('a, 'a list) dict \<Rightarrow> 'a list list result" where
  "find_cycles parent_children =
     rbind (for_each (search_from parent_children) (dict_keys parent_children)
              \<lparr>cycles = [], visited_nodes = [], paths = []\<rparr>)
       (\<lambda>st. Inr (cycles st))"


section \<open>Walks and cycles\<close>

definition edge :: "('a, 'a list) dict \<Rightarrow> 'a \<Rightarrow> 'a \<Rightarrow> bool" where
  "edge d a b \<longleftrightarrow> (\<exists>cs. map_of d a = Some cs \<and> b \<in> set cs)"

text \<open>An elementary cycle: distinct nodes, each a parent of the next and the last of the first.\<close>

definition is_cycle :: "('a, 'a list) dict \<Rightarrow> 'a list \<Rightarrow> bool" where
  "is_cycle d c \<longleftrightarrow> c \<noteq> [] \<and> distinct c \<and> successively (edge d) c \<and> edge d (last c) (hd c)"

definition simple_walk :: "('a, 'a list) dict \<Rightarrow> 'a \<Rightarrow> 'a list \<Rightarrow> bool" where
  "simple_walk d s w \<longleftrightarrow> w \<noteq> [] \<and> hd w = s \<and> distinct w \<and> successively (edge d) w"

definition recorded :: "'a list list \<Rightarrow> 'a list \<Rightarrow> bool" where
  "recorded cs c \<longleftrightarrow> (\<exists>c' \<in> set cs. \<exists>k. c = rotate k c')"

text \<open>All cycles that close at the end of the walk \<open>w\<close> have been found.\<close>

definition closes :: "('a, 'a list) dict \<Rightarrow> 'a list list \<Rightarrow> 'a list \<Rightarrow> bool" where
  "closes d cs w \<longleftrightarrow>
     (\<forall>c. edge d (last w) c \<longrightarrow> c \<in> set w \<longrightarrow> recorded cs (dropWhile (\<lambda>x. x \<noteq> c) w))"

lemma recorded_mono: "recorded cs c \<Longrightarrow> set cs \<subseteq> set cs' \<Longrightarrow> recorded cs' c"
  by (auto simp: recorded_def)

lemma closes_mono: "closes d cs w \<Longrightarrow> set cs \<subseteq> set cs' \<Longrightarrow> closes d cs' w"
  by (meson closes_def recorded_mono)

lemma is_dup_recorded: "cycle \<noteq> [] \<Longrightarrow> is_dup cs cycle = Inr (recorded cs cycle)"
  by (induction cs) (auto simp: recorded_def is_rotated_correct)

lemma dropWhile_walk:
  assumes "simple_walk d s w" and "c \<in> set w" and "edge d (last w) c"
  shows "is_cycle d (dropWhile (\<lambda>x. x \<noteq> c) w)"
proof -
  from assms(2) obtain u v where w: "w = u @ c # v" and u: "c \<notin> set u"
    by (meson split_list_first)
  then have "dropWhile (\<lambda>x. x \<noteq> c) w = c # v" by (simp add: dropWhile_append)
  with assms w show ?thesis
    by (auto simp: is_cycle_def simple_walk_def successively_append_iff)
qed

lemma simple_walk_snoc:
  "simple_walk d s w \<Longrightarrow> edge d (last w) c \<Longrightarrow> c \<notin> set w \<Longrightarrow> simple_walk d s (w @ [c])"
  by (auto simp: simple_walk_def successively_append_iff)

lemma simple_walk_prefix:
  assumes "simple_walk d s (u @ z # v)"
  shows "simple_walk d s (u @ [z])"
proof -
  have "successively (edge d) ((u @ [z]) @ v)" using assms by (simp add: simple_walk_def)
  then have "successively (edge d) (u @ [z])" by (simp only: successively_append_iff)
  moreover have "hd (u @ [z]) = hd (u @ z # v)" by (cases u) simp_all
  ultimately show ?thesis using assms by (simp add: simple_walk_def)
qed

section \<open>The inner loops\<close>

text \<open>The cycles are sound and pairwise not rotations of each other.\<close>

definition good_cycles :: "('a, 'a list) dict \<Rightarrow> 'a list list \<Rightarrow> bool" where
  "good_cycles d cs \<longleftrightarrow> (\<forall>c \<in> set cs. is_cycle d c) \<and> sorted_wrt (\<lambda>a b. \<forall>k. b \<noteq> rotate k a) cs"

lemma good_cycles_snoc:
  "good_cycles d cs \<Longrightarrow> is_cycle d c \<Longrightarrow> \<not> recorded cs c \<Longrightarrow> good_cycles d (cs @ [c])"
  by (auto simp: good_cycles_def sorted_wrt_append recorded_def)

lemma visit_child_ok:
  assumes w: "simple_walk d s path" and e: "edge d (last path) c" and g: "good_cycles d (cycles st)"
  shows "\<exists>st'. visit_child path st c = Inr st' \<and> good_cycles d (cycles st') \<and>
    set (cycles st) \<subseteq> set (cycles st') \<and>
    (c \<in> set path \<longrightarrow> recorded (cycles st') (dropWhile (\<lambda>x. x \<noteq> c) path)) \<and>
    set (visited_nodes st') = set (visited_nodes st) \<union> ({c} - set path)"
proof (cases "c \<in> set path")
  case True
  let ?c = "dropWhile (\<lambda>x. x \<noteq> c) path"
  have cyc: "is_cycle d ?c" using w True e by (rule dropWhile_walk)
  then have "?c \<noteq> []" by (simp add: is_cycle_def)
  then have dup: "is_dup (cycles st) ?c = Inr (recorded (cycles st) ?c)" by (rule is_dup_recorded)
  have self: "recorded (cycles st @ [?c]) ?c" by (auto simp: recorded_def intro: exI [of _ 0])
  show ?thesis
    using True dup cyc self g good_cycles_snoc [OF g cyc] by (auto simp: visit_child_def Let_def)
next
  case False
  then show ?thesis using g by (auto simp: visit_child_def)
qed

lemma visit_children_ok:
  assumes "simple_walk d s path" and "\<And>c. c \<in> set cs \<Longrightarrow> edge d (last path) c"
    and "good_cycles d (cycles st)"
  shows "\<exists>st'. visit_children path cs st = Inr st' \<and> good_cycles d (cycles st') \<and>
    set (cycles st) \<subseteq> set (cycles st') \<and>
    (\<forall>c \<in> set cs \<inter> set path. recorded (cycles st') (dropWhile (\<lambda>x. x \<noteq> c) path)) \<and>
    set (visited_nodes st') = set (visited_nodes st) \<union> (set cs - set path)"
  using assms
proof (induction cs arbitrary: st)
  case Nil
  then show ?case by (simp add: visit_children_def)
next
  case (Cons c cs)
  from visit_child_ok [OF Cons.prems(1) Cons.prems(2) [of c] Cons.prems(3)] obtain st1 where
    1: "visit_child path st c = Inr st1" "good_cycles d (cycles st1)"
    "set (cycles st) \<subseteq> set (cycles st1)"
    "c \<in> set path \<longrightarrow> recorded (cycles st1) (dropWhile (\<lambda>x. x \<noteq> c) path)"
    "set (visited_nodes st1) = set (visited_nodes st) \<union> ({c} - set path)" by auto
  from Cons.IH [OF Cons.prems(1) _ 1(2)] Cons.prems(2) obtain st' where
    2: "visit_children path cs st1 = Inr st'" "good_cycles d (cycles st')"
    "set (cycles st1) \<subseteq> set (cycles st')"
    "\<forall>c \<in> set cs \<inter> set path. recorded (cycles st') (dropWhile (\<lambda>x. x \<noteq> c) path)"
    "set (visited_nodes st') = set (visited_nodes st1) \<union> (set cs - set path)" by auto
  have "visit_children path (c # cs) st = Inr st'"
    using 1(1) 2(1) by (simp add: visit_children_def)
  moreover have "\<forall>x \<in> set (c # cs) \<inter> set path. recorded (cycles st') (dropWhile (\<lambda>y. y \<noteq> x) path)"
    using 1(4) 2(3,4) by (auto intro: recorded_mono)
  moreover have "set (visited_nodes st') = set (visited_nodes st) \<union> (set (c # cs) - set path)"
    using 1(5) 2(5) by auto
  ultimately show ?case using subset_trans [OF 1(3) 2(3)] 2(2) by blast
qed


text \<open>The invariant of the search from \<open>s\<close>: the stack and the cycles cover all simple walks.\<close>

definition search_inv :: "('a, 'a list) dict \<Rightarrow> 'a \<Rightarrow> 'a finder \<Rightarrow> bool" where
  "search_inv d s st \<longleftrightarrow> good_cycles d (cycles st) \<and>
     (\<forall>p \<in> set (paths st). simple_walk d s p) \<and>
     (\<forall>w. simple_walk d s w \<longrightarrow> (\<exists>p \<in> set (paths st). prefix p w) \<or> closes d (cycles st) w)"

lemma search_step_ok:
  assumes inv: "search_inv d s st" and ps: "paths st = path # rest"
  shows "\<exists>st'. search_step d path (st\<lparr>paths := rest\<rparr>) = Inr st' \<and> search_inv d s st' \<and>
    set (cycles st) \<subseteq> set (cycles st') \<and>
    (\<forall>x \<in> set (visited_nodes st'). x \<in> set (visited_nodes st) \<or> edge d (last path) x)"
proof -
  define cs where "cs = (case map_of d (last path) of None \<Rightarrow> [] | Some cs \<Rightarrow> cs)"
  from inv ps have walk: "simple_walk d s path" and good: "good_cycles d (cycles (st\<lparr>paths := rest\<rparr>))"
    by (auto simp: search_inv_def)
  then have ne: "path \<noteq> []" by (simp add: simple_walk_def)
  have edge_cs: "edge d (last path) c \<longleftrightarrow> c \<in> set cs" for c
    by (cases "map_of d (last path)") (auto simp: edge_def cs_def)
  have code: "search_step d path (st\<lparr>paths := rest\<rparr>) = visit_children path cs (st\<lparr>paths := rest\<rparr>)"
    using ne by (auto simp: search_step_def py_index_last cs_def visit_children_def split: option.splits)
  from visit_children_ok [OF walk _ good, of cs] edge_cs obtain st' where
    v: "visit_children path cs (st\<lparr>paths := rest\<rparr>) = Inr st'" "good_cycles d (cycles st')"
    "set (cycles st) \<subseteq> set (cycles st')"
    "\<forall>c \<in> set cs \<inter> set path. recorded (cycles st') (dropWhile (\<lambda>x. x \<noteq> c) path)"
    "set (visited_nodes st') = set (visited_nodes st) \<union> (set cs - set path)" by auto
  have ps': "set (paths st') = {path @ [c] | c. c \<in> set cs - set path} \<union> set rest"
    using visit_children_paths [OF v(1)] by auto
  have closed: "closes d (cycles st') path" using v(4) edge_cs by (auto simp: closes_def)
  have "(\<exists>p \<in> set (paths st'). prefix p w) \<or> closes d (cycles st') w" if w: "simple_walk d s w" for w
  proof -
    from inv w consider p where "p \<in> set rest" "prefix p w" | "prefix path w" | "closes d (cycles st) w"
      unfolding search_inv_def ps by auto
    then show ?thesis
    proof cases
      case 1
      then show ?thesis using ps' by blast
    next
      case 2
      then obtain u where u: "w = path @ u" by (auto simp: prefix_def)
      show ?thesis
      proof (cases u)
        case Nil
        with u closed show ?thesis by simp
      next
        case (Cons c v)
        with u w ne have "edge d (last path) c" "c \<notin> set path"
          by (auto simp: simple_walk_def successively_append_iff)
        then have "path @ [c] \<in> set (paths st')" using edge_cs ps' by auto
        moreover have "prefix (path @ [c]) w" using u Cons by (auto simp: prefix_def)
        ultimately show ?thesis by blast
      qed
    next
      case 3
      then show ?thesis using closes_mono [OF _ v(3)] by blast
    qed
  qed
  moreover have "\<forall>p \<in> set (paths st'). simple_walk d s p"
    using inv ps ps' walk edge_cs by (auto simp: search_inv_def intro: simple_walk_snoc)
  ultimately have "search_inv d s st'" using v(2) by (simp add: search_inv_def)
  with code v edge_cs show ?thesis by auto
qed

text \<open>Nodes reachable along edges.\<close>

definition reach :: "('a, 'a list) dict \<Rightarrow> 'a \<Rightarrow> 'a \<Rightarrow> bool" where
  "reach d s x \<longleftrightarrow> (edge d)\<^sup>*\<^sup>* s x"

lemma simple_walk_reach: "simple_walk d s w \<Longrightarrow> reach d s (last w)"
proof (induction w rule: rev_induct)
  case (snoc x w)
  show ?case
  proof (cases "w = []")
    case True
    with snoc.prems show ?thesis by (simp add: simple_walk_def reach_def)
  next
    case False
    with snoc.prems have "simple_walk d s w" "edge d (last w) x"
      by (auto simp: simple_walk_def successively_append_iff)
    with snoc.IH show ?thesis by (auto simp: reach_def)
  qed
qed (simp add: simple_walk_def)

lemma search_paths_ok:
  assumes "search_inv d s st"
  shows "\<exists>st'. search_paths d st = Inr st' \<and> search_inv d s st' \<and> paths st' = [] \<and>
    set (cycles st) \<subseteq> set (cycles st') \<and>
    (\<forall>x \<in> set (visited_nodes st'). x \<in> set (visited_nodes st) \<or> reach d s x)"
  using assms
proof (induction d st rule: search_paths.induct)
  case (1 d st)
  show ?case
  proof (cases "paths st")
    case Nil
    with 1 show ?thesis by (auto simp: search_paths.simps [of d st])
  next
    case (Cons path rest)
    from search_step_ok [OF "1.prems" Cons] obtain st1 where
      s1: "search_step d path (st\<lparr>paths := rest\<rparr>) = Inr st1" "search_inv d s st1"
      "set (cycles st) \<subseteq> set (cycles st1)"
      "\<forall>x \<in> set (visited_nodes st1). x \<in> set (visited_nodes st) \<or> edge d (last path) x" by blast
    have "reach d s (last path)" using "1.prems" Cons simple_walk_reach by (auto simp: search_inv_def)
    then have vis: "\<forall>x \<in> set (visited_nodes st1). x \<in> set (visited_nodes st) \<or> reach d s x"
      using s1(4) by (auto simp: reach_def intro: rtranclp.rtrancl_into_rtrancl)
    from "1.IH" [OF Cons s1(1,2)] obtain st' where
      "search_paths d st1 = Inr st'" "search_inv d s st'" "paths st' = []"
      "set (cycles st1) \<subseteq> set (cycles st')"
      "\<forall>x \<in> set (visited_nodes st'). x \<in> set (visited_nodes st1) \<or> reach d s x" by blast
    with s1 vis Cons show ?thesis by (auto simp: search_paths.simps [of d st])
  qed
qed

section \<open>Completeness\<close>

lemma reach_simple_walk: "reach d s x \<Longrightarrow> \<exists>w. simple_walk d s w \<and> last w = x"
  unfolding reach_def
proof (induction rule: rtranclp_induct)
  case base
  show ?case by (intro exI [of _ "[s]"]) (simp add: simple_walk_def)
next
  case (step y z)
  then obtain w where w: "simple_walk d s w" "last w = y" by blast
  show ?case
  proof (cases "z \<in> set w")
    case True
    then obtain u v where "w = u @ z # v" by (meson split_list)
    with w(1) have "simple_walk d s (u @ [z])" by (auto intro: simple_walk_prefix)
    then show ?thesis by (intro exI [of _ "u @ [z]"]) simp
  next
    case False
    with w step(2) have "simple_walk d s (w @ [z])" by (auto intro: simple_walk_snoc)
    then show ?thesis by (intro exI [of _ "w @ [z]"]) simp
  qed
qed

lemma is_cycle_rotated:
  assumes "is_cycle d (a @ b)"
  shows "is_cycle d (b @ a)"
  using assms
  by (cases "a = []"; cases "b = []") (auto simp: is_cycle_def successively_append_iff)

lemma recorded_rotate: "recorded cs (rotate k c) \<Longrightarrow> recorded cs c"
proof -
  assume "recorded cs (rotate k c)"
  then obtain c' j where c': "c' \<in> set cs" "rotate k c = rotate j c'" by (auto simp: recorded_def)
  obtain m where m: "rotate (m + k) c = c"
  proof -
    let ?n = "length c"
    have "rotate ((?n - k mod ?n) + k) c = c"
    proof (cases "c = []")
      case False
      then have "k mod ?n < ?n" by simp
      then have "((?n - k mod ?n) + k) mod ?n = 0"
        by (metis add.commute le_add_diff_inverse less_imp_le_nat mod_add_left_eq mod_self)
      then show ?thesis by (metis rotate_id)
    qed simp
    then show ?thesis by (rule that)
  qed
  have "c = rotate (m + j) c'" using c'(2) m by (metis rotate_rotate)
  with c'(1) show ?thesis by (auto simp: recorded_def)
qed

text \<open>Once the stack is empty, every cycle that can be reached from the start is recorded.\<close>

lemma all_cycles_recorded:
  assumes inv: "search_inv d s st" and empty: "paths st = []"
    and cyc: "is_cycle d c" and x: "x \<in> set c" and r: "reach d s x"
  shows "recorded (cycles st) c"
proof -
  from reach_simple_walk [OF r] obtain w where w: "simple_walk d s w" "last w = x" by blast
  then have "x \<in> set w" by (auto simp: simple_walk_def)
  with x obtain u z v where uzv: "w = u @ z # v" and z: "z \<in> set c" and u: "\<forall>y \<in> set u. y \<notin> set c"
    using split_list_first_prop [of w "\<lambda>y. y \<in> set c"] by blast
  from z obtain a b where c: "c = a @ z # b" by (meson split_list)
  have rot: "is_cycle d (z # b @ a)" using is_cycle_rotated [of d a "z # b"] cyc c by simp
  have "simple_walk d s (u @ [z])"
    using w(1) uzv by (auto intro: simple_walk_prefix)
  then have W: "simple_walk d s (u @ z # b @ a)"
  proof -
    have "successively (edge d) (z # b @ a)" using rot by (simp add: is_cycle_def)
    moreover have uz: "successively (edge d) (u @ [z])" "hd (u @ [z]) = s"
      using \<open>simple_walk d s (u @ [z])\<close> by (simp_all add: simple_walk_def)
    ultimately have "successively (edge d) (u @ z # b @ a)"
      unfolding successively_append_iff [of _ u] by simp
    moreover have "hd (u @ z # b @ a) = s" using uz(2) by (cases u) simp_all
    moreover have "distinct (u @ z # b @ a)"
      using rot u c \<open>simple_walk d s (u @ [z])\<close> by (auto simp: simple_walk_def is_cycle_def)
    ultimately show ?thesis by (simp add: simple_walk_def)
  qed
  have "closes d (cycles st) (u @ z # b @ a)" using inv empty W by (auto simp: search_inv_def)
  moreover have "edge d (last (u @ z # b @ a)) z" using rot by (simp add: is_cycle_def)
  moreover have "dropWhile (\<lambda>y. y \<noteq> z) (u @ z # b @ a) = z # b @ a"
    using u z by (subst dropWhile_append2) auto
  ultimately have "recorded (cycles st) (z # b @ a)" by (auto simp: closes_def)
  moreover have "z # b @ a = rotate (length a) c" by (simp add: c rotate_append)
  ultimately show ?thesis using recorded_rotate by metis
qed


section \<open>The whole search\<close>

text \<open>
  The invariant of the outer loop after the parents \<open>S\<close>: the cycles are good, every cycle
  reachable from one of \<open>S\<close> is recorded, and the visited nodes are reachable from \<open>S\<close>.
\<close>

definition outer_inv :: "('a, 'a list) dict \<Rightarrow> 'a set \<Rightarrow> 'a finder \<Rightarrow> bool" where
  "outer_inv d S st \<longleftrightarrow> good_cycles d (cycles st) \<and>
     (\<forall>s \<in> S. \<forall>c. is_cycle d c \<longrightarrow> (\<exists>x \<in> set c. reach d s x) \<longrightarrow> recorded (cycles st) c) \<and>
     (\<forall>x \<in> set (visited_nodes st). \<exists>s \<in> S. reach d s x)"

lemma search_inv_start:
  "good_cycles d (cycles st) \<Longrightarrow> search_inv d s (st\<lparr>paths := [[s]]\<rparr>)"
proof -
  assume "good_cycles d (cycles st)"
  moreover have "prefix [s] w" if "simple_walk d s w" for w
    using that by (cases w) (auto simp: simple_walk_def)
  moreover have "simple_walk d s [s]" by (simp add: simple_walk_def)
  ultimately show ?thesis by (auto simp: search_inv_def)
qed

lemma search_from_ok:
  assumes inv: "outer_inv d S st"
  shows "\<exists>st'. search_from d st s = Inr st' \<and> outer_inv d (insert s S) st'"
proof (cases "s \<in> set (visited_nodes st)")
  case True
  with inv obtain s0 where s0: "s0 \<in> S" "reach d s0 s" by (auto simp: outer_inv_def)
  then have "reach d s0 x" if "reach d s x" for x using that by (auto simp: reach_def)
  with inv s0(1) have "outer_inv d (insert s S) st" unfolding outer_inv_def by blast
  with True show ?thesis by (simp add: search_from_def)
next
  case False
  have good: "good_cycles d (cycles st)" using inv by (simp add: outer_inv_def)
  from search_paths_ok [OF search_inv_start [OF good, of s]] obtain st' where
    st': "search_paths d (st\<lparr>paths := [[s]]\<rparr>) = Inr st'" "search_inv d s st'" "paths st' = []"
    "set (cycles st) \<subseteq> set (cycles st')"
    "\<forall>x \<in> set (visited_nodes st'). x \<in> set (visited_nodes st) \<or> reach d s x" by auto
  have "outer_inv d (insert s S) st'"
    unfolding outer_inv_def
  proof (intro conjI ballI allI impI)
    show "good_cycles d (cycles st')" using st'(2) by (simp add: search_inv_def)
    fix t c assume t: "t \<in> insert s S" and c: "is_cycle d c" "\<exists>x \<in> set c. reach d t x"
    show "recorded (cycles st') c"
    proof (cases "t = s")
      case True
      with c show ?thesis using all_cycles_recorded [OF st'(2,3)] by blast
    next
      case False
      with inv t c have "recorded (cycles st) c" by (auto simp: outer_inv_def)
      then show ?thesis using st'(4) by (rule recorded_mono)
    qed
  next
    fix x assume "x \<in> set (visited_nodes st')"
    with st'(5) inv show "\<exists>s \<in> insert s S. reach d s x" by (fastforce simp: outer_inv_def)
  qed
  with False st'(1) show ?thesis by (simp add: search_from_def)
qed

lemma search_all_ok:
  "outer_inv d S st \<Longrightarrow>
   \<exists>st'. for_each (search_from d) ks st = Inr st' \<and> outer_inv d (S \<union> set ks) st'"
proof (induction ks arbitrary: S st)
  case (Cons k ks)
  from search_from_ok [OF Cons.prems, of k] obtain st1 where
    1: "search_from d st k = Inr st1" "outer_inv d (insert k S) st1" by blast
  from Cons.IH [OF 1(2)] 1(1) show ?case by simp
qed simp

text \<open>
  C8: \<open>find_cycles\<close> terminates without raising an exception on every dependency
  dictionary. It yields elementary cycles only (distinct nodes, each a parent of the next, the
  last a parent of the first), yields no rotation of a cycle already yielded, and yields a
  rotation of every elementary cycle of the graph.
\<close>

theorem find_cycles_correct:
  "\<exists>cs. find_cycles d = Inr cs \<and>
     (\<forall>c \<in> set cs. is_cycle d c) \<and>
     sorted_wrt (\<lambda>a b. \<forall>k. b \<noteq> rotate k a) cs \<and>
     (\<forall>c. is_cycle d c \<longrightarrow> (\<exists>c' \<in> set cs. \<exists>k. c = rotate k c'))"
proof -
  let ?st = "\<lparr>cycles = [], visited_nodes = [], paths = []\<rparr>"
  have "outer_inv d {} ?st" by (simp add: outer_inv_def good_cycles_def)
  from search_all_ok [OF this, of "dict_keys d"] obtain st where
    st: "for_each (search_from d) (dict_keys d) ?st = Inr st" and inv: "outer_inv d (set (dict_keys d)) st"
    by auto
  have "recorded (cycles st) c" if c: "is_cycle d c" for c
  proof -
    from c have h: "hd c \<in> set c" by (simp add: is_cycle_def)
    have "\<exists>b. edge d (hd c) b"
    proof (cases "tl c")
      case Nil
      with c have "c = [hd c]" by (metis is_cycle_def list.collapse)
      with c show ?thesis by (metis is_cycle_def last.simps)
    next
      case (Cons y ys)
      with c have "c = hd c # y # ys" by (metis is_cycle_def list.collapse)
      with c show ?thesis by (metis is_cycle_def successively.simps(3))
    qed
    then have "hd c \<in> set (dict_keys d)" by (auto simp: edge_def has_key_def simp flip: has_key_iff)
    moreover have "reach d (hd c) (hd c)" by (simp add: reach_def)
    ultimately show ?thesis using inv c h unfolding outer_inv_def by blast
  qed
  with st inv show ?thesis
    by (auto simp: find_cycles_def outer_inv_def good_cycles_def recorded_def)
qed

theorem find_cycles_correct_witness:
  "find_cycles [(''A'', [''B'']), (''B'', [''C'']), (''C'', [''B'', ''D'']), (''D'', [])] = Inr [[''B'', ''C'']] \<and>
   is_cycle [(''A'', [''B'']), (''B'', [''C'']), (''C'', [''B'', ''D'']), (''D'', [])] [''B'', ''C'']"
proof -
  have t: "find_cycles [(''A'', [''B'']), (''B'', [''C'']), (''C'', [''B'', ''D'']), (''D'', [])] =
      Inr [[''B'', ''C'']]" by code_simp
  then show ?thesis
    using find_cycles_correct [of "[(''A'', [''B'']), (''B'', [''C'']), (''C'', [''B'', ''D'']), (''D'', [])]"]
    by auto
qed

end
