(* ===== verification/RadFloat.thy ===== *)
theory RadFloat
  imports RadUtil Complex_Main "HOL-Library.Monad_Syntax"
begin

text \<open>
  \<^verbatim>\<open>bindings/python/rad_util.py\<close>, second part: the helper functions on floats, with rational
  numbers for floats and \<open>py_number\<close> where the code behaves differently on integers
  (Python 2: \<^verbatim>\<open>/\<close> on integers rounds down). The area of a polygon, which changes the list of its
  caller, quantiles and the removal of outliers, unit prefixes, ranges of binary strings and of floats.
  The lemmas give the value of each function, and when \<open>float_range\<close> never returns.
\<close>

section \<open>Numbers\<close>

text \<open>\<^verbatim>\<open>int(x)\<close> of a float rounds towards zero.\<close>

definition trunc :: "rat \<Rightarrow> int" where
  "trunc x = (if 0 \<le> x then \<lfloor>x\<rfloor> else \<lceil>x\<rceil>)"

datatype py_number = IntNum int | FloatNum rat

fun num :: "py_number \<Rightarrow> rat" where
  "num (IntNum i) = of_int i"
| "num (FloatNum x) = x"

fun num_div :: "py_number \<Rightarrow> py_number \<Rightarrow> py_number" where
  "num_div (IntNum i) (IntNum j) = IntNum (i div j)"
| "num_div a b = FloatNum (num a / num b)"

section \<open>The area of a polygon\<close>

type_synonym int_point = "int \<times> int"

definition scale_point :: "int \<Rightarrow> rat \<times> rat \<Rightarrow> int_point" where
  "scale_point precision p = (trunc (fst p * of_int precision), trunc (snd p * of_int precision))"

fun area_loop :: "int_point list \<Rightarrow> int \<Rightarrow> int" where
  "area_loop (p # q # ps) area = area_loop (q # ps) (area + fst q * snd p - snd q * fst p)"
| "area_loop _ area = area"

text \<open>The result is the area together with the list of the caller, which is changed in place.\<close>

definition polygon_area :: "(rat \<times> rat) list \<Rightarrow> int \<Rightarrow> (rat \<times> int_point list) result" where
  "polygon_area points_list precision =
     (let ps = map (scale_point precision) points_list in
      if ps = [] then Inl IndexError
      else
        let ps = (if last ps \<noteq> hd ps then ps @ [hd ps] else ps);
            area = \<bar>area_loop ps 0 div 2\<bar>
        in if precision = 0 then Inl ZeroDivisionError
           else Inr (of_int area / of_int (precision ^ 2), ps))"

section \<open>Quantiles\<close>

definition quantile :: "rat list \<Rightarrow> rat \<Rightarrow> rat result" where
  "quantile l p =
     (let l_sort = sort l; n = int (length l);
          r = 1 + (of_int n - 1) * p; i = trunc r; f = r - of_int i
      in if i < n
         then rbind (py_index l_sort (i - 1)) (\<lambda>a. rbind (py_index l_sort i) (\<lambda>b. Inr ((1 - f) * a + f * b)))
         else py_index l_sort (i - 1))"

text \<open>The median is computed and not used; its first index is out of range for the empty list.\<close>

definition trim :: "rat list \<Rightarrow> rat list result" where
  "trim l =
     (let l_sort = sort l; n = length l_sort in
      rbind (if even n
             then rbind (py_index l_sort (int (n div 2))) (\<lambda>a. rbind (py_index l_sort (int (n div 2) - 1)) (\<lambda>b. Inr ((a + b) / 2)))
             else py_index l_sort (int (n div 2))) (\<lambda>median.
      rbind (quantile l_sort (1 / 4)) (\<lambda>q1.
      rbind (quantile l_sort (3 / 4)) (\<lambda>q3.
        let iqr_extra = (q3 - q1) * (3 / 2)
        in Inr (filter (\<lambda>x. q1 - iqr_extra \<le> x \<and> x \<le> q3 + iqr_extra) l_sort)))))"

section \<open>Ranges\<close>

text \<open>
  \<^verbatim>\<open>binary_range\<close>: the bits of \<^verbatim>\<open>v\<close>, lowest first. One round of the outer loop increments the
  number; the flag is \<^verbatim>\<open>toggle[bits]\<close>, the carry out of the highest bit.
\<close>

fun increment :: "bool list \<Rightarrow> bool list \<times> bool" where
  "increment [] = ([], True)"
| "increment (False # v) = (True # v, False)"
| "increment (True # v) = (case increment v of (w, c) \<Rightarrow> (False # w, c))"

fun bits_value :: "bool list \<Rightarrow> nat" where
  "bits_value [] = 0"
| "bits_value (b # v) = (if b then 1 else 0) + 2 * bits_value v"

definition bits_string :: "bool list \<Rightarrow> string" where
  "bits_string v = map (\<lambda>b. if b then CHR ''1'' else CHR ''0'') (rev v)"

lemma increment_value:
  "increment v = (w, c) \<Longrightarrow>
     length w = length v \<and> (if c then Suc (bits_value v) = 2 ^ length v else bits_value w = Suc (bits_value v))"
proof (induction v arbitrary: w rule: increment.induct)
  case (3 v)
  obtain u where u: "increment v = (u, c)" "w = False # u" using 3(2) by (auto split: prod.splits)
  with 3(1) [OF u(1)] show ?case by (cases c) auto
qed auto

lemma bits_value_bound: "bits_value v < 2 ^ length v"
  by (induction v) auto

lemma increment_measure:
  assumes "increment v = (w, c)"
  shows "c \<Longrightarrow> bits_value v < 2 ^ length v" "\<not> c \<Longrightarrow> 2 ^ length w - bits_value w < 2 ^ length v - bits_value v"
  using increment_value [OF assms] bits_value_bound [of v] bits_value_bound [of w] by auto

function binary_loop :: "bool list \<Rightarrow> bool \<Rightarrow> string list" where
  "binary_loop v carry =
     (if carry then [] else let w = increment v in bits_string v # binary_loop (fst w) (snd w))"
  by pat_completeness auto
termination
  by (relation "measure (\<lambda>(v, c). if c then 0 else 2 ^ length v - bits_value v)")
    (auto simp: bits_value_bound increment_measure(2) split: prod.split)

declare binary_loop.simps [simp del]

definition binary_range :: "nat \<Rightarrow> string list" where
  "binary_range bits = binary_loop (replicate bits False) (bits = 0)"

partial_function (option) float_loop :: "rat \<Rightarrow> rat \<Rightarrow> rat \<Rightarrow> rat list \<Rightarrow> rat list option" where
  "float_loop stop step cur l =
     (if cur < stop then float_loop stop step (cur + step) (l @ [cur]) else Some l)"

definition float_range :: "rat \<Rightarrow> rat option \<Rightarrow> rat option \<Rightarrow> rat list option" where
  "float_range start stop step =
     (let (start, stop) = (case stop of None \<Rightarrow> (0, start) | Some s \<Rightarrow> (start, s));
          step = (case step of None \<Rightarrow> 1 | Some d \<Rightarrow> d)
      in float_loop stop step start [])"

section \<open>Unit prefixes\<close>

type_synonym prefix_table = "(py_number, string \<times> string) dict"

definition float_power :: "int \<Rightarrow> py_number" where
  "float_power e = FloatNum (power_int 10 e)"

definition si_prefixes :: "bool \<Rightarrow> prefix_table" where
  "si_prefixes use_extra_prefixes =
     [(float_power 24, (''Y'', ''yotta'')), (float_power 21, (''Z'', ''zetta'')), (float_power 18, (''E'', ''exa'')),
      (float_power 15, (''P'', ''peta'')), (float_power 12, (''T'', ''tera'')), (float_power 9, (''G'', ''giga'')),
      (float_power 6, (''M'', ''mega'')), (float_power 3, (''k'', ''kilo'')), (float_power (-3), (''m'', ''milli'')),
      (float_power (-6), (''u'', ''micro'')), (float_power (-9), (''n'', ''nano'')), (float_power (-12), (''p'', ''pico'')),
      (float_power (-15), (''f'', ''femto'')), (float_power (-18), (''a'', ''atto'')), (float_power (-21), (''z'', ''zepto'')),
      (float_power (-24), (''y'', ''yocto''))] @
     (if use_extra_prefixes
      then [(float_power 2, (''h'', ''hecto'')), (float_power 1, (''da'', ''deka'')),
            (float_power (-1), (''d'', ''deci'')), (float_power (-2), (''c'', ''centi''))]
      else [])"

definition bin_prefixes :: prefix_table where
  "bin_prefixes =
     [(IntNum (2 ^ 10), (''K'', ''kilo'')), (IntNum (2 ^ 20), (''M'', ''mega'')), (IntNum (2 ^ 30), (''G'', ''mega'')),
      (IntNum (2 ^ 40), (''T'', ''tera'')), (IntNum (2 ^ 50), (''P'', ''peta'')), (IntNum (2 ^ 60), (''E'', ''exa''))]"

definition unit_prefixes :: "string \<Rightarrow> bool \<Rightarrow> prefix_table" where
  "unit_prefixes mode use_extra_prefixes =
     (if mode = ''bin'' then bin_prefixes else si_prefixes use_extra_prefixes) @ [(IntNum 1, ([], []))]"

text \<open>The loop over neighbouring multipliers, from position \<open>i\<close> on.\<close>

fun find_multiplier :: "rat \<Rightarrow> nat \<Rightarrow> rat list \<Rightarrow> nat option" where
  "find_multiplier v i (lower # upper # ms) =
     (if lower \<le> v \<and> v < upper then Some i else find_multiplier v (Suc i) (upper # ms))"
| "find_multiplier v i _ = None"

text \<open>The variable \<^verbatim>\<open>mult\<close> is still \<^verbatim>\<open>None\<close> after the loop, so both tests always follow it.\<close>

definition multiplier_index :: "rat \<Rightarrow> rat list \<Rightarrow> nat result" where
  "multiplier_index v ms =
     (let found = find_multiplier v 0 ms;
          found = (if v < hd ms then Some 0 else if last ms \<le> v then Some (length ms - 1) else found)
      in case found of None \<Rightarrow> Inl UnboundLocalError | Some i \<Rightarrow> Inr i)"

text \<open>\<^verbatim>\<open>round(x, dp)\<close> rounds halves away from zero.\<close>

definition round_dp :: "rat \<Rightarrow> int \<Rightarrow> rat" where
  "round_dp x dp =
     (let k = power_int 10 dp; r = of_int \<lfloor>\<bar>x\<bar> * k + 1 / 2\<rfloor> / k in if x < 0 then - r else r)"

text \<open>The parameters \<open>fixed\<close> and \<open>general\<close> are the formats \<^verbatim>\<open>%.<n>f\<close> and \<^verbatim>\<open>%.<n>g\<close>.\<close>

definition nice_units ::
    "(int \<Rightarrow> rat \<Rightarrow> string) \<Rightarrow> (int \<Rightarrow> rat \<Rightarrow> string) \<Rightarrow> py_number \<Rightarrow> int \<Rightarrow> int option \<Rightarrow> string \<Rightarrow> string \<Rightarrow>
     bool \<Rightarrow> bool \<Rightarrow> string \<Rightarrow> string result" where
  "nice_units fixed general value dp sigfigs suff space use_extra_prefixes use_full_name mode =
     (let table = unit_prefixes mode use_extra_prefixes;
          multipliers = sort_key num (map fst table)
      in rbind (multiplier_index (num value) (map num multipliers)) (\<lambda>mult_i.
           let mult = multipliers ! mult_i;
               mult = (if sigfigs = None \<and> mult_i < length multipliers - 1 \<and>
                          round_dp (num (num_div value mult)) dp = round_dp (num (num_div (multipliers ! Suc mult_i) mult)) dp
                       then multipliers ! Suc mult_i else mult);
               new_value = num (num_div value mult);
               str_value = (case sigfigs of None \<Rightarrow> fixed dp new_value | Some n \<Rightarrow> general n new_value)
           in rbind (dict_get table mult) (\<lambda>(symbol, name).
                Inr (str_value @ space @ (if use_full_name then name else symbol) @ suff))))"

text \<open>\<^verbatim>\<open>pt2str\<close>, with \<^verbatim>\<open>str\<close> as a parameter\<close>

definition pt2str :: "('a \<Rightarrow> string) \<Rightarrow> 'a \<times> 'a \<Rightarrow> string" where
  "pt2str str point = ''('' @ str (fst point) @ '', '' @ str (snd point) @ '')''"

section \<open>Ranges: values\<close>

lemma binary_loop_values:
  "length v = n \<Longrightarrow> 0 < n \<Longrightarrow> \<exists>vs. binary_loop v False = map bits_string vs \<and>
     map bits_value vs = [bits_value v..<2 ^ n] \<and> list_all (\<lambda>w. length w = n) vs"
proof (induction "2 ^ n - bits_value v" arbitrary: v rule: less_induct)
  case less
  obtain w c where w: "increment v = (w, c)" by fastforce
  note iv = increment_value [OF w]
  have bound: "bits_value v < 2 ^ n" using bits_value_bound [of v] less.prems by simp
  then have up: "[bits_value v..<2 ^ n] = bits_value v # [Suc (bits_value v)..<2 ^ n]" by (simp add: upt_conv_Cons)
  show ?case
  proof (cases c)
    case True
    with w iv less.prems up show ?thesis
      by (auto simp: binary_loop.simps [of v] binary_loop.simps [of w] Let_def intro!: exI [of _ "[v]"])
  next
    case False
    with iv have *: "bits_value w = Suc (bits_value v)" "length w = n" using less.prems by auto
    then have "2 ^ n - bits_value w < 2 ^ n - bits_value v" using bound by simp
    from less.hyps [OF this *(2) less.prems(2)] obtain vs where
      "binary_loop w False = map bits_string vs" "map bits_value vs = [bits_value w..<2 ^ n]" "list_all (\<lambda>w. length w = n) vs"
      by blast
    with * w False up less.prems show ?thesis
      by (auto simp: binary_loop.simps [of v] Let_def intro!: exI [of _ "v # vs"])
  qed
qed

lemma bits_val_bits_string: "bits_val (bits_string v) = int (bits_value v)"
  by (induction v) (simp_all add: bits_string_def bits_val_append bits_val_Cons)

lemma bits_string_digits: "set (bits_string v) \<subseteq> {CHR ''0'', CHR ''1''}" "length (bits_string v) = length v"
  by (auto simp: bits_string_def)

text \<open>
  The binary range of a positive width has every string of that width once, in the order of the
  numbers they stand for; for the width zero it is empty.
\<close>

theorem binary_range_correct:
  assumes "0 < n"
  shows "map bin2int (binary_range n) = map (\<lambda>k. Inr (int k)) [0..<2 ^ n] \<and>
    list_all (\<lambda>s. length s = n) (binary_range n) \<and> binary_range 0 = []"
proof -
  have zero: "bits_value (replicate m False) = 0" for m by (induction m) simp_all
  from binary_loop_values [of "replicate n False" n] assms zero obtain vs where vs:
    "binary_range n = map bits_string vs" "map bits_value vs = [0..<2 ^ n]" "list_all (\<lambda>w. length w = n) vs"
    by (auto simp: binary_range_def)
  have "bin2int (bits_string v) = Inr (int (bits_value v))" if "v \<in> set vs" for v
  proof -
    have "bits_string v \<noteq> []" using vs(3) that assms bits_string_digits(2) [of v] by (auto simp: list_all_iff)
    from bin2int_digits [OF this bits_string_digits(1)] show ?thesis by (simp add: bits_val_bits_string)
  qed
  then have "map bin2int (binary_range n) = map (\<lambda>k. Inr (int k)) (map bits_value vs)" by (simp add: vs(1) comp_def)
  then show ?thesis
    using vs by (simp add: bits_string_digits(2) list.pred_map comp_def binary_range_def binary_loop.simps [of "[]"])
qed

lemma float_loop_returns:
  assumes "0 < step"
  shows "float_loop stop step cur l = Some (l @ map (\<lambda>k. cur + of_nat k * step) [0..<nat \<lceil>(stop - cur) / step\<rceil>])"
proof (induction "nat \<lceil>(stop - cur) / step\<rceil>" arbitrary: cur l)
  case 0
  then have "(stop - cur) / step \<le> 0" by linarith
  then have "stop \<le> cur" using assms by (simp add: divide_le_0_iff)
  with 0 show ?case by (simp add: float_loop.simps)
next
  case (Suc n)
  then have "0 < (stop - cur) / step" by linarith
  then have less: "cur < stop" using assms by (simp add: zero_less_divide_iff)
  have "(stop - (cur + step)) / step = (stop - cur) / step - 1" using assms by (simp add: field_simps)
  then have n: "n = nat \<lceil>(stop - (cur + step)) / step\<rceil>" using Suc(2) by linarith
  have "float_loop stop step cur l = float_loop stop step (cur + step) (l @ [cur])"
    using less by (simp add: float_loop.simps [of stop step cur])
  also have "\<dots> = Some (l @ cur # map (\<lambda>k. cur + step + of_nat k * step) [0..<n])"
    using Suc(1) [OF n, of "l @ [cur]"] n by simp
  also have "cur # map (\<lambda>k. cur + step + of_nat k * step) [0..<n] = map (\<lambda>k. cur + of_nat k * step) [0..<Suc n]"
    by (simp add: upt_conv_Cons map_Suc_upt [symmetric] algebra_simps comp_def del: upt_Suc)
  finally show ?case using Suc(2) by simp
qed

lemma float_loop_diverges:
  assumes "float_loop stop step cur l = Some r"
  shows "0 < step \<or> stop \<le> cur"
proof (rule float_loop.raw_induct [where P = "\<lambda>stop step cur l r. 0 < step \<or> stop \<le> cur", OF _ assms])
  fix f and stop step cur :: rat and l r
  assume ih: "\<And>stop step cur l r. f stop step cur l = Some r \<Longrightarrow> 0 < step \<or> stop \<le> cur"
    and body: "(if cur < stop then f stop step (cur + step) (l @ [cur]) else Some l) = Some r"
  show "0 < step \<or> stop \<le> cur"
  proof (cases "cur < stop")
    case True
    with body ih [of stop step "cur + step" "l @ [cur]" r] have "0 < step \<or> stop \<le> cur + step" by simp
    moreover have "0 < step" if "stop \<le> cur + step" using that True by linarith
    ultimately show ?thesis by blast
  qed simp
qed

text \<open>
  A range of floats has the values from the start up to the stop, which is left out; it is never
  returned when the step is not positive and the start lies before the stop.
\<close>

theorem float_range_correct:
  "float_range start (Some stop) (Some step) =
     (if stop \<le> start then Some []
      else if 0 < step then Some (map (\<lambda>k. start + of_nat k * step) [0..<nat \<lceil>(stop - start) / step\<rceil>])
      else None)"
proof -
  have "float_loop stop step start [] = None" if "\<not> stop \<le> start" "\<not> 0 < step"
    using float_loop_diverges [of stop step start "[]"] that by (cases "float_loop stop step start []") auto
  moreover have "float_loop stop step start [] = Some []" if "stop \<le> start"
    using that by (simp add: float_loop.simps)
  ultimately show ?thesis using float_loop_returns [of step stop start "[]"] by (simp add: float_range_def)
qed

section \<open>Quantiles: values\<close>

text \<open>Linear interpolation between the entries of a list.\<close>

definition interp :: "rat list \<Rightarrow> rat \<Rightarrow> rat" where
  "interp xs t =
     (let i = nat \<lfloor>t\<rfloor>; f = t - of_nat i
      in if Suc i < length xs then (1 - f) * xs ! i + f * xs ! Suc i else xs ! i)"

lemma quantile_value:
  assumes "l \<noteq> []" "0 \<le> p" "p \<le> 1"
  shows "quantile l p = Inr (interp (sort l) (of_nat (length l - 1) * p))"
proof -
  define t where "t = of_nat (length l - 1) * p"
  define i where "i = nat \<lfloor>t\<rfloor>"
  let ?n = "length l" and ?s = "sort l"
  have n: "0 < ?n" using assms(1) by simp
  have t: "0 \<le> t" "t \<le> of_nat (?n - 1)" using assms by (simp_all add: t_def mult_left_le)
  have "\<lfloor>t\<rfloor> \<le> int (?n - 1)" using floor_mono [OF t(2)] by (simp only: floor_of_nat)
  then have i: "\<lfloor>t\<rfloor> = int i" "i \<le> ?n - 1" using t(1) by (simp_all add: i_def)
  have r: "1 + (of_int (int ?n) - 1) * p = 1 + t" using n by (simp add: t_def of_nat_diff Suc_leI)
  have tr: "trunc (1 + t) = int i + 1" using t i by (simp add: trunc_def)
  have q: "quantile l p = (if int i + 1 < int ?n
      then rbind (py_index ?s (int i)) (\<lambda>a. rbind (py_index ?s (int i + 1)) (\<lambda>b. Inr ((1 - (t - of_nat i)) * a + (t - of_nat i) * b)))
      else py_index ?s (int i))"
    unfolding quantile_def Let_def r tr by simp
  have "i < ?n" using i(2) n by linarith
  then have "py_index ?s (int i) = Inr (?s ! i)" by (simp add: py_index_def)
  moreover have "py_index ?s (int i + 1) = Inr (?s ! Suc i)" if "Suc i < ?n"
    using that by (simp add: py_index_def nat_add_distrib)
  moreover have "int i + 1 < int ?n \<longleftrightarrow> Suc i < ?n" by linarith
  ultimately have "quantile l p = Inr (interp ?s t)" unfolding q interp_def Let_def i_def [symmetric] by simp
  then show ?thesis by (simp only: t_def)
qed

lemma interp_nth: "i < length xs \<Longrightarrow> interp xs (of_nat i) = xs ! i"
  by (simp add: interp_def Let_def)

lemma interp_between:
  assumes "sorted xs" "0 \<le> t" "i = nat \<lfloor>t\<rfloor>" "Suc i < length xs"
  shows "xs ! i \<le> interp xs t" "interp xs t \<le> xs ! Suc i"
proof -
  define f where "f = t - of_nat i"
  have f: "0 \<le> f" "f \<le> 1" using assms(2,3) unfolding f_def by linarith+
  have le: "0 \<le> xs ! Suc i - xs ! i" using assms(1,4) by (simp add: sorted_nth_mono)
  have val: "interp xs t = xs ! i + f * (xs ! Suc i - xs ! i)"
    using assms(3,4) by (simp add: interp_def Let_def f_def algebra_simps)
  show "xs ! i \<le> interp xs t" using val f(1) le by simp
  show "interp xs t \<le> xs ! Suc i" using val mult_right_mono [OF f(2) le] by simp
qed

lemma interp_mono:
  assumes xs: "sorted xs" and st: "0 \<le> s" "s \<le> t" "t \<le> of_nat (length xs - 1)" "xs \<noteq> []"
  shows "interp xs s \<le> interp xs t"
proof -
  define i where "i = nat \<lfloor>s\<rfloor>"
  define j where "j = nat \<lfloor>t\<rfloor>"
  have ij: "i \<le> j" unfolding i_def j_def using st(2) by (intro nat_mono floor_mono)
  have "\<lfloor>t\<rfloor> \<le> int (length xs - 1)" using floor_mono [OF st(3)] by (simp only: floor_of_nat)
  then have "j \<le> length xs - 1" unfolding j_def by simp
  then have j: "j < length xs" using st(4) by (cases xs) auto
  have jt: "xs ! j \<le> interp xs t"
    using interp_between(1) [OF xs _ j_def] st(1,2) by (cases "Suc j < length xs") (simp_all add: interp_def Let_def j_def [symmetric])
  show ?thesis
  proof (cases "i = j")
    case True
    show ?thesis
    proof (cases "Suc i < length xs")
      case True
      have le: "0 \<le> xs ! Suc i - xs ! i" using xs True by (simp add: sorted_nth_mono)
      have "interp xs u = xs ! i + (u - of_nat i) * (xs ! Suc i - xs ! i)" if "nat \<lfloor>u\<rfloor> = i" for u
        using True that by (simp add: interp_def Let_def algebra_simps)
      from this [of s] this [of t] \<open>i = j\<close> st(2) mult_right_mono [OF _ le, of "s - of_nat i" "t - of_nat i"]
      show ?thesis by (simp add: i_def j_def)
    next
      case False
      with True j show ?thesis by (simp add: interp_def Let_def i_def [symmetric] j_def [symmetric])
    qed
  next
    case False
    with ij have "Suc i \<le> j" by simp
    then have "xs ! Suc i \<le> xs ! j" using xs j by (simp add: sorted_nth_mono)
    moreover have "interp xs s \<le> xs ! Suc i" using interp_between(2) [OF xs st(1) i_def] \<open>Suc i \<le> j\<close> j by simp
    ultimately show ?thesis using jt by linarith
  qed
qed

text \<open>
  The quantile of a list that is not empty interpolates linearly between the entries of the sorted list; it is
  the least entry for 0, the greatest for 1, and grows with its argument. For the empty list
  \<^verbatim>\<open>IndexError\<close> is raised.
\<close>

theorem quantile_correct:
  assumes "l \<noteq> []" "0 \<le> p" "p \<le> p'" "p' \<le> 1"
  shows "\<exists>q q'. quantile l p = Inr q \<and> quantile l p' = Inr q' \<and> Min (set l) \<le> q \<and> q \<le> q' \<and> q' \<le> Max (set l) \<and>
    quantile l 0 = Inr (Min (set l)) \<and> quantile l 1 = Inr (Max (set l))"
proof -
  let ?s = "sort l" and ?m = "of_nat (length l - 1) :: rat"
  have n: "length l - 1 < length ?s" "sorted ?s" "?s \<noteq> []"
    using assms(1) by (simp, simp, metis length_0_conv length_sort)
  have min: "?s ! 0 = Min (set l)"
  proof (rule Min_eqI [symmetric])
    show "?s ! 0 \<le> y" if y: "y \<in> set l" for y
    proof -
      obtain i where "i < length ?s" "?s ! i = y" using y in_set_conv_nth [of y ?s] by auto
      with sorted_nth_mono [OF n(2), of 0 i] show ?thesis by simp
    qed
    show "?s ! 0 \<in> set l" using nth_mem [of 0 ?s] assms(1) by simp
  qed simp
  have max: "?s ! (length l - 1) = Max (set l)"
  proof (rule Max_eqI [symmetric])
    show "y \<le> ?s ! (length l - 1)" if y: "y \<in> set l" for y
    proof -
      obtain i where "i < length ?s" "?s ! i = y" using y in_set_conv_nth [of y ?s] by auto
      with sorted_nth_mono [OF n(2), of i "length l - 1"] n(1) show ?thesis by simp
    qed
    show "?s ! (length l - 1) \<in> set l" using nth_mem [OF n(1)] by simp
  qed simp
  have ends: "interp ?s (?m * 0) = Min (set l)" "interp ?s (?m * 1) = Max (set l)"
    using interp_nth [of 0 ?s] interp_nth [of "length l - 1" ?s] n min max assms(1) by simp_all
  have mono: "interp ?s (?m * a) \<le> interp ?s (?m * b)" if "0 \<le> a" "a \<le> b" "b \<le> 1" for a b
    using that n(2,3) by (intro interp_mono) (simp_all add: mult_left_mono mult_left_le)
  from mono [of 0 p] mono [of p p'] mono [of p' 1] assms ends
  show ?thesis
    by (simp add: quantile_value [OF assms(1)])
qed

text \<open>
  The values kept by \<^verbatim>\<open>trim\<close>, in increasing order: those within one and a half times the
  distance of the quartiles from them. Something is always kept.
\<close>

lemma between_quartiles:
  assumes "l \<noteq> []" "quantile l (1 / 4) = Inr q1" "quantile l (3 / 4) = Inr q3"
  shows "\<exists>x \<in> set l. q1 - (q3 - q1) * (3 / 2) \<le> x \<and> x \<le> q3 + (q3 - q1) * (3 / 2)"
proof -
  let ?s = "sort l" and ?n = "length l"
  have q: "q1 = interp ?s (of_nat (?n - 1) * (1 / 4))" "q3 = interp ?s (of_nat (?n - 1) * (3 / 4))"
    using assms(2,3) by (simp_all add: quantile_value [OF assms(1)])
  have s: "sorted ?s" "?s \<noteq> []" using assms(1) by (simp, metis length_0_conv length_sort)
  have le: "q1 \<le> q3" unfolding q using s by (intro interp_mono) simp_all
  have "0 < ?n" using assms(1) by simp
  then consider "?n = 1" | "?n = 2" | "3 \<le> ?n" by linarith
  then show ?thesis
  proof cases
    case 1
    then have "q1 = ?s ! 0" "q3 = ?s ! 0" unfolding q by (simp_all add: interp_def)
    moreover have "?s ! 0 \<in> set l" using nth_mem [of 0 ?s] 1 by simp
    ultimately show ?thesis by (intro bexI [of _ "?s ! 0"]) simp_all
  next
    case 2
    then have v: "q1 = 3 / 4 * ?s ! 0 + 1 / 4 * ?s ! 1" "q3 = 1 / 4 * ?s ! 0 + 3 / 4 * ?s ! 1"
      unfolding q by (simp_all add: interp_def)
    have "?s ! 0 \<le> ?s ! 1" using s(1) 2 by (simp add: sorted_nth_mono)
    with v have "q1 - (q3 - q1) * (3 / 2) \<le> ?s ! 0" "?s ! 0 \<le> q3 + (q3 - q1) * (3 / 2)" by (simp_all add: field_simps)
    moreover have "?s ! 0 \<in> set l" using nth_mem [of 0 ?s] 2 by simp
    ultimately show ?thesis by blast
  next
    case 3
    define k where "k = (?n + 2) div 4"
    have k: "?n - 1 \<le> 4 * k" "4 * k \<le> 3 * (?n - 1)" "k < ?n" using 3 unfolding k_def by linarith+
    have kr: "of_nat (?n - 1) * (1 / 4) \<le> (of_nat k :: rat)" "(of_nat k :: rat) \<le> of_nat (?n - 1) * (3 / 4)"
      using of_nat_mono [OF k(1), where 'a = rat] of_nat_mono [OF k(2), where 'a = rat] by simp_all
    have kn: "(of_nat k :: rat) \<le> of_nat (length ?s - 1)" using k(3) by (subst of_nat_le_iff) simp
    have "q1 \<le> interp ?s (of_nat k)" unfolding q using kr(1) kn s by (intro interp_mono) simp_all
    moreover have "interp ?s (of_nat k) \<le> q3" unfolding q using kr(2) s by (intro interp_mono) simp_all
    moreover have "interp ?s (of_nat k) = ?s ! k" using k(3) by (simp add: interp_nth)
    moreover have "?s ! k \<in> set l" using nth_mem [of k ?s] k(3) by simp
    moreover have "0 \<le> (q3 - q1) * (3 / 2)" using le by simp
    ultimately have "q1 - (q3 - q1) * (3 / 2) \<le> ?s ! k \<and> ?s ! k \<le> q3 + (q3 - q1) * (3 / 2)" "?s ! k \<in> set l"
      by linarith+
    then show ?thesis by blast
  qed
qed

lemma quantile_sort: "quantile (sort l) p = quantile l p"
  by (simp add: quantile_def sorted_sort_id)

theorem trim_correct:
  assumes "l \<noteq> []"
  shows "\<exists>q1 q3. quantile l (1 / 4) = Inr q1 \<and> quantile l (3 / 4) = Inr q3 \<and>
    trim l = Inr (filter (\<lambda>x. q1 - (q3 - q1) * (3 / 2) \<le> x \<and> x \<le> q3 + (q3 - q1) * (3 / 2)) (sort l)) \<and>
    trim l \<noteq> Inr [] \<and> trim [] = Inl IndexError"
proof -
  obtain q1 q3 where q: "quantile l (1 / 4) = Inr q1" "quantile l (3 / 4) = Inr q3"
    using quantile_value [OF assms] by simp
  have n: "0 < length l" using assms by simp
  have "\<exists>m. (if even (length l)
             then rbind (py_index (sort l) (int (length l div 2))) (\<lambda>a. rbind (py_index (sort l) (int (length l div 2) - 1)) (\<lambda>b. Inr ((a + b) / 2)))
             else py_index (sort l) (int (length l div 2))) = Inr m"
  proof -
    have "py_index (sort l) (int (length l div 2)) = Inr (sort l ! (length l div 2))" using n by (simp add: py_index_def)
    moreover have "py_index (sort l) (int (length l div 2) - 1) = Inr (sort l ! (length l div 2 - 1))" if "even (length l)"
    proof -
      have "0 < length l div 2" using that n by (metis dvd_div_eq_0_iff neq0_conv)
      then have eq: "int (length l div 2) - 1 = int (length l div 2 - 1)" by simp
      have "length l div 2 - 1 < length l" using n by linarith
      then show ?thesis unfolding eq by (simp only: py_index_def length_sort nat_int of_nat_0_le_iff simp_thms if_True)
    qed
    ultimately show ?thesis by (cases "even (length l)") (simp_all only: if_True if_False rbind_simps, blast+)
  qed
  then obtain m where m: "(if even (length l)
             then rbind (py_index (sort l) (int (length l div 2))) (\<lambda>a. rbind (py_index (sort l) (int (length l div 2) - 1)) (\<lambda>b. Inr ((a + b) / 2)))
             else py_index (sort l) (int (length l div 2))) = Inr m" by blast
  have "trim l = Inr (filter (\<lambda>x. q1 - (q3 - q1) * (3 / 2) \<le> x \<and> x \<le> q3 + (q3 - q1) * (3 / 2)) (sort l))"
    unfolding trim_def Let_def length_sort m by (simp add: quantile_sort q)
  moreover have "filter (\<lambda>x. q1 - (q3 - q1) * (3 / 2) \<le> x \<and> x \<le> q3 + (q3 - q1) * (3 / 2)) (sort l) \<noteq> []"
    using between_quartiles [OF assms q] by (auto simp: filter_empty_conv)
  moreover have "trim [] = Inl IndexError" by (simp add: trim_def py_index_def)
  ultimately show ?thesis using q by simp
qed

section \<open>The area: values\<close>

definition closed_polygon :: "int_point list \<Rightarrow> int_point list" where
  "closed_polygon ps = (if last ps \<noteq> hd ps then ps @ [hd ps] else ps)"

definition float_points :: "int_point list \<Rightarrow> (rat \<times> rat) list" where
  "float_points ps = map (\<lambda>(x, y). (of_int x, of_int y)) ps"

definition scaled :: "int \<Rightarrow> int_point list \<Rightarrow> int_point list" where
  "scaled k ps = map (\<lambda>(x, y). (x * k, y * k)) ps"

lemma area_loop_acc: "area_loop ps a = a + area_loop ps 0"
proof (induction ps arbitrary: a rule: induct_list012)
  case (3 p q ps)
  from 3(2) [of "a + fst q * snd p - snd q * fst p"] 3(2) [of "0 + fst q * snd p - snd q * fst p"]
  show ?case by simp
qed simp_all

lemma area_loop_Cons: "area_loop (p # q # ps) 0 = (fst q * snd p - snd q * fst p) + area_loop (q # ps) 0"
  using area_loop_acc [of "q # ps" "fst q * snd p - snd q * fst p"] by simp

lemma scaled_Cons: "scaled k (p # ps) = (fst p * k, snd p * k) # scaled k ps"
  by (simp add: scaled_def case_prod_unfold)

lemma area_loop_scaled: "area_loop (scaled k ps) 0 = k ^ 2 * area_loop ps 0"
proof (induction ps rule: induct_list012)
  case (3 p q ps)
  have "area_loop (scaled k (p # q # ps)) 0 =
      (fst q * k * (snd p * k) - snd q * k * (fst p * k)) + area_loop (scaled k (q # ps)) 0"
    unfolding scaled_Cons area_loop_Cons by simp
  then show ?case unfolding 3(2) area_loop_Cons by (simp add: algebra_simps power2_eq_square)
qed (simp_all add: scaled_def)

lemma trunc_of_int [simp]: "trunc (of_int n) = n"
  by (simp add: trunc_def)

lemma scale_float_points: "map (scale_point k) (float_points ps) = scaled k ps"
proof -
  have "scale_point k (of_int x, of_int y) = (x * k, y * k)" for x y
    using trunc_of_int [of "x * k"] trunc_of_int [of "y * k"] by (simp add: scale_point_def)
  then show ?thesis by (auto simp: float_points_def scaled_def)
qed

lemma closed_scaled: "k \<noteq> 0 \<Longrightarrow> ps \<noteq> [] \<Longrightarrow> closed_polygon (scaled k ps) = scaled k (closed_polygon ps)"
  by (auto simp: closed_polygon_def scaled_def hd_map last_map split: prod.splits)

lemma polygon_area_value:
  assumes "ps \<noteq> []" "k \<noteq> 0"
  shows "polygon_area (float_points ps) k =
    Inr (of_int \<bar>k ^ 2 * area_loop (closed_polygon ps) 0 div 2\<bar> / of_int (k ^ 2), scaled k (closed_polygon ps))"
  using assms closed_scaled [OF assms(2,1)]
  by (simp add: polygon_area_def scale_float_points closed_polygon_def [symmetric] area_loop_scaled Let_def)
    (simp add: scaled_def)

lemma closed_closed: "ps \<noteq> [] \<Longrightarrow> closed_polygon (closed_polygon ps) = closed_polygon ps"
  by (auto simp: closed_polygon_def)

text \<open>
  For points with integer coordinates and an even precision the area is that of the shoelace formula.
  But the list of the caller is scaled and closed in place: a second call with the same list gives an
  area that is larger by the square of the precision.
\<close>

theorem polygon_area_twice:
  assumes "ps \<noteq> []" "k \<noteq> 0" "even k" "S = area_loop (closed_polygon ps) 0"
  shows "\<exists>qs. polygon_area (float_points ps) k = Inr (of_int \<bar>S\<bar> / 2, qs) \<and>
    polygon_area (float_points qs) k = Inr (of_int (k ^ 2) * (of_int \<bar>S\<bar> / 2), scaled k qs)"
proof -
  let ?c = "closed_polygon ps" and ?q = "scaled k (closed_polygon ps)"
  have exact: "of_int \<bar>k ^ 2 * m div 2\<bar> / of_int (k ^ 2) = (of_int \<bar>m\<bar> / 2 :: rat)" for m
  proof -
    obtain j where j: "k = 2 * j" using assms(3) by (auto elim: evenE)
    have "k ^ 2 * m div 2 = 2 * j ^ 2 * m" by (simp add: j power2_eq_square)
    moreover have "j \<noteq> 0" using j assms(2) by simp
    moreover have "\<bar>2 * j ^ 2 * m\<bar> = 2 * j ^ 2 * \<bar>m\<bar>" by (simp add: abs_mult)
    ultimately have "\<bar>k ^ 2 * m div 2\<bar> = 2 * j ^ 2 * \<bar>m\<bar>" by simp
    then show ?thesis using \<open>j \<noteq> 0\<close> by (simp only: of_int_mult of_int_power) (simp add: j power_mult_distrib)
  qed
  have ne: "?c \<noteq> []" using assms(1) by (simp add: closed_polygon_def)
  then have qne: "?q \<noteq> []" by (simp add: scaled_def)
  have cq: "closed_polygon ?q = ?q" using closed_scaled [OF assms(2) ne] closed_closed [OF assms(1)] by simp
  have "polygon_area (float_points ps) k = Inr (of_int \<bar>S\<bar> / 2, ?q)"
    unfolding polygon_area_value [OF assms(1,2)] exact assms(4) ..
  moreover have "polygon_area (float_points ?q) k = Inr (of_int \<bar>area_loop ?q 0\<bar> / 2, scaled k ?q)"
    unfolding polygon_area_value [OF qne assms(2)] cq exact ..
  moreover have "area_loop ?q 0 = k ^ 2 * S" unfolding area_loop_scaled assms(4) ..
  ultimately show ?thesis by (simp add: abs_mult)
qed

text \<open>Rounding down makes the area depend on the direction in which the points are listed.\<close>

lemma polygon_orientation:
  "map_sum id fst (polygon_area [(0, 0), (1, 0), (0, 1)] 1) = Inr 1"
  "map_sum id fst (polygon_area [(0, 0), (0, 1), (1, 0)] 1) = Inr 0"
  by (simp_all add: polygon_area_def scale_point_def trunc_def)

section \<open>Unit prefixes: values\<close>

lemma find_multiplier_sound:
  "find_multiplier v i ms = Some j \<Longrightarrow> i \<le> j \<and> Suc (j - i) < length ms \<and> ms ! (j - i) \<le> v \<and> v < ms ! Suc (j - i)"
proof (induction v i ms rule: find_multiplier.induct)
  case (1 v i l u ms)
  show ?case
  proof (cases "l \<le> v \<and> v < u")
    case False
    with 1 have "Suc i \<le> j \<and> Suc (j - Suc i) < length (u # ms) \<and> (u # ms) ! (j - Suc i) \<le> v \<and> v < (u # ms) ! Suc (j - Suc i)" by simp
    then show ?thesis by (auto simp: Suc_diff_Suc nth_Cons split: nat.splits) (metis Suc_diff_Suc Suc_le_lessD nth_Cons_Suc)+
  qed (use 1 in auto)
qed simp_all

lemma find_multiplier_total:
  "ms \<noteq> [] \<Longrightarrow> hd ms \<le> v \<Longrightarrow> v < last ms \<Longrightarrow> find_multiplier v i ms \<noteq> None"
  by (induction v i ms rule: find_multiplier.induct) (auto simp: not_less)

text \<open>
  The multiplier that \<^verbatim>\<open>nice_units\<close> starts from. It always exists; for a value between the least
  and the greatest multiplier it is the one with \<open>m \<le> value\<close> whose successor is larger, and for every
  smaller value, zero and the negative numbers included, it is the least one, so \<^verbatim>\<open>nice_units(0)\<close>
  and \<^verbatim>\<open>nice_units(-5)\<close> are given in yocto.
\<close>

theorem multiplier_index_correct:
  assumes "ms \<noteq> []" "sorted ms"
  shows "\<exists>i < length ms. multiplier_index v ms = Inr i \<and>
    (if v < hd ms then i = 0 else ms ! i \<le> v \<and> (Suc i < length ms \<longrightarrow> v < ms ! Suc i))"
proof (cases "v < hd ms \<or> last ms \<le> v")
  case True
  have "hd ms \<le> last ms" using assms by (cases ms) auto
  with True assms(1) show ?thesis by (auto simp: multiplier_index_def Let_def last_conv_nth)
next
  case False
  then obtain j where j: "find_multiplier v 0 ms = Some j" using find_multiplier_total [OF assms(1), of v 0] by auto
  from find_multiplier_sound [OF j] False j show ?thesis
    by (intro exI [of _ j]) (simp add: multiplier_index_def Let_def)
qed

lemma si_multipliers: "hd (map num (sort_key num (map fst (unit_prefixes ''si'' False)))) = power_int 10 (-24)"
  by code_simp

lemma bin_full_name: "dict_get bin_prefixes (IntNum (2 ^ 30)) = Inr (''G'', ''mega'')"
  by code_simp

lemma yocto_entry: "dict_get (unit_prefixes ''si'' False) (sort_key num (map fst (unit_prefixes ''si'' False)) ! 0) = Inr (''y'', ''yocto'')"
  "num (sort_key num (map fst (unit_prefixes ''si'' False)) ! 0) = power_int 10 (-24)"
  "sort_key num (map fst (unit_prefixes ''si'' False)) ! 0 = FloatNum (power_int 10 (-24))"
  by code_simp+

lemma nice_units_nonpositive:
  assumes "v \<le> 0"
  shows "nice_units fixed general (FloatNum v) dp (Some n) suff space False False ''si'' =
    Inr (general n (v / power_int 10 (-24)) @ space @ ''y'' @ suff)"
proof -
  have "v < power_int 10 (-24)" using assms by (rule order_le_less_trans) simp
  then have "multiplier_index v (map num (sort_key num (map fst (unit_prefixes ''si'' False)))) = Inr 0"
    by (simp only: multiplier_index_def Let_def si_multipliers) simp
  then show ?thesis using yocto_entry(1) by (simp add: nice_units_def Let_def yocto_entry(3))
qed

end
