(* ===== verification/ShellCmd.thy ===== *)
theory ShellCmd
  imports Prelude
begin

text \<open>
  \<^verbatim>\<open>waf-tools/shellcmd.py\<close>: a parser and an interpreter for a subset of the shell language.
  \<^verbatim>\<open>Pipeline.parse\<close> is a six-state machine over the tokens; \<^verbatim>\<open>Pipeline.run\<close>
  starts the processes of the parsed pipeline. The state of the parser is the record
  \<open>parser\<close> (the fields of \<^verbatim>\<open>Pipeline\<close> and the local variables of \<^verbatim>\<open>parse\<close>);
  the model starts from the token list, which \<^verbatim>\<open>parse\<close> accepts in place of a string.
  The lemmas show that the parser returns exactly the well-formed pipelines, that printing a
  well-formed pipeline and parsing it gives it back, and that a refused command line always
  fails with an \<^verbatim>\<open>AssertionError\<close>.
\<close>

section \<open>Nodes\<close>

datatype target = PIPE | STDOUT | File string

record command =
  cmd_name :: string
  argv :: "string list"
  stdin :: "string option"
  stdout :: "target option"
  stderr :: "target option"
  cmd_env :: "(string, string) dict option"

datatype node = Command command | Chdir "string option" | Pipe | And | Or

definition new_command :: "string \<Rightarrow> command" where
  "new_command name =
     \<lparr>cmd_name = name, argv = [name], stdin = None, stdout = None, stderr = None, cmd_env = None\<rparr>"

section \<open>The parser\<close>

text \<open>
  The regular expression \<^verbatim>\<open>^([a-zA-Z0-9_]+)=(\S+)$\<close>. The dollar sign also matches before
  a newline at the end.
\<close>

definition name_char :: "char \<Rightarrow> bool" where
  "name_char c = (let n = of_char c :: nat in
     97 \<le> n \<and> n \<le> 122 \<or> 65 \<le> n \<and> n \<le> 90 \<or> 48 \<le> n \<and> n \<le> 57 \<or> n = 95)"

definition env_var_rx :: "string \<Rightarrow> (string \<times> string) option" where
  "env_var_rx token =
     (case span_at (\<lambda>c. \<not> name_char c) token of
        (k, CHR ''='' # rest) \<Rightarrow>
          (let v = (if rest \<noteq> [] \<and> last rest = CHR 0x0A then butlast rest else rest) in
           if k \<noteq> [] \<and> v \<noteq> [] \<and> list_all (\<lambda>c. \<not> is_space c) v then Some (k, v) else None)
      | _ \<Rightarrow> None)"

datatype parse_state = P_BEGIN | P_COMMAND | P_CHDIR | P_STDERR | P_STDOUT | P_STDIN

record parser =
  current_command :: "node option"
  nodes :: "node list"
  state :: parse_state
  env_vars :: "(string, string) dict"

definition commit_command :: "parser \<Rightarrow> parser result" where
  "commit_command p =
     (case current_command p of
        None \<Rightarrow> Inl AssertionError
      | Some c \<Rightarrow> Inr (p\<lparr>nodes := nodes p @ [c], current_command := None\<rparr>))"

text \<open>The end of a command: commit it, append the operator, expect the next command.\<close>

definition end_command :: "node \<Rightarrow> parser \<Rightarrow> parser result" where
  "end_command op p =
     rbind (commit_command p) (\<lambda>p. Inr (p\<lparr>nodes := nodes p @ [op], state := P_BEGIN\<rparr>))"

text \<open>An access to a field of \<^verbatim>\<open>self.current_command\<close> that only a \<^verbatim>\<open>Command\<close> has.\<close>

definition on_command :: "(command \<Rightarrow> command result) \<Rightarrow> parser \<Rightarrow> parser result" where
  "on_command f p =
     (case current_command p of
        Some (Command c) \<Rightarrow> rbind (f c) (\<lambda>c. Inr (p\<lparr>current_command := Some (Command c)\<rparr>))
      | _ \<Rightarrow> Inl AttributeError)"

definition set_stdin :: "string \<Rightarrow> command \<Rightarrow> command result" where
  "set_stdin t c = py_assert (stdin c = None) (Inr (c\<lparr>stdin := Some t\<rparr>))"

definition set_stdout :: "target \<Rightarrow> command \<Rightarrow> command result" where
  "set_stdout t c = py_assert (stdout c = None) (Inr (c\<lparr>stdout := Some t\<rparr>))"

definition set_stderr :: "target \<Rightarrow> command \<Rightarrow> command result" where
  "set_stderr t c = py_assert (stderr c = None) (Inr (c\<lparr>stderr := Some t\<rparr>))"

definition add_arg :: "string \<Rightarrow> command \<Rightarrow> command result" where
  "add_arg t c = Inr (c\<lparr>argv := argv c @ [t]\<rparr>)"

definition step_begin :: "parser \<Rightarrow> string \<Rightarrow> parser result" where
  "step_begin p token =
     (case env_var_rx token of
        Some (k, v) \<Rightarrow> Inr (p\<lparr>env_vars := AList.update k v (env_vars p)\<rparr>)
      | None \<Rightarrow>
          py_assert (current_command p = None)
            (if token = ''cd''
             then py_assert (env_vars p = [])
                    (Inr (p\<lparr>current_command := Some (Chdir None), state := P_CHDIR\<rparr>))
             else let c = new_command token in
                  Inr (if env_vars p \<noteq> []
                       then p\<lparr>current_command := Some (Command (c\<lparr>cmd_env := Some (env_vars p)\<rparr>)),
                              env_vars := [], state := P_COMMAND\<rparr>
                       else p\<lparr>current_command := Some (Command c), state := P_COMMAND\<rparr>)))"

definition step_command :: "parser \<Rightarrow> string \<Rightarrow> parser result" where
  "step_command p token =
     (if token = ''>'' then Inr (p\<lparr>state := P_STDOUT\<rparr>)
      else if token = ''2>'' then Inr (p\<lparr>state := P_STDERR\<rparr>)
      else if token = ''2>&1'' then on_command (set_stderr STDOUT) p
      else if token = ''<'' then Inr (p\<lparr>state := P_STDIN\<rparr>)
      else if token = ''|'' then rbind (on_command (set_stdout PIPE) p) (end_command Pipe)
      else if token = ''&&'' then end_command And p
      else if token = ''||'' then end_command Or p
      else on_command (add_arg token) p)"

definition step_chdir :: "parser \<Rightarrow> string \<Rightarrow> parser result" where
  "step_chdir p token =
     (if token = ''&&'' then end_command And p
      else case current_command p of
             Some (Chdir d) \<Rightarrow>
               py_assert (d = None) (Inr (p\<lparr>current_command := Some (Chdir (Some token))\<rparr>))
           | _ \<Rightarrow> Inl AttributeError)"

definition to_command :: "parser result \<Rightarrow> parser result" where
  "to_command r = rbind r (\<lambda>p. Inr (p\<lparr>state := P_COMMAND\<rparr>))"

definition parse_step :: "parser \<Rightarrow> string \<Rightarrow> parser result" where
  "parse_step p token =
     (case state p of
        P_BEGIN \<Rightarrow> step_begin p token
      | P_COMMAND \<Rightarrow> step_command p token
      | P_CHDIR \<Rightarrow> step_chdir p token
      | P_STDOUT \<Rightarrow> to_command (on_command (set_stdout (File token)) p)
      | P_STDERR \<Rightarrow> to_command (on_command (set_stderr (File token)) p)
      | P_STDIN \<Rightarrow> to_command (on_command (set_stdin token) p))"

definition init_parser :: parser where
  "init_parser = \<lparr>current_command = None, nodes = [], state = P_BEGIN, env_vars = []\<rparr>"

definition parse :: "string list \<Rightarrow> node list result" where
  "parse tokens =
     rbind (for_each parse_step tokens init_parser) (\<lambda>p.
       rbind (commit_command p) (\<lambda>p. Inr (nodes p)))"

text \<open>\<^verbatim>\<open>get_abbreviated_command\<close>; \<^verbatim>\<open>'%s' % None\<close> prints \<^verbatim>\<open>None\<close>.\<close>

fun abbreviate :: "node \<Rightarrow> string list" where
  "abbreviate (Command c) = [cmd_name c]"
| "abbreviate (Chdir d) = [''cd '' @ (case d of None \<Rightarrow> ''None'' | Some s \<Rightarrow> s)]"
| "abbreviate Pipe = [''|'']"
| "abbreviate And = [''&&'']"
| "abbreviate Or = []"

definition get_abbreviated_command :: "node list \<Rightarrow> string" where
  "get_abbreviated_command ns = join_with '' '' (concat (map abbreviate ns))"

section \<open>Well-formed pipelines\<close>

definition operators :: "string list" where
  "operators = [''>'', ''2>'', ''2>&1'', ''<'', ''|'', ''&&'', ''||'']"

definition env_ok :: "(string, string) dict \<Rightarrow> bool" where
  "env_ok d = (dict_ok d \<and> list_all (\<lambda>(k, v). env_var_rx (k @ ''='' @ v) = Some (k, v)) d)"

definition command_ok :: "command \<Rightarrow> bool" where
  "command_ok c =
     (argv c \<noteq> [] \<and> hd (argv c) = cmd_name c \<and> cmd_name c \<noteq> ''cd'' \<and>
      env_var_rx (cmd_name c) = None \<and>
      list_all (\<lambda>a. a \<notin> set operators) (tl (argv c)) \<and>
      stdout c \<noteq> Some STDOUT \<and> stderr c \<noteq> Some PIPE \<and>
      (case cmd_env c of None \<Rightarrow> True | Some d \<Rightarrow> d \<noteq> [] \<and> env_ok d))"

text \<open>A node at the end of a pipeline.\<close>

fun end_ok :: "node \<Rightarrow> bool" where
  "end_ok (Command c) = (command_ok c \<and> stdout c \<noteq> Some PIPE)"
| "end_ok (Chdir d) = (d \<noteq> Some ''&&'')"
| "end_ok _ = False"

text \<open>A pipeline up to and including an operator: the part that is committed.\<close>

fun open_ok :: "node list \<Rightarrow> bool" where
  "open_ok [] = True"
| "open_ok (Command c # Pipe # ns) = (command_ok c \<and> stdout c = Some PIPE \<and> open_ok ns)"
| "open_ok (n # And # ns) = (end_ok n \<and> open_ok ns)"
| "open_ok (Command c # Or # ns) = (end_ok (Command c) \<and> open_ok ns)"
| "open_ok _ = False"

definition pipeline_ok :: "node list \<Rightarrow> bool" where
  "pipeline_ok ns = (ns \<noteq> [] \<and> open_ok (butlast ns) \<and> end_ok (last ns))"

lemma open_ok_append: "open_ok ms \<Longrightarrow> open_ok (ms @ ns) = open_ok ns"
  by (induction ms rule: open_ok.induct) auto

lemma pipeline_ok_snoc [simp]: "pipeline_ok (ns @ [n]) \<longleftrightarrow> open_ok ns \<and> end_ok n"
  by (simp add: pipeline_ok_def)

section \<open>The invariant of the parser\<close>

definition parser_ok :: "parser \<Rightarrow> bool" where
  "parser_ok p =
     (open_ok (nodes p) \<and> env_ok (env_vars p) \<and>
      (case state p of
         P_BEGIN \<Rightarrow> current_command p = None
       | P_CHDIR \<Rightarrow> env_vars p = [] \<and> (\<exists>d. current_command p = Some (Chdir d) \<and> end_ok (Chdir d))
       | _ \<Rightarrow> env_vars p = [] \<and> (\<exists>c. current_command p = Some (Command c) \<and> end_ok (Command c))))"

lemma env_ok_Nil [simp]: "env_ok []"
  by (simp add: env_ok_def)

text \<open>What the regular expression accepts, printed again, is accepted with the same groups.\<close>

lemma env_var_rx_again:
  assumes "env_var_rx token = Some (k, v)"
  shows "env_var_rx (k @ ''='' @ v) = Some (k, v)"
proof -
  have np: "\<not> name_char (CHR ''='')" by (simp add: name_char_def)
  from assms have k: "k = takeWhile name_char token" "k \<noteq> []"
    and v: "v \<noteq> []" "list_all (\<lambda>c. \<not> is_space c) v"
    by (auto simp: env_var_rx_def span_at_def Let_def split: prod.splits list.splits if_splits char.splits bool.splits)
  have kc: "\<forall>x\<in>set k. name_char x" using k(1) by (auto dest: set_takeWhileD)
  have "last v \<noteq> CHR 0x0A"
    using v by (metis is_space_def insertCI last_in_set list_all_iff)
  with kc np v k(2) show ?thesis
    by (simp add: env_var_rx_def span_at_def Let_def takeWhile_append2 dropWhile_append2)
qed

lemma env_ok_update:
  assumes "env_ok d" "env_var_rx token = Some (k, v)"
  shows "env_ok (AList.update k v d)"
proof -
  have "\<forall>e\<in>set (AList.update k v d). case e of (k, v) \<Rightarrow> env_var_rx (k @ ''='' @ v) = Some (k, v)"
  proof
    fix e assume "e \<in> set (AList.update k v d)"
    then have "e = (k, v) \<or> e \<in> set d" using set_dict_update [of k v d] by blast
    then show "case e of (k, v) \<Rightarrow> env_var_rx (k @ ''='' @ v) = Some (k, v)"
      using assms(1) env_var_rx_again [OF assms(2)] by (auto simp: env_ok_def list_all_iff)
  qed
  with assms(1) show ?thesis by (simp add: env_ok_def list_all_iff)
qed

lemma command_ok_new [simp]:
  "token \<noteq> ''cd'' \<Longrightarrow> env_var_rx token = None \<Longrightarrow> command_ok (new_command token)"
  by (simp add: command_ok_def new_command_def)

lemma command_ok_env:
  "command_ok c \<Longrightarrow> d \<noteq> [] \<Longrightarrow> env_ok d \<Longrightarrow> command_ok (c\<lparr>cmd_env := Some d\<rparr>)"
  by (simp add: command_ok_def)

lemma command_ok_set:
  "command_ok c \<Longrightarrow> set_stdin f c = Inr c' \<Longrightarrow> command_ok c' \<and> stdout c' = stdout c"
  "command_ok c \<Longrightarrow> t \<noteq> STDOUT \<Longrightarrow> set_stdout t c = Inr c' \<Longrightarrow> command_ok c' \<and> stdout c' = Some t"
  "command_ok c \<Longrightarrow> t \<noteq> PIPE \<Longrightarrow> set_stderr t c = Inr c' \<Longrightarrow> command_ok c' \<and> stdout c' = stdout c"
  by (auto simp: command_ok_def set_stdin_def set_stdout_def set_stderr_def py_assert_def
      split: if_splits)

lemma command_ok_arg:
  "command_ok c \<Longrightarrow> a \<notin> set operators \<Longrightarrow> command_ok (c\<lparr>argv := argv c @ [a]\<rparr>)"
  by (auto simp: command_ok_def)

text \<open>The steps, with the assertion as the only failure.\<close>

lemma set_errors:
  "set_stdin f c = Inl e \<Longrightarrow> e = AssertionError"
  "set_stdout t c = Inl e \<Longrightarrow> e = AssertionError"
  "set_stderr t c = Inl e \<Longrightarrow> e = AssertionError"
  by (auto simp: set_stdin_def set_stdout_def set_stderr_def py_assert_def split: if_splits)

definition step_ok :: "parser result \<Rightarrow> bool" where
  "step_ok r = (case r of Inl e \<Rightarrow> e = AssertionError | Inr p \<Rightarrow> parser_ok p)"

lemma step_ok_simps [simp]:
  "step_ok (Inl e) = (e = AssertionError)" "step_ok (Inr p) = parser_ok p"
  by (simp_all add: step_ok_def)

lemma end_command_ok:
  assumes "open_ok (nodes p)" "env_vars p = []" "current_command p = Some n"
    and "open_ok [n, op]"
  shows "step_ok (end_command op p)"
  using assms by (simp add: end_command_def commit_command_def parser_ok_def open_ok_append)

lemma step_begin_ok:
  assumes "parser_ok p" "state p = P_BEGIN"
  shows "step_ok (step_begin p token)"
proof (cases "env_var_rx token")
  case None
  with assms show ?thesis
    by (simp add: step_begin_def parser_ok_def py_assert_def Let_def command_ok_env)
      (simp add: new_command_def)
next
  case (Some kv)
  then obtain k v where kv: "env_var_rx token = Some (k, v)" by (cases kv) simp
  have "env_ok (AList.update k v (env_vars p))"
    using env_ok_update [OF _ kv] assms(1) by (simp add: parser_ok_def)
  with assms kv show ?thesis by (simp add: step_begin_def parser_ok_def)
qed

lemma step_command_ok: 
  assumes "parser_ok p" "state p = P_COMMAND"
  shows "step_ok (step_command p token)"
proof -
  from assms obtain c where c: "current_command p = Some (Command c)" "command_ok c"
      "stdout c \<noteq> Some PIPE" and p: "open_ok (nodes p)" "env_vars p = []"
    by (auto simp: parser_ok_def)
  have on: "on_command f p = rbind (f c) (\<lambda>c. Inr (p\<lparr>current_command := Some (Command c)\<rparr>))" for f
    using c by (simp add: on_command_def)
  have pipe: "step_ok (rbind (on_command (set_stdout PIPE) p) (end_command Pipe))"
    using p c(2) by (cases "set_stdout PIPE c")
      (auto simp: on dest: set_errors command_ok_set(2) intro!: end_command_ok)
  have err: "step_ok (on_command (set_stderr STDOUT) p)"
    using p c assms(2) by (cases "set_stderr STDOUT c")
      (auto simp: on parser_ok_def dest: set_errors command_ok_set(3))
  have arg: "step_ok (on_command (add_arg token) p)" if "token \<notin> set operators"
    using p c assms(2) that by (simp add: on add_arg_def parser_ok_def command_ok_arg)
  have ops: "step_ok (end_command And p)" "step_ok (end_command Or p)"
    using c p by (auto intro!: end_command_ok)
  have st: "step_ok (Inr (p\<lparr>state := s\<rparr>))" if "s \<in> {P_STDOUT, P_STDERR, P_STDIN}" for s
    using that c p by (auto simp: parser_ok_def)
  show ?thesis
    unfolding step_command_def using pipe err arg ops st by (simp add: operators_def)
qed

lemma step_chdir_ok:
  assumes "parser_ok p" "state p = P_CHDIR"
  shows "step_ok (step_chdir p token)"
proof -
  from assms obtain d where d: "current_command p = Some (Chdir d)" "end_ok (Chdir d)"
      and p: "open_ok (nodes p)" "env_vars p = []"
    by (auto simp: parser_ok_def)
  then have "step_ok (end_command And p)" by (auto intro!: end_command_ok)
  with d p assms(2) show ?thesis
    by (auto simp: step_chdir_def py_assert_def parser_ok_def)
qed

lemma step_redirect_ok:
  assumes "parser_ok p" "state p \<in> {P_STDOUT, P_STDERR, P_STDIN}"
    and f: "f \<in> {set_stdout (File t), set_stderr (File t), set_stdin t}"
  shows "step_ok (to_command (on_command f p))"
proof -
  from assms obtain c where c: "current_command p = Some (Command c)" "command_ok c"
      "stdout c \<noteq> Some PIPE" and p: "open_ok (nodes p)" "env_vars p = []"
    by (auto simp: parser_ok_def)
  show ?thesis
  proof (cases "f c")
    case (Inl e)
    with f have "e = AssertionError" by (auto dest: set_errors)
    with Inl c show ?thesis by (simp add: to_command_def on_command_def)
  next
    case (Inr c')
    with f c have "command_ok c' \<and> stdout c' \<noteq> Some PIPE"
      using command_ok_set(1) [of c t c'] command_ok_set(2) [of c "File t" c']
        command_ok_set(3) [of c "File t" c'] by auto
    with Inr c p show ?thesis by (simp add: to_command_def on_command_def parser_ok_def)
  qed
qed

lemma parse_step_ok: "parser_ok p \<Longrightarrow> step_ok (parse_step p token)"
  by (cases "state p")
    (auto simp: parse_step_def step_begin_ok step_command_ok step_chdir_ok
      intro!: step_redirect_ok)

lemma parse_loop_ok: "parser_ok p \<Longrightarrow> step_ok (for_each parse_step tokens p)"
proof (induction tokens arbitrary: p)
  case (Cons t ts)
  from parse_step_ok [OF Cons.prems, of t] Cons.IH show ?case
    by (cases "parse_step p t") simp_all
qed simp

lemma parser_ok_init [simp]: "parser_ok init_parser"
  by (simp add: parser_ok_def init_parser_def)

lemma parse_image: "parse tokens = Inr ns \<Longrightarrow> pipeline_ok ns"
  using parse_loop_ok [OF parser_ok_init, of tokens]
  by (auto simp: parse_def rbind_eq_Inr commit_command_def parser_ok_def
      split: option.splits parse_state.splits)

lemma parse_errors: "parse tokens = Inl e \<Longrightarrow> e = AssertionError"
  using parse_loop_ok [OF parser_ok_init, of tokens]
  by (auto simp: parse_def rbind_eq_Inl commit_command_def split: option.splits)

section \<open>Printing a pipeline\<close>

fun render_target :: "string \<Rightarrow> target option \<Rightarrow> string list" where
  "render_target op (Some (File f)) = [op, f]"
| "render_target op (Some STDOUT) = [''2>&1'']"
| "render_target op _ = []"

definition render_env :: "(string, string) dict \<Rightarrow> string list" where
  "render_env d = map (\<lambda>(k, v). k @ ''='' @ v) d"

definition render_command :: "command \<Rightarrow> string list" where
  "render_command c =
     (case cmd_env c of None \<Rightarrow> [] | Some d \<Rightarrow> render_env d) @ argv c @
     (case stdin c of None \<Rightarrow> [] | Some f \<Rightarrow> [''<'', f]) @
     render_target ''>'' (stdout c) @ render_target ''2>'' (stderr c)"

fun render_node :: "node \<Rightarrow> string list" where
  "render_node (Command c) = render_command c"
| "render_node (Chdir None) = [''cd'']"
| "render_node (Chdir (Some d)) = [''cd'', d]"
| "render_node Pipe = [''|'']"
| "render_node And = [''&&'']"
| "render_node Or = [''||'']"

definition render :: "node list \<Rightarrow> string list" where
  "render ns = concat (map render_node ns)"

text \<open>
  Parsing what was printed, piece by piece: the environment assignments, the arguments, the
  redirections, a whole command.
\<close>

lemma parse_env_vars:
  assumes "state p = P_BEGIN" "env_ok d" "dict_ok (env_vars p @ d)"
  shows "for_each parse_step (render_env d) p = Inr (p\<lparr>env_vars := env_vars p @ d\<rparr>)"
  using assms
proof (induction d arbitrary: p)
  case Nil
  then show ?case by (simp add: render_env_def)
next
  case (Cons kv d)
  obtain k v where kv: "kv = (k, v)" by fastforce
  let ?p = "p\<lparr>env_vars := env_vars p @ [(k, v)]\<rparr>"
  have new: "AList.update k v (env_vars p) = env_vars p @ [(k, v)]"
    using Cons.prems(3) by (intro dict_update_new) (auto simp: kv dict_ok_def dict_keys_def)
  have "parse_step p (k @ ''='' @ v) = Inr ?p"
    using Cons.prems(1,2) new by (simp add: parse_step_def step_begin_def env_ok_def kv)
  moreover have "for_each parse_step (render_env d) ?p = Inr (?p\<lparr>env_vars := env_vars ?p @ d\<rparr>)"
    using Cons.prems by (intro Cons.IH) (auto simp: env_ok_def kv dict_ok_def dict_keys_def)
  ultimately show ?case by (simp add: render_env_def kv)
qed

lemma parse_step_COMMAND:
  "state p = P_COMMAND \<Longrightarrow> parse_step p t = step_command p t"
  by (simp add: parse_step_def)

lemma parse_args:
  assumes "state p = P_COMMAND" "current_command p = Some (Command c)"
    "list_all (\<lambda>a. a \<notin> set operators) as"
  shows "for_each parse_step as p = Inr (p\<lparr>current_command := Some (Command (c\<lparr>argv := argv c @ as\<rparr>))\<rparr>)"
  using assms
proof (induction "as" arbitrary: p c)
  case (Cons a as)
  let ?p = "p\<lparr>current_command := Some (Command (c\<lparr>argv := argv c @ [a]\<rparr>))\<rparr>"
  have "parse_step p a = Inr ?p"
    using Cons.prems by (auto simp: parse_step_COMMAND step_command_def operators_def
        on_command_def add_arg_def)
  moreover have "for_each parse_step as ?p =
      Inr (?p\<lparr>current_command := Some (Command (c\<lparr>argv := argv c @ [a], argv := (argv c @ [a]) @ as\<rparr>))\<rparr>)"
    using Cons.prems Cons.IH [of ?p "c\<lparr>argv := argv c @ [a]\<rparr>"] by simp
  ultimately show ?case by simp
qed simp

lemma parse_redirects:
  assumes "state p = P_COMMAND" "current_command p = Some (Command c)"
  shows "stdin c = None \<Longrightarrow> for_each parse_step [''<'', f] p =
      Inr (p\<lparr>current_command := Some (Command (c\<lparr>stdin := Some f\<rparr>))\<rparr>)"
    and "stdout c = None \<Longrightarrow> for_each parse_step [''>'', f] p =
      Inr (p\<lparr>current_command := Some (Command (c\<lparr>stdout := Some (File f)\<rparr>))\<rparr>)"
    and "stderr c = None \<Longrightarrow> for_each parse_step [''2>'', f] p =
      Inr (p\<lparr>current_command := Some (Command (c\<lparr>stderr := Some (File f)\<rparr>))\<rparr>)"
    and "stderr c = None \<Longrightarrow> for_each parse_step [''2>&1''] p =
      Inr (p\<lparr>current_command := Some (Command (c\<lparr>stderr := Some STDOUT\<rparr>))\<rparr>)"
  using assms
  by (simp_all add: parse_step_def step_command_def to_command_def on_command_def set_stdin_def
      set_stdout_def set_stderr_def py_assert_def)

text \<open>A command as the parser holds it before the pipe sign.\<close>

definition unpiped :: "command \<Rightarrow> command" where
  "unpiped c = (if stdout c = Some PIPE then c\<lparr>stdout := None\<rparr> else c)"

definition holding :: "parser \<Rightarrow> command \<Rightarrow> parser" where
  "holding p c = p\<lparr>current_command := Some (Command c), state := P_COMMAND\<rparr>"

lemma holding_simps [simp]:
  "state (holding p c) = P_COMMAND" "current_command (holding p c) = Some (Command c)"
  "(holding p c)\<lparr>current_command := Some (Command c')\<rparr> = holding p c'"
  "nodes (holding p c) = nodes p" "env_vars (holding p c) = env_vars p"
  by (simp_all add: holding_def)

lemma parse_name:
  assumes "state p = P_BEGIN" "current_command p = None" "env_vars p = []" "command_ok c"
  shows "for_each parse_step
      ((case cmd_env c of None \<Rightarrow> [] | Some d \<Rightarrow> render_env d) @ [cmd_name c]) p =
    Inr (holding p ((new_command (cmd_name c))\<lparr>cmd_env := cmd_env c\<rparr>))"
proof (cases "cmd_env c")
  case None
  with assms show ?thesis
    by (simp add: parse_step_def step_begin_def command_ok_def py_assert_def Let_def holding_def)
      (simp add: new_command_def)
next
  case (Some d)
  with assms have d: "d \<noteq> []" "env_ok d" "dict_ok d" by (auto simp: command_ok_def env_ok_def)
  have "for_each parse_step (render_env d) p = Inr (p\<lparr>env_vars := d\<rparr>)"
    using parse_env_vars [OF assms(1) d(2)] assms(3) d(3) by simp
  moreover have "p\<lparr>env_vars := []\<rparr> = p" using assms(3) by simp
  ultimately show ?thesis
    using assms d Some
    by (simp add: for_each_append parse_step_def step_begin_def command_ok_def py_assert_def
        Let_def holding_def)
qed

lemma parse_opt_redirects:
  "stdin c = None \<Longrightarrow>
     for_each parse_step (case i of None \<Rightarrow> [] | Some f \<Rightarrow> [''<'', f]) (holding p c) =
       Inr (holding p (c\<lparr>stdin := i\<rparr>))"
  "stdout c = None \<Longrightarrow> t \<noteq> Some STDOUT \<Longrightarrow>
     for_each parse_step (render_target ''>'' t) (holding p c) =
       Inr (holding p (c\<lparr>stdout := (if t = Some PIPE then None else t)\<rparr>))"
  "stderr c = None \<Longrightarrow> t \<noteq> Some PIPE \<Longrightarrow>
     for_each parse_step (render_target ''2>'' t) (holding p c) =
       Inr (holding p (c\<lparr>stderr := t\<rparr>))"
proof -
  assume "stdin c = None"
  then show "for_each parse_step (case i of None \<Rightarrow> [] | Some f \<Rightarrow> [''<'', f]) (holding p c) =
       Inr (holding p (c\<lparr>stdin := i\<rparr>))"
    using parse_redirects(1) [of "holding p c" c] by (cases i) simp_all
next
  assume "stdout c = None" "t \<noteq> Some STDOUT"
  then show "for_each parse_step (render_target ''>'' t) (holding p c) =
       Inr (holding p (c\<lparr>stdout := (if t = Some PIPE then None else t)\<rparr>))"
    using parse_redirects(2) [of "holding p c" c] by (cases "(''>'', t)" rule: render_target.cases) simp_all
next
  assume "stderr c = None" "t \<noteq> Some PIPE"
  then show "for_each parse_step (render_target ''2>'' t) (holding p c) =
       Inr (holding p (c\<lparr>stderr := t\<rparr>))"
    using parse_redirects(3,4) [of "holding p c" c]
    by (cases "(''2>'', t)" rule: render_target.cases) simp_all
qed

lemma parse_render_command:
  assumes "state p = P_BEGIN" "current_command p = None" "env_vars p = []" "command_ok c"
  shows "for_each parse_step (render_command c) p = Inr (holding p (unpiped c))"
proof -
  define c1 where "c1 = (new_command (cmd_name c))\<lparr>cmd_env := cmd_env c\<rparr>"
  define c2 where "c2 = c1\<lparr>argv := argv c, stdin := stdin c\<rparr>"
  define c3 where "c3 = c2\<lparr>stdout := stdout (unpiped c)\<rparr>"
  let ?run = "for_each parse_step"
  let ?pre = "case cmd_env c of None \<Rightarrow> [] | Some d \<Rightarrow> render_env d"
  note defs = c3_def c2_def c1_def new_command_def unpiped_def
  have args: "argv c = [cmd_name c] @ tl (argv c)" "list_all (\<lambda>a. a \<notin> set operators) (tl (argv c))"
    and io: "stdout c \<noteq> Some STDOUT" "stderr c \<noteq> Some PIPE"
    using assms(4) by (auto simp: command_ok_def) (metis list.collapse)
  have s1: "?run (?pre @ [cmd_name c]) p = Inr (holding p c1)"
    unfolding c1_def by (rule parse_name [OF assms])
  have "c1\<lparr>argv := argv c1 @ tl (argv c)\<rparr> = c1\<lparr>argv := argv c\<rparr>"
    using args(1) by (simp add: c1_def new_command_def)
  then have s2: "?run (tl (argv c)) (holding p c1) = Inr (holding p (c1\<lparr>argv := argv c\<rparr>))"
    using parse_args [of "holding p c1" c1 "tl (argv c)"] args(2) by simp
  have s3: "?run (case stdin c of None \<Rightarrow> [] | Some f \<Rightarrow> [''<'', f]) (holding p (c1\<lparr>argv := argv c\<rparr>)) =
      Inr (holding p c2)"
    using parse_opt_redirects(1) [of "c1\<lparr>argv := argv c\<rparr>" "stdin c" p] by (simp add: defs)
  have s4: "?run (render_target ''>'' (stdout c)) (holding p c2) = Inr (holding p c3)"
    using parse_opt_redirects(2) [of c2 "stdout c" p] io by (auto simp: defs)
  have s5: "?run (render_target ''2>'' (stderr c)) (holding p c3) = Inr (holding p (unpiped c))"
    using parse_opt_redirects(3) [of c3 "stderr c" p] io by (simp add: defs)
  have "render_command c = (?pre @ [cmd_name c]) @ tl (argv c) @
      (case stdin c of None \<Rightarrow> [] | Some f \<Rightarrow> [''<'', f]) @
      render_target ''>'' (stdout c) @ render_target ''2>'' (stderr c)"
    using args(1) by (simp add: render_command_def)
  with s1 s2 s3 s4 s5 show ?thesis by (simp only: for_each_append rbind_simps)
qed

text \<open>A parser between two commands, after the nodes \<open>ns\<close>.\<close>

definition between :: "node list \<Rightarrow> parser" where
  "between ns = \<lparr>current_command = None, nodes = ns, state = P_BEGIN, env_vars = []\<rparr>"

lemma between_simps [simp]:
  "state (between ns) = P_BEGIN" "current_command (between ns) = None"
  "env_vars (between ns) = []" "nodes (between ns) = ns"
  by (simp_all add: between_def)

lemma parse_render_end:
  assumes "end_ok n"
  shows "rbind (for_each parse_step (render_node n) (between ns)) commit_command =
     Inr ((between (ns @ [n]))\<lparr>state := (case n of Chdir d \<Rightarrow> P_CHDIR | _ \<Rightarrow> P_COMMAND)\<rparr>)"
    and "for_each parse_step (render_node n @ [''&&'']) (between ns) = Inr (between (ns @ [n, And]))"
proof -
  have cd: "env_var_rx ''cd'' = None" by code_simp
  have "rbind (for_each parse_step (render_node n) (between ns)) commit_command =
     Inr ((between (ns @ [n]))\<lparr>state := (case n of Chdir d \<Rightarrow> P_CHDIR | _ \<Rightarrow> P_COMMAND)\<rparr>) \<and>
     for_each parse_step (render_node n @ [''&&'']) (between ns) = Inr (between (ns @ [n, And]))"
  proof (cases n)
    case (Command c)
    with assms have c: "command_ok c" "unpiped c = c" by (auto simp: unpiped_def)
    have "for_each parse_step (render_command c) (between ns) = Inr (holding (between ns) c)"
      using parse_render_command [of "between ns" c] c by simp
    then show ?thesis
      by (simp add: Command for_each_append commit_command_def end_command_def parse_step_COMMAND
          step_command_def holding_def between_def)
  next
    case (Chdir d)
    with assms cd show ?thesis
      by (cases d) (simp_all add: parse_step_def step_begin_def step_chdir_def py_assert_def
          commit_command_def end_command_def between_def)
  qed (use assms in simp_all)
  then show "rbind (for_each parse_step (render_node n) (between ns)) commit_command =
     Inr ((between (ns @ [n]))\<lparr>state := (case n of Chdir d \<Rightarrow> P_CHDIR | _ \<Rightarrow> P_COMMAND)\<rparr>)"
    and "for_each parse_step (render_node n @ [''&&'']) (between ns) = Inr (between (ns @ [n, And]))"
    by blast+
qed

lemma parse_render_op:
  assumes "command_ok c"
  shows "stdout c = Some PIPE \<Longrightarrow>
      for_each parse_step (render_command c @ [''|'']) (between ns) =
        Inr (between (ns @ [Command c, Pipe]))"
    and "stdout c \<noteq> Some PIPE \<Longrightarrow>
      for_each parse_step (render_command c @ [''||'']) (between ns) =
        Inr (between (ns @ [Command c, Or]))"
proof -
  have run: "for_each parse_step (render_command c) (between ns) = Inr (holding (between ns) (unpiped c))"
    using parse_render_command [of "between ns" c] assms by simp
  assume "stdout c = Some PIPE"
  then have "c\<lparr>stdout := Some PIPE\<rparr> = c" by simp
  with run \<open>stdout c = Some PIPE\<close>
  show "for_each parse_step (render_command c @ [''|'']) (between ns) =
      Inr (between (ns @ [Command c, Pipe]))"
    by (simp add: for_each_append parse_step_COMMAND step_command_def on_command_def set_stdout_def
        py_assert_def unpiped_def end_command_def commit_command_def holding_def between_def)
next
  have run: "for_each parse_step (render_command c) (between ns) = Inr (holding (between ns) (unpiped c))"
    using parse_render_command [of "between ns" c] assms by simp
  assume "stdout c \<noteq> Some PIPE"
  with run show "for_each parse_step (render_command c @ [''||'']) (between ns) =
      Inr (between (ns @ [Command c, Or]))"
    by (simp add: for_each_append parse_step_COMMAND step_command_def
        unpiped_def end_command_def commit_command_def holding_def between_def)
qed

lemma parse_render_Cons2:
  assumes "for_each parse_step (render_node n @ render_node op) (between ns) = Inr (between (ns @ [n, op]))"
    and "\<And>ns. for_each parse_step (render ms) (between ns) = Inr (between (ns @ ms))"
  shows "for_each parse_step (render (n # op # ms)) (between ns) = Inr (between (ns @ n # op # ms))"
proof -
  have "render (n # op # ms) = (render_node n @ render_node op) @ render ms"
    by (simp add: render_def)
  then show ?thesis
    using assms(1) assms(2) [of "ns @ [n, op]"] by (simp only: for_each_append [of _ _ "render ms"]) simp
qed

lemma parse_render_open:
  "open_ok ms \<Longrightarrow> for_each parse_step (render ms) (between ns) = Inr (between (ns @ ms))"
proof (induction ms arbitrary: ns rule: open_ok.induct)
  case (2 c ms)
  then show ?case
    using parse_render_op(1) [of c ns] by (intro parse_render_Cons2) simp_all
next
  case (3 n ms)
  then show ?case
    using parse_render_end(2) [of n ns] by (intro parse_render_Cons2) simp_all
next
  case (4 c ms)
  then show ?case
    using parse_render_op(2) [of c ns] by (intro parse_render_Cons2) simp_all
qed (simp_all add: render_def)

lemma parse_render_ok:
  assumes "pipeline_ok ns"
  shows "parse (render ns) = Inr ns"
proof -
  obtain ms n where ns: "ns = ms @ [n]" and ok: "open_ok ms" "end_ok n"
    using assms by (metis append_butlast_last_id pipeline_ok_def)
  have "init_parser = between []" by (simp add: init_parser_def between_def)
  then have "for_each parse_step (render ms) init_parser = Inr (between ms)"
    using parse_render_open [OF ok(1), of "[]"] by simp
  moreover have "for_each parse_step (render ns) init_parser =
      rbind (for_each parse_step (render ms) init_parser) (for_each parse_step (render_node n))"
    by (simp add: ns render_def for_each_append)
  ultimately show ?thesis
    using parse_render_end(1) [OF ok(2), of ms]
    by (simp add: parse_def ns flip: rbind_assoc)
qed

section \<open>Properties of the parser\<close>

text \<open>
  C13: the parser accepts exactly the language it is meant for. Every command line it accepts
  gives a well-formed pipeline (operands and operators alternate, a command has
  \<^verbatim>\<open>stdout is PIPE\<close> exactly when a pipe sign follows it, \<^verbatim>\<open>cd\<close> is followed only
  by \<^verbatim>\<open>&&\<close> or the end); every well-formed pipeline is the result of some command line;
  and a command line that is refused fails with an \<^verbatim>\<open>AssertionError\<close>, never with an
  access to a missing command.
\<close>

theorem parse_language:
  "((\<exists>tokens. parse tokens = Inr ns) = pipeline_ok ns) \<and>
   (\<nexists>tokens e. parse tokens = Inl e \<and> e \<noteq> AssertionError)"
  using parse_image parse_errors parse_render_ok by metis

text \<open>
  Printing and parsing. The tokens printed for a well-formed pipeline are parsed back to it,
  whatever its redirections, arguments and environment assignments are.
\<close>

theorem parse_render: "pipeline_ok ns \<Longrightarrow> parse (render ns) = Inr ns"
  by (rule parse_render_ok)

theorem parse_render_witness:
  "parse (render [Command ((new_command ''foo'')\<lparr>stderr := Some STDOUT, stdin := Some ''xxx'',
                      stdout := Some PIPE, cmd_env := Some [(''A'', ''b'')]\<rparr>),
            Pipe, Command (new_command ''cat''), And, Command (new_command ''ls'')]) =
   Inr [Command ((new_command ''foo'')\<lparr>stderr := Some STDOUT, stdin := Some ''xxx'',
           stdout := Some PIPE, cmd_env := Some [(''A'', ''b'')]\<rparr>),
        Pipe, Command (new_command ''cat''), And, Command (new_command ''ls'')]"
  by (rule parse_render) code_simp

end
