(* ===== verification/ShellRun.thy ===== *)
theory ShellRun
  imports ShellCmd
begin

text \<open>
  \<^verbatim>\<open>Pipeline.run\<close> of \<^verbatim>\<open>waf-tools/shellcmd.py\<close>: the interpreter of a parsed pipeline.
  The operating system is the record \<open>os\<close>: which files open, which processes start, the
  exit code of each process and the environment; nothing is assumed of it in the definitions.
  The state of the loop is the record \<open>runner\<close>, the local variables of \<^verbatim>\<open>run\<close> with a
  trace of the effects (files opened and closed, processes started and waited for, lines
  printed). The lemmas show that every file opened is closed and every process waited for, that
  the interpreter implements a short-circuit semantics of job lists, and that the verbose mode
  fails at every \<^verbatim>\<open>&&\<close> and \<^verbatim>\<open>||\<close>.
\<close>

section \<open>Definitions\<close>

datatype handle = InFile string | OutFile string | DevNull

datatype channel = SubPIPE | SubSTDOUT | Handle handle | ProcOut nat

record spawn =
  sp_argv :: "string list"
  sp_stdin :: "channel option"
  sp_stdout :: "channel option"
  sp_stderr :: "channel option"
  sp_env :: "(string, string) dict option"
  sp_cwd :: "string option"

record os =
  can_open :: "handle \<Rightarrow> bool"
  can_start :: "spawn \<Rightarrow> bool"
  exit_code :: "nat \<Rightarrow> spawn \<Rightarrow> int"
  environ :: "(string, string) dict"

record proc =
  pid :: nat
  proc_stdout :: "channel option"
  proc_code :: int

datatype event = Opened handle | Closed handle | Spawned spawn | Waited nat | Printed string

record runner =
  files_to_close :: "handle list"
  piped_commands :: "proc list"
  display :: "string list"
  in_pipe :: bool
  cwd :: string
  retval :: "int option"
  spawned :: nat
  trace :: "event list"

definition emit :: "event \<Rightarrow> runner \<Rightarrow> runner" where
  "emit e r = r\<lparr>trace := trace r @ [e]\<rparr>"

text \<open>\<^verbatim>\<open>if verbose: piped_commands_display.append(s)\<close>\<close>

definition show_if :: "bool \<Rightarrow> string \<Rightarrow> runner \<Rightarrow> runner" where
  "show_if verbose s r = (if verbose then r\<lparr>display := display r @ [s]\<rparr> else r)"

text \<open>\<^verbatim>\<open>open(f)\<close>, with the file remembered in \<^verbatim>\<open>files_to_close\<close>.\<close>

definition open_file :: "os \<Rightarrow> handle \<Rightarrow> runner \<Rightarrow> runner result" where
  "open_file os h r =
     (if can_open os h then Inr (emit (Opened h) (r\<lparr>files_to_close := files_to_close r @ [h]\<rparr>))
      else Inl IOError)"

text \<open>\<^verbatim>\<open>_open_out_file\<close> and the append to \<^verbatim>\<open>files_to_close\<close> after it.\<close>

definition open_out_file :: "os \<Rightarrow> string \<Rightarrow> runner \<Rightarrow> (handle \<times> runner) result" where
  "open_out_file os f r =
     (if f \<in> {''NUL:'', ''/dev/null''}
      then Inr (DevNull, r\<lparr>files_to_close := files_to_close r @ [DevNull]\<rparr>)
      else rbind (open_file os (OutFile f) r) (\<lambda>r. Inr (OutFile f, r)))"

definition setup_stdin :: "os \<Rightarrow> bool \<Rightarrow> command \<Rightarrow> runner \<Rightarrow> (channel option \<times> runner) result" where
  "setup_stdin os verbose c r =
     (if in_pipe r then rbind (py_index (piped_commands r) (-1)) (\<lambda>p. Inr (proc_stdout p, r))
      else case stdin c of
             Some f \<Rightarrow> rbind (open_file os (InFile f) r) (\<lambda>r.
                         Inr (Some (Handle (InFile f)), show_if verbose (''< '' @ f) r))
           | None \<Rightarrow> Inr (None, r))"

definition setup_stdout :: "os \<Rightarrow> bool \<Rightarrow> command \<Rightarrow> runner \<Rightarrow> (channel option \<times> runner) result" where
  "setup_stdout os verbose c r =
     (case stdout c of
        None \<Rightarrow> Inr (None, r)
      | Some PIPE \<Rightarrow> Inr (Some SubPIPE, r)
      | Some (File f) \<Rightarrow> rbind (open_out_file os f r) (\<lambda>(h, r).
          Inr (Some (Handle h), show_if verbose (''> '' @ f) r))
      | Some STDOUT \<Rightarrow> Inl TypeError)"

definition setup_stderr :: "os \<Rightarrow> bool \<Rightarrow> command \<Rightarrow> runner \<Rightarrow> (channel option \<times> runner) result" where
  "setup_stderr os verbose c r =
     (case stderr c of
        None \<Rightarrow> Inr (None, r)
      | Some PIPE \<Rightarrow> Inr (Some SubPIPE, r)
      | Some STDOUT \<Rightarrow> Inr (Some SubSTDOUT, show_if verbose ''2>&1'' r)
      | Some (File f) \<Rightarrow> rbind (open_out_file os f r) (\<lambda>(h, r).
          Inr (Some (Handle h), show_if verbose (''2> '' @ f) r)))"

text \<open>\<^verbatim>\<open>env = dict(os.environ); env.update(cmd.env_vars)\<close>\<close>

definition process_env :: "os \<Rightarrow> command \<Rightarrow> (string, string) dict option" where
  "process_env os c =
     (case cmd_env c of
        None \<Rightarrow> None
      | Some d \<Rightarrow> if d = [] then None
                  else Some (fold (\<lambda>(k, v). AList.update k v) d (environ os)))"

text \<open>What the verbose mode shows for the command itself.\<close>

definition display_command :: "command \<Rightarrow> string" where
  "display_command c =
     (case cmd_env c of
        None \<Rightarrow> join_with '' '' (argv c)
      | Some d \<Rightarrow> if d = [] then join_with '' '' (argv c)
                  else join_with '' '' (map (\<lambda>(k, v). k @ ''='' @ v) d) @ '' '' @ join_with '' '' (argv c))"

text \<open>\<^verbatim>\<open>subprocess.Popen\<close> and the append to \<^verbatim>\<open>piped_commands\<close>.\<close>

definition popen :: "os \<Rightarrow> spawn \<Rightarrow> runner \<Rightarrow> runner result" where
  "popen os sp r =
     (if can_start os sp
      then Inr (emit (Spawned sp) (r\<lparr>
             piped_commands := piped_commands r @
               [\<lparr>pid = spawned r,
                 proc_stdout = (if sp_stdout sp = Some SubPIPE then Some (ProcOut (spawned r)) else None),
                 proc_code = exit_code os (spawned r) sp\<rparr>],
             spawned := spawned r + 1\<rparr>))
      else Inl OSError)"

text \<open>The body of the loop for a command, up to and including the start of its process.\<close>

definition start_command :: "os \<Rightarrow> bool \<Rightarrow> command \<Rightarrow> runner \<Rightarrow> runner result" where
  "start_command os verbose c r =
     rbind (setup_stdin os verbose c (show_if verbose (display_command c) r)) (\<lambda>(i, r).
     rbind (setup_stdout os verbose c r) (\<lambda>(out, r).
     rbind (setup_stderr os verbose c r) (\<lambda>(err, r).
       popen os \<lparr>sp_argv = argv c, sp_stdin = i, sp_stdout = out, sp_stderr = err,
                 sp_env = process_env os c,
                 sp_cwd = (if cwd r = ''.'' then None else Some (cwd r))\<rparr> r)))"

text \<open>\<^verbatim>\<open>_exec_piped_commands\<close>: wait for all; the last exit code as soon as one is nonzero.\<close>

definition exec_piped_commands :: "runner \<Rightarrow> int \<times> runner" where
  "exec_piped_commands r =
     (let retvals = map proc_code (piped_commands r) in
      (if \<exists>x\<in>set retvals. x \<noteq> 0 then last retvals else 0,
       r\<lparr>trace := trace r @ map (\<lambda>p. Waited (pid p)) (piped_commands r)\<rparr>))"

definition close_files :: "runner \<Rightarrow> runner" where
  "close_files r =
     r\<lparr>trace := trace r @ map Closed (filter (\<lambda>h. h \<noteq> DevNull) (files_to_close r)),
       files_to_close := []\<rparr>"

text \<open>
  \<^verbatim>\<open>print("%s: exit code %i ..." % (..., retval))\<close>: the local variable is read, and is
  unbound as long as no assignment was executed.
\<close>

definition print_retval :: "string \<Rightarrow> runner \<Rightarrow> runner result" where
  "print_retval suffix r =
     (case retval r of
        None \<Rightarrow> Inl UnboundLocalError
      | Some v \<Rightarrow> Inr (emit (Printed (join_with '' '' (display r) @ '': exit code '' @ show_int v @ suffix)) r))"

definition print_if :: "bool \<Rightarrow> string \<Rightarrow> runner \<Rightarrow> runner result" where
  "print_if verbose suffix r = (if verbose then print_retval suffix r else Inr r)"

text \<open>
  The end of the pipeline: the exit code is returned. The files are closed in a
  \<^verbatim>\<open>finally\<close> clause, after the line is printed.
\<close>

definition finish_run :: "bool \<Rightarrow> runner \<Rightarrow> (int option \<times> runner) result" where
  "finish_run verbose r =
     (let (code, r) = exec_piped_commands r; r = r\<lparr>retval := Some code\<rparr> in
      rbind (print_if verbose [] r) (\<lambda>r. Inr (Some code, close_files r)))"

text \<open>The operators: \<^verbatim>\<open>||\<close> returns on a zero exit code, \<^verbatim>\<open>&&\<close> on a nonzero one.\<close>

definition short_circuits :: "node \<Rightarrow> int \<Rightarrow> bool" where
  "short_circuits op code = (if op = Or then code = 0 else code \<noteq> 0)"

definition op_text :: "node \<Rightarrow> string" where
  "op_text op = (if op = Or then ''||'' else ''&&'')"

definition after_operator :: "node \<Rightarrow> bool \<Rightarrow> runner \<Rightarrow> (int option \<times> runner) result" where
  "after_operator op verbose r =
     (let (code, r) = exec_piped_commands r; r = close_files r in
      if short_circuits op code
      then rbind (print_if verbose ('' ('' @ op_text op @ '' is short-circuited)'') r) (\<lambda>r. Inr (Some code, r))
      else rbind (print_if verbose ('' ('' @ op_text op @ '' proceeds)'') r) (\<lambda>r.
             Inr (None, r\<lparr>in_pipe := False, piped_commands := [], display := []\<rparr>)))"

definition after_chdir :: "bool \<Rightarrow> string option \<Rightarrow> runner \<Rightarrow> runner result" where
  "after_chdir verbose d r =
     (case d of
        None \<Rightarrow> Inl TypeError
      | Some d \<Rightarrow> Inr (show_if verbose (''cd '' @ d @ '' &&'') (r\<lparr>cwd := path_join (cwd r) d\<rparr>)))"

text \<open>
  The loop. The result is the value returned (\<open>None\<close> when the loop runs out of nodes, as
  Python then returns \<^verbatim>\<open>None\<close>) with the final state.
\<close>

fun run_loop :: "os \<Rightarrow> bool \<Rightarrow> node list \<Rightarrow> runner \<Rightarrow> (int option \<times> runner) result" where
  "run_loop os verbose [] r = Inr (None, r)"
| "run_loop os verbose (Chdir d # []) r = Inl IndexError"
| "run_loop os verbose (Chdir d # next_op # ns) r =
     (if next_op \<noteq> And then Inl AssertionError
      else rbind (after_chdir verbose d r) (run_loop os verbose ns))"
| "run_loop os verbose (Command c # []) r =
     rbind (start_command os verbose c r) (finish_run verbose)"
| "run_loop os verbose (Command c # next_node # ns) r =
     rbind (start_command os verbose c r) (\<lambda>r.
       if next_node = Pipe
       then run_loop os verbose ns (r\<lparr>in_pipe := True, display := display r @ [''|'']\<rparr>)
       else if next_node = Or \<or> next_node = And
       then rbind (after_operator next_node verbose r) (\<lambda>(code, r).
              case code of Some v \<Rightarrow> Inr (Some v, r) | None \<Rightarrow> run_loop os verbose ns r)
       else run_loop os verbose ns r)"
| "run_loop os verbose (node # ns) r = Inl AssertionError"

definition init_runner :: runner where
  "init_runner = \<lparr>files_to_close = [], piped_commands = [], display = [], in_pipe = False,
     cwd = ''.'', retval = None, spawned = 0, trace = []\<rparr>"

definition run :: "os \<Rightarrow> bool \<Rightarrow> node list \<Rightarrow> (int option \<times> runner) result" where
  "run os verbose pipeline = run_loop os verbose pipeline init_runner"

section \<open>Resources\<close>

text \<open>What a trace says of the files and the processes.\<close>

fun opened :: "event list \<Rightarrow> handle list" where
  "opened [] = []"
| "opened (Opened h # es) = h # opened es"
| "opened (_ # es) = opened es"

fun closed :: "event list \<Rightarrow> handle list" where
  "closed [] = []"
| "closed (Closed h # es) = h # closed es"
| "closed (_ # es) = closed es"

fun waited :: "event list \<Rightarrow> nat list" where
  "waited [] = []"
| "waited (Waited i # es) = i # waited es"
| "waited (_ # es) = waited es"

fun spawns :: "event list \<Rightarrow> spawn list" where
  "spawns [] = []"
| "spawns (Spawned sp # es) = sp # spawns es"
| "spawns (_ # es) = spawns es"

named_theorems trace_simps \<open>the projections of a trace\<close>

lemma trace_append [trace_simps]:
  "opened (xs @ ys) = opened xs @ opened ys" "closed (xs @ ys) = closed xs @ closed ys"
  "waited (xs @ ys) = waited xs @ waited ys" "spawns (xs @ ys) = spawns xs @ spawns ys"
  subgoal by (induction xs rule: opened.induct) simp_all
  subgoal by (induction xs rule: closed.induct) simp_all
  subgoal by (induction xs rule: waited.induct) simp_all
  subgoal by (induction xs rule: spawns.induct) simp_all
  done

lemma trace_map_Closed [trace_simps]:
  "opened (map Closed hs) = []" "closed (map Closed hs) = hs" "waited (map Closed hs) = []"
  "spawns (map Closed hs) = []"
  by (induction hs) simp_all

lemma trace_map_Waited [trace_simps]:
  "opened (map (\<lambda>p. Waited (pid p)) ps) = []" "closed (map (\<lambda>p. Waited (pid p)) ps) = []"
  "waited (map (\<lambda>p. Waited (pid p)) ps) = map pid ps" "spawns (map (\<lambda>p. Waited (pid p)) ps) = []"
  by (induction ps) simp_all

text \<open>
  During the loop the files that are open are those of \<^verbatim>\<open>files_to_close\<close> and the processes
  not waited for are those of \<^verbatim>\<open>piped_commands\<close>.
\<close>

definition run_inv :: "runner \<Rightarrow> bool" where
  "run_inv r =
     (mset (opened (trace r)) =
        mset (closed (trace r)) + mset (filter (\<lambda>h. h \<noteq> DevNull) (files_to_close r)) \<and>
      waited (trace r) @ map pid (piped_commands r) = [0..<spawned r])"

definition released :: "runner \<Rightarrow> bool" where
  "released r =
     (mset (opened (trace r)) = mset (closed (trace r)) \<and> waited (trace r) = [0..<spawned r])"

lemmas run_inv_simps = run_inv_def emit_def show_if_def open_file_def open_out_file_def trace_simps

lemma setup_inv:
  "run_inv r \<Longrightarrow> setup_stdin os v c r = Inr (ch, r') \<Longrightarrow> run_inv r'"
  "run_inv r \<Longrightarrow> setup_stdout os v c r = Inr (ch, r') \<Longrightarrow> run_inv r'"
  "run_inv r \<Longrightarrow> setup_stderr os v c r = Inr (ch, r') \<Longrightarrow> run_inv r'"
  by (auto simp: run_inv_simps setup_stdin_def setup_stdout_def setup_stderr_def rbind_eq_Inr
      split: option.splits if_splits target.splits)

lemma popen_inv: "run_inv r \<Longrightarrow> popen os sp r = Inr r' \<Longrightarrow> run_inv r'"
  by (auto simp: run_inv_simps popen_def split: if_splits)

lemma start_command_inv:
  assumes "run_inv r" "start_command os v c r = Inr r'"
  shows "run_inv r'"
proof -
  have "run_inv (show_if v (display_command c) r)" using assms(1) by (simp add: run_inv_simps)
  with assms(2) show ?thesis
    by (clarsimp simp: start_command_def rbind_eq_Inr) (meson popen_inv setup_inv)
qed

lemma print_if_trace:
  "print_if v s r = Inr r' \<Longrightarrow>
     opened (trace r') = opened (trace r) \<and> closed (trace r') = closed (trace r) \<and>
     waited (trace r') = waited (trace r) \<and> spawns (trace r') = spawns (trace r) \<and>
     files_to_close r' = files_to_close r \<and> spawned r' = spawned r"
  by (auto simp: print_if_def print_retval_def emit_def trace_simps split: if_splits option.splits)

lemma finish_run_released:
  "run_inv r \<Longrightarrow> finish_run v r = Inr (code, r') \<Longrightarrow> released r'"
  by (auto simp: finish_run_def exec_piped_commands_def Let_def rbind_eq_Inr close_files_def
      run_inv_def released_def trace_simps dest!: print_if_trace)

lemma after_operator_inv:
  assumes "run_inv r" "after_operator op v r = Inr (code, r')"
  shows "(code \<noteq> None \<longrightarrow> released r') \<and> (code = None \<longrightarrow> run_inv r')"
  using assms
  by (auto simp: after_operator_def exec_piped_commands_def Let_def rbind_eq_Inr close_files_def
      run_inv_def released_def trace_simps dest!: print_if_trace split: if_splits)

lemma run_loop_released:
  "run_inv r \<Longrightarrow> run_loop os v ns r = Inr (Some code, r') \<Longrightarrow> released r'"
proof (induction os v ns r rule: run_loop.induct)
  case (3 os v d op ns r)
  then obtain r1 where "after_chdir v d r = Inr r1" "run_loop os v ns r1 = Inr (Some code, r')" "op = And"
    by (auto simp: rbind_eq_Inr split: if_splits)
  moreover have "run_inv r1"
    using 3(2) calculation(1) by (auto simp: after_chdir_def run_inv_simps split: option.splits)
  ultimately show ?case using 3(1) by simp
next
  case (4 os v c r)
  then show ?case by (auto simp: rbind_eq_Inr dest: start_command_inv finish_run_released)
next
  case (5 os v c n ns r)
  then obtain r1 where r1: "start_command os v c r = Inr r1" by (auto simp: rbind_eq_Inr)
  with 5(4) have inv: "run_inv r1" by (rule start_command_inv)
  show ?case
  proof (cases "n = Or \<or> n = And")
    case True
    with 5(5) r1 obtain code1 r2 where op: "after_operator n v r1 = Inr (code1, r2)"
      and k: "(case code1 of Some x \<Rightarrow> Inr (Some x, r2) | None \<Rightarrow> run_loop os v ns r2) = Inr (Some code, r')"
      by (auto simp: rbind_eq_Inr)
    from after_operator_inv [OF inv op] k 5(2) [OF _ True] show ?thesis
      using True op by (cases code1) auto
  next
    case False
    with 5(5) r1 inv 5(1,3) show ?thesis by (auto simp: run_inv_def split: if_splits)
  qed
qed simp_all

section \<open>The short-circuit semantics of job lists\<close>

text \<open>
  The abstract semantics. A job changes the directory some number of times and runs a list of
  commands connected by pipes; jobs are connected by \<^verbatim>\<open>&&\<close> and \<^verbatim>\<open>||\<close>. A job
  starts all its processes; its exit code is that of the last one. An operator ends the whole
  list when it short-circuits, otherwise the rest is run.
\<close>

type_synonym job = "string list \<times> command list"

definition job_ok :: "job \<Rightarrow> bool" where
  "job_ok j =
     (snd j \<noteq> [] \<and>
      list_all (\<lambda>c. stdout c = Some PIPE) (butlast (snd j)) \<and>
      list_all (\<lambda>c. stdout c \<noteq> Some STDOUT) (snd j))"

fun chdir_nodes :: "string list \<Rightarrow> node list" where
  "chdir_nodes [] = []"
| "chdir_nodes (d # ds) = Chdir (Some d) # And # chdir_nodes ds"

fun piped_nodes :: "command list \<Rightarrow> node list" where
  "piped_nodes [] = []"
| "piped_nodes [c] = [Command c]"
| "piped_nodes (c # cs) = Command c # Pipe # piped_nodes cs"

fun job_nodes :: "(job \<times> node) list \<Rightarrow> job \<Rightarrow> node list" where
  "job_nodes [] j = chdir_nodes (fst j) @ piped_nodes (snd j)"
| "job_nodes ((i, op) # js) j = chdir_nodes (fst i) @ piped_nodes (snd i) @ op # job_nodes js j"

definition out_channel :: "string \<Rightarrow> channel" where
  "out_channel f = Handle (if f \<in> {''NUL:'', ''/dev/null''} then DevNull else OutFile f)"

definition target_channel :: "target option \<Rightarrow> channel option" where
  "target_channel t =
     (case t of None \<Rightarrow> None | Some PIPE \<Rightarrow> Some SubPIPE | Some STDOUT \<Rightarrow> Some SubSTDOUT
      | Some (File f) \<Rightarrow> Some (out_channel f))"

text \<open>The process of a command that reads from the channel \<open>i\<close>.\<close>

definition process_of :: "os \<Rightarrow> string \<Rightarrow> channel option \<Rightarrow> command \<Rightarrow> spawn" where
  "process_of os d i c =
     \<lparr>sp_argv = argv c, sp_stdin = i, sp_stdout = target_channel (stdout c),
      sp_stderr = target_channel (stderr c), sp_env = process_env os c,
      sp_cwd = (if d = ''.'' then None else Some d)\<rparr>"

definition file_input :: "command \<Rightarrow> channel option" where
  "file_input c = map_option (\<lambda>f. Handle (InFile f)) (stdin c)"

text \<open>
  The processes of a job from process number \<open>n\<close> on. Each reads from the one before it; the
  first reads from \<open>i\<close>, or from its own redirection.
\<close>

fun job_processes :: "os \<Rightarrow> string \<Rightarrow> nat \<Rightarrow> nat option \<Rightarrow> command list \<Rightarrow> spawn list" where
  "job_processes os d n i [] = []"
| "job_processes os d n i (c # cs) =
     process_of os d (case i of None \<Rightarrow> file_input c | Some p \<Rightarrow> Some (ProcOut p)) c #
       job_processes os d (n + 1) (Some n) cs"

definition job_code :: "os \<Rightarrow> nat \<Rightarrow> spawn list \<Rightarrow> int" where
  "job_code os n sps = exit_code os (n + length sps - 1) (last sps)"

fun sh_eval :: "os \<Rightarrow> string \<Rightarrow> nat \<Rightarrow> (job \<times> node) list \<Rightarrow> job \<Rightarrow> int \<times> spawn list" where
  "sh_eval os d n [] j =
     (let sps = job_processes os (foldl path_join d (fst j)) n None (snd j) in (job_code os n sps, sps))"
| "sh_eval os d n ((i, op) # js) j =
     (let d = foldl path_join d (fst i);
          sps = job_processes os d n None (snd i);
          code = job_code os n sps
      in if short_circuits op code then (code, sps)
         else let (code', sps') = sh_eval os d (n + length sps) js j in (code', sps @ sps'))"

text \<open>An operating system on which every open and every start succeeds.\<close>

definition os_ok :: "os \<Rightarrow> bool" where
  "os_ok os = ((\<forall>h. can_open os h) \<and> (\<forall>sp. can_start os sp))"

text \<open>
  \<^verbatim>\<open>_exec_piped_commands\<close> looks for a nonzero exit code and then takes the last one; this is
  always the last one.
\<close>

lemma exec_piped_last:
  "piped_commands r \<noteq> [] \<Longrightarrow> fst (exec_piped_commands r) = proc_code (last (piped_commands r))"
  by (auto simp: exec_piped_commands_def Let_def last_map) 

lemma length_job_processes [simp]: "length (job_processes os d n i cs) = length cs"
  by (induction os d n i cs rule: job_processes.induct) simp_all

text \<open>The state that a started command leaves.\<close>

definition started :: "os \<Rightarrow> spawn \<Rightarrow> runner \<Rightarrow> runner \<Rightarrow> bool" where
  "started os sp r r' =
     (spawns (trace r') = spawns (trace r) @ [sp] \<and> spawned r' = spawned r + 1 \<and>
      cwd r' = cwd r \<and> retval r' = retval r \<and> piped_commands r' \<noteq> [] \<and>
      proc_stdout (last (piped_commands r')) =
        (if sp_stdout sp = Some SubPIPE then Some (ProcOut (spawned r)) else None) \<and>
      proc_code (last (piped_commands r')) = exit_code os (spawned r) sp)"

definition input_is :: "nat option \<Rightarrow> runner \<Rightarrow> bool" where
  "input_is i r =
     (case i of
        None \<Rightarrow> \<not> in_pipe r
      | Some p \<Rightarrow> in_pipe r \<and> piped_commands r \<noteq> [] \<and>
                   proc_stdout (last (piped_commands r)) = Some (ProcOut p))"

definition same_processes :: "runner \<Rightarrow> runner \<Rightarrow> bool" where
  "same_processes r r' =
     (spawns (trace r') = spawns (trace r) \<and> spawned r' = spawned r \<and> cwd r' = cwd r \<and>
      retval r' = retval r \<and> piped_commands r' = piped_commands r)"

lemma py_index_minus1: "xs \<noteq> [] \<Longrightarrow> py_index xs (-1) = Inr (last xs)"
  by (simp add: py_index_def last_conv_nth) (metis Suc_leI length_greater_0_conv)

lemma setup_stdin_succeeds:
  assumes "os_ok os" "input_is i r"
  shows "\<exists>r'. setup_stdin os v c r =
      Inr (case i of None \<Rightarrow> file_input c | Some p \<Rightarrow> Some (ProcOut p), r') \<and> same_processes r r'"
  using assms
  by (auto simp: setup_stdin_def input_is_def file_input_def py_index_minus1 os_ok_def
      same_processes_def open_file_def emit_def show_if_def trace_simps split: option.splits)

lemma setup_out_succeeds:
  assumes "os_ok os"
  shows "stdout c \<noteq> Some STDOUT \<Longrightarrow>
      \<exists>r'. setup_stdout os v c r = Inr (target_channel (stdout c), r') \<and> same_processes r r'"
    and "\<exists>r'. setup_stderr os v c r = Inr (target_channel (stderr c), r') \<and> same_processes r r'"
  using assms
  by (auto simp: setup_stdout_def setup_stderr_def target_channel_def out_channel_def os_ok_def
      same_processes_def open_out_file_def open_file_def emit_def show_if_def trace_simps
      split: option.splits target.splits)

lemma start_command_succeeds:
  assumes "os_ok os" "stdout c \<noteq> Some STDOUT" "input_is i r"
  shows "\<exists>r'. start_command os v c r = Inr r' \<and>
      started os (process_of os (cwd r) (case i of None \<Rightarrow> file_input c | Some p \<Rightarrow> Some (ProcOut p)) c) r r'"
proof -
  let ?r0 = "show_if v (display_command c) r"
  have "input_is i ?r0" using assms(3) by (simp add: input_is_def show_if_def split: option.splits)
  then obtain r1 where 1: "setup_stdin os v c ?r0 =
      Inr (case i of None \<Rightarrow> file_input c | Some p \<Rightarrow> Some (ProcOut p), r1)" "same_processes ?r0 r1"
    using setup_stdin_succeeds [OF assms(1)] by blast
  obtain r2 where 2: "setup_stdout os v c r1 = Inr (target_channel (stdout c), r2)" "same_processes r1 r2"
    using setup_out_succeeds(1) [OF assms(1,2)] by blast
  obtain r3 where 3: "setup_stderr os v c r2 = Inr (target_channel (stderr c), r3)" "same_processes r2 r3"
    using setup_out_succeeds(2) [OF assms(1)] by blast
  have same: "same_processes r r3"
    using 1(2) 2(2) 3(2) by (simp add: same_processes_def show_if_def split: if_splits)
  show ?thesis
    using 1(1) 2(1) 3(1) same assms(1)
    by (simp add: start_command_def popen_def os_ok_def started_def same_processes_def process_of_def
        emit_def trace_simps)
qed

text \<open>The rest of the loop body, after the process of a command was started.\<close>

definition after_start :: "os \<Rightarrow> bool \<Rightarrow> node list \<Rightarrow> runner \<Rightarrow> (int option \<times> runner) result" where
  "after_start os v rest r =
     (case rest of
        [] \<Rightarrow> finish_run v r
      | n # ns \<Rightarrow>
          if n = Pipe then run_loop os v ns (r\<lparr>in_pipe := True, display := display r @ [''|'']\<rparr>)
          else if n = Or \<or> n = And
          then rbind (after_operator n v r) (\<lambda>(code, r).
                 case code of Some x \<Rightarrow> Inr (Some x, r) | None \<Rightarrow> run_loop os v ns r)
          else run_loop os v ns r)"

lemma run_loop_Command:
  "run_loop os v (Command c # rest) r = rbind (start_command os v c r) (after_start os v rest)"
  by (cases rest) (simp_all add: after_start_def [abs_def])

definition job_ran :: "os \<Rightarrow> spawn list \<Rightarrow> runner \<Rightarrow> runner \<Rightarrow> bool" where
  "job_ran os sps r r' =
     (spawns (trace r') = spawns (trace r) @ sps \<and> spawned r' = spawned r + length sps \<and>
      cwd r' = cwd r \<and> retval r' = retval r \<and> piped_commands r' \<noteq> [] \<and>
      proc_code (last (piped_commands r')) = job_code os (spawned r) sps)"

lemma run_piped:
  assumes "os_ok os" "cs \<noteq> []" "list_all (\<lambda>c. stdout c = Some PIPE) (butlast cs)"
    "list_all (\<lambda>c. stdout c \<noteq> Some STDOUT) cs" "input_is i r"
  shows "\<exists>r'. (\<forall>rest. run_loop os v (piped_nodes cs @ rest) r = after_start os v rest r') \<and>
      job_ran os (job_processes os (cwd r) (spawned r) i cs) r r'"
  using assms(2-5)
proof (induction cs arbitrary: i r rule: piped_nodes.induct)
  case 1
  then show ?case by simp
next
  case (2 c)
  with start_command_succeeds [OF assms(1), of c i r v] show ?case
    by (auto simp: run_loop_Command started_def job_ran_def job_code_def)
next
  case (3 c c' cs)
  let ?sp = "process_of os (cwd r) (case i of None \<Rightarrow> file_input c | Some p \<Rightarrow> Some (ProcOut p)) c"
  from 3 obtain r1 where r1: "start_command os v c r = Inr r1" "started os ?sp r r1"
    using start_command_succeeds [OF assms(1), of c i r v] by auto
  let ?r2 = "r1\<lparr>in_pipe := True, display := display r1 @ [''|'']\<rparr>"
  have "sp_stdout ?sp = Some SubPIPE" using 3 by (simp add: process_of_def target_channel_def)
  with r1(2) have in2: "input_is (Some (spawned r)) ?r2" by (simp add: input_is_def started_def)
  have "\<exists>r'. (\<forall>rest. run_loop os v (piped_nodes (c' # cs) @ rest) ?r2 = after_start os v rest r') \<and>
      job_ran os (job_processes os (cwd ?r2) (spawned ?r2) (Some (spawned r)) (c' # cs)) ?r2 r'"
    using "3.prems" in2 by (intro "3.IH") simp_all
  then obtain r' where r': "\<forall>rest. run_loop os v (piped_nodes (c' # cs) @ rest) ?r2 = after_start os v rest r'"
      "job_ran os (job_processes os (cwd ?r2) (spawned ?r2) (Some (spawned r)) (c' # cs)) ?r2 r'"
    by blast
  have "\<forall>rest. run_loop os v (piped_nodes (c # c' # cs) @ rest) r = after_start os v rest r'"
    using r1(1) r'(1) by (simp add: run_loop_Command after_start_def)
  moreover have "job_ran os (job_processes os (cwd r) (spawned r) i (c # c' # cs)) r r'"
    using r'(2) r1(2) by (simp add: job_ran_def started_def job_code_def)
  ultimately show ?case by blast
qed

lemma run_chdirs:
  "\<exists>r'. (\<forall>ns. run_loop os v (chdir_nodes ds @ ns) r = run_loop os v ns r') \<and>
     same_processes (r\<lparr>cwd := foldl path_join (cwd r) ds\<rparr>) r' \<and> in_pipe r' = in_pipe r"
proof (induction ds arbitrary: r)
  case Nil
  show ?case by (rule exI [of _ r]) (simp add: same_processes_def)
next
  case (Cons d ds)
  let ?r1 = "show_if v (''cd '' @ d @ '' &&'') (r\<lparr>cwd := path_join (cwd r) d\<rparr>)"
  from Cons [of ?r1] obtain r' where "\<forall>ns. run_loop os v (chdir_nodes ds @ ns) ?r1 = run_loop os v ns r'"
      "same_processes (?r1\<lparr>cwd := foldl path_join (cwd ?r1) ds\<rparr>) r'" "in_pipe r' = in_pipe ?r1"
    by blast
  then show ?case
    by (intro exI [of _ r']) (auto simp: after_chdir_def same_processes_def show_if_def split: if_splits)
qed

text \<open>A job: the changes of directory, then the piped commands.\<close>

lemma run_job:
  assumes "os_ok os" "job_ok j" "\<not> in_pipe r"
  shows "\<exists>r'. (\<forall>rest. run_loop os v (chdir_nodes (fst j) @ piped_nodes (snd j) @ rest) r =
                      after_start os v rest r') \<and>
      job_ran os (job_processes os (foldl path_join (cwd r) (fst j)) (spawned r) None (snd j))
        (r\<lparr>cwd := foldl path_join (cwd r) (fst j)\<rparr>) r'"
proof -
  obtain r1 where r1: "\<forall>ns. run_loop os v (chdir_nodes (fst j) @ ns) r = run_loop os v ns r1"
      "same_processes (r\<lparr>cwd := foldl path_join (cwd r) (fst j)\<rparr>) r1" "in_pipe r1 = in_pipe r"
    using run_chdirs by blast
  have "input_is None r1" using assms(3) r1(3) by (simp add: input_is_def)
  then obtain r' where
    "\<forall>rest. run_loop os v (piped_nodes (snd j) @ rest) r1 = after_start os v rest r'"
    "job_ran os (job_processes os (cwd r1) (spawned r1) None (snd j)) r1 r'"
    using run_piped [OF assms(1), of "snd j" None r1 v] assms(2) by (auto simp: job_ok_def)
  with r1(1,2) show ?thesis by (auto simp: job_ran_def same_processes_def)
qed

definition job_list_ok :: "(job \<times> node) list \<Rightarrow> job \<Rightarrow> bool" where
  "job_list_ok js j = (job_ok j \<and> list_all (\<lambda>(i, op). job_ok i \<and> (op = And \<or> op = Or)) js)"

lemma after_operator_quiet:
  assumes "piped_commands r \<noteq> []"
  shows "let code = proc_code (last (piped_commands r)) in
      \<exists>r'. after_operator op False r = Inr (if short_circuits op code then Some code else None, r') \<and>
         spawns (trace r') = spawns (trace r) \<and> spawned r' = spawned r \<and> cwd r' = cwd r \<and>
         (short_circuits op code \<or> \<not> in_pipe r')"
  using exec_piped_last [OF assms]
  by (auto simp: after_operator_def Let_def print_if_def close_files_def exec_piped_commands_def trace_simps)

lemma finish_run_quiet:
  assumes "piped_commands r \<noteq> []"
  shows "\<exists>r'. finish_run False r = Inr (Some (proc_code (last (piped_commands r))), r') \<and>
         spawns (trace r') = spawns (trace r)"
  using exec_piped_last [OF assms]
  by (auto simp: finish_run_def Let_def print_if_def close_files_def exec_piped_commands_def trace_simps)

lemma run_loop_refines:
  assumes "os_ok os" "job_list_ok js j" "\<not> in_pipe r"
  shows "\<exists>r'. run_loop os False (job_nodes js j) r =
        Inr (Some (fst (sh_eval os (cwd r) (spawned r) js j)), r') \<and>
      spawns (trace r') = spawns (trace r) @ snd (sh_eval os (cwd r) (spawned r) js j)"
  using assms(2,3)
proof (induction js arbitrary: r)
  case Nil
  then obtain r1 where r1: "\<forall>rest. run_loop os False (chdir_nodes (fst j) @ piped_nodes (snd j) @ rest) r =
        after_start os False rest r1"
      and ran: "job_ran os (job_processes os (foldl path_join (cwd r) (fst j)) (spawned r) None (snd j))
        (r\<lparr>cwd := foldl path_join (cwd r) (fst j)\<rparr>) r1"
    using run_job [OF assms(1), of j r False] by (auto simp: job_list_ok_def)
  from r1 [rule_format, of "[]"] have "run_loop os False (job_nodes [] j) r = finish_run False r1"
    by (simp add: after_start_def)
  with ran finish_run_quiet [of r1] show ?case by (auto simp: job_ran_def Let_def)
next
  case (Cons io js)
  obtain i op where io: "io = (i, op)" by fastforce
  let ?d = "foldl path_join (cwd r) (fst i)"
  let ?sps = "job_processes os ?d (spawned r) None (snd i)"
  let ?code = "job_code os (spawned r) ?sps"
  from Cons.prems obtain r1 where r1: "\<forall>rest. run_loop os False (chdir_nodes (fst i) @ piped_nodes (snd i) @ rest) r =
        after_start os False rest r1"
      and ran: "job_ran os ?sps (r\<lparr>cwd := ?d\<rparr>) r1"
    using run_job [OF assms(1), of i r False] by (auto simp: job_list_ok_def io)
  then obtain r2 where r2: "after_operator op False r1 = Inr (if short_circuits op ?code then Some ?code else None, r2)"
      "spawns (trace r2) = spawns (trace r1)" "spawned r2 = spawned r1" "cwd r2 = cwd r1"
      "short_circuits op ?code \<or> \<not> in_pipe r2"
    using after_operator_quiet [of r1 op] by (auto simp: job_ran_def Let_def)
  have op: "op = And \<or> op = Or" "job_list_ok js j" using Cons.prems(1) by (auto simp: job_list_ok_def io)
  show ?case
  proof (cases "short_circuits op ?code")
    case True
    with r1 r2 ran op show ?thesis
      by (auto simp: io after_start_def Let_def job_ran_def)
  next
    case False
    with r2(5) Cons.IH [OF op(2), of r2] obtain r' where
      "run_loop os False (job_nodes js j) r2 = Inr (Some (fst (sh_eval os (cwd r2) (spawned r2) js j)), r')"
      "spawns (trace r') = spawns (trace r2) @ snd (sh_eval os (cwd r2) (spawned r2) js j)" by blast
    with False r1 r2 ran op show ?thesis
      by (auto simp: io after_start_def Let_def job_ran_def split: prod.splits)
  qed
qed

section \<open>Properties of the interpreter\<close>


text \<open>An operating system for the examples: \<^verbatim>\<open>false\<close> fails, everything else succeeds.\<close>

definition demo_os :: os where
  "demo_os = \<lparr>can_open = (\<lambda>_. True), can_start = (\<lambda>_. True),
     exit_code = (\<lambda>_ sp. if sp_argv sp = [''false''] then 1 else 0), environ = []\<rparr>"

definition demo_jobs :: "(job \<times> node) list" where
  "demo_jobs = [(([], [(new_command ''ls'')\<lparr>stdout := Some PIPE\<rparr>, new_command ''false'']), Or)]"


text \<open>
  C40: whenever \<^verbatim>\<open>run\<close> returns an exit code, every file it opened has been closed exactly as
  often as it was opened, and every process it started has been waited for exactly once, in the
  order in which they were started. This holds for every operating system and both modes.
\<close>

theorem run_releases_resources:
  assumes "run os verbose pipeline = Inr (Some code, r)"
  shows "mset (opened (trace r)) = mset (closed (trace r)) \<and> waited (trace r) = [0..<spawned r]"
proof -
  have "run_inv init_runner" by (simp add: run_inv_def init_runner_def)
  with assms run_loop_released show ?thesis by (auto simp: run_def released_def)
qed

theorem run_releases_resources_witness:
  "\<exists>r. run demo_os True [Command ((new_command ''cat'')\<lparr>stdin := Some ''x'', stdout := Some (File ''y'')\<rparr>)] =
         Inr (Some 0, r) \<and> mset (opened (trace r)) = mset (closed (trace r)) \<and> waited (trace r) = [0]"
proof -
  have "\<exists>r. run demo_os True [Command ((new_command ''cat'')\<lparr>stdin := Some ''x'', stdout := Some (File ''y'')\<rparr>)] =
         Inr (Some 0, r) \<and> spawned r = 1"
    by (simp add: run_def init_runner_def start_command_def setup_stdin_def setup_stdout_def
        setup_stderr_def open_file_def open_out_file_def popen_def finish_run_def
        exec_piped_commands_def Let_def print_if_def print_retval_def close_files_def emit_def
        show_if_def demo_os_def new_command_def)
  then show ?thesis using run_releases_resources by fastforce
qed

text \<open>
  In verbose mode \<^verbatim>\<open>run\<close> raises \<^verbatim>\<open>UnboundLocalError\<close> on every list of two or
  more jobs: the message after an operator prints the local variable \<^verbatim>\<open>retval\<close>, which only
  the last branch assigns (the exit code at that point is in \<^verbatim>\<open>this_retval\<close>).
\<close>

theorem run_verbose_unbound:
  assumes "os_ok os" "job_ok i" "op = And \<or> op = Or"
  shows "run os True (job_nodes ((i, op) # js) j) = Inl UnboundLocalError"
proof -
  obtain r' where r': "\<forall>rest. run_loop os True (chdir_nodes (fst i) @ piped_nodes (snd i) @ rest) init_runner =
        after_start os True rest r'"
      and ran: "retval r' = None"
    using run_job [OF assms(1,2), of init_runner True] by (auto simp: init_runner_def job_ran_def)
  have "after_operator op True r' = Inl UnboundLocalError"
    using ran by (simp add: after_operator_def print_if_def print_retval_def close_files_def
        exec_piped_commands_def Let_def)
  with r' assms(3) show ?thesis by (auto simp: run_def after_start_def)
qed

theorem run_verbose_unbound_witness:
  "run demo_os True (job_nodes [(([], [new_command ''ls'']), And)] ([], [new_command ''make''])) =
     Inl UnboundLocalError"
  by (rule run_verbose_unbound) (simp_all add: os_ok_def demo_os_def job_ok_def new_command_def)

end
