(* ===== verification/CommandTask.thy ===== *)
theory CommandTask
  imports ShellRun
begin

text \<open>
  \<^verbatim>\<open>waf-tools/command.py\<close>: the build task that runs a command line of \<^verbatim>\<open>shellcmd\<close> after
  replacing \<^verbatim>\<open>${...}\<close> in it. The regular expression \<^verbatim>\<open>arg_rx\<close> is a scanner
  (\<open>arg_parts\<close>), \<^verbatim>\<open>_subst_arg\<close> evaluates the parts in order, and \<^verbatim>\<open>run\<close> parses the
  command line, replaces in each node and starts the interpreter of \<open>ShellRun\<close>. \<^verbatim>\<open>eval\<close> on
  the namespace of the task and the nodes of the build system are parameters. The lemmas show what
  a replacement gives and that values never change the structure of the command line.
\<close>

section \<open>Arguments\<close>

datatype arg_part = Plain char | Subst string string

text \<open>
  What follows \<^verbatim>\<open>${\<close>: \<^verbatim>\<open>\w+\<close> as far as it goes, then the shortest \<^verbatim>\<open>.*?\<close> up to a
  closing brace; the dot does not match a newline.
\<close>

definition subst_at :: "string \<Rightarrow> (string \<times> string \<times> string) option" where
  "subst_at s =
     (let (var, s) = span_at (\<lambda>c. \<not> name_char c) s;
          (code, s) = span_at (\<lambda>c. c = CHR ''}'' \<or> c = CHR 0x0A) s
      in case s of
           c # rest \<Rightarrow> if var \<noteq> [] \<and> c = CHR ''}'' then Some (var, code, rest) else None
         | [] \<Rightarrow> None)"

lemma subst_at_length: "subst_at s = Some (var, code, rest) \<Longrightarrow> length rest < length s"
proof -
  assume a: "subst_at s = Some (var, code, rest)"
  have "length (snd (span_at P xs)) \<le> length xs" for P :: "char \<Rightarrow> bool" and xs
    by (simp add: span_at_def length_dropWhile_le)
  from this [of _ s] this a show ?thesis
    by (auto simp: subst_at_def split: prod.splits list.splits if_splits)
      (metis Suc_le_eq le_trans length_Cons snd_conv)
qed

function arg_parts :: "string \<Rightarrow> arg_part list" where
  "arg_parts [] = []"
| "arg_parts (c # s) =
     (if c \<noteq> CHR ''$'' then Plain c # arg_parts s
      else case s of
             [] \<Rightarrow> [Plain c]
           | d # t \<Rightarrow>
              if d = CHR ''$'' then Plain (CHR ''$'') # arg_parts t
              else if d = CHR ''{''
              then (case subst_at t of
                      Some (var, code, rest) \<Rightarrow> Subst var code # arg_parts rest
                    | None \<Rightarrow> Plain c # arg_parts s)
              else Plain c # arg_parts s)"
  by pat_completeness auto
termination
  by (relation "measure length") (auto dest!: subst_at_length)

declare arg_parts.simps [simp del]

section \<open>Replacement\<close>

text \<open>A node of the build system, and the values that \<^verbatim>\<open>eval\<close> can give.\<close>

record build_node =
  srcpath :: string
  bldpath :: string
  bld_abspath :: string

datatype val =
    NodeVal build_node
  | InputsVal
  | OutputsVal
  | ListVal "val list"
  | StrVal string
  | NoneVal
  | OtherVal

record task =
  inputs :: "build_node list"
  outputs :: "build_node list"

definition repl :: "(string \<Rightarrow> val result) \<Rightarrow> task \<Rightarrow> string \<Rightarrow> string \<Rightarrow> val result" where
  "repl eval_in tsk var code =
     rbind (eval_in (var @ code)) (\<lambda>v.
       case v of
         NodeVal n \<Rightarrow>
           if var = ''TGT'' then Inr (StrVal (bld_abspath n))
           else if var = ''SRC'' then Inr (StrVal (srcpath n))
           else Inl ValueError
       | InputsVal \<Rightarrow>
           (case inputs tsk of [n] \<Rightarrow> Inr (StrVal (srcpath n)) | _ \<Rightarrow> Inl ValueError)
       | OutputsVal \<Rightarrow>
           (case outputs tsk of [n] \<Rightarrow> Inr (StrVal (bld_abspath n)) | _ \<Rightarrow> Inl ValueError)
       | ListVal vs \<Rightarrow> (case vs of [x] \<Rightarrow> Inr x | _ \<Rightarrow> Inl AssertionError)
       | _ \<Rightarrow> Inr v)"

definition part_value :: "(string \<Rightarrow> val result) \<Rightarrow> task \<Rightarrow> arg_part \<Rightarrow> val result" where
  "part_value eval_in tsk p =
     (case p of Plain c \<Rightarrow> Inr (StrVal [c]) | Subst var code \<Rightarrow> repl eval_in tsk var code)"

text \<open>
  \<^verbatim>\<open>re.sub\<close> joins the results after the last replacement: \<^verbatim>\<open>None\<close> stands for the empty
  string, anything else that is not a string raises \<^verbatim>\<open>TypeError\<close>.
\<close>

fun joined :: "val list \<Rightarrow> string result" where
  "joined [] = Inr []"
| "joined (StrVal s # vs) = rbind (joined vs) (\<lambda>t. Inr (s @ t))"
| "joined (NoneVal # vs) = joined vs"
| "joined (v # vs) = Inl TypeError"

definition subst_arg :: "(string \<Rightarrow> val result) \<Rightarrow> task \<Rightarrow> string \<Rightarrow> string result" where
  "subst_arg eval_in tsk arg = rbind (map_res (part_value eval_in tsk) (arg_parts arg)) joined"

section \<open>The task\<close>

definition subst_target :: "(string \<Rightarrow> string result) \<Rightarrow> target option \<Rightarrow> target option result" where
  "subst_target f t = (case t of Some (File s) \<Rightarrow> rbind (f s) (\<lambda>s. Inr (Some (File s))) | _ \<Rightarrow> Inr t)"

definition subst_stdin :: "(string \<Rightarrow> string result) \<Rightarrow> string option \<Rightarrow> string option result" where
  "subst_stdin f t = (case t of Some s \<Rightarrow> rbind (f s) (\<lambda>s. Inr (Some s)) | None \<Rightarrow> Inr None)"

definition subst_env ::
    "(string \<Rightarrow> string result) \<Rightarrow> (string, string) dict option \<Rightarrow> (string, string) dict option result" where
  "subst_env f e =
     (case e of
        None \<Rightarrow> Inr None
      | Some d \<Rightarrow> rbind (map_res (\<lambda>(k, v). rbind (f v) (\<lambda>v. Inr (k, v))) d) (\<lambda>d. Inr (Some d)))"

definition subst_command :: "(string \<Rightarrow> string result) \<Rightarrow> command \<Rightarrow> command result" where
  "subst_command f c =
     rbind (subst_stdin f (stdin c)) (\<lambda>i.
     rbind (subst_target f (stdout c)) (\<lambda>out.
     rbind (subst_target f (stderr c)) (\<lambda>err.
     rbind (map_res f (argv c)) (\<lambda>args.
     rbind (subst_env f (cmd_env c)) (\<lambda>env.
       Inr (c\<lparr>stdin := i, stdout := out, stderr := err, argv := args, cmd_env := env\<rparr>))))))"

definition subst_node :: "(string \<Rightarrow> string result) \<Rightarrow> node \<Rightarrow> node result" where
  "subst_node f n =
     (case n of
        Command c \<Rightarrow> rbind (subst_command f c) (\<lambda>c. Inr (Command c))
      | Chdir None \<Rightarrow> Inl TypeError
      | Chdir (Some d) \<Rightarrow> rbind (f d) (\<lambda>d. Inr (Chdir (Some d)))
      | _ \<Rightarrow> Inr n)"

text \<open>The namespace: the environment of the task, the variables of the generator, and three names.\<close>

definition namespace :: "(string, val) dict \<Rightarrow> (string, val) dict option \<Rightarrow> (string, val) dict" where
  "namespace merged variables =
     (let ns = (case variables of None \<Rightarrow> merged | Some vs \<Rightarrow> fold (\<lambda>(k, v). AList.update k v) vs merged)
      in AList.update ''TGT'' OutputsVal (AList.update ''SRC'' InputsVal (AList.update ''env'' OtherVal ns)))"

record generator =
  command_line :: "string list"
  merged_env :: "(string, val) dict"
  variables :: "(string, val) dict option"

type_synonym evaluator = "(string, val) dict \<Rightarrow> string \<Rightarrow> val result"

definition command_run :: "os \<Rightarrow> bool \<Rightarrow> evaluator \<Rightarrow> generator \<Rightarrow> task \<Rightarrow> (int option \<times> runner) result" where
  "command_run os verbose py_eval gen tsk =
     rbind (parse (command_line gen)) (\<lambda>pipeline.
     rbind (map_res (subst_node (subst_arg (py_eval (namespace (merged_env gen) (variables gen))) tsk)) pipeline)
       (run os verbose))"

definition command_str :: "task \<Rightarrow> string list \<Rightarrow> string result" where
  "command_str tsk tokens =
     (let src_str = join_with '' '' (map bldpath (inputs tsk));
          tgt_str = join_with '' '' (map bldpath (outputs tsk));
          sep = (if outputs tsk \<noteq> [] then '' -> '' else [])
      in rbind (parse tokens) (\<lambda>pipeline.
           Inr (''command ('' @ get_abbreviated_command pipeline @ ''): '' @ src_str @ sep @ tgt_str)))"

text \<open>\<^verbatim>\<open>apply_command\<close>: the source nodes and the declared targets.\<close>

definition apply_command :: "(string \<Rightarrow> build_node) \<Rightarrow> build_node list \<Rightarrow> string list \<Rightarrow> task" where
  "apply_command find_or_declare source target =
     \<lparr>inputs = source, outputs = map find_or_declare target\<rparr>"

section \<open>What a replacement gives\<close>

text \<open>An argument as text, in which a dollar sign is doubled, and variables.\<close>

datatype segment = Txt string | Var string string

definition dollar_quoted :: "string \<Rightarrow> string" where
  "dollar_quoted s = concat (map (\<lambda>c. if c = CHR ''$'' then ''$$'' else [c]) s)"

fun segment_text :: "segment \<Rightarrow> string" where
  "segment_text (Txt s) = dollar_quoted s"
| "segment_text (Var var code) = ''${'' @ var @ code @ ''}''"

fun segment_ok :: "segment \<Rightarrow> bool" where
  "segment_ok (Txt s) = True"
| "segment_ok (Var var code) =
     (var \<noteq> [] \<and> list_all name_char var \<and> (code = [] \<or> \<not> name_char (hd code)) \<and>
      list_all (\<lambda>c. c \<noteq> CHR ''}'' \<and> c \<noteq> CHR 0x0A) code)"

definition segment_value :: "(string \<Rightarrow> val result) \<Rightarrow> task \<Rightarrow> segment \<Rightarrow> val result" where
  "segment_value eval_in tsk seg =
     (case seg of Txt s \<Rightarrow> Inr (StrVal s) | Var var code \<Rightarrow> repl eval_in tsk var code)"

definition segment_parts :: "segment \<Rightarrow> arg_part list" where
  "segment_parts seg = (case seg of Txt s \<Rightarrow> map Plain s | Var var code \<Rightarrow> [Subst var code])"

lemma segment_simps [simp]:
  "segment_parts (Txt s) = map Plain s" "segment_parts (Var var code) = [Subst var code]"
  "segment_value eval_in tsk (Txt s) = Inr (StrVal s)" "segment_value eval_in tsk (Var var code) = repl eval_in tsk var code"
  "part_value eval_in tsk (Plain c) = Inr (StrVal [c])" "part_value eval_in tsk (Subst var code) = repl eval_in tsk var code"
  by (simp_all add: segment_parts_def segment_value_def part_value_def)

lemma arg_parts_quoted: "arg_parts (dollar_quoted s @ t) = map Plain s @ arg_parts t"
proof (induction s)
  case (Cons c s)
  have "dollar_quoted (c # s) = (if c = CHR ''$'' then CHR ''$'' # CHR ''$'' # dollar_quoted s else c # dollar_quoted s)"
    by (simp add: dollar_quoted_def)
  with Cons show ?case by (auto simp: arg_parts.simps(2))
qed (simp add: dollar_quoted_def)

lemma subst_at_var:
  assumes "segment_ok (Var var code)"
  shows "subst_at (var @ code @ CHR ''}'' # t) = Some (var, code, t)"
proof -
  have nb: "\<not> name_char (CHR ''}'')" by (simp add: name_char_def)
  have head: "code @ CHR ''}'' # t = (if code = [] then CHR ''}'' # t else hd code # tl code @ CHR ''}'' # t)" by simp
  have "span_at (\<lambda>c. \<not> name_char c) (var @ code @ CHR ''}'' # t) = (var, code @ CHR ''}'' # t)"
    using assms nb by (subst (1 2) head) (auto simp: span_at_def list_all_iff takeWhile_append2 dropWhile_append2)
  moreover have "span_at (\<lambda>c. c = CHR ''}'' \<or> c = CHR 0x0A) (code @ CHR ''}'' # t) = (code, CHR ''}'' # t)"
    using assms by (auto simp: span_at_def list_all_iff takeWhile_append2 dropWhile_append2)
  ultimately show ?thesis using assms by (simp add: subst_at_def)
qed

lemma arg_parts_segments:
  "list_all segment_ok segs \<Longrightarrow> arg_parts (concat (map segment_text segs)) = concat (map segment_parts segs)"
proof (induction segs)
  case (Cons seg segs)
  then show ?case
  proof (cases seg)
    case (Var var code)
    with Cons subst_at_var [of var code] show ?thesis
      by (simp add: arg_parts.simps(2) [of "CHR ''$''"])
  qed (simp add: arg_parts_quoted)
qed (simp add: arg_parts.simps)

lemma map_res_append:
  "map_res f (xs @ ys) = rbind (map_res f xs) (\<lambda>as. rbind (map_res f ys) (\<lambda>bs. Inr (as @ bs)))"
  by (induction xs) (simp_all add: rbind_assoc rbind_def split: sum.splits)

lemma map_res_total: "(\<And>x. x \<in> set xs \<Longrightarrow> f x = Inr (g x)) \<Longrightarrow> map_res f xs = Inr (map g xs)"
  by (induction xs) simp_all

lemma joined_append: "joined (vs @ ws) = rbind (joined vs) (\<lambda>s. rbind (joined ws) (\<lambda>t. Inr (s @ t)))"
proof (induction vs)
  case Nil
  show ?case by (cases "joined ws") simp_all
next
  case (Cons v vs)
  then show ?case by (cases v; cases "joined vs"; cases "joined ws") simp_all
qed

lemma joined_chars: "joined (map (\<lambda>c. StrVal [c]) s @ vs) = rbind (joined vs) (\<lambda>t. Inr (s @ t))"
  by (induction s) (simp_all add: rbind_assoc rbind_def split: sum.splits)

lemma map_res_plain: "map_res (part_value eval_in tsk) (map Plain s) = Inr (map (\<lambda>c. StrVal [c]) s)"
  by (induction s) simp_all

lemma joined_cong: "joined vs = joined ws \<Longrightarrow> joined (v # vs) = joined (v # ws)"
  by (cases v) simp_all

lemma segments_value:
  "case map_res (part_value eval_in tsk) (concat (map segment_parts segs)) of
     Inl e \<Rightarrow> map_res (segment_value eval_in tsk) segs = Inl e
   | Inr vs \<Rightarrow> (\<exists>ws. map_res (segment_value eval_in tsk) segs = Inr ws \<and> joined vs = joined ws)"
proof (induction segs)
  case (Cons seg segs)
  show ?case
  proof (cases seg)
    case (Txt s)
    with Cons joined_chars [of s] show ?thesis
      by (auto simp: map_res_append map_res_plain split: sum.splits)
  next
    case (Var var code)
    show ?thesis
    proof (cases "map_res (part_value eval_in tsk) (concat (map segment_parts segs))")
      case (Inl e)
      with Cons Var show ?thesis
        by (cases "repl eval_in tsk var code") simp_all
    next
      case (Inr vs)
      with Cons obtain ws where "map_res (segment_value eval_in tsk) segs = Inr ws" "joined vs = joined ws" by auto
      with Inr Var joined_cong [of vs ws] show ?thesis
        by (cases "repl eval_in tsk var code") simp_all
    qed
  qed
qed simp

lemma subst_segments:
  assumes "list_all segment_ok segs"
  shows "subst_arg eval_in tsk (concat (map segment_text segs)) =
    rbind (map_res (segment_value eval_in tsk) segs) joined"
  using segments_value [of eval_in tsk segs]
  by (auto simp: subst_arg_def arg_parts_segments [OF assms] rbind_def split: sum.splits)

lemma quoted_plain: "CHR ''$'' \<notin> set s \<Longrightarrow> dollar_quoted s = s"
  by (induction s) (auto simp: dollar_quoted_def)

lemma subst_quoted: "subst_arg eval_in tsk (dollar_quoted s) = Inr s"
  using subst_segments [of "[Txt s]" eval_in tsk] by simp

lemma namespace_names:
  "map_of (namespace merged vars) ''SRC'' = Some InputsVal"
  "map_of (namespace merged vars) ''TGT'' = Some OutputsVal"
  by (simp_all add: namespace_def Let_def update_conv')

text \<open>
  Replacement in an argument. An argument written from text, with each dollar sign doubled,
  and from variables gives the texts and the values of the variables in their order; text without
  a dollar sign needs no care. The names \<^verbatim>\<open>SRC\<close> and \<^verbatim>\<open>TGT\<close> always mean the inputs and outputs
  of the task, whatever the environment and the variables of the generator define: with one
  input (output) its path is inserted, with none or several \<^verbatim>\<open>ValueError\<close> is raised.
\<close>

theorem subst_arg_correct:
  assumes "\<And>v. map_of (namespace merged vars) ''SRC'' = Some v \<Longrightarrow> py_eval (namespace merged vars) ''SRC'' = Inr v"
    and "\<And>v. map_of (namespace merged vars) ''TGT'' = Some v \<Longrightarrow> py_eval (namespace merged vars) ''TGT'' = Inr v"
    and "list_all segment_ok segs" "CHR ''$'' \<notin> set s" "ev = py_eval (namespace merged vars)"
  shows "subst_arg ev tsk (concat (map segment_text segs)) = rbind (map_res (segment_value ev tsk) segs) joined \<and>
    subst_arg ev tsk s = Inr s \<and>
    subst_arg ev tsk (s @ ''${SRC}'') = (case inputs tsk of [n] \<Rightarrow> Inr (s @ srcpath n) | _ \<Rightarrow> Inl ValueError) \<and>
    subst_arg ev tsk (s @ ''${TGT}'') = (case outputs tsk of [n] \<Rightarrow> Inr (s @ bld_abspath n) | _ \<Rightarrow> Inl ValueError)"
proof -
  have ok: "segment_ok (Var ''SRC'' [])" "segment_ok (Var ''TGT'' [])" by (simp_all add: name_char_def)
  have "subst_arg ev tsk (s @ ''${SRC}'') = rbind (map_res (segment_value ev tsk) [Txt s, Var ''SRC'' []]) joined"
    "subst_arg ev tsk (s @ ''${TGT}'') = rbind (map_res (segment_value ev tsk) [Txt s, Var ''TGT'' []]) joined"
    using subst_segments [of "[Txt s, Var ''SRC'' []]" ev tsk] subst_segments [of "[Txt s, Var ''TGT'' []]" ev tsk] ok
    by (simp_all add: quoted_plain [OF assms(4)])
  moreover have "ev ''SRC'' = Inr InputsVal" "ev ''TGT'' = Inr OutputsVal"
    using assms(1,2,5) namespace_names by simp_all
  ultimately show ?thesis
    using subst_segments [OF assms(3), of ev tsk] subst_quoted [of ev tsk s] quoted_plain [OF assms(4)]
    by (auto simp: repl_def split: list.splits)
qed

section \<open>The structure of the command line is kept\<close>

definition map_target :: "(string \<Rightarrow> string) \<Rightarrow> target \<Rightarrow> target" where
  "map_target g t = (case t of File s \<Rightarrow> File (g s) | _ \<Rightarrow> t)"

definition map_command :: "(string \<Rightarrow> string) \<Rightarrow> command \<Rightarrow> command" where
  "map_command g c =
     c\<lparr>stdin := map_option g (stdin c), stdout := map_option (map_target g) (stdout c),
       stderr := map_option (map_target g) (stderr c), argv := map g (argv c),
       cmd_env := map_option (map (\<lambda>(k, v). (k, g v))) (cmd_env c)\<rparr>"

definition map_job :: "(string \<Rightarrow> string) \<Rightarrow> job \<Rightarrow> job" where
  "map_job g j = (map g (fst j), map (map_command g) (snd j))"

definition command_strings :: "command \<Rightarrow> string set" where
  "command_strings c =
     set (argv c) \<union> set_option (stdin c) \<union> {s. stdout c = Some (File s) \<or> stderr c = Some (File s)} \<union>
     (case cmd_env c of None \<Rightarrow> {} | Some d \<Rightarrow> snd ` set d)"

definition job_strings :: "job \<Rightarrow> string set" where
  "job_strings j = set (fst j) \<union> \<Union> (command_strings ` set (snd j))"

lemma subst_env_total:
  assumes "\<And>s. e = Some d \<Longrightarrow> s \<in> snd ` set d \<Longrightarrow> f s = Inr (g s)" "e = None \<or> e = Some d"
  shows "subst_env f e = Inr (map_option (map (\<lambda>(k, v). (k, g v))) e)"
proof -
  have "map_res (\<lambda>(k, v). rbind (f v) (\<lambda>v. Inr (k, v))) d = Inr (map (\<lambda>(k, v). (k, g v)) d)" if "e = Some d"
    using assms(1) [OF that] by (intro map_res_total) force
  with assms(2) show ?thesis by (auto simp: subst_env_def)
qed

lemma subst_target_total:
  "(\<And>s. t = Some (File s) \<Longrightarrow> f s = Inr (g s)) \<Longrightarrow> subst_target f t = Inr (map_option (map_target g) t)"
  by (auto simp: subst_target_def map_target_def split: option.split target.split)

lemma subst_command_total:
  assumes "\<And>s. s \<in> command_strings c \<Longrightarrow> f s = Inr (g s)"
  shows "subst_command f c = Inr (map_command g c)"
proof -
  have "subst_stdin f (stdin c) = Inr (map_option g (stdin c))"
    using assms by (auto simp: subst_stdin_def command_strings_def split: option.split)
  moreover have "subst_target f (stdout c) = Inr (map_option (map_target g) (stdout c))"
      "subst_target f (stderr c) = Inr (map_option (map_target g) (stderr c))"
    using assms by (auto intro!: subst_target_total simp: command_strings_def)
  moreover have "map_res f (argv c) = Inr (map g (argv c))"
    using assms by (intro map_res_total) (simp add: command_strings_def)
  moreover have "subst_env f (cmd_env c) = Inr (map_option (map (\<lambda>(k, v). (k, g v))) (cmd_env c))"
  proof (cases "cmd_env c")
    case (Some d)
    show ?thesis by (rule subst_env_total [of _ d]) (use assms Some in \<open>auto simp: command_strings_def\<close>)
  qed (simp add: subst_env_def)
  ultimately show ?thesis by (simp add: subst_command_def map_command_def)
qed

lemma subst_node_total:
  assumes "\<And>s. s \<in> command_strings c \<Longrightarrow> f s = Inr (g s)"
  shows "subst_node f (Command c) = Inr (Command (map_command g c))"
  using subst_command_total [of c f g, OF assms] by (simp add: subst_node_def)

lemma subst_chdirs:
  "(\<And>s. s \<in> set ds \<Longrightarrow> f s = Inr (g s)) \<Longrightarrow>
     map_res (subst_node f) (chdir_nodes ds) = Inr (chdir_nodes (map g ds))"
  by (induction ds) (simp_all add: subst_node_def)

lemma subst_piped:
  "(\<And>s. s \<in> \<Union> (command_strings ` set cs) \<Longrightarrow> f s = Inr (g s)) \<Longrightarrow>
     map_res (subst_node f) (piped_nodes cs) = Inr (piped_nodes (map (map_command g) cs))"
proof (induction cs rule: piped_nodes.induct)
  case (2 c)
  then show ?case by (simp add: subst_node_total [of c f g])
next
  case (3 c c' cs)
  then have "subst_node f (Command c) = Inr (Command (map_command g c))"
    by (intro subst_node_total) simp
  with 3 show ?case by (simp add: subst_node_def [of f Pipe])
qed simp

lemma subst_job:
  assumes "\<And>s. s \<in> job_strings j \<Longrightarrow> f s = Inr (g s)"
  shows "map_res (subst_node f) (chdir_nodes (fst j) @ piped_nodes (snd j)) =
    Inr (chdir_nodes (fst (map_job g j)) @ piped_nodes (snd (map_job g j)))"
  using subst_chdirs [of "fst j" f g] subst_piped [of "snd j" f g] assms
  by (simp add: map_res_append job_strings_def map_job_def)

lemma subst_jobs:
  assumes "\<And>s. s \<in> job_strings j \<union> \<Union> ((job_strings \<circ> fst) ` set js) \<Longrightarrow> f s = Inr (g s)"
    and "list_all (\<lambda>(i, op). op = And \<or> op = Or) js"
  shows "map_res (subst_node f) (job_nodes js j) = Inr (job_nodes (map (\<lambda>(i, op). (map_job g i, op)) js) (map_job g j))"
  using assms
proof (induction js)
  case Nil
  then show ?case using subst_job [of j f g] by simp
next
  case (Cons io js)
  obtain i op where io: "io = (i, op)" by fastforce
  have "map_res (subst_node f) (chdir_nodes (fst i) @ piped_nodes (snd i)) =
      Inr (chdir_nodes (fst (map_job g i)) @ piped_nodes (snd (map_job g i)))"
    using Cons.prems(1) io by (intro subst_job) auto
  moreover have "subst_node f op = Inr op" using Cons.prems(2) io by (auto simp: subst_node_def)
  moreover have "map_res (subst_node f) (job_nodes js j) = Inr (job_nodes (map (\<lambda>(i, op). (map_job g i, op)) js) (map_job g j))"
    using Cons.prems by (intro Cons.IH) auto
  moreover have "job_nodes (io # js) j = (chdir_nodes (fst i) @ piped_nodes (snd i)) @ op # job_nodes js j"
    by (simp add: io)
  ultimately show ?case by (simp only: map_res_append) (simp add: io)
qed

lemma map_target_simps: "map_option (map_target g) t = Some PIPE \<longleftrightarrow> t = Some PIPE"
    "map_option (map_target g) t = Some STDOUT \<longleftrightarrow> t = Some STDOUT"
  by (cases t; simp add: map_target_def split: target.split)+

lemma stdout_map_command: "stdout (map_command g c) = map_option (map_target g) (stdout c)"
  by (simp add: map_command_def)

lemma map_job_ok: "job_ok j \<Longrightarrow> job_ok (map_job g j)"
  unfolding job_ok_def map_job_def snd_conv map_butlast [symmetric] list.pred_map comp_def
    stdout_map_command map_target_simps by simp

lemma map_job_list_ok: "job_list_ok js j \<Longrightarrow> job_list_ok (map (\<lambda>(i, op). (map_job g i, op)) js) (map_job g j)"
  by (auto simp: job_list_ok_def map_job_ok list_all_iff)

text \<open>
  C23: The task. For a command line whose arguments, files, directories and environment values can
  all be replaced, the task runs the list of jobs of the parsed command line with these strings
  replaced in place: it starts exactly the processes of the short-circuit semantics for
  that list and returns its exit code. A value, whatever characters it has, never becomes a
  second argument, an operator or a redirection.
\<close>

theorem command_run_refines:
  assumes "os_ok os" "job_list_ok js j" "parse (command_line gen) = Inr (job_nodes js j)"
    and "f = subst_arg (py_eval (namespace (merged_env gen) (variables gen))) tsk"
    and "\<And>s. s \<in> job_strings j \<union> \<Union> ((job_strings \<circ> fst) ` set js) \<Longrightarrow> f s = Inr (g s)"
    and "js' = map (\<lambda>(i, op). (map_job g i, op)) js"
  shows "\<exists>r. command_run os False py_eval gen tsk = Inr (Some (fst (sh_eval os ''.'' 0 js' (map_job g j))), r) \<and>
             spawns (trace r) = snd (sh_eval os ''.'' 0 js' (map_job g j))"
proof -
  have ops: "list_all (\<lambda>(i, op). op = And \<or> op = Or) js"
    using assms(2) by (auto simp: job_list_ok_def list_all_iff)
  have "map_res (subst_node f) (job_nodes js j) = Inr (job_nodes js' (map_job g j))"
    using subst_jobs [OF assms(5) ops] assms(6) by simp
  then have "command_run os False py_eval gen tsk = run os False (job_nodes js' (map_job g j))"
    by (simp add: command_run_def assms(3,4))
  then show ?thesis
    using run_loop_refines [OF assms(1) map_job_list_ok [OF assms(2), of g], of init_runner]
    by (simp add: run_def init_runner_def assms(6))
qed

section \<open>Examples\<close>

definition demo_eval :: evaluator where
  "demo_eval ns e = (case map_of ns e of Some v \<Rightarrow> Inr v | None \<Rightarrow> Inl NameError)"

definition demo_task :: task where
  "demo_task = apply_command (\<lambda>t. \<lparr>srcpath = t, bldpath = t, bld_abspath = ''/b/'' @ t\<rparr>)
     [\<lparr>srcpath = ''in.txt'', bldpath = ''in.txt'', bld_abspath = ''/b/in.txt''\<rparr>] [''out.txt'']"

definition demo_generator :: generator where
  "demo_generator = \<lparr>command_line = [''sort'', ''${SRC}'', ''>'', ''${TGT}'', ''&&'', ''echo'', ''$$${MSG}''],
     merged_env = [], variables = Some [(''MSG'', StrVal ''5 | rm''), (''SRC'', StrVal ''x'')]\<rparr>"

definition demo_names :: "(string, val) dict" where
  "demo_names = namespace (merged_env demo_generator) (variables demo_generator)"

lemma demo_names_values: "map_of demo_names ''MSG'' = Some (StrVal ''5 | rm'')"
  by (simp add: demo_names_def namespace_def demo_generator_def Let_def)

theorem subst_arg_correct_witness:
  "subst_arg (demo_eval demo_names) demo_task ''$$${MSG}'' = Inr ''$5 | rm'' \<and>
   subst_arg (demo_eval demo_names) demo_task ''-i ${SRC}'' = Inr ''-i in.txt''"
proof -
  have "map_of demo_names ''SRC'' = Some v \<Longrightarrow> demo_eval demo_names ''SRC'' = Inr v"
    "map_of demo_names ''TGT'' = Some v \<Longrightarrow> demo_eval demo_names ''TGT'' = Inr v" for v
    by (simp_all add: demo_eval_def)
  moreover have "list_all segment_ok [Txt ''$'', Var ''MSG'' []]" by (simp add: name_char_def)
  ultimately have
    "subst_arg (demo_eval demo_names) demo_task (concat (map segment_text [Txt ''$'', Var ''MSG'' []])) =
       rbind (map_res (segment_value (demo_eval demo_names) demo_task) [Txt ''$'', Var ''MSG'' []]) joined \<and>
     subst_arg (demo_eval demo_names) demo_task (''-i '' @ ''${SRC}'') =
       (case inputs demo_task of [n] \<Rightarrow> Inr (''-i '' @ srcpath n) | _ \<Rightarrow> Inl ValueError)"
    using subst_arg_correct [of "merged_env demo_generator" "variables demo_generator" demo_eval
        "[Txt ''$'', Var ''MSG'' []]" "''-i ''" "demo_eval demo_names" demo_task]
    by (simp add: demo_names_def)
  then show ?thesis
    by (simp add: dollar_quoted_def repl_def demo_eval_def demo_names_values demo_task_def apply_command_def)
qed

theorem command_run_refines_witness:
  "\<exists>r. command_run demo_os False demo_eval demo_generator demo_task = Inr (Some 0, r) \<and>
       map sp_argv (spawns (trace r)) = [[''sort'', ''in.txt''], [''echo'', ''$5 | rm'']]"
proof -
  let ?f = "subst_arg (demo_eval demo_names) demo_task"
  let ?g = "\<lambda>s. case ?f s of Inr t \<Rightarrow> t | Inl _ \<Rightarrow> []"
  let ?c1 = "(new_command ''sort'')\<lparr>argv := [''sort'', ''${SRC}''], stdout := Some (File ''${TGT}'')\<rparr>"
  let ?c2 = "(new_command ''echo'')\<lparr>argv := [''echo'', ''$$${MSG}'']\<rparr>"
  let ?js = "[(([], [?c1]), And)]" and ?j = "([], [?c2])"
  have f: "?f ''sort'' = Inr ''sort''" "?f ''echo'' = Inr ''echo''" "?f ''${SRC}'' = Inr ''in.txt''"
      "?f ''${TGT}'' = Inr ''/b/out.txt''" "?f ''$$${MSG}'' = Inr ''$5 | rm''"
    by (code_simp)+
  have parse: "parse (command_line demo_generator) = Inr (job_nodes ?js ?j)" by code_simp
  have ok: "os_ok demo_os" "job_list_ok ?js ?j"
    by (simp_all add: os_ok_def demo_os_def job_list_ok_def job_ok_def new_command_def)
  have total: "?f s = Inr (?g s)" if "s \<in> job_strings ?j \<union> \<Union> ((job_strings \<circ> fst) ` set ?js)" for s
    using that f by (auto simp: job_strings_def command_strings_def new_command_def)
  obtain r where "command_run demo_os False demo_eval demo_generator demo_task =
        Inr (Some (fst (sh_eval demo_os ''.'' 0 (map (\<lambda>(i, op). (map_job ?g i, op)) ?js) (map_job ?g ?j))), r)"
      "spawns (trace r) = snd (sh_eval demo_os ''.'' 0 (map (\<lambda>(i, op). (map_job ?g i, op)) ?js) (map_job ?g ?j))"
    using command_run_refines [OF ok parse, of ?f demo_eval demo_task ?g, OF _ total refl]
    by (auto simp: demo_names_def)
  then show ?thesis
    by (simp add: f map_job_def map_command_def job_code_def short_circuits_def process_of_def demo_os_def
        new_command_def Let_def)
qed

end
