(* ===== verification/CheckStyle.thy ===== *)
theory CheckStyle
  imports Prelude "HOL-Library.Monad_Syntax"
begin

text \<open>
  \<^verbatim>\<open>utils/check-style.py\<close>: unified diffs as objects (\<^verbatim>\<open>PatchChunkLine\<close>,
  \<^verbatim>\<open>PatchChunk\<close>, \<^verbatim>\<open>Patch\<close>), their parser and printer, the pass that takes back the
  removal of trailing blanks, the configuration of the indenter and the driver
  \<^verbatim>\<open>indent_files\<close>. A diff is a list of lines without their line ends. The lines of a chunk
  are objects that the lists \<^verbatim>\<open>src()\<close> and \<^verbatim>\<open>dst()\<close> share; they are referred to by their
  position in the chunk.
\<close>

section \<open>Patches\<close>

datatype line_type = NO_TYPE | SRC | DST | BOTH

record chunk_line =
  line_type :: line_type
  line_text :: string

definition new_line :: chunk_line where
  "new_line = \<lparr>line_type = NO_TYPE, line_text = []\<rparr>"

definition set_src_line :: "string \<Rightarrow> chunk_line \<Rightarrow> chunk_line" where
  "set_src_line s l = l\<lparr>line_type := SRC, line_text := s\<rparr>"

definition set_dst_line :: "string \<Rightarrow> chunk_line \<Rightarrow> chunk_line" where
  "set_dst_line s l = l\<lparr>line_type := DST, line_text := s\<rparr>"

definition set_both_line :: "string \<Rightarrow> chunk_line \<Rightarrow> chunk_line" where
  "set_both_line s l = l\<lparr>line_type := BOTH, line_text := s\<rparr>"

definition append_to_line :: "string \<Rightarrow> chunk_line \<Rightarrow> chunk_line" where
  "append_to_line s l = l\<lparr>line_text := line_text l @ s\<rparr>"

definition is_src :: "chunk_line \<Rightarrow> bool" where
  "is_src l = (line_type l = SRC \<or> line_type l = BOTH)"

definition is_dst :: "chunk_line \<Rightarrow> bool" where
  "is_dst l = (line_type l = DST \<or> line_type l = BOTH)"

text \<open>\<^verbatim>\<open>raise Exception('invalid patch')\<close> is the left case.\<close>

definition write_line :: "chunk_line \<Rightarrow> unit + string" where
  "write_line l =
     (case line_type l of
        SRC \<Rightarrow> Inr (''-'' @ line_text l)
      | DST \<Rightarrow> Inr (''+'' @ line_text l)
      | BOTH \<Rightarrow> Inr ('' '' @ line_text l)
      | NO_TYPE \<Rightarrow> Inl ())"

record chunk =
  chunk_lines :: "chunk_line list"
  src_pos :: int
  dst_pos :: int

definition new_chunk :: "string \<Rightarrow> string \<Rightarrow> chunk" where
  "new_chunk s d = \<lparr>chunk_lines = [], src_pos = int_of_digits s, dst_pos = int_of_digits d\<rparr>"

definition add_line :: "chunk_line \<Rightarrow> chunk \<Rightarrow> chunk" where
  "add_line l c = c\<lparr>chunk_lines := chunk_lines c @ [l]\<rparr>"

text \<open>\<^verbatim>\<open>src()\<close> and \<^verbatim>\<open>dst()\<close>, as the positions of the lines they share.\<close>

definition src_refs :: "chunk \<Rightarrow> nat list" where
  "src_refs c = filter (\<lambda>i. is_src (chunk_lines c ! i)) [0..<length (chunk_lines c)]"

definition dst_refs :: "chunk \<Rightarrow> nat list" where
  "dst_refs c = filter (\<lambda>i. is_dst (chunk_lines c ! i)) [0..<length (chunk_lines c)]"

definition src_len :: "chunk \<Rightarrow> nat" where "src_len c = length (src_refs c)"

definition dst_len :: "chunk \<Rightarrow> nat" where "dst_len c = length (dst_refs c)"

definition write_chunk :: "chunk \<Rightarrow> unit + string list" where
  "write_chunk c =
     rbind (map_res write_line (chunk_lines c)) (\<lambda>ls.
       Inr ((''@@ -'' @ show_int (src_pos c) @ '','' @ show_nat (src_len c) @ '' +'' @
             show_int (dst_pos c) @ '','' @ show_nat (dst_len c) @ '' @@'') # ls))"

record patch =
  patch_src :: string
  patch_dst :: string
  chunks :: "chunk list"

definition new_patch :: patch where
  "new_patch = \<lparr>patch_src = [], patch_dst = [], chunks = []\<rparr>"

definition write_patch :: "patch \<Rightarrow> unit + string list" where
  "write_patch p =
     rbind (map_res write_chunk (chunks p)) (\<lambda>cs.
       Inr ((''--- '' @ patch_src p) # (''+++ '' @ patch_dst p) # concat cs))"

section \<open>The parser\<close>

text \<open>The expression \<^verbatim>\<open>^@@ -([0-9]+),([0-9]+) \+([0-9]+),([0-9]+) @@\<close>, with its groups 1 and 3.\<close>

definition number :: "string \<Rightarrow> (string \<times> string) option" where
  "number s =
     (let d = takeWhile is_digit s in if d \<noteq> [] then Some (d, dropWhile is_digit s) else None)"

definition chunk_start :: "string \<Rightarrow> (string \<times> string) option" where
  "chunk_start l =
     do { s \<leftarrow> after_prefix ''@@ -'' l;
          (a, s) \<leftarrow> number s; s \<leftarrow> after_prefix '','' s; (_, s) \<leftarrow> number s;
          s \<leftarrow> after_prefix '' +'' s;
          (b, s) \<leftarrow> number s; s \<leftarrow> after_prefix '','' s; (_, s) \<leftarrow> number s;
          _ \<leftarrow> after_prefix '' @@'' s;
          Some (a, b) }"

text \<open>
  The state of the loop: the patches (the current one is the last) and a reference to the
  current chunk, which a new patch does not reset.
\<close>

datatype patch_error = BadLine | NoPatch | NoChunk

record patch_parser =
  patchset :: "patch list"
  current_chunk :: "(nat \<times> nat) option"

definition change_nth :: "nat \<Rightarrow> ('a \<Rightarrow> 'a) \<Rightarrow> 'a list \<Rightarrow> 'a list" where
  "change_nth i f xs = xs[i := f (xs ! i)]"

definition on_patch :: "(patch \<Rightarrow> patch) \<Rightarrow> patch_parser \<Rightarrow> patch_error + patch_parser" where
  "on_patch f st =
     (if patchset st = [] then Inl NoPatch
      else Inr (st\<lparr>patchset := change_nth (length (patchset st) - 1) f (patchset st)\<rparr>))"

definition on_chunk :: "(chunk \<Rightarrow> chunk) \<Rightarrow> patch_parser \<Rightarrow> patch_error + patch_parser" where
  "on_chunk f st =
     (case current_chunk st of
        None \<Rightarrow> Inl NoChunk
      | Some (i, j) \<Rightarrow>
          Inr (st\<lparr>patchset := change_nth i (\<lambda>p. p\<lparr>chunks := change_nth j f (chunks p)\<rparr>) (patchset st)\<rparr>))"

definition start_chunk :: "string \<times> string \<Rightarrow> patch_parser \<Rightarrow> patch_error + patch_parser" where
  "start_chunk pos st =
     rbind (on_patch (\<lambda>p. p\<lparr>chunks := chunks p @ [new_chunk (fst pos) (snd pos)]\<rparr>) st) (\<lambda>st'.
       Inr (st'\<lparr>current_chunk := Some (length (patchset st) - 1, length (chunks (last (patchset st))))\<rparr>))"

definition parse_line :: "patch_parser \<Rightarrow> string \<Rightarrow> patch_error + patch_parser" where
  "parse_line st l =
     (case after_prefix ''--- '' l of
        Some s \<Rightarrow> Inr (st\<lparr>patchset := patchset st @ [new_patch\<lparr>patch_src := s\<rparr>]\<rparr>)
      | None \<Rightarrow>
     (case after_prefix ''+++ '' l of
        Some s \<Rightarrow> on_patch (\<lambda>p. p\<lparr>patch_dst := s\<rparr>) st
      | None \<Rightarrow>
     (case chunk_start l of
        Some pos \<Rightarrow> start_chunk pos st
      | None \<Rightarrow>
     (case l of
        CHR ''-'' # s \<Rightarrow> on_chunk (add_line (set_src_line s new_line)) st
      | CHR ''+'' # s \<Rightarrow> on_chunk (add_line (set_dst_line s new_line)) st
      | CHR '' '' # s \<Rightarrow> on_chunk (add_line (set_both_line s new_line)) st
      | _ \<Rightarrow> Inl BadLine))))"

definition parse_patchset :: "string list \<Rightarrow> patch_error + patch list" where
  "parse_patchset diff =
     rbind (for_each parse_line diff \<lparr>patchset = [], current_chunk = None\<rparr>) (\<lambda>st. Inr (patchset st))"

section \<open>Printing and parsing\<close>

text \<open>
  The patches that the parser can build: positions are natural numbers, every line has a type,
  and no line of a chunk is printed as the header of a patch.
\<close>

definition line_ok :: "chunk_line \<Rightarrow> bool" where
  "line_ok l =
     (case line_type l of
        SRC \<Rightarrow> \<not> startswith (line_text l) ''-- ''
      | DST \<Rightarrow> \<not> startswith (line_text l) ''++ ''
      | BOTH \<Rightarrow> True
      | NO_TYPE \<Rightarrow> False)"

definition chunk_ok :: "chunk \<Rightarrow> bool" where
  "chunk_ok c = (0 \<le> src_pos c \<and> 0 \<le> dst_pos c \<and> list_all line_ok (chunk_lines c))"

definition patch_ok :: "patch \<Rightarrow> bool" where
  "patch_ok p = list_all chunk_ok (chunks p)"

lemma after_prefix_append [simp]: "after_prefix p (p @ s) = Some s"
  by (simp add: after_prefix_def startswith_iff)

lemma chunk_start_head: "chunk_start l = Some pos \<Longrightarrow> \<exists>s. l = CHR ''@'' # s"
  by (auto simp: chunk_start_def after_prefix_def startswith_iff split: if_splits Option.bind_splits)

text \<open>A printed line is read as the line itself, added to the current chunk.\<close>

lemma parse_written_line:
  assumes "line_ok l"
  shows "\<exists>s. write_line l = Inr s \<and> (\<forall>st. parse_line st s = on_chunk (add_line l) st)"
proof -
  have "chunk_start (c # s) = None" if "c \<noteq> CHR ''@''" for c s
    using chunk_start_head [of "c # s"] that by (cases "chunk_start (c # s)") auto
  with assms show ?thesis
    by (cases l; cases "line_type l")
       (auto simp: line_ok_def write_line_def parse_line_def after_prefix_def
                   set_src_line_def set_dst_line_def set_both_line_def new_line_def)
qed

text \<open>A printed header of a chunk is read as its positions.\<close>

lemma number_show:
  "\<not> is_digit c \<Longrightarrow> number (show_nat n @ c # s) = Some (show_nat n, c # s)"
  using show_nat_digits [of n] by (simp add: number_def takeWhile_digits list_all_iff dropWhile_append2)

lemma chunk_start_header:
  "chunk_start (''@@ -'' @ show_nat a @ '','' @ show_nat b @ '' +'' @ show_nat c @ '','' @ show_nat d @ '' @@'')
   = Some (show_nat a, show_nat c)"
  by (simp add: chunk_start_def after_prefix_def number_show is_digit_def)

definition at_chunk :: "patch list \<Rightarrow> patch \<Rightarrow> chunk list \<Rightarrow> chunk \<Rightarrow> patch_parser" where
  "at_chunk qs p cs c =
     \<lparr>patchset = qs @ [p\<lparr>chunks := cs @ [c]\<rparr>], current_chunk = Some (length qs, length cs)\<rparr>"

lemma on_chunk_at: "on_chunk f (at_chunk qs p cs c) = Inr (at_chunk qs p cs (f c))"
  by (simp add: on_chunk_def at_chunk_def change_nth_def)

lemma parse_written_lines:
  assumes "list_all line_ok ls"
  shows "\<exists>ss. map_res write_line ls = Inr ss \<and>
     for_each parse_line ss (at_chunk qs p cs c) =
       Inr (at_chunk qs p cs (c\<lparr>chunk_lines := chunk_lines c @ ls\<rparr>))"
  using assms
proof (induction ls arbitrary: c)
  case Nil
  show ?case by simp
next
  case (Cons l ls)
  from Cons.prems obtain s where
    s: "write_line l = Inr s" "\<And>st. parse_line st s = on_chunk (add_line l) st"
    using parse_written_line [of l] by auto
  from Cons obtain ss where ss: "map_res write_line ls = Inr ss"
    "for_each parse_line ss (at_chunk qs p cs (add_line l c)) =
       Inr (at_chunk qs p cs (add_line l c\<lparr>chunk_lines := chunk_lines (add_line l c) @ ls\<rparr>))"
    by fastforce
  with s show ?case
    by (intro exI [of _ "s # ss"]) (simp add: on_chunk_at add_line_def)
qed

lemma parse_written_chunk:
  assumes "chunk_ok c" and "patchset st = qs @ [p]"
  shows "\<exists>ss. write_chunk c = Inr ss \<and>
     (\<exists>k. for_each parse_line ss st =
        Inr \<lparr>patchset = qs @ [p\<lparr>chunks := chunks p @ [c]\<rparr>], current_chunk = k\<rparr>)"
proof -
  let ?h = "''@@ -'' @ show_int (src_pos c) @ '','' @ show_nat (src_len c) @ '' +'' @
            show_int (dst_pos c) @ '','' @ show_nat (dst_len c) @ '' @@''"
  from assms(1) have pos: "0 \<le> src_pos c" "0 \<le> dst_pos c" by (simp_all add: chunk_ok_def)
  let ?c0 = "\<lparr>chunk_lines = [], src_pos = src_pos c, dst_pos = dst_pos c\<rparr>"
  have "chunk_start ?h = Some (show_nat (nat (src_pos c)), show_nat (nat (dst_pos c)))"
    using pos chunk_start_header [of "nat (src_pos c)" "src_len c" "nat (dst_pos c)" "dst_len c"]
    by (simp add: show_int_def)
  then have "parse_line st ?h = start_chunk (show_nat (nat (src_pos c)), show_nat (nat (dst_pos c))) st"
    by (simp add: parse_line_def after_prefix_def)
  also have "\<dots> = Inr (at_chunk qs p (chunks p) ?c0)"
    using assms(2) pos
    by (simp add: start_chunk_def on_patch_def at_chunk_def change_nth_def new_chunk_def int_of_show_nat)
  finally have head: "parse_line st ?h = Inr (at_chunk qs p (chunks p) ?c0)" .
  from assms(1) have "list_all line_ok (chunk_lines c)" by (simp add: chunk_ok_def)
  from parse_written_lines [OF this, of qs p "chunks p" ?c0] obtain ss where
    ss: "map_res write_line (chunk_lines c) = Inr ss"
    "for_each parse_line ss (at_chunk qs p (chunks p) ?c0) = Inr (at_chunk qs p (chunks p) c)"
    by (cases c) auto
  then show ?thesis using head
    by (intro exI [of _ "?h # ss"]) (auto simp: write_chunk_def at_chunk_def)
qed

lemma parse_written_chunks:
  assumes "list_all chunk_ok cs" and "patchset st = qs @ [p]"
  shows "\<exists>sss. map_res write_chunk cs = Inr sss \<and>
     (\<exists>k. for_each parse_line (concat sss) st =
        Inr \<lparr>patchset = qs @ [p\<lparr>chunks := chunks p @ cs\<rparr>], current_chunk = k\<rparr>)"
  using assms
proof (induction cs arbitrary: st p)
  case Nil
  then show ?case by (cases st) simp
next
  case (Cons c cs)
  then obtain ss k where ss: "write_chunk c = Inr ss" "for_each parse_line ss st =
      Inr \<lparr>patchset = qs @ [p\<lparr>chunks := chunks p @ [c]\<rparr>], current_chunk = k\<rparr>"
    using parse_written_chunk [of c st qs p] by auto
  let ?st = "\<lparr>patchset = qs @ [p\<lparr>chunks := chunks p @ [c]\<rparr>], current_chunk = k\<rparr>"
  from Cons.prems(1) Cons.IH [of ?st "p\<lparr>chunks := chunks p @ [c]\<rparr>"] obtain sss k' where
    "map_res write_chunk cs = Inr sss" "for_each parse_line (concat sss) ?st =
      Inr \<lparr>patchset = qs @ [p\<lparr>chunks := chunks p @ c # cs\<rparr>], current_chunk = k'\<rparr>"
    by auto
  with ss show ?case
    by (intro exI [of _ "ss # sss"]) (auto simp: for_each_append)
qed

lemma parse_written_patch:
  assumes "patch_ok p"
  shows "\<exists>ss. write_patch p = Inr ss \<and>
     (\<exists>k. for_each parse_line ss st = Inr \<lparr>patchset = patchset st @ [p], current_chunk = k\<rparr>)"
proof -
  let ?q = "new_patch\<lparr>patch_src := patch_src p, patch_dst := patch_dst p\<rparr>"
  let ?h = "[''--- '' @ patch_src p, ''+++ '' @ patch_dst p]"
  let ?st = "st\<lparr>patchset := patchset st @ [?q]\<rparr>"
  have head: "for_each parse_line ?h st = Inr ?st"
    by (simp add: parse_line_def after_prefix_def on_patch_def change_nth_def)
  have q: "?q\<lparr>chunks := chunks ?q @ chunks p\<rparr> = p"
    by (cases p) (simp add: new_patch_def)
  from assms have "list_all chunk_ok (chunks p)" by (simp add: patch_ok_def)
  from parse_written_chunks [OF this, of ?st "patchset st" ?q] obtain sss k where
    sss: "map_res write_chunk (chunks p) = Inr sss"
    "for_each parse_line (concat sss) ?st = Inr \<lparr>patchset = patchset st @ [p], current_chunk = k\<rparr>"
    unfolding q by auto
  then have "for_each parse_line (?h @ concat sss) st = Inr \<lparr>patchset = patchset st @ [p], current_chunk = k\<rparr>"
    by (simp only: for_each_append head rbind_simps)
  with sss(1) show ?thesis by (auto simp: write_patch_def)
qed

lemma parse_written_patches:
  assumes "list_all patch_ok ps"
  shows "\<exists>sss. map_res write_patch ps = Inr sss \<and>
     (\<exists>k. for_each parse_line (concat sss) st = Inr \<lparr>patchset = patchset st @ ps, current_chunk = k\<rparr>)"
  using assms
proof (induction ps arbitrary: st)
  case Nil
  show ?case by (cases st) simp
next
  case (Cons p ps)
  then obtain ss k where ss: "write_patch p = Inr ss"
    "for_each parse_line ss st = Inr \<lparr>patchset = patchset st @ [p], current_chunk = k\<rparr>"
    using parse_written_patch [of p st] by auto
  from Cons.prems Cons.IH [of "\<lparr>patchset = patchset st @ [p], current_chunk = k\<rparr>"] obtain sss k' where
    "map_res write_patch ps = Inr sss"
    "for_each parse_line (concat sss) \<lparr>patchset = patchset st @ [p], current_chunk = k\<rparr> =
       Inr \<lparr>patchset = patchset st @ p # ps, current_chunk = k'\<rparr>"
    by auto
  with ss show ?case
    by (intro exI [of _ "ss # sss"]) (auto simp: for_each_append)
qed

lemma parse_write:
  assumes "list_all patch_ok ps"
  shows "\<exists>sss. map_res write_patch ps = Inr sss \<and> parse_patchset (concat sss) = Inr ps"
  using parse_written_patches [OF assms, of "\<lparr>patchset = [], current_chunk = None\<rparr>"]
  by (auto simp: parse_patchset_def)

text \<open>The invariant of the parser: the patches are well-formed and the current chunk exists.\<close>

definition patchset_ok :: "patch_parser \<Rightarrow> bool" where
  "patchset_ok st =
     (list_all patch_ok (patchset st) \<and>
      (case current_chunk st of
         None \<Rightarrow> True
       | Some (i, j) \<Rightarrow> i < length (patchset st) \<and> j < length (chunks (patchset st ! i))))"

lemma list_all_change_nth:
  "list_all P xs \<Longrightarrow> (\<And>x. P x \<Longrightarrow> P (f x)) \<Longrightarrow> i < length xs \<Longrightarrow> list_all P (change_nth i f xs)"
  by (auto simp: change_nth_def list_all_length nth_list_update)

lemma on_patch_ok:
  assumes "patchset_ok st" and "on_patch f st = Inr st'"
    and "\<And>p. patch_ok p \<Longrightarrow> patch_ok (f p)" and "\<And>p. length (chunks p) \<le> length (chunks (f p))"
  shows "patchset_ok st'"
  using assms(1,2) list_all_change_nth [of patch_ok "patchset st" f "length (patchset st) - 1"] assms(3)
  by (auto simp: patchset_ok_def on_patch_def change_nth_def nth_list_update split: if_splits option.splits)
     (meson assms(4) less_le_trans)+

lemma on_chunk_ok:
  assumes "patchset_ok st" and "on_chunk (add_line l) st = Inr st'" and "line_ok l"
  shows "patchset_ok st'"
proof -
  from assms(2) obtain i j where ij: "current_chunk st = Some (i, j)"
    by (auto simp: on_chunk_def split: option.splits)
  let ?f = "\<lambda>p. p\<lparr>chunks := change_nth j (add_line l) (chunks p)\<rparr>"
  from ij assms(1) have b: "list_all patch_ok (patchset st)" "i < length (patchset st)"
    "j < length (chunks (patchset st ! i))"
    by (auto simp: patchset_ok_def)
  have "chunk_ok c \<Longrightarrow> chunk_ok (add_line l c)" for c
    using assms(3) by (simp add: chunk_ok_def add_line_def)
  then have "patch_ok (?f (patchset st ! i))"
    using b list_all_change_nth [of chunk_ok "chunks (patchset st ! i)" "add_line l" j]
    by (simp add: patch_ok_def list_all_length)
  then have "list_all patch_ok ((patchset st)[i := ?f (patchset st ! i)])"
    using b by (auto simp: list_all_length nth_list_update)
  with assms(2) ij b show ?thesis
    by (auto simp: on_chunk_def patchset_ok_def change_nth_def)
qed

lemma int_of_digits_nonneg: "list_all is_digit s \<Longrightarrow> 0 \<le> int_of_digits s"
proof (induction s rule: rev_induct)
  case Nil
  show ?case by (simp add: int_of_digits_def)
next
  case (snoc c s)
  then have "48 \<le> int (of_char c)" "0 \<le> int_of_digits s" by (auto simp: is_digit_def)
  then show ?case by (simp add: int_of_digits_snoc)
qed

lemma number_digits: "number s = Some (d, r) \<Longrightarrow> list_all is_digit d"
  by (auto simp: number_def Let_def list_all_iff split: if_splits dest: set_takeWhileD)

lemma chunk_start_digits:
  "chunk_start l = Some (a, b) \<Longrightarrow> list_all is_digit a \<and> list_all is_digit b"
  by (auto simp: chunk_start_def split: Option.bind_splits) (rule number_digits, assumption)+

lemma start_chunk_ok:
  assumes "patchset_ok st" and "start_chunk (a, b) st = Inr st'"
    and "list_all is_digit a" and "list_all is_digit b"
  shows "patchset_ok st'"
proof -
  let ?f = "\<lambda>p. p\<lparr>chunks := chunks p @ [new_chunk a b]\<rparr>"
  from assms(2) obtain st1 where st1: "on_patch ?f st = Inr st1"
    "st' = st1\<lparr>current_chunk := Some (length (patchset st) - 1, length (chunks (last (patchset st))))\<rparr>"
    by (auto simp: start_chunk_def rbind_eq_Inr)
  have "chunk_ok (new_chunk a b)"
    using assms(3,4) by (simp add: chunk_ok_def new_chunk_def int_of_digits_nonneg)
  then have "patchset_ok st1"
    using on_patch_ok [OF assms(1) st1(1)] by (simp add: patch_ok_def)
  moreover from st1(1) have "patchset st \<noteq> []"
    "patchset st1 = change_nth (length (patchset st) - 1) ?f (patchset st)"
    by (auto simp: on_patch_def split: if_splits)
  ultimately show ?thesis
    using st1(2) by (auto simp: patchset_ok_def change_nth_def last_conv_nth)
qed

lemma parse_line_ok:
  assumes "patchset_ok st" and "parse_line st l = Inr st'"
  shows "patchset_ok st'"
proof (cases "after_prefix ''--- '' l")
  case (Some s)
  with assms show ?thesis
    by (auto simp: parse_line_def patchset_ok_def patch_ok_def new_patch_def nth_append split: option.splits)
next
  case src: None
  show ?thesis
  proof (cases "after_prefix ''+++ '' l")
    case (Some s)
    with assms src show ?thesis
      using on_patch_ok [OF assms(1), of "\<lambda>p. p\<lparr>patch_dst := s\<rparr>" st']
      by (simp add: parse_line_def patch_ok_def)
  next
    case dst: None
    show ?thesis
    proof (cases "chunk_start l")
      case (Some pos)
      with assms src dst show ?thesis
        using chunk_start_digits start_chunk_ok by (cases pos) (fastforce simp: parse_line_def)
    next
      case None
      with assms(2) src dst consider
        (s) s where "l = CHR ''-'' # s" "on_chunk (add_line (set_src_line s new_line)) st = Inr st'"
      | (d) s where "l = CHR ''+'' # s" "on_chunk (add_line (set_dst_line s new_line)) st = Inr st'"
      | (b) s where "l = CHR '' '' # s" "on_chunk (add_line (set_both_line s new_line)) st = Inr st'"
        by (cases l) (auto simp: parse_line_def split: char.splits bool.splits)
      then show ?thesis
      proof cases
        case s
        with src on_chunk_ok [OF assms(1) s(2)] show ?thesis
          by (simp add: line_ok_def set_src_line_def after_prefix_def split: if_splits)
      next
        case d
        with dst on_chunk_ok [OF assms(1) d(2)] show ?thesis
          by (simp add: line_ok_def set_dst_line_def after_prefix_def split: if_splits)
      next
        case b
        with on_chunk_ok [OF assms(1) b(2)] show ?thesis
          by (simp add: line_ok_def set_both_line_def)
      qed
    qed
  qed
qed

lemma parse_patchset_ok:
  assumes "parse_patchset diff = Inr ps"
  shows "list_all patch_ok ps"
proof -
  from assms obtain st where st: "for_each parse_line diff \<lparr>patchset = [], current_chunk = None\<rparr> = Inr st"
    "ps = patchset st"
    by (auto simp: parse_patchset_def rbind_eq_Inr)
  have "patchset_ok st"
    by (rule for_each_invariant [where I = patchset_ok, OF parse_line_ok _ st(1)])
       (simp_all add: patchset_ok_def [of "\<lparr>patchset = [], current_chunk = None\<rparr>"])
  with st(2) show ?thesis by (simp add: patchset_ok_def)
qed

text \<open>
  C14: The patches that \<^verbatim>\<open>parse_patchset\<close> can return are exactly the well-formed ones
  (\<open>patch_ok\<close>: numbered chunks, every line typed, no removed line starting with
  \<^verbatim>\<open>"-- "\<close> and no added line starting with \<^verbatim>\<open>"++ "\<close>), and exactly these are
  written without an exception to a diff that is parsed to the same patches again.
\<close>

theorem parse_patchset_roundtrip:
  "((\<exists>diff. parse_patchset diff = Inr ps) \<longleftrightarrow> list_all patch_ok ps) \<and>
   ((\<exists>sss. map_res write_patch ps = Inr sss \<and> parse_patchset (concat sss) = Inr ps) \<longleftrightarrow> list_all patch_ok ps)"
  using parse_write [of ps] parse_patchset_ok [of _ ps] by blast

text \<open>
  A removed line whose text starts with \<^verbatim>\<open>"-- "\<close> (an SQL or Lua comment, a decrement) is
  taken for the header of a new patch, and the chunk loses it.
\<close>

lemma removed_line_read_as_header:
  "parse_patchset [''--- a'', ''+++ b'', ''@@ -1,2 +1,1 @@'', ''--- i;'', '' x''] =
   Inr [\<lparr>patch_src = ''a'', patch_dst = ''b'', chunks =
           [\<lparr>chunk_lines = [\<lparr>line_type = BOTH, line_text = ''x''\<rparr>], src_pos = 1, dst_pos = 1\<rparr>]\<rparr>,
        \<lparr>patch_src = ''i;'', patch_dst = [], chunks = []\<rparr>]"
  by code_simp

text \<open>A chunk of one line, whose length the diff omits, is rejected.\<close>

lemma one_line_chunk_rejected:
  "parse_patchset [''--- a'', ''+++ b'', ''@@ -1 +1 @@'', ''-x '', ''+x''] = Inl BadLine"
  by code_simp

section \<open>Trailing blanks\<close>

text \<open>
  The expression \<^verbatim>\<open>^(.*)([ \t]+)$\<close>: the first group is greedy, so the second one is
  exactly the last character.
\<close>

definition is_blank :: "char \<Rightarrow> bool" where
  "is_blank c = (c = CHR '' '' \<or> c = CHR 0x09)"

definition trailing_blank :: "string \<Rightarrow> (string \<times> string) option" where
  "trailing_blank s = (if s \<noteq> [] \<and> is_blank (last s) then Some (butlast s, [last s]) else None)"

text \<open>The body of the loop, on the shared lines \<open>s\<close> and \<open>d\<close>.\<close>

definition restore_line :: "nat \<Rightarrow> nat \<Rightarrow> chunk_line list \<Rightarrow> chunk_line list" where
  "restore_line s d ls =
     (case trailing_blank (line_text (ls ! s)) of
        Some (t, b) \<Rightarrow> if t = line_text (ls ! d) then change_nth d (append_to_line b) ls else ls
      | None \<Rightarrow> ls)"

text \<open>
  The loop over \<^verbatim>\<open>range(0,len(src))\<close>; the value \<open>False\<close> is the
  \<^verbatim>\<open>IndexError\<close> of \<^verbatim>\<open>dst[i]\<close>, on which the whole function returns.
\<close>

fun restore_lines :: "nat list \<Rightarrow> nat list \<Rightarrow> chunk_line list \<Rightarrow> bool \<times> chunk_line list" where
  "restore_lines [] ds ls = (True, ls)"
| "restore_lines (s # ss) [] ls = (False, ls)"
| "restore_lines (s # ss) (d # ds) ls = restore_lines ss ds (restore_line s d ls)"

fun restore_chunks :: "chunk list \<Rightarrow> bool \<times> chunk list" where
  "restore_chunks [] = (True, [])"
| "restore_chunks (c # cs) =
     (let (go, ls) = restore_lines (src_refs c) (dst_refs c) (chunk_lines c);
          c' = c\<lparr>chunk_lines := ls\<rparr>
      in if go then (let (go', cs') = restore_chunks cs in (go', c' # cs')) else (False, c' # cs))"

fun restore_patches :: "patch list \<Rightarrow> patch list" where
  "restore_patches [] = []"
| "restore_patches (p # ps) =
     (let (go, cs) = restore_chunks (chunks p); p' = p\<lparr>chunks := cs\<rparr>
      in p' # (if go then restore_patches ps else ps))"

definition remove_trailing_whitespace_changes :: "string list \<Rightarrow> patch_error + patch list" where
  "remove_trailing_whitespace_changes diff =
     rbind (parse_patchset diff) (\<lambda>ps. Inr (restore_patches ps))"

section \<open>The indenter\<close>

definition config_level0 :: "string list" where
  "config_level0 = [
    [], ''sp_func_proto_paren=Add'', ''sp_func_def_paren=Add'', ''sp_func_call_paren=Add'',
     ''sp_after_semi_for=Ignore'', ''sp_before_sparen=Ignore'', ''sp_before_ellipsis=Remove'',
     ''sp_type_func=Ignore'', ''sp_after_type=Ignore'', ''nl_class_leave_one_liners=True'',
     ''nl_enum_leave_one_liners=True'', ''nl_func_leave_one_liners=True'',
     ''nl_assign_leave_one_liners=True'', ''nl_collapse_empty_body=True'',
     ''nl_getset_leave_one_liners=True'', ''nl_if_leave_one_liners=True'',
     ''nl_fdef_brace=Ignore'', ''# finally, indentation configuration'', ''indent_with_tabs=0'',
     ''indent_namespace=false'', ''indent_columns=2'', ''indent_brace=2'',
     ''indent_case_brace=indent_columns'', ''indent_class=true'', ''indent_class_colon=True'',
     ''indent_switch_case=indent_columns'', ''# alignment'', ''indent_align_assign=False'',
     ''align_left_shift=True'', ''# comment reformating disabled'',
     ''cmt_reflow_mode=1 # do not touch comments at all'',
     ''cmt_indent_multi=False # really, do not touch them'',
     ''disable_processing_cmt= '' @ [CHR 0x22] @ '' *NS_CHECK_STYLE_OFF*'' @ [CHR 0x22],
     ''enable_processing_cmt=  '' @ [CHR 0x22] @ '' *NS_CHECK_STYLE_ON*'' @ [CHR 0x22]]"

definition config_level1 :: "string list" where
  "config_level1 = [
    [], ''# extra spaces here and there'', ''sp_brace_typedef=Add'', ''sp_enum_assign=Add'',
     ''sp_before_sparen=Add'', ''sp_after_semi_for=Add'', ''sp_arith=Add'', ''sp_assign=Add'',
     ''sp_compare=Add'', ''sp_func_class_paren=Add'', ''sp_after_type=Add'', ''sp_type_func=Add'',
     ''sp_angle_paren=Add'']"

definition config_level2 :: "string list" where
  "config_level2 = [
    [], ''nl_if_brace=Add'', ''nl_brace_else=Add'', ''nl_elseif_brace=Add'', ''nl_else_brace=Add'',
     ''nl_while_brace=Add'', ''nl_do_brace=Add'', ''nl_for_brace=Add'', ''nl_brace_while=Add'',
     ''nl_switch_brace=Add'', ''nl_after_case=True'', ''nl_namespace_brace=ignore'',
     ''nl_after_brace_open=True'', ''nl_class_leave_one_liners=False'',
     ''nl_enum_leave_one_liners=False'', ''nl_func_leave_one_liners=False'',
     ''nl_if_leave_one_liners=False'', ''nl_class_colon=Ignore'', ''nl_before_access_spec=2'',
     ''nl_after_access_spec=0'', ''indent_access_spec=-indent_columns'',
     ''nl_after_semicolon=True'', ''pos_class_colon=Lead'', ''pos_class_comma=Trail'',
     ''indent_constr_colon=true'', ''pos_bool=Lead'', ''nl_class_init_args=Add'',
     ''nl_template_class=Add'', ''nl_class_brace=Add'', ''# does not work very well'',
     ''nl_func_type_name=Ignore'', ''nl_func_scope_name=Ignore'',
     ''nl_func_type_name_class=Ignore'', ''nl_func_proto_type_name=Ignore'',
     ''# function'' @ [CHR 0x5C] @ ''n('', ''nl_func_paren=Remove'', ''nl_fdef_brace=Add'',
     ''nl_struct_brace=Add'', ''nl_enum_brace=Add'', ''nl_union_brace=Add'',
     ''mod_full_brace_do=Add'', ''mod_full_brace_for=Add'', ''mod_full_brace_if=Add'',
     ''mod_full_brace_while=Add'', ''mod_full_brace_for=Add'', ''mod_remove_extra_semicolon=True'',
     ''# max code width'', ''#code_width=128'', ''#ls_for_split_full=True'',
     ''#ls_func_split_full=True'', ''nl_cpp_lambda_leave_one_liners=True'']"

definition uncrustify_config_file :: "int \<Rightarrow> string list" where
  "uncrustify_config_file level =
     config_level0 @ (if 1 \<le> level then config_level1 else []) @ (if 2 \<le> level then config_level2 else [])"

text \<open>
  The programs and libraries that the script calls: \<^verbatim>\<open>uncrustify\<close> with its configuration
  (\<open>None\<close> when it is not installed), \<^verbatim>\<open>difflib.unified_diff\<close>, the program
  \<^verbatim>\<open>patch\<close> (what it leaves in the file, its exit code is not looked at), and the name that
  \<^verbatim>\<open>tempfile.mkstemp\<close> gives to the output for a source file. A file is the list of its lines.
\<close>

record tools =
  uncrustify :: "string list \<Rightarrow> string list option \<Rightarrow> string list option"
  unified_diff :: "string \<Rightarrow> string \<Rightarrow> string list \<Rightarrow> string list \<Rightarrow> string list"
  patch_file :: "string list \<Rightarrow> string list \<Rightarrow> string list"
  temp_name :: "string \<Rightarrow> string"

type_synonym files = "string \<Rightarrow> string list option"

datatype style_error = NotInstalled | MissingFile | PatchError patch_error | InvalidPatch

fun map_error :: "('e \<Rightarrow> 'f) \<Rightarrow> 'e + 'a \<Rightarrow> 'f + 'a" where
  "map_error f (Inl e) = Inl (f e)"
| "map_error f (Inr a) = Inr a"

text \<open>
  The patch file: below level 3 the first patch of the diff after
  \<^verbatim>\<open>remove_trailing_whitespace_changes\<close>, else the diff.
\<close>

definition final_diff :: "int \<Rightarrow> string list \<Rightarrow> style_error + string list" where
  "final_diff level diff =
     (if level < 3 then
        rbind (map_error PatchError (remove_trailing_whitespace_changes diff)) (\<lambda>ps.
          case ps of [] \<Rightarrow> Inr [] | p # _ \<Rightarrow> map_error (\<lambda>_. InvalidPatch) (write_patch p))
      else Inr diff)"

text \<open>
  \<^verbatim>\<open>indent\<close>, with the contents of the output file as its result. The diff is a generator:
  with \<^verbatim>\<open>debug\<close> it is written to a file first, and nothing is left of it for the patch.
\<close>

definition indent :: "tools \<Rightarrow> files \<Rightarrow> string \<Rightarrow> bool \<Rightarrow> int \<Rightarrow> style_error + string list" where
  "indent t fs source debug level =
     (case uncrustify t (uncrustify_config_file level) (fs source) of
        None \<Rightarrow> Inl NotInstalled
      | Some out \<Rightarrow>
     (case fs source of
        None \<Rightarrow> Inl MissingFile
      | Some src \<Rightarrow>
          let diff = unified_diff t source (temp_name t source) src out;
              rest = (if debug then [] else diff)
          in rbind (final_diff level rest) (\<lambda>final. Inr (patch_file t final src))))"

record style_run =
  verdict :: bool
  fs_after :: files
  printed :: "string list"

definition indent_files :: "tools \<Rightarrow> files \<Rightarrow> string list \<Rightarrow> bool \<Rightarrow> bool \<Rightarrow> int \<Rightarrow> bool \<Rightarrow> style_error + style_run" where
  "indent_files t fs names diff debug level inplace =
     rbind (map_res (\<lambda>f. rbind (indent t fs f debug level) (\<lambda>d. Inr (f, d))) names) (\<lambda>output.
       if inplace then
         Inr \<lparr>verdict = True, fs_after = fold (\<lambda>(src, dst) fs. fs(src \<mapsto> dst)) output fs, printed = []\<rparr>
       else
         let failed = filter (\<lambda>(src, dst). fs src \<noteq> Some dst) output in
         if failed = [] then Inr \<lparr>verdict = True, fs_after = fs, printed = []\<rparr>
         else Inr \<lparr>verdict = False, fs_after = fs, printed =
           (if \<not> diff then
              (''Found '' @ show_nat (length failed) @ '' badly indented files:'') #
              map (\<lambda>(src, dst). ''  '' @ src) failed
            else
              concat (map (\<lambda>(src, dst). unified_diff t src (temp_name t src) (the (fs src)) dst) failed))\<rparr>)"

record style_options =
  opt_debug :: bool
  opt_level :: int
  opt_git :: bool
  opt_file :: string
  opt_diff :: bool
  opt_in_place :: bool

text \<open>The lines of \<^verbatim>\<open>git diff --name-only\<close> and the output of \<^verbatim>\<open>git rev-parse --show-toplevel\<close>.\<close>

definition git_modified_files :: "string list \<Rightarrow> string \<Rightarrow> string list" where
  "git_modified_files diff_names root_dir =
     map (\<lambda>filename. butlast root_dir @ ''/'' @ strip filename)
       (filter (\<lambda>item. endswith item ''.h'' \<or> endswith item ''.cc'') (map strip diff_names))"

text \<open>
  \<^verbatim>\<open>run_as_main\<close> with the exception handler around it: the exit code and the files
  afterwards. \<open>git_files\<close> is what \<^verbatim>\<open>git_modified_files\<close> returns.
\<close>

definition run_as_main :: "tools \<Rightarrow> files \<Rightarrow> string list \<Rightarrow> style_options \<Rightarrow> int \<times> files" where
  "run_as_main t fs git_files opts =
     (let go = (\<lambda>names. case indent_files t fs names (opt_diff opts) (opt_debug opts) (opt_level opts) (opt_in_place opts) of
                  Inl _ \<Rightarrow> (1, fs)
                | Inr r \<Rightarrow> (if verdict r then 0 else 1, fs_after r))
      in if opt_git opts then go git_files
         else if opt_file opts \<noteq> [] then
           (if fs (opt_file opts) = None then (1, fs) else go [opt_file opts])
         else (1, fs))"

section \<open>What the correction of trailing blanks changes\<close>

text \<open>A line is kept, or is a line of the new file and gets one blank more.\<close>

definition line_restored :: "chunk_line \<Rightarrow> chunk_line \<Rightarrow> bool" where
  "line_restored l l' =
     (l' = l \<or> is_dst l \<and> (\<exists>b. is_blank b \<and> l' = l\<lparr>line_text := line_text l @ [b]\<rparr>))"

definition chunk_restored :: "chunk \<Rightarrow> chunk \<Rightarrow> bool" where
  "chunk_restored c c' =
     (src_pos c' = src_pos c \<and> dst_pos c' = dst_pos c \<and> list_all2 line_restored (chunk_lines c) (chunk_lines c'))"

definition patch_restored :: "patch \<Rightarrow> patch \<Rightarrow> bool" where
  "patch_restored p p' =
     (patch_src p' = patch_src p \<and> patch_dst p' = patch_dst p \<and> list_all2 chunk_restored (chunks p) (chunks p'))"

lemma restored_refl [simp]:
  "line_restored l l" "chunk_restored c c" "patch_restored p p"
  by (simp_all add: line_restored_def chunk_restored_def patch_restored_def list.rel_refl)

lemma restored_list_refl [simp]:
  "list_all2 line_restored ls ls" "list_all2 chunk_restored cs cs" "list_all2 patch_restored ps ps"
  by (simp_all add: list.rel_refl)

lemma trailing_blank_Some: "trailing_blank s = Some (t, b) \<longleftrightarrow> (\<exists>c. is_blank c \<and> b = [c] \<and> s = t @ [c])"
  by (cases s rule: rev_cases) (auto simp: trailing_blank_def)

lemma restore_line_other: "k \<noteq> d \<Longrightarrow> restore_line s d ls ! k = ls ! k"
  by (simp add: restore_line_def change_nth_def split: option.splits)

lemma length_restore_line [simp]: "length (restore_line s d ls) = length ls"
  by (simp add: restore_line_def change_nth_def split: option.splits)

lemma restore_line_at:
  "d < length ls \<Longrightarrow>
   restore_line s d ls ! d =
     (case trailing_blank (line_text (ls ! s)) of
        Some (t, b) \<Rightarrow> if t = line_text (ls ! d) then append_to_line b (ls ! d) else ls ! d
      | None \<Rightarrow> ls ! d)"
  by (simp add: restore_line_def change_nth_def split: option.splits)

lemma restore_line_restored:
  "d < length ls \<Longrightarrow> is_dst (ls ! d) \<Longrightarrow> line_restored (ls ! d) (restore_line s d ls ! d)"
  by (auto simp: restore_line_at line_restored_def trailing_blank_Some append_to_line_def split: option.splits)

text \<open>The loop changes only the lines of the second list, each at its own turn.\<close>

lemma length_restore_lines [simp]: "length (snd (restore_lines ss ds ls)) = length ls"
  by (induction ss ds ls rule: restore_lines.induct) simp_all

lemma restore_lines_other: "k \<notin> set ds \<Longrightarrow> snd (restore_lines ss ds ls) ! k = ls ! k"
  by (induction ss ds ls rule: restore_lines.induct) (simp_all add: restore_line_other)

lemma restore_lines_restored:
  assumes "distinct ds" and "\<And>d. d \<in> set ds \<Longrightarrow> d < length ls \<and> is_dst (ls ! d)"
  shows "list_all2 line_restored ls (snd (restore_lines ss ds ls))"
  using assms
proof (induction ss ds ls rule: restore_lines.induct)
  case (3 s ss d ds ls)
  let ?ls = "restore_line s d ls"
  have "list_all2 line_restored ?ls (snd (restore_lines ss ds ?ls))"
  proof (rule "3.IH")
    show "distinct ds" using "3.prems"(1) by simp
    show "d' < length ?ls \<and> is_dst (?ls ! d')" if "d' \<in> set ds" for d'
      using "3.prems" that by (metis distinct.simps(2) length_restore_line list.set_intros(2) restore_line_other)
  qed
  moreover have "snd (restore_lines ss ds ?ls) ! d = ?ls ! d"
    using "3.prems"(1) by (simp add: restore_lines_other)
  moreover have "line_restored (ls ! d) (?ls ! d)"
    using "3.prems"(2) by (simp add: restore_line_restored)
  ultimately show ?case
    by (auto simp: list_all2_conv_all_nth) (metis restore_line_other)
qed simp_all

lemma dst_refs_props:
  "distinct (dst_refs c)" "d \<in> set (dst_refs c) \<Longrightarrow> d < length (chunk_lines c) \<and> is_dst (chunk_lines c ! d)"
  by (auto simp: dst_refs_def)

lemma restore_chunks_restored: "list_all2 chunk_restored cs (snd (restore_chunks cs))"
proof (induction cs)
  case (Cons c cs)
  have "list_all2 line_restored (chunk_lines c) (snd (restore_lines (src_refs c) (dst_refs c) (chunk_lines c)))"
    by (rule restore_lines_restored) (auto simp: dst_refs_props)
  with Cons show ?case
    by (auto simp: Let_def chunk_restored_def [of c] split: prod.splits)
qed simp

lemma restore_patches_restored: "list_all2 patch_restored ps (restore_patches ps)"
proof (induction ps)
  case (Cons p ps)
  with restore_chunks_restored [of "chunks p"] show ?case
    by (auto simp: Let_def patch_restored_def [of p] split: prod.splits)
qed simp

text \<open>Corrected patches are still written without an exception.\<close>

lemma write_restored_line: "line_ok l \<Longrightarrow> line_restored l l' \<Longrightarrow> \<exists>s. write_line l' = Inr s"
  by (auto simp: line_ok_def line_restored_def write_line_def split: line_type.splits)

lemma write_restored_chunk:
  assumes "chunk_ok c" and "chunk_restored c c'"
  shows "\<exists>ss. write_chunk c' = Inr ss"
proof -
  have "\<exists>s. write_line l' = Inr s" if l': "l' \<in> set (chunk_lines c')" for l'
  proof -
    from assms(2) l' obtain l where "l \<in> set (chunk_lines c)" "line_restored l l'"
      by (auto simp: chunk_restored_def dest: list_all2_partner)
    with assms(1) show ?thesis using write_restored_line by (auto simp: chunk_ok_def list_all_iff)
  qed
  then have "\<exists>ss. map_res write_line (chunk_lines c') = Inr ss"
    by (simp add: map_res_exists)
  then show ?thesis by (auto simp: write_chunk_def)
qed

lemma write_restored_patch:
  assumes "patch_ok p" and "patch_restored p p'"
  shows "\<exists>ss. write_patch p' = Inr ss"
proof -
  have "\<exists>ss. write_chunk c' = Inr ss" if c': "c' \<in> set (chunks p')" for c'
  proof -
    from assms(2) c' obtain c where "c \<in> set (chunks p)" "chunk_restored c c'"
      by (auto simp: patch_restored_def dest: list_all2_partner)
    with assms(1) show ?thesis using write_restored_chunk by (auto simp: patch_ok_def list_all_iff)
  qed
  then have "\<exists>sss. map_res write_chunk (chunks p') = Inr sss"
    by (simp add: map_res_exists)
  then show ?thesis by (auto simp: write_patch_def)
qed

lemma write_restored_patches:
  assumes "list_all patch_ok ps"
  shows "list_all (\<lambda>p. \<exists>ss. write_patch p = Inr ss) (restore_patches ps)"
proof -
  have "\<exists>ss. write_patch p' = Inr ss" if p': "p' \<in> set (restore_patches ps)" for p'
  proof -
    from restore_patches_restored [of ps] p' obtain p where "p \<in> set ps" "patch_restored p p'"
      by (auto dest: list_all2_partner)
    with assms show ?thesis using write_restored_patch by (auto simp: list_all_iff)
  qed
  then show ?thesis by (simp add: list_all_iff)
qed

text \<open>
  C15: \<^verbatim>\<open>remove_trailing_whitespace_changes\<close> raises exactly what the parser raises, never
  the \<^verbatim>\<open>IndexError\<close> of its own loop. Otherwise it returns the parsed patches with the same
  headers, positions, number of lines and line types, every line being kept or, if it belongs to
  the new file, extended by exactly one blank; and the result is written without an exception.
\<close>

theorem remove_trailing_safe:
  "case parse_patchset diff of
     Inl e \<Rightarrow> remove_trailing_whitespace_changes diff = Inl e
   | Inr ps \<Rightarrow> \<exists>qs. remove_trailing_whitespace_changes diff = Inr qs \<and> list_all2 patch_restored ps qs \<and>
               list_all (\<lambda>p. \<exists>ss. write_patch p = Inr ss) qs"
  using restore_patches_restored write_restored_patches parse_patchset_ok [of diff]
  by (cases "parse_patchset diff") (auto simp: remove_trailing_whitespace_changes_def)

text \<open>What the loop does to the line paired with a removed line.\<close>

lemma restore_lines_at:
  assumes "distinct ds" and "\<And>d. d \<in> set ds \<Longrightarrow> d < length ls"
    and "i < length ss" and "i < length ds" and "ss ! i \<notin> set ds"
  shows "line_text (snd (restore_lines ss ds ls) ! (ds ! i)) =
     (case trailing_blank (line_text (ls ! (ss ! i))) of
        Some (t, b) \<Rightarrow> if t = line_text (ls ! (ds ! i)) then line_text (ls ! (ss ! i)) else line_text (ls ! (ds ! i))
      | None \<Rightarrow> line_text (ls ! (ds ! i)))"
  using assms
proof (induction ss ds ls arbitrary: i rule: restore_lines.induct)
  case (3 s ss d ds ls)
  show ?case
  proof (cases i)
    case 0
    with "3.prems" have "snd (restore_lines ss ds (restore_line s d ls)) ! d = restore_line s d ls ! d"
      by (simp add: restore_lines_other)
    with 0 "3.prems" show ?thesis
      by (auto simp: restore_line_at trailing_blank_Some append_to_line_def split: option.splits)
  next
    case (Suc j)
    with "3.prems" have "ds ! j \<noteq> d" "ss ! j \<noteq> d" by auto
    with "3.IH" [of j] "3.prems" show ?thesis unfolding Suc
      by (simp add: restore_line_other split: option.split)
  qed
qed simp_all

text \<open>
  The effect on a chunk. When the \<open>i\<close>-th line of the old side is a removed line and the
  \<open>i\<close>-th line of the new side exists, the latter becomes equal to the removed line if it was
  that line without its last blank, and is kept otherwise; in particular the removal of two or
  more trailing blanks is not taken back.
\<close>

theorem restore_removed_line:
  assumes "i < src_len c" and "i < dst_len c"
    and "line_type (chunk_lines c ! (src_refs c ! i)) = SRC"
  shows "line_text (snd (restore_lines (src_refs c) (dst_refs c) (chunk_lines c)) ! (dst_refs c ! i)) =
     (let old = line_text (chunk_lines c ! (src_refs c ! i)); new = line_text (chunk_lines c ! (dst_refs c ! i)) in
      if old \<noteq> [] \<and> is_blank (last old) \<and> butlast old = new then old else new)"
proof -
  have "src_refs c ! i \<notin> set (dst_refs c)"
    using assms(3) by (auto simp: dst_refs_def is_dst_def)
  then show ?thesis
    using assms restore_lines_at [of "dst_refs c" "chunk_lines c" i "src_refs c"] dst_refs_props(1) [of c] dst_refs_props(2) [of _ c]
    by (simp add: src_len_def dst_len_def trailing_blank_def Let_def)
qed

definition demo_chunk :: chunk where
  "demo_chunk = \<lparr>chunk_lines = [\<lparr>line_type = SRC, line_text = ''x ''\<rparr>, \<lparr>line_type = DST, line_text = ''x''\<rparr>],
                 src_pos = 1, dst_pos = 1\<rparr>"

theorem restore_removed_line_witness:
  "0 < src_len demo_chunk \<and> 0 < dst_len demo_chunk \<and>
   line_text (snd (restore_lines (src_refs demo_chunk) (dst_refs demo_chunk) (chunk_lines demo_chunk)) ! 1) = ''x ''"
proof -
  have refs: "src_refs demo_chunk = [0]" "dst_refs demo_chunk = [1]"
    by code_simp+
  then show ?thesis
    using restore_removed_line [of 0 demo_chunk]
    by (simp add: src_len_def dst_len_def demo_chunk_def is_blank_def)
qed

text \<open>
  The lines are paired by their number on each side, so a context line can be changed; the
  written chunk then no longer matches the source file.
\<close>

lemma context_line_changed:
  "remove_trailing_whitespace_changes [''--- a'', ''+++ b'', ''@@ -1,2 +1,1 @@'', ''-x '', '' x''] =
   Inr [\<lparr>patch_src = ''a'', patch_dst = ''b'', chunks =
           [\<lparr>chunk_lines = [\<lparr>line_type = SRC, line_text = ''x ''\<rparr>, \<lparr>line_type = BOTH, line_text = ''x ''\<rparr>],
             src_pos = 1, dst_pos = 1\<rparr>]\<rparr>]"
  by code_simp

section \<open>Running the check\<close>

lemma indent_debug:
  assumes "\<And>src. patch_file t [] src = src" and "uncrustify t (uncrustify_config_file level) (fs f) \<noteq> None"
  shows "indent t fs f True level = (case fs f of None \<Rightarrow> Inl MissingFile | Some src \<Rightarrow> Inr src)"
  using assms
  by (cases "fs f") (auto simp: indent_def final_diff_def remove_trailing_whitespace_changes_def parse_patchset_def)

lemma indent_files_debug:
  assumes "\<And>src. patch_file t [] src = src"
    and "\<And>f. f \<in> set names \<Longrightarrow> uncrustify t (uncrustify_config_file level) (fs f) \<noteq> None"
    and "set names \<subseteq> dom fs"
  shows "indent_files t fs names diff True level inplace = Inr \<lparr>verdict = True, fs_after = fs, printed = []\<rparr>"
proof -
  let ?out = "map (\<lambda>f. (f, the (fs f))) names"
  have out: "map_res (\<lambda>f. rbind (indent t fs f True level) (\<lambda>d. Inr (f, d))) names = Inr ?out"
    using assms by (intro map_res_Inr) (auto simp: indent_debug)
  have "fold (\<lambda>(src, dst) fs. fs(src \<mapsto> dst)) ?out fs = fs"
    using assms(3) by (induction names) (auto simp: fun_upd_idem)
  moreover have "filter (\<lambda>(src, dst). fs src \<noteq> Some dst) ?out = []"
    using assms(3) by (auto simp: filter_empty_conv)
  ultimately show ?thesis using out by (simp add: indent_files_def)
qed

text \<open>
  With \<^verbatim>\<open>--debug\<close> the check accepts every file. If \<^verbatim>\<open>uncrustify\<close> is installed,
  the files exist, and \<^verbatim>\<open>patch\<close> leaves a file alone when the patch file is empty, then
  whatever the indenter proposes the exit code is 0 and, also with \<^verbatim>\<open>--in-place\<close>, no file
  is changed: writing the diff to the debugging file consumes the generator.
\<close>

theorem debug_run_accepts_all:
  assumes "opt_debug opts" and "opt_git opts"
    and "\<And>src. patch_file t [] src = src"
    and "\<And>f. f \<in> set git_files \<Longrightarrow> uncrustify t (uncrustify_config_file (opt_level opts)) (fs f) \<noteq> None"
    and "set git_files \<subseteq> dom fs"
  shows "run_as_main t fs git_files opts = (0, fs)"
  using assms indent_files_debug [of t git_files "opt_level opts" fs "opt_diff opts" "opt_in_place opts"]
  by (simp add: run_as_main_def)

definition demo_tools :: tools where
  "demo_tools =
     \<lparr>uncrustify = (\<lambda>cfg src. Some [''y'']),
      unified_diff = (\<lambda>a b s d. [''--- '' @ a, ''+++ '' @ b, ''@@ -1 +1 @@''] @ map (\<lambda>l. ''-'' @ l) s @ map (\<lambda>l. ''+'' @ l) d),
      patch_file = (\<lambda>diff src. if diff = [] then src else [''y'']), temp_name = (\<lambda>f. f @ ''.tmp'')\<rparr>"

definition demo_style_options :: style_options where
  "demo_style_options =
     \<lparr>opt_debug = True, opt_level = 3, opt_git = True, opt_file = [], opt_diff = False, opt_in_place = False\<rparr>"

theorem debug_run_accepts_all_witness:
  "run_as_main demo_tools [''f.cc'' \<mapsto> [''x'']] [''f.cc''] demo_style_options = (0, [''f.cc'' \<mapsto> [''x'']]) \<and>
   fst (run_as_main demo_tools [''f.cc'' \<mapsto> [''x'']] [''f.cc''] (demo_style_options\<lparr>opt_debug := False\<rparr>)) = 1"
proof
  show "run_as_main demo_tools [''f.cc'' \<mapsto> [''x'']] [''f.cc''] demo_style_options = (0, [''f.cc'' \<mapsto> [''x'']])"
    by (rule debug_run_accepts_all) (simp_all add: demo_tools_def demo_style_options_def)
  show "fst (run_as_main demo_tools [''f.cc'' \<mapsto> [''x'']] [''f.cc''] (demo_style_options\<lparr>opt_debug := False\<rparr>)) = 1"
    by (simp add: run_as_main_def indent_files_def indent_def final_diff_def demo_tools_def
        demo_style_options_def uncrustify_config_file_def)
qed

end
