(* ===== verification/ConfigFile.thy ===== *)
theory ConfigFile
  imports Prelude
begin

text \<open>
  \<^verbatim>\<open>utils.py\<close>: the reader of the configuration file \<^verbatim>\<open>.ns3rc\<close>. A file is the list of
  its lines with their line ends, \<open>None\<close> when it does not exist; \<^verbatim>\<open>eval\<close> of a Python
  expression is a parameter with the value or the exception as its result.
\<close>

section \<open>Looking for a variable\<close>

text \<open>\<^verbatim>\<open>if '#' in line: (line, comment) = line.split('#', 1)\<close>\<close>

definition without_comment :: "string \<Rightarrow> string" where
  "without_comment line = (if contains line ''#'' then hd (split_once (CHR ''#'') line) else line)"

text \<open>\<^verbatim>\<open>eval(s.split('=', 1)[1].strip())\<close>\<close>

definition eval_definition :: "(string \<Rightarrow> 'v result) \<Rightarrow> string \<Rightarrow> 'v result" where
  "eval_definition eval s =
     rbind (py_index (split_once (CHR ''='') s) 1) (\<lambda>e. eval (strip e))"

fun list_loop :: "(string \<Rightarrow> 'v list result) \<Rightarrow> string \<Rightarrow> string list \<Rightarrow> string \<Rightarrow> bool \<Rightarrow> 'v list result" where
  "list_loop eval list_name [] list_string parsing_multiline_list = Inr []"
| "list_loop eval list_name (line # file_in) list_string parsing_multiline_list =
     (let line = without_comment line in
      if contains line list_name \<or> parsing_multiline_list then
        let list_string = list_string @ line in
        if \<not> contains list_string '']'' then list_loop eval list_name file_in list_string True
        else eval_definition eval list_string
      else list_loop eval list_name file_in list_string parsing_multiline_list)"

definition get_list_from_file :: "(string \<Rightarrow> 'v list result) \<Rightarrow> string list option \<Rightarrow> string \<Rightarrow> 'v list result" where
  "get_list_from_file eval file list_name =
     (case file of None \<Rightarrow> Inr [] | Some lines \<Rightarrow> list_loop eval list_name lines [] False)"

text \<open>The loop for a boolean; \<open>None\<close> is \<^verbatim>\<open>bool_found = False\<close>.\<close>

fun bool_loop :: "(string \<Rightarrow> 'v result) \<Rightarrow> string \<Rightarrow> string list \<Rightarrow> 'v option result" where
  "bool_loop eval bool_name [] = Inr None"
| "bool_loop eval bool_name (line # file_in) =
     (let line = without_comment line in
      if contains line bool_name then rbind (eval_definition eval line) (\<lambda>b. Inr (Some b))
      else bool_loop eval bool_name file_in)"

text \<open>Without the file \<^verbatim>\<open>bool_found\<close> is never assigned.\<close>

definition get_bool_from_file :: "(string \<Rightarrow> 'v result) \<Rightarrow> string list option \<Rightarrow> string \<Rightarrow> 'v \<Rightarrow> 'v result" where
  "get_bool_from_file eval file bool_name value_if_missing =
     (case file of
        None \<Rightarrow> Inl UnboundLocalError
      | Some lines \<Rightarrow>
          rbind (bool_loop eval bool_name lines) (\<lambda>found.
            Inr (case found of Some b \<Rightarrow> b | None \<Rightarrow> value_if_missing)))"

record ns3rc =
  config_file_exists :: bool
  modules_enabled :: "string list"
  examples_enabled :: bool
  tests_enabled :: bool

text \<open>
  The file system is a function of the path; \<open>home\<close> is \<^verbatim>\<open>os.path.expanduser('~/')\<close>. The
  first \<^verbatim>\<open>.ns3rc\<close> that exists is read.
\<close>

definition read_config_file ::
    "(string \<Rightarrow> string list result) \<Rightarrow> (string \<Rightarrow> bool result) \<Rightarrow> (string \<Rightarrow> string list option) \<Rightarrow> string \<Rightarrow> ns3rc result" where
  "read_config_file eval_list eval_bool files home =
     (let dot_ns3rc_path = (if files ''.ns3rc'' = None then home @ ''.ns3rc'' else ''.ns3rc'') in
      if files dot_ns3rc_path = None then
        Inr \<lparr>config_file_exists = False, modules_enabled = [''all_modules''],
             examples_enabled = False, tests_enabled = False\<rparr>
      else
        rbind (get_list_from_file eval_list (files dot_ns3rc_path) ''modules_enabled'') (\<lambda>modules.
        rbind (get_bool_from_file eval_bool (files dot_ns3rc_path) ''examples_enabled'' False) (\<lambda>examples.
        rbind (get_bool_from_file eval_bool (files dot_ns3rc_path) ''tests_enabled'' False) (\<lambda>tests.
          Inr \<lparr>config_file_exists = True,
               modules_enabled = (if modules = [] then [''all_modules''] else modules),
               examples_enabled = examples, tests_enabled = tests\<rparr>))))"

section \<open>What is found\<close>

lemma contains_single: "contains s [c] \<longleftrightarrow> c \<in> set s"
  by (induction s) auto

lemma without_comment_eq: "without_comment line = takeWhile (\<lambda>c. c \<noteq> CHR ''#'') line"
proof (cases "CHR ''#'' \<in> set line")
  case True
  then show ?thesis by (simp add: without_comment_def contains_single split_once_def)
next
  case False
  then have all: "takeWhile (\<lambda>c. c \<noteq> CHR ''#'') line = line" by (intro takeWhile_eq_all_conv [THEN iffD2]) auto
  show ?thesis unfolding all using False by (simp add: without_comment_def contains_single)
qed

text \<open>The text of a definition: the lines from its name on, up to the first closing bracket.\<close>

definition list_definition :: "string \<Rightarrow> string list \<Rightarrow> string option" where
  "list_definition name lines =
     (let from_name = dropWhile (\<lambda>l. \<not> contains l name) (map without_comment lines);
          (open_lines, rest) = span_at (\<lambda>l. CHR '']'' \<in> set l) from_name
      in case rest of [] \<Rightarrow> None | l # _ \<Rightarrow> Some (concat open_lines @ l))"

lemma list_loop_inside:
  assumes "CHR '']'' \<notin> set acc"
  shows "list_loop eval name lines acc True =
     (let (open_lines, rest) = span_at (\<lambda>l. CHR '']'' \<in> set l) (map without_comment lines)
      in case rest of [] \<Rightarrow> Inr [] | l # _ \<Rightarrow> eval_definition eval (acc @ concat open_lines @ l))"
  using assms
  by (induction lines arbitrary: acc) (auto simp: Let_def contains_single span_at_def cong: list.case_cong)

lemma list_loop_eq:
  "list_loop eval name lines [] False =
     (case list_definition name lines of None \<Rightarrow> Inr [] | Some s \<Rightarrow> eval_definition eval s)"
proof (induction lines)
  case Nil
  show ?case by (simp add: list_definition_def span_at_def)
next
  case (Cons line lines)
  show ?case
  proof (cases "contains (without_comment line) name")
    case True
    show ?thesis
    proof (cases "CHR '']'' \<in> set (without_comment line)")
      case in_line: True
      with True show ?thesis by (simp add: list_definition_def span_at_def contains_single)
    next
      case False
      with True show ?thesis
        using list_loop_inside [of "without_comment line" eval name lines]
        by (cases "dropWhile (\<lambda>c. CHR '']'' \<notin> set c) (map without_comment lines)")
           (simp_all add: list_definition_def span_at_def contains_single Let_def del: dropWhile_eq_Nil_conv)
    qed
  next
    case False
    with Cons show ?thesis by (simp add: list_definition_def)
  qed
qed

lemma bool_loop_eq:
  "bool_loop eval name lines =
     (case filter (\<lambda>l. contains l name) (map without_comment lines) of
        [] \<Rightarrow> Inr None
      | l # _ \<Rightarrow> rbind (eval_definition eval l) (\<lambda>b. Inr (Some b)))"
  by (induction lines) (simp_all add: Let_def)

lemma found_or_missing:
  "rbind (rbind r (\<lambda>b. Inr (Some b))) (\<lambda>found. Inr (case found of Some b \<Rightarrow> b | None \<Rightarrow> missing)) = r"
  by (cases r) simp_all

text \<open>
  What the two readers return. \<^verbatim>\<open>get_list_from_file\<close> evaluates the text from the first line
  that holds the name to the first closing bracket from there on, comments removed, and returns
  the empty list when the file, the name or the bracket is missing.
  \<^verbatim>\<open>get_bool_from_file\<close> evaluates the first line that holds the name, or returns the given
  value when there is none; but when the file does not exist it raises
  \<^verbatim>\<open>UnboundLocalError\<close> instead of returning that value.
\<close>

theorem config_readers_correct:
  "get_list_from_file eval_list content name =
     (case Option.bind content (list_definition name) of None \<Rightarrow> Inr [] | Some s \<Rightarrow> eval_definition eval_list s) \<and>
   get_bool_from_file eval_bool content name missing =
     (case content of
        None \<Rightarrow> Inl UnboundLocalError
      | Some lines \<Rightarrow>
          (case filter (\<lambda>l. contains l name) (map (takeWhile (\<lambda>c. c \<noteq> CHR ''#'')) lines) of
             [] \<Rightarrow> Inr missing
           | l # _ \<Rightarrow> eval_definition eval_bool l))"
proof -
  have w: "without_comment = takeWhile (\<lambda>c. c \<noteq> CHR ''#'')"
    by (rule ext) (rule without_comment_eq)
  show ?thesis
    by (cases content)
       (auto simp: get_list_from_file_def get_bool_from_file_def list_loop_eq bool_loop_eq found_or_missing w
             split: option.splits list.splits)
qed

text \<open>
  \<^verbatim>\<open>read_config_file\<close> asks only for a file that exists, so it never meets the
  \<^verbatim>\<open>UnboundLocalError\<close>; every exception it raises is a definition without \<^verbatim>\<open>=\<close> or one of
  \<^verbatim>\<open>eval\<close>.
\<close>

lemma eval_definition_errors: "eval_definition eval s = Inl e \<Longrightarrow> e = IndexError \<or> (\<exists>t. eval t = Inl e)"
  by (auto simp: eval_definition_def rbind_eq_Inl py_index_def split: if_splits)

lemma read_config_file_errors:
  assumes "read_config_file eval_list eval_bool files home = Inl e"
  shows "e = IndexError \<or> (\<exists>t. eval_list t = Inl e) \<or> (\<exists>t. eval_bool t = Inl e)"
  using assms
  by (auto simp: read_config_file_def get_list_from_file_def get_bool_from_file_def list_loop_eq bool_loop_eq
        rbind_eq_Inl Let_def split: if_splits option.splits list.splits dest!: eval_definition_errors)

end
