(* ===== verification/Wutils.thy ===== *)
theory Wutils
  imports Prelude
begin

text \<open>
  \<^verbatim>\<open>wutils.py\<close>: how the build tool runs a program: the environment of the process, the
  search for the program among the build targets, the command line and the interpretation of its
  exit code. Processes, \<^verbatim>\<open>shlex.split\<close> and \<^verbatim>\<open>os.path.relpath\<close> are parameters.
\<close>

section \<open>State of the build and options\<close>

record waf_options =
  opt_valgrind :: bool
  opt_gdb :: bool
  opt_command_template :: string
  opt_cwd_launch :: string

record task_gen =
  is_ns3_program :: bool
  gen_name :: string
  gen_path :: string
  gen_bld_path :: string
  gen_target_path :: string

record bld =
  NS3_MODULE_PATH :: "string list"
  NS3_EXECUTABLE_PATH :: "string list"
  VALGRIND :: "string list"
  PYTHON_PROGRAM :: "string list"
  pymoddir :: string
  pyvizdir :: string
  launch_dir :: string
  default_cwd :: string
  all_task_gen :: "task_gen list"

type_synonym environ = "(string, string) dict"

record system =
  platform :: string
  pathsep :: string
  os_environ :: environ
  Popen :: "string list \<Rightarrow> environ \<Rightarrow> string option \<Rightarrow> int \<times> string"
  signals :: "(string \<times> int) list"

datatype waf_error =
    Conflicting string string
  | ValgrindMissing
  | Signalled "string list" string
  | Exited "string list" int
  | ProgramNotFound string "string list"
  | NoCommand

definition get_command_template :: "waf_options \<Rightarrow> string list \<Rightarrow> string" where
  "get_command_template opts arguments =
     foldl (\<lambda>cmd arg. cmd @ '' '' @ arg)
       (if opt_command_template opts \<noteq> [] then opt_command_template opts else ''%s'') arguments"

section \<open>The environment of a process\<close>

definition pathvar :: "string \<Rightarrow> string" where
  "pathvar p =
     (if p = ''linux2'' \<or> p = ''linux'' then ''LD_LIBRARY_PATH''
      else if p = ''darwin'' then ''DYLD_LIBRARY_PATH''
      else if p = ''win32'' then ''PATH''
      else if p = ''cygwin'' then ''PATH''
      else ''LD_LIBRARY_PATH'')"

text \<open>Put directories in front of a search path, which need not exist yet.\<close>

definition prepend_path :: "string \<Rightarrow> string \<Rightarrow> string list \<Rightarrow> environ \<Rightarrow> environ" where
  "prepend_path sep var dirs env =
     (case map_of env var of
        Some old \<Rightarrow> AList.update var (join_with sep (dirs @ [old])) env
      | None \<Rightarrow> AList.update var (join_with sep dirs) env)"

definition get_proc_env :: "system \<Rightarrow> bld \<Rightarrow> environ option \<Rightarrow> environ" where
  "get_proc_env sys b os_env =
     (let env0 = (case os_env of None \<Rightarrow> os_environ sys | Some new \<Rightarrow> fold (\<lambda>(k, v). AList.update k v) new (os_environ sys));
          env1 = prepend_path (pathsep sys) (pathvar (platform sys)) (NS3_MODULE_PATH b) env0;
          env2 = prepend_path (pathsep sys) ''PYTHONPATH'' [pymoddir b, pyvizdir b] env1
      in prepend_path (pathsep sys) ''PATH'' (NS3_EXECUTABLE_PATH b) env2)"

section \<open>Running a command\<close>

text \<open>
  The standard error of valgrind is a string, so the loop \<^verbatim>\<open>for line in stderrdata\<close> visits its
  characters.
\<close>

definition leak_error :: "string \<Rightarrow> bool" where
  "leak_error stderrdata =
     foldl (\<lambda>error line. if contains line ''== LEAK SUMMARY'' then True else error) False
       (map (\<lambda>c. [c]) stderrdata)"

definition signal_name :: "(string \<times> int) list \<Rightarrow> int \<Rightarrow> string option" where
  "signal_name sigs retval =
     (if retval < 0 then
        (case filter (\<lambda>(name, val). 3 < length name \<and> take 3 name = ''SIG'' \<and> name ! 3 \<noteq> CHR ''_'' \<and> val = - retval) sigs of
           [] \<Rightarrow> None
         | (name, _) # _ \<Rightarrow> Some name)
      else None)"

definition check_retval :: "system \<Rightarrow> string list \<Rightarrow> int \<Rightarrow> waf_error + int" where
  "check_retval sys argv retval =
     (if retval \<noteq> 0 then
        (case signal_name (signals sys) retval of
           Some name \<Rightarrow> Inl (Signalled argv name)
         | None \<Rightarrow> Inl (Exited argv retval))
      else Inr retval)"

definition run_argv :: "system \<Rightarrow> waf_options \<Rightarrow> bld \<Rightarrow> string list \<Rightarrow> environ option \<Rightarrow> string option \<Rightarrow> bool \<Rightarrow> waf_error + int" where
  "run_argv sys opts b argv os_env cwd force_no_valgrind =
     (let proc_env = get_proc_env sys b os_env in
      if opt_valgrind opts \<and> opt_command_template opts \<noteq> [] then Inl (Conflicting ''--command-template'' ''--valgrind'')
      else if opt_gdb opts \<and> opt_command_template opts \<noteq> [] then Inl (Conflicting ''--command-template'' ''--gdb'')
      else if opt_gdb opts \<and> opt_valgrind opts then Inl (Conflicting ''--valgrind'' ''--gdb'')
      else if opt_gdb opts then Inr (fst (Popen sys ([''gdb'', ''--args''] @ argv) proc_env cwd))
      else if opt_valgrind opts \<and> \<not> force_no_valgrind then
        (case VALGRIND b of
           [] \<Rightarrow> Inl ValgrindMissing
         | v # _ \<Rightarrow>
             let argv = [v, ''--leak-check=full'', ''--show-reachable=yes'', ''--error-exitcode=1''] @ argv;
                 (retval, stderrdata) = Popen sys argv proc_env cwd;
                 error = leak_error stderrdata
             in check_retval sys argv (if retval = 0 \<and> error then 1 else retval))
      else check_retval sys argv (fst (Popen sys argv proc_env cwd)))"

section \<open>Finding and running a program\<close>

definition in_launch_dir :: "bld \<Rightarrow> task_gen \<Rightarrow> bool" where
  "in_launch_dir b obj = (startswith (gen_path obj) (launch_dir b) \<or> startswith (gen_bld_path obj) (launch_dir b))"

definition program_names :: "(string \<Rightarrow> string \<Rightarrow> string) \<Rightarrow> bld \<Rightarrow> task_gen \<Rightarrow> string list" where
  "program_names relpath b obj =
     [gen_name obj, path_join (relpath (gen_path obj) (launch_dir b)) (gen_name obj)]"

text \<open>The loop over the targets; the left case is the \<^verbatim>\<open>ValueError\<close> with the names seen.\<close>

fun find_loop :: "(string \<Rightarrow> string \<Rightarrow> string) \<Rightarrow> bld \<Rightarrow> string \<Rightarrow> task_gen list \<Rightarrow> string list \<Rightarrow> string list + task_gen" where
  "find_loop relpath b program_name [] found_programs = Inl found_programs"
| "find_loop relpath b program_name (obj # objs) found_programs =
     (if \<not> is_ns3_program obj then find_loop relpath b program_name objs found_programs
      else if \<not> in_launch_dir b obj then find_loop relpath b program_name objs found_programs
      else let names = program_names relpath b obj; found_programs = found_programs @ names in
           if program_name \<in> set names then Inr obj else find_loop relpath b program_name objs found_programs)"

definition find_program :: "(string \<Rightarrow> string \<Rightarrow> string) \<Rightarrow> bld \<Rightarrow> string \<Rightarrow> string list + task_gen" where
  "find_program relpath b program_name = find_loop relpath b program_name (all_task_gen b) []"

definition strip_cc :: "string \<Rightarrow> string" where
  "strip_cc name = (if endswith name ''.cc'' then take (length name - 3) name else name)"

definition resolve_program :: "(string \<Rightarrow> string \<Rightarrow> string) \<Rightarrow> bld \<Rightarrow> string \<Rightarrow> waf_error + string \<times> task_gen" where
  "resolve_program relpath b name =
     (let program_name = strip_cc name in
      case find_program relpath b program_name of
        Inl found \<Rightarrow> Inl (ProgramNotFound program_name found)
      | Inr obj \<Rightarrow> Inr (program_name, obj))"

text \<open>
  \<open>split\<close> is \<^verbatim>\<open>shlex.split\<close>; \<open>expand\<close> is the expansion of a command template by
  \<^verbatim>\<open>%\<close>. A command without words is the \<^verbatim>\<open>IndexError\<close> of \<^verbatim>\<open>argv[0]\<close>.
\<close>

definition get_run_program ::
    "(string \<Rightarrow> string \<Rightarrow> string) \<Rightarrow> (string \<Rightarrow> string list) \<Rightarrow> (string \<Rightarrow> string \<Rightarrow> string) \<Rightarrow> bld \<Rightarrow>
     string \<Rightarrow> string option \<Rightarrow> waf_error + string \<times> string list" where
  "get_run_program relpath split expand b program_string command_template =
     (if command_template = None \<or> command_template = Some ''%s'' then
        (case split program_string of
           [] \<Rightarrow> Inl NoCommand
         | name # args \<Rightarrow>
             rbind (resolve_program relpath b name) (\<lambda>(program_name, obj).
               Inr (program_name, gen_target_path obj # args)))
      else
        rbind (resolve_program relpath b program_string) (\<lambda>(program_name, obj).
          let tmpl = expand (the command_template) (gen_target_path obj) in
          Inr (program_name, split (concat (map (\<lambda>c. if c = CHR 0x5C then [CHR 0x5C, CHR 0x5C] else [c]) tmpl)))))"

definition launch_cwd :: "waf_options \<Rightarrow> bld \<Rightarrow> string" where
  "launch_cwd opts b = (if opt_cwd_launch opts \<noteq> [] then opt_cwd_launch opts else default_cwd b)"

definition visualize_args :: "bool \<Rightarrow> string list" where
  "visualize_args visualize = (if visualize then [''--SimulatorImplementationType=ns3::VisualSimulatorImpl''] else [])"

definition run_program ::
    "(string \<Rightarrow> string \<Rightarrow> string) \<Rightarrow> (string \<Rightarrow> string list) \<Rightarrow> (string \<Rightarrow> string \<Rightarrow> string) \<Rightarrow> system \<Rightarrow> waf_options \<Rightarrow>
     bld \<Rightarrow> string \<Rightarrow> string option \<Rightarrow> string option \<Rightarrow> bool \<Rightarrow> waf_error + int" where
  "run_program relpath split expand sys opts b program_string command_template cwd visualize =
     rbind (get_run_program relpath split expand b program_string command_template) (\<lambda>(_, execvec).
       run_argv sys opts b (execvec @ visualize_args visualize) None
         (Some (case cwd of None \<Rightarrow> launch_cwd opts b | Some d \<Rightarrow> d)) False)"

definition run_python_program ::
    "(string \<Rightarrow> string list) \<Rightarrow> system \<Rightarrow> waf_options \<Rightarrow> bld \<Rightarrow> string \<Rightarrow> bool \<Rightarrow> waf_error + int" where
  "run_python_program split sys opts b program_string visualize =
     (case PYTHON_PROGRAM b of
        [] \<Rightarrow> Inl NoCommand
      | python # _ \<Rightarrow>
          run_argv sys opts b ([python] @ split program_string @ visualize_args visualize) None
            (Some (launch_cwd opts b)) False)"

text \<open>The comprehension of \<^verbatim>\<open>uniquify_list\<close> with its set of the items seen.\<close>

fun uniquify_seen :: "'a list \<Rightarrow> 'a set \<Rightarrow> 'a list" where
  "uniquify_seen [] seen = []"
| "uniquify_seen (x # xs) seen = (if x \<notin> seen then x # uniquify_seen xs (insert x seen) else uniquify_seen xs seen)"

definition uniquify_list :: "'a list \<Rightarrow> 'a list" where
  "uniquify_list seq = uniquify_seen seq {}"

section \<open>Correctness\<close>

lemma uniquify_seen_eq: "uniquify_seen xs seen = filter (\<lambda>x. x \<notin> seen) (first_occurrences xs)"
  by (induction xs arbitrary: seen) (auto simp: filter_filter intro: filter_cong)

lemma uniquify_list_eq: "uniquify_list xs = first_occurrences xs"
  by (simp add: uniquify_list_def uniquify_seen_eq)

text \<open>A value put in front of a search path, or alone when there is none.\<close>

definition prefixed :: "string \<Rightarrow> string list \<Rightarrow> string option \<Rightarrow> string option" where
  "prefixed sep dirs old = Some (join_with sep (dirs @ (case old of None \<Rightarrow> [] | Some v \<Rightarrow> [v])))"

lemma map_of_prepend_path:
  "map_of (prepend_path sep var dirs env) v = (if v = var then prefixed sep dirs (map_of env v) else map_of env v)"
  by (auto simp: prepend_path_def prefixed_def split: option.splits)

lemma map_of_fold_update:
  "distinct (map fst new) \<Longrightarrow>
   map_of (fold (\<lambda>(k, v). AList.update k v) new env) v = (case map_of new v of None \<Rightarrow> map_of env v | Some x \<Rightarrow> Some x)"
proof (induction new arbitrary: env)
  case (Cons kv new)
  obtain k x where kv: "kv = (k, x)" by (cases kv)
  with Cons.prems have "map_of new k = None" by (simp add: map_of_eq_None_iff)
  with Cons kv show ?case by (auto split: option.splits)
qed simp

text \<open>
  The environment that \<^verbatim>\<open>get_proc_env\<close> gives to a process. Starting from the environment
  of the build with the overrides of the caller, the library path of the platform begins with the
  module directories, \<^verbatim>\<open>PYTHONPATH\<close> with the two directories of the bindings, and
  \<^verbatim>\<open>PATH\<close> with the directories of the executables (on Windows, where the library path is
  \<^verbatim>\<open>PATH\<close> too, with both); the old values stay at the end and no other variable changes.
\<close>

theorem get_proc_env_correct:
  assumes "distinct (map fst overrides)"
  shows "map_of (get_proc_env sys b (Some overrides)) v =
     (let base = (case map_of overrides v of None \<Rightarrow> map_of (os_environ sys) v | Some x \<Rightarrow> Some x);
          lib = (if v = pathvar (platform sys) then prefixed (pathsep sys) (NS3_MODULE_PATH b) base else base)
      in if v = ''PATH'' then prefixed (pathsep sys) (NS3_EXECUTABLE_PATH b) lib
         else if v = ''PYTHONPATH'' then prefixed (pathsep sys) [pymoddir b, pyvizdir b] lib
         else lib)"
  by (cases "v = ''PATH''"; cases "v = ''PYTHONPATH''"; cases "v = pathvar (platform sys)")
     (simp_all add: get_proc_env_def map_of_prepend_path map_of_fold_update [OF assms] cong: option.case_cong)

definition demo_system :: system where
  "demo_system =
     \<lparr>platform = ''linux'', pathsep = '':'', os_environ = [(''PATH'', ''/bin''), (''HOME'', ''/root'')],
      Popen = (\<lambda>argv env cwd. (0, ''== LEAK SUMMARY'')), signals = [(''SIGSEGV'', 11)]\<rparr>"

definition demo_bld :: bld where
  "demo_bld =
     \<lparr>NS3_MODULE_PATH = [''/b''], NS3_EXECUTABLE_PATH = [''/b/x''], VALGRIND = [''valgrind''],
      PYTHON_PROGRAM = [''python3''], pymoddir = ''/b/py'', pyvizdir = ''/v'', launch_dir = ''/s'',
      default_cwd = ''/s'', all_task_gen = []\<rparr>"

theorem get_proc_env_correct_witness:
  "map_of (get_proc_env demo_system demo_bld (Some [(''PATH'', ''/usr'')])) ''PATH'' = Some ''/b/x:/usr''"
  using get_proc_env_correct [of "[(''PATH'', ''/usr'')]" demo_system demo_bld "''PATH''"]
  by (simp add: demo_system_def demo_bld_def prefixed_def pathvar_def)

text \<open>No single character holds the text looked for.\<close>

lemma leak_error_False: "leak_error stderrdata = False"
proof -
  have "foldl (\<lambda>error line. if contains line ''== LEAK SUMMARY'' then True else error) e (map (\<lambda>c. [c]) cs) = e" for e cs
    by (induction cs arbitrary: e) simp_all
  then show ?thesis by (simp add: leak_error_def)
qed

lemma check_retval_Inr: "check_retval sys argv retval = Inr r \<longleftrightarrow> retval = 0 \<and> r = 0"
  by (auto simp: check_retval_def split: option.splits)

definition valgrind_argv :: "bld \<Rightarrow> string list \<Rightarrow> string list" where
  "valgrind_argv b argv =
     [hd (VALGRIND b), ''--leak-check=full'', ''--show-reachable=yes'', ''--error-exitcode=1''] @ argv"


text \<open>
  The programs that \<^verbatim>\<open>find_program\<close> considers, and its result: the first of them with the name
  or the relative name asked for.
\<close>

definition candidates :: "bld \<Rightarrow> task_gen list" where
  "candidates b = filter (\<lambda>obj. is_ns3_program obj \<and> in_launch_dir b obj) (all_task_gen b)"

lemma find_program_eq:
  "find_program relpath b name =
     (case find (\<lambda>obj. name \<in> set (program_names relpath b obj)) (candidates b) of
        Some obj \<Rightarrow> Inr obj
      | None \<Rightarrow> Inl (concat (map (program_names relpath b) (candidates b))))"
proof -
  have "find_loop relpath b name objs found =
     (case find (\<lambda>obj. name \<in> set (program_names relpath b obj)) (filter (\<lambda>obj. is_ns3_program obj \<and> in_launch_dir b obj) objs) of
        Some obj \<Rightarrow> Inr obj
      | None \<Rightarrow> Inl (found @ concat (map (program_names relpath b) (filter (\<lambda>obj. is_ns3_program obj \<and> in_launch_dir b obj) objs))))"
    for objs found
    by (induction objs arbitrary: found) (auto simp: Let_def split: option.split)
  then show ?thesis by (simp add: find_program_def candidates_def split: option.split)
qed

text \<open>
  The test for the launch directory compares characters, not path components: a program of a
  sibling directory whose name only starts like the launch directory is found as well.
\<close>

lemma sibling_directory_found:
  "map_sum (\<lambda>_. ()) gen_path (find_program (\<lambda>p d. p) (demo_bld\<lparr>launch_dir := ''/s/lte'', all_task_gen :=
      [\<lparr>is_ns3_program = True, gen_name = ''prog'', gen_path = ''/s/lte-old'', gen_bld_path = ''/b/lte-old'',
        gen_target_path = ''/b/lte-old/prog''\<rparr>]\<rparr>) ''prog'') = Inr ''/s/lte-old''"
  by code_simp

end
