(* ===== verification/Cflags.thy ===== *)
theory Cflags
  imports Prelude
begin

text \<open>
  \<^verbatim>\<open>waf-tools/cflags.py\<close>: the compiler flags of the build profiles. A traits object is a
  record of its four methods; \<^verbatim>\<open>None\<close>, which a method returns for a level it does not know, is
  the option \<open>None\<close>. Whether the compiler accepts a flag (\<^verbatim>\<open>check_cxx\<close>) is a parameter.
\<close>

section \<open>Compiler traits\<close>

record compiler_traits =
  get_compiler_flags :: "string list"
  get_warnings_flags :: "int \<Rightarrow> string list"
  get_optimization_flags :: "int \<Rightarrow> string list option"
  get_debug_flags :: "int \<Rightarrow> (string list \<times> string list) option"

text \<open>The loop of \<^verbatim>\<open>get_warnings_flags\<close>: \<^verbatim>\<open>for l in range(level)\<close> with its \<^verbatim>\<open>break\<close>.\<close>

fun warnings_loop :: "string list list \<Rightarrow> nat list \<Rightarrow> string list \<Rightarrow> string list" where
  "warnings_loop table [] warnings = warnings"
| "warnings_loop table (l # ls) warnings =
     (if l < length table then warnings_loop table ls (warnings @ table ! l) else warnings)"

definition warnings_upto :: "string list list \<Rightarrow> int \<Rightarrow> string list" where
  "warnings_upto table level = warnings_loop table [0..<nat level] []"

definition gcc_optimization_flags :: "int \<Rightarrow> string list option" where
  "gcc_optimization_flags level =
     (if level = 0 then Some [''-O0''] else if level = 1 then Some [''-O'']
      else if level = 2 then Some [''-O2''] else if level = 3 then Some [''-O3''] else None)"

definition gcc_debug_flags :: "int \<Rightarrow> (string list \<times> string list) option" where
  "gcc_debug_flags level =
     (if level = 0 then Some ([''-g0''], [''NDEBUG'']) else if level = 1 then Some ([''-g''], [])
      else if 2 \<le> level then Some ([''-ggdb'', ''-g3''], [''_DEBUG'']) else None)"

definition gcc_warnings :: "string list list" where
  "gcc_warnings = [[''-Wall'', ''-Wno-error=deprecated-declarations'', ''-fstrict-aliasing'', ''-Wstrict-aliasing'']]"

definition gcc :: compiler_traits where
  "gcc = \<lparr>get_compiler_flags = [''-std=c++17''],
     get_warnings_flags = warnings_upto gcc_warnings,
     get_optimization_flags = gcc_optimization_flags, get_debug_flags = gcc_debug_flags\<rparr>"

definition icc_warnings :: "string list list" where
  "icc_warnings = [[], [], [''-Wall'']]"

text \<open>The optimization and debug methods of the two classes have the same text.\<close>

definition icc :: compiler_traits where
  "icc = \<lparr>get_compiler_flags = [''/Qstd=c++17''], get_warnings_flags = warnings_upto icc_warnings,
     get_optimization_flags = gcc_optimization_flags, get_debug_flags = gcc_debug_flags\<rparr>"

definition msvc_warnings :: "string list list" where
  "msvc_warnings = [[''/W2''], [''/WX''], [''/Wall'']]"

definition msvc :: compiler_traits where
  "msvc = \<lparr>get_compiler_flags = [], get_warnings_flags = warnings_upto msvc_warnings,
     get_optimization_flags = (\<lambda>level.
       if level = 0 then Some [''/Od''] else if level = 1 then Some []
       else if level = 2 then Some [''/O2''] else if level = 3 then Some [''/Ox''] else None),
     get_debug_flags = (\<lambda>level.
       if level = 0 then Some ([], [''NDEBUG'']) else if level = 1 then Some ([''/ZI'', ''/RTC1''], [])
       else if 2 \<le> level then Some ([''/ZI'', ''/RTC1''], [''_DEBUG'']) else None)\<rparr>"

definition compiler_mapping :: "(string, compiler_traits) dict" where
  "compiler_mapping =
     [(''gcc'', gcc), (''g++'', gcc), (''msvc'', msvc), (''icc'', icc), (''icpc'', icc),
      (''clang'', gcc), (''clang++'', gcc)]"

definition profiles :: "(string, int \<times> int \<times> int) dict" where
  "profiles = [(''default'', (2, 1, 1)), (''debug'', (0, 2, 3)), (''release'', (3, 1, 0))]"

section \<open>Configuration\<close>

record conf_env =
  COMPILER_CC :: string
  COMPILER_CXX :: string
  CCFLAGS :: "string list"
  CXXFLAGS :: "string list"
  CCDEFINES :: "string list"
  CXXDEFINES :: "string list"

record cflags_options =
  build_profile :: string
  disable_werror :: bool

datatype conf_error = NoCompiler | PyError py_error

text \<open>The argument is \<open>None\<close> when it is not a list, which is a \<^verbatim>\<open>TypeError\<close>.\<close>

definition get_supported_cxxflags :: "(string \<Rightarrow> bool) \<Rightarrow> string list option \<Rightarrow> conf_error + string list" where
  "get_supported_cxxflags check_cxx cxxflags =
     (case cxxflags of
        None \<Rightarrow> Inl (PyError TypeError)
      | Some flags \<Rightarrow>
          Inr (foldl (\<lambda>supported flag. if check_cxx flag then supported @ [flag] else supported) [] flags))"

definition select_compiler :: "conf_env \<Rightarrow> compiler_traits option" where
  "select_compiler env =
     (case map_of compiler_mapping (COMPILER_CC env) of
        Some compiler \<Rightarrow> Some compiler
      | None \<Rightarrow> map_of compiler_mapping (COMPILER_CXX env))"

text \<open>The flags of a compiler for the levels of a profile, each list reduced to the accepted flags.\<close>

record flags =
  compilerFlags :: "string list"
  optimizations :: "string list"
  debug :: "string list"
  debug_defs :: "string list"
  warnings :: "string list"

definition compute_flags :: "(string \<Rightarrow> bool) \<Rightarrow> bool \<Rightarrow> compiler_traits \<Rightarrow> int \<times> int \<times> int \<Rightarrow> conf_error + flags" where
  "compute_flags check_cxx no_werror compiler levels =
     (case levels of (opt_level, warn_level, dbg_level) \<Rightarrow>
        rbind (get_supported_cxxflags check_cxx (Some (get_compiler_flags compiler))) (\<lambda>cf.
        rbind (get_supported_cxxflags check_cxx (get_optimization_flags compiler opt_level)) (\<lambda>opt.
        rbind (case get_debug_flags compiler dbg_level of None \<Rightarrow> Inl (PyError TypeError) | Some d \<Rightarrow> Inr d) (\<lambda>(dbg, defs).
        rbind (get_supported_cxxflags check_cxx (Some dbg)) (\<lambda>dbg.
        rbind (get_supported_cxxflags check_cxx (Some (get_warnings_flags compiler warn_level))) (\<lambda>warn.
          Inr \<lparr>compilerFlags = cf, optimizations = opt, debug = dbg, debug_defs = defs,
               warnings = (if no_werror then remove1 ''-Werror'' warn else warn)\<rparr>))))))"

definition configure :: "(string \<Rightarrow> bool) \<Rightarrow> cflags_options \<Rightarrow> conf_env \<Rightarrow> conf_error + conf_env" where
  "configure check_cxx opts env =
     (if COMPILER_CC env = [] \<and> COMPILER_CXX env = [] then Inl NoCompiler
      else case select_compiler env of
        None \<Rightarrow> Inr env
      | Some compiler \<Rightarrow>
          (case map_of profiles (build_profile opts) of
             None \<Rightarrow> Inl (PyError KeyError)
           | Some levels \<Rightarrow>
               rbind (compute_flags check_cxx (disable_werror opts) compiler levels) (\<lambda>f.
                 let env = (if COMPILER_CC env \<noteq> [] \<and> CCFLAGS env = []
                            then env\<lparr>CCFLAGS := CCFLAGS env @ optimizations f @ debug f @ warnings f,
                                     CCDEFINES := CCDEFINES env @ debug_defs f\<rparr> else env)
                 in Inr (if COMPILER_CXX env \<noteq> [] \<and> CXXFLAGS env = []
                         then env\<lparr>CXXFLAGS := CXXFLAGS env @ compilerFlags f @ optimizations f @ debug f @ warnings f,
                                  CXXDEFINES := CXXDEFINES env @ debug_defs f\<rparr> else env))))"

section \<open>The contract of the traits\<close>

lemma supported_filter: "get_supported_cxxflags check_cxx (Some flags) = Inr (filter check_cxx flags)"
proof -
  have "foldl (\<lambda>supported flag. if check_cxx flag then supported @ [flag] else supported) acc fs = acc @ filter check_cxx fs" for acc fs
    by (induction fs arbitrary: acc) simp_all
  then show ?thesis by (simp add: get_supported_cxxflags_def)
qed

lemma warnings_upto_concat: "warnings_upto table level = concat (take (nat level) table)"
proof -
  have "warnings_loop table [i..<i + n] acc = acc @ concat (take n (drop i table))" for i n acc
  proof (induction n arbitrary: i acc)
    case (Suc n)
    have "[i..<i + Suc n] = i # [Suc i..<Suc i + n]" by (simp add: upt_conv_Cons)
    then show ?case using Suc [of "Suc i"] by (cases "i < length table") (simp_all add: Cons_nth_drop_Suc [symmetric])
  qed simp
  from this [of 0 "nat level" "[]"] show ?thesis by (simp add: warnings_upto_def)
qed

text \<open>
  What \<^verbatim>\<open>configure\<close> relies on: the methods know every level of the profiles, the warnings are
  cumulative, and none of them is \<^verbatim>\<open>-Werror\<close>.
\<close>

locale traits_contract =
  fixes traits :: compiler_traits
  assumes optimization_known: "0 \<le> level \<Longrightarrow> level \<le> 3 \<Longrightarrow> get_optimization_flags traits level \<noteq> None"
    and debug_known: "0 \<le> level \<Longrightarrow> get_debug_flags traits level \<noteq> None"
    and warnings_cumulative: "level \<le> level' \<Longrightarrow> \<exists>more. get_warnings_flags traits level' = get_warnings_flags traits level @ more"
    and no_werror: "''-Werror'' \<notin> set (get_warnings_flags traits level)"
begin

lemma compute_flags_eq:
  assumes "0 \<le> opt_level" "opt_level \<le> 3" "0 \<le> dbg_level"
  shows "compute_flags check_cxx nw traits (opt_level, warn_level, dbg_level) =
     Inr \<lparr>compilerFlags = filter check_cxx (get_compiler_flags traits),
          optimizations = filter check_cxx (the (get_optimization_flags traits opt_level)),
          debug = filter check_cxx (fst (the (get_debug_flags traits dbg_level))),
          debug_defs = snd (the (get_debug_flags traits dbg_level)),
          warnings = filter check_cxx (get_warnings_flags traits warn_level)\<rparr>"
  using optimization_known [OF assms(1,2)] debug_known [OF assms(3)] no_werror [of warn_level]
  by (auto simp: compute_flags_def supported_filter remove1_idem split: prod.splits)

end

lemma take_prefix: "m \<le> n \<Longrightarrow> \<exists>more. concat (take n xs) = concat (take m xs) @ more"
  by (metis concat_append le_add_diff_inverse take_add)

interpretation gcc_traits: traits_contract gcc
proof
  show "''-Werror'' \<notin> set (get_warnings_flags gcc level)" for level
    by (auto simp: gcc_def warnings_upto_concat gcc_warnings_def dest!: in_set_takeD)
qed (auto simp: gcc_def gcc_optimization_flags_def gcc_debug_flags_def warnings_upto_concat intro: take_prefix)

interpretation icc_traits: traits_contract icc
proof
  show "''-Werror'' \<notin> set (get_warnings_flags icc level)" for level
    by (auto simp: icc_def warnings_upto_concat icc_warnings_def dest!: in_set_takeD)
qed (auto simp: icc_def gcc_optimization_flags_def gcc_debug_flags_def warnings_upto_concat intro: take_prefix)

interpretation msvc_traits: traits_contract msvc
proof
  show "''-Werror'' \<notin> set (get_warnings_flags msvc level)" for level
    by (auto simp: msvc_def warnings_upto_concat msvc_warnings_def dest!: in_set_takeD)
qed (auto simp: msvc_def warnings_upto_concat intro: take_prefix)

section \<open>The flags of a profile\<close>

lemma select_compiler_cases: "select_compiler env = Some t \<Longrightarrow> t = gcc \<or> t = icc \<or> t = msvc"
  by (auto simp: select_compiler_def compiler_mapping_def split: option.splits if_splits)

lemma profile_levels:
  "map_of profiles name = Some (o_level, w_level, d_level) \<Longrightarrow> 0 \<le> o_level \<and> o_level \<le> 3 \<and> 0 \<le> d_level"
  by (auto simp: profiles_def split: if_splits)

lemma compute_flags_known:
  assumes "select_compiler env = Some t" and "map_of profiles name = Some (o_level, w_level, d_level)"
  shows "compute_flags check_cxx nw t (o_level, w_level, d_level) =
     Inr \<lparr>compilerFlags = filter check_cxx (get_compiler_flags t),
          optimizations = filter check_cxx (the (get_optimization_flags t o_level)),
          debug = filter check_cxx (fst (the (get_debug_flags t d_level))),
          debug_defs = snd (the (get_debug_flags t d_level)),
          warnings = filter check_cxx (get_warnings_flags t w_level)\<rparr>"
  using select_compiler_cases [OF assms(1)] profile_levels [OF assms(2)]
    gcc_traits.compute_flags_eq icc_traits.compute_flags_eq msvc_traits.compute_flags_eq
  by auto

text \<open>
  The flags that \<^verbatim>\<open>configure\<close> sets. For every profile and every compiler it knows it
  raises no exception; it gives the C and the C++ compiler, where one is found and no flags are
  set in the environment, the accepted flags of the profile in the order optimization, debugging,
  warnings (for C++ after the language standard), and changes nothing else; for an unknown
  compiler it changes nothing. The option \<^verbatim>\<open>--disable-werror\<close> has no influence: no traits
  object ever gives the flag \<^verbatim>\<open>-Werror\<close> that it removes.
\<close>

theorem configure_correct:
  "configure check_cxx opts env =
     (if COMPILER_CC env = [] \<and> COMPILER_CXX env = [] then Inl NoCompiler
      else case select_compiler env of
        None \<Rightarrow> Inr env
      | Some t \<Rightarrow>
         (case map_of profiles (build_profile opts) of
            None \<Rightarrow> Inl (PyError KeyError)
          | Some (o_level, w_level, d_level) \<Rightarrow>
              let (dbg, defs) = the (get_debug_flags t d_level);
                  common = the (get_optimization_flags t o_level) @ dbg @ get_warnings_flags t w_level;
                  c = (COMPILER_CC env \<noteq> [] \<and> CCFLAGS env = []);
                  cxx = (COMPILER_CXX env \<noteq> [] \<and> CXXFLAGS env = [])
              in Inr (env\<lparr>CCFLAGS := (if c then filter check_cxx common else CCFLAGS env),
                          CXXFLAGS := (if cxx then filter check_cxx (get_compiler_flags t @ common) else CXXFLAGS env),
                          CCDEFINES := CCDEFINES env @ (if c then defs else []),
                          CXXDEFINES := CXXDEFINES env @ (if cxx then defs else [])\<rparr>)))"
proof (cases "select_compiler env")
  case None
  then show ?thesis by (simp add: configure_def)
next
  case (Some t)
  show ?thesis
  proof (cases "map_of profiles (build_profile opts)")
    case None
    with Some show ?thesis by (simp add: configure_def)
  next
    case levels: (Some levels)
    obtain o_level w_level d_level where l: "levels = (o_level, w_level, d_level)" by (cases levels)
    obtain dbg defs where d: "the (get_debug_flags t d_level) = (dbg, defs)" by fastforce
    show ?thesis
      using Some levels l d compute_flags_known [OF Some levels [unfolded l]]
      by (cases env) (simp add: configure_def Let_def)
  qed
qed

end
