(* ===== verification/VersionInfo.thy ===== *)
theory VersionInfo
  imports Prelude "HOL-Library.Monad_Syntax"
begin

text \<open>
  \<^verbatim>\<open>waf-tools/versioning.py\<close>: the task that asks git for the closest tag and turns it into
  version fields, and the configuration step that looks for a repository or a cache file. The
  regular expressions are written out with the choices of the matching engine: repetitions are
  greedy, alternatives are tried from left to right. What a git command prints is a parameter,
  \<open>None\<close> when it fails; a \<^verbatim>\<open>ConfigSet\<close> is a dictionary.
\<close>

section \<open>Version tags\<close>

definition digits1 :: "string \<Rightarrow> (string \<times> string) option" where
  "digits1 s = (if takeWhile is_digit s \<noteq> [] then Some (takeWhile is_digit s, dropWhile is_digit s) else None)"

definition newline :: char where
  "newline = CHR 0x0A"

text \<open>\<^verbatim>\<open>(?:.(\d+))?\<close>: the dot is not escaped and stands for any character of the line.\<close>

definition patch_group :: "string \<Rightarrow> string option \<times> string" where
  "patch_group s =
     (case s of
        [] \<Rightarrow> (None, s)
      | c # t \<Rightarrow>
          if c = newline then (None, s)
          else (case digits1 t of None \<Rightarrow> (None, s) | Some (p, u) \<Rightarrow> (Some p, u)))"

text \<open>\<^verbatim>\<open>(?:-(RC.+))?\<close>\<close>

definition rc_group :: "string \<Rightarrow> string option" where
  "rc_group s =
     (case after_prefix ''-RC'' s of
        None \<Rightarrow> None
      | Some t \<Rightarrow> (let line = takeWhile (\<lambda>c. c \<noteq> newline) t in if line \<noteq> [] then Some (''RC'' @ line) else None))"

record version_match =
  vm_major :: string
  vm_minor :: string
  vm_patch :: "string option"
  vm_rc :: "string option"

text \<open>\<^verbatim>\<open>re.match("ns-(\d+)\.(\d+)(?:.(\d+))?(?:-(RC.+))?.*", safe_tag)\<close>\<close>

definition match_version :: "string \<Rightarrow> version_match option" where
  "match_version tag =
     do { s \<leftarrow> after_prefix ''ns-'' tag;
          (major, s) \<leftarrow> digits1 s;
          s \<leftarrow> after_prefix ''.'' s;
          (minor, s) \<leftarrow> digits1 s;
          let (patch, s) = patch_group s;
          Some \<lparr>vm_major = major, vm_minor = minor, vm_patch = patch, vm_rc = rc_group s\<rparr> }"

type_synonym fields = "(string, string) dict"

definition put_field :: "string \<Rightarrow> string \<Rightarrow> fields \<Rightarrow> fields" where
  "put_field k v f = AList.update k v f"

definition quoted :: "string \<Rightarrow> string" where
  "quoted s = [CHR 0x22] @ s @ [CHR 0x22]"

text \<open>\<^verbatim>\<open>_parse_version_tag\<close>: whether the tag has the form, and the fields.\<close>

definition parse_version_tag :: "string \<Rightarrow> fields \<Rightarrow> bool \<times> fields" where
  "parse_version_tag tag f =
     (let safe_tag = strip tag in
      case match_version safe_tag of
        None \<Rightarrow> (False, f)
      | Some m \<Rightarrow>
          (True,
           put_field ''VERSION_RELEASE_CANDIDATE'' (quoted (case vm_rc m of None \<Rightarrow> [] | Some rc \<Rightarrow> rc))
          (put_field ''VERSION_PATCH'' (case vm_patch m of None \<Rightarrow> ''0'' | Some p \<Rightarrow> p)
          (put_field ''VERSION_MINOR'' (vm_minor m)
          (put_field ''VERSION_MAJOR'' (vm_major m)
          (put_field ''VERSION_TAG'' (quoted safe_tag) f))))))"

section \<open>Descriptions by git\<close>

definition is_hex :: "char \<Rightarrow> bool" where
  "is_hex c =
     (let n = of_char c :: nat in 48 \<le> n \<and> n \<le> 57 \<or> 65 \<le> n \<and> n \<le> 70 \<or> 97 \<le> n \<and> n \<le> 102)"

record description =
  d_tag :: string
  d_distance :: string
  d_hash :: string
  d_dirty :: bool

text \<open>\<^verbatim>\<open>-(\d+)-(g[a-fA-F0-9]+)(?:-(dirty))?\<close> at the start of a string\<close>

definition match_suffix :: "string \<Rightarrow> (string \<times> string \<times> bool) option" where
  "match_suffix s =
     do { s \<leftarrow> after_prefix ''-'' s;
          (n, s) \<leftarrow> digits1 s;
          s \<leftarrow> after_prefix ''-g'' s;
          let hash = takeWhile is_hex s;
          if hash \<noteq> [] then Some (n, ''g'' @ hash, after_prefix ''-dirty'' (dropWhile is_hex s) \<noteq> None) else None }"

text \<open>
  \<^verbatim>\<open>(.+)\<close> is greedy: the longest non-empty start within the first line that is followed by the
  suffix. The argument \<open>n\<close> is the length that is tried.
\<close>

fun match_from :: "string \<Rightarrow> nat \<Rightarrow> description option" where
  "match_from s 0 = None"
| "match_from s (Suc n) =
     (case match_suffix (drop (Suc n) s) of
        Some (d, h, dirty) \<Rightarrow> Some \<lparr>d_tag = take (Suc n) s, d_distance = d, d_hash = h, d_dirty = dirty\<rparr>
      | None \<Rightarrow> match_from s n)"

definition match_describe :: "string \<Rightarrow> description option" where
  "match_describe s = match_from s (length (takeWhile (\<lambda>c. c \<noteq> newline) s))"

text \<open>\<^verbatim>\<open>_find_closest_tag\<close> and \<^verbatim>\<open>_find_closest_ns3_tag\<close>; the left case is an exception.\<close>

definition find_closest_tag :: "string option \<Rightarrow> fields \<Rightarrow> unit + fields" where
  "find_closest_tag out f =
     (case out of
        None \<Rightarrow> Inl ()
      | Some s \<Rightarrow>
          (case match_describe s of
             None \<Rightarrow> Inl ()
           | Some d \<Rightarrow>
               Inr (snd (parse_version_tag (d_tag d)
                 (put_field ''VERSION_DIRTY_FLAG'' (if d_dirty d then ''1'' else ''0'')
                 (put_field ''VERSION_COMMIT_HASH'' (quoted (d_hash d))
                 (put_field ''VERSION_TAG_DISTANCE'' (d_distance d)
                 (put_field ''CLOSEST_TAG'' (quoted (d_tag d)) f))))))))"

definition find_closest_ns3_tag :: "string option \<Rightarrow> fields \<Rightarrow> unit + fields" where
  "find_closest_ns3_tag out f =
     (case out of
        None \<Rightarrow> Inl ()
      | Some s \<Rightarrow> (case parse_version_tag (strip s) f of (ok, f) \<Rightarrow> if ok then Inr f else Inl ()))"

section \<open>The task and the configuration\<close>

record version_state =
  cache_file :: "fields option"
  env_fields :: fields

text \<open>
  \<^verbatim>\<open>run\<close>: \<open>describe\<close> and \<open>describe_ns3\<close> are what the two commands print. The fields start
  empty; the cache file and the environment are written only at the end.
\<close>

definition run_version_info :: "string option \<Rightarrow> string option \<Rightarrow> version_state \<Rightarrow> int \<times> version_state" where
  "run_version_info describe describe_ns3 st =
     (case rbind (find_closest_tag describe []) (\<lambda>f.
             if \<not> has_key f ''VERSION_TAG'' then find_closest_ns3_tag describe_ns3 f else Inr f) of
        Inl _ \<Rightarrow> (1, st)
      | Inr f \<Rightarrow>
          (0, st\<lparr>cache_file := Some f, env_fields := fold (\<lambda>(k, v). AList.update k v) f (env_fields st)\<rparr>))"

text \<open>A command that succeeds with some text other than blanks.\<close>

definition prints :: "string option \<Rightarrow> bool" where
  "prints out = (case out of None \<Rightarrow> False | Some s \<Rightarrow> strip s \<noteq> [])"

record version_env =
  HAVE_GIT_REPO :: "bool option"
  HAVE_NS3_REPO :: "bool option"
  loaded_fields :: fields

datatype version_error = NoVersionInformation

text \<open>\<open>caches\<close> are the contents of the cache files found, in the order of the search.\<close>

definition configure_version :: "bool \<Rightarrow> string option \<Rightarrow> string option \<Rightarrow> fields list \<Rightarrow> version_env \<Rightarrow> version_error + version_env" where
  "configure_version enable_build_version toplevel ns3_tag caches env =
     (if \<not> enable_build_version then Inr env
      else
        let has_git_repo = prints toplevel; has_ns3_tags = (has_git_repo \<and> prints ns3_tag);
            env = env\<lparr>HAVE_GIT_REPO := Some has_git_repo, HAVE_NS3_REPO := Some has_ns3_tags\<rparr>
        in if has_ns3_tags then Inr env
           else (case caches of
                   [] \<Rightarrow> Inl NoVersionInformation
                 | f # _ \<Rightarrow> Inr (env\<lparr>loaded_fields := fold (\<lambda>(k, v). AList.update k v) f (loaded_fields env)\<rparr>)))"

datatype version_task = Subst | GitVersionInfo

text \<open>\<^verbatim>\<open>generate_version_defines\<close>: the tasks in the order in which they run.\<close>

definition generate_version_defines :: "version_env \<Rightarrow> version_task list" where
  "generate_version_defines env = (if HAVE_NS3_REPO env = Some True then [GitVersionInfo, Subst] else [Subst])"

section \<open>Reading what git prints\<close>

lemma digits1_append:
  assumes "list_all is_digit d" "d \<noteq> []" "s = [] \<or> \<not> is_digit (hd s)"
  shows "digits1 (d @ s) = Some (d, s)"
proof -
  have "takeWhile is_digit s = []" "dropWhile is_digit s = s" using assms(3) by (cases s; simp)+
  moreover have "\<forall>c\<in>set d. is_digit c" using assms(1) by (simp add: list_all_iff)
  ultimately have "takeWhile is_digit (d @ s) = d" "dropWhile is_digit (d @ s) = s"
    by (simp_all add: takeWhile_append2 dropWhile_append2)
  with assms(2) show ?thesis unfolding digits1_def by simp
qed

lemma after_prefix_same [simp]: "after_prefix p (p @ s) = Some s"
  by (simp add: after_prefix_def startswith_iff)

text \<open>A hyphen followed by a digit; the suffix of a description starts with one.\<close>

fun dash_digit :: "string \<Rightarrow> bool" where
  "dash_digit (a # b # s) = (a = CHR ''-'' \<and> is_digit b \<or> dash_digit (b # s))"
| "dash_digit _ = False"

lemma dash_digit_append: "CHR ''-'' \<notin> set xs \<Longrightarrow> dash_digit (xs @ ys) = dash_digit ys"
proof (induction xs)
  case (Cons x xs)
  then show ?case by (cases "xs @ ys") auto
qed simp

lemma match_suffix_dash_digit: "match_suffix s = Some r \<Longrightarrow> \<exists>c t. s = CHR ''-'' # c # t \<and> is_digit c"
  by (auto simp: match_suffix_def after_prefix_def digits1_def startswith_iff split: Option.bind_splits if_splits)
     (metis list.exhaust takeWhile.simps)

lemma no_dash_digit_drop: "\<not> dash_digit s \<Longrightarrow> match_suffix (drop i s) = None"
proof (induction s arbitrary: i)
  case Nil
  show ?case using match_suffix_dash_digit [of "[]"] by (cases "match_suffix []") auto
next
  case (Cons a s)
  show ?case
  proof (cases i)
    case 0
    have "match_suffix (a # s) \<noteq> Some r" for r
    proof
      assume "match_suffix (a # s) = Some r"
      then obtain c t where "a = CHR ''-''" "s = c # t" "is_digit c" using match_suffix_dash_digit by blast
      with Cons.prems show False by simp
    qed
    with 0 show ?thesis by (cases "match_suffix (a # s)") auto
  next
    case (Suc j)
    have "\<not> dash_digit s" using Cons.prems by (cases s) auto
    with Cons.IH [of j] Suc show ?thesis by simp
  qed
qed

lemma digits_no_dash: "list_all is_digit n \<Longrightarrow> CHR ''-'' \<notin> set n" "list_all is_hex n \<Longrightarrow> CHR ''-'' \<notin> set n"
  by (auto simp: list_all_iff is_digit_def is_hex_def Let_def)

lemma match_from_skip:
  assumes "\<And>j. k < j \<Longrightarrow> j \<le> n \<Longrightarrow> match_suffix (drop j s) = None" "k \<le> n"
  shows "match_from s n = match_from s k"
  using assms
proof (induction n)
  case (Suc n)
  then show ?case by (cases "k = Suc n") auto
qed simp

definition describe_text :: "string \<Rightarrow> string \<Rightarrow> string \<Rightarrow> bool \<Rightarrow> string" where
  "describe_text tag n hash dirty =
     tag @ ''-'' @ n @ ''-g'' @ hash @ (if dirty then ''-dirty'' else []) @ [newline]"

lemma match_describe_text:
  assumes "tag \<noteq> []" "newline \<notin> set tag" "list_all is_digit n" "n \<noteq> []" "list_all is_hex hash" "hash \<noteq> []"
  shows "match_describe (describe_text tag n hash dirty) =
     Some \<lparr>d_tag = tag, d_distance = n, d_hash = ''g'' @ hash, d_dirty = dirty\<rparr>"
proof -
  let ?tail = "(if dirty then ''-dirty'' else []) @ [newline]"
  let ?v = "n @ ''-g'' @ hash @ ?tail"
  let ?s = "describe_text tag n hash dirty"
  have s: "?s = tag @ CHR ''-'' # ?v" by (simp add: describe_text_def)
  have hash: "takeWhile is_hex (hash @ ?tail) = hash" "dropWhile is_hex (hash @ ?tail) = ?tail"
    using assms(5) by (auto simp: takeWhile_append dropWhile_append list_all_iff newline_def is_hex_def Let_def)
  have suffix: "match_suffix (CHR ''-'' # ?v) = Some (n, ''g'' @ hash, dirty)"
    using digits1_append [OF assms(3,4), of "''-g'' @ hash @ ?tail"] hash assms(6)
    by (simp add: match_suffix_def after_prefix_def newline_def is_digit_def)
  have "\<not> dash_digit ?v"
    using dash_digit_append [OF digits_no_dash(1) [OF assms(3)], of "''-g'' @ hash @ ?tail"]
      dash_digit_append [of "''g'' @ hash" ?tail] digits_no_dash(2) [OF assms(5)]
    by (simp add: is_digit_def newline_def)
  then have none: "match_suffix (drop j ?s) = None" if j: "length tag < j" for j
  proof -
    from j obtain k where "j = length tag + Suc k" by (auto dest: less_imp_Suc_add)
    then have "drop j ?s = drop k ?v" unfolding s by simp
    with no_dash_digit_drop [OF \<open>\<not> dash_digit ?v\<close>, of k] show ?thesis by (simp only:)
  qed
  have "length tag \<le> length (takeWhile (\<lambda>c. c \<noteq> newline) ?s)"
    using assms(2) unfolding s by (subst takeWhile_append2) auto
  then have "match_describe ?s = match_from ?s (length tag)"
    unfolding match_describe_def by (intro match_from_skip) (auto intro: none)
  also have "\<dots> = Some \<lparr>d_tag = tag, d_distance = n, d_hash = ''g'' @ hash, d_dirty = dirty\<rparr>"
    using assms(1) suffix by (cases "length tag") (auto simp: s)
  finally show ?thesis .
qed

definition version_text :: "string \<Rightarrow> string \<Rightarrow> string option \<Rightarrow> string option \<Rightarrow> string" where
  "version_text major minor patch rc =
     ''ns-'' @ major @ ''.'' @ minor @ (case patch of None \<Rightarrow> [] | Some p \<Rightarrow> ''.'' @ p) @
     (case rc of None \<Rightarrow> [] | Some r \<Rightarrow> ''-RC'' @ r)"

definition number_ok :: "string \<Rightarrow> bool" where
  "number_ok s = (s \<noteq> [] \<and> list_all is_digit s)"

lemma match_version_text:
  assumes "number_ok major" "number_ok minor" "pred_option number_ok patch"
    and "pred_option (\<lambda>r. r \<noteq> [] \<and> newline \<notin> set r) rc"
  shows "match_version (version_text major minor patch rc) =
     Some \<lparr>vm_major = major, vm_minor = minor, vm_patch = patch, vm_rc = map_option (\<lambda>r. ''RC'' @ r) rc\<rparr>"
proof -
  let ?rc = "case rc of None \<Rightarrow> [] | Some r \<Rightarrow> ''-RC'' @ r"
  have rc: "rc_group ?rc = map_option (\<lambda>r. ''RC'' @ r) rc"
  proof (cases rc)
    case (Some r)
    then have r: "takeWhile (\<lambda>c. c \<noteq> newline) r = r" "r \<noteq> []"
      using assms(4) by (auto intro: takeWhile_eq_all_conv [THEN iffD2])
    show ?thesis using r(2) by (simp add: Some rc_group_def after_prefix_def Let_def r(1))
  qed (simp add: rc_group_def after_prefix_def)
  have no: "?rc = [] \<or> \<not> is_digit (hd ?rc)" by (cases rc) (simp_all add: is_digit_def)
  have patch: "patch_group ((case patch of None \<Rightarrow> [] | Some p \<Rightarrow> ''.'' @ p) @ ?rc) = (patch, ?rc)"
  proof (cases patch)
    case None
    show ?thesis
      by (cases rc) (simp_all add: None patch_group_def digits1_def is_digit_def newline_def)
  next
    case (Some p)
    with assms(3) digits1_append [OF _ _ no, of p] show ?thesis
      by (simp add: patch_group_def number_ok_def newline_def)
  qed
  let ?rest = "(case patch of None \<Rightarrow> [] | Some p \<Rightarrow> ''.'' @ p) @ ?rc"
  have rest: "?rest = [] \<or> \<not> is_digit (hd ?rest)"
    using no by (cases patch) (simp_all add: is_digit_def)
  have "digits1 (minor @ ?rest) = Some (minor, ?rest)"
    using digits1_append [OF _ _ rest] assms(2) by (simp add: number_ok_def)
  moreover have "digits1 (major @ ''.'' @ minor @ ?rest) = Some (major, ''.'' @ minor @ ?rest)"
    using digits1_append [of major "''.'' @ minor @ ?rest"] assms(1) by (simp add: number_ok_def is_digit_def)
  ultimately show ?thesis
    using rc patch by (simp add: match_version_def version_text_def after_prefix_def)
qed

section \<open>The fields of a version\<close>

lemma strip_no_space: "list_all (\<lambda>c. \<not> is_space c) s \<Longrightarrow> strip s = s"
proof -
  assume s: "list_all (\<lambda>c. \<not> is_space c) s"
  have "dropWhile is_space t = t" if "list_all (\<lambda>c. \<not> is_space c) t" for t
    using that by (cases t) auto
  from this [OF s] this [of "rev s"] s show "strip s = s" by (simp add: strip_def)
qed

lemma digit_not_space: "is_digit c \<Longrightarrow> \<not> is_space c"
  by (auto simp: is_digit_def is_space_def)

lemma version_text_no_space:
  assumes "number_ok major" "number_ok minor" "pred_option number_ok patch" "pred_option (list_all (\<lambda>c. \<not> is_space c)) rc"
  shows "list_all (\<lambda>c. \<not> is_space c) (version_text major minor patch rc)"
proof -
  have n: "list_all (\<lambda>c. \<not> is_space c) s" if "number_ok s" for s
    using that digit_not_space by (auto simp: number_ok_def list_all_iff)
  show ?thesis
    using n assms by (cases patch; cases rc) (simp_all add: version_text_def is_space_def)
qed

text \<open>
  C18: The round trip of a version. When git describes the commit by a release tag
  \<^verbatim>\<open>ns-a.b\<close>, \<^verbatim>\<open>ns-a.b.c\<close>, with or without a release candidate \<^verbatim>\<open>-RCx\<close>, a distance, a hash
  and possibly the mark for local changes, the task succeeds whatever the second command prints,
  and the cache file holds exactly these parts, with patch 0 and an empty candidate by default.
\<close>

theorem version_roundtrip:
  assumes "number_ok major" "number_ok minor" "pred_option number_ok patch"
    and "pred_option (\<lambda>r. r \<noteq> [] \<and> list_all (\<lambda>c. \<not> is_space c) r) rc"
    and "number_ok n" "list_all is_hex hash" "hash \<noteq> []"
  shows "let tag = version_text major minor patch rc;
             (code, st') = run_version_info (Some (describe_text tag n hash dirty)) describe_ns3 st
         in code = 0 \<and> (\<exists>f. cache_file st' = Some f \<and> map_of f ''VERSION_TAG'' = Some (quoted tag) \<and>
           map_of f ''VERSION_MAJOR'' = Some major \<and> map_of f ''VERSION_MINOR'' = Some minor \<and>
           map_of f ''VERSION_PATCH'' = Some (case patch of None \<Rightarrow> ''0'' | Some p \<Rightarrow> p) \<and>
           map_of f ''VERSION_RELEASE_CANDIDATE'' = Some (quoted (case rc of None \<Rightarrow> [] | Some r \<Rightarrow> ''RC'' @ r)) \<and>
           map_of f ''VERSION_TAG_DISTANCE'' = Some n \<and> map_of f ''VERSION_COMMIT_HASH'' = Some (quoted (''g'' @ hash)) \<and>
           map_of f ''VERSION_DIRTY_FLAG'' = Some (if dirty then ''1'' else ''0''))"
proof -
  let ?tag = "version_text major minor patch rc"
  have rc: "pred_option (list_all (\<lambda>c. \<not> is_space c)) rc" "pred_option (\<lambda>r. r \<noteq> [] \<and> newline \<notin> set r) rc"
    using assms(4) by (cases rc; auto simp: list_all_iff is_space_def newline_def)+
  have ns: "list_all (\<lambda>c. \<not> is_space c) ?tag" using version_text_no_space [OF assms(1-3) rc(1)] .
  then have nl: "newline \<notin> set ?tag" by (auto simp: list_all_iff is_space_def newline_def)
  have "?tag \<noteq> []" by (simp add: version_text_def)
  from match_describe_text [OF this nl _ _ assms(6,7), of n dirty] assms(5)
  have d: "match_describe (describe_text ?tag n hash dirty) =
      Some \<lparr>d_tag = ?tag, d_distance = n, d_hash = ''g'' @ hash, d_dirty = dirty\<rparr>"
    by (simp add: number_ok_def)
  note mv = match_version_text [OF assms(1-3) rc(2)]
  show ?thesis
    unfolding Let_def run_version_info_def find_closest_tag_def option.case d
    by (simp add: parse_version_tag_def strip_no_space [OF ns] mv Let_def put_field_def has_key_def split: option.split)
qed

theorem version_roundtrip_witness:
  "fst (run_version_info (Some (describe_text (version_text ''3'' ''30'' None (Some ''1'')) ''5'' ''ab1'' True)) None
      \<lparr>cache_file = None, env_fields = []\<rparr>) = 0"
  using version_roundtrip [of "''3''" "''30''" None "Some ''1''" "''5''" "''ab1''" True None "\<lparr>cache_file = None, env_fields = []\<rparr>"]
  by (simp add: Let_def number_ok_def is_digit_def is_hex_def is_space_def case_prod_beta)

text \<open>The unescaped dot reads any character before a number as the start of a patch level.\<close>

lemma patch_after_any_character:
  "match_version ''ns-3.30-2'' = Some \<lparr>vm_major = ''3'', vm_minor = ''30'', vm_patch = Some ''2'', vm_rc = None\<rparr>"
  by code_simp

lemma parse_version_tag_keys:
  "parse_version_tag tag f = (ok, f') \<Longrightarrow>
   (ok \<longleftrightarrow> match_version (strip tag) \<noteq> None) \<and>
   dom (map_of f') = dom (map_of f) \<union>
     (if ok then {''VERSION_TAG'', ''VERSION_MAJOR'', ''VERSION_MINOR'', ''VERSION_PATCH'', ''VERSION_RELEASE_CANDIDATE''} else {})"
  by (auto simp: parse_version_tag_def put_field_def Let_def split: option.splits if_splits)

definition git_keys :: "string set" where
  "git_keys = {''CLOSEST_TAG'', ''VERSION_TAG_DISTANCE'', ''VERSION_COMMIT_HASH'', ''VERSION_DIRTY_FLAG''}"

definition version_keys :: "string set" where
  "version_keys = {''VERSION_TAG'', ''VERSION_MAJOR'', ''VERSION_MINOR'', ''VERSION_PATCH'', ''VERSION_RELEASE_CANDIDATE''}"

text \<open>A tag that is the tag of a version.\<close>

definition is_version :: "string \<Rightarrow> bool" where
  "is_version tag = (match_version (strip tag) \<noteq> None)"


end
