(* ===== verification/Timeline.thy ===== *)
theory Timeline
  imports Prelude Complex_Main
begin

text \<open>
  The data of the timeline viewer \<^verbatim>\<open>utils/grid.py\<close>: ranges and events, the named
  collections that hold them and their searches. Times are rational numbers. An object of a
  collection is referred to by its position, as the code keeps references to objects that it
  mutates later. \<^verbatim>\<open>list.sort(cmp)\<close> is the stable sort by a comparison function.

  The locale \<open>bisection\<close> holds the correctness proof of the binary search and is interpreted
  on the two searches of the code; the locale \<open>named_collection\<close> holds the contract of the
  four find-or-create methods.
\<close>

section \<open>Ranges and events\<close>

record data_range =
  r_start :: rat
  r_end :: rat
  r_value :: string

record 'v event =
  ev_at :: rat
  ev_value :: 'v

definition ranges_cmp :: "data_range \<Rightarrow> data_range \<Rightarrow> int" where
  "ranges_cmp a b =
     (let diff = r_start a - r_start b in if diff < 0 then -1 else if diff > 0 then 1 else 0)"

definition events_cmp :: "'v event \<Rightarrow> 'v event \<Rightarrow> int" where
  "events_cmp a b = (let diff = ev_at a - ev_at b in if diff < 0 then -1 else if diff > 0 then 1 else 0)"

text \<open>\<^verbatim>\<open>xs.sort(cmp)\<close>: an item stays before the later items that do not compare less.\<close>

fun insert_cmp :: "('a \<Rightarrow> 'a \<Rightarrow> int) \<Rightarrow> 'a \<Rightarrow> 'a list \<Rightarrow> 'a list" where
  "insert_cmp cmp x [] = [x]"
| "insert_cmp cmp x (y # ys) = (if cmp x y \<le> 0 then x # y # ys else y # insert_cmp cmp x ys)"

definition sort_cmp :: "('a \<Rightarrow> 'a \<Rightarrow> int) \<Rightarrow> 'a list \<Rightarrow> 'a list" where
  "sort_cmp cmp xs = foldr (insert_cmp cmp) xs []"

record timeline_data_range =
  tdr_name :: string
  tdr_ranges :: "data_range list"

record 'v timeline_event =
  te_name :: string
  te_events :: "'v event list"

definition new_data_range :: "string \<Rightarrow> timeline_data_range" where
  "new_data_range name = \<lparr>tdr_name = name, tdr_ranges = []\<rparr>"

definition new_event :: "string \<Rightarrow> 'v timeline_event" where
  "new_event name = \<lparr>te_name = name, te_events = []\<rparr>"

definition add_range :: "data_range \<Rightarrow> timeline_data_range \<Rightarrow> timeline_data_range" where
  "add_range r t = t\<lparr>tdr_ranges := tdr_ranges t @ [r]\<rparr>"

definition add_event :: "'v event \<Rightarrow> 'v timeline_event \<Rightarrow> 'v timeline_event" where
  "add_event e t = t\<lparr>te_events := te_events t @ [e]\<rparr>"

definition sort_ranges :: "timeline_data_range \<Rightarrow> timeline_data_range" where
  "sort_ranges t = t\<lparr>tdr_ranges := sort_cmp ranges_cmp (tdr_ranges t)\<rparr>"

definition sort_events :: "'v timeline_event \<Rightarrow> 'v timeline_event" where
  "sort_events t = t\<lparr>te_events := sort_cmp events_cmp (te_events t)\<rparr>"

section \<open>The searches\<close>

text \<open>The loop of \<^verbatim>\<open>TimelineDataRange.__search\<close> over \<^verbatim>\<open>l\<close> and \<^verbatim>\<open>u\<close>.\<close>

function range_search_loop :: "data_range list \<Rightarrow> rat \<Rightarrow> int \<Rightarrow> int \<Rightarrow> int result" where
  "range_search_loop ranges key l u =
     (if l \<le> u
      then let i = (l + u) div 2 in
           rbind (py_index ranges i) (\<lambda>r.
             if r_start r \<le> key \<and> key \<le> r_end r then Inr i
             else if key < r_start r then range_search_loop ranges key l (i - 1)
             else range_search_loop ranges key (i + 1) u)
      else Inr (-1))"
  by pat_completeness auto
termination by (relation "measure (\<lambda>(_, _, l, u). nat (u - l + 1))") auto

function event_search_loop :: "'v event list \<Rightarrow> rat \<Rightarrow> int \<Rightarrow> int \<Rightarrow> int result" where
  "event_search_loop events key l u =
     (if l \<le> u
      then let i = (l + u) div 2 in
           rbind (py_index events i) (\<lambda>e.
             if key = ev_at e then Inr i
             else if key < ev_at e then event_search_loop events key l (i - 1)
             else event_search_loop events key (i + 1) u)
      else Inr l)"
  by pat_completeness auto
termination by (relation "measure (\<lambda>(_, _, l, u). nat (u - l + 1))") auto

declare range_search_loop.simps [simp del] event_search_loop.simps [simp del]

definition range_search :: "timeline_data_range \<Rightarrow> rat \<Rightarrow> int result" where
  "range_search t key = range_search_loop (tdr_ranges t) key 0 (int (length (tdr_ranges t)) - 1)"

definition event_search :: "'v timeline_event \<Rightarrow> rat \<Rightarrow> int result" where
  "event_search t key = event_search_loop (te_events t) key 0 (int (length (te_events t)) - 1)"

definition get_ranges_bounds :: "timeline_data_range \<Rightarrow> rat \<Rightarrow> rat \<Rightarrow> (int \<times> int) result" where
  "get_ranges_bounds t start stop =
     rbind (range_search t start) (\<lambda>s.
     rbind (range_search t stop) (\<lambda>e.
       Inr (if s = -1 \<and> e = -1 then (0, 0)
            else if s = -1 then (0, e + 1)
            else if e = -1 then (s, int (length (tdr_ranges t)))
            else (s, e + 1))))"

definition get_ranges_between :: "timeline_data_range \<Rightarrow> rat \<Rightarrow> rat \<Rightarrow> data_range list result" where
  "get_ranges_between t start stop =
     rbind (range_search t start) (\<lambda>s.
     rbind (range_search t stop) (\<lambda>e.
       Inr (if s = -1 \<and> e = -1 then []
            else if s = -1 then py_slice (tdr_ranges t) 0 (e + 1)
            else if e = -1 then py_slice (tdr_ranges t) s (int (length (tdr_ranges t)))
            else py_slice (tdr_ranges t) s (e + 1))))"

definition get_events_bounds :: "'v timeline_event \<Rightarrow> rat \<Rightarrow> rat \<Rightarrow> (int \<times> int) result" where
  "get_events_bounds t start stop =
     rbind (event_search t start) (\<lambda>s. rbind (event_search t stop) (\<lambda>e. Inr (s, e + 1)))"

definition get_events_between :: "'v timeline_event \<Rightarrow> rat \<Rightarrow> rat \<Rightarrow> 'v event list result" where
  "get_events_between t start stop =
     rbind (event_search t start) (\<lambda>s. rbind (event_search t stop) (\<lambda>e.
       Inr (py_slice (te_events t) s (e + 1))))"

text \<open>\<^verbatim>\<open>get_bounds\<close> of the two classes.\<close>

definition ranges_bounds :: "timeline_data_range \<Rightarrow> (rat \<times> rat) result" where
  "ranges_bounds t =
     (if length (tdr_ranges t) > 0
      then rbind (py_index (tdr_ranges t) 0) (\<lambda>lo.
           rbind (py_index (tdr_ranges t) (int (length (tdr_ranges t)) - 1)) (\<lambda>hi.
             Inr (r_start lo, r_end hi)))
      else Inr (0, 0))"

definition events_bounds :: "'v timeline_event \<Rightarrow> (rat \<times> rat) result" where
  "events_bounds t =
     (if length (te_events t) > 0
      then rbind (py_index (te_events t) 0) (\<lambda>lo.
           rbind (py_index (te_events t) (-1)) (\<lambda>hi. Inr (ev_at lo, ev_at hi)))
      else Inr (0, 0))"

section \<open>Timelines\<close>

record timeline =
  tl_name :: string
  tl_ranges :: "timeline_data_range list"
  tl_event_str :: "string timeline_event list"
  tl_event_int :: "int timeline_event list"

definition new_timeline :: "string \<Rightarrow> timeline" where
  "new_timeline name = \<lparr>tl_name = name, tl_ranges = [], tl_event_str = [], tl_event_int = []\<rparr>"

type_synonym timelines = "timeline list"

text \<open>The loop that looks for an object of a given name.\<close>

fun find_named :: "('a \<Rightarrow> string) \<Rightarrow> string \<Rightarrow> 'a list \<Rightarrow> nat option" where
  "find_named name_of name [] = None"
| "find_named name_of name (x # xs) =
     (if name_of x = name then Some 0 else map_option Suc (find_named name_of name xs))"

text \<open>The four methods that return the object of a name, appending a new one when there is none.\<close>

definition get_range :: "string \<Rightarrow> timeline \<Rightarrow> nat \<times> timeline" where
  "get_range name t =
     (case find_named tdr_name name (tl_ranges t) of
        Some i \<Rightarrow> (i, t)
      | None \<Rightarrow> (length (tl_ranges t), t\<lparr>tl_ranges := tl_ranges t @ [new_data_range name]\<rparr>))"

definition get_event_str :: "string \<Rightarrow> timeline \<Rightarrow> nat \<times> timeline" where
  "get_event_str name t =
     (case find_named te_name name (tl_event_str t) of
        Some i \<Rightarrow> (i, t)
      | None \<Rightarrow> (length (tl_event_str t), t\<lparr>tl_event_str := tl_event_str t @ [new_event name]\<rparr>))"

definition get_event_int :: "string \<Rightarrow> timeline \<Rightarrow> nat \<times> timeline" where
  "get_event_int name t =
     (case find_named te_name name (tl_event_int t) of
        Some i \<Rightarrow> (i, t)
      | None \<Rightarrow> (length (tl_event_int t), t\<lparr>tl_event_int := tl_event_int t @ [new_event name]\<rparr>))"

definition get_timeline :: "string \<Rightarrow> timelines \<Rightarrow> nat \<times> timelines" where
  "get_timeline name ts =
     (case find_named tl_name name ts of
        Some i \<Rightarrow> (i, ts)
      | None \<Rightarrow> (length ts, ts @ [new_timeline name]))"

definition sort_timeline :: "timeline \<Rightarrow> timeline" where
  "sort_timeline t =
     t\<lparr>tl_ranges := map sort_ranges (tl_ranges t),
       tl_event_int := map sort_events (tl_event_int t),
       tl_event_str := map sort_events (tl_event_str t)\<rparr>"

definition sort_timelines :: "timelines \<Rightarrow> timelines" where
  "sort_timelines ts = map sort_timeline ts"

text \<open>One round of a bounds loop: \<^verbatim>\<open>if x_lo < lo: lo = x_lo\<close>, \<^verbatim>\<open>if x_hi > hi: hi = x_hi\<close>.\<close>

definition widen :: "(rat \<times> rat) \<Rightarrow> (rat \<times> rat) \<Rightarrow> rat \<times> rat" where
  "widen b c = (if fst c < fst b then fst c else fst b, if snd c > snd b then snd c else snd b)"

definition widen_by :: "('a \<Rightarrow> (rat \<times> rat) result) \<Rightarrow> (rat \<times> rat) \<Rightarrow> 'a \<Rightarrow> (rat \<times> rat) result" where
  "widen_by f b x = rbind (f x) (\<lambda>c. Inr (widen b c))"

definition timeline_bounds :: "timeline \<Rightarrow> (rat \<times> rat) result" where
  "timeline_bounds t =
     rbind (for_each (widen_by ranges_bounds) (tl_ranges t) (0, 0)) (\<lambda>b.
     rbind (for_each (widen_by events_bounds) (tl_event_str t) b) (\<lambda>b.
       for_each (widen_by events_bounds) (tl_event_int t) b))"

definition timelines_bounds :: "timelines \<Rightarrow> (rat \<times> rat) result" where
  "timelines_bounds ts = for_each (widen_by timeline_bounds) ts (0, 0)"

definition get_all_range_values :: "timelines \<Rightarrow> string list" where
  "get_all_range_values ts =
     dict_keys (fold (\<lambda>t. fold (\<lambda>rs. fold (\<lambda>r. AList.update (r_value r) (1 :: int)) (tdr_ranges rs))
        (tl_ranges t)) ts [])"

section \<open>Colours\<close>

text \<open>
  \<^verbatim>\<open>default_colors\<close> is a class attribute: one list shared by all instances, from which
  \<^verbatim>\<open>lookup\<close> pops; it is a field of the state here.
\<close>

record color =
  red :: rat
  green :: rat
  blue :: rat

record colors =
  col_map :: "(string, color) dict"
  default_colors :: "color list"

definition rgb :: "rat \<Rightarrow> rat \<Rightarrow> rat \<Rightarrow> color" where
  "rgb r g b = \<lparr>red = r, green = g, blue = b\<rparr>"

definition initial_colors :: colors where
  "initial_colors = \<lparr>col_map = [],
     default_colors = [rgb 1 0 0, rgb 0 1 0, rgb 0 0 1, rgb 1 1 0, rgb 1 0 1, rgb 0 1 1]\<rparr>"

definition add_color :: "string \<Rightarrow> color \<Rightarrow> colors \<Rightarrow> colors" where
  "add_color name c cs = cs\<lparr>col_map := AList.update name c (col_map cs)\<rparr>"

text \<open>\<^verbatim>\<open>pop()\<close> of an empty list raises \<^verbatim>\<open>IndexError\<close>.\<close>

definition lookup_color :: "string \<Rightarrow> colors \<Rightarrow> (color option \<times> colors) result" where
  "lookup_color name cs =
     rbind (if has_key (col_map cs) name then Inr cs
            else if default_colors cs = [] then Inl IndexError
            else Inr (add_color name (last (default_colors cs))
                   (cs\<lparr>default_colors := butlast (default_colors cs)\<rparr>)))
       (\<lambda>cs. Inr (map_of (col_map cs) name, cs))"

section \<open>Correctness of the binary searches\<close>

text \<open>Where an item lies with respect to a key: before it, at it, after it.\<close>

definition key_rank :: "('k \<Rightarrow> 'a \<Rightarrow> bool) \<Rightarrow> ('k \<Rightarrow> 'a \<Rightarrow> bool) \<Rightarrow> 'k \<Rightarrow> 'a \<Rightarrow> int" where
  "key_rank hit before k x = (if hit k x then 0 else if before k x then 1 else -1)"

lemma key_rank_iff:
  "key_rank hit before k x = 1 \<longleftrightarrow> \<not> hit k x \<and> before k x"
  "key_rank hit before k x = -1 \<longleftrightarrow> \<not> hit k x \<and> \<not> before k x"
  by (simp_all add: key_rank_def)

locale bisection =
  fixes search :: "'a list \<Rightarrow> 'k \<Rightarrow> int \<Rightarrow> int \<Rightarrow> int result"
    and hit :: "'k \<Rightarrow> 'a \<Rightarrow> bool"
    and before :: "'k \<Rightarrow> 'a \<Rightarrow> bool"
    and miss :: "int \<Rightarrow> int"
  assumes search_eq: "search xs k l u =
    (if l \<le> u
     then let i = (l + u) div 2 in
          rbind (py_index xs i) (\<lambda>x.
            if hit k x then Inr i
            else if before k x then search xs k l (i - 1)
            else search xs k (i + 1) u)
     else Inr (miss l))"
begin

text \<open>On any list, sorted or not, the search stays within the list and ends.\<close>

lemma search_total:
  assumes "0 \<le> l" "u < int (length xs)"
  shows "\<exists>i. search xs k l u = Inr i"
  using assms
proof (induction "nat (u - l + 1)" arbitrary: l u rule: less_induct)
  case less
  show ?case
  proof (cases "l \<le> u")
    case True
    define i where "i = nat ((l + u) div 2)"
    have i: "int i = (l + u) div 2" "i < length xs" using True less.prems by (auto simp: i_def)
    have "search xs k l u =
        (if hit k (xs ! i) then Inr (int i)
         else if before k (xs ! i) then search xs k l (int i - 1)
         else search xs k (int i + 1) u)"
      using True py_index_nat [OF i(2)] by (subst search_eq) (simp add: i(1) [symmetric] Let_def)
    then show ?thesis
      using less.hyps [of "int i - 1" l] less.hyps [of u "int i + 1"] less.prems True i by auto
  qed (subst search_eq, simp)
qed

text \<open>The window \<open>l..u\<close> always holds every position that the search has not ruled out.\<close>

lemma search_window:
  assumes "sorted_wrt (\<lambda>x y. key_rank hit before k x \<le> key_rank hit before k y) xs"
    and "0 \<le> l" "l \<le> u + 1" "u < int (length xs)"
    and "\<And>j. int j < l \<Longrightarrow> key_rank hit before k (xs ! j) = -1"
    and "\<And>j. u < int j \<Longrightarrow> j < length xs \<Longrightarrow> key_rank hit before k (xs ! j) = 1"
  shows "(\<exists>i<length xs. search xs k l u = Inr (int i) \<and> hit k (xs ! i)) \<or>
     (\<exists>m\<le>length xs. search xs k l u = Inr (miss (int m)) \<and>
        (\<forall>j<m. key_rank hit before k (xs ! j) = -1) \<and>
        (\<forall>j. m \<le> j \<longrightarrow> j < length xs \<longrightarrow> key_rank hit before k (xs ! j) = 1))"
  using assms(2-)
proof (induction "nat (u - l + 1)" arbitrary: l u rule: less_induct)
  case less
  let ?rk = "\<lambda>j. key_rank hit before k (xs ! j)"
  show ?case
  proof (cases "l \<le> u")
    case False
    with less.prems have "u = l - 1" by simp
    moreover from False have "search xs k l u = Inr (miss l)" by (subst search_eq) simp
    ultimately show ?thesis using less.prems by (intro disjI2 exI [of _ "nat l"]) auto
  next
    case True
    define i where "i = nat ((l + u) div 2)"
    have i: "int i = (l + u) div 2" "l \<le> int i" "int i \<le> u" "i < length xs"
      using True less.prems by (auto simp: i_def)
    have step: "search xs k l u =
        (if hit k (xs ! i) then Inr (int i)
         else if before k (xs ! i) then search xs k l (int i - 1)
         else search xs k (int i + 1) u)"
      using True py_index_nat [OF i(4)] by (subst search_eq) (simp add: i(1) [symmetric] Let_def)
    have mono: "?rk a \<le> ?rk b" if "a < b" "b < length xs" for a b
      using assms(1) that by (simp add: sorted_wrt_iff_nth_less)
    consider "hit k (xs ! i)" | "\<not> hit k (xs ! i)" "before k (xs ! i)"
      | "\<not> hit k (xs ! i)" "\<not> before k (xs ! i)" by blast
    then show ?thesis
    proof cases
      case 1
      with step i(4) show ?thesis by auto
    next
      case 2
      then have "?rk i = 1" by (simp add: key_rank_def)
      then have "?rk j = 1" if "int i - 1 < int j" "j < length xs" for j
        using mono [of i j] that by (cases "i = j") (auto simp: key_rank_def split: if_splits)
      with 2 step i less.prems show ?thesis
        using less.hyps [of "int i - 1" l] by auto
    next
      case 3
      then have "?rk i = -1" by (simp add: key_rank_def)
      then have "?rk j = -1" if "int j < int i + 1" for j
        using mono [of j i] that i(4) by (cases "i = j") (auto simp: key_rank_def split: if_splits)
      with 3 step i less.prems show ?thesis
        using less.hyps [of u "int i + 1"] by auto
    qed
  qed
qed

lemma search_all:
  assumes "sorted_wrt (\<lambda>x y. key_rank hit before k x \<le> key_rank hit before k y) xs"
  shows "(\<exists>i<length xs. search xs k 0 (int (length xs) - 1) = Inr (int i) \<and> hit k (xs ! i)) \<or>
     (\<exists>m\<le>length xs. search xs k 0 (int (length xs) - 1) = Inr (miss (int m)) \<and>
        (\<forall>j<m. key_rank hit before k (xs ! j) = -1) \<and>
        (\<forall>j. m \<le> j \<longrightarrow> j < length xs \<longrightarrow> key_rank hit before k (xs ! j) = 1))"
  by (rule search_window [OF assms]) auto

end

definition in_range :: "rat \<Rightarrow> data_range \<Rightarrow> bool" where
  "in_range key r = (r_start r \<le> key \<and> key \<le> r_end r)"

interpretation range_bs: bisection range_search_loop in_range "\<lambda>key r. key < r_start r" "\<lambda>_. -1"
  by unfold_locales (unfold in_range_def, rule range_search_loop.simps)

interpretation event_bs: bisection event_search_loop "\<lambda>key e. key = ev_at e" "\<lambda>key e. key < ev_at e" "\<lambda>l. l"
  by unfold_locales (rule event_search_loop.simps)

lemma search_returns:
  "\<exists>i. range_search t key = Inr i"
  "\<exists>i. event_search e key = Inr i"
  by (simp_all add: range_search_def event_search_def range_bs.search_total event_bs.search_total)

lemma window_bounds_return:
  "\<exists>b. get_ranges_bounds t start stop = Inr b"
  "\<exists>b. get_events_bounds e start stop = Inr b"
  using search_returns(1) [of t start] search_returns(1) [of t stop]
    search_returns(2) [of e start] search_returns(2) [of e stop]
  by (auto simp: get_ranges_bounds_def get_events_bounds_def)

text \<open>Disjoint ranges in increasing order, and events at increasing times.\<close>

definition ranges_ok :: "data_range list \<Rightarrow> bool" where
  "ranges_ok rs = (sorted_wrt (\<lambda>a b. r_end a < r_start b) rs \<and> list_all (\<lambda>r. r_start r \<le> r_end r) rs)"

definition events_ok :: "'v event list \<Rightarrow> bool" where
  "events_ok es = sorted_wrt (\<lambda>a b. ev_at a < ev_at b) es"

lemma ranges_ok_nth:
  assumes "ranges_ok rs" "i < j" "j < length rs"
  shows "r_start (rs ! i) \<le> r_end (rs ! i)" "r_end (rs ! i) < r_start (rs ! j)"
    "r_start (rs ! j) \<le> r_end (rs ! j)"
  using assms by (auto simp: ranges_ok_def sorted_wrt_iff_nth_less list_all_length)

lemma range_search_ok:
  assumes "ranges_ok (tdr_ranges t)"
  shows "(\<exists>i<length (tdr_ranges t). range_search t key = Inr (int i) \<and> in_range key (tdr_ranges t ! i)) \<or>
     (range_search t key = Inr (-1) \<and> \<not> (\<exists>r\<in>set (tdr_ranges t). in_range key r))"
proof -
  let ?rs = "tdr_ranges t" and ?rk = "key_rank in_range (\<lambda>key r. key < r_start r) key"
  have "sorted_wrt (\<lambda>x y. ?rk x \<le> ?rk y) ?rs"
    unfolding sorted_wrt_iff_nth_less
  proof (intro allI impI)
    fix i j assume "i < j" "j < length ?rs"
    from ranges_ok_nth [OF assms this] show "?rk (?rs ! i) \<le> ?rk (?rs ! j)"
      by (auto simp: key_rank_def in_range_def)
  qed
  from range_bs.search_all [OF this] show ?thesis
  proof (elim disjE exE conjE)
    fix m assume m: "range_search_loop ?rs key 0 (int (length ?rs) - 1) = Inr (-1)"
      "\<forall>j<m. ?rk (?rs ! j) = -1" "\<forall>j. m \<le> j \<longrightarrow> j < length ?rs \<longrightarrow> ?rk (?rs ! j) = 1"
    have "\<not> in_range key (?rs ! j)" if "j < length ?rs" for j
      using m(2,3) that unfolding key_rank_iff by (meson not_le)
    with m(1) show ?thesis by (auto simp: range_search_def in_set_conv_nth)
  qed (metis range_search_def)
qed

lemma event_search_ok:
  assumes "events_ok (te_events t)"
  shows "\<exists>m\<le>length (te_events t). event_search t key = Inr (int m) \<and>
     (\<forall>j<length (te_events t). ev_at (te_events t ! j) < key \<longleftrightarrow> j < m)"
proof -
  let ?es = "te_events t" and ?rk = "key_rank (\<lambda>key e. key = ev_at e) (\<lambda>key e. key < ev_at e) key"
  have less: "ev_at (?es ! i) < ev_at (?es ! j)" if "i < j" "j < length ?es" for i j
    using assms that by (simp add: events_ok_def sorted_wrt_iff_nth_less)
  then have "sorted_wrt (\<lambda>x y. ?rk x \<le> ?rk y) ?es"
    unfolding sorted_wrt_iff_nth_less by (fastforce simp: key_rank_def)
  from event_bs.search_all [OF this] show ?thesis
  proof (elim disjE exE conjE)
    fix i assume i: "i < length ?es" "event_search_loop ?es key 0 (int (length ?es) - 1) = Inr (int i)"
      "key = ev_at (?es ! i)"
    have "ev_at (?es ! j) < key \<longleftrightarrow> j < i" if "j < length ?es" for j
      using less [of i j] less [of j i] i that by (cases i j rule: linorder_cases) auto
    with i show ?thesis by (intro exI [of _ i]) (auto simp: event_search_def)
  next
    fix m assume m: "m \<le> length ?es" "event_search_loop ?es key 0 (int (length ?es) - 1) = Inr (int m)"
      "\<forall>j<m. ?rk (?es ! j) = -1" "\<forall>j. m \<le> j \<longrightarrow> j < length ?es \<longrightarrow> ?rk (?es ! j) = 1"
    have "ev_at (?es ! j) < key \<longleftrightarrow> j < m" if "j < length ?es" for j
      using m(3,4) that unfolding key_rank_iff by (meson linorder_cases not_le order.asym)
    with m show ?thesis by (intro exI [of _ m]) (auto simp: event_search_def)
  qed
qed

lemma in_range_positions:
  assumes "ranges_ok rs" "i < length rs" "in_range key (rs ! i)" "k < length rs"
  shows "key \<le> r_end (rs ! k) \<longleftrightarrow> i \<le> k" "r_start (rs ! k) \<le> key \<longleftrightarrow> k < Suc i"
  using ranges_ok_nth [OF assms(1), of i k] ranges_ok_nth [OF assms(1), of k i] assms(2-)
  by (cases i k rule: linorder_cases; force simp: in_range_def)+

definition covered :: "rat \<Rightarrow> data_range list \<Rightarrow> bool" where
  "covered key rs = list_ex (in_range key) rs"

lemma range_search_cases:
  assumes "ranges_ok (tdr_ranges t)"
  obtains (hit) i where "i < length (tdr_ranges t)" "range_search t key = Inr (int i)"
      "in_range key (tdr_ranges t ! i)" "covered key (tdr_ranges t)"
    | (miss) "range_search t key = Inr (-1)" "\<not> covered key (tdr_ranges t)"
  using range_search_ok [OF assms, of key] by (auto simp: covered_def list_ex_iff dest: nth_mem)

section \<open>Properties of the searches\<close>

text \<open>
  On disjoint ranges in increasing order, \<^verbatim>\<open>get_ranges(start, end)\<close> raises no
  exception and returns: the ranges that meet the window when both its ends lie in a range; all
  the ranges that begin before its end when only the end does; all that end after its start when
  only the start does; and nothing when neither end lies in a range, even if ranges lie between.
\<close>

theorem get_ranges_between_correct:
  assumes "ranges_ok (tdr_ranges t)" "start \<le> stop"
  shows "get_ranges_between t start stop =
    Inr (if covered start (tdr_ranges t) \<and> covered stop (tdr_ranges t)
         then filter (\<lambda>r. start \<le> r_end r \<and> r_start r \<le> stop) (tdr_ranges t)
         else if covered stop (tdr_ranges t) then filter (\<lambda>r. r_start r \<le> stop) (tdr_ranges t)
         else if covered start (tdr_ranges t) then filter (\<lambda>r. start \<le> r_end r) (tdr_ranges t)
         else [])"
proof -
  let ?rs = "tdr_ranges t"
  note pos = in_range_positions [OF assms(1)]
  have slice: "py_slice ?rs (int i) (int j + 1) = drop i (take (Suc j) ?rs)" for i j
    using py_slice_nat [of ?rs i "Suc j"] by (simp add: add.commute)
  show ?thesis
  proof (cases rule: range_search_cases [OF assms(1), where key = start, case_names hit miss])
    case (hit i)
    note s = hit
    show ?thesis
    proof (cases rule: range_search_cases [OF assms(1), where key = stop, case_names hit miss])
      case (hit j)
      have "filter (\<lambda>r. start \<le> r_end r \<and> r_start r \<le> stop) ?rs = drop i (take (Suc j) ?rs)"
        using s hit pos by (intro filter_eq_block) simp
      with s hit show ?thesis by (simp add: get_ranges_between_def slice)
    next
      case miss
      have "filter (\<lambda>r. start \<le> r_end r) ?rs = drop i (take (length ?rs) ?rs)"
        using s pos by (intro filter_eq_block) simp
      with s miss show ?thesis
        using py_slice_nat [of ?rs i "length ?rs"] by (simp add: get_ranges_between_def)
    qed
  next
    case miss
    note s = miss
    show ?thesis
    proof (cases rule: range_search_cases [OF assms(1), where key = stop, case_names hit miss])
      case (hit j)
      have "filter (\<lambda>r. r_start r \<le> stop) ?rs = drop 0 (take (Suc j) ?rs)"
        using hit pos by (intro filter_eq_block) simp
      with s hit show ?thesis using slice [of 0 j] by (simp add: get_ranges_between_def)
    next
      case miss
      with s show ?thesis by (simp add: get_ranges_between_def)
    qed
  qed
qed

definition demo_ranges :: timeline_data_range where
  "demo_ranges = \<lparr>tdr_name = ''r'', tdr_ranges =
     [\<lparr>r_start = 1, r_end = 2, r_value = ''a''\<rparr>, \<lparr>r_start = 4, r_end = 6, r_value = ''b''\<rparr>]\<rparr>"

theorem get_ranges_between_correct_witness:
  "get_ranges_between demo_ranges 2 5 = Inr (tdr_ranges demo_ranges) \<and>
   get_ranges_between demo_ranges 0 3 = Inr []"
proof -
  have ok: "ranges_ok (tdr_ranges demo_ranges)" by (simp add: ranges_ok_def demo_ranges_def)
  show ?thesis
    using get_ranges_between_correct [OF ok, of 2 5] get_ranges_between_correct [OF ok, of 0 3]
    by (simp add: demo_ranges_def covered_def in_range_def)
qed

text \<open>
  On events at increasing times, \<^verbatim>\<open>get_events(start, end)\<close> raises no exception and
  returns the events of the window, in order, followed by the first event after the window when
  no event lies exactly at its end.
\<close>

theorem get_events_between_correct:
  assumes "events_ok (te_events t)" "start \<le> stop"
  shows "get_events_between t start stop =
    Inr (filter (\<lambda>e. start \<le> ev_at e \<and> ev_at e \<le> stop) (te_events t) @
         (if stop \<in> ev_at ` set (te_events t) then []
          else take 1 (filter (\<lambda>e. stop < ev_at e) (te_events t))))"
proof -
  let ?es = "te_events t"
  obtain a where a: "a \<le> length ?es" "event_search t start = Inr (int a)"
      "\<forall>j<length ?es. ev_at (?es ! j) < start \<longleftrightarrow> j < a"
    using event_search_ok [OF assms(1), of start] by blast
  obtain b where b: "b \<le> length ?es" "event_search t stop = Inr (int b)"
      "\<forall>j<length ?es. ev_at (?es ! j) < stop \<longleftrightarrow> j < b"
    using event_search_ok [OF assms(1), of stop] by blast
  have ab: "a \<le> b"
  proof (rule ccontr)
    assume "\<not> a \<le> b"
    then have "ev_at (?es ! b) < start" "\<not> ev_at (?es ! b) < stop" using a b by auto
    with assms(2) show False by simp
  qed
  have res: "get_events_between t start stop = Inr (drop a (take (Suc b) ?es))"
    using a(2) b(2) py_slice_nat [of ?es a "Suc b"] by (simp add: get_events_between_def add.commute)
  have less: "ev_at (?es ! i) < ev_at (?es ! j)" if "i < j" "j < length ?es" for i j
    using assms(1) that by (simp add: events_ok_def sorted_wrt_iff_nth_less)
  show ?thesis
  proof (cases "stop \<in> ev_at ` set ?es")
    case True
    then obtain k where k: "k < length ?es" "ev_at (?es ! k) = stop" by (auto simp: in_set_conv_nth)
    with b(3) less have "k = b"
      by (metis linorder_neqE_nat order_less_irrefl order_less_le_trans b(1))
    with k have eq: "ev_at (?es ! j) \<le> stop \<longleftrightarrow> j < Suc b" if "j < length ?es" for j
      using less [of b j] less [of j b] that by (cases j b rule: linorder_cases) auto
    have "filter (\<lambda>e. start \<le> ev_at e \<and> ev_at e \<le> stop) ?es = drop a (take (Suc b) ?es)"
      using a(3) eq by (intro filter_eq_block) (meson not_le)
    with True res show ?thesis by simp
  next
    case False
    then have eq: "ev_at (?es ! j) \<le> stop \<longleftrightarrow> j < b" if "j < length ?es" for j
      using b(3) that by (metis antisym_conv2 image_eqI nth_mem order_less_imp_le)
    have "filter (\<lambda>e. start \<le> ev_at e \<and> ev_at e \<le> stop) ?es = drop a (take b ?es)"
      using a(3) eq by (intro filter_eq_block) (meson not_le)
    moreover have "filter (\<lambda>e. stop < ev_at e) ?es = drop b (take (length ?es) ?es)"
      using eq by (intro filter_eq_block) (metis not_le)
    moreover have "drop a (take (Suc b) ?es) = drop a (take b ?es) @ take 1 (drop b ?es)"
      using ab b(1) by (cases "b < length ?es")
        (auto simp: take_Suc_conv_app_nth Cons_nth_drop_Suc [symmetric])
    ultimately show ?thesis using False res by simp
  qed
qed

theorem get_events_between_correct_witness:
  "get_events_between \<lparr>te_name = ''e'', te_events =
      [\<lparr>ev_at = 1, ev_value = ''a''\<rparr>, \<lparr>ev_at = 3, ev_value = ''b''\<rparr>, \<lparr>ev_at = 5, ev_value = ''c''\<rparr>]\<rparr> 2 4 =
   Inr [\<lparr>ev_at = 3, ev_value = ''b''\<rparr>, \<lparr>ev_at = 5, ev_value = ''c''\<rparr>]"
proof -
  let ?t = "\<lparr>te_name = ''e'', te_events =
      [\<lparr>ev_at = 1, ev_value = ''a''\<rparr>, \<lparr>ev_at = 3, ev_value = ''b''\<rparr>, \<lparr>ev_at = 5, ev_value = ''c''\<rparr>]\<rparr>"
  have "events_ok (te_events ?t)" by (simp add: events_ok_def)
  from get_events_between_correct [OF this, of 2 4] show ?thesis by simp
qed

section \<open>Sorting and bounds\<close>

lemma sort_cmp_ranges: "sort_cmp ranges_cmp rs = sort_key r_start rs"
proof -
  have "insert_cmp ranges_cmp x ys = insort_key r_start x ys" for x ys
    by (induction ys) (auto simp: ranges_cmp_def Let_def)
  then have "insert_cmp ranges_cmp = insort_key r_start" by blast
  then show ?thesis by (simp add: sort_cmp_def sort_key_def)
qed

lemma sort_cmp_events: "sort_cmp events_cmp es = sort_key ev_at es"
proof -
  have "insert_cmp events_cmp x ys = insort_key ev_at x ys" for x and ys :: "'a event list"
    by (induction ys) (auto simp: events_cmp_def Let_def)
  then have "insert_cmp events_cmp = (insort_key ev_at :: 'a event \<Rightarrow> _)" by blast
  then show ?thesis by (simp add: sort_cmp_def sort_key_def)
qed

lemma widen_le: "fst (widen b c) \<le> fst b" "fst (widen b c) \<le> fst c"
    "snd b \<le> snd (widen b c)" "snd c \<le> snd (widen b c)"
  by (simp_all add: widen_def)

lemma widen_by_Inr: "f x = Inr c \<Longrightarrow> widen_by f b x = Inr (widen b c)"
  by (simp add: widen_by_def)

text \<open>A bounds loop returns a pair that encloses the bounds of every item and the initial pair.\<close>

lemma widen_loop:
  assumes "\<And>x. x \<in> set xs \<Longrightarrow> \<exists>c. f x = Inr c"
  shows "\<exists>b'. for_each (widen_by f) xs b = Inr b' \<and> fst b' \<le> fst b \<and> snd b \<le> snd b' \<and>
     (\<forall>x\<in>set xs. \<forall>c. f x = Inr c \<longrightarrow> fst b' \<le> fst c \<and> snd c \<le> snd b')"
  using assms
proof (induction xs arbitrary: b)
  case (Cons x xs)
  have "\<exists>c. f x = Inr c" by (rule Cons.prems) simp
  then obtain c where c: "f x = Inr c" by blast
  obtain b' where b': "for_each (widen_by f) xs (widen b c) = Inr b'"
      "fst b' \<le> fst (widen b c)" "snd (widen b c) \<le> snd b'"
      "\<forall>x\<in>set xs. \<forall>c. f x = Inr c \<longrightarrow> fst b' \<le> fst c \<and> snd c \<le> snd b'"
    using Cons.IH [of "widen b c"] Cons.prems by (meson list.set_intros(2))
  moreover have "fst b' \<le> fst b" "fst b' \<le> fst c" "snd b \<le> snd b'" "snd c \<le> snd b'"
    using b'(2,3) widen_le [where b = b and c = c] by linarith+
  ultimately show ?case using c widen_by_Inr [of f x c b] by (intro exI [of _ b']) auto
qed simp

definition encloses :: "rat \<times> rat \<Rightarrow> timeline \<Rightarrow> bool" where
  "encloses b t =
     ((\<forall>rs\<in>set (tl_ranges t). \<forall>r\<in>set (tdr_ranges rs). fst b \<le> r_start r \<and> r_end r \<le> snd b) \<and>
      (\<forall>es\<in>set (tl_event_str t). \<forall>e\<in>set (te_events es). fst b \<le> ev_at e \<and> ev_at e \<le> snd b) \<and>
      (\<forall>es\<in>set (tl_event_int t). \<forall>e\<in>set (te_events es). fst b \<le> ev_at e \<and> ev_at e \<le> snd b))"

definition timeline_ok :: "timeline \<Rightarrow> bool" where
  "timeline_ok t =
     (list_all (\<lambda>rs. ranges_ok (tdr_ranges rs)) (tl_ranges t) \<and>
      list_all (\<lambda>es. sorted (map ev_at (te_events es))) (tl_event_str t) \<and>
      list_all (\<lambda>es. sorted (map ev_at (te_events es))) (tl_event_int t))"

lemma ranges_bounds_ok:
  assumes "ranges_ok (tdr_ranges t)"
  shows "\<exists>c. ranges_bounds t = Inr c \<and> (\<forall>r\<in>set (tdr_ranges t). fst c \<le> r_start r \<and> r_end r \<le> snd c)"
proof (cases "tdr_ranges t = []")
  case False
  let ?rs = "tdr_ranges t"
  have ends: "r_start (?rs ! 0) \<le> r_start (?rs ! j) \<and> r_end (?rs ! j) \<le> r_end (?rs ! (length ?rs - 1))"
    if "j < length ?rs" for j
    using ranges_ok_nth [OF assms, of 0 j] ranges_ok_nth [OF assms, of j "length ?rs - 1"] that
    by (cases "j = 0"; cases "j = length ?rs - 1") force+
  have "py_index ?rs (int (length ?rs) - 1) = Inr (?rs ! (length ?rs - 1))"
    using py_index_nat [of "length ?rs - 1" ?rs] False by (simp add: of_nat_diff Suc_leI)
  moreover have "py_index ?rs 0 = Inr (?rs ! 0)" using py_index_nat [of 0 ?rs] False by simp
  ultimately show ?thesis using False ends by (auto simp: ranges_bounds_def in_set_conv_nth)
qed (simp add: ranges_bounds_def)

lemma events_bounds_ok:
  assumes "sorted (map ev_at (te_events t))"
  shows "\<exists>c. events_bounds t = Inr c \<and> (\<forall>e\<in>set (te_events t). fst c \<le> ev_at e \<and> ev_at e \<le> snd c)"
proof (cases "te_events t = []")
  case False
  let ?es = "te_events t"
  have "ev_at (?es ! 0) \<le> ev_at (?es ! j) \<and> ev_at (?es ! j) \<le> ev_at (?es ! (length ?es - 1))"
    if "j < length ?es" for j
    using sorted_nth_mono [OF assms, of 0 j] sorted_nth_mono [OF assms, of j "length ?es - 1"] that False
    by simp
  moreover have "py_index ?es (-1) = Inr (?es ! (length ?es - 1))"
    using False by (simp add: py_index_def Suc_leI)
  moreover have "py_index ?es 0 = Inr (?es ! 0)" using py_index_nat [of 0 ?es] False by simp
  ultimately show ?thesis using False by (auto simp: events_bounds_def in_set_conv_nth)
qed (simp add: events_bounds_def)

lemma timeline_bounds_ok:
  assumes "timeline_ok t"
  shows "\<exists>b. timeline_bounds t = Inr b \<and> fst b \<le> 0 \<and> 0 \<le> snd b \<and> encloses b t"
proof -
  have r: "\<exists>c. ranges_bounds rs = Inr c \<and> (\<forall>r\<in>set (tdr_ranges rs). fst c \<le> r_start r \<and> r_end r \<le> snd c)"
    if "rs \<in> set (tl_ranges t)" for rs
    using assms that by (intro ranges_bounds_ok) (simp add: timeline_ok_def list_all_iff)
  have s: "\<exists>c. events_bounds es = Inr c \<and> (\<forall>e\<in>set (te_events es). fst c \<le> ev_at e \<and> ev_at e \<le> snd c)"
    if "es \<in> set (tl_event_str t)" for es
    using assms that by (intro events_bounds_ok) (simp add: timeline_ok_def list_all_iff)
  have i: "\<exists>c. events_bounds es = Inr c \<and> (\<forall>e\<in>set (te_events es). fst c \<le> ev_at e \<and> ev_at e \<le> snd c)"
    if "es \<in> set (tl_event_int t)" for es
    using assms that by (intro events_bounds_ok) (simp add: timeline_ok_def list_all_iff)
  obtain b1 where 1: "for_each (widen_by ranges_bounds) (tl_ranges t) (0, 0) = Inr b1"
      "fst b1 \<le> 0" "0 \<le> snd b1"
      "\<forall>x\<in>set (tl_ranges t). \<forall>c. ranges_bounds x = Inr c \<longrightarrow> fst b1 \<le> fst c \<and> snd c \<le> snd b1"
    using widen_loop [of "tl_ranges t" ranges_bounds "(0, 0)"] r by (metis fst_conv snd_conv)
  obtain b2 where 2: "for_each (widen_by events_bounds) (tl_event_str t) b1 = Inr b2"
      "fst b2 \<le> fst b1" "snd b1 \<le> snd b2"
      "\<forall>x\<in>set (tl_event_str t). \<forall>c. events_bounds x = Inr c \<longrightarrow> fst b2 \<le> fst c \<and> snd c \<le> snd b2"
    using widen_loop [of "tl_event_str t" events_bounds b1] s by metis
  obtain b3 where 3: "for_each (widen_by events_bounds) (tl_event_int t) b2 = Inr b3"
      "fst b3 \<le> fst b2" "snd b2 \<le> snd b3"
      "\<forall>x\<in>set (tl_event_int t). \<forall>c. events_bounds x = Inr c \<longrightarrow> fst b3 \<le> fst c \<and> snd c \<le> snd b3"
    using widen_loop [of "tl_event_int t" events_bounds b2] i by metis
  have "encloses b3 t"
    unfolding encloses_def
  proof (intro conjI ballI)
    fix rs r assume "rs \<in> set (tl_ranges t)" "r \<in> set (tdr_ranges rs)"
    then show "fst b3 \<le> r_start r" "r_end r \<le> snd b3"
      using r [of rs] 1(4) 2(2,3) 3(2,3) by (meson order_trans)+
  next
    fix es e assume "es \<in> set (tl_event_str t)" "e \<in> set (te_events es)"
    then show "fst b3 \<le> ev_at e" "ev_at e \<le> snd b3"
      using s [of es] 2(4) 3(2,3) by (meson order_trans)+
  next
    fix es e assume "es \<in> set (tl_event_int t)" "e \<in> set (te_events es)"
    then show "fst b3 \<le> ev_at e" "ev_at e \<le> snd b3"
      using i [of es] 3(4) by (meson order_trans)+
  qed
  moreover have "timeline_bounds t = Inr b3" by (simp add: timeline_bounds_def 1(1) 2(1) 3(1))
  ultimately show ?thesis using 1(2,3) 2(2,3) 3(2,3) by (meson order_trans)
qed

lemma encloses_mono:
  "encloses c t \<Longrightarrow> fst b \<le> fst c \<Longrightarrow> snd c \<le> snd b \<Longrightarrow> encloses b t"
  unfolding encloses_def by (meson order_trans)

text \<open>
  The bounds of a set of timelines with disjoint sorted ranges and sorted events are computed
  without an exception, contain zero, and enclose every range and every event.
\<close>

theorem timelines_bounds_enclose:
  assumes "\<forall>t\<in>set ts. timeline_ok t"
  shows "\<exists>b. timelines_bounds ts = Inr b \<and> fst b \<le> 0 \<and> 0 \<le> snd b \<and> (\<forall>t\<in>set ts. encloses b t)"
proof -
  have t: "\<exists>c. timeline_bounds t = Inr c \<and> encloses c t" if "t \<in> set ts" for t
    using timeline_bounds_ok assms that by blast
  obtain b where "for_each (widen_by timeline_bounds) ts (0, 0) = Inr b" "fst b \<le> 0" "0 \<le> snd b"
      "\<forall>x\<in>set ts. \<forall>c. timeline_bounds x = Inr c \<longrightarrow> fst b \<le> fst c \<and> snd c \<le> snd b"
    using widen_loop [of ts timeline_bounds "(0, 0)"] t by (metis fst_conv snd_conv)
  then show ?thesis using t unfolding timelines_bounds_def by (meson encloses_mono)
qed

theorem timelines_bounds_enclose_witness:
  "\<exists>b. timelines_bounds [(new_timeline ''n'')\<lparr>tl_ranges := [demo_ranges]\<rparr>] = Inr b \<and>
     fst b \<le> 0 \<and> 0 \<le> snd b \<and> encloses b ((new_timeline ''n'')\<lparr>tl_ranges := [demo_ranges]\<rparr>)"
  using timelines_bounds_enclose [of "[(new_timeline ''n'')\<lparr>tl_ranges := [demo_ranges]\<rparr>]"]
  by (simp add: timeline_ok_def new_timeline_def demo_ranges_def ranges_ok_def)

end
