(* ===== verification/GridData.thy ===== *)
theory GridData
  imports Timeline "HOL-Library.Monad_Syntax"
begin

text \<open>
  \<^verbatim>\<open>read_data\<close> of \<^verbatim>\<open>utils/grid.py\<close>: the four regular expressions, the entries of a data
  file and the store of timelines and colours that they build. The locale
  \<open>named_collection\<close> is the contract of the find-or-create methods of \<open>Timeline\<close>; the
  lemmas on the reader rest on its four interpretations.
\<close>

section \<open>Find or create\<close>

text \<open>The object of a name in a list, or a fresh one.\<close>

definition item_named :: "('a \<Rightarrow> string) \<Rightarrow> (string \<Rightarrow> 'a) \<Rightarrow> 'a list \<Rightarrow> string \<Rightarrow> 'a" where
  "item_named name_of fresh xs n =
     (case find (\<lambda>x. name_of x = n) xs of None \<Rightarrow> fresh n | Some x \<Rightarrow> x)"

lemma find_named_Some:
  "find_named name_of n xs = Some i \<Longrightarrow>
     i < length xs \<and> name_of (xs ! i) = n \<and> (\<forall>j<i. name_of (xs ! j) \<noteq> n)"
proof (induction xs arbitrary: i)
  case (Cons x xs)
  show ?case
  proof (cases "name_of x = n")
    case False
    with Cons.prems obtain k where k: "find_named name_of n xs = Some k" "i = Suc k" by auto
    with Cons.IH [OF k(1)] False show ?thesis by (auto simp: nth_Cons split: nat.splits)
  qed (use Cons.prems in simp)
qed simp

lemma find_named_None: "find_named name_of n xs = None \<longleftrightarrow> n \<notin> name_of ` set xs"
  by (induction xs) auto

lemma find_append: "find P (xs @ ys) = (case find P xs of None \<Rightarrow> find P ys | r \<Rightarrow> r)"
  by (induction xs) simp_all

text \<open>The item of a name, when the item is known to be the first of that name.\<close>

lemma item_named_first:
  assumes "\<forall>x\<in>set xs. name_of x \<noteq> n" "name_of y = n"
  shows "item_named name_of fresh (xs @ y # ys) n = y"
proof -
  have "find (\<lambda>x. name_of x = n) xs = None" using assms(1) by (simp add: find_None_iff)
  with assms(2) show ?thesis by (simp add: item_named_def find_append)
qed

lemma item_named_skip:
  "name_of y \<noteq> n \<Longrightarrow> item_named name_of fresh (xs @ y # ys) n = item_named name_of fresh (xs @ ys) n"
  by (cases "find (\<lambda>x. name_of x = n) xs") (simp_all add: item_named_def find_append)

lemma find_named_mem: "x \<in> set xs \<Longrightarrow> \<exists>i. find_named name_of (name_of x) xs = Some i"
  using find_named_None [of name_of "name_of x" xs] by auto

locale named_collection =
  fixes get :: "string \<Rightarrow> 'c \<Rightarrow> nat \<times> 'c"
    and items :: "'c \<Rightarrow> 'a list"
    and name_of :: "'a \<Rightarrow> string"
    and fresh :: "string \<Rightarrow> 'a"
  assumes fresh_name: "name_of (fresh n) = n"
    and get_old: "n \<in> name_of ` set (items c) \<Longrightarrow> snd (get n c) = c"
    and get_new: "n \<notin> name_of ` set (items c) \<Longrightarrow> items (snd (get n c)) = items c @ [fresh n]"
    and get_position: "fst (get n c) < length (items (snd (get n c))) \<and>
      name_of (items (snd (get n c)) ! fst (get n c)) = n \<and>
      (\<forall>j<fst (get n c). name_of (items (snd (get n c)) ! j) \<noteq> n)"
begin

text \<open>A change of the object of a name that keeps the name is seen under that name only.\<close>

lemma item_after_update:
  assumes "get n c = (i, c')" "name_of (f (items c' ! i)) = n"
  shows "item_named name_of fresh ((items c')[i := f (items c' ! i)]) m =
     (if m = n then f (item_named name_of fresh (items c) n) else item_named name_of fresh (items c) m)"
proof -
  have i: "i < length (items c')" "name_of (items c' ! i) = n" "\<forall>j<i. name_of (items c' ! j) \<noteq> n"
    using get_position [of n c] assms(1) by auto
  define xs y ys where "xs = take i (items c')" and "y = items c' ! i" and "ys = drop (Suc i) (items c')"
  have c': "items c' = xs @ y # ys" using i(1) by (simp add: xs_def y_def ys_def id_take_nth_drop)
  have upd: "(items c')[i := f y] = xs @ f y # ys"
    using i(1) by (simp add: xs_def ys_def upd_conv_take_nth_drop)
  have first: "\<forall>x\<in>set xs. name_of x \<noteq> n" 
  proof
    fix x assume "x \<in> set xs"
    then obtain j where "j < i" "x = items c' ! j" by (auto simp: xs_def in_set_conv_nth)
    with i(3) show "name_of x \<noteq> n" by blast
  qed
  have same: "item_named name_of fresh (items c') k = item_named name_of fresh (items c) k" for k
  proof (cases "n \<in> name_of ` set (items c)")
    case True
    with get_old [of n c] assms(1) show ?thesis by simp
  next
    case False
    with get_new [of n c] assms(1) have "items c' = items c @ [fresh n]" by simp
    with False fresh_name show ?thesis
      by (auto simp: item_named_def find_append split: option.splits)
  qed
  have names: "name_of y = n" "name_of (f y) = n" using i(2) assms(2) by (simp_all add: y_def)
  show ?thesis
  proof (cases "m = n")
    case True
    have "item_named name_of fresh (xs @ f y # ys) n = f y"
      using first assms(2) by (intro item_named_first) (simp_all add: y_def)
    moreover have "item_named name_of fresh (items c') n = y"
      unfolding c' using first i(2) by (intro item_named_first) (simp_all add: y_def)
    ultimately show ?thesis using True same [of n] upd by (simp add: y_def)
  next
    case False
    then have "item_named name_of fresh (xs @ f y # ys) m = item_named name_of fresh (items c') m"
      using names by (simp add: c' item_named_skip)
    with False same upd show ?thesis by (simp add: y_def)
  qed
qed

lemma names_after_get:
  assumes "distinct (map name_of (items c))"
  shows "distinct (map name_of (items (snd (get n c))))"
  using assms get_old [of n c] get_new [of n c] fresh_name
  by (cases "n \<in> name_of ` set (items c)") auto

end

lemmas find_named_laws = find_named_None [THEN iffD1] find_named_None [THEN iffD2] find_named_Some

interpretation ranges_of_timeline: named_collection get_range tl_ranges tdr_name new_data_range
  by unfold_locales (auto simp: get_range_def new_data_range_def nth_append dest: find_named_laws
      split: option.splits)

interpretation strings_of_timeline: named_collection get_event_str tl_event_str te_name new_event
  by unfold_locales (auto simp: get_event_str_def new_event_def nth_append dest: find_named_laws
      split: option.splits)

interpretation ints_of_timeline: named_collection get_event_int tl_event_int te_name new_event
  by unfold_locales (auto simp: get_event_int_def new_event_def nth_append dest: find_named_laws
      split: option.splits)

interpretation all_timelines: named_collection get_timeline "\<lambda>ts. ts" tl_name new_timeline
  by unfold_locales (auto simp: get_timeline_def new_timeline_def nth_append find_named_mem
      dest: find_named_laws split: option.splits)

section \<open>The lines of a data file\<close>

definition hex_value :: "char \<Rightarrow> nat option" where
  "hex_value c = (let n = of_char c :: nat in
     if 48 \<le> n \<and> n \<le> 57 then Some (n - 48)
     else if 97 \<le> n \<and> n \<le> 102 then Some (n - 87)
     else if 65 \<le> n \<and> n \<le> 70 then Some (n - 55) else None)"

text \<open>The group \<^verbatim>\<open>([^ ]+)\<close> with the blank after it: the run of characters up to the next blank.\<close>

definition field :: "string \<Rightarrow> (string \<times> string) option" where
  "field s =
     (let f = takeWhile (\<lambda>c. c \<noteq> CHR '' '') s; r = dropWhile (\<lambda>c. c \<noteq> CHR '' '') s in
      if f \<noteq> [] \<and> r \<noteq> [] then Some (f, tl r) else None)"

text \<open>The group \<^verbatim>\<open>([0-9]+)\<close> with the blank after it, and at the end of the expression.\<close>

definition digits_field :: "string \<Rightarrow> (string \<times> string) option" where
  "digits_field s =
     do { (f, r) \<leftarrow> field s; if list_all is_digit f then Some (f, r) else None }"

definition digits :: "string \<Rightarrow> string option" where
  "digits s = (let f = takeWhile is_digit s in if f \<noteq> [] then Some f else None)"

datatype entry =
    RangeEntry string string data_range
  | StrEntry string string "string event"
  | IntEntry string string "int event"
  | ColorEntry string color

definition match_range :: "string \<Rightarrow> entry option" where
  "match_range line =
     do { s \<leftarrow> after_prefix ''range '' line;
          (n, s) \<leftarrow> field s; (m, s) \<leftarrow> field s; (v, s) \<leftarrow> field s;
          (a, s) \<leftarrow> digits_field s; b \<leftarrow> digits s;
          Some (RangeEntry n m \<lparr>r_start = of_int (int_of_digits a), r_end = of_int (int_of_digits b),
                               r_value = v\<rparr>) }"

definition match_event_str :: "string \<Rightarrow> entry option" where
  "match_event_str line =
     do { s \<leftarrow> after_prefix ''event-str '' line;
          (n, s) \<leftarrow> field s; (m, s) \<leftarrow> field s; (v, s) \<leftarrow> field s; a \<leftarrow> digits s;
          Some (StrEntry n m \<lparr>ev_at = of_int (int_of_digits a), ev_value = v\<rparr>) }"

definition match_event_int :: "string \<Rightarrow> entry option" where
  "match_event_int line =
     do { s \<leftarrow> after_prefix ''event-int '' line;
          (n, s) \<leftarrow> field s; (m, s) \<leftarrow> field s; (v, s) \<leftarrow> digits_field s; a \<leftarrow> digits s;
          Some (IntEntry n m \<lparr>ev_at = of_int (int_of_digits a), ev_value = int_of_digits v\<rparr>) }"

text \<open>Two hexadecimal digits as a fraction of 255.\<close>

definition hex_component :: "string \<Rightarrow> (rat \<times> string) option" where
  "hex_component s =
     (case s of
        a # b # r \<Rightarrow> do { x \<leftarrow> hex_value a; y \<leftarrow> hex_value b; Some (of_nat (16 * x + y) / 255, r) }
      | _ \<Rightarrow> None)"

definition match_color :: "string \<Rightarrow> entry option" where
  "match_color line =
     do { s \<leftarrow> after_prefix ''color '' line;
          (n, s) \<leftarrow> field s; s \<leftarrow> after_prefix ''#'' s;
          (r, s) \<leftarrow> hex_component s; (g, s) \<leftarrow> hex_component s; (b, s) \<leftarrow> hex_component s;
          Some (ColorEntry n (rgb r g b)) }"

text \<open>The expressions in the order in which they are tried.\<close>

definition match_line :: "string \<Rightarrow> entry option" where
  "match_line line =
     (case match_range line of Some e \<Rightarrow> Some e | None \<Rightarrow>
      case match_event_str line of Some e \<Rightarrow> Some e | None \<Rightarrow>
      case match_event_int line of Some e \<Rightarrow> Some e | None \<Rightarrow> match_color line)"

section \<open>The reader\<close>

definition change_at :: "nat \<Rightarrow> ('a \<Rightarrow> 'a) \<Rightarrow> 'a list \<Rightarrow> 'a list" where
  "change_at i f xs = xs[i := f (xs ! i)]"

definition put_range :: "string \<Rightarrow> data_range \<Rightarrow> timeline \<Rightarrow> timeline" where
  "put_range m r t =
     (let (j, t) = get_range m t in t\<lparr>tl_ranges := change_at j (add_range r) (tl_ranges t)\<rparr>)"

definition put_event_str :: "string \<Rightarrow> string event \<Rightarrow> timeline \<Rightarrow> timeline" where
  "put_event_str m e t =
     (let (j, t) = get_event_str m t in t\<lparr>tl_event_str := change_at j (add_event e) (tl_event_str t)\<rparr>)"

definition put_event_int :: "string \<Rightarrow> int event \<Rightarrow> timeline \<Rightarrow> timeline" where
  "put_event_int m e t =
     (let (j, t) = get_event_int m t in t\<lparr>tl_event_int := change_at j (add_event e) (tl_event_int t)\<rparr>)"

definition in_timeline :: "string \<Rightarrow> (timeline \<Rightarrow> timeline) \<Rightarrow> timelines \<Rightarrow> timelines" where
  "in_timeline n f ts = (let (i, ts) = get_timeline n ts in change_at i f ts)"

fun apply_entry :: "entry \<Rightarrow> colors \<times> timelines \<Rightarrow> colors \<times> timelines" where
  "apply_entry (RangeEntry n m r) (cs, ts) = (cs, in_timeline n (put_range m r) ts)"
| "apply_entry (StrEntry n m e) (cs, ts) = (cs, in_timeline n (put_event_str m e) ts)"
| "apply_entry (IntEntry n m e) (cs, ts) = (cs, in_timeline n (put_event_int m e) ts)"
| "apply_entry (ColorEntry n c) (cs, ts) = (add_color n c cs, ts)"

definition read_line :: "string \<Rightarrow> colors \<times> timelines \<Rightarrow> colors \<times> timelines" where
  "read_line line st = (case match_line line of None \<Rightarrow> st | Some e \<Rightarrow> apply_entry e st)"

definition read_data :: "string list \<Rightarrow> colors \<times> timelines" where
  "read_data file_lines =
     (let (cs, ts) = fold read_line file_lines (initial_colors, []) in (cs, sort_timelines ts))"

text \<open>The loop of \<^verbatim>\<open>main\<close> that looks up the colours of the legend.\<close>

definition legend_step :: "color option list \<times> colors \<Rightarrow> string \<Rightarrow> (color option list \<times> colors) result" where
  "legend_step st v = rbind (lookup_color v (snd st)) (\<lambda>(c, cs). Inr (fst st @ [c], cs))"

definition legend_colors :: "string list \<Rightarrow> colors \<Rightarrow> (color option list \<times> colors) result" where
  "legend_colors range_values cs = for_each legend_step range_values ([], cs)"

section \<open>What the reader stores\<close>

abbreviation timeline_of :: "timelines \<Rightarrow> string \<Rightarrow> timeline" where
  "timeline_of \<equiv> item_named tl_name new_timeline"

definition ranges_in :: "string \<Rightarrow> string \<Rightarrow> timelines \<Rightarrow> data_range list" where
  "ranges_in n m ts = tdr_ranges (item_named tdr_name new_data_range (tl_ranges (timeline_of ts n)) m)"

definition strings_in :: "string \<Rightarrow> string \<Rightarrow> timelines \<Rightarrow> string event list" where
  "strings_in n m ts = te_events (item_named te_name new_event (tl_event_str (timeline_of ts n)) m)"

definition ints_in :: "string \<Rightarrow> string \<Rightarrow> timelines \<Rightarrow> int event list" where
  "ints_in n m ts = te_events (item_named te_name new_event (tl_event_int (timeline_of ts n)) m)"

text \<open>The entries of a file under a pair of names, in the order of the file.\<close>

fun range_entries :: "string \<Rightarrow> string \<Rightarrow> entry list \<Rightarrow> data_range list" where
  "range_entries n m [] = []"
| "range_entries n m (RangeEntry n' m' r # es) =
     (if n' = n \<and> m' = m then [r] else []) @ range_entries n m es"
| "range_entries n m (_ # es) = range_entries n m es"

fun string_entries :: "string \<Rightarrow> string \<Rightarrow> entry list \<Rightarrow> string event list" where
  "string_entries n m [] = []"
| "string_entries n m (StrEntry n' m' e # es) =
     (if n' = n \<and> m' = m then [e] else []) @ string_entries n m es"
| "string_entries n m (_ # es) = string_entries n m es"

fun int_entries :: "string \<Rightarrow> string \<Rightarrow> entry list \<Rightarrow> int event list" where
  "int_entries n m [] = []"
| "int_entries n m (IntEntry n' m' e # es) =
     (if n' = n \<and> m' = m then [e] else []) @ int_entries n m es"
| "int_entries n m (_ # es) = int_entries n m es"

fun color_entry :: "string \<Rightarrow> entry list \<Rightarrow> color option \<Rightarrow> color option" where
  "color_entry n [] d = d"
| "color_entry n (ColorEntry n' c # es) d = color_entry n es (if n' = n then Some c else d)"
| "color_entry n (_ # es) d = color_entry n es d"

lemma get_keeps:
  "tl_name (snd (get_range m t)) = tl_name t" "tl_event_str (snd (get_range m t)) = tl_event_str t"
  "tl_event_int (snd (get_range m t)) = tl_event_int t"
  "tl_name (snd (get_event_str m t)) = tl_name t" "tl_ranges (snd (get_event_str m t)) = tl_ranges t"
  "tl_event_int (snd (get_event_str m t)) = tl_event_int t"
  "tl_name (snd (get_event_int m t)) = tl_name t" "tl_ranges (snd (get_event_int m t)) = tl_ranges t"
  "tl_event_str (snd (get_event_int m t)) = tl_event_str t"
  by (auto simp: get_range_def get_event_str_def get_event_int_def split: option.splits)

lemma put_keeps:
  "tl_name (put_range m r t) = tl_name t" "tl_event_str (put_range m r t) = tl_event_str t"
  "tl_event_int (put_range m r t) = tl_event_int t"
  "tl_name (put_event_str m e t) = tl_name t" "tl_ranges (put_event_str m e t) = tl_ranges t"
  "tl_event_int (put_event_str m e t) = tl_event_int t"
  "tl_name (put_event_int m i t) = tl_name t" "tl_ranges (put_event_int m i t) = tl_ranges t"
  "tl_event_str (put_event_int m i t) = tl_event_str t"
  using get_keeps [of m t]
  by (auto simp: put_range_def put_event_str_def put_event_int_def split: prod.splits)

lemma put_range_item:
  "item_named tdr_name new_data_range (tl_ranges (put_range m r t)) k =
     (if k = m then add_range r (item_named tdr_name new_data_range (tl_ranges t) m)
      else item_named tdr_name new_data_range (tl_ranges t) k)"
proof -
  obtain j t' where g: "get_range m t = (j, t')" by fastforce
  have "tdr_name (add_range r (tl_ranges t' ! j)) = m"
    using ranges_of_timeline.get_position [of m t] by (simp add: g add_range_def)
  from ranges_of_timeline.item_after_update [where f = "add_range r", OF g this, of k] show ?thesis
    by (simp add: put_range_def g change_at_def)
qed

lemma put_event_str_item:
  "item_named te_name new_event (tl_event_str (put_event_str m e t)) k =
     (if k = m then add_event e (item_named te_name new_event (tl_event_str t) m)
      else item_named te_name new_event (tl_event_str t) k)"
proof -
  obtain j t' where g: "get_event_str m t = (j, t')" by fastforce
  have "te_name (add_event e (tl_event_str t' ! j)) = m"
    using strings_of_timeline.get_position [of m t] by (simp add: g add_event_def)
  from strings_of_timeline.item_after_update [where f = "add_event e", OF g this, of k] show ?thesis
    by (simp add: put_event_str_def g change_at_def)
qed

lemma put_event_int_item:
  "item_named te_name new_event (tl_event_int (put_event_int m e t)) k =
     (if k = m then add_event e (item_named te_name new_event (tl_event_int t) m)
      else item_named te_name new_event (tl_event_int t) k)"
proof -
  obtain j t' where g: "get_event_int m t = (j, t')" by fastforce
  have "te_name (add_event e (tl_event_int t' ! j)) = m"
    using ints_of_timeline.get_position [of m t] by (simp add: g add_event_def)
  from ints_of_timeline.item_after_update [where f = "add_event e", OF g this, of k] show ?thesis
    by (simp add: put_event_int_def g change_at_def)
qed

lemma in_timeline_item:
  assumes "\<And>t. tl_name (f t) = tl_name t"
  shows "timeline_of (in_timeline n f ts) k = (if k = n then f (timeline_of ts n) else timeline_of ts k)"
proof -
  obtain i ts' where g: "get_timeline n ts = (i, ts')" by fastforce
  have "tl_name (f (ts' ! i)) = n"
    using all_timelines.get_position [of n ts] assms by (simp add: g)
  from all_timelines.item_after_update [where f = "f", OF g this, of k] show ?thesis
    by (simp add: in_timeline_def g change_at_def)
qed

lemmas stored_defs = ranges_in_def strings_in_def ints_in_def in_timeline_item put_keeps
  put_range_item put_event_str_item put_event_int_item add_range_def add_event_def

lemma apply_entry_stores:
  "ranges_in n m (snd (apply_entry e st)) = ranges_in n m (snd st) @ range_entries n m [e]"
  "strings_in n m (snd (apply_entry e st)) = strings_in n m (snd st) @ string_entries n m [e]"
  "ints_in n m (snd (apply_entry e st)) = ints_in n m (snd st) @ int_entries n m [e]"
  "map_of (col_map (fst (apply_entry e st))) n = color_entry n [e] (map_of (col_map (fst st)) n)"
  by (cases st; cases e; simp add: stored_defs add_color_def)+

lemma entries_append:
  "range_entries n m (es @ fs) = range_entries n m es @ range_entries n m fs"
  "string_entries n m (es @ fs) = string_entries n m es @ string_entries n m fs"
  "int_entries n m (es @ fs) = int_entries n m es @ int_entries n m fs"
  "color_entry n (es @ fs) d = color_entry n fs (color_entry n es d)"
  subgoal by (induction n m es rule: range_entries.induct) simp_all
  subgoal by (induction n m es rule: string_entries.induct) simp_all
  subgoal by (induction n m es rule: int_entries.induct) simp_all
  subgoal by (induction n es d rule: color_entry.induct) simp_all
  done

lemma read_lines_store:
  "let es = List.map_filter match_line file_lines in
    ranges_in n m (snd (fold read_line file_lines st)) = ranges_in n m (snd st) @ range_entries n m es \<and>
    strings_in n m (snd (fold read_line file_lines st)) = strings_in n m (snd st) @ string_entries n m es \<and>
    ints_in n m (snd (fold read_line file_lines st)) = ints_in n m (snd st) @ int_entries n m es \<and>
    map_of (col_map (fst (fold read_line file_lines st))) n = color_entry n es (map_of (col_map (fst st)) n)"
  unfolding Let_def
proof (induction file_lines arbitrary: st)
  case Nil
  show ?case by (simp add: List.map_filter_simps)
next
  case (Cons l ls)
  show ?case
  proof (cases "match_line l")
    case None
    with Cons.IH [of st] show ?thesis by (simp add: read_line_def List.map_filter_simps)
  next
    case (Some e)
    let ?es = "List.map_filter match_line ls"
    from Cons.IH [of "apply_entry e st"] Some show ?thesis
      using entries_append(1-3) [of n m "[e]" ?es] entries_append(4) [of n "[e]" ?es]
      by (simp add: read_line_def List.map_filter_simps apply_entry_stores)
  qed
qed

lemma item_named_map:
  assumes "\<And>x. name_of (g x) = name_of x" "g (fresh n) = fresh n"
  shows "item_named name_of fresh (map g xs) n = g (item_named name_of fresh xs n)"
  using assms by (induction xs) (auto simp: item_named_def)

lemma sort_stored:
  "ranges_in n m (sort_timelines ts) = sort_key r_start (ranges_in n m ts)"
  "strings_in n m (sort_timelines ts) = sort_key ev_at (strings_in n m ts)"
  "ints_in n m (sort_timelines ts) = sort_key ev_at (ints_in n m ts)"
proof -
  have t: "timeline_of (sort_timelines ts) n = sort_timeline (timeline_of ts n)"
    unfolding sort_timelines_def by (rule item_named_map) (simp_all add: sort_timeline_def new_timeline_def)
  have "item_named tdr_name new_data_range (map sort_ranges xs) m =
      sort_ranges (item_named tdr_name new_data_range xs m)" for xs
    by (rule item_named_map) (simp_all add: sort_ranges_def new_data_range_def sort_cmp_ranges)
  then show "ranges_in n m (sort_timelines ts) = sort_key r_start (ranges_in n m ts)"
    by (simp add: ranges_in_def t sort_timeline_def) (simp add: sort_ranges_def sort_cmp_ranges)
  have e: "item_named te_name new_event (map sort_events xs) m =
      sort_events (item_named te_name new_event xs m)" for xs :: "'v timeline_event list"
    by (rule item_named_map) (simp_all add: sort_events_def new_event_def sort_cmp_events)
  show "strings_in n m (sort_timelines ts) = sort_key ev_at (strings_in n m ts)"
    by (simp add: strings_in_def t sort_timeline_def e) (simp add: sort_events_def sort_cmp_events)
  show "ints_in n m (sort_timelines ts) = sort_key ev_at (ints_in n m ts)"
    by (simp add: ints_in_def t sort_timeline_def e) (simp add: sort_events_def sort_cmp_events)
qed

section \<open>Properties of the reader\<close>

text \<open>
  \<^verbatim>\<open>read_data\<close> loses nothing and mixes nothing up. Under every pair of a timeline name
  and a range name it holds exactly the ranges that the file has under these names, stably
  sorted by their start; likewise for the string and the integer events, sorted by their time;
  and the colour of a name is the one of its last colour line.
\<close>

theorem read_data_correct:
  "let es = List.map_filter match_line file_lines in
    ranges_in n m (snd (read_data file_lines)) = sort_key r_start (range_entries n m es) \<and>
    strings_in n m (snd (read_data file_lines)) = sort_key ev_at (string_entries n m es) \<and>
    ints_in n m (snd (read_data file_lines)) = sort_key ev_at (int_entries n m es) \<and>
    map_of (col_map (fst (read_data file_lines))) n = color_entry n es None"
proof -
  have empty: "ranges_in n m [] = []" "strings_in n m [] = []" "ints_in n m [] = []"
    by (simp_all add: ranges_in_def strings_in_def ints_in_def item_named_def new_timeline_def
        new_data_range_def new_event_def)
  obtain cs ts where f: "fold read_line file_lines (initial_colors, []) = (cs, ts)" by fastforce
  from read_lines_store [of file_lines n m "(initial_colors, [])"] f empty show ?thesis
    by (simp add: read_data_def sort_stored Let_def initial_colors_def)
qed

lemma lookup_color_cases:
  "has_key (col_map cs) v \<Longrightarrow> lookup_color v cs = Inr (map_of (col_map cs) v, cs)"
  "\<not> has_key (col_map cs) v \<Longrightarrow> default_colors cs = [] \<Longrightarrow> lookup_color v cs = Inl IndexError"
  "\<not> has_key (col_map cs) v \<Longrightarrow> default_colors cs = ds @ [d] \<Longrightarrow>
     lookup_color v cs = Inr (Some d, \<lparr>col_map = AList.update v d (col_map cs), default_colors = ds\<rparr>)"
  by (simp_all add: lookup_color_def add_color_def)

lemma legend_loop:
  "distinct vs \<Longrightarrow>
   (case for_each legend_step vs (acc, cs) of
      Inl e \<Rightarrow> e = IndexError \<and>
        length (default_colors cs) < length (filter (\<lambda>v. \<not> has_key (col_map cs) v) vs)
    | Inr (acc', cs') \<Rightarrow>
        length (filter (\<lambda>v. \<not> has_key (col_map cs) v) vs) \<le> length (default_colors cs) \<and>
        acc' = acc @ map (map_of (col_map cs')) vs \<and> (\<forall>v\<in>set vs. map_of (col_map cs') v \<noteq> None) \<and>
        (\<forall>k. has_key (col_map cs) k \<longrightarrow> map_of (col_map cs') k = map_of (col_map cs) k))"
proof (induction vs arbitrary: acc cs)
  case (Cons v vs)
  show ?case
  proof (cases "has_key (col_map cs) v")
    case True
    with Cons.IH [of cs "acc @ [map_of (col_map cs) v]"] Cons.prems show ?thesis
      by (simp add: legend_step_def lookup_color_cases(1))
        (auto split: sum.splits prod.splits simp: has_key_def)
  next
    case False
    show ?thesis
    proof (cases "default_colors cs" rule: rev_cases)
      case Nil
      with False show ?thesis by (simp add: legend_step_def lookup_color_cases(2))
    next
      case (snoc ds d)
      let ?cs = "\<lparr>col_map = AList.update v d (col_map cs), default_colors = ds\<rparr>"
      have "filter (\<lambda>x. \<not> has_key (col_map ?cs) x) vs = filter (\<lambda>x. \<not> has_key (col_map cs) x) vs"
        using Cons.prems by (intro filter_cong) (auto simp: has_key_def)
      with Cons.IH [of ?cs "acc @ [Some d]"] Cons.prems False snoc show ?thesis
        by (simp add: legend_step_def lookup_color_cases(3))
          (auto split: sum.splits prod.splits simp: has_key_def)
    qed
  qed
qed simp

text \<open>
  The legend. For distinct range values the loop of \<^verbatim>\<open>main\<close> returns one colour for each
  value, and a value with a colour line keeps that colour; it raises \<^verbatim>\<open>IndexError\<close> exactly
  when there are more values without a colour line than default colours, which the first pops
  use up.
\<close>

theorem legend_colors_correct:
  assumes "distinct range_values"
  shows "case legend_colors range_values cs of
      Inl e \<Rightarrow> e = IndexError \<and>
        length (default_colors cs) < length (filter (\<lambda>v. \<not> has_key (col_map cs) v) range_values)
    | Inr (range_colors, cs') \<Rightarrow>
        length (filter (\<lambda>v. \<not> has_key (col_map cs) v) range_values) \<le> length (default_colors cs) \<and>
        range_colors = map (map_of (col_map cs')) range_values \<and> None \<notin> set range_colors \<and>
        (\<forall>k. has_key (col_map cs) k \<longrightarrow> map_of (col_map cs') k = map_of (col_map cs) k)"
  using legend_loop [OF assms, of cs "[]"]
  by (auto simp: legend_colors_def has_key_def image_iff eq_commute [of None] split: sum.splits)
    (metis option.distinct(1))

theorem legend_colors_correct_witness:
  "legend_colors [''a'', ''b'', ''c'', ''d'', ''e'', ''f'', ''g''] initial_colors = Inl IndexError \<and>
   distinct [''a'', ''b'', ''c'', ''d'', ''e'', ''f'', ''g'']"
proof -
  let ?vs = "[''a'', ''b'', ''c'', ''d'', ''e'', ''f'', ''g'']"
  have "distinct ?vs" by simp
  from legend_colors_correct [OF this, of initial_colors] show ?thesis
    by (auto simp: initial_colors_def has_key_def split: sum.splits)
qed

end
