(* ===== verification/GridDraw.thy ===== *)
theory GridDraw
  imports GridData
begin

text \<open>
  The renderers of the timeline viewer \<^verbatim>\<open>utils/grid.py\<close>: legend, timelines and scales. What
  a renderer draws is the list of the cairo operations it calls, in order. Coordinates are
  rational numbers; \<^verbatim>\<open>int()\<close> cuts towards zero. The size of a text (\<^verbatim>\<open>text_extents\<close>) depends
  on the font and is a parameter. Attributes that the code sets before it first reads them have
  an arbitrary start value.
\<close>

section \<open>Drawing operations\<close>

record text_extents =
  ext_y_bearing :: rat
  ext_width :: rat
  ext_height :: rat

type_synonym extents = "string \<Rightarrow> text_extents"

datatype draw_op =
    Rectangle rat rat rat rat
  | SetSourceRgb rat rat rat
  | SetLineWidth rat
  | SetOperatorSource
  | StrokePreserve
  | Stroke
  | Fill
  | MoveTo rat rat
  | LineTo rat rat
  | RelLineTo rat rat
  | ClosePath
  | ShowText string
  | SetDash rat
  | Translate rat rat
  | Save
  | Restore
  | Clip
  | Paint

definition py_int :: "rat \<Rightarrow> int" where
  "py_int r = (if 0 \<le> r then \<lfloor>r\<rfloor> else \<lceil>r\<rceil>)"

definition py_div :: "rat \<Rightarrow> rat \<Rightarrow> rat result" where
  "py_div a b = (if b = 0 then Inl ZeroDivisionError else Inr (a / b))"

text \<open>\<^verbatim>\<open>a % b\<close> for a positive \<^verbatim>\<open>b\<close>\<close>

definition py_mod :: "rat \<Rightarrow> rat \<Rightarrow> rat" where
  "py_mod a b = a - b * of_int \<lfloor>a / b\<rfloor>"

definition alphabet :: string where
  "alphabet = ''ABCDEFGHIJKLMNOPQRSTUVWXYZabcedefghijklmnopqrstuvwxyz0123456789''"

section \<open>The legend\<close>

record legend_renderer =
  lg_padding :: rat
  lg_legends :: "string list"
  lg_colors :: "color option list"
  lg_width :: rat
  lg_height :: rat

definition new_legend :: legend_renderer where
  "new_legend = \<lparr>lg_padding = 10, lg_legends = [], lg_colors = [], lg_width = 0, lg_height = 0\<rparr>"

definition set_padding :: "rat \<Rightarrow> legend_renderer \<Rightarrow> legend_renderer" where
  "set_padding padding r = r\<lparr>lg_padding := padding\<rparr>"

definition set_legends :: "string list \<Rightarrow> color option list \<Rightarrow> legend_renderer \<Rightarrow> legend_renderer" where
  "set_legends legends cols r = r\<lparr>lg_legends := legends, lg_colors := cols\<rparr>"

text \<open>The variables of the loops: \<^verbatim>\<open>line_height\<close>, \<^verbatim>\<open>total_height\<close>, \<^verbatim>\<open>line_used\<close>.\<close>

type_synonym legend_line = "rat \<times> rat \<times> rat"

definition item_width :: "extents \<Rightarrow> rat \<Rightarrow> string \<Rightarrow> rat" where
  "item_width ext padding legend = padding + padding + ext_width (ext legend) + padding"

definition item_height :: "extents \<Rightarrow> rat \<Rightarrow> string \<Rightarrow> rat" where
  "item_height ext padding legend = ext_height (ext legend) + padding"

definition place_item :: "extents \<Rightarrow> rat \<Rightarrow> rat \<Rightarrow> string \<Rightarrow> legend_line \<Rightarrow> legend_line" where
  "place_item ext padding width legend line =
     (case line of (line_height, total_height, line_used) \<Rightarrow>
        let w = item_width ext padding legend; h = item_height ext padding legend;
            line_height = (if h > line_height then h else line_height)
        in if line_used + w > width then (line_height, total_height + line_height, padding + w)
           else (line_height, total_height, line_used + w))"

definition legend_layout :: "extents \<Rightarrow> rat \<Rightarrow> legend_renderer \<Rightarrow> legend_renderer" where
  "legend_layout ext width r =
     (case fold (place_item ext (lg_padding r) width) (lg_legends r) (0, lg_padding r, lg_padding r) of
        (line_height, total_height, line_used) \<Rightarrow>
          r\<lparr>lg_width := width, lg_height := total_height + line_height\<rparr>)"

definition draw_item :: "extents \<Rightarrow> rat \<Rightarrow> string \<Rightarrow> color \<Rightarrow> rat \<Rightarrow> rat \<Rightarrow> draw_op list" where
  "draw_item ext padding legend c x y =
     [Rectangle x y padding padding, SetSourceRgb 0 0 0, SetLineWidth 2, StrokePreserve,
      SetSourceRgb (red c) (green c) (blue c), Fill,
      MoveTo (x + padding * 2) (y + ext_height (ext legend)), SetSourceRgb 0 0 0, ShowText legend]"

text \<open>
  The loop of \<^verbatim>\<open>draw\<close>: \<^verbatim>\<open>self.__colors[i]\<close> raises \<^verbatim>\<open>IndexError\<close> past the end of the
  list, the attribute of \<^verbatim>\<open>None\<close> raises \<^verbatim>\<open>AttributeError\<close>.
\<close>

fun legend_draw_loop :: "extents \<Rightarrow> rat \<Rightarrow> rat \<Rightarrow> string list \<Rightarrow> color option list \<Rightarrow> legend_line \<Rightarrow> draw_op list result" where
  "legend_draw_loop ext padding width [] cols line = Inr []"
| "legend_draw_loop ext padding width (legend # legends) [] line = Inl IndexError"
| "legend_draw_loop ext padding width (legend # legends) (None # cols) line = Inl AttributeError"
| "legend_draw_loop ext padding width (legend # legends) (Some c # cols) line =
     (case place_item ext padding width legend line of
        (line_height, total_height, line_used) \<Rightarrow>
          let x = line_used - item_width ext padding legend in
          rbind (legend_draw_loop ext padding width legends cols (line_height, total_height, line_used)) (\<lambda>ops.
            Inr (draw_item ext padding legend c x total_height @ ops)))"

definition legend_draw :: "extents \<Rightarrow> legend_renderer \<Rightarrow> draw_op list result" where
  "legend_draw ext r =
     legend_draw_loop ext (lg_padding r) (lg_width r) (lg_legends r) (lg_colors r) (0, lg_padding r, lg_padding r)"

section \<open>The timelines\<close>

record timelines_renderer =
  tr_padding :: rat
  tr_timelines :: timelines
  tr_colors :: colors
  tr_start :: rat
  tr_end :: rat
  left_width :: rat
  right_width :: rat
  max_text_height :: rat
  tr_width :: rat
  tr_height :: rat

definition new_timelines_renderer :: "timelines \<Rightarrow> colors \<Rightarrow> timelines_renderer" where
  "new_timelines_renderer ts cs =
     \<lparr>tr_padding = 10, tr_timelines = ts, tr_colors = cs, tr_start = 0, tr_end = 0, left_width = 0,
      right_width = 0, max_text_height = 0, tr_width = 0, tr_height = 0\<rparr>"

definition set_render_range :: "rat \<Rightarrow> rat \<Rightarrow> timelines_renderer \<Rightarrow> timelines_renderer" where
  "set_render_range start stop r = r\<lparr>tr_start := start, tr_end := stop\<rparr>"

definition get_data_x_start :: "timelines_renderer \<Rightarrow> rat" where
  "get_data_x_start r = tr_padding r / 2 + left_width r + tr_padding r + right_width r + tr_padding r / 2"

text \<open>The names in the second column of a timeline, in the order of the layout loop.\<close>

definition row_names :: "timeline \<Rightarrow> string list" where
  "row_names t = map tdr_name (tl_ranges t) @ map te_name (tl_event_int t) @ map te_name (tl_event_str t)"

definition widest :: "extents \<Rightarrow> string list \<Rightarrow> rat" where
  "widest ext names = foldl (\<lambda>w s. max w (ext_width (ext s))) 0 names"

definition range_n :: "timelines \<Rightarrow> nat" where
  "range_n ts = sum_list (map (\<lambda>t. length (tl_ranges t)) ts)"

definition eventint_n :: "timelines \<Rightarrow> nat" where
  "eventint_n ts = sum_list (map (\<lambda>t. length (tl_event_int t)) ts)"

definition eventstr_n :: "timelines \<Rightarrow> nat" where
  "eventstr_n ts = sum_list (map (\<lambda>t. length (tl_event_str t)) ts)"

definition timelines_layout :: "extents \<Rightarrow> rat \<Rightarrow> timelines_renderer \<Rightarrow> timelines_renderer" where
  "timelines_layout ext width r =
     (let ts = tr_timelines r;
          mth = ext_height (ext alphabet);
          left_n_lines = of_nat (length ts);
          events_n = of_nat (eventint_n ts + eventstr_n ts);
          right_n_lines = of_nat (range_n ts) + events_n;
          left_height = left_n_lines * mth + (left_n_lines - 1) * tr_padding r;
          right_height = (right_n_lines - 1) * tr_padding r + right_n_lines * mth;
          right_data_height = events_n * (mth + 5) + of_nat (range_n ts) * 10 + (right_n_lines - 1) * tr_padding r;
          height = max (max left_height right_height) right_data_height
      in r\<lparr>left_width := widest ext (map tl_name ts),
           right_width := widest ext (concat (map row_names ts)),
           max_text_height := mth, tr_width := width, tr_height := height + tr_padding r\<rparr>)"

definition draw_line :: "rat \<Rightarrow> rat \<Rightarrow> rat \<Rightarrow> rat \<Rightarrow> draw_op list" where
  "draw_line x y width height =
     [MoveTo x y, RelLineTo width height, ClosePath, SetOperatorSource, SetLineWidth 1, SetSourceRgb 0 0 0, Stroke]"

text \<open>The background of every second row.\<close>

definition grey_row :: "timelines_renderer \<Rightarrow> nat \<Rightarrow> rat \<Rightarrow> rat \<Rightarrow> rat \<Rightarrow> rat \<Rightarrow> draw_op list" where
  "grey_row r grey x y width height =
     (if grey mod 2 = 0
      then [Rectangle x (y - tr_padding r / 2) width (height + tr_padding r), SetSourceRgb (9/10) (9/10) (9/10), Fill]
      else [])"

text \<open>\<^verbatim>\<open>int(x + (t - self.start) * width / (self.end - self.start))\<close>\<close>

definition pixel :: "timelines_renderer \<Rightarrow> rat \<Rightarrow> rat \<Rightarrow> rat \<Rightarrow> int result" where
  "pixel r x width t =
     rbind (py_div ((t - tr_start r) * width) (tr_end r - tr_start r)) (\<lambda>d. Inr (py_int (x + d)))"

fun events_loop :: "('v \<Rightarrow> string) \<Rightarrow> timelines_renderer \<Rightarrow> rat \<Rightarrow> rat \<Rightarrow> rat \<Rightarrow> 'v event list \<Rightarrow> int \<Rightarrow> draw_op list result" where
  "events_loop str r x y width [] last_x_drawn = Inr []"
| "events_loop str r x y width (ev # evs) last_x_drawn =
     rbind (pixel r x width (ev_at ev)) (\<lambda>real_x.
       if real_x > last_x_drawn + 2 then
         rbind (events_loop str r x y width evs real_x) (\<lambda>ops.
           Inr ([Rectangle (of_int real_x) y 1 1, SetSourceRgb 1 0 0, Stroke,
                 MoveTo (of_int real_x) (y + max_text_height r), SetSourceRgb 0 0 0, ShowText (str (ev_value ev))] @ ops))
       else events_loop str r x y width evs last_x_drawn)"

definition draw_events :: "('v \<Rightarrow> string) \<Rightarrow> timelines_renderer \<Rightarrow> 'v timeline_event \<Rightarrow> nat \<Rightarrow> rat \<Rightarrow> rat \<Rightarrow> rat \<Rightarrow> rat \<Rightarrow> draw_op list result" where
  "draw_events str r evs grey x y width height =
     rbind (get_events_bounds evs (tr_start r) (tr_end r)) (\<lambda>(lo, hi).
     rbind (events_loop str r x y width (py_slice (te_events evs) lo hi) (py_int x)) (\<lambda>ops.
       Inr (grey_row r grey x y width height @ ops)))"

text \<open>The loop of \<^verbatim>\<open>draw_ranges\<close>; \<^verbatim>\<open>colors.lookup\<close> changes the colours.\<close>

fun ranges_loop :: "timelines_renderer \<Rightarrow> rat \<Rightarrow> rat \<Rightarrow> rat \<Rightarrow> data_range list \<Rightarrow> int \<Rightarrow> colors \<Rightarrow> (draw_op list \<times> colors) result" where
  "ranges_loop r x y width [] last_x_drawn cs = Inr ([], cs)"
| "ranges_loop r x y width (rg # rgs) last_x_drawn cs =
     rbind (pixel r x width (max (r_start rg) (tr_start r))) (\<lambda>x_start.
     rbind (pixel r x width (min (r_end rg) (tr_end r))) (\<lambda>x_end.
       if x_end > last_x_drawn then
         rbind (lookup_color (r_value rg) cs) (\<lambda>(c, cs).
         case c of
           None \<Rightarrow> Inl AttributeError
         | Some c \<Rightarrow>
             rbind (ranges_loop r x y width rgs x_end cs) (\<lambda>(ops, cs).
               Inr ([Rectangle (of_int x_start) y (of_int (x_end - x_start)) 10, SetSourceRgb 0 0 0, StrokePreserve,
                     SetSourceRgb (red c) (green c) (blue c), Fill] @ ops, cs)))
       else ranges_loop r x y width rgs last_x_drawn cs))"

definition draw_ranges :: "timelines_renderer \<Rightarrow> timeline_data_range \<Rightarrow> nat \<Rightarrow> rat \<Rightarrow> rat \<Rightarrow> rat \<Rightarrow> rat \<Rightarrow> colors \<Rightarrow> (draw_op list \<times> colors) result" where
  "draw_ranges r rgs grey x y width height cs =
     rbind (get_ranges_bounds rgs (tr_start r) (tr_end r)) (\<lambda>(lo, hi).
     rbind (ranges_loop r x y width (py_slice (tdr_ranges rgs) lo hi) (py_int (x - 1)) cs) (\<lambda>(ops, cs).
       Inr (grey_row r grey x y width height @ ops, cs)))"

text \<open>
  \<^verbatim>\<open>draw\<close>: the state of its loops is \<^verbatim>\<open>cur_y\<close>, \<^verbatim>\<open>grey_background\<close>, the colours and what
  is drawn so far.
\<close>

record draw_state =
  cur_y :: rat
  grey_background :: nat
  st_colors :: colors
  ops :: "draw_op list"

definition emit :: "draw_op list \<Rightarrow> draw_state \<Rightarrow> draw_state" where
  "emit new s = s\<lparr>ops := ops s @ new\<rparr>"

definition show_name :: "extents \<Rightarrow> timelines_renderer \<Rightarrow> rat \<Rightarrow> string \<Rightarrow> draw_state \<Rightarrow> draw_state" where
  "show_name ext r x name s =
     emit [MoveTo x (cur_y s + max_text_height r - (ext_height (ext name) + ext_y_bearing (ext name))), ShowText name] s"

text \<open>The end of a row: the next one starts \<^verbatim>\<open>step\<close> below, under a separating line.\<close>

definition end_row :: "timelines_renderer \<Rightarrow> rat \<Rightarrow> rat \<Rightarrow> draw_state \<Rightarrow> draw_state" where
  "end_row r right_x_start step s =
     (let s = s\<lparr>cur_y := cur_y s + step, grey_background := grey_background s + 1\<rparr> in
      emit (draw_line (right_x_start - tr_padding r / 2) (cur_y s - tr_padding r / 2) (right_width r + tr_padding r) 0) s)"

definition events_row :: "extents \<Rightarrow> ('v \<Rightarrow> string) \<Rightarrow> timelines_renderer \<Rightarrow> rat \<Rightarrow> rat \<Rightarrow> rat \<Rightarrow> draw_state \<Rightarrow> 'v timeline_event \<Rightarrow> draw_state result" where
  "events_row ext str r right_x_start data_x_start data_width s evs =
     (let s = show_name ext r right_x_start (te_name evs) s in
      rbind (draw_events str r evs (grey_background s) data_x_start (cur_y s) data_width (max_text_height r + 5)) (\<lambda>new.
        Inr (end_row r right_x_start (max_text_height r + 5 + tr_padding r) (emit new s))))"

definition ranges_row :: "extents \<Rightarrow> timelines_renderer \<Rightarrow> rat \<Rightarrow> rat \<Rightarrow> rat \<Rightarrow> draw_state \<Rightarrow> timeline_data_range \<Rightarrow> draw_state result" where
  "ranges_row ext r right_x_start data_x_start data_width s rgs =
     (let s = show_name ext r right_x_start (tdr_name rgs) s in
      rbind (draw_ranges r rgs (grey_background s) data_x_start (cur_y s) data_width 10 (st_colors s)) (\<lambda>(new, cs).
        Inr (end_row r right_x_start (max_text_height r + tr_padding r) (emit new (s\<lparr>st_colors := cs\<rparr>)))))"

definition draw_timeline :: "extents \<Rightarrow> timelines_renderer \<Rightarrow> draw_state \<Rightarrow> timeline \<Rightarrow> draw_state result" where
  "draw_timeline ext r s t =
     (let left_x_start = tr_padding r / 2;
          right_x_start = left_x_start + left_width r + tr_padding r;
          data_x_start = right_x_start + right_width r + tr_padding r / 2;
          data_width = tr_width r - data_x_start
      in rbind (for_each (events_row ext show_int r right_x_start data_x_start data_width) (tl_event_int t)
                 (show_name ext r left_x_start (tl_name t) s)) (\<lambda>s.
         rbind (for_each (events_row ext (\<lambda>v. v) r right_x_start data_x_start data_width) (tl_event_str t) s) (\<lambda>s.
         rbind (for_each (ranges_row ext r right_x_start data_x_start data_width) (tl_ranges t) s) (\<lambda>s.
           Inr (emit (draw_line 0 (cur_y s - tr_padding r / 2) (tr_width r) 0) s)))))"

definition timelines_draw :: "extents \<Rightarrow> timelines_renderer \<Rightarrow> draw_state result" where
  "timelines_draw ext r =
     rbind (for_each (draw_timeline ext r) (tr_timelines r)
             \<lparr>cur_y = tr_padding r / 2, grey_background = 1, st_colors = tr_colors r,
              ops = draw_line 0 0 (tr_width r) 0\<rparr>) (\<lambda>s.
       let left_x_end = tr_padding r / 2 + left_width r;
           right_x_end = left_x_end + tr_padding r + right_width r;
           bot_y = cur_y s - tr_padding r / 2
       in Inr (emit (draw_line (left_x_end + tr_padding r / 2) 0 0 bot_y @
                     draw_line (right_x_end + tr_padding r / 2) 0 0 bot_y) s))"

section \<open>The scales\<close>

record scale_renderer =
  sc_top :: bool
  sc_lo :: rat
  sc_hi :: rat
  sc_delta :: rat
  sc_width :: rat
  sc_height :: rat

definition new_scale :: scale_renderer where
  "new_scale = \<lparr>sc_top = False, sc_lo = 0, sc_hi = 0, sc_delta = 1, sc_width = 0, sc_height = 0\<rparr>"

definition set_bounds :: "rat \<Rightarrow> rat \<Rightarrow> scale_renderer \<Rightarrow> scale_renderer" where
  "set_bounds lo hi s = s\<lparr>sc_lo := lo, sc_hi := hi\<rparr>"

definition set_top :: "scale_renderer \<Rightarrow> scale_renderer" where
  "set_top s = s\<lparr>sc_top := True\<rparr>"

definition set_bot :: "scale_renderer \<Rightarrow> scale_renderer" where
  "set_bot s = s\<lparr>sc_top := False\<rparr>"

definition get_position :: "scale_renderer \<Rightarrow> rat \<Rightarrow> rat result" where
  "get_position s x = py_div ((x - sc_lo s) * sc_width s) (sc_hi s - sc_lo s)"

text \<open>\<^verbatim>\<open>while (closest*10) < data_delta: closest *= 10\<close>\<close>

function closest_loop :: "rat \<Rightarrow> nat \<Rightarrow> nat" where
  "closest_loop data_delta closest =
     (if 0 < closest \<and> of_nat (closest * 10) < data_delta then closest_loop data_delta (closest * 10) else closest)"
  by pat_completeness auto
termination
proof (relation "measure (\<lambda>(d, c). nat \<lceil>d\<rceil> - c)", goal_cases)
  case (2 d c)
  then have "of_nat (c * 10) < d" "0 < c" by auto
  then have "int (c * 10) < \<lceil>d\<rceil>" by (simp add: less_ceiling_iff)
  with \<open>0 < c\<close> show ?case by simp
qed simp

declare closest_loop.simps [simp del]

definition scale_delta :: "rat \<Rightarrow> rat" where
  "scale_delta data_delta =
     (let closest = of_nat (closest_loop data_delta 1) in
      if data_delta / closest = 0 then closest
      else if data_delta / closest = 1 then closest / 10
      else closest)"

definition scale_layout :: "extents \<Rightarrow> rat \<Rightarrow> scale_renderer \<Rightarrow> scale_renderer" where
  "scale_layout ext width s =
     s\<lparr>sc_delta := scale_delta (sc_hi s - sc_lo s), sc_width := width, sc_height := ext_height (ext alphabet) + 10\<rparr>"

text \<open>\<^verbatim>\<open>range(int(start), int(end + delta), int(delta))\<close>, a \<^verbatim>\<open>ValueError\<close> for the step zero.\<close>

definition py_range :: "int \<Rightarrow> int \<Rightarrow> int \<Rightarrow> int list result" where
  "py_range a b step =
     (if step = 0 then Inl ValueError
      else if step > 0 then Inr (map (\<lambda>k. a + int k * step) [0..<nat ((b - a + step - 1) div step)])
      else Inr (map (\<lambda>k. a + int k * step) [0..<nat ((a - b - step - 1) div (- step))]))"

definition ticks :: "scale_renderer \<Rightarrow> rat \<Rightarrow> int list result" where
  "ticks s delta =
     (let start = sc_lo s - py_mod (sc_lo s) delta + delta; stop = sc_hi s - py_mod (sc_hi s) delta in
      py_range (py_int start) (py_int (stop + delta)) (py_int delta))"

definition sign :: "scale_renderer \<Rightarrow> rat" where
  "sign s = (if sc_top s then -1 else 1)"

definition draw_tick :: "extents \<Rightarrow> scale_renderer \<Rightarrow> int \<Rightarrow> draw_op list result" where
  "draw_tick ext s x =
     rbind (get_position s (of_int x)) (\<lambda>real_x.
       let e = ext (show_int x);
           text_delta = (if sc_top s then ext_height e + ext_y_bearing e else - ext_y_bearing e)
       in Inr [MoveTo real_x 0, LineTo real_x (5 * sign s), ClosePath, Stroke,
               MoveTo (real_x - ext_width e / 2) ((5 + 5 + text_delta) * sign s), ShowText (show_int x)])"

definition draw_subtick :: "scale_renderer \<Rightarrow> int \<Rightarrow> draw_op list result" where
  "draw_subtick s x =
     rbind (get_position s (of_int x)) (\<lambda>real_x.
       Inr [MoveTo real_x 0, LineTo real_x (3 * sign s), ClosePath, Stroke])"

definition scale_draw :: "extents \<Rightarrow> scale_renderer \<Rightarrow> draw_op list result" where
  "scale_draw ext s =
     rbind (ticks s (sc_delta s)) (\<lambda>xs.
     rbind (map_res (draw_tick ext s) xs) (\<lambda>big.
       let delta = sc_delta s / 10 in
       rbind (if 0 < delta then rbind (ticks s delta) (map_res (draw_subtick s)) else Inr []) (\<lambda>small.
         Inr ([SetSourceRgb 0 0 0, SetLineWidth 1] @ concat big @ concat small))))"

section \<open>The legend fits its area\<close>

text \<open>The boxes of the items: their names with the upper left corners that \<^verbatim>\<open>draw\<close> computes.\<close>

fun legend_boxes :: "extents \<Rightarrow> rat \<Rightarrow> rat \<Rightarrow> string list \<Rightarrow> legend_line \<Rightarrow> (string \<times> rat \<times> rat) list" where
  "legend_boxes ext p width [] line = []"
| "legend_boxes ext p width (l # ls) line =
     (case place_item ext p width l line of
        (lh, th, lu) \<Rightarrow> (l, lu - item_width ext p l, th) # legend_boxes ext p width ls (lh, th, lu))"

definition sizes_ok :: "extents \<Rightarrow> bool" where
  "sizes_ok ext = (\<forall>s. 0 \<le> ext_width (ext s) \<and> 0 \<le> ext_height (ext s))"

definition box_within :: "extents \<Rightarrow> rat \<Rightarrow> rat \<Rightarrow> rat \<Rightarrow> string \<times> rat \<times> rat \<Rightarrow> bool" where
  "box_within ext p width height b =
     (case b of (l, x, y) \<Rightarrow>
        p \<le> x \<and> p \<le> y \<and> y + item_height ext p l \<le> height \<and> (x = p \<or> x + item_width ext p l \<le> width))"

text \<open>A box is left of a later box on the same line, or above it.\<close>

definition box_before :: "extents \<Rightarrow> rat \<Rightarrow> string \<times> rat \<times> rat \<Rightarrow> string \<times> rat \<times> rat \<Rightarrow> bool" where
  "box_before ext p b b' =
     (case b of (l, x, y) \<Rightarrow> case b' of (l', x', y') \<Rightarrow>
        y = y' \<and> x + item_width ext p l \<le> x' \<or> y + item_height ext p l \<le> y')"

lemma place_item_bounds:
  assumes "sizes_ok ext" "0 \<le> p" "0 \<le> lh" "p \<le> lu" "place_item ext p width l (lh, th, lu) = (lh', th', lu')"
  shows "lh \<le> lh'" "item_height ext p l \<le> lh'" "p \<le> lu' - item_width ext p l"
    "th' = th \<and> lu' - item_width ext p l = lu \<and> lu' \<le> width \<or> th' = th + lh' \<and> lu' - item_width ext p l = p"
  using assms by (auto simp: place_item_def Let_def split: if_splits)

lemma legend_boxes_bounds:
  assumes "sizes_ok ext" "0 \<le> p" "0 \<le> lh" "p \<le> lu"
    and "fold (place_item ext p width) ls (lh, th, lu) = (lh1, th1, lu1)"
  shows "lh \<le> lh1 \<and> th \<le> th1 \<and>
    (\<forall>(l, x, y) \<in> set (legend_boxes ext p width ls (lh, th, lu)).
       p \<le> x \<and> (y = th \<and> lu \<le> x \<or> th + lh \<le> y) \<and> y + item_height ext p l \<le> th1 + lh1 \<and>
       (x = p \<or> x + item_width ext p l \<le> width))"
  using assms
proof (induction ls arbitrary: lh th lu)
  case (Cons l ls)
  obtain lh' th' lu' where pl: "place_item ext p width l (lh, th, lu) = (lh', th', lu')"
    by (metis prod_cases3)
  note b = place_item_bounds [OF Cons.prems(1-4) pl]
  have w: "0 \<le> item_width ext p l" "0 \<le> item_height ext p l"
    using Cons.prems(1,2) by (simp_all add: sizes_ok_def item_width_def item_height_def)
  have lh': "0 \<le> lh'" and lu': "p \<le> lu'" using b Cons.prems(3) w by linarith+
  have IH: "lh' \<le> lh1 \<and> th' \<le> th1 \<and>
    (\<forall>(l, x, y) \<in> set (legend_boxes ext p width ls (lh', th', lu')).
       p \<le> x \<and> (y = th' \<and> lu' \<le> x \<or> th' + lh' \<le> y) \<and> y + item_height ext p l \<le> th1 + lh1 \<and>
       (x = p \<or> x + item_width ext p l \<le> width))"
    using Cons.IH [OF Cons.prems(1,2) lh' lu'] Cons.prems(5) pl by simp
  have th: "th \<le> th'" "lh' \<le> lh1" "th' \<le> th1" using b(4) lh' IH by auto
  show ?case
  proof (intro conjI ballI)
    show "lh \<le> lh1" "th \<le> th1" using th b(1) by linarith+
    fix bx assume "bx \<in> set (legend_boxes ext p width (l # ls) (lh, th, lu))"
    then consider "bx = (l, lu' - item_width ext p l, th')" | "bx \<in> set (legend_boxes ext p width ls (lh', th', lu'))"
      by (auto simp: pl)
    then show "case bx of (l, x, y) \<Rightarrow>
       p \<le> x \<and> (y = th \<and> lu \<le> x \<or> th + lh \<le> y) \<and> y + item_height ext p l \<le> th1 + lh1 \<and>
       (x = p \<or> x + item_width ext p l \<le> width)"
    proof cases
      case 1
      with b th show ?thesis by auto
    next
      case 2
      with IH b th w show ?thesis by fastforce
    qed
  qed
qed simp

lemma legend_boxes_before:
  assumes "sizes_ok ext" "0 \<le> p" "0 \<le> lh" "p \<le> lu"
  shows "sorted_wrt (box_before ext p) (legend_boxes ext p width ls (lh, th, lu))"
  using assms
proof (induction ls arbitrary: lh th lu)
  case (Cons l ls)
  obtain lh' th' lu' where pl: "place_item ext p width l (lh, th, lu) = (lh', th', lu')"
    by (metis prod_cases3)
  note b = place_item_bounds [OF Cons.prems pl]
  have w: "0 \<le> item_width ext p l"
    using Cons.prems(1,2) by (simp add: sizes_ok_def item_width_def)
  have lh': "0 \<le> lh'" and lu': "p \<le> lu'" using b Cons.prems(3) w by linarith+
  obtain lh1 th1 lu1 where f: "fold (place_item ext p width) ls (lh', th', lu') = (lh1, th1, lu1)"
    by (metis prod_cases3)
  have "box_before ext p (l, lu' - item_width ext p l, th') bx"
    if "bx \<in> set (legend_boxes ext p width ls (lh', th', lu'))" for bx
    using legend_boxes_bounds [OF Cons.prems(1,2) lh' lu' f] that b(2)
    by (fastforce simp: box_before_def)
  with Cons.IH [OF Cons.prems(1,2) lh' lu'] show ?case by (simp add: pl)
qed simp

lemma legend_draw_loop_boxes:
  assumes "length ls = length cs"
  shows "legend_draw_loop ext p width ls (map Some cs) line =
    Inr (concat (map (\<lambda>((l, x, y), c). draw_item ext p l c x y) (zip (legend_boxes ext p width ls line) cs)))"
  using assms
  by (induction ls cs arbitrary: line rule: list_induct2) (auto simp: Let_def split: prod.splits)

text \<open>
  The legend. With as many colours as names and texts of non-negative size, the legend is
  drawn without an exception; \<^verbatim>\<open>draw\<close> repeats the placement of \<^verbatim>\<open>layout\<close>, so every item lies
  within the height that \<^verbatim>\<open>layout\<close> reserved, and within the width unless it is the first of its
  line, and no item overlaps an earlier one.
\<close>

theorem legend_fits:
  assumes "sizes_ok ext" "0 \<le> lg_padding r" "lg_colors r = map Some cs" "length cs = length (lg_legends r)"
  shows "\<exists>boxes. map fst boxes = lg_legends r \<and>
     legend_draw ext (legend_layout ext width r) =
       Inr (concat (map (\<lambda>((l, x, y), c). draw_item ext (lg_padding r) l c x y) (zip boxes cs))) \<and>
     list_all (box_within ext (lg_padding r) width (lg_height (legend_layout ext width r))) boxes \<and>
     sorted_wrt (box_before ext (lg_padding r)) boxes"
proof -
  let ?p = "lg_padding r" and ?l0 = "(0, lg_padding r, lg_padding r)"
  let ?boxes = "legend_boxes ext ?p width (lg_legends r) ?l0"
  obtain lh th lu where f: "fold (place_item ext ?p width) (lg_legends r) ?l0 = (lh, th, lu)"
    by (metis prod_cases3)
  have lay: "legend_layout ext width r = r\<lparr>lg_width := width, lg_height := th + lh\<rparr>"
    using f by (simp add: legend_layout_def)
  have "map fst (legend_boxes ext ?p width ls line) = ls" for ls line
    by (induction ls arbitrary: line) (auto split: prod.splits)
  moreover have "legend_draw ext (legend_layout ext width r) =
      Inr (concat (map (\<lambda>((l, x, y), c). draw_item ext ?p l c x y) (zip ?boxes cs)))"
    using assms(3,4) by (simp add: legend_draw_def lay legend_draw_loop_boxes)
  moreover have "list_all (box_within ext ?p width (th + lh)) ?boxes"
    using legend_boxes_bounds [OF assms(1,2) _ _ f] assms(2)
    by (fastforce simp: list_all_iff box_within_def)
  moreover have "sorted_wrt (box_before ext ?p) ?boxes"
    by (rule legend_boxes_before [OF assms(1,2)]) simp_all
  ultimately show ?thesis by (intro exI [of _ ?boxes]) (simp add: lay)
qed

definition demo_extents :: extents where
  "demo_extents s = \<lparr>ext_y_bearing = -9, ext_width = 7 * of_nat (length s), ext_height = 12\<rparr>"

definition demo_legend :: legend_renderer where
  "demo_legend = set_legends [''up'', ''down''] [Some (rgb 1 0 0), Some (rgb 0 1 0)] new_legend"

lemma demo_sizes_ok: "sizes_ok demo_extents"
  by (simp add: sizes_ok_def demo_extents_def)

theorem legend_fits_witness:
  "\<exists>boxes. map fst boxes = [''up'', ''down''] \<and>
     list_all (box_within demo_extents 10 60 (lg_height (legend_layout demo_extents 60 demo_legend))) boxes"
proof -
  have f: "lg_padding demo_legend = 10" "lg_legends demo_legend = [''up'', ''down'']"
    "lg_colors demo_legend = map Some [rgb 1 0 0, rgb 0 1 0]"
    by (simp_all add: demo_legend_def set_legends_def new_legend_def)
  have g: "0 \<le> lg_padding demo_legend" "length [rgb 1 0 0, rgb 0 1 0] = length (lg_legends demo_legend)"
    by (simp_all add: f(1,2))
  from legend_fits [OF demo_sizes_ok g(1) f(3) g(2), of 60] obtain boxes where
    "map fst boxes = [''up'', ''down'']"
    "list_all (box_within demo_extents 10 60 (lg_height (legend_layout demo_extents 60 demo_legend))) boxes"
    unfolding f(1,2) by (elim exE conjE) (rule that)
  then show ?thesis by (intro exI conjI)
qed

section \<open>The rows and the height reserved for them\<close>

lemma cur_y_emit [simp]: "cur_y (emit new s) = cur_y s"
  by (simp add: emit_def)

lemma cur_y_show_name [simp]: "cur_y (show_name ext r x n s) = cur_y s"
  by (simp add: show_name_def)

lemma cur_y_end_row [simp]: "cur_y (end_row r x step s) = cur_y s + step"
  by (simp add: end_row_def Let_def)

lemma events_row_cur_y:
  "events_row ext str r rx dx dw s evs = Inr s' \<Longrightarrow> cur_y s' = cur_y s + (max_text_height r + 5 + tr_padding r)"
  by (auto simp: events_row_def Let_def rbind_eq_Inr)

lemma ranges_row_cur_y:
  "ranges_row ext r rx dx dw s rgs = Inr s' \<Longrightarrow> cur_y s' = cur_y s + (max_text_height r + tr_padding r)"
  by (auto simp: ranges_row_def Let_def rbind_eq_Inr)

text \<open>A loop whose body moves down by a fixed step.\<close>

lemma for_each_cur_y:
  assumes "for_each body xs s = Inr s'" and "\<And>s x s'. x \<in> set xs \<Longrightarrow> body s x = Inr s' \<Longrightarrow> cur_y s' = cur_y s + step x"
  shows "cur_y s' = cur_y s + sum_list (map step xs)"
  using assms
proof (induction xs arbitrary: s)
  case (Cons x xs)
  from Cons.prems(1) obtain t where "body s x = Inr t" "for_each body xs t = Inr s'"
    by (auto simp: rbind_eq_Inr)
  with Cons.IH [of t] Cons.prems(2) show ?case by fastforce
qed simp

definition rows_height :: "timelines_renderer \<Rightarrow> nat \<Rightarrow> nat \<Rightarrow> rat" where
  "rows_height r events ranges =
     of_nat events * (max_text_height r + 5 + tr_padding r) + of_nat ranges * (max_text_height r + tr_padding r)"

lemma draw_timeline_cur_y:
  assumes "draw_timeline ext r s t = Inr s'"
  shows "cur_y s' = cur_y s + rows_height r (length (tl_event_int t) + length (tl_event_str t)) (length (tl_ranges t))"
proof -
  from assms obtain s1 s2 s3 rx dx dw where
    1: "for_each (events_row ext show_int r rx dx dw) (tl_event_int t) (show_name ext r (tr_padding r / 2) (tl_name t) s) = Inr s1"
    and 2: "for_each (events_row ext (\<lambda>v. v) r rx dx dw) (tl_event_str t) s1 = Inr s2"
    and 3: "for_each (ranges_row ext r rx dx dw) (tl_ranges t) s2 = Inr s3"
    and 4: "cur_y s' = cur_y s3"
    by (auto simp: draw_timeline_def Let_def rbind_eq_Inr)
  have "cur_y s1 = cur_y s + of_nat (length (tl_event_int t)) * (max_text_height r + 5 + tr_padding r)"
    using for_each_cur_y [OF 1, of "\<lambda>_. max_text_height r + 5 + tr_padding r"] events_row_cur_y [of ext show_int r rx dx dw]
    by (simp add: sum_list_triv)
  moreover have "cur_y s2 = cur_y s1 + of_nat (length (tl_event_str t)) * (max_text_height r + 5 + tr_padding r)"
    using for_each_cur_y [OF 2, of "\<lambda>_. max_text_height r + 5 + tr_padding r"] events_row_cur_y [of ext "\<lambda>v. v" r rx dx dw]
    by (simp add: sum_list_triv)
  moreover have "cur_y s3 = cur_y s2 + of_nat (length (tl_ranges t)) * (max_text_height r + tr_padding r)"
    using for_each_cur_y [OF 3, of "\<lambda>_. max_text_height r + tr_padding r"] ranges_row_cur_y [of ext r rx dx dw]
    by (simp add: sum_list_triv)
  ultimately show ?thesis using 4 by (simp add: rows_height_def algebra_simps)
qed

lemma rows_height_sum:
  "sum_list (map (\<lambda>t. rows_height r (length (tl_event_int t) + length (tl_event_str t)) (length (tl_ranges t))) ts) =
   rows_height r (eventint_n ts + eventstr_n ts) (range_n ts)"
  by (induction ts) (simp_all add: rows_height_def eventint_n_def eventstr_n_def range_n_def algebra_simps)

text \<open>Every timeline has at least one row.\<close>

definition has_rows :: "timeline \<Rightarrow> bool" where
  "has_rows t = (tl_ranges t \<noteq> [] \<or> tl_event_int t \<noteq> [] \<or> tl_event_str t \<noteq> [])"

lemma timelines_le_rows:
  "list_all has_rows ts \<Longrightarrow> length ts \<le> range_n ts + (eventint_n ts + eventstr_n ts)"
proof (induction ts)
  case (Cons t ts)
  then have "1 \<le> length (tl_ranges t) + (length (tl_event_int t) + length (tl_event_str t))"
    by (auto simp: has_rows_def Suc_le_eq)
  with Cons show ?case by (simp add: range_n_def eventint_n_def eventstr_n_def)
qed simp

lemma max3_less: "max (max a b) c + p < (d :: rat) \<longleftrightarrow> a + p < d \<and> b + p < d \<and> c + p < d"
  by linarith

text \<open>
  The rows against the height that \<^verbatim>\<open>layout\<close> reserves. When the timelines are drawn, the
  last row ends at the sum of the heights of the rows; this lies below the reserved area exactly
  when there are rows of events and rows of ranges and the text is higher than the ten pixels of
  a range, because the reserved height counts either the text of all rows or the bars of the
  ranges, while each row takes the height of its text.
\<close>

theorem rows_exceed_layout:
  assumes "timelines_draw ext (timelines_layout ext width r0) = Inr s"
    and "list_all has_rows (tr_timelines r0)" and "0 \<le> tr_padding r0" and "0 \<le> ext_height (ext alphabet)"
  shows "let r = timelines_layout ext width r0; ts = tr_timelines r0; bottom = cur_y s - tr_padding r / 2 in
     bottom = rows_height r (eventint_n ts + eventstr_n ts) (range_n ts) \<and>
     (tr_height r < bottom \<longleftrightarrow> 0 < eventint_n ts + eventstr_n ts \<and> 0 < range_n ts \<and> 10 < max_text_height r)"
proof -
  define r where "r = timelines_layout ext width r0"
  define ts where "ts = tr_timelines r0"
  define ne where "ne = eventint_n ts + eventstr_n ts"
  define nr where "nr = range_n ts"
  define m where "m = ext_height (ext alphabet)"
  define p where "p = tr_padding r0"
  have r: "tr_timelines r = ts" "max_text_height r = m" "tr_padding r = p"
    "tr_height r = max (max (of_nat (length ts) * m + (of_nat (length ts) - 1) * p)
        ((of_nat nr + of_nat ne - 1) * p + (of_nat nr + of_nat ne) * m))
        (of_nat ne * (m + 5) + of_nat nr * 10 + (of_nat nr + of_nat ne - 1) * p) + p"
    by (simp_all add: r_def timelines_layout_def Let_def ts_def m_def p_def ne_def nr_def)
  from assms(1) obtain s1 where
    s1: "for_each (draw_timeline ext r) ts
           \<lparr>cur_y = p / 2, grey_background = 1, st_colors = tr_colors r, ops = draw_line 0 0 (tr_width r) 0\<rparr> = Inr s1"
    and s: "cur_y s = cur_y s1"
    by (auto simp: timelines_draw_def rbind_eq_Inr Let_def r_def [symmetric] r(1,3))
  have bottom: "cur_y s - p / 2 = rows_height r ne nr"
    using for_each_cur_y [OF s1, of "\<lambda>t. rows_height r (length (tl_event_int t) + length (tl_event_str t)) (length (tl_ranges t))"]
      draw_timeline_cur_y [of ext r] s
    by (simp add: rows_height_sum ne_def nr_def)
  let ?b = "of_nat ne * (m + 5 + p) + of_nat nr * (m + p)"
  have "length ts \<le> nr + ne" using timelines_le_rows assms(2) by (simp add: ts_def ne_def nr_def)
  then have "of_nat (length ts) * (m + p) \<le> (of_nat (nr + ne) :: rat) * (m + p)"
    using assms(3,4) by (intro mult_right_mono) (simp_all add: m_def p_def)
  then have left: "of_nat (length ts) * m + (of_nat (length ts) - 1) * p + p \<le>
      (of_nat nr + of_nat ne - 1) * p + (of_nat nr + of_nat ne) * m + p"
    by (simp add: algebra_simps)
  have right: "(of_nat nr + of_nat ne - 1) * p + (of_nat nr + of_nat ne) * m + p = ?b - 5 * of_nat ne"
    and data: "of_nat ne * (m + 5) + of_nat nr * 10 + (of_nat nr + of_nat ne - 1) * p + p = ?b - of_nat nr * (m - 10)"
    by (simp_all add: algebra_simps)
  have "tr_height r < ?b \<longleftrightarrow> ?b - 5 * of_nat ne < ?b \<and> ?b - of_nat nr * (m - 10) < ?b"
    using left unfolding r(4) max3_less right data by (blast intro: le_less_trans)
  also have "\<dots> \<longleftrightarrow> 0 < ne \<and> 0 < nr \<and> 10 < m"
    by (auto simp: zero_less_mult_iff)
  finally show ?thesis
    using bottom unfolding Let_def r_def [symmetric] ts_def [symmetric] ne_def [symmetric] nr_def [symmetric]
    by (simp add: rows_height_def r(2,3))
qed

section \<open>Drawing the timelines raises no exception\<close>

definition range_values_of :: "timelines \<Rightarrow> string set" where
  "range_values_of ts = {r_value r |t rs r. t \<in> set ts \<and> rs \<in> set (tl_ranges t) \<and> r \<in> set (tdr_ranges rs)}"

definition colors_known :: "colors \<Rightarrow> string set \<Rightarrow> bool" where
  "colors_known cs vs = (\<forall>v\<in>vs. map_of (col_map cs) v \<noteq> None)"

lemma pixel_returns: "tr_start r \<noteq> tr_end r \<Longrightarrow> \<exists>i. pixel r x width t = Inr i"
  by (simp add: pixel_def py_div_def)

lemma events_loop_returns:
  "tr_start r \<noteq> tr_end r \<Longrightarrow> \<exists>new. events_loop str r x y width evs lx = Inr new"
proof (induction evs arbitrary: lx)
  case (Cons ev evs)
  obtain i where "pixel r x width (ev_at ev) = Inr i" using pixel_returns Cons.prems by blast
  with Cons.IH [of i] Cons.IH [of lx] Cons.prems show ?case by auto
qed simp

lemma ranges_loop_returns:
  assumes "tr_start r \<noteq> tr_end r" "colors_known cs (r_value ` set rgs)"
  shows "\<exists>new. ranges_loop r x y width rgs lx cs = Inr (new, cs)"
  using assms(2)
proof (induction rgs arbitrary: lx)
  case (Cons rg rgs)
  obtain i j where ij: "pixel r x width (max (r_start rg) (tr_start r)) = Inr i"
    "pixel r x width (min (r_end rg) (tr_end r)) = Inr j"
    using pixel_returns [OF assms(1)] by blast
  obtain c where "map_of (col_map cs) (r_value rg) = Some c"
    using Cons.prems by (auto simp: colors_known_def)
  then have "lookup_color (r_value rg) cs = Inr (Some c, cs)"
    by (simp add: lookup_color_def has_key_def)
  moreover have "colors_known cs (r_value ` set rgs)" using Cons.prems by (simp add: colors_known_def)
  ultimately show ?case using ij Cons.IH [of j] Cons.IH [of lx] by auto
qed simp

lemma set_py_slice: "set (py_slice xs a b) \<subseteq> set xs"
  by (auto simp: py_slice_def Let_def dest: in_set_dropD in_set_takeD)

lemma st_colors_simps [simp]:
  "st_colors (emit new s) = st_colors s"
  "st_colors (show_name ext r x n s) = st_colors s"
  "st_colors (end_row r x step s) = st_colors s"
  by (simp_all add: emit_def show_name_def end_row_def Let_def)

lemma events_row_returns:
  assumes "tr_start r \<noteq> tr_end r"
  shows "\<exists>s'. events_row ext str r rx dx dw s evs = Inr s' \<and> st_colors s' = st_colors s"
proof -
  obtain lo hi where "get_events_bounds evs (tr_start r) (tr_end r) = Inr (lo, hi)"
    using window_bounds_return(2) by fastforce
  moreover obtain new where "events_loop str r dx (cur_y s) dw (py_slice (te_events evs) lo hi) (py_int dx) = Inr new"
    using events_loop_returns [OF assms] by blast
  ultimately show ?thesis by (simp add: events_row_def draw_events_def Let_def)
qed

lemma ranges_row_returns:
  assumes "tr_start r \<noteq> tr_end r" "colors_known (st_colors s) (r_value ` set (tdr_ranges rgs))"
  shows "\<exists>s'. ranges_row ext r rx dx dw s rgs = Inr s' \<and> st_colors s' = st_colors s"
proof -
  obtain lo hi where b: "get_ranges_bounds rgs (tr_start r) (tr_end r) = Inr (lo, hi)"
    using window_bounds_return(1) by fastforce
  have "colors_known (st_colors s) (r_value ` set (py_slice (tdr_ranges rgs) lo hi))"
    using assms(2) set_py_slice by (fastforce simp: colors_known_def)
  from ranges_loop_returns [OF assms(1) this] obtain new where
    "ranges_loop r dx (cur_y s) dw (py_slice (tdr_ranges rgs) lo hi) (py_int (dx - 1)) (st_colors s) = Inr (new, st_colors s)"
    by blast
  with b show ?thesis by (simp add: ranges_row_def draw_ranges_def Let_def)
qed

lemma draw_timeline_returns:
  assumes "tr_start r \<noteq> tr_end r" "colors_known (st_colors s) (range_values_of [t])"
  shows "\<exists>s'. draw_timeline ext r s t = Inr s' \<and> st_colors s' = st_colors s"
proof -
  let ?I = "\<lambda>s'. st_colors s' = st_colors s"
  let ?rx = "tr_padding r / 2 + left_width r + tr_padding r"
  let ?dx = "?rx + right_width r + tr_padding r / 2"
  let ?dw = "tr_width r - ?dx"
  let ?ints = "events_row ext show_int r ?rx ?dx ?dw" and ?strs = "events_row ext (\<lambda>v. v) r ?rx ?dx ?dw"
  let ?rngs = "ranges_row ext r ?rx ?dx ?dw"
  let ?s0 = "show_name ext r (tr_padding r / 2) (tl_name t) s"
  have ints: "\<exists>s''. ?ints s' e = Inr s'' \<and> ?I s''" if "?I s'" for s' e
    using events_row_returns [OF assms(1), of ext show_int ?rx ?dx ?dw s' e] that by simp
  have strs: "\<exists>s''. ?strs s' e = Inr s'' \<and> ?I s''" if "?I s'" for s' e
    using events_row_returns [OF assms(1), of ext "\<lambda>v. v" ?rx ?dx ?dw s' e] that by simp
  have "?I ?s0" by simp
  then obtain s1 where s1: "for_each ?ints (tl_event_int t) ?s0 = Inr s1" "?I s1"
    using for_each_total [of "tl_event_int t" ?I ?ints ?s0] ints by blast
  obtain s2 where s2: "for_each ?strs (tl_event_str t) s1 = Inr s2" "?I s2"
    using for_each_total [of "tl_event_str t" ?I ?strs s1] strs s1(2) by blast
  have "\<exists>s''. ?rngs s' rgs = Inr s'' \<and> ?I s''" if "rgs \<in> set (tl_ranges t)" "?I s'" for s' rgs
    using ranges_row_returns [OF assms(1), of s' rgs ext ?rx ?dx ?dw] assms(2) that
    by (fastforce simp: colors_known_def range_values_of_def)
  then obtain s3 where s3: "for_each ?rngs (tl_ranges t) s2 = Inr s3" "?I s3"
    using for_each_total [of "tl_ranges t" ?I ?rngs s2] s2(2) by blast
  from s1 s2 s3 show ?thesis by (simp add: draw_timeline_def Let_def)
qed

lemma timelines_draw_returns:
  assumes "tr_start r \<noteq> tr_end r" "colors_known (tr_colors r) (range_values_of (tr_timelines r))"
  shows "\<exists>s. timelines_draw ext r = Inr s \<and> st_colors s = tr_colors r"
proof -
  let ?s0 = "\<lparr>cur_y = tr_padding r / 2, grey_background = 1, st_colors = tr_colors r, ops = draw_line 0 0 (tr_width r) 0\<rparr>"
  have "\<exists>s'. draw_timeline ext r s t = Inr s' \<and> st_colors s' = tr_colors r"
    if "t \<in> set (tr_timelines r)" "st_colors s = tr_colors r" for s t
  proof -
    have "colors_known (st_colors s) (range_values_of [t])"
      using assms(2) that by (fastforce simp: colors_known_def range_values_of_def)
    from draw_timeline_returns [OF assms(1) this] that(2) show ?thesis by simp
  qed
  then obtain s1 where "for_each (draw_timeline ext r) (tr_timelines r) ?s0 = Inr s1" "st_colors s1 = tr_colors r"
    using for_each_total [of "tr_timelines r" "\<lambda>s. st_colors s = tr_colors r" "draw_timeline ext r" ?s0] by auto
  then show ?thesis by (simp add: timelines_draw_def Let_def)
qed

lemma range_values_of_all: "set (get_all_range_values ts) = range_values_of ts"
proof -
  have r: "set (dict_keys (fold (\<lambda>r. AList.update (r_value r) (1 :: int)) rs d)) = set (dict_keys d) \<union> r_value ` set rs" for rs d
    by (induction rs arbitrary: d) (auto simp: dict_keys_update has_key_iff)
  have l: "set (dict_keys (fold (\<lambda>rs. fold (\<lambda>r. AList.update (r_value r) (1 :: int)) (tdr_ranges rs)) ls d)) =
      set (dict_keys d) \<union> (\<Union>rs\<in>set ls. r_value ` set (tdr_ranges rs))" for ls d
    by (induction ls arbitrary: d) (auto simp: r)
  have "set (dict_keys (fold (\<lambda>t. fold (\<lambda>rs. fold (\<lambda>r. AList.update (r_value r) (1 :: int)) (tdr_ranges rs)) (tl_ranges t)) ts d)) =
      set (dict_keys d) \<union> (\<Union>t\<in>set ts. \<Union>rs\<in>set (tl_ranges t). r_value ` set (tdr_ranges rs))" for d
    by (induction ts arbitrary: d) (auto simp: l)
  from this [of "[]"] show ?thesis
    by (auto simp: get_all_range_values_def range_values_of_def dict_keys_def)
qed

lemma distinct_range_values: "distinct (get_all_range_values ts)"
proof -
  have r: "dict_ok d \<Longrightarrow> dict_ok (fold (\<lambda>r. AList.update (r_value r) (1 :: int)) rs d)" for rs d
    by (induction rs arbitrary: d) auto
  have l: "dict_ok d \<Longrightarrow> dict_ok (fold (\<lambda>rs. fold (\<lambda>r. AList.update (r_value r) (1 :: int)) (tdr_ranges rs)) ls d)" for ls d
    by (induction ls arbitrary: d) (auto simp: r)
  have "dict_ok d \<Longrightarrow> dict_ok (fold (\<lambda>t. fold (\<lambda>rs. fold (\<lambda>r. AList.update (r_value r) (1 :: int)) (tdr_ranges rs)) (tl_ranges t)) ts d)" for d
    by (induction ts arbitrary: d) (auto simp: l)
  from this [of "[]"] show ?thesis by (simp add: get_all_range_values_def dict_ok_def dict_keys_def)
qed

text \<open>
  Legend and timelines together. When \<^verbatim>\<open>main\<close> has found a colour for every range value,
  the timelines are drawn without an exception for every window that is not empty, whatever the
  order of the data; in particular \<^verbatim>\<open>colors.lookup\<close> never runs out of default colours while
  drawing, and the colours stay those of the legend.
\<close>

theorem timelines_draw_total:
  assumes "legend_colors (get_all_range_values ts) cs = Inr (range_colors, cs')" and "start < stop"
  shows "\<exists>s. timelines_draw ext (timelines_layout ext width (set_render_range start stop (new_timelines_renderer ts cs'))) = Inr s \<and>
     st_colors s = cs'"
proof -
  let ?r = "timelines_layout ext width (set_render_range start stop (new_timelines_renderer ts cs'))"
  have r: "tr_start ?r = start" "tr_end ?r = stop" "tr_colors ?r = cs'" "tr_timelines ?r = ts"
    by (simp_all add: timelines_layout_def set_render_range_def new_timelines_renderer_def Let_def)
  have "colors_known cs' (range_values_of ts)"
    using legend_loop [OF distinct_range_values [of ts], of cs "[]"] assms(1)
    by (simp add: legend_colors_def colors_known_def flip: range_values_of_all)
  with timelines_draw_returns [of ?r ext] assms(2) r show ?thesis by simp
qed

definition demo_timelines :: timelines where
  "demo_timelines =
     [(new_timeline ''n'')\<lparr>
        tl_ranges := [\<lparr>tdr_name = ''r'', tdr_ranges = [\<lparr>r_start = 0, r_end = 4, r_value = ''v''\<rparr>]\<rparr>],
        tl_event_int := [\<lparr>te_name = ''e'', te_events = [\<lparr>ev_at = 1, ev_value = 7\<rparr>]\<rparr>]\<rparr>]"

definition demo_renderer :: timelines_renderer where
  "demo_renderer = set_render_range 0 4 (new_timelines_renderer demo_timelines (add_color ''v'' (rgb 1 0 0) initial_colors))"

lemma demo_legend_colors:
  "get_all_range_values demo_timelines = [''v'']"
  "legend_colors [''v''] (add_color ''v'' (rgb 1 0 0) initial_colors) =
     Inr ([Some (rgb 1 0 0)], add_color ''v'' (rgb 1 0 0) initial_colors)"
  by (simp_all add: get_all_range_values_def demo_timelines_def new_timeline_def dict_keys_def
      legend_colors_def legend_step_def lookup_color_def add_color_def initial_colors_def has_key_def)

theorem timelines_draw_total_witness:
  "\<exists>s. timelines_draw demo_extents (timelines_layout demo_extents 200 demo_renderer) = Inr s"
  unfolding demo_renderer_def
  using timelines_draw_total [of demo_timelines "add_color ''v'' (rgb 1 0 0) initial_colors" _ _ 0 4 demo_extents 200]
    demo_legend_colors by auto

theorem rows_exceed_layout_witness:
  "\<exists>s. timelines_draw demo_extents (timelines_layout demo_extents 200 demo_renderer) = Inr s \<and>
     tr_height (timelines_layout demo_extents 200 demo_renderer) < cur_y s - 5"
proof -
  have "colors_known (tr_colors demo_renderer) (range_values_of demo_timelines)"
    unfolding range_values_of_all [symmetric] demo_legend_colors(1)
    by (simp add: colors_known_def demo_renderer_def set_render_range_def new_timelines_renderer_def add_color_def)
  then obtain s where s: "timelines_draw demo_extents (timelines_layout demo_extents 200 demo_renderer) = Inr s"
    using timelines_draw_returns [of "timelines_layout demo_extents 200 demo_renderer" demo_extents]
    by (auto simp: timelines_layout_def Let_def demo_renderer_def set_render_range_def new_timelines_renderer_def)
  have "tr_timelines demo_renderer = demo_timelines" "tr_padding demo_renderer = 10"
    by (simp_all add: demo_renderer_def set_render_range_def new_timelines_renderer_def)
  then have "tr_height (timelines_layout demo_extents 200 demo_renderer) < cur_y s - 5"
    using rows_exceed_layout [OF s]
    by (simp add: Let_def demo_timelines_def has_rows_def new_timeline_def eventint_n_def range_n_def
        timelines_layout_def demo_extents_def)
  with s show ?thesis by blast
qed

section \<open>Scales\<close>

lemma closest_loop_power:
  "\<exists>k\<ge>j. closest_loop d (10 ^ j) = 10 ^ k \<and> d \<le> 10 ^ k * 10 \<and> (k = j \<or> 10 ^ k < d)"
proof (induction d "10 ^ j :: nat" arbitrary: j rule: closest_loop.induct)
  case (1 d)
  show ?case
  proof (cases "of_nat (10 ^ j * 10) < d")
    case True
    have "\<exists>k\<ge>Suc j. closest_loop d (10 ^ Suc j) = 10 ^ k \<and> d \<le> 10 ^ k * 10 \<and> (k = Suc j \<or> 10 ^ k < d)"
      using "1" [of "Suc j"] True by (simp add: mult.commute)
    with True show ?thesis
      by (subst closest_loop.simps) (auto simp: mult.commute intro: Suc_leD)
  next
    case False
    then show ?thesis by (subst closest_loop.simps) (auto intro!: exI [of _ j])
  qed
qed

text \<open>The distance of the ticks: a power of ten, or a tenth for a window of width one.\<close>

lemma scale_delta_cases:
  assumes "0 \<le> d"
  obtains (one) "d = 1" "scale_delta d = 1 / 10"
  | (power) k where "scale_delta d = 10 ^ k" "d \<le> 10 ^ k * 10" "k = 0 \<or> 10 ^ k < d"
proof -
  from closest_loop_power [of 0 d] obtain k where
    k: "closest_loop d 1 = 10 ^ k" "d \<le> 10 ^ k * 10" "k = 0 \<or> 10 ^ k < d" by auto
  show ?thesis
  proof (cases "d = 10 ^ k")
    case True
    with k have "k = 0" by auto
    with True k show ?thesis by (intro one) (simp_all add: scale_delta_def)
  next
    case False
    with k show ?thesis by (intro power) (simp_all add: scale_delta_def Let_def)
  qed
qed

lemma py_int_of_int [simp]: "py_int (of_int z) = z"
  by (simp add: py_int_def)

lemma py_range_multiples:
  assumes "0 < D"
  shows "py_range (D * (l + 1)) (D * (h + 1)) D = Inr (map (\<lambda>k. D * (l + 1 + int k)) [0..<nat (h - l)])"
proof -
  have "(D * (h + 1) - D * (l + 1) + D - 1) div D = (h - l) + (D - 1) div D"
    using assms div_mult_self1 [of D "D - 1" "h - l"] by (simp add: algebra_simps)
  then have count: "(D * (h + 1) - D * (l + 1) + D - 1) div D = h - l"
    using assms by simp
  show ?thesis unfolding py_range_def count using assms by (simp add: algebra_simps)
qed

text \<open>The ticks at an integral distance are the multiples of it in the window, in order.\<close>

lemma ticks_multiples:
  fixes s :: scale_renderer
  assumes "0 < D"
  defines "l \<equiv> \<lfloor>sc_lo s / of_int D\<rfloor>" and "h \<equiv> \<lfloor>sc_hi s / of_int D\<rfloor>"
  shows "ticks s (of_int D) = Inr (map (\<lambda>k. D * (l + 1 + int k)) [0..<nat (h - l)])"
proof -
  have start: "sc_lo s - py_mod (sc_lo s) (of_int D) + of_int D = of_int (D * (l + 1))"
    and stop: "sc_hi s - py_mod (sc_hi s) (of_int D) + of_int D = of_int (D * (h + 1))"
    by (simp_all add: py_mod_def l_def h_def algebra_simps)
  show ?thesis
    unfolding ticks_def Let_def start stop py_int_of_int by (rule py_range_multiples [OF assms(1)])
qed

lemma set_ticks:
  assumes "0 < D" and "ticks s (of_int D) = Inr xs"
  shows "set xs = {x. D dvd x \<and> sc_lo s < of_int x \<and> of_int x \<le> sc_hi s}" "sorted_wrt (<) xs"
proof -
  let ?l = "\<lfloor>sc_lo s / of_int D\<rfloor>" and ?h = "\<lfloor>sc_hi s / of_int D\<rfloor>"
  have xs: "xs = map (\<lambda>k. D * (?l + 1 + int k)) [0..<nat (?h - ?l)]"
    using ticks_multiples [OF assms(1), of s] assms(2) by simp
  show "sorted_wrt (<) xs"
    unfolding xs using assms(1) by (simp add: sorted_wrt_map sorted_wrt_iff_nth_less)
  have lo: "sc_lo s < of_int (D * m) \<longleftrightarrow> ?l < m" for m
  proof -
    have "sc_lo s < of_int (D * m) \<longleftrightarrow> sc_lo s / of_int D < of_int m"
      using assms(1) by (simp add: pos_divide_less_eq mult.commute)
    then show ?thesis by (simp add: floor_less_iff)
  qed
  have hi: "of_int (D * m) \<le> sc_hi s \<longleftrightarrow> m \<le> ?h" for m
  proof -
    have "of_int (D * m) \<le> sc_hi s \<longleftrightarrow> of_int m \<le> sc_hi s / of_int D"
      using assms(1) by (simp add: pos_le_divide_eq mult.commute)
    then show ?thesis by (simp add: le_floor_iff)
  qed
  have "x \<in> set xs \<longleftrightarrow> (\<exists>m. x = D * m \<and> ?l < m \<and> m \<le> ?h)" for x
  proof
    assume "\<exists>m. x = D * m \<and> ?l < m \<and> m \<le> ?h"
    then obtain m where "x = D * m" "?l < m" "m \<le> ?h" by blast
    then show "x \<in> set xs"
      unfolding xs set_map by (intro image_eqI [of _ _ "nat (m - ?l - 1)"]) auto
  qed (auto simp: xs)
  then show "set xs = {x. D dvd x \<and> sc_lo s < of_int x \<and> of_int x \<le> sc_hi s}"
    using lo hi by (auto simp: dvd_def)
qed

lemma get_position_returns: "sc_lo s \<noteq> sc_hi s \<Longrightarrow> \<exists>p. get_position s x = Inr p"
  by (simp add: get_position_def py_div_def)

lemma draw_ticks_return:
  assumes "sc_lo s \<noteq> sc_hi s \<or> xs = []"
  shows "\<exists>b. map_res (draw_tick ext s) xs = Inr b" "\<exists>b. map_res (draw_subtick s) xs = Inr b"
  unfolding map_res_exists
  using assms get_position_returns [of s] by (auto simp: draw_tick_def draw_subtick_def rbind_eq_Inr Let_def)

lemma ticks_tenth: "ticks s (1 / 10) = Inl ValueError"
  by (simp add: ticks_def Let_def py_range_def py_int_def floor_eq_iff)

lemma scale_draw_narrow:
  assumes "sc_lo s \<le> sc_hi s" "sc_hi s - sc_lo s \<le> 10" "sc_delta s = scale_delta (sc_hi s - sc_lo s)"
  shows "scale_draw ext s = Inl ValueError"
proof -
  have "0 \<le> sc_hi s - sc_lo s" using assms(1) by simp
  then show ?thesis
  proof (cases rule: scale_delta_cases)
    case one
    then have d: "sc_delta s = 1 / 10" using assms(3) by (simp only:)
    show ?thesis unfolding scale_draw_def d by (simp add: ticks_tenth)
  next
    case (power k)
    have "k = 0"
    proof (rule ccontr)
      assume "k \<noteq> 0"
      then have "(10 :: rat) ^ 1 \<le> 10 ^ k" by (intro power_increasing) auto
      with power(3) \<open>k \<noteq> 0\<close> assms(2) show False by simp
    qed
    then have d: "sc_delta s = of_int 1" using power(1) assms(3) by simp
    obtain xs where xs: "ticks s (of_int 1) = Inr xs" using ticks_multiples [OF zero_less_one] by blast
    have "sc_lo s \<noteq> sc_hi s \<or> xs = []" using set_ticks(1) [OF _ xs] by (cases xs) fastforce+
    then obtain b where "map_res (draw_tick ext s) xs = Inr b" using draw_ticks_return(1) by blast
    with xs show ?thesis by (simp add: scale_draw_def d ticks_tenth)
  qed
qed

lemma scale_draw_wide:
  assumes "10 < sc_hi s - sc_lo s" "sc_delta s = scale_delta (sc_hi s - sc_lo s)"
  shows "\<exists>k big small new. sc_delta s = 10 ^ Suc k \<and> scale_draw ext s = Inr new \<and>
     ticks s (of_int (10 ^ Suc k)) = Inr big \<and> ticks s (of_int (10 ^ k)) = Inr small \<and> 1 \<le> length big \<and> length big \<le> 10"
proof -
  have "0 \<le> sc_hi s - sc_lo s" using assms(1) by simp
  then show ?thesis
  proof (cases rule: scale_delta_cases)
    case one
    with assms(1) show ?thesis by simp
  next
    case (power j)
    with assms(1) obtain k where j: "j = Suc k" by (cases j) auto
    let ?D = "10 ^ Suc k :: int" and ?a = "sc_lo s / 10 ^ Suc k" and ?b = "sc_hi s / 10 ^ Suc k"
    have d: "sc_delta s = of_int ?D" "sc_delta s / 10 = of_int (10 ^ k)" using power(1) assms(2) j by simp_all
    obtain big small where t: "ticks s (of_int ?D) = Inr big" "ticks s (of_int (10 ^ k)) = Inr small"
      using ticks_multiples [of ?D s] ticks_multiples [of "10 ^ k" s] by (meson zero_less_numeral zero_less_power)
    have ne: "sc_lo s \<noteq> sc_hi s" using assms(1) by auto
    obtain b1 b2 where "map_res (draw_tick ext s) big = Inr b1" "map_res (draw_subtick s) small = Inr b2"
      using draw_ticks_return [of s] ne by meson
    with t d have draw: "\<exists>new. scale_draw ext s = Inr new" by (simp add: scale_draw_def Let_def)
    have "length big = nat (\<lfloor>?b\<rfloor> - \<lfloor>?a\<rfloor>)" using t(1) ticks_multiples [of ?D s] by simp
    moreover have "?a + 1 < ?b"
      using divide_strict_right_mono [of "sc_lo s + 10 ^ Suc k" "sc_hi s" "10 ^ Suc k"] power(3) j
      by (simp add: add_divide_distrib)
    moreover have "?b \<le> ?a + 10"
      using divide_right_mono [of "sc_hi s" "sc_lo s + 10 ^ Suc k * 10" "10 ^ Suc k"] power(2) j
      by (simp add: add_divide_distrib)
    ultimately have "length big = nat (\<lfloor>?b\<rfloor> - \<lfloor>?a\<rfloor>)"
      "\<lfloor>?a\<rfloor> + 1 \<le> \<lfloor>?b\<rfloor>" "\<lfloor>?b\<rfloor> \<le> \<lfloor>?a\<rfloor> + 10" by linarith+
    then have "1 \<le> length big" "length big \<le> 10" by linarith+
    with t draw power(1) assms(2) j show ?thesis by auto
  qed
qed

text \<open>
  The scales. In a window of at most ten time units \<^verbatim>\<open>draw\<close> always raises
  \<^verbatim>\<open>ValueError\<close>, because the step of the small ticks is cut to zero. In any wider window it
  succeeds: the ticks are all multiples of a power of ten that lie after the start of the window
  and not after its end, at least one and at most ten, and the small ticks are the multiples of a
  tenth of it.
\<close>

theorem scale_draw_correct:
  assumes "lo \<le> hi"
  shows "let s = scale_layout ext width (set_bounds lo hi s0) in
     if hi - lo \<le> 10 then scale_draw ext s = Inl ValueError
     else \<exists>k big small ops. sc_delta s = 10 ^ Suc k \<and> scale_draw ext s = Inr ops \<and>
       ticks s (sc_delta s) = Inr big \<and> ticks s (sc_delta s / 10) = Inr small \<and>
       1 \<le> length big \<and> length big \<le> 10 \<and>
       set big = {x. 10 ^ Suc k dvd x \<and> lo < of_int x \<and> of_int x \<le> hi} \<and>
       set small = {x. 10 ^ k dvd x \<and> lo < of_int x \<and> of_int x \<le> hi}"
proof -
  let ?s = "scale_layout ext width (set_bounds lo hi s0)"
  have s: "sc_lo ?s = lo" "sc_hi ?s = hi" "sc_delta ?s = scale_delta (hi - lo)"
    by (simp_all add: scale_layout_def set_bounds_def)
  show ?thesis
  proof (cases "hi - lo \<le> 10")
    case True
    with scale_draw_narrow [of ?s ext] s assms show ?thesis by (simp add: Let_def)
  next
    case False
    with scale_draw_wide [of ?s ext] s obtain k big small new where
      k: "sc_delta ?s = 10 ^ Suc k" "scale_draw ext ?s = Inr new" "ticks ?s (of_int (10 ^ Suc k)) = Inr big"
      "ticks ?s (of_int (10 ^ k)) = Inr small" "1 \<le> length big" "length big \<le> 10"
      by auto
    have "set big = {x. 10 ^ Suc k dvd x \<and> lo < of_int x \<and> of_int x \<le> hi}"
      "set small = {x. 10 ^ k dvd x \<and> lo < of_int x \<and> of_int x \<le> hi}"
      using set_ticks(1) [OF _ k(3)] set_ticks(1) [OF _ k(4)] s by simp_all
    with k False show ?thesis
      unfolding Let_def if_not_P [OF False] by (intro exI [of _ k] exI [of _ big] exI [of _ small] exI [of _ new]) simp
  qed
qed

theorem scale_draw_correct_witness:
  "scale_draw demo_extents (scale_layout demo_extents 100 (set_bounds 0 10 new_scale)) = Inl ValueError \<and>
   (\<exists>new. scale_draw demo_extents (scale_layout demo_extents 100 (set_bounds 0 25 new_scale)) = Inr new)"
  using scale_draw_correct [of 0 10 demo_extents 100 new_scale] scale_draw_correct [of 0 25 demo_extents 100 new_scale]
  by (auto simp: Let_def)

end
