(* ===== verification/GridGui.thy ===== *)
theory GridGui
  imports GridDraw
begin

text \<open>
  The window of the timeline viewer \<^verbatim>\<open>utils/grid.py\<close>: \<^verbatim>\<open>GraphicRenderer\<close>, which puts legend,
  timelines and scales together and holds the visible range, and the callbacks of
  \<^verbatim>\<open>GtkGraphicRenderer\<close> with the state of a mouse movement. An exception in a callback is
  reported by GTK and the program goes on with the state reached, so a callback returns its value
  or exception together with the state. Attributes that a callback may read before they are set
  are options, and reading them then is an \<^verbatim>\<open>AttributeError\<close>.
\<close>

section \<open>The picture\<close>

record graphic =
  g_start :: rat
  g_end :: rat
  v_start :: rat
  v_end :: rat
  g_width :: rat
  g_height :: rat
  top_legend :: legend_renderer
  g_data :: timelines_renderer
  mid_scale :: scale_renderer
  bot_scale :: scale_renderer

text \<open>The constructor, with \<^verbatim>\<open>set_top_legend\<close> and \<^verbatim>\<open>set_data\<close>.\<close>

definition new_graphic :: "rat \<Rightarrow> rat \<Rightarrow> legend_renderer \<Rightarrow> timelines_renderer \<Rightarrow> graphic" where
  "new_graphic start stop legend d =
     \<lparr>g_start = start, g_end = stop, v_start = start, v_end = stop, g_width = 1, g_height = 1,
      top_legend = legend, g_data = d, mid_scale = set_top new_scale,
      bot_scale = set_bot (set_bounds start stop new_scale)\<rparr>"

definition graphic_layout :: "extents \<Rightarrow> rat \<Rightarrow> rat \<Rightarrow> graphic \<Rightarrow> graphic" where
  "graphic_layout ext width height g =
     (let d = timelines_layout ext width (g_data g) in
      g\<lparr>g_width := width, g_height := height, top_legend := legend_layout ext width (top_legend g),
        g_data := d, mid_scale := scale_layout ext (width - get_data_x_start d) (mid_scale g),
        bot_scale := scale_layout ext width (bot_scale g)\<rparr>)"

definition set_range :: "extents \<Rightarrow> rat \<Rightarrow> rat \<Rightarrow> graphic \<Rightarrow> graphic" where
  "set_range ext start stop g =
     (let s = min start stop; e = max start stop;
          start = max (g_start g) s; stop = min (g_end g) e
      in graphic_layout ext (g_width g) (g_height g)
           (g\<lparr>v_start := start, v_end := stop, g_data := set_render_range start stop (g_data g),
              mid_scale := set_bounds start stop (mid_scale g)\<rparr>))"

text \<open>Rectangles are \<^verbatim>\<open>(x, y, width, height)\<close>.\<close>

type_synonym rectangle = "rat \<times> rat \<times> rat \<times> rat"

definition get_data_rectangle :: "graphic \<Rightarrow> rectangle" where
  "get_data_rectangle g =
     (let x_start = get_data_x_start (g_data g) in
      (x_start, lg_height (top_legend g), g_width g - x_start, tr_height (g_data g)))"

definition scale_data :: "graphic \<Rightarrow> rat \<Rightarrow> rat result" where
  "scale_data g x =
     rbind (py_div x (g_width g - get_data_x_start (g_data g))) (\<lambda>q. Inr (q * (v_end g - v_start g)))"

definition get_selection_rectangle :: "graphic \<Rightarrow> rectangle result" where
  "get_selection_rectangle g =
     (let y_start = lg_height (top_legend g) + tr_height (g_data g) + sc_height (mid_scale g) + 20;
          y_height = sc_height (bot_scale g) + 20
      in rbind (get_position (bot_scale g) (v_start g)) (\<lambda>x_start.
         rbind (get_position (bot_scale g) (v_end g)) (\<lambda>x_end.
           Inr (x_start, y_start, x_end - x_start, y_height))))"

definition scale_selection :: "graphic \<Rightarrow> rat \<Rightarrow> rat result" where
  "scale_selection g x = rbind (py_div x (g_width g)) (\<lambda>q. Inr (q * (g_end g - g_start g)))"

text \<open>The connections between the two scales and the part of the lower scale that is not selected.\<close>

definition draw_selection :: "graphic \<Rightarrow> rat \<Rightarrow> rat \<Rightarrow> rat \<Rightarrow> draw_op list" where
  "draw_selection g height_used select_start select_end =
     (let w = g_width g; lower = height_used + 20; unused_height = sc_height (bot_scale g) + 20 in
      [MoveTo 0 height_used, LineTo (get_data_x_start (g_data g)) height_used, LineTo select_start lower,
       LineTo 0 lower, LineTo 0 height_used, SetSourceRgb 0 0 0, SetLineWidth 1, StrokePreserve,
       SetSourceRgb (9/10) (9/10) (9/10), Fill,
       MoveTo w height_used, LineTo w lower, LineTo select_end lower, LineTo w height_used,
       SetSourceRgb 0 0 0, SetLineWidth 1, StrokePreserve, SetSourceRgb (9/10) (9/10) (9/10), Fill,
       Rectangle 0 lower select_start unused_height,
       Rectangle select_end lower (w - select_end) unused_height,
       SetSourceRgb (9/10) (9/10) (9/10), Fill,
       MoveTo select_end lower, LineTo w lower, LineTo w (lower + unused_height), LineTo 0 (lower + unused_height),
       LineTo 0 lower, LineTo select_start lower, ClosePath, SetLineWidth 2, SetSourceRgb 0 0 0, Stroke,
       MoveTo select_start lower, LineTo select_end lower, ClosePath, SetLineWidth 1,
       SetSourceRgb (9/10) (9/10) (9/10), Stroke,
       Save, MoveTo (max select_start 2) lower, RelLineTo 0 unused_height,
       MoveTo (min select_end (w - 2)) lower, RelLineTo 0 unused_height, SetDash 5, SetSourceRgb 0 0 0,
       SetLineWidth 1, Stroke, Restore])"

definition separator :: "rat \<Rightarrow> rat \<Rightarrow> draw_op list" where
  "separator width y = [MoveTo 0 y, LineTo width y, ClosePath, SetLineWidth 2, SetSourceRgb 0 0 0, Stroke]"

text \<open>
  \<^verbatim>\<open>draw\<close>. Drawing the timelines may add colours, so the picture is returned as well. (The
  outermost \<^verbatim>\<open>ctx.save()\<close> of the code has no \<^verbatim>\<open>restore\<close>.)
\<close>

definition graphic_draw :: "extents \<Rightarrow> graphic \<Rightarrow> (draw_op list \<times> graphic) result" where
  "graphic_draw ext g =
     (let w = g_width g; top = lg_height (top_legend g); d = g_data g; x0 = get_data_x_start d;
          height_used = top + tr_height d + sc_height (mid_scale g)
      in rbind (legend_draw ext (top_legend g)) (\<lambda>legend.
         rbind (timelines_draw ext d) (\<lambda>st.
         rbind (scale_draw ext (mid_scale g)) (\<lambda>mid.
         rbind (get_position (bot_scale g) (v_start g)) (\<lambda>select_start.
         rbind (get_position (bot_scale g) (v_end g)) (\<lambda>select_end.
         rbind (scale_draw ext (bot_scale g)) (\<lambda>bot.
           Inr ([Save, SetSourceRgb 1 1 1, SetOperatorSource, Rectangle 0 0 w (g_height g), Fill, Save] @ legend @
                [Restore] @ separator w top @ [Save, Translate 0 top] @ ops st @ [Restore, Save, Translate x0 height_used] @
                mid @ [Restore, MoveTo x0 height_used, RelLineTo 0 (- sc_height (mid_scale g)), ClosePath, SetSourceRgb 0 0 0,
                SetLineWidth 2, Stroke] @ separator w height_used @ draw_selection g height_used select_start select_end @
                [Save, Translate 0 (height_used + 20)] @ bot @ [Restore],
                g\<lparr>g_data := d\<lparr>tr_colors := st_colors st\<rparr>\<rparr>))))))))"

section \<open>The mouse\<close>

text \<open>\<^verbatim>\<open>__moving_right\<close> holds a boolean or, after an assignment of the width, a number.\<close>

datatype flag = Flag bool | Number rat

fun truth :: "flag \<Rightarrow> bool" where
  "truth (Flag b) = b"
| "truth (Number q) = (q \<noteq> 0)"

record gui =
  graphic_of :: graphic
  moving_left :: bool
  moving_right :: flag
  moving_both :: bool
  moving_top :: bool
  moving_left_cur :: "rat option"
  moving_right_cur :: "rat option"
  moving_both_start :: "rat option"
  moving_both_cur :: "rat option"
  moving_top_start :: "rat option"
  moving_top_cur :: "rat option"
  force_full_redraw :: bool
  buffer_surface :: "draw_op list option"
  gui_width :: "rat option"

definition new_gui :: "graphic \<Rightarrow> gui" where
  "new_gui g =
     \<lparr>graphic_of = g, moving_left = False, moving_right = Flag False, moving_both = False, moving_top = False,
      moving_left_cur = None, moving_right_cur = None, moving_both_start = None, moving_both_cur = None,
      moving_top_start = None, moving_top_cur = None, force_full_redraw = True, buffer_surface = None,
      gui_width = None\<rparr>"

definition attr :: "'a option \<Rightarrow> 'a result" where
  "attr a = (case a of None \<Rightarrow> Inl AttributeError | Some v \<Rightarrow> Inr v)"

text \<open>A callback: its value or exception, and the state.\<close>

type_synonym 'a callback = "'a result \<times> gui"

definition fails :: "py_error \<Rightarrow> gui \<Rightarrow> 'a callback" where
  "fails e w = (Inl e, w)"

definition new_range :: "extents \<Rightarrow> rat \<Rightarrow> rat \<Rightarrow> gui \<Rightarrow> gui" where
  "new_range ext start stop w =
     w\<lparr>graphic_of := set_range ext start stop (graphic_of w), force_full_redraw := True\<rparr>"

definition set_smaller_zoom :: "extents \<Rightarrow> gui \<Rightarrow> gui" where
  "set_smaller_zoom ext w =
     (let start = v_start (graphic_of w); stop = v_end (graphic_of w) in
      new_range ext start (start + (stop - start) * 2) w)"

definition set_bigger_zoom :: "extents \<Rightarrow> gui \<Rightarrow> gui" where
  "set_bigger_zoom ext w =
     (let start = v_start (graphic_of w); stop = v_end (graphic_of w) in
      new_range ext start (start + (stop - start) / 2) w)"

definition button_press :: "rat \<Rightarrow> rat \<Rightarrow> gui \<Rightarrow> bool callback" where
  "button_press ex ey w =
     (case get_selection_rectangle (graphic_of w) of
        Inl e \<Rightarrow> fails e w
      | Inr (x, y, width, height) \<Rightarrow>
          (case get_data_rectangle (graphic_of w) of (d_x, d_y, d_width, d_height) \<Rightarrow>
             let in_selection = (y < ey \<and> ey < y + height) in
             if in_selection \<and> \<bar>ex - x\<bar> < 5 then (Inr True, w\<lparr>moving_left := True\<rparr>)
             else if in_selection \<and> \<bar>ex - (x + width)\<bar> < 5 then (Inr True, w\<lparr>moving_right := Flag True\<rparr>)
             else if in_selection \<and> x < ex \<and> ex < x + width then
               (Inr True, w\<lparr>moving_both := True, moving_both_start := Some ex, moving_both_cur := Some ex\<rparr>)
             else if d_y < ey \<and> ey < d_y + d_height \<and> d_x < ex \<and> ex < d_x + d_width then
               (Inr True, w\<lparr>moving_top := True, moving_top_start := Some ex, moving_top_cur := Some ex\<rparr>)
             else (Inr False, w)))"

definition release_left :: "extents \<Rightarrow> gui \<Rightarrow> bool callback" where
  "release_left ext w =
     (let w = w\<lparr>moving_left := False\<rparr> in
      case rbind (attr (moving_left_cur w)) (scale_selection (graphic_of w)) of
        Inl e \<Rightarrow> fails e w
      | Inr left \<Rightarrow> (Inr True, new_range ext left (v_end (graphic_of w)) w))"

definition release_right :: "extents \<Rightarrow> gui \<Rightarrow> bool callback" where
  "release_right ext w =
     (let w = w\<lparr>moving_right := Flag False\<rparr> in
      case rbind (attr (moving_right_cur w)) (scale_selection (graphic_of w)) of
        Inl e \<Rightarrow> fails e w
      | Inr right \<Rightarrow> (Inr True, new_range ext (v_start (graphic_of w)) right w))"

definition release_both :: "extents \<Rightarrow> gui \<Rightarrow> bool callback" where
  "release_both ext w =
     (let w = w\<lparr>moving_both := False\<rparr> in
      case rbind (attr (moving_both_cur w)) (\<lambda>cur. rbind (attr (moving_both_start w)) (\<lambda>start.
             scale_selection (graphic_of w) (cur - start))) of
        Inl e \<Rightarrow> fails e w
      | Inr delta \<Rightarrow>
          (Inr True, new_range ext (v_start (graphic_of w) + delta) (v_end (graphic_of w) + delta) w))"

definition button_release :: "extents \<Rightarrow> gui \<Rightarrow> bool callback" where
  "button_release ext w =
     (if moving_left w then release_left ext w
      else if truth (moving_right w) then release_right ext w
      else if moving_both w then release_both ext w
      else (Inr False, w\<lparr>moving_top := False\<rparr>))"

text \<open>
  The four branches of \<^verbatim>\<open>motion_notify\<close> for a movement in progress; \<open>redraw\<close> is
  \<^verbatim>\<open>queue_draw_area(0, int(y), int(self.__width), int(height))\<close>.
\<close>

definition redraw :: "gui \<Rightarrow> bool callback" where
  "redraw w = (case gui_width w of None \<Rightarrow> fails AttributeError w | Some _ \<Rightarrow> (Inr True, w))"

definition motion_left :: "rat \<Rightarrow> rat \<Rightarrow> gui \<Rightarrow> bool callback" where
  "motion_left right_edge ex w =
     redraw (w\<lparr>moving_left_cur := Some (if ex \<le> 0 then 0 else if right_edge \<le> ex then right_edge else ex)\<rparr>)"

definition motion_right :: "rat \<Rightarrow> rat \<Rightarrow> gui \<Rightarrow> bool callback" where
  "motion_right left_edge ex w =
     (case gui_width w of
        None \<Rightarrow> fails AttributeError w
      | Some width \<Rightarrow>
          redraw (if width \<le> ex then w\<lparr>moving_right := Number width\<rparr>
                  else if ex < left_edge then w\<lparr>moving_right_cur := Some left_edge\<rparr>
                  else w\<lparr>moving_right_cur := Some ex\<rparr>))"

definition motion_both :: "rat \<Rightarrow> rat \<Rightarrow> rat \<Rightarrow> gui \<Rightarrow> bool callback" where
  "motion_both x width ex w =
     (case rbind (attr (gui_width w)) (\<lambda>gw. rbind (attr (moving_both_start w)) (\<lambda>start. Inr (gw, start))) of
        Inl e \<Rightarrow> fails e w
      | Inr (gw, start) \<Rightarrow>
          let cur_e = gw - (x + width - start); cur_s = start - x in
          redraw (w\<lparr>moving_both_cur := Some (if ex < cur_s then cur_s else if cur_e < ex then cur_e else ex)\<rparr>))"

definition motion_top :: "extents \<Rightarrow> rat \<Rightarrow> gui \<Rightarrow> bool callback" where
  "motion_top ext ex w =
     (let w = w\<lparr>moving_top_cur := Some ex\<rparr> in
      case rbind (attr (moving_top_start w)) (\<lambda>start. scale_data (graphic_of w) (start - ex)) of
        Inl e \<Rightarrow> fails e w
      | Inr delta \<Rightarrow>
          (Inr True, (new_range ext (v_start (graphic_of w) + delta) (v_end (graphic_of w) + delta) w)
             \<lparr>moving_top_start := Some ex\<rparr>))"

text \<open>Without a movement the callback only chooses the cursor and returns whether it changed it.\<close>

definition over_handle :: "rectangle \<Rightarrow> rectangle \<Rightarrow> rat \<Rightarrow> rat \<Rightarrow> bool" where
  "over_handle sel dat ex ey =
     (case sel of (x, y, width, height) \<Rightarrow> case dat of (d_x, d_y, d_width, d_height) \<Rightarrow>
        y < ey \<and> ey < y + height \<and> (\<bar>ex - x\<bar> < 5 \<or> \<bar>ex - (x + width)\<bar> < 5 \<or> x < ex \<and> ex < x + width) \<or>
        d_y < ey \<and> ey < d_y + d_height \<and> d_x < ex \<and> ex < d_x + d_width)"

definition motion_notify :: "extents \<Rightarrow> rat \<Rightarrow> rat \<Rightarrow> gui \<Rightarrow> bool callback" where
  "motion_notify ext ex ey w =
     (case get_selection_rectangle (graphic_of w) of
        Inl e \<Rightarrow> fails e w
      | Inr (x, y, width, height) \<Rightarrow>
          if moving_left w then motion_left (x + width) ex w
          else if truth (moving_right w) then motion_right x ex w
          else if moving_both w then motion_both x width ex w
          else if moving_top w then motion_top ext ex w
          else (Inr (over_handle (x, y, width, height) (get_data_rectangle (graphic_of w)) ex ey), w))"

definition size_allocate :: "extents \<Rightarrow> rat \<Rightarrow> rat \<Rightarrow> gui \<Rightarrow> gui" where
  "size_allocate ext width height w =
     w\<lparr>gui_width := Some width, graphic_of := graphic_layout ext width height (graphic_of w),
       force_full_redraw := True\<rparr>"

text \<open>
  \<^verbatim>\<open>expose\<close>: the picture is drawn into a new buffer when asked for; then the lines of a movement
  are drawn over it. What a drawing that fails has put on the buffer before is not recorded.
\<close>

definition full_redraw :: "extents \<Rightarrow> gui \<Rightarrow> unit callback" where
  "full_redraw ext w =
     (if force_full_redraw w then
        (case graphic_draw ext (graphic_of w) of
           Inl e \<Rightarrow> fails e (w\<lparr>buffer_surface := Some []\<rparr>)
         | Inr (new, g) \<Rightarrow>
             (Inr (), w\<lparr>buffer_surface := Some new, graphic_of := g, force_full_redraw := False\<rparr>))
      else (Inr (), w))"

definition handle_line :: "rat \<Rightarrow> rat \<Rightarrow> rat \<Rightarrow> draw_op list" where
  "handle_line x y height =
     [MoveTo x y, RelLineTo 0 height, ClosePath, SetLineWidth 1, SetSourceRgb 0 0 0, Stroke]"

definition moving_lines :: "gui \<Rightarrow> rectangle \<Rightarrow> draw_op list result" where
  "moving_lines w sel =
     (case sel of (x, y, width, height) \<Rightarrow>
        rbind (if moving_left w then rbind (attr (moving_left_cur w)) (\<lambda>c. Inr (handle_line (max c 2) y height)) else Inr []) (\<lambda>l.
        rbind (if truth (moving_right w) then
                 rbind (attr (moving_right_cur w)) (\<lambda>c. rbind (attr (gui_width w)) (\<lambda>gw. Inr (handle_line (min c (gw - 2)) y height)))
               else Inr []) (\<lambda>r.
        rbind (if moving_both w then
                 rbind (attr (moving_both_cur w)) (\<lambda>c. rbind (attr (moving_both_start w)) (\<lambda>s.
                   Inr [MoveTo (x + (c - s)) y, RelLineTo 0 height, ClosePath, MoveTo (x + width + (c - s)) y,
                        RelLineTo 0 height, ClosePath, SetSourceRgb 0 0 0, SetLineWidth 1, Stroke]))
               else Inr []) (\<lambda>b.
          Inr (l @ r @ b)))))"

definition expose :: "extents \<Rightarrow> gui \<Rightarrow> draw_op list callback" where
  "expose ext w =
     (case full_redraw ext w of
        (Inl e, w) \<Rightarrow> fails e w
      | (Inr _, w) \<Rightarrow>
          (case rbind (get_selection_rectangle (graphic_of w)) (moving_lines w) of
             Inl e \<Rightarrow> fails e w
           | Inr new \<Rightarrow> (Inr ([Clip, Paint] @ new), w)))"

text \<open>
  \<^verbatim>\<open>output_png\<close> returns what is written to the file. The code draws into the buffer of the window
  and writes the new surface, on which nothing was drawn.
\<close>

definition output_png :: "extents \<Rightarrow> gui \<Rightarrow> draw_op list callback" where
  "output_png ext w =
     (let surface = [] in
      case buffer_surface w of
        None \<Rightarrow> fails AttributeError w
      | Some old \<Rightarrow>
          (case graphic_draw ext (graphic_of w) of
             Inl e \<Rightarrow> fails e w
           | Inr (new, g) \<Rightarrow> (Inr surface, w\<lparr>buffer_surface := Some (old @ new), graphic_of := g\<rparr>)))"

section \<open>Events and reachable states\<close>

datatype gui_event =
    Press rat rat
  | Release
  | Motion rat rat
  | Allocate rat rat
  | Expose
  | ZoomOut
  | ZoomIn
  | OutputPng

fun gui_step :: "extents \<Rightarrow> gui_event \<Rightarrow> gui \<Rightarrow> unit callback" where
  "gui_step ext (Press x y) w = (case button_press x y w of (r, w) \<Rightarrow> (rbind r (\<lambda>_. Inr ()), w))"
| "gui_step ext Release w = (case button_release ext w of (r, w) \<Rightarrow> (rbind r (\<lambda>_. Inr ()), w))"
| "gui_step ext (Motion x y) w = (case motion_notify ext x y w of (r, w) \<Rightarrow> (rbind r (\<lambda>_. Inr ()), w))"
| "gui_step ext (Allocate width height) w = (Inr (), size_allocate ext width height w)"
| "gui_step ext Expose w = (case expose ext w of (r, w) \<Rightarrow> (rbind r (\<lambda>_. Inr ()), w))"
| "gui_step ext ZoomOut w = (Inr (), set_smaller_zoom ext w)"
| "gui_step ext ZoomIn w = (Inr (), set_bigger_zoom ext w)"
| "gui_step ext OutputPng w = (case output_png ext w of (r, w) \<Rightarrow> (rbind r (\<lambda>_. Inr ()), w))"

definition gui_run :: "extents \<Rightarrow> gui_event list \<Rightarrow> gui \<Rightarrow> gui" where
  "gui_run ext evs w = fold (\<lambda>ev w. snd (gui_step ext ev w)) evs w"

text \<open>
  \<^verbatim>\<open>main\<close>: the picture of the data with the middle tenth of the time visible (measured from
  zero, so the middle only when the data start at zero).
\<close>

definition grid_main :: "extents \<Rightarrow> colors \<Rightarrow> timelines \<Rightarrow> gui result" where
  "grid_main ext cs ts =
     rbind (timelines_bounds ts) (\<lambda>(lower_bound, upper_bound).
     let range_values = get_all_range_values ts in
     rbind (legend_colors range_values cs) (\<lambda>(range_colors, cs).
       let g = new_graphic lower_bound upper_bound (set_legends range_values range_colors new_legend)
                 (new_timelines_renderer ts cs);
           range_mid = (upper_bound - lower_bound) / 2;
           range_width = (upper_bound - lower_bound) / 10
       in Inr (new_gui (set_range ext (range_mid - range_width / 2) (range_mid + range_width / 2) g))))"

section \<open>The invariant of the picture\<close>

definition view_ok :: "graphic \<Rightarrow> bool" where
  "view_ok g =
     (g_start g \<le> g_end g \<and> g_start g \<le> v_start g \<and> v_end g \<le> g_end g \<and>
      tr_start (g_data g) = v_start g \<and> tr_end (g_data g) = v_end g \<and>
      sc_lo (mid_scale g) = v_start g \<and> sc_hi (mid_scale g) = v_end g \<and>
      sc_delta (mid_scale g) = scale_delta (v_end g - v_start g) \<and>
      sc_lo (bot_scale g) = g_start g \<and> sc_hi (bot_scale g) = g_end g \<and>
      sc_delta (bot_scale g) = scale_delta (g_end g - g_start g) \<and>
      sc_width (bot_scale g) = g_width g)"

text \<open>Every name of the legend has a colour, and so has every value of a range.\<close>

definition data_ok :: "graphic \<Rightarrow> bool" where
  "data_ok g =
     (length (lg_colors (top_legend g)) = length (lg_legends (top_legend g)) \<and> None \<notin> set (lg_colors (top_legend g)) \<and>
      colors_known (tr_colors (g_data g)) (range_values_of (tr_timelines (g_data g))))"

lemma layout_fields [simp]:
  "lg_colors (legend_layout ext width l) = lg_colors l" "lg_legends (legend_layout ext width l) = lg_legends l"
  "tr_colors (timelines_layout ext width d) = tr_colors d" "tr_timelines (timelines_layout ext width d) = tr_timelines d"
  "tr_start (timelines_layout ext width d) = tr_start d" "tr_end (timelines_layout ext width d) = tr_end d"
  by (auto simp: legend_layout_def timelines_layout_def Let_def split: prod.splits)

lemma graphic_layout_ok: "view_ok g \<Longrightarrow> view_ok (graphic_layout ext width height g)"
  by (auto simp: view_ok_def graphic_layout_def scale_layout_def Let_def)

lemma graphic_layout_data [simp]: "data_ok (graphic_layout ext width height g) = data_ok g"
  by (simp add: data_ok_def graphic_layout_def Let_def)

lemma graphic_layout_window [simp]:
  "v_start (graphic_layout ext width height g) = v_start g" "v_end (graphic_layout ext width height g) = v_end g"
  "g_start (graphic_layout ext width height g) = g_start g" "g_end (graphic_layout ext width height g) = g_end g"
  by (simp_all add: graphic_layout_def Let_def)

lemma set_range_window [simp]:
  "v_start (set_range ext a b g) = max (g_start g) (min a b)" "v_end (set_range ext a b g) = min (g_end g) (max a b)"
  "g_start (set_range ext a b g) = g_start g" "g_end (set_range ext a b g) = g_end g"
  by (simp_all add: set_range_def Let_def)

lemma set_range_data [simp]: "data_ok (set_range ext a b g) = data_ok g"
  by (simp add: set_range_def Let_def) (simp add: data_ok_def set_render_range_def)

text \<open>\<^verbatim>\<open>set_range\<close> establishes the invariant from the state of the constructor on.\<close>

definition bottom_ok :: "graphic \<Rightarrow> bool" where
  "bottom_ok g = (g_start g \<le> g_end g \<and> sc_lo (bot_scale g) = g_start g \<and> sc_hi (bot_scale g) = g_end g)"

lemma set_range_ok: "bottom_ok g \<Longrightarrow> view_ok (set_range ext a b g)"
  by (simp add: view_ok_def bottom_ok_def set_range_def graphic_layout_def scale_layout_def
      set_render_range_def set_bounds_def Let_def)

lemma view_ok_bottom: "view_ok g \<Longrightarrow> bottom_ok g"
  by (simp add: view_ok_def bottom_ok_def)

section \<open>Known colours stay the same\<close>

lemma ranges_loop_colors:
  assumes "colors_known cs (r_value ` set rgs)" "ranges_loop r x y width rgs lx cs = Inr (new, cs')"
  shows "cs' = cs"
  using assms
proof (induction rgs arbitrary: lx new)
  case (Cons rg rgs)
  obtain c where "map_of (col_map cs) (r_value rg) = Some c"
    using Cons.prems(1) by (auto simp: colors_known_def)
  then have "lookup_color (r_value rg) cs = Inr (Some c, cs)"
    by (simp add: lookup_color_def has_key_def)
  moreover have "colors_known cs (r_value ` set rgs)" using Cons.prems(1) by (simp add: colors_known_def)
  ultimately show ?case using Cons by (auto simp: rbind_eq_Inr split: if_splits)
qed simp

lemma ranges_row_colors:
  assumes "colors_known (st_colors s) (r_value ` set (tdr_ranges rgs))" "ranges_row ext r rx dx dw s rgs = Inr s'"
  shows "st_colors s' = st_colors s"
proof -
  have known: "colors_known (st_colors s) (r_value ` set (py_slice (tdr_ranges rgs) lo hi))" for lo hi
    using assms(1) set_py_slice by (fastforce simp: colors_known_def)
  from assms(2) obtain lo hi new cs where
    "ranges_loop r dx (cur_y s) dw (py_slice (tdr_ranges rgs) lo hi) (py_int (dx - 1)) (st_colors s) = Inr (new, cs)"
    and "st_colors s' = cs"
    by (auto simp: ranges_row_def draw_ranges_def Let_def rbind_eq_Inr)
  with ranges_loop_colors [OF known] show ?thesis by blast
qed

lemma events_row_colors: "events_row ext str r rx dx dw s evs = Inr s' \<Longrightarrow> st_colors s' = st_colors s"
  by (auto simp: events_row_def Let_def rbind_eq_Inr)

lemma draw_timeline_colors:
  assumes "colors_known (st_colors s) (range_values_of [t])" "draw_timeline ext r s t = Inr s'"
  shows "st_colors s' = st_colors s"
proof -
  let ?I = "\<lambda>s'. st_colors s' = st_colors s"
  from assms(2) obtain s1 s2 s3 rx dx dw where
    1: "for_each (events_row ext show_int r rx dx dw) (tl_event_int t) (show_name ext r (tr_padding r / 2) (tl_name t) s) = Inr s1"
    and 2: "for_each (events_row ext (\<lambda>v. v) r rx dx dw) (tl_event_str t) s1 = Inr s2"
    and 3: "for_each (ranges_row ext r rx dx dw) (tl_ranges t) s2 = Inr s3"
    and 4: "st_colors s' = st_colors s3"
    by (auto simp: draw_timeline_def Let_def rbind_eq_Inr)
  have "?I s1" by (rule for_each_invariant [OF _ _ 1]) (auto dest: events_row_colors)
  have "?I s2" by (rule for_each_invariant [OF _ _ 2]) (use \<open>?I s1\<close> in \<open>auto dest: events_row_colors\<close>)
  have "?I u'" if "rgs \<in> set (tl_ranges t)" "?I u" "ranges_row ext r rx dx dw u rgs = Inr u'" for u rgs u'
    using ranges_row_colors [OF _ that(3)] assms(1) that(1,2)
    by (fastforce simp: colors_known_def range_values_of_def)
  then have "?I s3" by (rule for_each_invariant [OF _ _ 3]) (use \<open>?I s2\<close> in auto)
  with 4 show ?thesis by simp
qed

lemma timelines_draw_colors:
  assumes "colors_known (tr_colors r) (range_values_of (tr_timelines r))" "timelines_draw ext r = Inr s"
  shows "st_colors s = tr_colors r"
proof -
  from assms(2) obtain s1 where s1: "for_each (draw_timeline ext r) (tr_timelines r)
      \<lparr>cur_y = tr_padding r / 2, grey_background = 1, st_colors = tr_colors r, ops = draw_line 0 0 (tr_width r) 0\<rparr> = Inr s1"
    "st_colors s = st_colors s1"
    by (auto simp: timelines_draw_def rbind_eq_Inr Let_def)
  have "st_colors u' = tr_colors r"
    if "t \<in> set (tr_timelines r)" "st_colors u = tr_colors r" "draw_timeline ext r u t = Inr u'" for u t u'
    using draw_timeline_colors [OF _ that(3)] assms(1) that(1,2)
    by (fastforce simp: colors_known_def range_values_of_def)
  then have "st_colors s1 = tr_colors r" by (rule for_each_invariant [OF _ _ s1(1)]) auto
  with s1(2) show ?thesis by simp
qed

lemma graphic_draw_same:
  assumes "data_ok g" "graphic_draw ext g = Inr (new, g')"
  shows "g' = g"
proof -
  from assms(2) obtain st where "timelines_draw ext (g_data g) = Inr st" "g' = g\<lparr>g_data := (g_data g)\<lparr>tr_colors := st_colors st\<rparr>\<rparr>"
    by (auto simp: graphic_draw_def Let_def rbind_eq_Inr)
  with timelines_draw_colors assms(1) show ?thesis by (simp add: data_ok_def)
qed

section \<open>What an event does to the picture\<close>

lemma graphic_of_new_range [simp]: "graphic_of (new_range ext a b w) = set_range ext a b (graphic_of w)"
  by (simp add: new_range_def)

lemma snd_fails [simp]: "snd (fails e w) = w" "fst (fails e w) = Inl e"
  by (simp_all add: fails_def)

lemma graphic_of_redraw [simp]: "graphic_of (snd (redraw w)) = graphic_of w"
  by (simp add: redraw_def split: option.splits)

definition same_or_range :: "extents \<Rightarrow> graphic \<Rightarrow> graphic \<Rightarrow> bool" where
  "same_or_range ext g g' = (g' = g \<or> (\<exists>a b. g' = set_range ext a b g))"

lemma button_press_graphic: "graphic_of (snd (button_press x y w)) = graphic_of w"
  by (simp add: button_press_def Let_def split: sum.splits prod.splits)

lemma button_release_graphic: "same_or_range ext (graphic_of w) (graphic_of (snd (button_release ext w)))"
  by (auto simp: same_or_range_def button_release_def release_left_def release_right_def release_both_def Let_def
      split: sum.splits)

lemma motion_graphics:
  "graphic_of (snd (motion_left r ex w)) = graphic_of w"
  "graphic_of (snd (motion_right l ex w)) = graphic_of w"
  "graphic_of (snd (motion_both x width ex w)) = graphic_of w"
  "same_or_range ext (graphic_of w) (graphic_of (snd (motion_top ext ex w)))"
  by (auto simp: motion_left_def motion_right_def motion_both_def motion_top_def same_or_range_def Let_def
      split: option.splits sum.splits)

lemma motion_notify_graphic: "same_or_range ext (graphic_of w) (graphic_of (snd (motion_notify ext ex ey w)))"
  using motion_graphics(4) [of ext w ex]
  by (auto simp: motion_notify_def motion_graphics(1-3) same_or_range_def split: sum.splits prod.splits)

lemma expose_graphic: "data_ok (graphic_of w) \<Longrightarrow> graphic_of (snd (expose ext w)) = graphic_of w"
  by (auto simp: expose_def full_redraw_def fails_def dest: graphic_draw_same split: sum.splits)

lemma output_png_graphic: "data_ok (graphic_of w) \<Longrightarrow> graphic_of (snd (output_png ext w)) = graphic_of w"
  by (auto simp: output_png_def dest: graphic_draw_same split: sum.splits option.splits)

text \<open>The picture that is written to a file is always blank.\<close>

lemma output_png_blank: "fst (output_png ext w) = Inr picture \<Longrightarrow> picture = []"
  by (auto simp: output_png_def split: sum.splits option.splits)

lemma snd_gui_step:
  "snd (gui_step ext (Press x y) w) = snd (button_press x y w)"
  "snd (gui_step ext Release w) = snd (button_release ext w)"
  "snd (gui_step ext (Motion x y) w) = snd (motion_notify ext x y w)"
  "snd (gui_step ext Expose w) = snd (expose ext w)"
  "snd (gui_step ext OutputPng w) = snd (output_png ext w)"
  by (simp_all add: case_prod_beta)

lemma gui_step_graphic:
  assumes "data_ok (graphic_of w)"
  shows "same_or_range ext (graphic_of w) (graphic_of (snd (gui_step ext ev w))) \<or>
     (\<exists>width height. graphic_of (snd (gui_step ext ev w)) = graphic_layout ext width height (graphic_of w))"
proof (cases ev)
  case (Press x y)
  then show ?thesis by (simp add: case_prod_beta button_press_graphic same_or_range_def)
next
  case Release
  then show ?thesis using button_release_graphic [of ext w] by (simp add: case_prod_beta)
next
  case (Motion x y)
  then show ?thesis using motion_notify_graphic [of ext w x y] by (simp add: case_prod_beta)
next
  case Expose
  then show ?thesis using expose_graphic [OF assms, of ext] by (simp add: case_prod_beta same_or_range_def)
next
  case OutputPng
  then show ?thesis using output_png_graphic [OF assms, of ext] by (simp add: case_prod_beta same_or_range_def)
qed (auto simp: size_allocate_def set_smaller_zoom_def set_bigger_zoom_def same_or_range_def Let_def)

definition gui_ok :: "gui \<Rightarrow> bool" where
  "gui_ok w = (view_ok (graphic_of w) \<and> data_ok (graphic_of w))"

lemma gui_step_ok:
  assumes "gui_ok w"
  shows "gui_ok (snd (gui_step ext ev w))"
  using gui_step_graphic [of w ext ev] assms set_range_ok [OF view_ok_bottom] graphic_layout_ok
  by (auto simp: gui_ok_def same_or_range_def)

lemma gui_run_ok: "gui_ok w \<Longrightarrow> gui_ok (gui_run ext evs w)"
  unfolding gui_run_def by (induction evs arbitrary: w) (simp_all add: gui_step_ok)

lemma timelines_bounds_zero: "timelines_bounds ts = Inr b \<Longrightarrow> fst b \<le> 0 \<and> 0 \<le> snd b"
  unfolding timelines_bounds_def
  by (rule for_each_invariant [where I = "\<lambda>b. fst b \<le> 0 \<and> 0 \<le> snd b"])
     (auto simp: widen_by_def widen_def rbind_eq_Inr)

lemma grid_main_ok:
  assumes "grid_main ext cs ts = Inr w"
  shows "gui_ok w"
proof -
  from assms obtain lo hi cols cs' where b: "timelines_bounds ts = Inr (lo, hi)"
    and l: "legend_colors (get_all_range_values ts) cs = Inr (cols, cs')"
    and w: "w = new_gui (set_range ext ((hi - lo) / 2 - (hi - lo) / 10 / 2) ((hi - lo) / 2 + (hi - lo) / 10 / 2)
              (new_graphic lo hi (set_legends (get_all_range_values ts) cols new_legend) (new_timelines_renderer ts cs')))"
    by (auto simp: grid_main_def rbind_eq_Inr Let_def)
  let ?g = "new_graphic lo hi (set_legends (get_all_range_values ts) cols new_legend) (new_timelines_renderer ts cs')"
  from timelines_bounds_zero [OF b] have "bottom_ok ?g"
    by (simp add: bottom_ok_def new_graphic_def set_bot_def set_bounds_def)
  moreover have "cols = map (map_of (col_map cs')) (get_all_range_values ts)"
    "\<forall>v\<in>set (get_all_range_values ts). map_of (col_map cs') v \<noteq> None"
    using legend_loop [OF distinct_range_values [of ts], of cs "[]"] l by (simp_all add: legend_colors_def)
  then have "data_ok ?g"
    by (auto simp: data_ok_def new_graphic_def set_legends_def new_legend_def new_timelines_renderer_def
        colors_known_def eq_commute [of None] simp flip: range_values_of_all)
  ultimately show ?thesis using w by (simp add: gui_ok_def new_gui_def set_range_ok)
qed


lemma demo_main: "\<exists>w. grid_main demo_extents (add_color ''v'' (rgb 1 0 0) initial_colors) demo_timelines = Inr w"
proof -
  have "timelines_bounds demo_timelines = Inr (0, 4)" by code_simp
  then show ?thesis using demo_legend_colors by (simp add: grid_main_def Let_def)
qed


section \<open>The order of the ends of the visible range\<close>

lemma set_range_ordered:
  "g_start g \<le> g_end g \<Longrightarrow>
   v_start (set_range ext a b g) \<le> v_end (set_range ext a b g) \<longleftrightarrow> min a b \<le> g_end g \<and> g_start g \<le> max a b"
  by auto

text \<open>The events that set the range keep one of its ends: all but the two ways to move it.\<close>

definition keeps_an_end :: "gui_event \<Rightarrow> gui \<Rightarrow> bool" where
  "keeps_an_end ev w =
     (case ev of
        Release \<Rightarrow> moving_left w \<or> truth (moving_right w) \<or> \<not> moving_both w
      | Motion _ _ \<Rightarrow> moving_left w \<or> truth (moving_right w) \<or> moving_both w \<or> \<not> moving_top w
      | _ \<Rightarrow> True)"

lemma set_range_end_ordered:
  assumes "view_ok g" "v_start g \<le> v_end g" "a = v_start g \<or> b = v_end g"
  shows "v_start (set_range ext a b g) \<le> v_end (set_range ext a b g)"
  using assms by (subst set_range_ordered) (auto simp: view_ok_def)

lemma release_graphic:
  assumes "keeps_an_end Release w"
  shows "graphic_of (snd (button_release ext w)) = graphic_of w \<or>
    (\<exists>a b. graphic_of (snd (button_release ext w)) = set_range ext a b (graphic_of w) \<and>
       (a = v_start (graphic_of w) \<or> b = v_end (graphic_of w)))"
  using assms
  by (auto simp: keeps_an_end_def button_release_def release_left_def release_right_def Let_def split: sum.splits)

lemma motion_graphic_same:
  "keeps_an_end (Motion ex ey) w \<Longrightarrow> graphic_of (snd (motion_notify ext ex ey w)) = graphic_of w"
  by (auto simp: keeps_an_end_def motion_notify_def motion_graphics(1-3) split: sum.splits prod.splits)

text \<open>
  The ends of the visible range stay in order. From a state with the invariant in which the
  start is not after the end, every event but a drag of the whole range keeps it so: zooming,
  moving one of the two handles, resizing, redrawing, and every event that ends in an exception.
  A drag sets a range that may lie outside the data, and then its ends are exchanged: start and
  end stay in order exactly when the new range meets the data.
\<close>

theorem window_ordered:
  assumes "view_ok (graphic_of w)" "data_ok (graphic_of w)" "v_start (graphic_of w) \<le> v_end (graphic_of w)"
  shows "(keeps_an_end ev w \<longrightarrow>
      v_start (graphic_of (snd (gui_step ext ev w))) \<le> v_end (graphic_of (snd (gui_step ext ev w)))) \<and>
    (v_start (set_range ext a b (graphic_of w)) \<le> v_end (set_range ext a b (graphic_of w)) \<longleftrightarrow>
      min a b \<le> g_end (graphic_of w) \<and> g_start (graphic_of w) \<le> max a b)"
proof (intro conjI impI)
  show "v_start (set_range ext a b (graphic_of w)) \<le> v_end (set_range ext a b (graphic_of w)) \<longleftrightarrow>
      min a b \<le> g_end (graphic_of w) \<and> g_start (graphic_of w) \<le> max a b"
    using set_range_ordered assms(1) by (simp add: view_ok_def)
  assume ev: "keeps_an_end ev w"
  note ordered = set_range_end_ordered [OF assms(1,3)]
  show "v_start (graphic_of (snd (gui_step ext ev w))) \<le> v_end (graphic_of (snd (gui_step ext ev w)))"
  proof (cases ev)
    case (Press x y)
    then show ?thesis using button_press_graphic [of x y w] assms(3) by (simp add: case_prod_beta)
  next
    case Release
    with release_graphic [of w ext] ev ordered assms(3) show ?thesis unfolding Release snd_gui_step by fastforce
  next
    case (Motion x y)
    then show ?thesis using motion_graphic_same [of x y w ext] ev assms(3) by (simp add: case_prod_beta)
  next
    case Expose
    then show ?thesis using expose_graphic [OF assms(2), of ext] assms(3) by (simp add: case_prod_beta)
  next
    case OutputPng
    then show ?thesis using output_png_graphic [OF assms(2), of ext] assms(3) by (simp add: case_prod_beta)
  qed (use assms(3) ordered in \<open>auto simp: size_allocate_def set_smaller_zoom_def set_bigger_zoom_def Let_def simp del: set_range_window\<close>)
qed

text \<open>A window with the second quarter of the time visible.\<close>

definition demo_gui :: "rat \<Rightarrow> gui" where
  "demo_gui len =
     size_allocate demo_extents 100 200 (new_gui (set_range demo_extents (len / 4) (len / 2)
       (new_graphic 0 len (set_legends [''v''] [Some (rgb 1 0 0)] new_legend)
          (new_timelines_renderer demo_timelines (add_color ''v'' (rgb 1 0 0) initial_colors)))))"

lemma demo_gui_ok:
  assumes "0 \<le> len"
  shows "view_ok (graphic_of (demo_gui len))" "data_ok (graphic_of (demo_gui len))"
    "v_start (graphic_of (demo_gui len)) = len / 4" "v_end (graphic_of (demo_gui len)) = len / 2"
    "g_start (graphic_of (demo_gui len)) = 0" "g_end (graphic_of (demo_gui len)) = len"
proof -
  let ?g = "new_graphic 0 len (set_legends [''v''] [Some (rgb 1 0 0)] new_legend)
          (new_timelines_renderer demo_timelines (add_color ''v'' (rgb 1 0 0) initial_colors))"
  have "bottom_ok ?g" using assms by (simp add: bottom_ok_def new_graphic_def set_bot_def set_bounds_def)
  then show "view_ok (graphic_of (demo_gui len))"
    by (simp add: demo_gui_def size_allocate_def new_gui_def graphic_layout_ok set_range_ok)
  have "data_ok ?g"
    unfolding data_ok_def new_graphic_def new_timelines_renderer_def set_legends_def
    by (simp add: colors_known_def add_color_def demo_legend_colors(1) flip: range_values_of_all)
  then show "data_ok (graphic_of (demo_gui len))"
    by (simp add: demo_gui_def size_allocate_def new_gui_def)
qed (use assms in \<open>auto simp: demo_gui_def size_allocate_def new_gui_def new_graphic_def\<close>)

theorem window_ordered_witness:
  "v_start (graphic_of (snd (gui_step demo_extents ZoomIn (demo_gui 40)))) \<le>
   v_end (graphic_of (snd (gui_step demo_extents ZoomIn (demo_gui 40))))"
  using window_ordered [of "demo_gui 40" ZoomIn demo_extents] demo_gui_ok [of 40]
  by (simp add: keeps_an_end_def)

text \<open>A drag of the data by three widths to the left shows a range that starts after its end.\<close>

lemma drag_exchanges_ends:
  "v_end (graphic_of (gui_run demo_extents [Press 50 40, Motion (-250) 40] (demo_gui 40))) <
   v_start (graphic_of (gui_run demo_extents [Press 50 40, Motion (-250) 40] (demo_gui 40)))"
  by code_simp

section \<open>Redrawing\<close>

lemma legend_draw_returns:
  assumes "length (lg_colors l) = length (lg_legends l)" "None \<notin> set (lg_colors l)"
  shows "\<exists>new. legend_draw ext l = Inr new"
proof -
  have "map Some (map the cs) = cs" if "None \<notin> set cs" for cs :: "color option list"
    using that by (induction cs) auto
  from this [OF assms(2)] have "lg_colors l = map Some (map the (lg_colors l))" by simp
  then show ?thesis
    using assms(1) legend_draw_loop_boxes [of "lg_legends l" "map the (lg_colors l)"] unfolding legend_draw_def by force
qed

lemma positions_return:
  assumes "view_ok g" "v_start g < v_end g"
  shows "\<exists>p. get_position (bot_scale g) x = Inr p" "\<exists>r. get_selection_rectangle g = Inr r"
proof -
  have "sc_lo (bot_scale g) \<noteq> sc_hi (bot_scale g)" using assms by (auto simp: view_ok_def)
  then have p: "\<exists>p. get_position (bot_scale g) x = Inr p" for x by (rule get_position_returns)
  then show "\<exists>p. get_position (bot_scale g) x = Inr p" .
  from p [of "v_start g"] p [of "v_end g"] show "\<exists>r. get_selection_rectangle g = Inr r"
    by (auto simp: get_selection_rectangle_def Let_def)
qed

lemma graphic_draw_outcome:
  assumes "view_ok g" "data_ok g" "v_start g < v_end g"
  shows "if v_end g - v_start g \<le> 10 then graphic_draw ext g = Inl ValueError
    else \<exists>new. graphic_draw ext g = Inr (new, g)"
proof -
  from assms(2) obtain legend where legend: "legend_draw ext (top_legend g) = Inr legend"
    using legend_draw_returns by (auto simp: data_ok_def)
  obtain st where st: "timelines_draw ext (g_data g) = Inr st"
    using timelines_draw_returns [of "g_data g" ext] assms by (auto simp: view_ok_def data_ok_def)
  have v: "sc_lo (mid_scale g) = v_start g" "sc_hi (mid_scale g) = v_end g"
    "sc_delta (mid_scale g) = scale_delta (v_end g - v_start g)" "sc_lo (bot_scale g) = g_start g"
    "sc_hi (bot_scale g) = g_end g" "sc_delta (bot_scale g) = scale_delta (g_end g - g_start g)"
    "g_start g \<le> v_start g" "v_end g \<le> g_end g"
    using assms(1) by (simp_all add: view_ok_def)
  show ?thesis
  proof (cases "v_end g - v_start g \<le> 10")
    case True
    then have "scale_draw ext (mid_scale g) = Inl ValueError"
      using scale_draw_narrow [of "mid_scale g" ext] v assms(3) by simp
    with True legend st show ?thesis by (simp add: graphic_draw_def Let_def)
  next
    case False
    obtain mid where "scale_draw ext (mid_scale g) = Inr mid"
      using scale_draw_wide [of "mid_scale g" ext] v False by auto
    moreover have "10 < g_end g - g_start g" using v False by simp
    then obtain bot where "scale_draw ext (bot_scale g) = Inr bot"
      using scale_draw_wide [of "bot_scale g" ext] v by auto
    moreover obtain p1 p2 where "get_position (bot_scale g) (v_start g) = Inr p1" "get_position (bot_scale g) (v_end g) = Inr p2"
      using positions_return(1) [OF assms(1,3)] by blast
    ultimately have "\<exists>new g'. graphic_draw ext g = Inr (new, g')"
      using legend st by (simp add: graphic_draw_def Let_def)
    with False graphic_draw_same [OF assms(2)] show ?thesis by fastforce
  qed
qed

text \<open>
  Redrawing the window. In a state with the invariant, with a visible range that is not empty
  and no movement in progress, a full redraw succeeds and clears its request when the range is
  longer than ten time units; otherwise it raises \<^verbatim>\<open>ValueError\<close> from the scale and leaves the
  request pending, so that zooming in far enough makes every later redraw fail.
\<close>

theorem expose_outcome:
  assumes "view_ok (graphic_of w)" "data_ok (graphic_of w)" "v_start (graphic_of w) < v_end (graphic_of w)"
    and "force_full_redraw w" "\<not> moving_left w" "\<not> truth (moving_right w)" "\<not> moving_both w"
  shows "if v_end (graphic_of w) - v_start (graphic_of w) \<le> 10
     then fst (expose ext w) = Inl ValueError \<and> force_full_redraw (snd (expose ext w))
     else (\<exists>new. fst (expose ext w) = Inr new) \<and> \<not> force_full_redraw (snd (expose ext w))"
proof (cases "v_end (graphic_of w) - v_start (graphic_of w) \<le> 10")
  case True
  with graphic_draw_outcome [OF assms(1-3), of ext] assms(4) show ?thesis
    by (simp add: expose_def full_redraw_def fails_def)
next
  case False
  with graphic_draw_outcome [OF assms(1-3), of ext] obtain new where
    new: "graphic_draw ext (graphic_of w) = Inr (new, graphic_of w)" by auto
  obtain x y width height where "get_selection_rectangle (graphic_of w) = Inr (x, y, width, height)"
    using positions_return(2) [OF assms(1,3)] by fastforce
  with new False assms(4-) show ?thesis
    by (simp add: expose_def full_redraw_def moving_lines_def)
qed

theorem expose_outcome_witness:
  "fst (expose demo_extents (demo_gui 40)) = Inl ValueError \<and>
   (\<exists>new. fst (expose demo_extents (demo_gui 80)) = Inr new)"
proof -
  have flags: "force_full_redraw (demo_gui t)" "\<not> moving_left (demo_gui t)" "\<not> truth (moving_right (demo_gui t))"
    "\<not> moving_both (demo_gui t)" for t
    by (simp_all add: demo_gui_def size_allocate_def new_gui_def)
  have "fst (expose demo_extents (demo_gui 40)) = Inl ValueError"
    using expose_outcome [OF demo_gui_ok(1,2) _ flags, of 40 demo_extents] demo_gui_ok(3,4) [of 40] by simp
  moreover have "\<exists>new. fst (expose demo_extents (demo_gui 80)) = Inr new"
    using expose_outcome [OF demo_gui_ok(1,2) _ flags, of 80 demo_extents] demo_gui_ok(3,4) [of 80] by simp
  ultimately show ?thesis by blast
qed

section \<open>Moving a handle\<close>

lemma moving_right_past_edge:
  assumes "get_selection_rectangle (graphic_of w) = Inr sel" "\<not> moving_left w" "truth (moving_right w)"
    and "gui_width w = Some width" "width \<le> ex"
  shows "snd (motion_notify ext ex ey w) = w\<lparr>moving_right := Number width\<rparr>"
  using assms by (cases sel) (simp add: motion_notify_def motion_right_def redraw_def)

text \<open>
  Dragging the right handle past the edge of the window. The motion stores the width in the
  flag of the movement instead of the position, so it has no effect on the range: releasing the
  button sets the range as if the pointer had never left the window, with an
  \<^verbatim>\<open>AttributeError\<close> and an unchanged picture when no position was stored before.
\<close>

theorem right_handle_past_edge:
  assumes "get_selection_rectangle (graphic_of w) = Inr sel" "\<not> moving_left w" "truth (moving_right w)"
    and "gui_width w = Some width" "width \<noteq> 0" "width \<le> ex"
  shows "let w' = snd (motion_notify ext ex ey w) in
     fst (button_release ext w') = fst (button_release ext w) \<and>
     graphic_of (snd (button_release ext w')) = graphic_of (snd (button_release ext w)) \<and>
     (moving_right_cur w = None \<longrightarrow>
        fst (button_release ext w') = Inl AttributeError \<and> graphic_of (snd (button_release ext w')) = graphic_of w)"
proof -
  have "snd (motion_notify ext ex ey w) = w\<lparr>moving_right := Number width\<rparr>"
    using moving_right_past_edge assms by blast
  with assms(2,3,5) show ?thesis
    by (auto simp: Let_def button_release_def release_right_def attr_def split: sum.splits)
qed

theorem right_handle_past_edge_witness:
  "let w = snd (gui_step demo_extents (Press 50 140) (demo_gui 40)) in
   truth (moving_right w) \<and> fst (button_release demo_extents (snd (motion_notify demo_extents 120 140 w))) = Inl AttributeError"
proof -
  define w where "w = snd (gui_step demo_extents (Press 50 140) (demo_gui 40))"
  have w: "truth (moving_right w)" "\<not> moving_left w" "moving_right_cur w = None" "gui_width w = Some 100"
    unfolding w_def by code_simp+
  obtain sel where "get_selection_rectangle (graphic_of w) = Inr sel"
    using positions_return(2) [of "graphic_of w"] demo_gui_ok [of 40]
    unfolding w_def snd_gui_step button_press_graphic by force
  from right_handle_past_edge [OF this w(2,1,4), of 120 demo_extents 140] w(1,3) show ?thesis
    unfolding w_def [symmetric] Let_def by auto
qed

text \<open>A click on the left handle without a movement ends in the same exception.\<close>

lemma click_on_left_handle:
  assumes "get_selection_rectangle (graphic_of w) = Inr (x, y, width, height)"
    and "y < ey" "ey < y + height" "\<bar>ex - x\<bar> < 5" "moving_left_cur w = None"
  shows "fst (button_release ext (snd (button_press ex ey w))) = Inl AttributeError"
  using assms
  by (simp add: button_press_def button_release_def release_left_def attr_def fails_def Let_def
      get_data_rectangle_def)

end
