(* ===== verification/XmlTree.thy ===== *)
theory XmlTree
  imports Prelude
begin

text \<open>
  The elements of the standard library module \<^verbatim>\<open>ElementTree\<close>, as far as the programs that read
  XML files use them: \<^verbatim>\<open>test.py\<close> (the results of the tests) and
  \<^verbatim>\<open>flowmon-parse-results.py\<close> (the statistics of the flow monitor).
\<close>

datatype xml = Elem (tag: string) (xtext: "string option") (attrs: "(string, string) dict") (children: "xml list")

text \<open>\<^verbatim>\<open>e.findall(t)\<close>\<close>

definition findall :: "xml \<Rightarrow> string \<Rightarrow> xml list" where
  "findall e t = filter (\<lambda>c. tag c = t) (children e)"

text \<open>\<^verbatim>\<open>e.find(t)\<close>\<close>

definition find_child :: "xml \<Rightarrow> string \<Rightarrow> xml option" where
  "find_child e t = find (\<lambda>c. tag c = t) (children e)"

text \<open>\<^verbatim>\<open>'%s'\<close> of a string or \<^verbatim>\<open>None\<close>\<close>

definition show_opt :: "string option \<Rightarrow> string" where
  "show_opt v = (case v of None \<Rightarrow> ''None'' | Some s \<Rightarrow> s)"

end
