(* ===== verification/FlowMon.thy ===== *)
theory FlowMon
  imports XmlTree Complex_Main
begin

text \<open>
  \<^verbatim>\<open>src/flow-monitor/examples/flowmon-parse-results.py\<close>: the program that reads the XML file
  of a flow monitor and prints the metrics of every flow. The objects \<^verbatim>\<open>Flow\<close> are shared by the
  list \<^verbatim>\<open>flows\<close> and the dictionary \<^verbatim>\<open>flow_map\<close>; here the dictionary holds positions in the
  list. The built-in conversions \<^verbatim>\<open>int\<close> and \<^verbatim>\<open>float\<close> are written out; a float is a rational
  number, so a text that names an infinity or a NaN stops the model with \<open>NotFinite\<close>. The
  attribute \<^verbatim>\<open>fiveTuple\<close> is unset (\<open>None\<close>) until the classifier sets it. A printed number is
  kept with the text around it; its two decimals are the business of the formatting.
\<close>

section \<open>Numbers and times\<close>

datatype flow_error = Py py_error | ParseError | NotFinite

text \<open>Digits with single underscores between them, and what follows.\<close>

fun digit_run :: "string \<Rightarrow> string \<times> string" where
  "digit_run [] = ([], [])"
| "digit_run (c # s) =
     (if is_digit c then (c # fst (digit_run s), snd (digit_run s))
      else if c = CHR ''_'' \<and> s \<noteq> [] \<and> is_digit (hd s) then digit_run s
      else ([], c # s))"

definition digit_part :: "string \<Rightarrow> (string \<times> string) option" where
  "digit_part s = (if s \<noteq> [] \<and> is_digit (hd s) then Some (digit_run s) else None)"

definition read_sign :: "string \<Rightarrow> int \<times> string" where
  "read_sign s =
     (case s of [] \<Rightarrow> (1, [])
      | c # r \<Rightarrow> if c = CHR ''-'' then (-1, r) else if c = CHR ''+'' then (1, r) else (1, s))"

text \<open>\<^verbatim>\<open>int(s)\<close>; the argument is an attribute that may be missing.\<close>

definition int_of :: "string option \<Rightarrow> flow_error + int" where
  "int_of v =
     (case v of None \<Rightarrow> Inl (Py TypeError)
      | Some s \<Rightarrow>
         (case read_sign (strip s) of (g, r) \<Rightarrow>
            (case digit_part r of Some (d, []) \<Rightarrow> Inr (g * int_of_digits d) | _ \<Rightarrow> Inl (Py ValueError))))"

definition power_of_ten :: "int \<Rightarrow> rat" where
  "power_of_ten e = (if 0 \<le> e then 10 ^ nat e else 1 / 10 ^ nat (- e))"

definition read_exponent :: "string \<Rightarrow> int option" where
  "read_exponent s =
     (case s of [] \<Rightarrow> Some 0
      | c # r \<Rightarrow>
         if c = CHR ''e'' \<or> c = CHR ''E''
         then (case read_sign r of (g, t) \<Rightarrow>
                 (case digit_part t of Some (d, []) \<Rightarrow> Some (g * int_of_digits d) | _ \<Rightarrow> None))
         else None)"

definition optional_digits :: "string \<Rightarrow> string \<times> string" where
  "optional_digits s = (case digit_part s of None \<Rightarrow> ([], s) | Some x \<Rightarrow> x)"

definition read_decimal :: "string \<Rightarrow> rat option" where
  "read_decimal s =
     (case optional_digits s of (w, r) \<Rightarrow>
        (case (if r \<noteq> [] \<and> hd r = CHR ''.'' then optional_digits (tl r) else ([], r)) of (f, t) \<Rightarrow>
           if w = [] \<and> f = [] then None
           else map_option (\<lambda>e. of_int (int_of_digits (w @ f)) * power_of_ten (e - int (length f)))
                  (read_exponent t)))"

definition lower :: "char \<Rightarrow> char" where
  "lower c = (let n = of_char c :: nat in if 65 \<le> n \<and> n \<le> 90 then char_of (n + 32) else c)"

text \<open>\<^verbatim>\<open>float(s)\<close>\<close>

definition float_of :: "string option \<Rightarrow> flow_error + rat" where
  "float_of v =
     (case v of None \<Rightarrow> Inl (Py TypeError)
      | Some s \<Rightarrow>
         (case read_sign (strip s) of (g, r) \<Rightarrow>
            if map lower r \<in> {''inf'', ''infinity'', ''nan''} then Inl NotFinite
            else (case read_decimal r of None \<Rightarrow> Inl (Py ValueError) | Some x \<Rightarrow> Inr (of_int g * x))))"

definition parse_time_ns :: "string option \<Rightarrow> flow_error + rat" where
  "parse_time_ns tm =
     (case tm of None \<Rightarrow> Inl (Py AttributeError)
      | Some s \<Rightarrow> if endswith s ''ns'' then float_of (Some (slice_to s (-2))) else Inl (Py ValueError))"

definition int_attr :: "xml \<Rightarrow> string \<Rightarrow> flow_error + int" where
  "int_attr el k = int_of (map_of (attrs el) k)"

definition float_attr :: "xml \<Rightarrow> string \<Rightarrow> flow_error + rat" where
  "float_attr el k = float_of (map_of (attrs el) k)"

definition time_attr :: "xml \<Rightarrow> string \<Rightarrow> flow_error + rat" where
  "time_attr el k = parse_time_ns (map_of (attrs el) k)"

section \<open>The objects\<close>

record five_tuple =
  sourceAddress :: "string option"
  destinationAddress :: "string option"
  sourcePort :: int
  destinationPort :: int
  protocol :: int

definition new_five_tuple :: "xml \<Rightarrow> flow_error + five_tuple" where
  "new_five_tuple el =
     rbind (int_attr el ''sourcePort'') (\<lambda>sp.
     rbind (int_attr el ''destinationPort'') (\<lambda>dp.
     rbind (int_attr el ''protocol'') (\<lambda>p.
       Inr \<lparr>sourceAddress = map_of (attrs el) ''sourceAddress'',
            destinationAddress = map_of (attrs el) ''destinationAddress'',
            sourcePort = sp, destinationPort = dp, protocol = p\<rparr>)))"

text \<open>A histogram is the list of its bins: start, width and count.\<close>

definition new_bin :: "xml \<Rightarrow> flow_error + rat \<times> rat \<times> int" where
  "new_bin b =
     rbind (float_attr b ''start'') (\<lambda>s. rbind (float_attr b ''width'') (\<lambda>w.
     rbind (int_attr b ''count'') (\<lambda>c. Inr (s, w, c))))"

definition new_histogram :: "xml \<Rightarrow> flow_error + (rat \<times> rat \<times> int) list" where
  "new_histogram el = map_res new_bin (findall el ''bin'')"

record probe_flow_stats =
  probeId :: int
  packets :: int
  bytes :: rat
  delayFromFirstProbe :: rat

record flow =
  flowId :: int
  delayMean :: "rat option"
  packetLossRatio :: "rat option"
  rxBitrate :: "rat option"
  txBitrate :: "rat option"
  fiveTuple :: "five_tuple option"
  packetSizeMean :: "rat option"
  probe_stats_unsorted :: "probe_flow_stats list"
  hopCount :: rat
  flowInterruptionsHistogram :: "(rat \<times> rat \<times> int) list option"
  rx_duration :: rat

definition duration :: "xml \<Rightarrow> string \<Rightarrow> string \<Rightarrow> flow_error + rat" where
  "duration el l f =
     rbind (time_attr el l) (\<lambda>a. rbind (time_attr el f) (\<lambda>b. Inr ((a - b) * (1 / 10 ^ 9))))"

text \<open>\<^verbatim>\<open>float(flow_el.get('delaySum')[:-2])\<close>: a missing attribute cannot be sliced.\<close>

definition delay_sum :: "xml \<Rightarrow> flow_error + rat" where
  "delay_sum el =
     (case map_of (attrs el) ''delaySum'' of None \<Rightarrow> Inl (Py TypeError)
      | Some s \<Rightarrow> float_of (Some (slice_to s (-2))))"

definition hop_count :: "xml \<Rightarrow> rat \<Rightarrow> flow_error + rat" where
  "hop_count el rx =
     (if rx \<noteq> 0 then rbind (float_attr el ''timesForwarded'') (\<lambda>n. Inr (n / rx + 1)) else Inr (-1000))"

definition means :: "xml \<Rightarrow> rat \<Rightarrow> flow_error + rat option \<times> rat option" where
  "means el rx =
     (if rx \<noteq> 0
      then rbind (delay_sum el) (\<lambda>d. rbind (float_attr el ''rxBytes'') (\<lambda>b.
             Inr (Some (d / rx * (1 / 10 ^ 9)), Some (b / rx))))
      else Inr (None, None))"

definition bitrate :: "xml \<Rightarrow> string \<Rightarrow> rat \<Rightarrow> flow_error + rat option" where
  "bitrate el k d = (if d > 0 then rbind (float_attr el k) (\<lambda>b. Inr (Some (b * 8 / d))) else Inr None)"

definition loss_ratio :: "rat \<Rightarrow> rat \<Rightarrow> flow_error + rat option" where
  "loss_ratio rx lost =
     (if rx = 0 then Inr None
      else if rx + lost = 0 then Inl (Py ZeroDivisionError)
      else Inr (Some (lost / (rx + lost))))"

definition interruptions :: "xml \<Rightarrow> flow_error + (rat \<times> rat \<times> int) list option" where
  "interruptions el =
     (case find_child el ''flowInterruptionsHistogram'' of None \<Rightarrow> Inr None
      | Some h \<Rightarrow> rbind (new_histogram h) (\<lambda>b. Inr (Some b)))"

definition new_flow :: "xml \<Rightarrow> flow_error + flow" where
  "new_flow el =
     rbind (int_attr el ''flowId'') (\<lambda>i.
     rbind (float_attr el ''rxPackets'') (\<lambda>rx.
     rbind (float_attr el ''txPackets'') (\<lambda>_.
     rbind (duration el ''timeLastTxPacket'' ''timeFirstTxPacket'') (\<lambda>txd.
     rbind (duration el ''timeLastRxPacket'' ''timeFirstRxPacket'') (\<lambda>rxd.
     rbind (hop_count el rx) (\<lambda>hops.
     rbind (means el rx) (\<lambda>(delay, sz).
     rbind (bitrate el ''rxBytes'' rxd) (\<lambda>rxb.
     rbind (bitrate el ''txBytes'' txd) (\<lambda>txb.
     rbind (float_attr el ''lostPackets'') (\<lambda>lost.
     rbind (loss_ratio rx lost) (\<lambda>loss.
     rbind (interruptions el) (\<lambda>hist.
       Inr \<lparr>flowId = i, delayMean = delay, packetLossRatio = loss, rxBitrate = rxb, txBitrate = txb,
            fiveTuple = None, packetSizeMean = sz, probe_stats_unsorted = [], hopCount = hops,
            flowInterruptionsHistogram = hist, rx_duration = rxd\<rparr>))))))))))))"

section \<open>The simulation\<close>

type_synonym sim_state = "flow list \<times> (int, nat) dict"

definition findall_below :: "xml \<Rightarrow> string \<Rightarrow> string \<Rightarrow> xml list" where
  "findall_below el t u = concat (map (\<lambda>c. findall c u) (findall el t))"

definition add_flow :: "sim_state \<Rightarrow> flow \<Rightarrow> flow_error + sim_state" where
  "add_flow s f = Inr (fst s @ [f], AList.update (flowId f) (length (fst s)) (snd s))"

text \<open>\<^verbatim>\<open>flow_map[i]\<close>, changed in place\<close>

definition change_flow :: "(flow \<Rightarrow> flow) \<Rightarrow> int \<Rightarrow> sim_state \<Rightarrow> flow_error + sim_state" where
  "change_flow g i s =
     (case map_of (snd s) i of None \<Rightarrow> Inl (Py KeyError)
      | Some k \<Rightarrow> Inr ((fst s)[k := g (fst s ! k)], snd s))"

definition read_class :: "xml \<Rightarrow> flow_error + int \<times> five_tuple" where
  "read_class el = rbind (int_attr el ''flowId'') (\<lambda>i. rbind (new_five_tuple el) (\<lambda>t. Inr (i, t)))"

definition set_class :: "sim_state \<Rightarrow> int \<times> five_tuple \<Rightarrow> flow_error + sim_state" where
  "set_class s c = change_flow (fiveTuple_update (\<lambda>_. Some (snd c))) (fst c) s"

definition read_stats :: "int \<Rightarrow> xml \<Rightarrow> flow_error + int \<times> probe_flow_stats" where
  "read_stats p el =
     rbind (int_attr el ''flowId'') (\<lambda>i.
     rbind (int_attr el ''packets'') (\<lambda>n.
     rbind (float_attr el ''bytes'') (\<lambda>b.
     rbind (if n > 0 then rbind (time_attr el ''delayFromFirstProbeSum'') (\<lambda>d. Inr (d / of_int n)) else Inr 0) (\<lambda>d.
       Inr (i, \<lparr>probeId = p, packets = n, bytes = b, delayFromFirstProbe = d\<rparr>)))))"

definition append_stats :: "sim_state \<Rightarrow> int \<times> probe_flow_stats \<Rightarrow> flow_error + sim_state" where
  "append_stats s x = change_flow (probe_stats_unsorted_update (\<lambda>xs. xs @ [snd x])) (fst x) s"

definition add_probe :: "sim_state \<Rightarrow> xml \<Rightarrow> flow_error + sim_state" where
  "add_probe s el =
     rbind (int_attr el ''index'') (\<lambda>p.
       for_each (\<lambda>s x. rbind (read_stats p x) (append_stats s)) (findall el ''FlowStats'') s)"

definition new_simulation :: "xml \<Rightarrow> flow_error + flow list" where
  "new_simulation el =
     (case findall el ''Ipv4FlowClassifier'' of
        [c] \<Rightarrow>
          rbind (for_each (\<lambda>s x. rbind (new_flow x) (add_flow s)) (findall_below el ''FlowStats'' ''Flow'') ([], [])) (\<lambda>s.
          rbind (for_each (\<lambda>s x. rbind (read_class x) (set_class s)) (findall c ''Flow'') s) (\<lambda>s.
          rbind (for_each add_probe (findall_below el ''FlowProbes'' ''FlowProbe'') s) (\<lambda>s. Inr (fst s))))
      | _ \<Rightarrow> Inl (Py ValueError))"

section \<open>The program\<close>

datatype xml_event = Start xml | End xml | Malformed

datatype printed = Text string | Float2 string rat string

type_synonym 'a run_result = "printed list \<times> (flow_error + 'a)"

fun read_events :: "int \<Rightarrow> flow list list \<Rightarrow> printed list \<Rightarrow> xml_event list \<Rightarrow> flow list list run_result" where
  "read_events level sims out [] = (out, Inr sims)"
| "read_events level sims out (Malformed # evs) = (out, Inl ParseError)"
| "read_events level sims out (Start el # evs) = read_events (level + 1) sims out evs"
| "read_events level sims out (End el # evs) =
     (if level - 1 = 0 \<and> tag el = ''FlowMonitor''
      then (case new_simulation el of
              Inl e \<Rightarrow> (out, Inl e)
            | Inr sim \<Rightarrow> read_events (level - 1) (sims @ [sim]) (out @ [Text ''.'']) evs)
      else read_events (level - 1) sims out evs)"

definition proto_name :: "int \<Rightarrow> string option" where
  "proto_name = map_of [(6, ''TCP''), (17, ''UDP'')]"

definition end_of_line :: string where
  "end_of_line = [CHR 0x0A]"

definition metric :: "string \<Rightarrow> rat \<Rightarrow> string \<Rightarrow> rat option \<Rightarrow> printed" where
  "metric label scale unit v =
     (case v of None \<Rightarrow> Text (CHR 0x09 # label @ '': None'' @ end_of_line)
      | Some x \<Rightarrow> Float2 (CHR 0x09 # label @ '': '') (x * scale) (unit @ end_of_line))"

definition flow_title :: "flow \<Rightarrow> five_tuple \<Rightarrow> string \<Rightarrow> string" where
  "flow_title f t proto =
     ''FlowID: '' @ show_int (flowId f) @ '' ('' @ proto @ '' '' @ show_opt (sourceAddress t) @ ''/'' @
     show_int (sourcePort t) @ '' --> '' @ show_opt (destinationAddress t) @ ''/'' @
     show_int (destinationPort t) @ '')'' @ end_of_line"

definition flow_metrics :: "flow \<Rightarrow> printed list" where
  "flow_metrics f =
     [metric ''TX bitrate'' (1 / 10 ^ 3) '' kbit/s'' (txBitrate f),
      metric ''RX bitrate'' (1 / 10 ^ 3) '' kbit/s'' (rxBitrate f),
      metric ''Mean Delay'' (10 ^ 3) '' ms'' (delayMean f),
      metric ''Packet Loss Ratio'' 100 '' %'' (packetLossRatio f)]"

fun print_flows :: "printed list \<Rightarrow> flow list \<Rightarrow> unit run_result" where
  "print_flows out [] = (out, Inr ())"
| "print_flows out (f # fs) =
     (case fiveTuple f of
        None \<Rightarrow> (out, Inl (Py AttributeError))
      | Some t \<Rightarrow>
         (case proto_name (protocol t) of
            None \<Rightarrow> (out, Inl (Py KeyError))
          | Some p \<Rightarrow> print_flows (out @ Text (flow_title f t p) # flow_metrics f) fs))"

text \<open>
  The files are a function from names to contents, and \<^verbatim>\<open>iterparse\<close> of the library is an
  argument: the events it yields for a text, ending with \<open>Malformed\<close> where it raises.
\<close>

definition main :: "string list \<Rightarrow> (string \<Rightarrow> string option) \<Rightarrow> (string \<Rightarrow> xml_event list) \<Rightarrow> unit run_result" where
  "main argv files iterparse =
     (case py_index argv 1 of
        Inl e \<Rightarrow> ([], Inl (Py e))
      | Inr name \<Rightarrow>
         (case files name of
            None \<Rightarrow> ([], Inl (Py IOError))
          | Some txt \<Rightarrow>
             (case read_events 0 [] [Text ''Reading XML file  ''] (iterparse txt) of
                (out, Inl e) \<Rightarrow> (out, Inl e)
              | (out, Inr sims) \<Rightarrow> print_flows (out @ [Text ('' done.'' @ end_of_line)]) (concat sims))))"

section \<open>What a simulation holds\<close>

definition read_probe :: "xml \<Rightarrow> flow_error + (int \<times> probe_flow_stats) list" where
  "read_probe el = rbind (int_attr el ''index'') (\<lambda>p. map_res (read_stats p) (findall el ''FlowStats''))"

text \<open>No later flow of the list has the same number.\<close>

definition newest :: "flow list \<Rightarrow> nat \<Rightarrow> bool" where
  "newest fs j = (flowId (fs ! j) \<notin> flowId ` set (drop (Suc j) fs))"

definition assemble ::
    "flow list \<Rightarrow> (int \<times> five_tuple) list \<Rightarrow> (int \<times> probe_flow_stats) list \<Rightarrow> nat \<Rightarrow> flow" where
  "assemble fs cls sts j =
     (if newest fs j
      then (fs ! j)\<lparr>fiveTuple := map_of (rev cls) (flowId (fs ! j)),
                    probe_stats_unsorted := map snd (filter (\<lambda>x. fst x = flowId (fs ! j)) sts)\<rparr>
      else fs ! j)"

lemma add_probe_read:
  "add_probe s el = Inr s' \<longleftrightarrow>
     (\<exists>ys. read_probe el = Inr ys \<and> for_each append_stats ys s = Inr s')"
  by (auto simp: add_probe_def read_probe_def rbind_eq_Inr for_each_read)

lemma add_probes_read:
  "for_each add_probe ps s = Inr s' \<longleftrightarrow>
     (\<exists>yss. map_res read_probe ps = Inr yss \<and> for_each append_stats (concat yss) s = Inr s')"
proof (induction ps arbitrary: s)
  case (Cons p ps)
  show ?case by (auto simp: rbind_eq_Inr add_probe_read Cons.IH for_each_append)
qed simp

text \<open>The dictionary leads from a number to the newest flow with this number.\<close>

definition newest_map :: "flow list \<Rightarrow> (int, nat) dict \<Rightarrow> bool" where
  "newest_map fs m \<longleftrightarrow>
     (\<forall>i j. map_of m i = Some j \<longleftrightarrow> j < length fs \<and> flowId (fs ! j) = i \<and> newest fs j) \<and>
     dom (map_of m) = flowId ` set fs"

lemma newest_snoc:
  "j < length fs \<Longrightarrow> newest (fs @ [f]) j \<longleftrightarrow> newest fs j \<and> flowId (fs ! j) \<noteq> flowId f"
  by (auto simp: newest_def nth_append)

lemma newest_last: "newest (fs @ [f]) (length fs)"
  by (simp add: newest_def)

lemma newest_map_snoc:
  assumes "newest_map fs m"
  shows "newest_map (fs @ [f]) (AList.update (flowId f) (length fs) m)"
proof -
  have "map_of (AList.update (flowId f) (length fs) m) i = Some j \<longleftrightarrow>
      j < length (fs @ [f]) \<and> flowId ((fs @ [f]) ! j) = i \<and> newest (fs @ [f]) j" for i j
    using assms by (cases "j = length fs") (auto simp: newest_map_def nth_append newest_snoc newest_last less_Suc_eq)
  moreover have "dom (map_of (AList.update (flowId f) (length fs) m)) = flowId ` set (fs @ [f])"
    using assms by (simp add: newest_map_def update_conv' del: map_of_update)
  ultimately show ?thesis by (simp add: newest_map_def)
qed

lemma add_flows:
  assumes "newest_map fs m"
  shows "\<exists>m'. for_each add_flow gs (fs, m) = Inr (fs @ gs, m') \<and> newest_map (fs @ gs) m'"
  using assms
proof (induction gs arbitrary: fs m)
  case (Cons g gs)
  from Cons.IH [OF newest_map_snoc [OF Cons.prems, of g]] show ?case by (simp add: add_flow_def)
qed simp

text \<open>A loop that changes flows found by their numbers.\<close>

lemma change_flows:
  assumes "\<And>i j. map_of m i = Some j \<Longrightarrow> j < length fs"
  shows "for_each (\<lambda>s x. change_flow (g x) (k x) s) xs (fs, m) = Inr s' \<longleftrightarrow>
     k ` set xs \<subseteq> dom (map_of m) \<and>
     s' = (map (\<lambda>j. fold g (filter (\<lambda>x. map_of m (k x) = Some j) xs) (fs ! j)) [0..<length fs], m)"
  using assms
proof (induction xs arbitrary: fs)
  case Nil
  show ?case by (auto simp: map_nth)
next
  case (Cons x xs)
  show ?case
  proof (cases "map_of m (k x)")
    case None
    then show ?thesis by (auto simp: change_flow_def)
  next
    case (Some i)
    with Cons.prems have i: "i < length fs" by blast
    from Cons.IH [of "fs[i := g x (fs ! i)]"] Cons.prems Some i show ?thesis
      by (auto simp: change_flow_def nth_list_update intro!: map_cong)
  qed
qed

lemma fold_class:
  "fold (\<lambda>c. fiveTuple_update (\<lambda>_. Some (snd c))) xs f =
     f\<lparr>fiveTuple := if xs = [] then fiveTuple f else Some (snd (last xs))\<rparr>"
  by (induction xs arbitrary: f) simp_all

lemma fold_stats:
  "fold (\<lambda>x. probe_stats_unsorted_update (\<lambda>ys. ys @ [snd x])) xs f =
     f\<lparr>probe_stats_unsorted := probe_stats_unsorted f @ map snd xs\<rparr>"
  by (induction xs arbitrary: f) simp_all

lemma map_of_rev_last:
  "map_of (rev cls) i = (let xs = filter (\<lambda>c. fst c = i) cls in if xs = [] then None else Some (snd (last xs)))"
  by (induction cls rule: rev_induct) (auto simp: Let_def)

lemma new_flow_fresh: "new_flow el = Inr f \<Longrightarrow> fiveTuple f = None \<and> probe_stats_unsorted f = []"
  by (auto simp: new_flow_def rbind_eq_Inr)

lemma assemble_folds:
  assumes m: "newest_map fs m" and j: "j < length fs" and f: "fiveTuple (fs ! j) = None" "probe_stats_unsorted (fs ! j) = []"
  shows "fold (\<lambda>x. probe_stats_unsorted_update (\<lambda>ys. ys @ [snd x])) (filter (\<lambda>x. map_of m (fst x) = Some j) sts)
      (fold (\<lambda>c. fiveTuple_update (\<lambda>_. Some (snd c))) (filter (\<lambda>c. map_of m (fst c) = Some j) cls) (fs ! j)) =
    assemble fs cls sts j"
proof (cases "newest fs j")
  case True
  with m j have "map_of m i = Some j \<longleftrightarrow> i = flowId (fs ! j)" for i by (auto simp: newest_map_def)
  with True f show ?thesis by (simp add: fold_class fold_stats assemble_def map_of_rev_last Let_def)
next
  case False
  with m have "map_of m i \<noteq> Some j" for i by (auto simp: newest_map_def)
  with False show ?thesis by (simp add: assemble_def)
qed

text \<open>The two loops over the classifier and the probes, after the flows are read.\<close>

lemma assemble_loops:
  assumes m: "newest_map fs m" and fresh: "\<And>f. f \<in> set fs \<Longrightarrow> fiveTuple f = None \<and> probe_stats_unsorted f = []"
  shows "(\<exists>s. for_each set_class cls (fs, m) = Inr s \<and> for_each append_stats sts s = Inr (gs, m')) \<longleftrightarrow>
    fst ` set cls \<union> fst ` set sts \<subseteq> flowId ` set fs \<and> m' = m \<and> gs = map (assemble fs cls sts) [0..<length fs]"
proof -
  have dom: "dom (map_of m) = flowId ` set fs" and less: "\<And>i j. map_of m i = Some j \<Longrightarrow> j < length fs"
    using m by (auto simp: newest_map_def)
  define hs where "hs = map (\<lambda>j. fold (\<lambda>c. fiveTuple_update (\<lambda>_. Some (snd c)))
      (filter (\<lambda>c. map_of m (fst c) = Some j) cls) (fs ! j)) [0..<length fs]"
  have cls: "for_each set_class cls (fs, m) = Inr s \<longleftrightarrow> fst ` set cls \<subseteq> flowId ` set fs \<and> s = (hs, m)" for s
    using change_flows [of m fs "\<lambda>c. fiveTuple_update (\<lambda>_. Some (snd c))" fst cls s] less
    by (simp add: set_class_def [abs_def] dom hs_def)
  have len: "length hs = length fs" by (simp add: hs_def)
  have "for_each append_stats sts (hs, m) = Inr (gs, m') \<longleftrightarrow>
      fst ` set sts \<subseteq> flowId ` set fs \<and> (gs, m') = (map (\<lambda>j. fold (\<lambda>x. probe_stats_unsorted_update (\<lambda>ys. ys @ [snd x]))
        (filter (\<lambda>x. map_of m (fst x) = Some j) sts) (hs ! j)) [0..<length fs], m)"
    using change_flows [of m hs "\<lambda>x. probe_stats_unsorted_update (\<lambda>ys. ys @ [snd x])" fst sts "(gs, m')"] less
    by (simp add: append_stats_def [abs_def] dom len)
  moreover have "map (\<lambda>j. fold (\<lambda>x. probe_stats_unsorted_update (\<lambda>ys. ys @ [snd x]))
        (filter (\<lambda>x. map_of m (fst x) = Some j) sts) (hs ! j)) [0..<length fs] = map (assemble fs cls sts) [0..<length fs]"
    using assemble_folds [OF m] fresh by (auto simp: hs_def)
  ultimately show ?thesis using cls by auto
qed

text \<open>
  C19: What a \<^verbatim>\<open>Simulation\<close> holds and when its construction succeeds: exactly when the element has
  one IPv4 classifier, every attribute that is read can be converted, and the classifier and the
  probes name only flows of the statistics. Then the flows are those of the statistics, in their
  order. Of several flows with one number the last has the five-tuple of the classifier (the last
  one for its number) and the statistics of the probes in the order of the file; the others, and
  the flows that the classifier does not name, stay without a five-tuple.
\<close>

theorem new_simulation_correct:
  "new_simulation el = Inr fs \<longleftrightarrow>
     (\<exists>c base cls sts. findall el ''Ipv4FlowClassifier'' = [c] \<and>
        map_res new_flow (findall_below el ''FlowStats'' ''Flow'') = Inr base \<and>
        map_res read_class (findall c ''Flow'') = Inr cls \<and>
        map_res read_probe (findall_below el ''FlowProbes'' ''FlowProbe'') = Inr sts \<and>
        fst ` set cls \<union> fst ` set (concat sts) \<subseteq> flowId ` set base \<and>
        fs = map (assemble base cls (concat sts)) [0..<length base])"
proof -
  let ?els = "findall_below el ''FlowStats'' ''Flow''" and ?ps = "findall_below el ''FlowProbes'' ''FlowProbe''"
  have loops: "(\<exists>s t u. for_each add_flow base ([], []) = Inr s \<and> for_each set_class cls s = Inr t \<and>
        for_each append_stats (concat sts) t = Inr u \<and> fs = fst u) \<longleftrightarrow>
      fst ` set cls \<union> fst ` set (concat sts) \<subseteq> flowId ` set base \<and>
      fs = map (assemble base cls (concat sts)) [0..<length base]"
    if base: "map_res new_flow ?els = Inr base" for base cls sts
  proof -
    have "newest_map [] []" by (simp add: newest_map_def)
    from add_flows [OF this, of base] obtain m where m: "for_each add_flow base ([], []) = Inr (base, m)" "newest_map base m"
      by auto
    have "fiveTuple f = None \<and> probe_stats_unsorted f = []" if "f \<in> set base" for f
      using list_all2_partner [OF base [unfolded map_res_eq_Inr] that] new_flow_fresh by blast
    then have both: "(\<exists>t. for_each set_class cls (base, m) = Inr t \<and> for_each append_stats (concat sts) t = Inr (fs, m')) \<longleftrightarrow>
        fst ` set cls \<union> fst ` set (concat sts) \<subseteq> flowId ` set base \<and> m' = m \<and>
        fs = map (assemble base cls (concat sts)) [0..<length base]" for m'
      by (rule assemble_loops [OF m(2)])
    have "(\<exists>s t u. for_each add_flow base ([], []) = Inr s \<and> for_each set_class cls s = Inr t \<and>
        for_each append_stats (concat sts) t = Inr u \<and> fs = fst u) \<longleftrightarrow>
      (\<exists>m' t. for_each set_class cls (base, m) = Inr t \<and> for_each append_stats (concat sts) t = Inr (fs, m'))"
      by (auto simp: m(1))
    then show ?thesis by (simp only: both simp_thms ex_simps)
  qed
  have "new_simulation el = Inr fs \<longleftrightarrow>
      (\<exists>c. findall el ''Ipv4FlowClassifier'' = [c] \<and>
        (\<exists>s. (\<exists>base. map_res new_flow ?els = Inr base \<and> for_each add_flow base ([], []) = Inr s) \<and>
          (\<exists>t. (\<exists>cls. map_res read_class (findall c ''Flow'') = Inr cls \<and> for_each set_class cls s = Inr t) \<and>
            (\<exists>u. (\<exists>sts. map_res read_probe ?ps = Inr sts \<and> for_each append_stats (concat sts) t = Inr u) \<and> fs = fst u))))"
    by (simp add: new_simulation_def rbind_eq_Inr for_each_read add_probes_read eq_commute [of _ fs] split: list.split)
  also have "\<dots> \<longleftrightarrow> (\<exists>c base cls sts. findall el ''Ipv4FlowClassifier'' = [c] \<and> map_res new_flow ?els = Inr base \<and>
      map_res read_class (findall c ''Flow'') = Inr cls \<and> map_res read_probe ?ps = Inr sts \<and>
      (\<exists>s t u. for_each add_flow base ([], []) = Inr s \<and> for_each set_class cls s = Inr t \<and>
        for_each append_stats (concat sts) t = Inr u \<and> fs = fst u))"
    by blast
  also have "\<dots> \<longleftrightarrow> (\<exists>c base cls sts. findall el ''Ipv4FlowClassifier'' = [c] \<and> map_res new_flow ?els = Inr base \<and>
      map_res read_class (findall c ''Flow'') = Inr cls \<and> map_res read_probe ?ps = Inr sts \<and>
      fst ` set cls \<union> fst ` set (concat sts) \<subseteq> flowId ` set base \<and>
      fs = map (assemble base cls (concat sts)) [0..<length base])"
    by (intro ex_cong1 conj_cong refl loops)
  finally show ?thesis .
qed

section \<open>The report\<close>

text \<open>What \<^verbatim>\<open>iterparse\<close> yields for a well-formed document.\<close>

fun doc_events :: "xml \<Rightarrow> xml_event list" where
  "doc_events (Elem t x a cs) = Start (Elem t x a cs) # concat (map doc_events cs) @ [End (Elem t x a cs)]"

lemma read_events_below:
  "0 < n \<Longrightarrow> read_events n sims out (doc_events el @ evs) = read_events n sims out evs"
proof (induction el arbitrary: n evs rule: doc_events.induct)
  case (1 t x a cs)
  have "read_events (n + 1) sims out (concat (map doc_events ds) @ evs) = read_events (n + 1) sims out evs"
    if "set ds \<subseteq> set cs" for ds evs
    using that by (induction ds) (use 1 in auto)
  with 1 show ?case by simp
qed

lemma read_events_document:
  "read_events 0 [] out (doc_events el) =
     (if tag el = ''FlowMonitor''
      then (case new_simulation el of Inl e \<Rightarrow> (out, Inl e) | Inr fs \<Rightarrow> (out @ [Text ''.''], Inr [fs]))
      else (out, Inr []))"
proof (cases el)
  case (Elem t x a cs)
  have "read_events 1 [] out (concat (map doc_events ds) @ evs) = read_events 1 [] out evs" for ds evs
    by (induction ds) (simp_all add: read_events_below)
  with Elem show ?thesis by (simp split: sum.split)
qed

definition title_of :: "flow \<Rightarrow> string option" where
  "title_of f = (case fiveTuple f of None \<Rightarrow> None
     | Some t \<Rightarrow> map_option (flow_title f t) (proto_name (protocol t)))"

definition flow_report :: "flow \<Rightarrow> printed list" where
  "flow_report f = Text (the (title_of f)) # flow_metrics f"

lemma print_flows_result:
  "print_flows out fs =
     (out @ concat (map flow_report (takeWhile (\<lambda>f. title_of f \<noteq> None) fs)),
      case dropWhile (\<lambda>f. title_of f \<noteq> None) fs of [] \<Rightarrow> Inr ()
      | f # _ \<Rightarrow> Inl (Py (if fiveTuple f = None then AttributeError else KeyError)))"
  by (induction fs arbitrary: out) (auto simp: title_of_def flow_report_def split: option.splits)

text \<open>
  The program on a well-formed document. A document with another root than a flow monitor gives
  an empty report. Otherwise the program fails exactly as the construction of the simulation does,
  and when that succeeds it prints title and metrics of the flows in their order up to the first
  flow that is not classified (\<^verbatim>\<open>AttributeError\<close>) or whose protocol is neither TCP nor UDP
  (\<^verbatim>\<open>KeyError\<close>); it succeeds when there is none.
\<close>

theorem main_report:
  assumes "files name = Some txt" "iterparse txt = doc_events el"
  shows "main (prog # name # rest) files iterparse =
    (let out = Text ''Reading XML file  ''; fin = Text ('' done.'' @ end_of_line) in
     if tag el \<noteq> ''FlowMonitor'' then ([out, fin], Inr ())
     else (case new_simulation el of
             Inl e \<Rightarrow> ([out], Inl e)
           | Inr fs \<Rightarrow>
              ([out, Text ''.'', fin] @ concat (map flow_report (takeWhile (\<lambda>f. title_of f \<noteq> None) fs)),
               case dropWhile (\<lambda>f. title_of f \<noteq> None) fs of [] \<Rightarrow> Inr ()
               | f # _ \<Rightarrow> Inl (Py (if fiveTuple f = None then AttributeError else KeyError)))))"
  using assms by (simp add: main_def py_index_def read_events_document print_flows_result Let_def split: sum.split)

text \<open>A document with two flows, of which the IPv4 classifier names one.\<close>

definition demo_flow :: "string \<Rightarrow> xml" where
  "demo_flow i = Elem ''Flow'' None
     [(''flowId'', i), (''rxPackets'', ''0''), (''txPackets'', ''5''), (''lostPackets'', ''5''), (''txBytes'', ''250''),
      (''timeFirstTxPacket'', ''+1e+9ns''), (''timeLastTxPacket'', ''+2.0e+09ns''),
      (''timeFirstRxPacket'', ''+0.0ns''), (''timeLastRxPacket'', ''+0.0ns'')] []"

definition demo_class :: xml where
  "demo_class = Elem ''Flow'' None
     [(''flowId'', ''1''), (''sourceAddress'', ''10.0.0.1''), (''destinationAddress'', ''10.0.0.2''),
      (''protocol'', ''17''), (''sourcePort'', ''49''), (''destinationPort'', ''9'')] []"

definition demo_doc :: xml where
  "demo_doc = Elem ''FlowMonitor'' None []
     [Elem ''FlowStats'' None [] [demo_flow ''1'', demo_flow ''2''],
      Elem ''Ipv4FlowClassifier'' None [] [demo_class]]"

theorem main_report_witness:
  "main [''prog'', ''x.xml''] (\<lambda>_. Some []) (\<lambda>_. doc_events demo_doc) =
     ([Text ''Reading XML file  '', Text ''.'', Text ('' done.'' @ end_of_line),
       Text (''FlowID: 1 (UDP 10.0.0.1/49 --> 10.0.0.2/9)'' @ end_of_line),
       Float2 (CHR 0x09 # ''TX bitrate: '') 2 ('' kbit/s'' @ end_of_line),
       Text (CHR 0x09 # ''RX bitrate: None'' @ end_of_line), Text (CHR 0x09 # ''Mean Delay: None'' @ end_of_line),
       Text (CHR 0x09 # ''Packet Loss Ratio: None'' @ end_of_line)], Inl (Py AttributeError))"
  by (subst main_report [of _ _ "[]" _ demo_doc]) (rule refl, rule refl, code_simp)

end
