(* ===== verification/VizThread.thy ===== *)
theory VizThread
  imports Prelude Complex_Main
begin

text \<open>
  The two threads of the visualizer \<^verbatim>\<open>src/visualizer/visualizer/core.py\<close>: the simulation thread
  (\<^verbatim>\<open>SimulationThread.run\<close>) and the main thread with its event loop, its update timer, the
  play button and the callbacks that take the simulation lock. Both are step relations on one
  state, so all interleavings are covered. Each statement that touches what the threads share
  (lock, event \<^verbatim>\<open>go\<close>, flag \<^verbatim>\<open>quit\<close>) is a step of its own; statements under the lock that
  touch only what the lock protects are taken together.

  The simulator is C++ code and a parameter: its clock, running it up to a time, which returns
  the pause messages, and moving a node. Times are rational numbers. Timers fire and users click at
  any moment. The loop \<^verbatim>\<open>while not lock.acquire(False)\<close> of \<^verbatim>\<open>update_view_timeout\<close> runs the
  event loop while it waits, so callbacks, also of another timer, can run inside it: \<open>frames\<close>
  are the activations that wait, innermost first.
\<close>

section \<open>The state\<close>

datatype thread = SimulationThread | MainThread

datatype sim_pc =
    LoopTest
  | WaitGo
  | ClearGo
  | TestQuit
  | AcquireLock
  | RunSimulator
  | ExtendMessages "string list"
  | IdleAdd
  | ReleaseLock
  | Ended

text \<open>The callbacks that take the lock, by what they do under it.\<close>

datatype locked_op =
    UpdateModel
  | SetNodesOfInterest "nat list"
  | MoveNode nat rat rat
  | ReadSimulator

datatype main_pc =
    EventLoop
  | TryLock
  | Updating "string list"
  | AfterUpdate "string list"
  | WaitLock locked_op
  | InLock locked_op
  | QuitSignal
  | Joining
  | Exited

record 'w simulator =
  sim_now :: "'w \<Rightarrow> rat"
  run_until :: "'w \<Rightarrow> rat \<Rightarrow> 'w \<times> string list"
  move_node :: "nat \<Rightarrow> rat \<Rightarrow> rat \<Rightarrow> 'w \<Rightarrow> 'w"

text \<open>
  The last five fields are observations: the time of the last update of the view, the messages
  shown and those the simulator has issued, and how often it ran and the model was updated.
\<close>

record 'w viz =
  sim_lock :: "thread option"
  go :: bool
  quit :: bool
  target_time :: rat
  pause_messages :: "string list"
  nodes_of_interest :: "nat list"
  world :: 'w
  sim_at :: sim_pc
  main_at :: main_pc
  frames :: "nat list"
  main_quit :: bool
  playing :: bool
  timers :: "nat list"
  update_timeout_id :: "nat option"
  next_id :: nat
  sample_period :: rat
  idle_updates :: nat
  view_time :: rat
  shown :: "string list"
  issued :: "string list"
  runs :: nat
  updates :: nat

section \<open>The simulation thread\<close>

inductive sim_step :: "'w simulator \<Rightarrow> 'w viz \<Rightarrow> 'w viz \<Rightarrow> bool" for sim where
  loop_ends: "sim_at s = LoopTest \<Longrightarrow> quit s \<Longrightarrow> sim_step sim s (s\<lparr>sim_at := Ended\<rparr>)"
| loop_goes_on: "sim_at s = LoopTest \<Longrightarrow> \<not> quit s \<Longrightarrow> sim_step sim s (s\<lparr>sim_at := WaitGo\<rparr>)"
| go_wait: "sim_at s = WaitGo \<Longrightarrow> go s \<Longrightarrow> sim_step sim s (s\<lparr>sim_at := ClearGo\<rparr>)"
| go_clear: "sim_at s = ClearGo \<Longrightarrow> sim_step sim s (s\<lparr>go := False, sim_at := TestQuit\<rparr>)"
| quit_breaks: "sim_at s = TestQuit \<Longrightarrow> quit s \<Longrightarrow> sim_step sim s (s\<lparr>sim_at := Ended\<rparr>)"
| no_quit: "sim_at s = TestQuit \<Longrightarrow> \<not> quit s \<Longrightarrow> sim_step sim s (s\<lparr>sim_at := AcquireLock\<rparr>)"
| sim_acquire: "sim_at s = AcquireLock \<Longrightarrow> sim_lock s = None \<Longrightarrow>
    sim_step sim s (s\<lparr>sim_lock := Some SimulationThread, sim_at := RunSimulator\<rparr>)"
| run_simulator: "sim_at s = RunSimulator \<Longrightarrow> run_until sim (world s) (target_time s) = (w, ms) \<Longrightarrow>
    sim_step sim s (s\<lparr>world := w, issued := issued s @ ms, runs := Suc (runs s), sim_at := ExtendMessages ms\<rparr>)"
| extend_messages: "sim_at s = ExtendMessages ms \<Longrightarrow>
    sim_step sim s (s\<lparr>pause_messages := pause_messages s @ ms, sim_at := IdleAdd\<rparr>)"
| idle_add: "sim_at s = IdleAdd \<Longrightarrow>
    sim_step sim s (s\<lparr>idle_updates := Suc (idle_updates s), sim_at := ReleaseLock\<rparr>)"
| sim_release: "sim_at s = ReleaseLock \<Longrightarrow> sim_step sim s (s\<lparr>sim_lock := None, sim_at := LoopTest\<rparr>)"

section \<open>The main thread\<close>

definition remove_source :: "nat \<Rightarrow> 'w viz \<Rightarrow> 'w viz" where
  "remove_source i s = s\<lparr>timers := filter (\<lambda>t. t \<noteq> i) (timers s)\<rparr>"

definition remove_current :: "'w viz \<Rightarrow> 'w viz" where
  "remove_current s = (case update_timeout_id s of None \<Rightarrow> s | Some i \<Rightarrow> remove_source i s)"

definition start_update_timer :: "'w viz \<Rightarrow> 'w viz" where
  "start_update_timer s =
     (let s = remove_current s in
      s\<lparr>timers := timers s @ [next_id s], update_timeout_id := Some (next_id s), next_id := Suc (next_id s)\<rparr>)"

text \<open>The play button changes its state and calls \<^verbatim>\<open>_on_play_button_toggled\<close>.\<close>

definition toggle_play :: "'w viz \<Rightarrow> 'w viz" where
  "toggle_play s =
     (let s = s\<lparr>playing := \<not> playing s\<rparr> in if playing s then start_update_timer s else remove_current s)"

text \<open>\<^verbatim>\<open>_speed_changed\<close>, with \<^verbatim>\<open>SAMPLE_PERIOD = 0.1\<close>\<close>

definition speed_changed :: "rat \<Rightarrow> 'w viz \<Rightarrow> 'w viz" where
  "speed_changed speed s = start_update_timer (s\<lparr>sample_period := 1 / 10 * speed\<rparr>)"

text \<open>\<^verbatim>\<open>update_view_timeout\<close> under the lock: update the view and set the next target.\<close>

definition update_view :: "'w simulator \<Rightarrow> 'w viz \<Rightarrow> 'w viz" where
  "update_view sim s =
     s\<lparr>view_time := sim_now sim (world s), target_time := sim_now sim (world s) + sample_period s\<rparr>"

text \<open>
  The end of \<^verbatim>\<open>update_view_timeout\<close>, called by the timer \<open>t\<close>. \<^verbatim>\<open>set_active(False)\<close> toggles
  the button when it is active; returning \<^verbatim>\<open>False\<close> removes the timer.
\<close>

definition show_messages :: "string list \<Rightarrow> 'w viz \<Rightarrow> 'w viz" where
  "show_messages ms s =
     (if ms \<noteq> [] then let s = s\<lparr>shown := shown s @ ms\<rparr> in if playing s then toggle_play s else s else s)"

definition end_update :: "nat \<Rightarrow> string list \<Rightarrow> 'w viz \<Rightarrow> 'w viz" where
  "end_update t ms s =
     (let s = show_messages ms s in
      if \<not> playing s then remove_source t (s\<lparr>update_timeout_id := None\<rparr>) else s\<lparr>go := True\<rparr>)"

fun perform :: "'w simulator \<Rightarrow> locked_op \<Rightarrow> 'w viz \<Rightarrow> 'w viz" where
  "perform sim UpdateModel s = s\<lparr>updates := Suc (updates s)\<rparr>"
| "perform sim (SetNodesOfInterest ns) s = s\<lparr>nodes_of_interest := ns\<rparr>"
| "perform sim (MoveNode n x y) s = s\<lparr>world := move_node sim n x y (world s)\<rparr>"
| "perform sim ReadSimulator s = s"

text \<open>
  The steps. In the event loop (the outer one, or the one of a waiting update) a timer fires that
  is not being dispatched, the user acts, or an idle callback runs. The speed control has the
  bounds 0.01 and 10. \<^verbatim>\<open>_quit\<close> removes the timer, sets \<^verbatim>\<open>quit\<close>, then \<^verbatim>\<open>go\<close>, and joins the
  simulation thread.
\<close>

inductive main_step :: "'w simulator \<Rightarrow> 'w viz \<Rightarrow> 'w viz \<Rightarrow> bool" for sim where
  timer_fires: "main_at s = EventLoop \<Longrightarrow> t \<in> set (timers s) \<Longrightarrow> t \<notin> set (frames s) \<Longrightarrow>
    main_step sim s (s\<lparr>frames := t # frames s, main_at := TryLock\<rparr>)"
| update_waits: "main_at s = TryLock \<Longrightarrow> sim_lock s \<noteq> None \<Longrightarrow> main_step sim s (s\<lparr>main_at := EventLoop\<rparr>)"
| update_retries: "main_at s = EventLoop \<Longrightarrow> frames s \<noteq> [] \<Longrightarrow> main_step sim s (s\<lparr>main_at := TryLock\<rparr>)"
| update_acquires: "main_at s = TryLock \<Longrightarrow> sim_lock s = None \<Longrightarrow>
    main_step sim s (s\<lparr>sim_lock := Some MainThread, main_at := Updating (pause_messages s), pause_messages := []\<rparr>)"
| update_runs: "main_at s = Updating ms \<Longrightarrow>
    main_step sim s ((update_view sim s)\<lparr>sim_lock := None, main_at := AfterUpdate ms\<rparr>)"
| update_ends: "main_at s = AfterUpdate ms \<Longrightarrow> frames s = t # ts \<Longrightarrow>
    main_step sim s ((end_update t ms s)\<lparr>frames := ts, main_at := EventLoop\<rparr>)"
| play_toggled: "main_at s = EventLoop \<Longrightarrow> main_step sim s (toggle_play s)"
| speed_set: "main_at s = EventLoop \<Longrightarrow> 1 / 100 \<le> v \<Longrightarrow> v \<le> 10 \<Longrightarrow> main_step sim s (speed_changed v s)"
| idle_runs: "main_at s = EventLoop \<Longrightarrow> idle_updates s = Suc n \<Longrightarrow>
    main_step sim s (s\<lparr>idle_updates := n, main_at := WaitLock UpdateModel\<rparr>)"
| callback: "main_at s = EventLoop \<Longrightarrow> c \<noteq> UpdateModel \<Longrightarrow> main_step sim s (s\<lparr>main_at := WaitLock c\<rparr>)"
| main_acquire: "main_at s = WaitLock c \<Longrightarrow> sim_lock s = None \<Longrightarrow>
    main_step sim s (s\<lparr>sim_lock := Some MainThread, main_at := InLock c\<rparr>)"
| main_release: "main_at s = InLock c \<Longrightarrow>
    main_step sim s ((perform sim c s)\<lparr>sim_lock := None, main_at := EventLoop\<rparr>)"
| quit_requested: "main_at s = EventLoop \<Longrightarrow>
    main_step sim s ((remove_current s)\<lparr>update_timeout_id := None, quit := True, main_at := QuitSignal\<rparr>)"
| quit_signalled: "main_at s = QuitSignal \<Longrightarrow> main_step sim s (s\<lparr>go := True, main_at := Joining\<rparr>)"
| joined: "main_at s = Joining \<Longrightarrow> sim_at s = Ended \<Longrightarrow>
    main_step sim s (s\<lparr>main_quit := True, main_at := EventLoop\<rparr>)"
| loop_exits: "main_at s = EventLoop \<Longrightarrow> main_quit s \<Longrightarrow> frames s = [] \<Longrightarrow>
    main_step sim s (s\<lparr>main_at := Exited\<rparr>)"

definition viz_step :: "'w simulator \<Rightarrow> 'w viz \<Rightarrow> 'w viz \<Rightarrow> bool" where
  "viz_step sim s s' = (sim_step sim s s' \<or> main_step sim s s')"

inductive_cases sim_stepE: "sim_step sim s s'"
inductive_cases main_stepE: "main_step sim s s'"

text \<open>
  The state in which \<^verbatim>\<open>start\<close> enters the event loop: \<^verbatim>\<open>create_gui\<close> has set the speed 1 and so
  started a timer, all \<open>n\<close> nodes are of interest, the simulator is at time zero.
\<close>

definition start_viz :: "nat \<Rightarrow> 'w \<Rightarrow> 'w viz" where
  "start_viz n w =
     \<lparr>sim_lock = None, go = False, quit = False, target_time = 0, pause_messages = [],
      nodes_of_interest = [0..<n], world = w, sim_at = LoopTest, main_at = EventLoop, frames = [],
      main_quit = False, playing = False, timers = [0], update_timeout_id = Some 0, next_id = 1,
      sample_period = 1 / 10, idle_updates = 0, view_time = 0, shown = [], issued = [], runs = 0, updates = 0\<rparr>"

section \<open>Who holds the lock\<close>

fun sim_holds :: "sim_pc \<Rightarrow> bool" where
  "sim_holds RunSimulator = True"
| "sim_holds (ExtendMessages ms) = True"
| "sim_holds IdleAdd = True"
| "sim_holds ReleaseLock = True"
| "sim_holds _ = False"

fun main_holds :: "main_pc \<Rightarrow> bool" where
  "main_holds (Updating ms) = True"
| "main_holds (InLock c) = True"
| "main_holds _ = False"

lemma timer_fields [simp]:
  "sim_lock (remove_current s) = sim_lock s" "sim_at (remove_current s) = sim_at s" "main_at (remove_current s) = main_at s"
  "go (remove_current s) = go s" "quit (remove_current s) = quit s" "frames (remove_current s) = frames s"
  "sim_lock (start_update_timer s) = sim_lock s" "sim_at (start_update_timer s) = sim_at s"
  "main_at (start_update_timer s) = main_at s" "go (start_update_timer s) = go s" "quit (start_update_timer s) = quit s"
  "frames (start_update_timer s) = frames s"
  by (simp_all add: remove_current_def remove_source_def start_update_timer_def Let_def split: option.splits)

lemma timer_fields' [simp]:
  "pause_messages (remove_current s) = pause_messages s" "issued (remove_current s) = issued s" "shown (remove_current s) = shown s"
  "world (remove_current s) = world s" "target_time (remove_current s) = target_time s" "view_time (remove_current s) = view_time s"
  "sample_period (remove_current s) = sample_period s" "runs (remove_current s) = runs s" "updates (remove_current s) = updates s"
  "idle_updates (remove_current s) = idle_updates s" "playing (remove_current s) = playing s"
  "pause_messages (start_update_timer s) = pause_messages s" "issued (start_update_timer s) = issued s"
  "shown (start_update_timer s) = shown s" "world (start_update_timer s) = world s"
  "target_time (start_update_timer s) = target_time s" "view_time (start_update_timer s) = view_time s"
  "sample_period (start_update_timer s) = sample_period s" "runs (start_update_timer s) = runs s"
  "updates (start_update_timer s) = updates s" "idle_updates (start_update_timer s) = idle_updates s"
  "playing (start_update_timer s) = playing s"
  by (simp_all add: remove_current_def remove_source_def start_update_timer_def Let_def split: option.splits)

lemma toggle_fields [simp]:
  "sim_lock (toggle_play s) = sim_lock s" "sim_at (toggle_play s) = sim_at s" "main_at (toggle_play s) = main_at s"
  "go (toggle_play s) = go s" "quit (toggle_play s) = quit s" "frames (toggle_play s) = frames s"
  "pause_messages (toggle_play s) = pause_messages s" "issued (toggle_play s) = issued s" "shown (toggle_play s) = shown s"
  "world (toggle_play s) = world s" "target_time (toggle_play s) = target_time s" "view_time (toggle_play s) = view_time s"
  "sample_period (toggle_play s) = sample_period s" "runs (toggle_play s) = runs s" "updates (toggle_play s) = updates s"
  "idle_updates (toggle_play s) = idle_updates s" "playing (toggle_play s) = (\<not> playing s)"
  by (simp_all add: toggle_play_def Let_def)

lemma end_update_fields [simp]:
  "sim_lock (end_update t ms s) = sim_lock s" "sim_at (end_update t ms s) = sim_at s" "main_at (end_update t ms s) = main_at s"
  "quit (end_update t ms s) = quit s" "frames (end_update t ms s) = frames s"
  "pause_messages (end_update t ms s) = pause_messages s" "issued (end_update t ms s) = issued s"
  "shown (end_update t ms s) = shown s @ ms" "world (end_update t ms s) = world s"
  "target_time (end_update t ms s) = target_time s" "view_time (end_update t ms s) = view_time s"
  "sample_period (end_update t ms s) = sample_period s" "runs (end_update t ms s) = runs s"
  "updates (end_update t ms s) = updates s" "idle_updates (end_update t ms s) = idle_updates s"
  "go (end_update t ms s) = (go s \<or> ms = [] \<and> playing s)"
  by (auto simp: end_update_def show_messages_def remove_source_def Let_def)

lemma perform_fields [simp]:
  "sim_lock (perform sim c s) = sim_lock s" "sim_at (perform sim c s) = sim_at s" "main_at (perform sim c s) = main_at s"
  "go (perform sim c s) = go s" "quit (perform sim c s) = quit s" "frames (perform sim c s) = frames s"
  "pause_messages (perform sim c s) = pause_messages s" "issued (perform sim c s) = issued s" "shown (perform sim c s) = shown s"
  "target_time (perform sim c s) = target_time s" "view_time (perform sim c s) = view_time s"
  "sample_period (perform sim c s) = sample_period s" "runs (perform sim c s) = runs s"
  "idle_updates (perform sim c s) = idle_updates s" "timers (perform sim c s) = timers s"
  "update_timeout_id (perform sim c s) = update_timeout_id s" "next_id (perform sim c s) = next_id s"
  "playing (perform sim c s) = playing s"
  by (cases c; simp)+

lemma view_fields [simp]:
  "sim_lock (update_view sim s) = sim_lock s" "sim_at (update_view sim s) = sim_at s" "main_at (update_view sim s) = main_at s"
  "go (update_view sim s) = go s" "quit (update_view sim s) = quit s" "frames (update_view sim s) = frames s"
  "sim_lock (speed_changed v s) = sim_lock s" "sim_at (speed_changed v s) = sim_at s" "main_at (speed_changed v s) = main_at s"
  "go (speed_changed v s) = go s" "quit (speed_changed v s) = quit s" "frames (speed_changed v s) = frames s"
  "sample_period (speed_changed v s) = 1 / 10 * v"
  by (simp_all add: update_view_def speed_changed_def)

lemma interest_fields:
  "nodes_of_interest (remove_current s) = nodes_of_interest s"
  "nodes_of_interest (start_update_timer s) = nodes_of_interest s"
  "nodes_of_interest (toggle_play s) = nodes_of_interest s"
  "nodes_of_interest (end_update t ms s) = nodes_of_interest s"
  by (auto simp: remove_current_def remove_source_def start_update_timer_def toggle_play_def end_update_def
      show_messages_def Let_def split: option.splits)

text \<open>
  The lock is held by exactly the thread that is in a section protected by it; once \<^verbatim>\<open>_quit\<close>
  has set the event, the simulation thread does not wait for it in vain; an update that goes on
  after the lock has its frame.
\<close>

definition threads_ok :: "'w viz \<Rightarrow> bool" where
  "threads_ok s =
     ((sim_lock s = Some SimulationThread \<longleftrightarrow> sim_holds (sim_at s)) \<and>
      (sim_lock s = Some MainThread \<longleftrightarrow> main_holds (main_at s)) \<and>
      (quit s \<and> main_at s \<noteq> QuitSignal \<and> sim_at s = WaitGo \<longrightarrow> go s) \<and>
      (main_at s = QuitSignal \<or> main_at s = Joining \<longrightarrow> quit s) \<and>
      (main_at s = TryLock \<or> (\<exists>ms. main_at s = Updating ms \<or> main_at s = AfterUpdate ms) \<longrightarrow> frames s \<noteq> []))"

lemma threads_ok_sim: "threads_ok s \<Longrightarrow> sim_step sim s s' \<Longrightarrow> threads_ok s'"
  by (erule sim_stepE) (auto simp: threads_ok_def)

lemma threads_ok_main: "threads_ok s \<Longrightarrow> main_step sim s s' \<Longrightarrow> threads_ok s'"
  by (erule main_stepE) (auto simp: threads_ok_def)

lemma threads_ok_start: "threads_ok (start_viz n w)"
  by (simp add: threads_ok_def start_viz_def)

lemma reachable_invariant:
  assumes "(viz_step sim)\<^sup>*\<^sup>* (start_viz n w) s" "I (start_viz n w)"
    and "\<And>s s'. I s \<Longrightarrow> sim_step sim s s' \<Longrightarrow> I s'" "\<And>s s'. I s \<Longrightarrow> main_step sim s s' \<Longrightarrow> I s'"
  shows "I s"
  using assms(1)
proof (induction rule: rtranclp_induct)
  case base
  show ?case by (rule assms(2))
next
  case (step s s')
  from step.hyps(2) have "sim_step sim s s' \<or> main_step sim s s'" by (simp add: viz_step_def)
  with step.IH show ?case by (elim disjE) (rule assms(3,4); assumption)+
qed

lemma reachable_threads_ok: "(viz_step sim)\<^sup>*\<^sup>* (start_viz n w) s \<Longrightarrow> threads_ok s"
  by (erule reachable_invariant [where I = threads_ok])
     (fact threads_ok_start threads_ok_sim threads_ok_main)+

section \<open>The lock protects the simulator\<close>

text \<open>
  C5: Mutual exclusion. In every reachable state at most one thread is in a section protected by
  the simulation lock, and the lock is free exactly when none is. A thread that changes the
  simulator, the nodes of interest, the target time or the pending messages holds the lock
  before or after that step.
\<close>

theorem simulator_protected:
  assumes "(viz_step sim)\<^sup>*\<^sup>* (start_viz n w) s"
  shows "\<not> (sim_holds (sim_at s) \<and> main_holds (main_at s)) \<and>
    (sim_lock s = None \<longleftrightarrow> \<not> sim_holds (sim_at s) \<and> \<not> main_holds (main_at s)) \<and>
    (\<forall>s'. (sim_step sim s s' \<longrightarrow> sim_lock s = Some SimulationThread \<or>
         world s' = world s \<and> nodes_of_interest s' = nodes_of_interest s \<and> target_time s' = target_time s \<and>
         pause_messages s' = pause_messages s) \<and>
       (main_step sim s s' \<longrightarrow> sim_lock s = Some MainThread \<or> sim_lock s' = Some MainThread \<or>
         world s' = world s \<and> nodes_of_interest s' = nodes_of_interest s \<and> target_time s' = target_time s \<and>
         pause_messages s' = pause_messages s))"
proof -
  have ok: "threads_ok s" by (rule reachable_threads_ok [OF assms])
  have "sim_lock s = Some SimulationThread \<or> world s' = world s \<and> nodes_of_interest s' = nodes_of_interest s \<and>
      target_time s' = target_time s \<and> pause_messages s' = pause_messages s" if "sim_step sim s s'" for s'
    using that ok by (cases rule: sim_step.cases) (simp_all add: threads_ok_def)
  moreover have "sim_lock s = Some MainThread \<or> sim_lock s' = Some MainThread \<or>
      world s' = world s \<and> nodes_of_interest s' = nodes_of_interest s \<and> target_time s' = target_time s \<and>
      pause_messages s' = pause_messages s" if "main_step sim s s'" for s'
    using that ok
    by (cases rule: main_step.cases) (auto simp: threads_ok_def speed_changed_def interest_fields)
  moreover have "sim_lock s = None \<longleftrightarrow> \<not> sim_holds (sim_at s) \<and> \<not> main_holds (main_at s)"
    using ok by (cases "sim_lock s"; cases "the (sim_lock s)") (auto simp: threads_ok_def)
  moreover have "\<not> (sim_holds (sim_at s) \<and> main_holds (main_at s))"
    using ok unfolding threads_ok_def by force
  ultimately show ?thesis by blast
qed

section \<open>The main thread is never blocked for ever\<close>

text \<open>How many steps the simulation thread can make without the main thread.\<close>

fun sim_rank :: "sim_pc \<Rightarrow> nat" where
  "sim_rank ClearGo = 8"
| "sim_rank TestQuit = 7"
| "sim_rank AcquireLock = 6"
| "sim_rank RunSimulator = 5"
| "sim_rank (ExtendMessages ms) = 4"
| "sim_rank IdleAdd = 3"
| "sim_rank ReleaseLock = 2"
| "sim_rank LoopTest = 1"
| "sim_rank _ = 0"

definition sim_weight :: "'w viz \<Rightarrow> nat" where
  "sim_weight s = sim_rank (sim_at s) + (if go s \<and> sim_at s \<noteq> ClearGo \<and> sim_at s \<noteq> Ended then 9 else 0)"

lemma sim_weight_bound: "sim_weight s \<le> 16"
  by (cases "sim_at s") (simp_all add: sim_weight_def)

definition blocked :: "'w viz \<Rightarrow> bool" where
  "blocked s = (main_at s = Joining \<or> (\<exists>c. main_at s = WaitLock c))"

definition can_go_on :: "'w viz \<Rightarrow> bool" where
  "can_go_on s = (if main_at s = Joining then sim_at s = Ended else sim_lock s = None)"

lemma sim_step_progress:
  assumes "threads_ok s" "blocked s" "\<not> can_go_on s"
  shows "\<exists>s'. sim_step sim s s'"
proof -
  have lock: "sim_lock s \<noteq> Some MainThread"
    using assms(1,2) by (auto simp: threads_ok_def blocked_def)
  then have free: "sim_lock s = None" if "sim_at s = AcquireLock"
    using that assms(1) by (cases "sim_lock s"; cases "the (sim_lock s)") (auto simp: threads_ok_def)
  have go: "go s" if "sim_at s = WaitGo"
    using that assms lock by (cases "the (sim_lock s)") (auto simp: threads_ok_def blocked_def can_go_on_def split: if_splits)
  have "sim_at s \<noteq> Ended"
    using assms lock by (cases "the (sim_lock s)") (auto simp: threads_ok_def can_go_on_def split: if_splits)
  then show ?thesis
    using free go by (cases "sim_at s"; cases "quit s"; cases "run_until sim (world s) (target_time s)")
      (blast intro: sim_step.intros)+
qed

interpretation simulation: terminating_system "sim_step sim" "\<lambda>s. threads_ok s \<and> blocked s" sim_weight can_go_on
proof
  fix s s' :: "'a viz"
  assume "threads_ok s \<and> blocked s" "sim_step sim s s'"
  then show "threads_ok s' \<and> blocked s'"
    using threads_ok_sim [of s sim s'] by (auto simp: blocked_def elim!: sim_stepE)
next
  fix s s' :: "'a viz"
  assume "sim_step sim s s'"
  then show "sim_weight s' < sim_weight s" by (auto simp: sim_weight_def elim!: sim_stepE)
qed (use sim_step_progress in blast)

text \<open>
  C4: No deadlock. Whenever the main thread is blocked, in a callback that waits for the
  lock or in \<^verbatim>\<open>_quit\<close> joining the simulation thread, the simulation thread stops after at most
  16 of its own steps, whatever the simulator does, and then the main thread can go on. So closing
  the window always ends both threads.
\<close>

theorem main_never_blocked:
  assumes "(viz_step sim)\<^sup>*\<^sup>* (start_viz n w) s" "blocked s"
  shows "(\<forall>k s'. (sim_step sim ^^ k) s s' \<longrightarrow> k \<le> 16) \<and>
    (\<forall>s'. (sim_step sim)\<^sup>*\<^sup>* s s' \<and> (\<nexists>t. sim_step sim s' t) \<longrightarrow> (\<exists>t. main_step sim s' t))"
proof (intro conjI allI impI)
  fix k s'
  assume "(sim_step sim ^^ k) s s'"
  then show "k \<le> 16" using simulation.execution_bounded [of k sim s s'] sim_weight_bound [of s] by linarith
next
  fix s'
  assume *: "(sim_step sim)\<^sup>*\<^sup>* s s' \<and> (\<nexists>t. sim_step sim s' t)"
  have s: "threads_ok s \<and> blocked s" using reachable_threads_ok [OF assms(1)] assms(2) by simp
  have "can_go_on s'" using simulation.stuck_final [OF s] * by blast
  moreover have "blocked s'" using simulation.inv_execution [OF _ s] * by blast
  ultimately show "\<exists>t. main_step sim s' t"
    by (auto simp: can_go_on_def blocked_def intro: joined main_acquire split: if_splits)
qed

section \<open>Messages and updates of the model\<close>

fun taken :: "main_pc \<Rightarrow> string list" where
  "taken (Updating ms) = ms"
| "taken (AfterUpdate ms) = ms"
| "taken _ = []"

fun not_stored :: "sim_pc \<Rightarrow> string list" where
  "not_stored (ExtendMessages ms) = ms"
| "not_stored _ = []"

definition updates_due :: "'w viz \<Rightarrow> nat" where
  "updates_due s =
     idle_updates s + (if main_at s = WaitLock UpdateModel \<or> main_at s = InLock UpdateModel then 1 else 0) +
     (if sim_at s = IdleAdd \<or> (\<exists>ms. sim_at s = ExtendMessages ms) then 1 else 0)"

definition accounts_ok :: "'w viz \<Rightarrow> bool" where
  "accounts_ok s =
     (issued s = shown s @ taken (main_at s) @ pause_messages s @ not_stored (sim_at s) \<and>
      runs s = updates s + updates_due s)"

lemma accounts_ok_sim: "accounts_ok s \<Longrightarrow> sim_step sim s s' \<Longrightarrow> accounts_ok s'"
  by (erule sim_stepE) (simp_all add: accounts_ok_def updates_due_def)

lemma perform_updates: "updates (perform sim c s) = updates s + (if c = UpdateModel then 1 else 0)"
  by (cases c) simp_all

lemma accounts_ok_main: "accounts_ok s \<Longrightarrow> main_step sim s s' \<Longrightarrow> accounts_ok s'"
  by (erule main_stepE) (auto simp: accounts_ok_def updates_due_def perform_updates speed_changed_def update_view_def)

lemma accounts_ok_start: "accounts_ok (start_viz n w)"
  by (simp add: accounts_ok_def updates_due_def start_viz_def)


section \<open>The simulator does not run away from the view\<close>

text \<open>
  What the simulator promises: running it up to a time does not turn back its clock and does not
  go beyond that time, and moving a node takes no time.
\<close>

definition simulator_ok :: "'w simulator \<Rightarrow> bool" where
  "simulator_ok sim =
     ((\<forall>w t. sim_now sim w \<le> sim_now sim (fst (run_until sim w t)) \<and>
         sim_now sim (fst (run_until sim w t)) \<le> max (sim_now sim w) t) \<and>
      (\<forall>i x y w. sim_now sim (move_node sim i x y w) = sim_now sim w))"

definition times_ok :: "'w simulator \<Rightarrow> 'w viz \<Rightarrow> bool" where
  "times_ok sim s =
     (view_time s \<le> sim_now sim (world s) \<and> sim_now sim (world s) \<le> target_time s \<and>
      target_time s \<le> view_time s + 1 \<and> 0 < sample_period s \<and> sample_period s \<le> 1)"

lemma times_ok_sim: "simulator_ok sim \<Longrightarrow> times_ok sim s \<Longrightarrow> sim_step sim s s' \<Longrightarrow> times_ok sim s'"
proof (erule sim_stepE)
  fix w ms
  assume ok: "simulator_ok sim" "times_ok sim s" and r: "run_until sim (world s) (target_time s) = (w, ms)"
    and s': "s' = s\<lparr>world := w, issued := issued s @ ms, runs := Suc (runs s), sim_at := ExtendMessages ms\<rparr>"
  have "sim_now sim (world s) \<le> sim_now sim w" "sim_now sim w \<le> max (sim_now sim (world s)) (target_time s)"
    using ok(1) r unfolding simulator_ok_def by (metis fst_conv)+
  with ok(2) s' show "times_ok sim s'" by (simp add: times_ok_def)
qed (simp_all add: times_ok_def)

lemma perform_now: "simulator_ok sim \<Longrightarrow> sim_now sim (world (perform sim c s)) = sim_now sim (world s)"
  by (cases c) (simp_all add: simulator_ok_def)

lemma times_ok_main: "simulator_ok sim \<Longrightarrow> times_ok sim s \<Longrightarrow> main_step sim s s' \<Longrightarrow> times_ok sim s'"
  by (erule main_stepE) (simp_all add: times_ok_def perform_now speed_changed_def update_view_def)

text \<open>
  C37: The simulator stays close to the view. With a simulator that keeps its promise, its clock is
  in every reachable state between the time the view shows and the target that the last update set,
  at most one second after it (a sample period of 0.1 seconds times the largest speed); the view
  never shows a time that the simulator has not reached.
\<close>

theorem view_keeps_up:
  assumes "simulator_ok sim" "sim_now sim w = 0" "(viz_step sim)\<^sup>*\<^sup>* (start_viz n w) s"
  shows "view_time s \<le> sim_now sim (world s) \<and> sim_now sim (world s) \<le> target_time s \<and>
    sim_now sim (world s) \<le> view_time s + 1"
proof -
  have start: "times_ok sim (start_viz n w)" by (simp add: times_ok_def start_viz_def assms(2))
  have "times_ok sim s"
    by (rule reachable_invariant [where I = "times_ok sim", OF assms(3)])
       (fact start times_ok_sim [OF assms(1)] times_ok_main [OF assms(1)])+
  then show ?thesis by (simp add: times_ok_def)
qed

section \<open>Execution of a schedule\<close>

text \<open>
  The steps as a function: an event says which thread moves and, for the main thread, which of its
  possible steps it takes; \<open>None\<close> when the step is not possible.
\<close>

datatype viz_event =
    SimMoves
  | MainMoves
  | TimerFires nat
  | PlayToggled
  | SpeedSet rat
  | IdleRuns
  | Callback locked_op
  | QuitRequested
  | LoopExits

fun sim_next :: "'w simulator \<Rightarrow> 'w viz \<Rightarrow> 'w viz option" where
  "sim_next sim s =
     (case sim_at s of
        LoopTest \<Rightarrow> Some (s\<lparr>sim_at := if quit s then Ended else WaitGo\<rparr>)
      | WaitGo \<Rightarrow> if go s then Some (s\<lparr>sim_at := ClearGo\<rparr>) else None
      | ClearGo \<Rightarrow> Some (s\<lparr>go := False, sim_at := TestQuit\<rparr>)
      | TestQuit \<Rightarrow> Some (s\<lparr>sim_at := if quit s then Ended else AcquireLock\<rparr>)
      | AcquireLock \<Rightarrow>
          if sim_lock s = None then Some (s\<lparr>sim_lock := Some SimulationThread, sim_at := RunSimulator\<rparr>) else None
      | RunSimulator \<Rightarrow>
          (case run_until sim (world s) (target_time s) of
             (w, ms) \<Rightarrow> Some (s\<lparr>world := w, issued := issued s @ ms, runs := Suc (runs s), sim_at := ExtendMessages ms\<rparr>))
      | ExtendMessages ms \<Rightarrow> Some (s\<lparr>pause_messages := pause_messages s @ ms, sim_at := IdleAdd\<rparr>)
      | IdleAdd \<Rightarrow> Some (s\<lparr>idle_updates := Suc (idle_updates s), sim_at := ReleaseLock\<rparr>)
      | ReleaseLock \<Rightarrow> Some (s\<lparr>sim_lock := None, sim_at := LoopTest\<rparr>)
      | Ended \<Rightarrow> None)"

text \<open>The step of the main thread outside of the event loop, or the next attempt to get the lock.\<close>

fun main_next :: "'w simulator \<Rightarrow> 'w viz \<Rightarrow> 'w viz option" where
  "main_next sim s =
     (case main_at s of
        EventLoop \<Rightarrow> if frames s \<noteq> [] then Some (s\<lparr>main_at := TryLock\<rparr>) else None
      | TryLock \<Rightarrow>
          if sim_lock s = None
          then Some (s\<lparr>sim_lock := Some MainThread, main_at := Updating (pause_messages s), pause_messages := []\<rparr>)
          else Some (s\<lparr>main_at := EventLoop\<rparr>)
      | Updating ms \<Rightarrow> Some ((update_view sim s)\<lparr>sim_lock := None, main_at := AfterUpdate ms\<rparr>)
      | AfterUpdate ms \<Rightarrow>
          (case frames s of [] \<Rightarrow> None | t # ts \<Rightarrow> Some ((end_update t ms s)\<lparr>frames := ts, main_at := EventLoop\<rparr>))
      | WaitLock c \<Rightarrow> if sim_lock s = None then Some (s\<lparr>sim_lock := Some MainThread, main_at := InLock c\<rparr>) else None
      | InLock c \<Rightarrow> Some ((perform sim c s)\<lparr>sim_lock := None, main_at := EventLoop\<rparr>)
      | QuitSignal \<Rightarrow> Some (s\<lparr>go := True, main_at := Joining\<rparr>)
      | Joining \<Rightarrow> if sim_at s = Ended then Some (s\<lparr>main_quit := True, main_at := EventLoop\<rparr>) else None
      | Exited \<Rightarrow> None)"

fun viz_next :: "'w simulator \<Rightarrow> viz_event \<Rightarrow> 'w viz \<Rightarrow> 'w viz option" where
  "viz_next sim SimMoves s = sim_next sim s"
| "viz_next sim MainMoves s = main_next sim s"
| "viz_next sim ev s =
     (if main_at s \<noteq> EventLoop then None
      else case ev of
        TimerFires t \<Rightarrow>
          if t \<in> set (timers s) \<and> t \<notin> set (frames s) then Some (s\<lparr>frames := t # frames s, main_at := TryLock\<rparr>) else None
      | PlayToggled \<Rightarrow> Some (toggle_play s)
      | SpeedSet v \<Rightarrow> if 1 / 100 \<le> v \<and> v \<le> 10 then Some (speed_changed v s) else None
      | IdleRuns \<Rightarrow>
          (case idle_updates s of 0 \<Rightarrow> None | Suc n \<Rightarrow> Some (s\<lparr>idle_updates := n, main_at := WaitLock UpdateModel\<rparr>))
      | Callback c \<Rightarrow> if c \<noteq> UpdateModel then Some (s\<lparr>main_at := WaitLock c\<rparr>) else None
      | QuitRequested \<Rightarrow> Some ((remove_current s)\<lparr>update_timeout_id := None, quit := True, main_at := QuitSignal\<rparr>)
      | LoopExits \<Rightarrow> if main_quit s \<and> frames s = [] then Some (s\<lparr>main_at := Exited\<rparr>) else None
      | _ \<Rightarrow> None)"

fun run_schedule :: "'w simulator \<Rightarrow> viz_event list \<Rightarrow> 'w viz \<Rightarrow> 'w viz option" where
  "run_schedule sim [] s = Some s"
| "run_schedule sim (ev # evs) s = (case viz_next sim ev s of None \<Rightarrow> None | Some s' \<Rightarrow> run_schedule sim evs s')"

lemma sim_next_step: "sim_next sim s = Some s' \<Longrightarrow> sim_step sim s s'"
  by (auto intro: sim_step.intros split: sim_pc.splits if_splits prod.splits)

lemma main_next_step: "main_next sim s = Some s' \<Longrightarrow> main_step sim s s'"
  by (auto intro: main_step.intros split: main_pc.splits if_splits list.splits)

lemma viz_next_step: "viz_next sim ev s = Some s' \<Longrightarrow> viz_step sim s s'"
  unfolding viz_step_def
  by (cases ev) (auto simp del: sim_next.simps main_next.simps
      intro: sim_next_step main_next_step main_step.intros split: if_splits nat.splits)

lemma sim_step_next: "sim_step sim s s' \<Longrightarrow> sim_next sim s = Some s'"
  by (erule sim_stepE) simp_all

lemma main_step_next:
  assumes "main_step sim s s'"
  shows "\<exists>ev. viz_next sim ev s = Some s'"
proof -
  have "viz_next sim MainMoves s = Some s' \<or> (\<exists>t. viz_next sim (TimerFires t) s = Some s') \<or>
    viz_next sim PlayToggled s = Some s' \<or> (\<exists>v. viz_next sim (SpeedSet v) s = Some s') \<or>
    viz_next sim IdleRuns s = Some s' \<or> (\<exists>c. viz_next sim (Callback c) s = Some s') \<or>
    viz_next sim QuitRequested s = Some s' \<or> viz_next sim LoopExits s = Some s'"
    using assms by (cases rule: main_step.cases) auto
  then show ?thesis by blast
qed

text \<open>The function computes exactly the steps of the relation.\<close>

lemma viz_step_next: "viz_step sim s s' \<longleftrightarrow> (\<exists>ev. viz_next sim ev s = Some s')"
  using viz_next_step [of sim _ s s'] main_step_next [of sim s s'] sim_step_next [of sim s s']
  unfolding viz_step_def by (metis viz_next.simps(1))

lemma run_schedule_steps: "run_schedule sim evs s = Some s' \<Longrightarrow> (viz_step sim)\<^sup>*\<^sup>* s s'"
  by (induction evs arbitrary: s) (auto intro: viz_next_step converse_rtranclp_into_rtranclp split: option.splits)

text \<open>A simulator whose state is its clock; it asks for a pause when it passes the time one tenth.\<close>

definition demo_simulator :: "rat simulator" where
  "demo_simulator =
     \<lparr>sim_now = (\<lambda>w. w), run_until = (\<lambda>w t. (max w t, if w \<le> 1 / 10 \<and> 1 / 10 < t then [''pause''] else [])),
      move_node = (\<lambda>i x y w. w)\<rparr>"

lemma demo_simulator_ok: "simulator_ok demo_simulator"
  by (simp add: simulator_ok_def demo_simulator_def)

text \<open>One update of the view, by the timer \<open>t\<close>, with a free lock.\<close>

definition update_events :: "nat \<Rightarrow> viz_event list" where
  "update_events t = [TimerFires t, MainMoves, MainMoves, MainMoves]"

text \<open>
  Two started runs of the simulator (the second is asked for while the first is going on), and a
  callback that waits for the lock meanwhile.
\<close>

definition demo_schedule :: "viz_event list" where
  "demo_schedule =
     update_events 0 @ [PlayToggled] @ update_events 1 @ replicate 9 SimMoves @ update_events 1 @ replicate 7 SimMoves @
     [Callback ReadSimulator]"

definition demo_viz :: "rat viz" where
  "demo_viz = (case run_schedule demo_simulator demo_schedule (start_viz 3 0) of Some s \<Rightarrow> s | None \<Rightarrow> start_viz 0 0)"

lemma demo_viz_run: "run_schedule demo_simulator demo_schedule (start_viz 3 0) = Some demo_viz"
  by code_simp

lemma demo_viz_reachable: "(viz_step demo_simulator)\<^sup>*\<^sup>* (start_viz 3 0) demo_viz"
  by (rule run_schedule_steps [OF demo_viz_run])

lemma demo_viz_state:
  "sim_at demo_viz = IdleAdd" "main_at demo_viz = WaitLock ReadSimulator" "pause_messages demo_viz = [''pause'']"
  "sim_lock demo_viz = Some SimulationThread" "view_time demo_viz = 1 / 10" "world demo_viz = 1 / 5"
  by code_simp+

theorem simulator_protected_witness:
  "sim_holds (sim_at demo_viz) \<and> \<not> main_holds (main_at demo_viz)"
  using simulator_protected [OF demo_viz_reachable] by (simp add: demo_viz_state)

theorem main_never_blocked_witness:
  "main_at demo_viz = WaitLock ReadSimulator \<and> sim_lock demo_viz \<noteq> None \<and>
   (\<nexists>k s'. 16 < k \<and> (sim_step demo_simulator ^^ k) demo_viz s')"
proof -
  have "blocked demo_viz" by (simp add: blocked_def demo_viz_state)
  from main_never_blocked [OF demo_viz_reachable this] show ?thesis
    by (simp add: demo_viz_state) (meson not_less)
qed


theorem view_keeps_up_witness: "view_time demo_viz < world demo_viz \<and> world demo_viz \<le> target_time demo_viz"
proof -
  have "sim_now demo_simulator w = w" for w by (simp add: demo_simulator_def)
  with view_keeps_up [OF demo_simulator_ok _ demo_viz_reachable] show ?thesis by (simp add: demo_viz_state)
qed

section \<open>The update timers\<close>

text \<open>A step that starts no timer while an update of the view waits for the lock.\<close>

definition quiet_step :: "'w simulator \<Rightarrow> 'w viz \<Rightarrow> 'w viz \<Rightarrow> bool" where
  "quiet_step sim s s' = (viz_step sim s s' \<and> (next_id s' = next_id s \<or> frames s = []))"

text \<open>
  The only timer is the current one, at most one update is in progress, and a timer that lives
  while an update is in progress is the timer of this update.
\<close>

definition timers_ok :: "'w viz \<Rightarrow> bool" where
  "timers_ok s =
     (length (timers s) \<le> 1 \<and> length (frames s) \<le> 1 \<and> (\<forall>t\<in>set (timers s). update_timeout_id s = Some t) \<and>
      (frames s \<noteq> [] \<longrightarrow> set (timers s) \<subseteq> set (frames s)))"

lemma remove_current_timers: "timers_ok s \<Longrightarrow> timers (remove_current s) = []"
  by (cases "update_timeout_id s"; cases "timers s")
     (auto simp: timers_ok_def remove_current_def remove_source_def)

lemma timers_ok_start_timer:
  assumes "timers_ok s" "frames s = []"
  shows "timers_ok (start_update_timer s)"
  using remove_current_timers [OF assms(1)] assms by (simp add: timers_ok_def start_update_timer_def Let_def)

lemma timers_ok_cong:
  "timers s' = timers s \<Longrightarrow> frames s' = frames s \<Longrightarrow> update_timeout_id s' = update_timeout_id s \<Longrightarrow> timers_ok s' = timers_ok s"
  by (simp add: timers_ok_def)

lemma timers_ok_removed: "timers_ok s \<Longrightarrow> timers_ok (remove_current s)"
  using remove_current_timers [of s] by (simp add: timers_ok_def)

lemma next_id_fields [simp]:
  "next_id (remove_current s) = next_id s" "next_id (start_update_timer s) = Suc (next_id s)"
  by (simp_all add: remove_current_def remove_source_def start_update_timer_def Let_def split: option.splits)

lemma timers_ok_toggle:
  assumes "timers_ok s" "next_id (toggle_play s) = next_id s \<or> frames s = []"
  shows "timers_ok (toggle_play s)"
proof -
  let ?s = "s\<lparr>playing := \<not> playing s\<rparr>"
  have "timers_ok ?s" using assms(1) by (simp add: timers_ok_def)
  with timers_ok_start_timer [of ?s] timers_ok_removed [of ?s] assms(2) show ?thesis
    by (auto simp: toggle_play_def Let_def)
qed

lemma timers_ok_end_update:
  assumes "timers_ok s" "frames s = t # ts"
  shows "timers_ok ((end_update t ms s)\<lparr>frames := ts, main_at := EventLoop\<rparr>)"
proof -
  let ?s = "show_messages ms s"
  have fr: "frames ?s = frames s" "ts = []" using assms by (auto simp: show_messages_def Let_def timers_ok_def)
  have "timers ?s = timers s \<and> update_timeout_id ?s = update_timeout_id s \<or> timers ?s = []"
    using remove_current_timers [of "s\<lparr>shown := shown s @ ms, playing := False\<rparr>"] assms(1)
    by (auto simp: show_messages_def toggle_play_def Let_def timers_ok_def)
  moreover have "filter (\<lambda>x. x \<noteq> t) (timers s) = []" using assms fr by (auto simp: timers_ok_def filter_empty_conv)
  ultimately show ?thesis using assms fr by (auto simp: timers_ok_def end_update_def remove_source_def Let_def)
qed

lemma timers_ok_sim: "timers_ok s \<Longrightarrow> sim_step sim s s' \<Longrightarrow> timers_ok s'"
  by (erule sim_stepE) (simp_all add: timers_ok_def)

lemma timers_ok_main:
  assumes "timers_ok s" "main_step sim s s'" "next_id s' = next_id s \<or> frames s = []"
  shows "timers_ok s'"
  using assms(2)
proof (cases rule: main_step.cases)
  case (timer_fires t)
  with assms(1) have "frames s = []" by (cases "frames s") (auto simp: timers_ok_def)
  with timer_fires assms(1) show ?thesis by (cases "timers s") (auto simp: timers_ok_def)
next
  case (update_ends ms t ts)
  then show ?thesis using timers_ok_end_update [OF assms(1)] by simp
next
  case play_toggled
  then show ?thesis using timers_ok_toggle [OF assms(1)] assms(3) by simp
next
  case (speed_set v)
  then have "frames s = []" using assms(3) by (simp add: speed_changed_def)
  moreover have "timers_ok (s\<lparr>sample_period := 1 / 10 * v\<rparr>)" using assms(1) by (simp add: timers_ok_def)
  ultimately show ?thesis
    using timers_ok_start_timer [of "s\<lparr>sample_period := 1 / 10 * v\<rparr>"] speed_set by (simp add: speed_changed_def)
next
  case quit_requested
  then show ?thesis using remove_current_timers [OF assms(1)] assms(1) by (simp add: timers_ok_def)
qed (use assms(1) in \<open>simp_all add: timers_ok_def update_view_def\<close>)

lemma timers_ok_quiet: "(quiet_step sim)\<^sup>*\<^sup>* s s' \<Longrightarrow> timers_ok s \<Longrightarrow> timers_ok s'"
proof (induction rule: rtranclp_induct)
  case (step t u)
  then have "sim_step sim t u \<or> main_step sim t u" "next_id u = next_id t \<or> frames t = []"
    by (simp_all add: quiet_step_def viz_step_def)
  with step show ?case using timers_ok_sim [of t sim u] timers_ok_main [of t sim u] by blast
qed

text \<open>
  An update of the view waits for the simulator while the play button is off; the speed is changed
  twice; then the play button is pressed.
\<close>

definition two_timers_schedule :: "viz_event list" where
  "two_timers_schedule =
     update_events 0 @ [PlayToggled] @ update_events 1 @ replicate 5 SimMoves @
     [PlayToggled, SpeedSet 1, TimerFires 2, MainMoves, SpeedSet 2] @ replicate 4 SimMoves @
     replicate 4 MainMoves @ [PlayToggled]"

text \<open>
  The update timers. As long as no timer is started while an update of the view waits for the
  simulator, there is at most one timer, and it is the one whose identifier is stored. Otherwise
  an update that ends with the button off forgets the identifier of the new timer, and pressing the
  button then starts a second one: two timers update the view.
\<close>

theorem update_timers:
  "((quiet_step sim)\<^sup>*\<^sup>* (start_viz n w) s \<longrightarrow>
      length (timers s) \<le> 1 \<and> (\<forall>t\<in>set (timers s). update_timeout_id s = Some t)) \<and>
   (\<exists>s. (viz_step demo_simulator)\<^sup>*\<^sup>* (start_viz 2 0) s \<and> playing s \<and> timers s = [3, 4])"
proof
  have "timers_ok (start_viz n w)" by (simp add: timers_ok_def start_viz_def)
  then show "(quiet_step sim)\<^sup>*\<^sup>* (start_viz n w) s \<longrightarrow>
      length (timers s) \<le> 1 \<and> (\<forall>t\<in>set (timers s). update_timeout_id s = Some t)"
    using timers_ok_quiet [of sim "start_viz n w" s] by (simp add: timers_ok_def)
next
  have "map_option (\<lambda>s. (playing s, timers s)) (run_schedule demo_simulator two_timers_schedule (start_viz 2 0)) =
      Some (True, [3, 4])"
    by code_simp
  then have "\<exists>s. run_schedule demo_simulator two_timers_schedule (start_viz 2 0) = Some s \<and> playing s \<and> timers s = [3, 4]"
    by auto
  then show "\<exists>s. (viz_step demo_simulator)\<^sup>*\<^sup>* (start_viz 2 0) s \<and> playing s \<and> timers s = [3, 4]"
    using run_schedule_steps by blast
qed

theorem update_timers_witness:
  "(quiet_step demo_simulator)\<^sup>*\<^sup>* (start_viz 3 0) (toggle_play (start_viz 3 0)) \<and>
   length (timers (toggle_play (start_viz 3 0 :: rat viz))) \<le> 1"
proof -
  have "quiet_step demo_simulator (start_viz 3 0) (toggle_play (start_viz 3 0))"
    unfolding quiet_step_def viz_step_def by (simp add: play_toggled start_viz_def)
  then have "(quiet_step demo_simulator)\<^sup>*\<^sup>* (start_viz 3 0) (toggle_play (start_viz 3 0))" by blast
  with update_timers [of demo_simulator 3 0 "toggle_play (start_viz 3 0)"] show ?thesis by blast
qed

end
