(* ===== verification/VizView.thy ===== *)
theory VizView
  imports Prelude Complex_Main "HOL-Library.Word"
begin

unbundle bit_operations_syntax

text \<open>
  The picture that the visualizer keeps of the network, \<^verbatim>\<open>src/visualizer/visualizer/core.py\<close>
  with the helpers of \<^verbatim>\<open>base.py\<close>: the views of nodes, channels and wired links, the scan of the
  topology, the selected node and the dragging of nodes. Objects are referred to by their key: a
  node by its index, a channel by its identity, a link by its position in the list of all links.
  A canvas item is the record of the properties the code sets on it. The simulated network is a
  parameter. Coordinates are rational numbers. Icons and labels of nodes are left out.
\<close>

section \<open>Coordinates and device traits\<close>

type_synonym point = "rat \<times> rat"

text \<open>\<^verbatim>\<open>PIXELS_PER_METER = 3.0\<close>\<close>

definition transform_distance_simulation_to_canvas :: "rat \<Rightarrow> rat" where
  "transform_distance_simulation_to_canvas d = d * 3"

definition transform_point_simulation_to_canvas :: "point \<Rightarrow> point" where
  "transform_point_simulation_to_canvas p = (fst p * 3, snd p * 3)"

definition transform_distance_canvas_to_simulation :: "rat \<Rightarrow> rat" where
  "transform_distance_canvas_to_simulation d = d / 3"

definition transform_point_canvas_to_simulation :: "point \<Rightarrow> point" where
  "transform_point_canvas_to_simulation p = (fst p / 3, snd p / 3)"

record netdevice_traits =
  is_wireless :: "bool option"
  is_virtual :: bool

definition new_traits :: "bool option \<Rightarrow> bool \<Rightarrow> netdevice_traits result" where
  "new_traits wireless virtual =
     py_assert (virtual \<or> wireless \<noteq> None) (Inr \<lparr>is_wireless = wireless, is_virtual = virtual\<rparr>)"

type_synonym traits_table = "(string, netdevice_traits) dict"

text \<open>The table of known device classes; the mesh module is optional.\<close>

definition netdevice_traits_table :: "bool \<Rightarrow> traits_table" where
  "netdevice_traits_table mesh_loaded =
     [(''PointToPointNetDevice'', \<lparr>is_wireless = Some False, is_virtual = False\<rparr>),
      (''CsmaNetDevice'', \<lparr>is_wireless = Some False, is_virtual = False\<rparr>),
      (''WifiNetDevice'', \<lparr>is_wireless = Some True, is_virtual = False\<rparr>),
      (''BridgeNetDevice'', \<lparr>is_wireless = None, is_virtual = True\<rparr>),
      (''LoopbackNetDevice'', \<lparr>is_wireless = Some False, is_virtual = True\<rparr>),
      (''SubscriberStationNetDevice'', \<lparr>is_wireless = Some True, is_virtual = False\<rparr>),
      (''BaseStationNetDevice'', \<lparr>is_wireless = Some True, is_virtual = False\<rparr>),
      (''LteUeNetDevice'', \<lparr>is_wireless = Some True, is_virtual = False\<rparr>),
      (''LteEnbNetDevice'', \<lparr>is_wireless = Some True, is_virtual = False\<rparr>)] @
     (if mesh_loaded then [(''MeshPointDevice'', \<lparr>is_wireless = None, is_virtual = True\<rparr>)] else [])"

text \<open>An unknown class is taken for a wireless device and added to the table.\<close>

definition lookup_netdevice_traits :: "string \<Rightarrow> traits_table \<Rightarrow> netdevice_traits \<times> traits_table" where
  "lookup_netdevice_traits class_type table =
     (case map_of table class_type of
        Some t \<Rightarrow> (t, table)
      | None \<Rightarrow>
          let t = \<lparr>is_wireless = Some True, is_virtual = False\<rparr> in (t, AList.update class_type t table))"

section \<open>Nodes, channels and links\<close>

record look =
  radius :: rat
  fill_color_rgba :: int
  line_width :: rat
  stroke_color :: string

record node_view =
  nv_position :: point
  nv_links :: "nat list"
  nv_selected :: bool
  nv_highlighted :: bool
  nv_color :: int
  nv_size :: rat
  nv_has_mobility :: "bool option"
  nv_look :: look

definition appearance :: "node_view \<Rightarrow> look" where
  "appearance n =
     (let sz = transform_distance_simulation_to_canvas (nv_size n) in
      \<lparr>radius = sz, fill_color_rgba = (nv_color n AND 0xffffff00) OR 0xff,
       line_width = (if nv_selected n then sz * (3 / 10) else sz * (15 / 100)),
       stroke_color = (if nv_highlighted n then ''yellow'' else ''black'')\<rparr>)"

definition update_appearance :: "node_view \<Rightarrow> node_view" where
  "update_appearance n = n\<lparr>nv_look := appearance n\<rparr>"

definition new_node :: node_view where
  "new_node =
     update_appearance
       \<lparr>nv_position = (0, 0), nv_links = [], nv_selected = False, nv_highlighted = False, nv_color = 0x808080ff,
        nv_size = 1, nv_has_mobility = None,
        nv_look = \<lparr>radius = 0, fill_color_rgba = 0, line_width = 0, stroke_color = []\<rparr>\<rparr>"

definition set_selected :: "bool \<Rightarrow> node_view \<Rightarrow> node_view" where
  "set_selected b n = update_appearance (n\<lparr>nv_selected := b\<rparr>)"

definition set_highlighted :: "bool \<Rightarrow> node_view \<Rightarrow> node_view" where
  "set_highlighted b n = update_appearance (n\<lparr>nv_highlighted := b\<rparr>)"

definition set_size :: "rat \<Rightarrow> node_view \<Rightarrow> node_view" where
  "set_size sz n = update_appearance (n\<lparr>nv_size := sz\<rparr>)"

text \<open>A colour is a number or a name; for a name Gdk gives three components of 16 bits.\<close>

datatype color_spec = Rgba int | Rgb16 int int int

fun color_rgba :: "color_spec \<Rightarrow> int" where
  "color_rgba (Rgba c) = c"
| "color_rgba (Rgb16 r g b) =
     push_bit 24 (drop_bit 8 r) OR push_bit 16 (drop_bit 8 g) OR push_bit 8 (drop_bit 8 b) OR 0xff"

definition set_color :: "color_spec \<Rightarrow> node_view \<Rightarrow> node_view" where
  "set_color c n = update_appearance (n\<lparr>nv_color := color_rgba c\<rparr>)"

record channel_view =
  cv_position :: point
  cv_links :: "nat list"

definition new_channel :: channel_view where
  "new_channel = \<lparr>cv_position = (0, 0), cv_links = []\<rparr>"

datatype endpoint = NodeEnd nat | ChannelEnd nat

record wired_link =
  node1 :: endpoint
  node2 :: endpoint
  points :: "(point \<times> point) option"

record view =
  nodes :: "(nat, node_view) dict"
  channels :: "(nat, channel_view) dict"
  links :: "wired_link list"
  bounds :: "rat \<times> rat \<times> rat \<times> rat"

definition new_view :: view where
  "new_view = \<lparr>nodes = [], channels = [], links = [], bounds = (-10000, -10000, 10000, 10000)\<rparr>"

definition change_node :: "nat \<Rightarrow> (node_view \<Rightarrow> node_view) \<Rightarrow> view \<Rightarrow> view" where
  "change_node i f v =
     (case map_of (nodes v) i of None \<Rightarrow> v | Some n \<Rightarrow> v\<lparr>nodes := AList.update i (f n) (nodes v)\<rparr>)"

definition change_channel :: "nat \<Rightarrow> (channel_view \<Rightarrow> channel_view) \<Rightarrow> view \<Rightarrow> view" where
  "change_channel i f v =
     (case map_of (channels v) i of None \<Rightarrow> v | Some n \<Rightarrow> v\<lparr>channels := AList.update i (f n) (channels v)\<rparr>)"

definition get_node :: "nat \<Rightarrow> view \<Rightarrow> view" where
  "get_node i v = (if has_key (nodes v) i then v else v\<lparr>nodes := AList.update i new_node (nodes v)\<rparr>)"

definition get_channel :: "nat \<Rightarrow> view \<Rightarrow> view" where
  "get_channel i v = (if has_key (channels v) i then v else v\<lparr>channels := AList.update i new_channel (channels v)\<rparr>)"

text \<open>An end of a link is an object that exists; the other case is not reached.\<close>

fun get_position :: "view \<Rightarrow> endpoint \<Rightarrow> point" where
  "get_position v (NodeEnd i) = (case map_of (nodes v) i of Some n \<Rightarrow> nv_position n | None \<Rightarrow> (0, 0))"
| "get_position v (ChannelEnd i) = (case map_of (channels v) i of Some c \<Rightarrow> cv_position c | None \<Rightarrow> (0, 0))"

fun links_of :: "view \<Rightarrow> endpoint \<Rightarrow> nat list" where
  "links_of v (NodeEnd i) = (case map_of (nodes v) i of Some n \<Rightarrow> nv_links n | None \<Rightarrow> [])"
| "links_of v (ChannelEnd i) = (case map_of (channels v) i of Some c \<Rightarrow> cv_links c | None \<Rightarrow> [])"

definition update_points :: "nat \<Rightarrow> view \<Rightarrow> view" where
  "update_points k v =
     (let l = links v ! k in
      v\<lparr>links := (links v)[k := l\<lparr>points := Some (get_position v (node1 l), get_position v (node2 l))\<rparr>]\<rparr>)"

text \<open>\<^verbatim>\<open>WiredLink.__init__\<close> adds the link to both ends; its line is drawn when an end is moved.\<close>

fun append_link :: "nat \<Rightarrow> endpoint \<Rightarrow> view \<Rightarrow> view" where
  "append_link k (NodeEnd i) v = change_node i (\<lambda>n. n\<lparr>nv_links := nv_links n @ [k]\<rparr>) v"
| "append_link k (ChannelEnd i) v = change_channel i (\<lambda>c. c\<lparr>cv_links := cv_links c @ [k]\<rparr>) v"

definition create_link :: "nat \<Rightarrow> endpoint \<Rightarrow> view \<Rightarrow> view" where
  "create_link i e v =
     (let k = length (links v) in
      append_link k e (append_link k (NodeEnd i)
        (v\<lparr>links := links v @ [\<lparr>node1 = NodeEnd i, node2 = e, points = None\<rparr>]\<rparr>)))"

definition widen_bounds :: "point \<Rightarrow> rat \<times> rat \<times> rat \<times> rat \<Rightarrow> rat \<times> rat \<times> rat \<times> rat" where
  "widen_bounds p b =
     (case b of (min_x, min_y, max_x, max_y) \<Rightarrow> (min (fst p) min_x, min (snd p) min_y, max (fst p) max_x, max (snd p) max_y))"

text \<open>\<^verbatim>\<open>set_position\<close> of a node also widens the bounds of the canvas.\<close>

fun move_item :: "endpoint \<Rightarrow> point \<Rightarrow> view \<Rightarrow> view" where
  "move_item (NodeEnd i) p v = change_node i (\<lambda>n. n\<lparr>nv_position := p\<rparr>) v"
| "move_item (ChannelEnd i) p v = change_channel i (\<lambda>c. c\<lparr>cv_position := p\<rparr>) v"

definition set_position :: "endpoint \<Rightarrow> point \<Rightarrow> view \<Rightarrow> view" where
  "set_position e p v =
     (let v = fold update_points (links_of v e) (move_item e p v) in
      case e of NodeEnd _ \<Rightarrow> v\<lparr>bounds := widen_bounds p (bounds v)\<rparr> | ChannelEnd _ \<Rightarrow> v)"

section \<open>Scanning the topology\<close>

record device =
  dev_class :: string
  dev_channel :: "nat option"

text \<open>The simulated network: for a channel the nodes of the devices on it, in order.\<close>

record network =
  n_nodes :: nat
  mobility :: "nat \<Rightarrow> point option"
  devices :: "nat \<Rightarrow> device list"
  channel_nodes :: "nat \<Rightarrow> nat list"

text \<open>The graph for the layout program: its nodes and edges in the order they are added.\<close>

record graph =
  g_nodes :: "endpoint list"
  g_edges :: "(endpoint \<times> endpoint) list"

definition add_graph_node :: "endpoint \<Rightarrow> graph \<Rightarrow> graph" where
  "add_graph_node e g = (if e \<in> set (g_nodes g) then g else g\<lparr>g_nodes := g_nodes g @ [e]\<rparr>)"

definition add_edge :: "endpoint \<Rightarrow> endpoint \<Rightarrow> graph \<Rightarrow> graph" where
  "add_edge a b g = (let g = add_graph_node b (add_graph_node a g) in g\<lparr>g_edges := g_edges g @ [(a, b)]\<rparr>)"

type_synonym scan_state = "view \<times> graph \<times> traits_table"

definition mobile :: "network \<Rightarrow> nat \<Rightarrow> bool" where
  "mobile net i = (mobility net i \<noteq> None)"

text \<open>\<^verbatim>\<open>has_mobility\<close> asks the network once and stores the answer.\<close>

definition has_mobility :: "network \<Rightarrow> nat \<Rightarrow> view \<Rightarrow> bool \<times> view" where
  "has_mobility net i v =
     (case map_of (nodes v) i of
        Some n \<Rightarrow>
          (case nv_has_mobility n of
             Some b \<Rightarrow> (b, v)
           | None \<Rightarrow> (mobile net i, change_node i (\<lambda>n. n\<lparr>nv_has_mobility := Some (mobile net i)\<rparr>) v))
      | None \<Rightarrow> (mobile net i, v))"

text \<open>One other device on a channel with at most two devices; \<open>assign\<close> is \<^verbatim>\<open>NS_VIS_ASSIGN\<close>.\<close>

definition link_other :: "network \<Rightarrow> bool \<Rightarrow> nat \<Rightarrow> view \<times> graph \<Rightarrow> nat \<Rightarrow> view \<times> graph" where
  "link_other net assign i vg other =
     (case vg of (v, g) \<Rightarrow>
        let v = get_node other v in
        if other = i then (v, g)
        else
          let (v, g) =
            (if assign then (v, add_edge (NodeEnd i) (NodeEnd other) g)
             else if mobile net i then (v, g)
             else case has_mobility net other v of
                    (m, v) \<Rightarrow> (v, if m then g else add_edge (NodeEnd i) (NodeEnd other) g))
          in (create_link i (NodeEnd other) (get_node i v), g))"

definition link_channel :: "network \<Rightarrow> nat \<Rightarrow> nat \<Rightarrow> view \<times> graph \<Rightarrow> view \<times> graph" where
  "link_channel net i c vg =
     (case vg of (v, g) \<Rightarrow>
        (create_link i (ChannelEnd c) (get_node i (get_channel c v)),
         if mobile net i then g else add_edge (NodeEnd i) (ChannelEnd c) g))"

definition scan_device :: "network \<Rightarrow> bool \<Rightarrow> nat \<Rightarrow> scan_state \<Rightarrow> device \<Rightarrow> scan_state result" where
  "scan_device net assign i st d =
     (case st of (v, g, table) \<Rightarrow>
        case lookup_netdevice_traits (dev_class d) table of (t, table) \<Rightarrow>
          if is_wireless t = Some True \<or> is_virtual t then Inr (v, g, table)
          else (case dev_channel d of
                  None \<Rightarrow> Inl AttributeError
                | Some c \<Rightarrow>
                    let (v, g) = (if length (channel_nodes net c) > 2 then link_channel net i c (v, g)
                                  else foldl (link_other net assign i) (v, g) (channel_nodes net c))
                    in Inr (v, g, table)))"

definition scan_node :: "network \<Rightarrow> bool \<Rightarrow> scan_state \<Rightarrow> nat \<Rightarrow> scan_state result" where
  "scan_node net assign st i =
     (case st of (v, g, table) \<Rightarrow>
        let v = get_node i v;
            (v, g) = (case mobility net i of
                        Some p \<Rightarrow>
                          (set_position (NodeEnd i) (transform_point_simulation_to_canvas p)
                             (change_node i (set_color (Rgb16 0xffff 0 0)) v), g)
                      | None \<Rightarrow> (v, add_graph_node (NodeEnd i) g))
        in for_each (scan_device net assign i) (devices net i) (v, g, table))"

text \<open>
  The layout program gives every node of the graph a position. With \<^verbatim>\<open>NS_VIS_ASSIGN\<close> the
  position of a mobile node is also set in the simulation; these are returned.
\<close>

definition place :: "network \<Rightarrow> bool \<Rightarrow> (endpoint \<Rightarrow> point) \<Rightarrow> view \<times> (nat \<times> point) list \<Rightarrow> endpoint \<Rightarrow> (view \<times> (nat \<times> point) list) result" where
  "place net assign pos st e =
     (case st of (v, moved) \<Rightarrow>
        (case e of
           NodeEnd i \<Rightarrow>
             if has_key (nodes v) i
             then Inr (set_position e (pos e) v, if assign \<and> mobile net i then moved @ [(i, pos e)] else moved)
             else Inl KeyError
         | ChannelEnd c \<Rightarrow> if has_key (channels v) c then Inr (set_position e (pos e) v, moved) else Inl KeyError))"

definition scan_topology :: "network \<Rightarrow> bool \<Rightarrow> (graph \<Rightarrow> endpoint \<Rightarrow> point) \<Rightarrow> traits_table \<Rightarrow> view \<Rightarrow> (view \<times> (nat \<times> point) list) result" where
  "scan_topology net assign layout table v =
     rbind (for_each (scan_node net assign) [0..<n_nodes net] (v, \<lparr>g_nodes = [], g_edges = []\<rparr>, table)) (\<lambda>(v, g, table).
       for_each (place net assign (layout g)) (g_nodes g) (v, []))"

text \<open>\<^verbatim>\<open>_update_node_positions\<close> (following a node is in the theory \<open>VizScroll\<close>)\<close>

definition update_node_position :: "network \<Rightarrow> nat \<Rightarrow> view \<Rightarrow> view" where
  "update_node_position net i v =
     (case has_mobility net i v of
        (m, v) \<Rightarrow>
          if m then (case mobility net i of
                       Some p \<Rightarrow> set_position (NodeEnd i) (transform_point_simulation_to_canvas p) v
                     | None \<Rightarrow> v)
          else v)"

definition update_node_positions :: "network \<Rightarrow> view \<Rightarrow> view" where
  "update_node_positions net v = fold (update_node_position net) (dict_keys (nodes v)) v"

section \<open>The invariant of the picture\<close>

fun exists_end :: "view \<Rightarrow> endpoint \<Rightarrow> bool" where
  "exists_end v (NodeEnd i) = has_key (nodes v) i"
| "exists_end v (ChannelEnd i) = has_key (channels v) i"

text \<open>Both ends of a link exist and know the link; its line, once drawn, joins their positions.\<close>

definition link_ok :: "view \<Rightarrow> nat \<Rightarrow> bool" where
  "link_ok v k =
     (let l = links v ! k in
      exists_end v (node1 l) \<and> exists_end v (node2 l) \<and>
      k \<in> set (links_of v (node1 l)) \<and> k \<in> set (links_of v (node2 l)) \<and>
      (points l = None \<or> points l = Some (get_position v (node1 l), get_position v (node2 l))))"

text \<open>An item knows only links that it is an end of, and a node looks like its state.\<close>

definition view_ok :: "view \<Rightarrow> bool" where
  "view_ok v =
     (dict_ok (nodes v) \<and> dict_ok (channels v) \<and> (\<forall>k<length (links v). link_ok v k) \<and>
      (\<forall>e. \<forall>k\<in>set (links_of v e). k < length (links v) \<and> (node1 (links v ! k) = e \<or> node2 (links v ! k) = e)) \<and>
      (\<forall>i n. map_of (nodes v) i = Some n \<longrightarrow> nv_look n = appearance n))"

lemma change_node_ends [simp]:
  "exists_end (change_node i f v) e = exists_end v e" "exists_end (change_channel i h v) e = exists_end v e"
  "links (change_node i f v) = links v" "links (change_channel i h v) = links v"
  "channels (change_node i f v) = channels v" "nodes (change_channel i h v) = nodes v"
  by (cases e; auto simp: change_node_def change_channel_def has_key_def split: option.splits)+

lemma change_dicts_ok [simp]:
  "dict_ok (nodes v) \<Longrightarrow> dict_ok (nodes (change_node i f v))"
  "dict_ok (channels v) \<Longrightarrow> dict_ok (channels (change_channel i h v))"
  by (auto simp: change_node_def change_channel_def split: option.splits)

lemma map_of_change [simp]:
  "map_of (nodes (change_node i f v)) j = (if j = i then map_option f (map_of (nodes v) i) else map_of (nodes v) j)"
  "map_of (channels (change_channel i h v)) j = (if j = i then map_option h (map_of (channels v) i) else map_of (channels v) j)"
  by (auto simp: change_node_def change_channel_def split: option.splits)

text \<open>The invariant depends only on positions, links and looks.\<close>

lemma view_ok_transfer:
  assumes "view_ok v" "links v' = links v" "\<And>e. get_position v' e = get_position v e" "\<And>e. links_of v' e = links_of v e"
    and "\<And>e. exists_end v e \<Longrightarrow> exists_end v' e" "dict_ok (nodes v')" "dict_ok (channels v')"
    and "\<And>i n. map_of (nodes v') i = Some n \<Longrightarrow> nv_look n = appearance n"
  shows "view_ok v'"
  using assms unfolding view_ok_def link_ok_def by (auto simp: Let_def)

text \<open>Changes of a node that concern neither its position nor its links.\<close>

lemma change_node_ok:
  assumes "view_ok v" and "\<And>n. nv_position (f n) = nv_position n" "\<And>n. nv_links (f n) = nv_links n"
    and "\<And>n. nv_look n = appearance n \<Longrightarrow> nv_look (f n) = appearance (f n)"
  shows "view_ok (change_node i f v)"
proof (rule view_ok_transfer [OF assms(1)])
  show "get_position (change_node i f v) e = get_position v e" "links_of (change_node i f v) e = links_of v e" for e
    by (cases e; auto simp: assms(2,3) split: option.splits)+
qed (use assms(1,4) in \<open>auto simp: view_ok_def split: if_splits\<close>)

lemma get_node_positions [simp]:
  "get_position (get_node i v) e = get_position v e" "links_of (get_node i v) e = links_of v e"
  "get_position (get_channel i v) e = get_position v e" "links_of (get_channel i v) e = links_of v e"
  by (cases e; auto simp: get_node_def get_channel_def has_key_def new_node_def new_channel_def update_appearance_def
      split: option.splits)+

lemma get_node_ends [simp]:
  "exists_end (get_node i v) e = (exists_end v e \<or> e = NodeEnd i)"
  "exists_end (get_channel i v) e = (exists_end v e \<or> e = ChannelEnd i)"
  "links (get_node i v) = links v" "links (get_channel i v) = links v"
  by (cases e; auto simp: get_node_def get_channel_def has_key_def)+

lemma appearance_fields [simp]:
  "appearance (n\<lparr>nv_position := p\<rparr>) = appearance n" "appearance (n\<lparr>nv_links := ls\<rparr>) = appearance n"
  "appearance (n\<lparr>nv_has_mobility := m\<rparr>) = appearance n" "appearance (n\<lparr>nv_look := l\<rparr>) = appearance n"
  by (simp_all add: appearance_def)

lemma new_node_look: "nv_look new_node = appearance new_node"
  by (simp add: new_node_def update_appearance_def appearance_def)

lemma get_node_ok: "view_ok v \<Longrightarrow> view_ok (get_node i v)"
  by (rule view_ok_transfer [of v])
     (auto simp: view_ok_def, auto simp: get_node_def new_node_look split: if_splits)

lemma get_channel_ok: "view_ok v \<Longrightarrow> view_ok (get_channel i v)"
  by (rule view_ok_transfer [of v])
     (auto simp: view_ok_def, auto simp: get_channel_def split: if_splits)

subsection \<open>Moving an item redraws its links\<close>

lemma update_points_fields [simp]:
  "nodes (update_points k v) = nodes v" "channels (update_points k v) = channels v" "bounds (update_points k v) = bounds v"
  "length (links (update_points k v)) = length (links v)"
  by (simp_all add: update_points_def Let_def)

lemma same_items:
  assumes "nodes v' = nodes v" "channels v' = channels v"
  shows "get_position v' e = get_position v e" "links_of v' e = links_of v e" "exists_end v' e = exists_end v e"
  by (cases e; simp add: assms)+

lemma fold_update_points_fields [simp]:
  "nodes (fold update_points ks v) = nodes v" "channels (fold update_points ks v) = channels v"
  "bounds (fold update_points ks v) = bounds v" "length (links (fold update_points ks v)) = length (links v)"
  by (induction ks arbitrary: v) simp_all

lemma update_points_nth:
  "k < length (links v) \<Longrightarrow> links (update_points j v) ! k =
    (let l = links v ! k in
     if k = j then l\<lparr>points := Some (get_position v (node1 l), get_position v (node2 l))\<rparr> else l)"
  by (simp add: update_points_def Let_def nth_list_update)

lemma fold_update_points_links:
  assumes "k < length (links v)"
  shows "links (fold update_points ks v) ! k =
    (let l = links v ! k in
     if k \<in> set ks then l\<lparr>points := Some (get_position v (node1 l), get_position v (node2 l))\<rparr> else l)"
  using assms
proof (induction ks arbitrary: v)
  case (Cons j ks)
  have pos: "get_position (update_points j v) e = get_position v e" for e by (rule same_items) simp_all
  from Cons.IH [of "update_points j v"] Cons.prems pos show ?case
    by (auto simp: Let_def update_points_nth)
qed simp

lemma move_item_fields [simp]:
  "links (move_item e p v) = links v" "exists_end (move_item e p v) e' = exists_end v e'"
  "links_of (move_item e p v) e' = links_of v e'" "bounds (move_item e p v) = bounds v"
  by (cases e; cases e'; auto simp: change_node_def change_channel_def has_key_def split: option.splits)+

lemma get_position_move:
  "get_position (move_item e p v) e' = (if e' = e \<and> exists_end v e then p else get_position v e')"
  by (cases e; cases e') (auto simp: has_key_def split: option.splits)

lemma set_position_fields:
  "links_of (set_position e p v) e' = links_of v e'" "exists_end (set_position e p v) e' = exists_end v e'"
  "get_position (set_position e p v) e' = (if e' = e \<and> exists_end v e then p else get_position v e')"
  "length (links (set_position e p v)) = length (links v)"
proof -
  have n: "nodes (set_position e p v) = nodes (move_item e p v)" "channels (set_position e p v) = channels (move_item e p v)"
    by (simp_all add: set_position_def Let_def split: endpoint.splits)
  show "links_of (set_position e p v) e' = links_of v e'" "exists_end (set_position e p v) e' = exists_end v e'"
    "get_position (set_position e p v) e' = (if e' = e \<and> exists_end v e then p else get_position v e')"
    using same_items [OF n, of e'] by (simp_all add: get_position_move)
  show "length (links (set_position e p v)) = length (links v)"
    by (simp add: set_position_def Let_def split: endpoint.splits)
qed

lemma set_position_links:
  assumes "k < length (links v)"
  shows "links (set_position e p v) ! k =
    (let l = links v ! k; v' = set_position e p v in
     if k \<in> set (links_of v e) then l\<lparr>points := Some (get_position v' (node1 l), get_position v' (node2 l))\<rparr> else l)"
proof -
  have "links (set_position e p v) = links (fold update_points (links_of v e) (move_item e p v))"
    by (simp add: set_position_def Let_def split: endpoint.splits)
  with fold_update_points_links [of k "move_item e p v" "links_of v e"] assms show ?thesis
    by (simp add: set_position_fields get_position_move Let_def)
qed

lemma set_position_ok:
  assumes "view_ok v"
  shows "view_ok (set_position e p v)"
proof -
  let ?v = "set_position e p v"
  have same: "node1 (links ?v ! k) = node1 (links v ! k)" "node2 (links ?v ! k) = node2 (links v ! k)"
    if "k < length (links v)" for k
    using set_position_links [OF that, of e p] by (simp_all add: Let_def)
  have "link_ok ?v k" if k: "k < length (links v)" for k
  proof -
    have old: "link_ok v k" using assms k by (simp add: view_ok_def)
    show ?thesis
    proof (cases "k \<in> set (links_of v e)")
      case True
      with old k same [OF k] set_position_links [OF k, of e p] show ?thesis
        by (simp add: link_ok_def Let_def set_position_fields)
    next
      case False
      with old have "node1 (links v ! k) \<noteq> e" "node2 (links v ! k) \<noteq> e" by (auto simp: link_ok_def Let_def)
      with False old k set_position_links [OF k, of e p] show ?thesis
        by (simp add: link_ok_def Let_def set_position_fields)
    qed
  qed
  moreover have "k < length (links v) \<and> (node1 (links ?v ! k) = e' \<or> node2 (links ?v ! k) = e')"
    if "k \<in> set (links_of v e')" for e' k
    using assms that same unfolding view_ok_def by auto
  moreover have "nv_look n = appearance n" if "map_of (nodes ?v) i = Some n" for i n
    using assms that
    by (cases e) (auto simp: set_position_def Let_def view_ok_def split: if_splits)
  moreover have "dict_ok (nodes ?v)" "dict_ok (channels ?v)"
    using assms by (cases e; simp add: set_position_def Let_def view_ok_def)+
  ultimately show ?thesis by (simp add: view_ok_def set_position_fields)
qed

subsection \<open>New links\<close>

lemma append_link_fields [simp]:
  "links (append_link k e v) = links v" "exists_end (append_link k e v) e' = exists_end v e'"
  "get_position (append_link k e v) e' = get_position v e'"
  "links_of (append_link k e v) e' = (if e' = e \<and> exists_end v e then links_of v e' @ [k] else links_of v e')"
  by (cases e; cases e'; auto simp: has_key_def split: option.splits)+

lemma append_link_dicts:
  assumes "dict_ok (nodes v)" "dict_ok (channels v)" "\<forall>i n. map_of (nodes v) i = Some n \<longrightarrow> nv_look n = appearance n"
  shows "dict_ok (nodes (append_link k e v)) \<and> dict_ok (channels (append_link k e v)) \<and>
    (\<forall>i n. map_of (nodes (append_link k e v)) i = Some n \<longrightarrow> nv_look n = appearance n)"
  using assms by (cases e) auto

declare append_link.simps [simp del]

lemma create_link_fields:
  "links (create_link i e v) = links v @ [\<lparr>node1 = NodeEnd i, node2 = e, points = None\<rparr>]"
  "exists_end (create_link i e v) e' = exists_end v e'" "get_position (create_link i e v) e' = get_position v e'"
proof -
  let ?v = "v\<lparr>links := links v @ [\<lparr>node1 = NodeEnd i, node2 = e, points = None\<rparr>]\<rparr>"
  have "get_position ?v e' = get_position v e'" "exists_end ?v e' = exists_end v e'" by (rule same_items; simp)+
  then show "links (create_link i e v) = links v @ [\<lparr>node1 = NodeEnd i, node2 = e, points = None\<rparr>]"
    "exists_end (create_link i e v) e' = exists_end v e'" "get_position (create_link i e v) e' = get_position v e'"
    by (simp_all add: create_link_def Let_def)
qed

lemma create_link_links_of:
  assumes "exists_end v (NodeEnd i)" "exists_end v e"
  shows "set (links_of (create_link i e v) e') =
    set (links_of v e') \<union> (if e' = NodeEnd i \<or> e' = e then {length (links v)} else {})"
proof -
  let ?v = "v\<lparr>links := links v @ [\<lparr>node1 = NodeEnd i, node2 = e, points = None\<rparr>]\<rparr>"
  have "links_of ?v e' = links_of v e'" "exists_end ?v e'' = exists_end v e''" for e'' by (rule same_items; simp)+
  then show ?thesis using assms by (auto simp: create_link_def Let_def simp del: links_of.simps)
qed

lemma create_link_ok:
  assumes "view_ok v" "exists_end v (NodeEnd i)" "exists_end v e"
  shows "view_ok (create_link i e v)"
proof -
  let ?v = "create_link i e v"
  have "link_ok ?v k" if k: "k < length (links ?v)" for k
  proof (cases "k < length (links v)")
    case True
    with assms(1) have "link_ok v k" by (simp add: view_ok_def)
    with True show ?thesis
      by (auto simp: link_ok_def Let_def create_link_fields nth_append create_link_links_of [OF assms(2,3)])
  next
    case False
    with k have "k = length (links v)" by (simp add: create_link_fields)
    with assms(2,3) show ?thesis
      by (auto simp: link_ok_def Let_def create_link_fields create_link_links_of [OF assms(2,3)])
  qed
  moreover have "k < length (links ?v) \<and> (node1 (links ?v ! k) = e' \<or> node2 (links ?v ! k) = e')"
    if "k \<in> set (links_of ?v e')" for e' k
    using assms(1) that unfolding create_link_links_of [OF assms(2,3)] view_ok_def
    by (fastforce simp: create_link_fields nth_append split: if_splits)
  moreover have "dict_ok (nodes ?v) \<and> dict_ok (channels ?v) \<and> (\<forall>i n. map_of (nodes ?v) i = Some n \<longrightarrow> nv_look n = appearance n)"
  proof -
    let ?w = "v\<lparr>links := links v @ [\<lparr>node1 = NodeEnd i, node2 = e, points = None\<rparr>]\<rparr>"
    have "dict_ok (nodes ?w)" "dict_ok (channels ?w)" "\<forall>i n. map_of (nodes ?w) i = Some n \<longrightarrow> nv_look n = appearance n"
      using assms(1) by (simp_all add: view_ok_def)
    from append_link_dicts [OF this, of "length (links v)" "NodeEnd i"] show ?thesis
      unfolding create_link_def Let_def by (intro append_link_dicts) blast+
  qed
  ultimately show ?thesis by (simp add: view_ok_def)
qed

section \<open>What the scan of the topology builds\<close>

declare exists_end.simps [simp del] links_of.simps [simp del] get_position.simps [simp del]

text \<open>The links that the network asks for, in the order of nodes and devices.\<close>

definition wired :: "traits_table \<Rightarrow> device \<Rightarrow> bool" where
  "wired table d =
     (let t = fst (lookup_netdevice_traits (dev_class d) table) in is_wireless t \<noteq> Some True \<and> \<not> is_virtual t)"

definition device_links :: "network \<Rightarrow> traits_table \<Rightarrow> nat \<Rightarrow> device \<Rightarrow> (endpoint \<times> endpoint) list" where
  "device_links net table i d =
     (if wired table d then
        (case dev_channel d of
           None \<Rightarrow> []
         | Some c \<Rightarrow>
             if length (channel_nodes net c) > 2 then [(NodeEnd i, ChannelEnd c)]
             else map (\<lambda>other. (NodeEnd i, NodeEnd other)) (filter (\<lambda>other. other \<noteq> i) (channel_nodes net c)))
      else [])"

definition node_links :: "network \<Rightarrow> traits_table \<Rightarrow> nat \<Rightarrow> (endpoint \<times> endpoint) list" where
  "node_links net table i = concat (map (device_links net table i) (devices net i))"

definition link_ends :: "view \<Rightarrow> (endpoint \<times> endpoint) list" where
  "link_ends v = map (\<lambda>l. (node1 l, node2 l)) (links v)"

lemma lookup_traits_stable [simp]:
  "fst (lookup_netdevice_traits c (snd (lookup_netdevice_traits c' table))) = fst (lookup_netdevice_traits c table)"
  by (auto simp: lookup_netdevice_traits_def Let_def split: option.splits)

lemma link_ends_simps [simp]:
  "link_ends (get_node i v) = link_ends v" "link_ends (get_channel i v) = link_ends v"
  "link_ends (change_node i f v) = link_ends v"
  "link_ends (create_link i e v) = link_ends v @ [(NodeEnd i, e)]"
  by (simp_all add: link_ends_def create_link_fields)

lemma link_ends_set_position [simp]: "link_ends (set_position e p v) = link_ends v"
  by (rule nth_equalityI) (auto simp: link_ends_def set_position_fields set_position_links Let_def)

definition cache_ok :: "network \<Rightarrow> view \<Rightarrow> bool" where
  "cache_ok net v =
     (\<forall>i n. map_of (nodes v) i = Some n \<longrightarrow> nv_has_mobility n \<noteq> Some (\<not> mobile net i))"

text \<open>
  What holds during the scan: the picture is in order, stored answers about mobility are right,
  the nodes of the graph have views, and without \<^verbatim>\<open>NS_VIS_ASSIGN\<close> none of them is mobile.
\<close>

definition scan_ok :: "network \<Rightarrow> bool \<Rightarrow> view \<Rightarrow> graph \<Rightarrow> bool" where
  "scan_ok net assign v g =
     (view_ok v \<and> cache_ok net v \<and> (\<forall>e\<in>set (g_nodes g). exists_end v e) \<and>
      (assign \<or> (\<forall>i. NodeEnd i \<in> set (g_nodes g) \<longrightarrow> \<not> mobile net i)))"

text \<open>The scan only adds: views stay where they are, nodes of the graph stay.\<close>

definition extends :: "view \<Rightarrow> graph \<Rightarrow> view \<Rightarrow> graph \<Rightarrow> bool" where
  "extends v g v' g' =
     ((\<forall>e. exists_end v e \<longrightarrow> exists_end v' e) \<and> (\<forall>e. get_position v' e = get_position v e) \<and>
      set (g_nodes g) \<subseteq> set (g_nodes g'))"

lemma extends_refl: "extends v g v g"
  by (simp add: extends_def)

lemma extends_trans: "extends v g v' g' \<Longrightarrow> extends v' g' v'' g'' \<Longrightarrow> extends v g v'' g''"
  unfolding extends_def by auto

lemma add_edge_nodes: "set (g_nodes (add_edge a b g)) = insert a (insert b (set (g_nodes g)))"
  by (auto simp: add_edge_def add_graph_node_def Let_def)

lemma cache_get_node:
  "map_of (nodes (get_node i v)) j = (if map_of (nodes v) j = None \<and> j = i then Some new_node else map_of (nodes v) j)"
  by (auto simp: get_node_def has_key_def)

lemma scan_ok_get_node:
  assumes "scan_ok net assign v g"
  shows "scan_ok net assign (get_node i v) g"
proof -
  have "cache_ok net (get_node i v)"
    using assms by (auto simp: scan_ok_def cache_ok_def cache_get_node new_node_def update_appearance_def)
  with assms show ?thesis by (auto simp: scan_ok_def get_node_ok)
qed

lemma cache_ok_nodes: "nodes v' = nodes v \<Longrightarrow> cache_ok net v' = cache_ok net v"
  by (simp add: cache_ok_def)

lemma scan_ok_get_channel:
  assumes "scan_ok net assign v g"
  shows "scan_ok net assign (get_channel i v) g"
proof -
  have "cache_ok net (get_channel i v) = cache_ok net v" by (rule cache_ok_nodes) (simp add: get_channel_def)
  with assms show ?thesis by (simp add: scan_ok_def get_channel_ok)
qed

lemma cache_ok_append_link: "cache_ok net v \<Longrightarrow> cache_ok net (append_link k e v)"
  by (cases e) (auto simp: cache_ok_def append_link.simps)

lemma scan_ok_create_link:
  assumes "scan_ok net assign v g" "exists_end v (NodeEnd i)" "exists_end v e"
  shows "scan_ok net assign (create_link i e v) g"
proof -
  have "cache_ok net (create_link i e v)"
    unfolding create_link_def Let_def
    by (intro cache_ok_append_link) (use assms(1) in \<open>simp add: scan_ok_def cache_ok_def\<close>)
  with assms create_link_ok [of v i e] show ?thesis by (auto simp: scan_ok_def create_link_fields)
qed

lemma has_mobility_correct:
  assumes "scan_ok net assign v g" "has_mobility net i v = (m, v')"
  shows "m = mobile net i" "scan_ok net assign v' g" "extends v g v' g" "link_ends v' = link_ends v"
proof -
  have v': "v' = v \<or> v' = change_node i (\<lambda>n. n\<lparr>nv_has_mobility := Some (mobile net i)\<rparr>) v"
    using assms(2) by (auto simp: has_mobility_def split: option.splits)
  have "nv_has_mobility n \<noteq> Some (\<not> mobile net i)" if "map_of (nodes v) i = Some n" for n
    using that assms(1) by (auto simp: scan_ok_def cache_ok_def)
  then have m: "m = mobile net i"
    using assms(2) by (cases m) (auto simp: has_mobility_def split: option.splits)
  from m show "m = mobile net i" by simp
  have "view_ok (change_node i (\<lambda>n. n\<lparr>nv_has_mobility := Some (mobile net i)\<rparr>) v)"
    by (rule change_node_ok) (use assms(1) in \<open>auto simp: scan_ok_def\<close>)
  with v' assms(1) show "scan_ok net assign v' g" by (auto simp: scan_ok_def cache_ok_def split: if_splits)
  have "get_position (change_node i (\<lambda>n. n\<lparr>nv_has_mobility := b\<rparr>) v) e = get_position v e" for b e
    by (cases e) (auto simp: get_position.simps split: option.splits)
  with v' show "extends v g v' g" by (auto simp: extends_def)
  from v' show "link_ends v' = link_ends v" by auto
qed

text \<open>One step of the loop over the other devices of a channel.\<close>

definition scan_step :: "network \<Rightarrow> bool \<Rightarrow> view \<Rightarrow> graph \<Rightarrow> view \<Rightarrow> graph \<Rightarrow> (endpoint \<times> endpoint) list \<Rightarrow> bool" where
  "scan_step net assign v g v' g' ls =
     (scan_ok net assign v' g' \<and> extends v g v' g' \<and> link_ends v' = link_ends v @ ls)"

lemma scan_step_trans:
  "scan_step net assign v g v' g' ls \<Longrightarrow> scan_step net assign v' g' v'' g'' ls' \<Longrightarrow> scan_step net assign v g v'' g'' (ls @ ls')"
  by (auto simp: scan_step_def intro: extends_trans)

lemma extends_view: "(\<And>e. exists_end v e \<Longrightarrow> exists_end v' e) \<Longrightarrow> (\<And>e. get_position v' e = get_position v e) \<Longrightarrow> extends v g v' g"
  by (simp add: extends_def)

lemma scan_ok_add_edge:
  assumes "scan_ok net assign v g" "exists_end v a" "exists_end v b"
    and "assign \<or> (\<forall>i. NodeEnd i \<in> {a, b} \<longrightarrow> \<not> mobile net i)"
  shows "scan_ok net assign v (add_edge a b g)" "extends v g v (add_edge a b g)"
  using assms by (auto simp: scan_ok_def add_edge_nodes extends_def)

lemma link_other_step:
  assumes "scan_ok net assign v g" "exists_end v (NodeEnd i)" "link_other net assign i (v, g) other = (v', g')"
  shows "scan_step net assign v g v' g' (if other = i then [] else [(NodeEnd i, NodeEnd other)])"
proof (cases "other = i")
  case True
  with assms scan_ok_get_node [OF assms(1), of i] show ?thesis
    by (auto simp: link_other_def Let_def scan_step_def extends_def)
next
  case False
  let ?v1 = "get_node other v"
  have ok1: "scan_ok net assign ?v1 g" by (rule scan_ok_get_node [OF assms(1)])
  have e1: "extends v g ?v1 g" by (rule extends_view) auto
  obtain v2 g2 where vg2: "(v2, g2) =
      (if assign then (?v1, add_edge (NodeEnd i) (NodeEnd other) g)
       else if mobile net i then (?v1, g)
       else case has_mobility net other ?v1 of (m, v) \<Rightarrow> (v, if m then g else add_edge (NodeEnd i) (NodeEnd other) g))"
    by (metis surj_pair)
  have step2: "scan_ok net assign v2 g2 \<and> extends ?v1 g v2 g2 \<and> link_ends v2 = link_ends v"
  proof (cases "assign \<or> mobile net i")
    case True
    have "exists_end ?v1 (NodeEnd i)" "exists_end ?v1 (NodeEnd other)" unfolding get_node_ends using assms(2) by auto
    with True vg2 ok1 scan_ok_add_edge [OF ok1 this] show ?thesis by (auto simp: extends_refl split: if_splits)
  next
    case False
    obtain m w where mw: "has_mobility net other ?v1 = (m, w)" by fastforce
    note h = has_mobility_correct [OF ok1 mw]
    have "exists_end w (NodeEnd i)" "exists_end w (NodeEnd other)" using h(3) assms(2) by (auto simp: extends_def)
    with False vg2 mw h scan_ok_add_edge [OF h(2), of "NodeEnd i" "NodeEnd other"] show ?thesis
      by (auto intro: extends_trans split: if_splits)
  qed
  have v': "v' = create_link i (NodeEnd other) (get_node i v2)" "g' = g2"
    using assms(3) False vg2 [symmetric] by (simp_all add: link_other_def Let_def)
  have ex: "exists_end v2 (NodeEnd i)" "exists_end v2 (NodeEnd other)"
    using step2 assms(2) by (auto simp: extends_def)
  have ok3: "scan_ok net assign (get_node i v2) g2" using step2 scan_ok_get_node by blast
  have "scan_ok net assign v' g'" unfolding v' by (rule scan_ok_create_link [OF ok3]) (use ex in auto)
  moreover have "extends v2 g2 v' g'" unfolding v' by (rule extends_view) (auto simp: create_link_fields)
  then have "extends v g v' g'" using e1 step2 extends_trans by blast
  moreover have "link_ends v' = link_ends v @ [(NodeEnd i, NodeEnd other)]" using step2 by (simp add: v')
  ultimately show ?thesis using False by (simp add: scan_step_def)
qed

lemma fold_link_other_step:
  assumes "scan_ok net assign v g" "exists_end v (NodeEnd i)" "foldl (link_other net assign i) (v, g) others = (v', g')"
  shows "scan_step net assign v g v' g' (map (\<lambda>other. (NodeEnd i, NodeEnd other)) (filter (\<lambda>other. other \<noteq> i) others))"
  using assms
proof (induction others arbitrary: v g)
  case Nil
  then show ?case by (simp add: scan_step_def extends_refl)
next
  case (Cons x xs)
  obtain v1 g1 where vg1: "link_other net assign i (v, g) x = (v1, g1)" by fastforce
  note s1 = link_other_step [OF Cons.prems(1,2) vg1]
  then have "scan_ok net assign v1 g1" "exists_end v1 (NodeEnd i)"
    using Cons.prems(2) by (auto simp: scan_step_def extends_def)
  from Cons.IH [OF this] Cons.prems(3) vg1 scan_step_trans [OF s1] show ?case by fastforce
qed

lemma link_channel_step:
  assumes "scan_ok net assign v g" "exists_end v (NodeEnd i)" "link_channel net i c (v, g) = (v', g')"
  shows "scan_step net assign v g v' g' [(NodeEnd i, ChannelEnd c)]"
proof -
  let ?v1 = "get_node i (get_channel c v)"
  have ok1: "scan_ok net assign ?v1 g" by (intro scan_ok_get_node scan_ok_get_channel assms(1))
  have "scan_ok net assign (create_link i (ChannelEnd c) ?v1) g" by (rule scan_ok_create_link [OF ok1]) auto
  moreover have "exists_end (create_link i (ChannelEnd c) ?v1) (NodeEnd i)"
    "exists_end (create_link i (ChannelEnd c) ?v1) (ChannelEnd c)" by (auto simp: create_link_fields)
  ultimately have "scan_ok net assign v' g'" "set (g_nodes g) \<subseteq> set (g_nodes g')"
    using assms(3) scan_ok_add_edge [of net assign "create_link i (ChannelEnd c) ?v1" g "NodeEnd i" "ChannelEnd c"]
    by (auto simp: link_channel_def add_edge_nodes)
  then show ?thesis using assms(3) by (auto simp: scan_step_def extends_def link_channel_def create_link_fields)
qed

definition same_traits :: "traits_table \<Rightarrow> traits_table \<Rightarrow> bool" where
  "same_traits table table' = (\<forall>c. fst (lookup_netdevice_traits c table') = fst (lookup_netdevice_traits c table))"

lemma same_traits_wired: "same_traits table table' \<Longrightarrow> wired table' d = wired table d"
  by (simp add: same_traits_def wired_def)

lemma same_traits_links: "same_traits table table' \<Longrightarrow> device_links net table' i = device_links net table i"
  by (rule ext) (simp add: device_links_def same_traits_wired)

lemma scan_device_step:
  assumes "scan_ok net assign v g" "exists_end v (NodeEnd i)" "wired table d \<longrightarrow> dev_channel d \<noteq> None"
  shows "\<exists>v' g' table'. scan_device net assign i (v, g, table) d = Inr (v', g', table') \<and>
    scan_step net assign v g v' g' (device_links net table i d) \<and> same_traits table table'"
proof -
  obtain t table' where t: "lookup_netdevice_traits (dev_class d) table = (t, table')" by fastforce
  have same: "same_traits table table'"
    using lookup_traits_stable [of _ "dev_class d" table] t by (simp add: same_traits_def)
  show ?thesis
  proof (cases "wired table d")
    case False
    then have "is_wireless t = Some True \<or> is_virtual t" using t by (auto simp: wired_def Let_def)
    then show ?thesis using False t assms(1) same
      by (simp add: scan_device_def device_links_def scan_step_def extends_refl)
  next
    case True
    then obtain c where c: "dev_channel d = Some c" using assms(3) by blast
    obtain v' g' where vg: "(if length (channel_nodes net c) > 2 then link_channel net i c (v, g)
        else foldl (link_other net assign i) (v, g) (channel_nodes net c)) = (v', g')" by fastforce
    have "scan_device net assign i (v, g, table) d = Inr (v', g', table')"
      using True t c vg by (simp add: scan_device_def wired_def Let_def)
    moreover have "scan_step net assign v g v' g' (device_links net table i d)"
      using True c vg link_channel_step [OF assms(1,2)] fold_link_other_step [OF assms(1,2)]
      by (auto simp: device_links_def split: if_splits)
    ultimately show ?thesis using same by blast
  qed
qed

lemma scan_devices_step:
  assumes "scan_ok net assign v g" "exists_end v (NodeEnd i)" "list_all (\<lambda>d. wired table d \<longrightarrow> dev_channel d \<noteq> None) ds"
  shows "\<exists>v' g' table'. for_each (scan_device net assign i) ds (v, g, table) = Inr (v', g', table') \<and>
    scan_step net assign v g v' g' (concat (map (device_links net table i) ds)) \<and> same_traits table table'"
  using assms
proof (induction ds arbitrary: v g table)
  case Nil
  then show ?case by (simp add: scan_step_def extends_refl same_traits_def)
next
  case (Cons d ds)
  then obtain v1 g1 t1 where d: "scan_device net assign i (v, g, table) d = Inr (v1, g1, t1)"
    "scan_step net assign v g v1 g1 (device_links net table i d)" "same_traits table t1"
    using scan_device_step [of net assign v g i table d] by auto
  have "scan_ok net assign v1 g1" "exists_end v1 (NodeEnd i)"
    using d(2) Cons.prems(2) by (auto simp: scan_step_def extends_def)
  moreover have "list_all (\<lambda>d. wired t1 d \<longrightarrow> dev_channel d \<noteq> None) ds"
    using Cons.prems(3) by (simp add: same_traits_wired [OF d(3)])
  ultimately obtain v' g' t' where r: "for_each (scan_device net assign i) ds (v1, g1, t1) = Inr (v', g', t')"
    "scan_step net assign v1 g1 v' g' (concat (map (device_links net t1 i) ds))" "same_traits t1 t'"
    using Cons.IH by blast
  have "device_links net t1 i = device_links net table i" by (rule same_traits_links [OF d(3)])
  with scan_step_trans [OF d(2) r(2)] d(1,3) r(1,3) show ?case by (auto simp: same_traits_def)
qed

lemma setters_keep [simp]:
  "nv_position (set_color c n) = nv_position n" "nv_links (set_color c n) = nv_links n"
  "nv_has_mobility (set_color c n) = nv_has_mobility n" "nv_look (set_color c n) = appearance (set_color c n)"
  "nv_position (set_selected b n) = nv_position n" "nv_links (set_selected b n) = nv_links n"
  "nv_look (set_selected b n) = appearance (set_selected b n)" "nv_selected (set_selected b n) = b"
  "nv_position (set_highlighted b n) = nv_position n" "nv_links (set_highlighted b n) = nv_links n"
  "nv_look (set_highlighted b n) = appearance (set_highlighted b n)" "nv_selected (set_highlighted b n) = nv_selected n"
  "nv_position (set_size z n) = nv_position n" "nv_links (set_size z n) = nv_links n"
  "nv_look (set_size z n) = appearance (set_size z n)" "nv_selected (set_size z n) = nv_selected n"
  by (simp_all add: set_color_def set_selected_def set_highlighted_def set_size_def update_appearance_def)

lemma nodes_set_position: "nodes (set_position e p v) = nodes (move_item e p v)"
  by (simp add: set_position_def Let_def split: endpoint.splits)

lemma cache_ok_set_position: "cache_ok net v \<Longrightarrow> cache_ok net (set_position e p v)"
  by (cases e) (auto simp: cache_ok_def nodes_set_position)

lemma scan_ok_set_position: "scan_ok net assign v g \<Longrightarrow> scan_ok net assign (set_position e p v) g"
  by (simp add: scan_ok_def set_position_ok cache_ok_set_position set_position_fields)

lemma scan_ok_set_color:
  assumes "scan_ok net assign v g"
  shows "scan_ok net assign (change_node i (set_color c) v) g"
proof -
  have "view_ok (change_node i (set_color c) v)"
    by (rule change_node_ok) (use assms in \<open>auto simp: scan_ok_def\<close>)
  moreover have "cache_ok net (change_node i (set_color c) v)"
    using assms by (auto simp: scan_ok_def cache_ok_def split: if_splits)
  ultimately show ?thesis using assms by (simp add: scan_ok_def)
qed

lemma get_position_set_color [simp]: "get_position (change_node i (set_color c) v) e = get_position v e"
  by (cases e) (auto simp: get_position.simps split: option.splits)

definition placed :: "network \<Rightarrow> view \<Rightarrow> graph \<Rightarrow> nat \<Rightarrow> bool" where
  "placed net v g i =
     (exists_end v (NodeEnd i) \<and>
      (case mobility net i of
         None \<Rightarrow> NodeEnd i \<in> set (g_nodes g)
       | Some p \<Rightarrow> get_position v (NodeEnd i) = transform_point_simulation_to_canvas p))"

lemma placed_extends: "placed net v g i \<Longrightarrow> extends v g v' g' \<Longrightarrow> placed net v' g' i"
  by (auto simp: placed_def extends_def split: option.splits)

lemma scan_node_step:
  assumes ok: "scan_ok net assign v g" and dev: "list_all (\<lambda>d. wired table d \<longrightarrow> dev_channel d \<noteq> None) (devices net i)"
  shows "\<exists>v' g' table'. scan_node net assign (v, g, table) i = Inr (v', g', table') \<and> scan_ok net assign v' g' \<and>
    link_ends v' = link_ends v @ node_links net table i \<and> same_traits table table' \<and> placed net v' g' i \<and>
    (\<forall>j. j \<noteq> i \<longrightarrow> placed net v g j \<longrightarrow> placed net v' g' j)"
proof -
  let ?v = "get_node i v"
  obtain v1 g1 where vg1: "(case mobility net i of
        Some p \<Rightarrow> (set_position (NodeEnd i) (transform_point_simulation_to_canvas p)
                    (change_node i (set_color (Rgb16 0xffff 0 0)) ?v), g)
      | None \<Rightarrow> (?v, add_graph_node (NodeEnd i) g)) = (v1, g1)" by fastforce
  have okv: "scan_ok net assign ?v g" by (rule scan_ok_get_node [OF ok])
  have 1: "scan_ok net assign v1 g1 \<and> placed net v1 g1 i \<and> link_ends v1 = link_ends v \<and>
      (\<forall>j. j \<noteq> i \<longrightarrow> placed net v g j \<longrightarrow> placed net v1 g1 j)"
  proof (cases "mobility net i")
    case None
    then have "v1 = ?v" "g1 = add_graph_node (NodeEnd i) g" using vg1 by auto
    with None okv show ?thesis
      by (auto simp: placed_def scan_ok_def add_graph_node_def mobile_def split: option.splits)
  next
    case (Some p)
    then have v1: "v1 = set_position (NodeEnd i) (transform_point_simulation_to_canvas p)
        (change_node i (set_color (Rgb16 0xffff 0 0)) ?v)" "g1 = g" using vg1 by auto
    have "scan_ok net assign v1 g1" unfolding v1 by (intro scan_ok_set_position scan_ok_set_color okv)
    with Some v1 show ?thesis by (auto simp: placed_def set_position_fields split: option.splits)
  qed
  then have "exists_end v1 (NodeEnd i)" by (simp add: placed_def)
  then obtain v' g' t' where r: "for_each (scan_device net assign i) (devices net i) (v1, g1, table) = Inr (v', g', t')"
    "scan_step net assign v1 g1 v' g' (node_links net table i)" "same_traits table t'"
    using scan_devices_step [OF _ _ dev] 1 unfolding node_links_def by blast
  have "scan_node net assign (v, g, table) i = Inr (v', g', t')"
    using r(1) vg1 by (simp add: scan_node_def Let_def)
  with 1 r(2,3) show ?thesis by (auto simp: scan_step_def intro: placed_extends)
qed

lemma scan_nodes:
  assumes "\<forall>i<m. list_all (\<lambda>d. wired table d \<longrightarrow> dev_channel d \<noteq> None) (devices net i)"
  shows "\<exists>v g table'. for_each (scan_node net assign) [0..<m] (new_view, \<lparr>g_nodes = [], g_edges = []\<rparr>, table) = Inr (v, g, table') \<and>
    scan_ok net assign v g \<and> link_ends v = concat (map (node_links net table) [0..<m]) \<and> same_traits table table' \<and>
    (\<forall>i<m. placed net v g i)"
  using assms
proof (induction m)
  case 0
  show ?case
    by (simp add: scan_ok_def view_ok_def new_view_def cache_ok_def link_ends_def same_traits_def)
       (metis empty_iff endpoint.exhaust links_of.simps list.set(1) map_of.simps(1) option.case(1) view.select_convs(1,2))
next
  case (Suc m)
  then obtain v g t where r: "for_each (scan_node net assign) [0..<m] (new_view, \<lparr>g_nodes = [], g_edges = []\<rparr>, table) = Inr (v, g, t)"
    "scan_ok net assign v g" "link_ends v = concat (map (node_links net table) [0..<m])" "same_traits table t"
    "\<forall>i<m. placed net v g i" by auto
  have "list_all (\<lambda>d. wired t d \<longrightarrow> dev_channel d \<noteq> None) (devices net m)"
    using Suc.prems by (simp add: same_traits_wired [OF r(4)])
  from scan_node_step [OF r(2) this] obtain v' g' t' where s: "scan_node net assign (v, g, t) m = Inr (v', g', t')"
    "scan_ok net assign v' g'" "link_ends v' = link_ends v @ node_links net t m" "same_traits t t'" "placed net v' g' m"
    "\<forall>j. j \<noteq> m \<longrightarrow> placed net v g j \<longrightarrow> placed net v' g' j" by blast
  have "node_links net t m = node_links net table m"
    unfolding node_links_def same_traits_links [OF r(4)] ..
  with r s show ?case by (auto simp: for_each_append same_traits_def less_Suc_eq)
qed

lemma place_all:
  assumes "view_ok v" "\<forall>e\<in>set es. exists_end v e"
  shows "\<exists>v' moved'. for_each (place net assign pos) es (v, moved) = Inr (v', moved') \<and> view_ok v' \<and> link_ends v' = link_ends v \<and>
    (\<forall>e. exists_end v' e = exists_end v e \<and> get_position v' e = (if e \<in> set es then pos e else get_position v e)) \<and>
    (\<forall>(i, p)\<in>set moved'. (i, p) \<in> set moved \<or> assign \<and> mobile net i \<and> p = pos (NodeEnd i) \<and> NodeEnd i \<in> set es)"
  using assms
proof (induction es arbitrary: v moved)
  case (Cons e es)
  let ?v = "set_position e (pos e) v"
  define moved1 where "moved1 =
    (case e of NodeEnd i \<Rightarrow> if assign \<and> mobile net i then moved @ [(i, pos e)] else moved | ChannelEnd c \<Rightarrow> moved)"
  have m: "place net assign pos (v, moved) e = Inr (?v, moved1)"
    "\<forall>(i, p)\<in>set moved1. (i, p) \<in> set moved \<or> assign \<and> mobile net i \<and> p = pos (NodeEnd i) \<and> NodeEnd i = e"
    using Cons.prems(2) by (auto simp: place_def exists_end.simps moved1_def split: endpoint.splits if_splits)
  have "view_ok ?v" "\<forall>e\<in>set es. exists_end ?v e"
    using Cons.prems set_position_ok by (auto simp: set_position_fields)
  from Cons.IH [OF this, of moved1] obtain v' moved' where r:
    "for_each (place net assign pos) es (?v, moved1) = Inr (v', moved')" "view_ok v'" "link_ends v' = link_ends ?v"
    "\<forall>e'. exists_end v' e' = exists_end ?v e' \<and> get_position v' e' = (if e' \<in> set es then pos e' else get_position ?v e')"
    "\<forall>(i, p)\<in>set moved'. (i, p) \<in> set moved1 \<or> assign \<and> mobile net i \<and> p = pos (NodeEnd i) \<and> NodeEnd i \<in> set es"
    by blast
  have "exists_end v' e' = exists_end v e' \<and> get_position v' e' = (if e' \<in> set (e # es) then pos e' else get_position v e')" for e'
    using r(4) Cons.prems(2) by (auto simp: set_position_fields)
  moreover have "\<forall>(i, p)\<in>set moved'. (i, p) \<in> set moved \<or> assign \<and> mobile net i \<and> p = pos (NodeEnd i) \<and> NodeEnd i \<in> set (e # es)"
    using r(5) m(2) by fastforce
  ultimately show ?case using m(1) r(1-3) by auto
qed auto

text \<open>
  C11: The scan of the topology. When every wired device is attached to a channel, the scan ends
  without an exception (the names read back from the layout are always known). The links are, in
  order, exactly those of the wired devices: one to the channel when it has more than two devices,
  else one to each other node on it. Every node of the network has a view, at the place the
  layout gives it when it is part of the graph and else at its position in the simulation, three
  pixels per metre; without \<^verbatim>\<open>NS_VIS_ASSIGN\<close> the graph has exactly the nodes that are not
  mobile. Both ends of each link know it, and each line that is drawn joins the two ends.
\<close>

theorem scan_topology_correct:
  assumes "\<forall>i<n_nodes net. list_all (\<lambda>d. wired table d \<longrightarrow> dev_channel d \<noteq> None) (devices net i)"
  shows "\<exists>v moved g. scan_topology net assign layout table new_view = Inr (v, moved) \<and> view_ok v \<and>
    link_ends v = concat (map (node_links net table) [0..<n_nodes net]) \<and>
    (\<forall>i<n_nodes net. exists_end v (NodeEnd i) \<and>
       get_position v (NodeEnd i) =
         (if NodeEnd i \<in> set (g_nodes g) then layout g (NodeEnd i)
          else transform_point_simulation_to_canvas (the (mobility net i))) \<and>
       (\<not> assign \<longrightarrow> (NodeEnd i \<in> set (g_nodes g) \<longleftrightarrow> \<not> mobile net i)))"
proof -
  from scan_nodes [OF assms] obtain v g t where r:
    "for_each (scan_node net assign) [0..<n_nodes net] (new_view, \<lparr>g_nodes = [], g_edges = []\<rparr>, table) = Inr (v, g, t)"
    "scan_ok net assign v g" "link_ends v = concat (map (node_links net table) [0..<n_nodes net])"
    "\<forall>i<n_nodes net. placed net v g i" by blast
  have "view_ok v" "\<forall>e\<in>set (g_nodes g). exists_end v e" using r(2) by (auto simp: scan_ok_def)
  from place_all [OF this, of net assign "layout g" "[]"] obtain v' moved where p:
    "for_each (place net assign (layout g)) (g_nodes g) (v, []) = Inr (v', moved)" "view_ok v'" "link_ends v' = link_ends v"
    "\<forall>e. exists_end v' e = exists_end v e \<and> get_position v' e = (if e \<in> set (g_nodes g) then layout g e else get_position v e)"
    by blast
  have "exists_end v' (NodeEnd i) \<and> get_position v' (NodeEnd i) =
         (if NodeEnd i \<in> set (g_nodes g) then layout g (NodeEnd i)
          else transform_point_simulation_to_canvas (the (mobility net i))) \<and>
       (\<not> assign \<longrightarrow> (NodeEnd i \<in> set (g_nodes g) \<longleftrightarrow> \<not> mobile net i))" if "i < n_nodes net" for i
  proof -
    have "placed net v g i" using r(4) that by blast
    with p(4) r(2) show ?thesis
      by (cases "mobility net i") (auto simp: placed_def scan_ok_def mobile_def)
  qed
  moreover have "scan_topology net assign layout table new_view = Inr (v', moved)"
    using r(1) p(1) by (simp add: scan_topology_def)
  ultimately show ?thesis using p(2,3) r(3) by auto
qed

text \<open>Two nodes, one of them mobile, joined by a cable; and three nodes on a bus.\<close>

definition demo_network :: network where
  "demo_network =
     \<lparr>n_nodes = 4, mobility = (\<lambda>i. if i = 1 then Some (5, 7) else None),
      devices = (\<lambda>i. if i = 0 then [\<lparr>dev_class = ''PointToPointNetDevice'', dev_channel = Some 7\<rparr>]
                     else if i = 1 then [\<lparr>dev_class = ''PointToPointNetDevice'', dev_channel = Some 7\<rparr>,
                                         \<lparr>dev_class = ''CsmaNetDevice'', dev_channel = Some 8\<rparr>]
                     else [\<lparr>dev_class = ''CsmaNetDevice'', dev_channel = Some 8\<rparr>, \<lparr>dev_class = ''Radio'', dev_channel = None\<rparr>]),
      channel_nodes = (\<lambda>c. if c = 7 then [0, 1] else [1, 2, 3])\<rparr>"

theorem scan_topology_correct_witness:
  "\<exists>v moved g. scan_topology demo_network False (\<lambda>g e. (0, 0)) (netdevice_traits_table False) new_view = Inr (v, moved) \<and>
     link_ends v = [(NodeEnd 0, NodeEnd 1), (NodeEnd 1, NodeEnd 0), (NodeEnd 1, ChannelEnd 8),
       (NodeEnd 2, ChannelEnd 8), (NodeEnd 3, ChannelEnd 8)]"
proof -
  have "\<forall>i<n_nodes demo_network. list_all (\<lambda>d. wired (netdevice_traits_table False) d \<longrightarrow> dev_channel d \<noteq> None) (devices demo_network i)"
    by (auto simp: demo_network_def wired_def lookup_netdevice_traits_def netdevice_traits_table_def Let_def)
  from scan_topology_correct [OF this, of False "\<lambda>g e. (0, 0)"]
  obtain v moved where v: "scan_topology demo_network False (\<lambda>g e. (0, 0)) (netdevice_traits_table False) new_view = Inr (v, moved)"
    "link_ends v = concat (map (node_links demo_network (netdevice_traits_table False)) [0..<n_nodes demo_network])" by blast
  have "concat (map (node_links demo_network (netdevice_traits_table False)) [0..<n_nodes demo_network]) =
      [(NodeEnd 0, NodeEnd 1), (NodeEnd 1, NodeEnd 0), (NodeEnd 1, ChannelEnd 8),
       (NodeEnd 2, ChannelEnd 8), (NodeEnd 3, ChannelEnd 8)]"
    by (simp add: demo_network_def node_links_def device_links_def wired_def lookup_netdevice_traits_def
        netdevice_traits_table_def Let_def eval_nat_numeral)
  with v show ?thesis by simp
qed

end
