(* ===== verification/VizSession.thy ===== *)
theory VizSession
  imports VizView
begin

text \<open>
  What the user does with the picture of \<^verbatim>\<open>VizView\<close>: selecting and highlighting nodes, choosing
  whose transmissions are shown, changing the size of the nodes and dragging nodes with the mouse
  (\<^verbatim>\<open>src/visualizer/visualizer/core.py\<close>). The callbacks run in the main thread under the
  simulation lock (theory \<^verbatim>\<open>VizThread\<close>), one after the other. A drag connects a handler for the motion of the
  pointer over the node; \<open>handlers\<close> are the connected ones with the item they are connected to.
\<close>

section \<open>The session\<close>

datatype show_transmissions_mode = ShowALL | ShowNONE | ShowSELECTED

record node_drag_state =
  canvas_0 :: point
  sim_0 :: point
  motion_signal :: nat

record session =
  pic :: view
  selected_node :: "nat option"
  show_mode :: show_transmissions_mode
  interest :: "nat list"
  positions :: "nat \<Rightarrow> point option"
  node_drag_state_of :: "node_drag_state option"
  handlers :: "(nat \<times> nat) list"
  next_handler :: nat

text \<open>\<^verbatim>\<open>set_show_transmissions_mode\<close>, with \<open>n\<close> nodes in the network\<close>

definition nodes_shown :: "nat \<Rightarrow> show_transmissions_mode \<Rightarrow> nat option \<Rightarrow> nat list" where
  "nodes_shown n mode sel =
     (case mode of ShowALL \<Rightarrow> [0..<n] | ShowNONE \<Rightarrow> [] | ShowSELECTED \<Rightarrow> (case sel of None \<Rightarrow> [] | Some i \<Rightarrow> [i]))"

definition set_show_transmissions_mode :: "nat \<Rightarrow> show_transmissions_mode \<Rightarrow> session \<Rightarrow> session" where
  "set_show_transmissions_mode n mode s =
     s\<lparr>show_mode := mode, interest := nodes_shown n mode (selected_node s)\<rparr>"

text \<open>The argument of \<^verbatim>\<open>select_node\<close>: nothing, a view, or a key (of a simulator node or an integer).\<close>

datatype node_arg = NoNode | NodeView nat | NodeKey nat | OtherObject

definition node_of_arg :: "node_arg \<Rightarrow> view \<Rightarrow> nat option result" where
  "node_of_arg a v =
     (case a of
        NoNode \<Rightarrow> Inr None
      | NodeView i \<Rightarrow> Inr (Some i)
      | NodeKey i \<Rightarrow> if has_key (nodes v) i then Inr (Some i) else Inl KeyError
      | OtherObject \<Rightarrow> Inl TypeError)"

definition mark :: "bool \<Rightarrow> nat option \<Rightarrow> view \<Rightarrow> view" where
  "mark b sel v = (case sel of None \<Rightarrow> v | Some i \<Rightarrow> change_node i (set_selected b) v)"

definition select_node :: "node_arg \<Rightarrow> session \<Rightarrow> session result" where
  "select_node a s =
     rbind (node_of_arg a (pic s)) (\<lambda>node.
       if node = selected_node s then Inr s
       else
         let s = s\<lparr>pic := mark True node (mark False (selected_node s) (pic s)), selected_node := node\<rparr> in
         Inr (if show_mode s = ShowSELECTED then s\<lparr>interest := nodes_shown 0 ShowSELECTED node\<rparr> else s))"

section \<open>Dragging\<close>

definition begin_node_drag :: "nat \<Rightarrow> point \<Rightarrow> session \<Rightarrow> session" where
  "begin_node_drag i pointer s =
     (case positions s i of
        None \<Rightarrow> s
      | Some pos \<Rightarrow>
          if node_drag_state_of s \<noteq> None then s
          else s\<lparr>node_drag_state_of := Some \<lparr>canvas_0 = pointer, sim_0 = pos, motion_signal = next_handler s\<rparr>,
                 handlers := handlers s @ [(next_handler s, i)], next_handler := Suc (next_handler s)\<rparr>)"

definition dragged_position :: "node_drag_state \<Rightarrow> point \<Rightarrow> point" where
  "dragged_position d pointer =
     (fst (sim_0 d) + transform_distance_canvas_to_simulation (fst pointer - fst (canvas_0 d)),
      snd (sim_0 d) + transform_distance_canvas_to_simulation (snd pointer - snd (canvas_0 d)))"

definition node_drag_motion :: "nat \<Rightarrow> point \<Rightarrow> session \<Rightarrow> session" where
  "node_drag_motion i pointer s =
     (case positions s i of
        None \<Rightarrow> s
      | Some _ \<Rightarrow>
          (case node_drag_state_of s of
             None \<Rightarrow> s
           | Some d \<Rightarrow>
               let pos = dragged_position d pointer in
               s\<lparr>positions := (positions s)(i := Some pos),
                 pic := set_position (NodeEnd i) (transform_point_simulation_to_canvas pos) (pic s)\<rparr>))"

text \<open>The signal is disconnected from the item of the node on which the button is released.\<close>

definition end_node_drag :: "nat \<Rightarrow> session \<Rightarrow> session" where
  "end_node_drag i s =
     (case node_drag_state_of s of
        None \<Rightarrow> s
      | Some d \<Rightarrow> s\<lparr>handlers := filter (\<lambda>h. h \<noteq> (motion_signal d, i)) (handlers s), node_drag_state_of := None\<rparr>)"

section \<open>Events\<close>

text \<open>
  Buttons 1 and 2 on a node select and drag it, button 1 on the background selects nothing. A
  motion over the node \<open>i\<close> calls the handlers connected to its item.
\<close>

datatype session_event =
    NodePress nat nat point
  | NodeRelease nat nat
  | NodeMotion nat point
  | RootPress nat
  | EnterNode nat
  | LeaveNode nat
  | ChooseMode show_transmissions_mode
  | NodeSize rat

fun session_step :: "nat \<Rightarrow> session_event \<Rightarrow> session \<Rightarrow> session result" where
  "session_step n (NodePress i button pointer) s =
     (if button = 1 then select_node (NodeView i) s
      else if button = 2 then Inr (begin_node_drag i pointer s)
      else Inr s)"
| "session_step n (NodeRelease i button) s = Inr (if button = 2 then end_node_drag i s else s)"
| "session_step n (NodeMotion i pointer) s =
     Inr (fold (\<lambda>h. node_drag_motion i pointer) (filter (\<lambda>h. snd h = i) (handlers s)) s)"
| "session_step n (RootPress button) s = (if button = 1 then select_node NoNode s else Inr s)"
| "session_step n (EnterNode i) s = Inr (s\<lparr>pic := change_node i (set_highlighted True) (pic s)\<rparr>)"
| "session_step n (LeaveNode i) s = Inr (s\<lparr>pic := change_node i (set_highlighted False) (pic s)\<rparr>)"
| "session_step n (ChooseMode m) s = Inr (set_show_transmissions_mode n m s)"
| "session_step n (NodeSize z) s =
     Inr (s\<lparr>pic := fold (\<lambda>i. change_node i (set_size z)) (dict_keys (nodes (pic s))) (pic s)\<rparr>)"

definition session_run :: "nat \<Rightarrow> session_event list \<Rightarrow> session \<Rightarrow> session result" where
  "session_run n evs s = for_each (\<lambda>s ev. session_step n ev s) evs s"

text \<open>The session after the scan of a network with \<open>n\<close> nodes.\<close>

definition start_session :: "nat \<Rightarrow> (nat \<Rightarrow> point option) \<Rightarrow> view \<Rightarrow> session" where
  "start_session n ps v =
     \<lparr>pic = v, selected_node = None, show_mode = ShowALL, interest = nodes_shown n ShowALL None, positions = ps,
      node_drag_state_of = None, handlers = [], next_handler = 0\<rparr>"

section \<open>The selected node\<close>

text \<open>The nodes on which events happen have views.\<close>

fun event_node :: "session_event \<Rightarrow> nat option" where
  "event_node (NodePress i button pointer) = Some i"
| "event_node (NodeRelease i button) = Some i"
| "event_node (NodeMotion i pointer) = Some i"
| "event_node (EnterNode i) = Some i"
| "event_node (LeaveNode i) = Some i"
| "event_node _ = None"

definition event_ok :: "view \<Rightarrow> session_event \<Rightarrow> bool" where
  "event_ok v ev = (case event_node ev of None \<Rightarrow> True | Some i \<Rightarrow> has_key (nodes v) i)"

definition session_ok :: "nat \<Rightarrow> session \<Rightarrow> bool" where
  "session_ok n s =
     (view_ok (pic s) \<and>
      (\<forall>i m. map_of (nodes (pic s)) i = Some m \<longrightarrow> nv_selected m = (selected_node s = Some i)) \<and>
      (\<forall>i. selected_node s = Some i \<longrightarrow> has_key (nodes (pic s)) i) \<and>
      interest s = nodes_shown n (show_mode s) (selected_node s))"

lemma mark_ok: "view_ok v \<Longrightarrow> view_ok (mark b sel v)"
  by (auto simp: mark_def intro!: change_node_ok split: option.splits)

lemma mark_nodes:
  "map_of (nodes (mark b sel v)) i = (if sel = Some i then map_option (set_selected b) (map_of (nodes v) i) else map_of (nodes v) i)"
  by (auto simp: mark_def split: option.splits)

lemma mark_keys: "has_key (nodes (mark b sel v)) i = has_key (nodes v) i"
  by (auto simp: has_key_def mark_nodes)

lemma select_node_ok:
  assumes "session_ok n s" "select_node a s = Inr s'" "\<And>i. a = NodeView i \<Longrightarrow> has_key (nodes (pic s)) i"
  shows "session_ok n s'"
proof -
  obtain node where node: "node_of_arg a (pic s) = Inr node" using assms(2) by (auto simp: select_node_def rbind_eq_Inr)
  show ?thesis
  proof (cases "node = selected_node s")
    case True
    with assms(1,2) node show ?thesis by (simp add: select_node_def)
  next
    case False
    let ?v = "mark True node (mark False (selected_node s) (pic s))"
    have s': "pic s' = ?v" "selected_node s' = node" "show_mode s' = show_mode s"
      "interest s' = (if show_mode s = ShowSELECTED then nodes_shown 0 ShowSELECTED node else interest s)"
      using assms(2) node False by (auto simp: select_node_def Let_def split: if_splits)
    have key: "has_key (nodes (pic s)) i" if "node = Some i" for i
      using node that assms(3) by (cases a) (auto simp: node_of_arg_def split: if_splits)
    have "nv_selected m = (node = Some i)" if "map_of (nodes ?v) i = Some m" for i m
      using that assms(1) False by (auto simp: mark_nodes session_ok_def split: if_splits)
    moreover have "interest s' = nodes_shown n (show_mode s) node"
      using assms(1) s'(4) by (auto simp: session_ok_def nodes_shown_def split: show_transmissions_mode.splits)
    moreover have "view_ok ?v" using assms(1) by (simp add: session_ok_def mark_ok)
    ultimately show ?thesis using key by (simp add: session_ok_def s' mark_keys)
  qed
qed

text \<open>Events that change the picture but neither the selection nor the mode.\<close>

lemma session_ok_picture:
  assumes "session_ok n s" "view_ok (pic s')"
    and "\<And>i. map_option nv_selected (map_of (nodes (pic s')) i) = map_option nv_selected (map_of (nodes (pic s)) i)"
    and "selected_node s' = selected_node s" "show_mode s' = show_mode s" "interest s' = interest s"
  shows "session_ok n s'"
proof -
  have "has_key (nodes (pic s')) i = has_key (nodes (pic s)) i" for i
    using assms(3) [of i] by (metis has_key_def option.map_disc_iff)
  moreover have "nv_selected m = (selected_node s = Some i)" if m: "map_of (nodes (pic s')) i = Some m" for i m
  proof -
    from assms(3) [of i] m obtain m' where "map_of (nodes (pic s)) i = Some m'" "nv_selected m' = nv_selected m"
      by (cases "map_of (nodes (pic s)) i") auto
    with assms(1) show ?thesis by (metis session_ok_def)
  qed
  ultimately show ?thesis using assms(1,2,4-6) by (simp add: session_ok_def)
qed

lemma selected_set_position:
  "map_option nv_selected (map_of (nodes (set_position e p v)) i) = map_option nv_selected (map_of (nodes v) i)"
  by (cases e) (auto simp: nodes_set_position option.map_comp comp_def)

lemma node_drag_motion_ok:
  assumes "session_ok n s"
  shows "session_ok n (node_drag_motion i pointer s)"
  by (rule session_ok_picture [OF assms])
     (use assms in \<open>auto simp: node_drag_motion_def Let_def session_ok_def set_position_ok selected_set_position split: option.splits\<close>)

lemma set_size_all:
  "view_ok v \<Longrightarrow> view_ok (fold (\<lambda>i. change_node i (set_size z)) is v) \<and>
   map_option nv_selected (map_of (nodes (fold (\<lambda>i. change_node i (set_size z)) is v)) j) = map_option nv_selected (map_of (nodes v) j)"
proof (induction "is" arbitrary: v)
  case (Cons i "is")
  have "view_ok (change_node i (set_size z) v)" by (rule change_node_ok [OF Cons.prems]) simp_all
  from Cons.IH [OF this] show ?case by (simp add: option.map_comp comp_def)
qed simp

lemma set_highlighted_ok:
  assumes "session_ok n s"
  shows "session_ok n (s\<lparr>pic := change_node i (set_highlighted b) (pic s)\<rparr>)"
proof (rule session_ok_picture [OF assms])
  show "view_ok (pic (s\<lparr>pic := change_node i (set_highlighted b) (pic s)\<rparr>))"
    using assms by (auto simp: session_ok_def intro!: change_node_ok)
qed (simp_all add: option.map_comp comp_def)

lemma session_step_ok:
  assumes "session_ok n s" "event_ok (pic s) ev" "session_step n ev s = Inr s'"
  shows "session_ok n s'"
proof (cases ev)
  case (NodePress i button pointer)
  have "session_ok n (begin_node_drag i pointer s)"
    by (rule session_ok_picture [OF assms(1)]) (use assms(1) in \<open>auto simp: begin_node_drag_def session_ok_def split: option.splits\<close>)
  with NodePress assms select_node_ok [OF assms(1), of "NodeView i" s'] show ?thesis
    by (auto simp: event_ok_def split: if_splits)
next
  case (NodeRelease i button)
  have "session_ok n (end_node_drag i s)"
    by (rule session_ok_picture [OF assms(1)]) (use assms(1) in \<open>auto simp: end_node_drag_def session_ok_def split: option.splits\<close>)
  with NodeRelease assms show ?thesis by (auto split: if_splits)
next
  case (NodeMotion i pointer)
  have "session_ok n s \<Longrightarrow> session_ok n (fold (\<lambda>h. node_drag_motion i pointer) hs s)" for hs :: "(nat \<times> nat) list" and s
    by (induction hs arbitrary: s) (auto intro: node_drag_motion_ok)
  with NodeMotion assms show ?thesis by auto
next
  case (RootPress button)
  with assms select_node_ok [OF assms(1), of NoNode s'] show ?thesis by (auto split: if_splits)
next
  case (ChooseMode m)
  with assms show ?thesis by (auto simp: set_show_transmissions_mode_def session_ok_def)
next
  case (NodeSize z)
  let ?s = "s\<lparr>pic := fold (\<lambda>i. change_node i (set_size z)) (dict_keys (nodes (pic s))) (pic s)\<rparr>"
  have "session_ok n ?s"
    by (rule session_ok_picture [OF assms(1)]) (use assms(1) set_size_all in \<open>auto simp: session_ok_def\<close>)
  with NodeSize assms(3) show ?thesis by simp
qed (use assms set_highlighted_ok in auto)

lemma select_node_ends: "select_node a s = Inr s' \<Longrightarrow> exists_end (pic s') e = exists_end (pic s) e"
  by (auto simp: select_node_def rbind_eq_Inr Let_def mark_def split: if_splits option.splits)

lemma session_step_ends:
  assumes "session_step n ev s = Inr s'"
  shows "exists_end (pic s') e = exists_end (pic s) e"
proof (cases ev)
  case (NodePress i button pointer)
  with assms show ?thesis
    by (auto simp: select_node_ends begin_node_drag_def split: if_splits option.splits)
next
  case (NodeMotion i pointer)
  have "exists_end (pic (fold (\<lambda>h. node_drag_motion i pointer) hs s)) e = exists_end (pic s) e" for hs :: "(nat \<times> nat) list" and s
    by (induction hs arbitrary: s)
       (auto simp: node_drag_motion_def Let_def set_position_fields split: option.splits)
  with NodeMotion assms show ?thesis by auto
next
  case (NodeSize z)
  have "exists_end (fold (\<lambda>i. change_node i (set_size z)) is v) e = exists_end v e" for "is" v
    by (induction "is" arbitrary: v) simp_all
  with NodeSize assms show ?thesis by auto
qed (use assms in \<open>auto simp: select_node_ends end_node_drag_def set_show_transmissions_mode_def split: if_splits option.splits\<close>)

lemma session_step_total: "event_ok (pic s) ev \<Longrightarrow> \<exists>s'. session_step n ev s = Inr s'"
  by (cases ev) (auto simp: select_node_def node_of_arg_def Let_def)

lemma session_run_ok:
  assumes "session_ok n s" "list_all (event_ok (pic s)) evs"
  shows "\<exists>s'. session_run n evs s = Inr s' \<and> session_ok n s' \<and> (\<forall>e. exists_end (pic s') e = exists_end (pic s) e)"
  using assms
proof (induction evs arbitrary: s)
  case (Cons ev evs)
  from Cons.prems(2) obtain t where t: "session_step n ev s = Inr t" using session_step_total by fastforce
  have "session_ok n t" using session_step_ok [OF Cons.prems(1) _ t] Cons.prems(2) by simp
  moreover have ends: "exists_end (pic t) e = exists_end (pic s) e" for e by (rule session_step_ends [OF t])
  have "has_key (nodes (pic t)) i = has_key (nodes (pic s)) i" for i
    using ends [of "NodeEnd i"] by (simp add: exists_end.simps)
  then have "event_ok (pic t) = event_ok (pic s)" by (auto simp: event_ok_def fun_eq_iff split: option.splits)
  with Cons.prems(2) have "list_all (event_ok (pic t)) evs" by simp
  ultimately show ?case using Cons.IH [of t] t ends by (auto simp: session_run_def)
qed (simp add: session_run_def)

text \<open>
  C12: Selection and picture. After any sequence of clicks, drags, motions, changes of the mode and
  of the size, on nodes that have views, no exception was raised; exactly the selected node is
  marked and drawn as selected; the nodes whose transmissions are recorded are those the mode asks
  for; every node looks like its state; the ends of every link know it and its line joins them.
\<close>

theorem session_invariant:
  assumes "view_ok v" "\<forall>i m. map_of (nodes v) i = Some m \<longrightarrow> \<not> nv_selected m" "list_all (event_ok v) evs"
  shows "\<exists>s. session_run n evs (start_session n ps v) = Inr s \<and> view_ok (pic s) \<and>
    (\<forall>i m. map_of (nodes (pic s)) i = Some m \<longrightarrow>
       nv_selected m = (selected_node s = Some i) \<and> nv_look m = appearance m) \<and>
    interest s = nodes_shown n (show_mode s) (selected_node s)"
proof -
  have "session_ok n (start_session n ps v)"
    using assms(1,2) by (simp add: session_ok_def start_session_def)
  moreover have "list_all (event_ok (pic (start_session n ps v))) evs" using assms(3) by (simp add: start_session_def)
  ultimately obtain s where "session_run n evs (start_session n ps v) = Inr s" "session_ok n s"
    using session_run_ok by blast
  then show ?thesis by (auto simp: session_ok_def view_ok_def)
qed

section \<open>Dragging a node\<close>

lemma session_run_simps:
  "session_run n [] s = Inr s"
  "session_run n (ev # evs) s = rbind (session_step n ev s) (\<lambda>s. session_run n evs s)"
  by (simp_all add: session_run_def)

lemma session_run_append: "session_run n (evs @ evs') s = rbind (session_run n evs s) (\<lambda>s. session_run n evs' s)"
  by (simp add: session_run_def for_each_append)

text \<open>The node is dragged: the drag has begun and the only handler on the node is the one of the drag.\<close>

definition dragging :: "nat \<Rightarrow> nat \<Rightarrow> node_drag_state \<Rightarrow> session \<Rightarrow> bool" where
  "dragging i k d s =
     (node_drag_state_of s = Some d \<and> filter (\<lambda>h. snd h = i) (handlers s) = [(k, i)] \<and> positions s i \<noteq> None \<and>
      exists_end (pic s) (NodeEnd i))"

definition dragged_to :: "nat \<Rightarrow> point \<Rightarrow> session \<Rightarrow> session \<Rightarrow> bool" where
  "dragged_to i q s s' =
     (positions s' = (positions s)(i := Some q) \<and>
      (\<forall>e. get_position (pic s') e = (if e = NodeEnd i then transform_point_simulation_to_canvas q else get_position (pic s) e)))"

lemma drag_motion:
  assumes "dragging i k d s"
  shows "\<exists>s'. session_step n (NodeMotion i p) s = Inr s' \<and> dragging i k d s' \<and> dragged_to i (dragged_position d p) s s' \<and>
    handlers s' = handlers s"
  using assms
  by (auto simp: dragging_def dragged_to_def node_drag_motion_def Let_def set_position_fields split: option.splits)

lemma drag_motions:
  assumes "dragging i k d s"
  shows "\<exists>s'. session_run n (map (NodeMotion i) (ps @ [p])) s = Inr s' \<and> dragging i k d s' \<and>
    dragged_to i (dragged_position d p) s s' \<and> handlers s' = handlers s"
  using assms
proof (induction ps arbitrary: s)
  case Nil
  from drag_motion [OF this, of n p] show ?case by (auto simp: session_run_simps)
next
  case (Cons x ps)
  from drag_motion [OF Cons.prems, of n x] obtain t where t: "session_step n (NodeMotion i x) s = Inr t" "dragging i k d t"
    "dragged_to i (dragged_position d x) s t" "handlers t = handlers s" by blast
  from Cons.IH [OF t(2)] obtain s' where s': "session_run n (map (NodeMotion i) (ps @ [p])) t = Inr s'" "dragging i k d s'"
    "dragged_to i (dragged_position d p) t s'" "handlers s' = handlers t" by blast
  have "dragged_to i (dragged_position d p) s s'" using t(3) s'(3) by (auto simp: dragged_to_def)
  with t(1,4) s' show ?case by (auto simp: session_run_simps simp del: session_step.simps)
qed

text \<open>
  Dragging. When a mobile node that has no handler is pressed, the pointer is moved over it
  and the button is released on it, the node has moved in the simulation by the way of the pointer
  at three pixels per metre, its picture has moved by the way of the pointer itself, no other
  item has moved, and the handler of the drag is gone again.
\<close>

theorem drag_moves_node:
  assumes "node_drag_state_of s = None" "i \<notin> snd ` set (handlers s)" "positions s i = Some q" "has_key (nodes (pic s)) i"
  shows "\<exists>s'. session_run n ([NodePress i 2 p0] @ map (NodeMotion i) (ps @ [p]) @ [NodeRelease i 2]) s = Inr s' \<and>
    positions s' = (positions s)(i := Some (fst q + (fst p - fst p0) / 3, snd q + (snd p - snd p0) / 3)) \<and>
    (\<forall>e. get_position (pic s') e =
       (if e = NodeEnd i then (3 * fst q + (fst p - fst p0), 3 * snd q + (snd p - snd p0)) else get_position (pic s) e)) \<and>
    node_drag_state_of s' = None \<and> handlers s' = handlers s"
proof -
  let ?k = "next_handler s"
  let ?d = "\<lparr>canvas_0 = p0, sim_0 = q, motion_signal = ?k\<rparr>"
  define t where "t = begin_node_drag i p0 s"
  have none: "filter (\<lambda>h. snd h = i) (handlers s) = []" using assms(2) by (force simp: filter_empty_conv)
  have t: "dragging i ?k ?d t" "pic t = pic s" "positions t = positions s" "handlers t = handlers s @ [(?k, i)]"
    using assms none by (auto simp: t_def begin_node_drag_def dragging_def exists_end.simps)
  from drag_motions [OF t(1)] obtain u where u: "session_run n (map (NodeMotion i) (ps @ [p])) t = Inr u" "dragging i ?k ?d u"
    "dragged_to i (dragged_position ?d p) t u" "handlers u = handlers t" by blast
  have "(?k, i) \<notin> set (handlers s)" using assms(2) by force
  then have "filter (\<lambda>h. h \<noteq> (?k, i)) (handlers s) = handlers s" by (auto simp: filter_id_conv)
  then have "end_node_drag i u = u\<lparr>handlers := handlers s, node_drag_state_of := None\<rparr>"
    using u(2,4) t(4) by (simp add: end_node_drag_def dragging_def)
  moreover have "session_run n ([NodePress i 2 p0] @ map (NodeMotion i) (ps @ [p]) @ [NodeRelease i 2]) s =
      Inr (end_node_drag i u)"
    using u(1) by (simp add: session_run_append [of n "map (NodeMotion i) (ps @ [p])"] session_run_simps t_def del: map_append)
  moreover have "dragged_position ?d p = (fst q + (fst p - fst p0) / 3, snd q + (snd p - snd p0) / 3)"
    by (simp add: dragged_position_def transform_distance_canvas_to_simulation_def)
  moreover have "transform_point_simulation_to_canvas (fst q + (fst p - fst p0) / 3, snd q + (snd p - snd p0) / 3) =
      (3 * fst q + (fst p - fst p0), 3 * snd q + (snd p - snd p0))"
    by (simp add: transform_point_simulation_to_canvas_def field_simps)
  ultimately show ?thesis using u(3) t(2,3) by (simp add: dragged_to_def)
qed

text \<open>
  A drag that ends on another node. When the button is released over another node than the
  one on which it was pressed, the signal is disconnected from the wrong item. The handler stays,
  and when the other node is dragged later, moving the pointer over the first node throws it to
  the place of the dragged one.
\<close>

theorem drag_handler_left:
  assumes "node_drag_state_of s = None" "handlers s = []" "i \<noteq> j" "positions s i = Some qi" "positions s j = Some qj"
  shows "\<exists>s'. session_run n [NodePress i 2 p0, NodeRelease j 2, NodePress j 2 p1, NodeMotion i p] s = Inr s' \<and>
    positions s' i = Some (fst qj + (fst p - fst p1) / 3, snd qj + (snd p - snd p1) / 3) \<and> positions s' j = Some qj"
  using assms
  by (simp add: session_run_simps begin_node_drag_def end_node_drag_def node_drag_motion_def Let_def
      dragged_position_def transform_distance_canvas_to_simulation_def)

definition demo_session :: session where
  "demo_session = start_session 2 (\<lambda>i. Some (of_nat i, 0)) (get_node 1 (get_node 0 new_view))"

lemma new_view_ok: "view_ok new_view"
proof -
  have "links_of new_view e = []" for e by (cases e) (simp_all add: links_of.simps new_view_def)
  then show ?thesis by (auto simp: view_ok_def new_view_def)
qed

theorem session_invariant_witness:
  "\<exists>s. session_run 2 [NodePress 1 1 (0, 0), ChooseMode ShowSELECTED] (start_session 2 (\<lambda>i. None) (get_node 1 (get_node 0 new_view))) = Inr s \<and>
     interest s = [1]"
proof -
  let ?v = "get_node 1 (get_node 0 new_view)" and ?evs = "[NodePress 1 1 (0, 0), ChooseMode ShowSELECTED]"
  have 1: "view_ok ?v" by (intro get_node_ok new_view_ok)
  have 2: "\<forall>i m. map_of (nodes ?v) i = Some m \<longrightarrow> \<not> nv_selected m"
    by (auto simp: cache_get_node new_view_def new_node_def update_appearance_def split: if_splits)
  have 3: "list_all (event_ok ?v) ?evs"
    by (auto simp: event_ok_def has_key_def cache_get_node split: if_splits)
  from session_invariant [OF 1 2 3, of 2 "\<lambda>i. None"] obtain s where s:
    "session_run 2 ?evs (start_session 2 (\<lambda>i. None) ?v) = Inr s" "interest s = nodes_shown 2 (show_mode s) (selected_node s)"
    by blast
  have "show_mode s = ShowSELECTED" "selected_node s = Some 1"
    using s(1) by (auto simp: session_run_simps start_session_def select_node_def node_of_arg_def
        set_show_transmissions_mode_def Let_def)
  with s show ?thesis by (simp add: nodes_shown_def)
qed

theorem drag_moves_node_witness:
  "\<exists>s'. session_run 2 [NodePress 1 2 (10, 10), NodeMotion 1 (13, 16), NodeRelease 1 2] demo_session = Inr s' \<and>
     positions s' 1 = Some (2, 2)"
proof -
  have "has_key (nodes (pic demo_session)) 1"
    by (auto simp: demo_session_def start_session_def has_key_def cache_get_node split: if_splits)
  moreover have "node_drag_state_of demo_session = None" "1 \<notin> snd ` set (handlers demo_session)"
    "positions demo_session 1 = Some (1, 0)"
    by (simp_all add: demo_session_def start_session_def)
  ultimately show ?thesis
    using drag_moves_node [of demo_session 1 "(1, 0)" 2 "(10, 10)" "[]" "(13, 16)"] by auto
qed

theorem drag_handler_left_witness:
  "\<exists>s'. session_run 2 [NodePress 0 2 (0, 0), NodeRelease 1 2, NodePress 1 2 (3, 0), NodeMotion 0 (3, 0)] demo_session = Inr s' \<and>
     positions s' 0 = Some (1, 0) \<and> positions s' 1 = Some (1, 0)"
proof -
  have "node_drag_state_of demo_session = None" "handlers demo_session = []"
    "positions demo_session 0 = Some (0, 0)" "positions demo_session 1 = Some (1, 0)"
    by (simp_all add: demo_session_def start_session_def)
  from drag_handler_left [OF this(1,2) _ this(3,4), of 2 "(0, 0)" "(3, 0)" "(3, 0)"] show ?thesis by auto
qed

end
