(* ===== verification/VizScroll.thy ===== *)
theory VizScroll
  imports VizSession
begin

text \<open>
  \<^verbatim>\<open>src/visualizer/visualizer/core.py\<close>: what part of the canvas the window shows. Scrolling by
  the adjustments of the scrolled window, zooming, panning with the middle button, centring on a
  node, following a node and the automatic scaling at the start. What GTK and GooCanvas do is a
  parameter, the record \<open>toolkit\<close>: the value an adjustment takes when it is set (at the current
  scale), the page sizes, the conversion between canvas units and pixels at a scale, the values of
  the adjustments after \<^verbatim>\<open>scroll_to\<close> and after a change of the scale. A signal handler is a
  number; a handler that fails leaves the event to the next one, a handler that returns
  \<^verbatim>\<open>True\<close> ends it.
\<close>

section \<open>State\<close>

record toolkit =
  h_limit :: "rat \<Rightarrow> rat \<Rightarrow> rat"
  v_limit :: "rat \<Rightarrow> rat \<Rightarrow> rat"
  h_page :: rat
  v_page :: rat
  zoom_limit :: "rat \<Rightarrow> rat"
  to_pixels :: "rat \<Rightarrow> point \<Rightarrow> point"
  from_pixels :: "rat \<Rightarrow> point \<Rightarrow> point"
  scrolled_to :: "rat \<Rightarrow> point \<Rightarrow> point"
  rescaled :: "rat \<Rightarrow> rat \<Rightarrow> point \<Rightarrow> point"

record panning_state =
  initial_mouse_pos :: point
  initial_canvas_pos :: point
  motion_signal :: nat

record window =
  scroll :: point
  zoom :: rat
  panning :: "panning_state option"
  motion_handlers :: "nat list"
  next_handler :: nat
  follow_node :: "nat option"
  scene :: view

section \<open>Scrolling and zooming\<close>

definition set_scroll :: "toolkit \<Rightarrow> point \<Rightarrow> window \<Rightarrow> window" where
  "set_scroll tk p w = w\<lparr>scroll := (h_limit tk (zoom w) (fst p), v_limit tk (zoom w) (snd p))\<rparr>"

text \<open>The callback of the zoom runs only when the value changes.\<close>

definition set_zoom :: "toolkit \<Rightarrow> rat \<Rightarrow> window \<Rightarrow> window" where
  "set_zoom tk v w =
     (let z = zoom_limit tk v in
      if z = zoom w then w else w\<lparr>zoom := z, scroll := rescaled tk (zoom w) z (scroll w)\<rparr>)"

datatype scroll_direction = ScrollUp | ScrollDown | ScrollSideways

definition canvas_scroll_event :: "toolkit \<Rightarrow> scroll_direction \<Rightarrow> window \<Rightarrow> window" where
  "canvas_scroll_event tk d w =
     (case d of
        ScrollUp \<Rightarrow> set_zoom tk (zoom w * (5 / 4)) w
      | ScrollDown \<Rightarrow> set_zoom tk (zoom w / (5 / 4)) w
      | ScrollSideways \<Rightarrow> w)"

definition centre_on :: "toolkit \<Rightarrow> point \<Rightarrow> window \<Rightarrow> window" where
  "centre_on tk p w =
     (let px = to_pixels tk (zoom w) p
      in set_scroll tk (fst px - h_page tk / 2, snd px - v_page tk / 2) w)"

definition center_on_node :: "toolkit \<Rightarrow> node_arg \<Rightarrow> window \<Rightarrow> window result" where
  "center_on_node tk a w =
     rbind (node_of_arg a (scene w)) (\<lambda>n.
       case n of None \<Rightarrow> Inl TypeError | Some i \<Rightarrow> Inr (centre_on tk (get_position (scene w) (NodeEnd i)) w))"

text \<open>
  \<^verbatim>\<open>set_follow_node\<close> looks up the view of a node of the simulator and stores any other object as
  it is; only the view of a node is ever followed.
\<close>

datatype follow_arg = SimulatorNode nat | ViewOfNode nat | OtherArgument

definition set_follow_node :: "follow_arg \<Rightarrow> window \<Rightarrow> window result" where
  "set_follow_node a w =
     (case a of
        SimulatorNode i \<Rightarrow> if has_key (nodes (scene w)) i then Inr (w\<lparr>follow_node := Some i\<rparr>) else Inl KeyError
      | ViewOfNode i \<Rightarrow> Inr (w\<lparr>follow_node := Some i\<rparr>)
      | OtherArgument \<Rightarrow> Inr (w\<lparr>follow_node := None\<rparr>))"

definition follow :: "toolkit \<Rightarrow> network \<Rightarrow> nat \<Rightarrow> window \<Rightarrow> window" where
  "follow tk net i w =
     (case has_mobility net i (scene w) of
        (m, _) \<Rightarrow>
          let w' = w\<lparr>scene := update_node_position net i (scene w)\<rparr> in
          (case mobility net i of
             Some p \<Rightarrow>
               if m \<and> follow_node w = Some i
               then centre_on tk (transform_point_simulation_to_canvas p) w' else w'
           | None \<Rightarrow> w'))"

definition follow_all :: "toolkit \<Rightarrow> network \<Rightarrow> window \<Rightarrow> window" where
  "follow_all tk net w = fold (follow tk net) (dict_keys (nodes (scene w))) w"

section \<open>Panning\<close>

definition begin_panning :: "point \<Rightarrow> window \<Rightarrow> window" where
  "begin_panning pointer w =
     w\<lparr>panning := Some \<lparr>initial_mouse_pos = pointer, initial_canvas_pos = scroll w, motion_signal = next_handler w\<rparr>,
       motion_handlers := motion_handlers w @ [next_handler w], next_handler := Suc (next_handler w)\<rparr>"

definition end_panning :: "window \<Rightarrow> window" where
  "end_panning w =
     (case panning w of None \<Rightarrow> w
      | Some st \<Rightarrow> w\<lparr>motion_handlers := remove1 (motion_signal st) (motion_handlers w), panning := None\<rparr>)"

definition panning_motion :: "toolkit \<Rightarrow> point \<Rightarrow> window \<Rightarrow> window result" where
  "panning_motion tk p w =
     (case panning w of None \<Rightarrow> Inl AssertionError
      | Some st \<Rightarrow>
         let d = (fst p - fst (initial_mouse_pos st), snd p - snd (initial_mouse_pos st)); c = initial_canvas_pos st
         in Inr (set_scroll tk (fst c - fst d, snd c - snd d) w))"

text \<open>One motion: the handlers in turn, with the exceptions that were raised.\<close>

fun emit_motion :: "toolkit \<Rightarrow> point \<Rightarrow> nat list \<Rightarrow> window \<Rightarrow> py_error list \<times> window" where
  "emit_motion tk p [] w = ([], w)"
| "emit_motion tk p (h # hs) w =
     (case panning_motion tk p w of
        Inr w' \<Rightarrow> ([], w')
      | Inl e \<Rightarrow> (case emit_motion tk p hs w of (es, w') \<Rightarrow> (e # es, w')))"

datatype window_event =
    CanvasPress nat point
  | CanvasRelease nat
  | CanvasMotion point
  | CanvasScroll scroll_direction
  | ZoomSet rat

definition window_step :: "toolkit \<Rightarrow> window_event \<Rightarrow> window \<Rightarrow> py_error list \<times> window" where
  "window_step tk ev w =
     (case ev of
        CanvasPress b p \<Rightarrow> ([], if b = 2 then begin_panning p w else w)
      | CanvasRelease b \<Rightarrow> ([], if b = 2 then end_panning w else w)
      | CanvasMotion p \<Rightarrow> emit_motion tk p (motion_handlers w) w
      | CanvasScroll d \<Rightarrow> ([], canvas_scroll_event tk d w)
      | ZoomSet v \<Rightarrow> ([], set_zoom tk v w))"

fun window_run :: "toolkit \<Rightarrow> window_event list \<Rightarrow> window \<Rightarrow> py_error list \<times> window" where
  "window_run tk [] w = ([], w)"
| "window_run tk (ev # evs) w =
     (case window_step tk ev w of (es, w') \<Rightarrow> (case window_run tk evs w' of (es', w'') \<Rightarrow> (es @ es', w'')))"

section \<open>Automatic scaling\<close>

definition node_points :: "view \<Rightarrow> point list" where
  "node_points v = map (\<lambda>i. get_position v (NodeEnd i)) (dict_keys (nodes v))"

definition autoscale_view :: "toolkit \<Rightarrow> network \<Rightarrow> window \<Rightarrow> window" where
  "autoscale_view tk net w0 =
     (if nodes (scene w0) = [] then w0
      else
        let w = follow_all tk net w0;
            ps = node_points (scene w);
            min_x = Min (set (map fst ps)); min_y = Min (set (map snd ps));
            max_x = Max (set (map fst ps)); max_y = Max (set (map snd ps));
            min_px = to_pixels tk (zoom w) (min_x, min_y);
            max_px = to_pixels tk (zoom w) (max_x, max_y);
            new_dx = 3 / 2 * (fst max_px - fst min_px);
            new_dy = 3 / 2 * (snd max_px - snd min_px)
        in if new_dx = 0 \<or> new_dy = 0 then w
           else
             let w = set_zoom tk (min (h_page tk / new_dx) (v_page tk / new_dy)) w;
                 c1 = from_pixels tk (zoom w) (scroll w);
                 c2 = from_pixels tk (zoom w) (fst (scroll w) + h_page tk, snd (scroll w) + v_page tk);
                 width = fst c2 - fst c1; height = snd c2 - snd c1
             in w\<lparr>scroll := scrolled_to tk (zoom w) ((min_x + max_x) / 2 - width / 2, (min_y + max_y) / 2 - height / 2)\<rparr>)"

section \<open>Properties of panning\<close>

text \<open>Exactly the handler of the panning in progress is connected.\<close>

definition pan_ok :: "window \<Rightarrow> bool" where
  "pan_ok w = (motion_handlers w = (case panning w of None \<Rightarrow> [] | Some st \<Rightarrow> [motion_signal st]))"

text \<open>No press of the middle button while it is pressed.\<close>

fun alternating :: "bool \<Rightarrow> window_event list \<Rightarrow> bool" where
  "alternating pressed [] = True"
| "alternating pressed (CanvasPress b p # evs) =
     (if b = 2 then \<not> pressed \<and> alternating True evs else alternating pressed evs)"
| "alternating pressed (CanvasRelease b # evs) = alternating (pressed \<and> b \<noteq> 2) evs"
| "alternating pressed (_ # evs) = alternating pressed evs"

lemma panning_fields [simp]:
  "panning (set_scroll tk p w) = panning w" "motion_handlers (set_scroll tk p w) = motion_handlers w"
  "panning (set_zoom tk v w) = panning w" "motion_handlers (set_zoom tk v w) = motion_handlers w"
  "panning (canvas_scroll_event tk d w) = panning w" "motion_handlers (canvas_scroll_event tk d w) = motion_handlers w"
  by (simp_all add: set_scroll_def set_zoom_def canvas_scroll_event_def Let_def split: scroll_direction.split)

lemma emit_motion_panning:
  "panning w = Some st \<Longrightarrow> hs \<noteq> [] \<Longrightarrow> emit_motion tk p hs w =
     ([], set_scroll tk (fst (initial_canvas_pos st) - (fst p - fst (initial_mouse_pos st)),
                         snd (initial_canvas_pos st) - (snd p - snd (initial_mouse_pos st))) w)"
  by (cases hs) (simp_all add: panning_motion_def Let_def)

lemma emit_motion_stale: "panning w = None \<Longrightarrow> emit_motion tk p hs w = (map (\<lambda>_. AssertionError) hs, w)"
  by (induction hs) (simp_all add: panning_motion_def)

declare emit_motion.simps(2) [simp del]

lemma window_run_append:
  "window_run tk (evs @ evs') w =
     (case window_run tk evs w of (es, w') \<Rightarrow> (case window_run tk evs' w' of (es', w'') \<Rightarrow> (es @ es', w'')))"
  by (induction evs arbitrary: w) (simp_all split: prod.split)

lemma alternating_run:
  assumes "pan_ok w" "alternating (panning w \<noteq> None) evs"
  shows "fst (window_run tk evs w) = [] \<and> pan_ok (snd (window_run tk evs w))"
  using assms
proof (induction evs arbitrary: w)
  case (Cons ev evs)
  have "fst (window_step tk ev w) = [] \<and> pan_ok (snd (window_step tk ev w)) \<and>
      alternating (panning (snd (window_step tk ev w)) \<noteq> None) evs"
  proof (cases ev)
    case (CanvasMotion p)
    with Cons.prems show ?thesis
      by (cases "panning w") (simp_all add: window_step_def pan_ok_def emit_motion_panning)
  qed (use Cons.prems in \<open>auto simp: window_step_def pan_ok_def begin_panning_def end_panning_def
      split: option.splits if_splits\<close>)
  with Cons.IH [of "snd (window_step tk ev w)"] show ?case by (simp add: case_prod_beta)
qed simp

lemma pan_motions:
  assumes "panning w = Some st" "motion_handlers w \<noteq> []"
  shows "window_run tk (map CanvasMotion (ps @ [p])) w =
    ([], set_scroll tk (fst (initial_canvas_pos st) - (fst p - fst (initial_mouse_pos st)),
                        snd (initial_canvas_pos st) - (snd p - snd (initial_mouse_pos st))) w)"
  using assms
proof (induction ps arbitrary: w)
  case Nil
  then show ?case by (simp add: window_step_def emit_motion_panning)
next
  case (Cons q ps)
  let ?w = "set_scroll tk (fst (initial_canvas_pos st) - (fst q - fst (initial_mouse_pos st)),
      snd (initial_canvas_pos st) - (snd q - snd (initial_mouse_pos st))) w"
  from Cons.prems have "window_step tk (CanvasMotion q) w = ([], ?w)" by (simp add: window_step_def emit_motion_panning)
  with Cons.IH [of ?w] Cons.prems show ?case by (simp add: set_scroll_def)
qed

lemma stale_motions:
  "panning w = None \<Longrightarrow> motion_handlers w = [h] \<Longrightarrow>
     window_run tk (map CanvasMotion ps) w = (replicate (length ps) AssertionError, w)"
  by (induction ps) (simp_all add: window_step_def emit_motion_stale)

text \<open>
  C35: Panning. While the presses and releases of the middle button alternate, no handler fails and
  exactly the handler of the panning in progress is connected. A pan moves the picture by the way
  of the pointer from the press to its last position, whatever it did in between, within the
  limits of the scrolled window, and leaves no handler. But when a second press arrives before the
  release, as for a double click, the handler of the first stays connected: after the release
  every motion of the pointer raises \<^verbatim>\<open>AssertionError\<close>.
\<close>

theorem panning_correct:
  assumes "pan_ok w" "panning w = None"
  shows "(alternating False evs \<longrightarrow> fst (window_run tk evs w) = [] \<and> pan_ok (snd (window_run tk evs w))) \<and>
    window_run tk ([CanvasPress 2 p0] @ map CanvasMotion (ps @ [p]) @ [CanvasRelease 2]) w =
      ([], w\<lparr>scroll := (h_limit tk (zoom w) (fst (scroll w) - (fst p - fst p0)),
                       v_limit tk (zoom w) (snd (scroll w) - (snd p - snd p0))), next_handler := Suc (next_handler w)\<rparr>) \<and>
    fst (window_run tk ([CanvasPress 2 p0, CanvasPress 2 p1, CanvasRelease 2] @ map CanvasMotion ps) w) =
      replicate (length ps) AssertionError"
proof (intro conjI impI)
  assume "alternating False evs"
  with alternating_run [of w evs tk] assms
  show "fst (window_run tk evs w) = []" "pan_ok (snd (window_run tk evs w))" by simp_all
next
  let ?st = "\<lparr>initial_mouse_pos = p0, initial_canvas_pos = scroll w, motion_signal = next_handler w\<rparr>"
  let ?w = "w\<lparr>panning := Some ?st, motion_handlers := [next_handler w], next_handler := Suc (next_handler w)\<rparr>"
  have press: "window_step tk (CanvasPress 2 p0) w = ([], ?w)"
    using assms by (simp add: window_step_def begin_panning_def pan_ok_def)
  have "window_run tk (map CanvasMotion (ps @ [p])) ?w =
      ([], set_scroll tk (fst (scroll w) - (fst p - fst p0), snd (scroll w) - (snd p - snd p0)) ?w)"
    by (subst pan_motions [of _ ?st]) simp_all
  then show "window_run tk ([CanvasPress 2 p0] @ map CanvasMotion (ps @ [p]) @ [CanvasRelease 2]) w =
      ([], w\<lparr>scroll := (h_limit tk (zoom w) (fst (scroll w) - (fst p - fst p0)),
                       v_limit tk (zoom w) (snd (scroll w) - (snd p - snd p0))), next_handler := Suc (next_handler w)\<rparr>)"
    using assms unfolding append_Cons append_Nil window_run.simps press prod.case window_run_append
    by (simp add: window_step_def end_panning_def set_scroll_def pan_ok_def)
next
  have "motion_handlers w = []" using assms by (simp add: pan_ok_def)
  then show "fst (window_run tk ([CanvasPress 2 p0, CanvasPress 2 p1, CanvasRelease 2] @ map CanvasMotion ps) w) =
      replicate (length ps) AssertionError"
    by (simp add: window_step_def begin_panning_def end_panning_def stale_motions)
qed

section \<open>Automatic scaling\<close>

text \<open>
  What the documentation of the canvas promises: pixels are canvas units times the scale, counted
  from a fixed corner of the canvas, and the two conversions are inverse.
\<close>

definition linear_canvas :: "toolkit \<Rightarrow> point \<Rightarrow> bool" where
  "linear_canvas tk c \<longleftrightarrow>
     (\<forall>z x y. to_pixels tk z (x, y) = (z * (x - fst c), z * (y - snd c))) \<and>
     (\<forall>z x y. from_pixels tk z (x, y) = (x / z + fst c, y / z + snd c))"

definition visible :: "toolkit \<Rightarrow> window \<Rightarrow> point \<Rightarrow> bool" where
  "visible tk w p =
     (let px = to_pixels tk (zoom w) p in
      fst (scroll w) \<le> fst px \<and> fst px \<le> fst (scroll w) + h_page tk \<and>
      snd (scroll w) \<le> snd px \<and> snd px \<le> snd (scroll w) + v_page tk)"

definition extent :: "rat list \<Rightarrow> rat" where
  "extent xs = Max (set xs) - Min (set xs)"

definition fit_zoom :: "toolkit \<Rightarrow> rat \<Rightarrow> point list \<Rightarrow> rat" where
  "fit_zoom tk z ps =
     min (h_page tk / (3 / 2 * (z * extent (map fst ps)))) (v_page tk / (3 / 2 * (z * extent (map snd ps))))"

lemma fit_zoom_fits:
  fixes H :: rat
  assumes "0 < H" "0 < V" "0 < dx" "0 < dy" "0 < z" and "z' = min (H / (3 / 2 * (z * dx))) (V / (3 / 2 * (z * dy)))"
  shows "0 < z'" "z' * dx \<le> H \<and> z' * dy \<le> V \<longleftrightarrow> 2 / 3 \<le> z"
proof -
  define m where "m = min (H / dx) (V / dy)"
  have m: "0 < m" using assms by (simp add: m_def)
  have "H / (3 / 2 * (z * dx)) = H / dx / (3 / 2 * z)" "V / (3 / 2 * (z * dy)) = V / dy / (3 / 2 * z)" by simp_all
  moreover have "min (H / dx) (V / dy) / (3 / 2 * z) = min (H / dx / (3 / 2 * z)) (V / dy / (3 / 2 * z))"
    using assms(5) min_divide_distrib_right [of "H / dx" "V / dy" "3 / 2 * z"] by simp
  ultimately have z': "z' = m / (3 / 2 * z)" using assms(6) unfolding m_def by presburger
  then show "0 < z'" using m assms(5) by simp
  have "z' * dx \<le> H \<and> z' * dy \<le> V \<longleftrightarrow> z' \<le> m" using assms(3,4) by (simp add: m_def pos_le_divide_eq)
  also have "\<dots> \<longleftrightarrow> m \<le> m * (3 / 2 * z)" using assms(5) by (simp add: z' pos_divide_le_eq)
  also have "\<dots> \<longleftrightarrow> 2 / 3 \<le> z" using m by (simp add: mult_le_cancel_left1 mult.commute)
  finally show "z' * dx \<le> H \<and> z' * dy \<le> V \<longleftrightarrow> 2 / 3 \<le> z" .
qed

text \<open>All numbers lie in an interval around the middle of their range exactly when the range is not longer.\<close>

lemma all_in_window:
  fixes xs :: "rat list"
  assumes "xs \<noteq> []" "0 < z"
  shows "(\<forall>x\<in>set xs. z * ((Min (set xs) + Max (set xs)) / 2 - c) - H / 2 \<le> z * (x - c) \<and>
      z * (x - c) \<le> z * ((Min (set xs) + Max (set xs)) / 2 - c) - H / 2 + H) \<longleftrightarrow> z * extent xs \<le> H"
proof -
  let ?a = "Min (set xs)" and ?b = "Max (set xs)"
  have ab: "?a \<in> set xs" "?b \<in> set xs" and le: "\<And>x. x \<in> set xs \<Longrightarrow> z * ?a \<le> z * x \<and> z * x \<le> z * ?b"
    using assms by simp_all
  have e: "z * extent xs = z * ?b - z * ?a" "z * ((?a + ?b) / 2 - c) = (z * ?a + z * ?b) / 2 - z * c"
    by (simp_all add: extent_def algebra_simps)
  show ?thesis
  proof
    assume all: "\<forall>x\<in>set xs. z * ((?a + ?b) / 2 - c) - H / 2 \<le> z * (x - c) \<and> z * (x - c) \<le> z * ((?a + ?b) / 2 - c) - H / 2 + H"
    show "z * extent xs \<le> H"
      using bspec [OF all ab(1), unfolded e right_diff_distrib] bspec [OF all ab(2), unfolded e right_diff_distrib]
      unfolding e by linarith
  next
    assume "z * extent xs \<le> H"
    then have "(z * ?a + z * ?b) / 2 - z * c - H / 2 \<le> z * x - z * c \<and>
        z * x - z * c \<le> (z * ?a + z * ?b) / 2 - z * c - H / 2 + H" if "x \<in> set xs" for x
      using le [OF that] unfolding e by (simp add: field_simps)
    then show "\<forall>x\<in>set xs. z * ((?a + ?b) / 2 - c) - H / 2 \<le> z * (x - c) \<and> z * (x - c) \<le> z * ((?a + ?b) / 2 - c) - H / 2 + H"
      unfolding e by (simp add: right_diff_distrib)
  qed
qed

lemma follow_zoom [simp]: "zoom (follow tk net i w) = zoom w"
  by (simp add: follow_def centre_on_def set_scroll_def Let_def split: prod.split option.split)

lemma follow_all_zoom [simp]: "zoom (follow_all tk net w) = zoom w"
proof -
  have "zoom (fold (follow tk net) is w) = zoom w" for "is" by (induction "is" arbitrary: w) simp_all
  then show ?thesis by (simp add: follow_all_def)
qed

lemma set_zoom_fields [simp]: "zoom (set_zoom tk v w) = zoom_limit tk v" "scene (set_zoom tk v w) = scene w"
  by (simp_all add: set_zoom_def Let_def)

text \<open>The state after the scaling, when the limits of the toolkit do not interfere.\<close>

lemma autoscale_result:
  assumes "linear_canvas tk c" "nodes (scene w) \<noteq> []" "0 < zoom w" "0 < h_page tk" "0 < v_page tk"
    and "ps = node_points (scene (follow_all tk net w))" "z = fit_zoom tk (zoom w) ps"
    and "0 < extent (map fst ps)" "0 < extent (map snd ps)" "zoom_limit tk z = z"
    and "\<And>p. scrolled_to tk z p = to_pixels tk z p"
  shows "zoom (autoscale_view tk net w) = z" "node_points (scene (autoscale_view tk net w)) = ps"
    "scroll (autoscale_view tk net w) =
       (z * ((Min (set (map fst ps)) + Max (set (map fst ps))) / 2 - fst c) - h_page tk / 2,
        z * ((Min (set (map snd ps)) + Max (set (map snd ps))) / 2 - snd c) - v_page tk / 2)"
proof -
  let ?w = "follow_all tk net w"
  have z: "0 < z" using fit_zoom_fits(1) [OF assms(4,5,8,9,3)] assms(7) by (simp add: fit_zoom_def)
  have to: "to_pixels tk v (x, y) = (v * (x - fst c), v * (y - snd c))" "from_pixels tk v (x, y) = (x / v + fst c, y / v + snd c)"
    for v x y using assms(1) by (simp_all add: linear_canvas_def)
  have d: "v * (Max (set xs) - d) - v * (Min (set xs) - d) = v * extent xs" for v d and xs :: "rat list"
    by (simp add: extent_def algebra_simps)
  have eq: "autoscale_view tk net w = (let w' = set_zoom tk z ?w;
      c1 = from_pixels tk z (scroll w'); c2 = from_pixels tk z (fst (scroll w') + h_page tk, snd (scroll w') + v_page tk)
    in w'\<lparr>scroll := scrolled_to tk z ((Min (set (map fst ps)) + Max (set (map fst ps))) / 2 - (fst c2 - fst c1) / 2,
         (Min (set (map snd ps)) + Max (set (map snd ps))) / 2 - (snd c2 - snd c1) / 2)\<rparr>)"
    using assms(2,3,6,7,8,9,10) unfolding autoscale_view_def Let_def to fst_conv snd_conv d
    by (simp add: fit_zoom_def)
  have "from_pixels tk z p = (fst p / z + fst c, snd p / z + snd c)" for p using to by (cases p) simp
  then have s: "autoscale_view tk net w = (set_zoom tk z ?w)\<lparr>scroll := scrolled_to tk z
      ((Min (set (map fst ps)) + Max (set (map fst ps))) / 2 - h_page tk / z / 2,
       (Min (set (map snd ps)) + Max (set (map snd ps))) / 2 - v_page tk / z / 2)\<rparr>"
    unfolding eq Let_def by (simp add: add_divide_distrib)
  show "zoom (autoscale_view tk net w) = z" "node_points (scene (autoscale_view tk net w)) = ps"
    unfolding s using assms(6,10) by simp_all
  show "scroll (autoscale_view tk net w) =
       (z * ((Min (set (map fst ps)) + Max (set (map fst ps))) / 2 - fst c) - h_page tk / 2,
        z * ((Min (set (map snd ps)) + Max (set (map snd ps))) / 2 - snd c) - v_page tk / 2)"
    unfolding s using z by (simp add: assms(11) to right_diff_distrib)
qed

lemma visible_iff:
  "linear_canvas tk c \<Longrightarrow> visible tk w p \<longleftrightarrow>
     (fst (scroll w) \<le> zoom w * (fst p - fst c) \<and> zoom w * (fst p - fst c) \<le> fst (scroll w) + h_page tk) \<and>
     (snd (scroll w) \<le> zoom w * (snd p - snd c) \<and> zoom w * (snd p - snd c) \<le> snd (scroll w) + v_page tk)"
  by (cases p) (auto simp: visible_def linear_canvas_def)

text \<open>The nodes of the picture stay the same while their positions are updated.\<close>

lemma change_node_keys: "dict_keys (nodes (change_node i f v)) = dict_keys (nodes v)"
  by (auto simp: change_node_def dict_keys_update has_key_def split: option.split)

lemma set_position_keys: "dict_keys (nodes (set_position e p v)) = dict_keys (nodes v)"
proof -
  have "nodes (fold update_points ks v) = nodes v" for ks and v :: view
    by (induction ks arbitrary: v) (simp_all add: update_points_def Let_def)
  then show ?thesis
    by (cases e) (simp_all add: set_position_def Let_def change_node_keys change_channel_def split: option.split)
qed

lemma update_node_position_keys: "dict_keys (nodes (update_node_position net i v)) = dict_keys (nodes v)"
  by (auto simp: update_node_position_def has_mobility_def set_position_keys change_node_keys split: option.splits)

lemma follow_all_keys: "dict_keys (nodes (scene (follow_all tk net w))) = dict_keys (nodes (scene w))"
proof -
  have "dict_keys (nodes (scene (follow tk net i w))) = dict_keys (nodes (scene w))" for i w
    by (simp add: follow_def centre_on_def set_scroll_def Let_def update_node_position_keys split: prod.split option.split)
  then have "dict_keys (nodes (scene (fold (follow tk net) js w))) = dict_keys (nodes (scene w))" for js
    by (induction js arbitrary: w) simp_all
  then show ?thesis by (simp add: follow_all_def)
qed

text \<open>
  The automatic scaling. For nodes that do not all lie on one horizontal or vertical line, and
  when the limits of the adjustments do not interfere, the scaling shows all nodes exactly when the
  zoom before it was at least two thirds: the size of the picture is measured in pixels of the
  old zoom, but the new zoom is set as if it had been measured at zoom one.
\<close>

theorem autoscale_shows_all:
  assumes "linear_canvas tk c" "nodes (scene w) \<noteq> []" "0 < zoom w" "0 < h_page tk" "0 < v_page tk"
    and "ps = node_points (scene (follow_all tk net w))" "z = fit_zoom tk (zoom w) ps"
    and "0 < extent (map fst ps)" "0 < extent (map snd ps)" "zoom_limit tk z = z"
    and "\<And>p. scrolled_to tk z p = to_pixels tk z p"
  shows "zoom (autoscale_view tk net w) = z \<and> node_points (scene (autoscale_view tk net w)) = ps \<and>
    (list_all (visible tk (autoscale_view tk net w)) ps \<longleftrightarrow> 2 / 3 \<le> zoom w)"
proof -
  note fit = fit_zoom_fits [OF assms(4,5,8,9,3) assms(7) [unfolded fit_zoom_def]]
  note res = autoscale_result [OF assms]
  have "ps \<noteq> []" using assms(2,6) follow_all_keys [of tk net w] by (auto simp: node_points_def dict_keys_def)
  then have ne: "map fst ps \<noteq> []" "map snd ps \<noteq> []" by simp_all
  have "list_all (visible tk (autoscale_view tk net w)) ps \<longleftrightarrow>
      z * extent (map fst ps) \<le> h_page tk \<and> z * extent (map snd ps) \<le> v_page tk"
    unfolding all_in_window [OF ne(1) fit(1), of "fst c" "h_page tk", symmetric]
      all_in_window [OF ne(2) fit(1), of "snd c" "v_page tk", symmetric]
    by (auto simp: list_all_iff visible_iff [OF assms(1)] res)
  with fit(2) res show ?thesis by simp
qed

section \<open>Examples\<close>

definition demo_toolkit :: toolkit where
  "demo_toolkit = \<lparr>h_limit = (\<lambda>z v. max 0 (min 1000 v)), v_limit = (\<lambda>z v. max 0 (min 1000 v)), h_page = 600, v_page = 450,
     zoom_limit = (\<lambda>v. max (1 / 100) (min 9 v)),
     to_pixels = (\<lambda>z p. (z * (fst p + 100), z * (snd p + 100))), from_pixels = (\<lambda>z p. (fst p / z - 100, snd p / z - 100)),
     scrolled_to = (\<lambda>z p. (z * (fst p + 100), z * (snd p + 100))), rescaled = (\<lambda>z z' p. p)\<rparr>"

definition demo_window :: "rat \<Rightarrow> window" where
  "demo_window z = \<lparr>scroll = (10, 20), zoom = z, panning = None, motion_handlers = [], next_handler = 5, follow_node = None,
     scene = set_position (NodeEnd 1) (120, 120) (get_node 1 (get_node 0 new_view))\<rparr>"

definition demo_still :: network where
  "demo_still = \<lparr>n_nodes = 2, mobility = (\<lambda>_. None), devices = (\<lambda>_. []), channel_nodes = (\<lambda>_. [])\<rparr>"

theorem panning_correct_witness:
  "window_run demo_toolkit [CanvasPress 2 (5, 5), CanvasMotion (9, 9), CanvasMotion (2, 1), CanvasRelease 2] (demo_window 1) =
     ([], (demo_window 1)\<lparr>scroll := (13, 24), next_handler := 6\<rparr>) \<and>
   fst (window_run demo_toolkit [CanvasPress 2 (5, 5), CanvasPress 2 (5, 5), CanvasRelease 2, CanvasMotion (9, 9)] (demo_window 1)) =
     [AssertionError]"
proof -
  have "pan_ok (demo_window 1)" "panning (demo_window 1) = None" by (simp_all add: pan_ok_def demo_window_def)
  from panning_correct [OF this, of "[]" demo_toolkit "(5, 5)" "[(9, 9)]" "(2, 1)" "(5, 5)"] show ?thesis
    by (simp add: demo_toolkit_def demo_window_def)
qed

lemma demo_canvas: "linear_canvas demo_toolkit (-100, -100)"
  by (simp add: linear_canvas_def demo_toolkit_def)

lemma demo_values:
  "nodes (scene (demo_window z)) \<noteq> []" "zoom (demo_window z) = z" "h_page demo_toolkit = 600" "v_page demo_toolkit = 450"
  "extent [0, 120] = 120" "zoom_limit demo_toolkit (5 / 2) = 5 / 2" "zoom_limit demo_toolkit 5 = 5"
  "scrolled_to demo_toolkit = to_pixels demo_toolkit"
proof -
  have "dict_keys (nodes (scene (demo_window z))) = [0, 1]" by (simp add: demo_window_def set_position_keys) code_simp
  then show "nodes (scene (demo_window z)) \<noteq> []" by (auto simp: dict_keys_def)
qed (simp_all add: demo_toolkit_def demo_window_def extent_def)

theorem autoscale_shows_all_witness:
  "list_all (visible demo_toolkit (autoscale_view demo_toolkit demo_still (demo_window 1)))
     (node_points (scene (autoscale_view demo_toolkit demo_still (demo_window 1)))) \<and>
   \<not> list_all (visible demo_toolkit (autoscale_view demo_toolkit demo_still (demo_window (1 / 2))))
     (node_points (scene (autoscale_view demo_toolkit demo_still (demo_window (1 / 2)))))"
proof -
  have ps: "node_points (scene (follow_all demo_toolkit demo_still (demo_window 1))) = [(0, 0), (120, 120)]"
    "node_points (scene (follow_all demo_toolkit demo_still (demo_window (1 / 2)))) = [(0, 0), (120, 120)]" by code_simp+
  have z: "fit_zoom demo_toolkit 1 [(0, 0), (120, 120)] = 5 / 2"
    "fit_zoom demo_toolkit (1 / 2) [(0, 0), (120, 120)] = 5" by code_simp+
  show ?thesis
    using autoscale_shows_all [OF demo_canvas, of "demo_window 1" "[(0, 0), (120, 120)]" demo_still "5 / 2"]
      autoscale_shows_all [OF demo_canvas, of "demo_window (1 / 2)" "[(0, 0), (120, 120)]" demo_still 5]
    by (simp add: ps z demo_values)
qed

end
