(* ===== verification/VizAxes.thy ===== *)
theory VizAxes
  imports VizScroll
begin

text \<open>
  \<^verbatim>\<open>src/visualizer/visualizer/hud.py\<close>: the axes over the picture. \<open>compute_divisions\<close> chooses
  the distance of the ticks, \<open>axes_update_view\<close> draws both axes for the part of the canvas that
  the window of \<open>VizScroll\<close> shows and reuses the labels of the last drawing. Numbers are rational;
  the rounded decimal logarithm is computed by \<open>rint_log10\<close>, which is proved to be the rounded
  logarithm. The texts, fonts and alignments of the labels are left out. The lemmas show the number
  and the places of the ticks and that labels are neither lost nor shared.
\<close>

section \<open>Divisions\<close>

definition rint :: "rat \<Rightarrow> int" where
  "rint x = \<lfloor>x + 1 / 2\<rfloor>"

lemma log10_rat_mult: "0 < q \<Longrightarrow> log 10 (real_of_rat (q * 10)) = log 10 (real_of_rat q) + 1"
  by (simp add: of_rat_mult log_mult)

lemma log10_rat_divide: "0 < q \<Longrightarrow> log 10 (real_of_rat (q / 10)) = log 10 (real_of_rat q) - 1"
  by (simp add: of_rat_divide log_divide)

lemma log10_rat_small:
  assumes "0 < q" "q * q < 1 / 10"
  shows "log 10 (real_of_rat q) < - 1 / 2"
proof -
  let ?l = "log 10 (real_of_rat q)"
  have "real_of_rat (q * q) < real_of_rat (1 / 10)" using assms(2) by (simp only: of_rat_less)
  then have "real_of_rat q * real_of_rat q < 1 / 10" by (simp add: of_rat_mult of_rat_divide)
  then have "log 10 (real_of_rat q * real_of_rat q) < log 10 (1 / 10)" using assms(1) by (subst log_less_cancel_iff) auto
  moreover have "log 10 (real_of_rat q * real_of_rat q) = ?l + ?l" using assms(1) by (simp add: log_mult)
  moreover have "log 10 (1 / 10) = - (1::real)" by (simp add: log_divide)
  ultimately show ?thesis by simp
qed

lemma log10_rat_large:
  assumes "10 \<le> q * q" "0 < q"
  shows "1 / 2 \<le> log 10 (real_of_rat q)"
proof -
  let ?l = "log 10 (real_of_rat q)"
  have "real_of_rat 10 \<le> real_of_rat (q * q)" using assms(1) by (simp only: of_rat_less_eq)
  then have "10 \<le> real_of_rat q * real_of_rat q" by (simp add: of_rat_mult)
  then have "log 10 10 \<le> log 10 (real_of_rat q * real_of_rat q)" using assms(2) by (subst log_le_cancel_iff) auto
  moreover have "log 10 (real_of_rat q * real_of_rat q) = ?l + ?l" using assms(2) by (simp add: log_mult)
  ultimately show ?thesis by simp
qed

text \<open>\<^verbatim>\<open>rint(math.log10(q))\<close>\<close>

function rint_log10 :: "rat \<Rightarrow> int" where
  "rint_log10 q =
     (if q \<le> 0 then 0
      else if q * q < 1 / 10 then rint_log10 (q * 10) - 1
      else if 10 \<le> q * q then rint_log10 (q / 10) + 1
      else 0)"
  by pat_completeness auto
termination
proof (relation "measure (\<lambda>q. nat \<bar>\<lfloor>log 10 (real_of_rat q) + 1 / 2\<rfloor>\<bar>)")
  show "wf (measure (\<lambda>q. nat \<bar>\<lfloor>log 10 (real_of_rat q) + 1 / 2\<rfloor>\<bar>))" by simp
next
  fix q :: rat
  let ?l = "log 10 (real_of_rat q)"
  assume q: "\<not> q \<le> 0" "q * q < 1 / 10"
  then have l: "?l < - 1 / 2" "log 10 (real_of_rat (q * 10)) = ?l + 1" using log10_rat_small log10_rat_mult by auto
  from l(1) have "\<lfloor>?l + 1 / 2\<rfloor> \<le> -1" by linarith
  moreover have "\<lfloor>?l + 1 + 1 / 2\<rfloor> = \<lfloor>?l + 1 / 2\<rfloor> + 1" by linarith
  ultimately show "(q * 10, q) \<in> measure (\<lambda>q. nat \<bar>\<lfloor>log 10 (real_of_rat q) + 1 / 2\<rfloor>\<bar>)"
    unfolding in_measure l(2) by linarith
next
  fix q :: rat
  let ?l = "log 10 (real_of_rat q)"
  assume "\<not> q \<le> 0" "10 \<le> q * q"
  then have l: "1 / 2 \<le> ?l" "log 10 (real_of_rat (q / 10)) = ?l - 1" using log10_rat_large log10_rat_divide by auto
  from l(1) have "1 \<le> \<lfloor>?l + 1 / 2\<rfloor>" by linarith
  moreover have "\<lfloor>?l - 1 + 1 / 2\<rfloor> = \<lfloor>?l + 1 / 2\<rfloor> - 1" by linarith
  ultimately show "(q / 10, q) \<in> measure (\<lambda>q. nat \<bar>\<lfloor>log 10 (real_of_rat q) + 1 / 2\<rfloor>\<bar>)"
    unfolding in_measure l(2) by linarith
qed

declare rint_log10.simps [simp del]

text \<open>One round of the loop: the length of a division and the place of the first tick.\<close>

definition nearest_division :: "rat \<Rightarrow> rat" where
  "nearest_division r =
     (let d = power_int 10 (rint_log10 r) in
      if \<bar>d / 2 - r\<bar> < \<bar>d - r\<bar> then d / 2
      else if \<bar>d * 2 - r\<bar> < \<bar>d - r\<bar> then d * 2
      else d)"

definition divisions_round :: "rat \<Rightarrow> rat \<Rightarrow> rat \<Rightarrow> rat \<Rightarrow> nat \<Rightarrow> rat \<times> rat \<times> rat \<Rightarrow> rat \<times> rat \<times> rat" where
  "divisions_round xi sz text_width dx_over_ndiv n loc =
     (case loc of (ndiv, _, _) \<Rightarrow>
        let d = nearest_division dx_over_ndiv;
            x0 = d * of_int \<lceil>xi / d\<rceil> - d
        in (if 1 < n then of_int (rint (sz / text_width)) else ndiv, x0, d))"

definition compute_divisions :: "rat \<Rightarrow> rat \<Rightarrow> (rat \<times> rat) result" where
  "compute_divisions xi xf =
     py_assert (xi < xf)
       (let dx = xf - xi; ndiv = 5; text_width = dx / ndiv / 2; dx_over_ndiv = dx / ndiv in
        Inr (snd (fold (divisions_round xi dx text_width dx_over_ndiv) [0..<5] (ndiv, 0, 0))))"

text \<open>\<^verbatim>\<open>while x < xf: ...; x += div\<close>\<close>

function axis_ticks :: "rat \<Rightarrow> rat \<Rightarrow> rat \<Rightarrow> rat list" where
  "axis_ticks d xf x = (if 0 < d \<and> x < xf then x # axis_ticks d xf (x + d) else [])"
  by pat_completeness auto
termination
proof (relation "measure (\<lambda>(d, xf, x). nat \<lceil>(xf - x) / d\<rceil>)")
  fix d xf x :: rat
  assume a: "0 < d \<and> x < xf"
  then have "(xf - (x + d)) / d = (xf - x) / d - 1" "0 < (xf - x) / d" by (simp_all add: field_simps)
  then show "((d, xf, x + d), d, xf, x) \<in> measure (\<lambda>(d, xf, x). nat \<lceil>(xf - x) / d\<rceil>)"
    unfolding in_measure prod.case by linarith
qed simp

declare axis_ticks.simps [simp del]

section \<open>The drawing\<close>

record label =
  label_id :: nat
  label_visible :: bool
  label_value :: rat
  label_pos :: point

datatype stroke = Stroke point point

record axes =
  labels :: "label list"
  next_label :: nat
  lines_visible :: bool
  axes_visible :: bool
  hlines :: "stroke list"
  vlines :: "stroke list"
  axis_width :: rat

definition hide_label :: "label \<Rightarrow> label" where
  "hide_label l = l\<lparr>label_visible := False\<rparr>"

text \<open>\<^verbatim>\<open>get_label\<close>: the first unused label, or a new one; both are visible.\<close>

definition get_label :: "label list \<Rightarrow> nat \<Rightarrow> label \<times> label list \<times> nat" where
  "get_label unused next =
     (case unused of
        [] \<Rightarrow> (\<lparr>label_id = next, label_visible = True, label_value = 0, label_pos = (0, 0)\<rparr>, [], Suc next)
      | l # ls \<Rightarrow> (l\<lparr>label_visible := True\<rparr>, ls, next))"

fun place_labels :: "(rat \<times> point) list \<Rightarrow> label list \<Rightarrow> nat \<Rightarrow> label list \<times> label list \<times> nat" where
  "place_labels [] unused next = ([], unused, next)"
| "place_labels ((v, p) # ts) unused next =
     (case get_label unused next of (l, unused, next) \<Rightarrow>
        case place_labels ts unused next of (ls, unused, next) \<Rightarrow>
          (l\<lparr>label_value := v, label_pos := p\<rparr> # ls, unused, next))"

text \<open>
  \<^verbatim>\<open>update_view\<close>. The labels are taken away from the object at the start and put back at the
  end; an exception leaves those that were placed. There is no window before the zoom is created.
\<close>

definition axes_update_view :: "toolkit \<Rightarrow> window option \<Rightarrow> axes \<Rightarrow> py_error option \<times> axes" where
  "axes_update_view tk viz ax =
     (case viz of
        None \<Rightarrow> (None, ax)
      | Some w \<Rightarrow>
         let unused = map hide_label (labels ax);
             offset = 10 / zoom w;
             (x1, y1) = from_pixels tk (zoom w) (scroll w);
             (x2, y2) = from_pixels tk (zoom w) (fst (scroll w) + h_page tk, snd (scroll w) + v_page tk);
             lw = 5 / zoom w;
             yc = y2 - lw / 2
         in case compute_divisions (x1 / 3) (x2 / 3) of
              Inl e \<Rightarrow> (Some e, ax\<lparr>labels := [], axis_width := lw\<rparr>)
            | Inr (x0, xdiv) \<Rightarrow>
               let xs = axis_ticks xdiv (x2 / 3) x0;
                   (placed, unused, next) = place_labels (map (\<lambda>x. (x, (3 * x, yc - offset))) xs) unused (next_label ax);
                   ax = ax\<lparr>labels := placed, next_label := next, axis_width := lw,
                     hlines := Stroke (x1, yc) (x2, yc) # map (\<lambda>x. Stroke (3 * x, yc - offset) (3 * x, yc)) xs\<rparr>;
                   xc = x1 + lw / 2
               in case compute_divisions (y1 / 3) (y2 / 3) of
                    Inl e \<Rightarrow> (Some e, ax)
                  | Inr (y0, ydiv) \<Rightarrow>
                     let ys = axis_ticks ydiv (y2 / 3) y0;
                         (placed', unused, next) =
                           place_labels (map (\<lambda>y. (y, (xc + offset, 3 * y))) ys) unused next
                     in (None, ax\<lparr>labels := placed @ placed' @ unused, next_label := next,
                           vlines := Stroke (xc, y1) (xc, y2) # map (\<lambda>y. Stroke (xc, 3 * y) (xc + offset, 3 * y)) ys\<rparr>))"

definition set_visible :: "bool \<Rightarrow> axes \<Rightarrow> axes" where
  "set_visible b ax =
     (if b then ax\<lparr>axes_visible := True, lines_visible := True\<rparr>
      else ax\<lparr>axes_visible := False, lines_visible := False, labels := map hide_label (labels ax)\<rparr>)"

text \<open>The callback of the adjustments.\<close>

definition adjustment_changed :: "toolkit \<Rightarrow> window option \<Rightarrow> axes \<Rightarrow> py_error option \<times> axes" where
  "adjustment_changed tk viz ax = (if axes_visible ax then axes_update_view tk viz ax else (None, ax))"

definition new_axes :: "toolkit \<Rightarrow> window option \<Rightarrow> py_error option \<times> axes" where
  "new_axes tk viz =
     axes_update_view tk viz
       \<lparr>labels = [], next_label = 0, lines_visible = True, axes_visible = True, hlines = [], vlines = [], axis_width = 0\<rparr>"

section \<open>The number and the places of the ticks\<close>

lemma rint_log10_correct: "0 < q \<Longrightarrow> rint_log10 q = \<lfloor>log 10 (real_of_rat q) + 1 / 2\<rfloor>"
proof (induction q rule: rint_log10.induct)
  case (1 q)
  let ?l = "log 10 (real_of_rat q)"
  consider "q * q < 1 / 10" | "10 \<le> q * q" | "1 / 10 \<le> q * q" "q * q < 10" by linarith
  then show ?case
  proof cases
    case 1
    with "1.IH"(1) "1.prems" log10_rat_mult [of q] have "rint_log10 (q * 10) = \<lfloor>?l + 1 + 1 / 2\<rfloor>" by simp
    then have "rint_log10 (q * 10) - 1 = \<lfloor>?l + 1 / 2\<rfloor>" by linarith
    with 1 "1.prems" show ?thesis by (simp add: rint_log10.simps [of q])
  next
    case 2
    with "1.IH"(2) "1.prems" log10_rat_divide [of q] have "rint_log10 (q / 10) = \<lfloor>?l - 1 + 1 / 2\<rfloor>" by simp
    then have "rint_log10 (q / 10) + 1 = \<lfloor>?l + 1 / 2\<rfloor>" by linarith
    with 2 "1.prems" show ?thesis by (simp add: rint_log10.simps [of q])
  next
    case 3
    have q: "0 < q / 10" "\<not> 10 \<le> q * q" using 3 "1.prems" by auto
    have "real_of_rat (1 / 10) \<le> real_of_rat (q * q)" "real_of_rat (q * q) < real_of_rat 10"
      using 3 by (simp_all only: of_rat_less_eq of_rat_less)
    then have b: "1 / 10 \<le> real_of_rat q * real_of_rat q" "real_of_rat q * real_of_rat q < 10"
      by (simp_all add: of_rat_mult of_rat_divide)
    have "log 10 (1 / 10) \<le> log 10 (real_of_rat q * real_of_rat q)" "log 10 (real_of_rat q * real_of_rat q) < log 10 10"
      using b "1.prems" by simp_all
    moreover have "log 10 (real_of_rat q * real_of_rat q) = ?l + ?l" using "1.prems" by (simp add: log_mult)
    moreover have "log 10 (1 / 10) = - (1::real)" by (simp add: log_divide)
    ultimately have "\<lfloor>?l + 1 / 2\<rfloor> = 0" by (simp add: floor_eq_iff)
    with 3 "1.prems" show ?thesis by (simp add: rint_log10.simps [of q])
  qed
qed

lemma power10_bounds:
  "0 < q \<Longrightarrow> p = power_int 10 (rint_log10 q) \<Longrightarrow> p * p \<le> 10 * (q * q) \<and> q * q < 10 * (p * p)"
proof (induction q arbitrary: p rule: rint_log10.induct)
  case (1 q)
  consider "q * q < 1 / 10" | "10 \<le> q * q" | "1 / 10 \<le> q * q" "q * q < 10" by linarith
  then show ?case
  proof cases
    case 1
    with "1.prems" have "rint_log10 (q * 10) = rint_log10 q + 1" by (simp add: rint_log10.simps [of q])
    then have "p * 10 = power_int 10 (rint_log10 (q * 10))" using "1.prems" by (simp add: power_int_add)
    with "1.IH"(1) [of "p * 10"] 1 "1.prems" show ?thesis by simp
  next
    case 2
    with "1.prems" have "rint_log10 (q / 10) = rint_log10 q - 1" by (simp add: rint_log10.simps [of q])
    then have "p / 10 = power_int 10 (rint_log10 (q / 10))" using "1.prems" by (simp add: power_int_diff)
    with "1.IH"(2) [of "p / 10"] 2 "1.prems" show ?thesis by simp
  next
    case 3
    with "1.prems" have "p = 1" by (simp add: rint_log10.simps [of q])
    with 3 show ?thesis by simp
  qed
qed

lemma power10_pos: "0 < (power_int 10 e :: rat)"
  by simp

lemma nearest_division_bounds:
  assumes "0 < r"
  shows "0 < nearest_division r" "3 * nearest_division r < 5 * r" "5 * r < 8 * nearest_division r"
proof -
  define p :: rat where "p = power_int 10 (rint_log10 r)"
  have p: "0 < p" "p * p \<le> 10 * (r * r)" "r * r < 10 * (p * p)"
    using power10_bounds [OF assms p_def] by (simp_all add: p_def)
  have lo: "3 * p < 10 * r"
  proof (rule ccontr)
    assume "\<not> ?thesis"
    then have "10 * r \<le> 3 * p" by simp
    then have "10 * r * (10 * r) \<le> 3 * p * (3 * p)" using assms p(1) by - (rule mult_mono, simp_all)
    with p(2) have "10 * (p * p) \<le> 9 * (p * p)" by simp
    with p(1) show False by (simp add: mult_pos_pos leD)
  qed
  have hi: "5 * r < 16 * p"
  proof (rule ccontr)
    assume "\<not> ?thesis"
    then have "16 * p \<le> 5 * r" by simp
    then have "16 * p * (16 * p) \<le> 5 * r * (5 * r)" using assms p(1) by - (rule mult_mono, simp_all)
    then have "256 * (p * p) \<le> 25 * (r * r)" by simp
    with p(3) have "p * p < 0" by linarith
    with mult_pos_pos [OF p(1) p(1)] show False by simp
  qed
  have "nearest_division r = (if r < 3 / 4 * p then p / 2 else if 3 / 2 * p < r then p * 2 else p)"
    using p(1) unfolding nearest_division_def p_def [symmetric] Let_def by (auto simp: abs_if)
  with p(1) lo hi assms show "0 < nearest_division r" "3 * nearest_division r < 5 * r" "5 * r < 8 * nearest_division r"
    by (auto split: if_splits)
qed

lemma compute_divisions_value:
  "compute_divisions xi xf =
     (if xi < xf then (let d = nearest_division ((xf - xi) / 5) in Inr (d * of_int \<lceil>xi / d\<rceil> - d, d)) else Inl AssertionError)"
  by (simp add: compute_divisions_def py_assert_def divisions_round_def Let_def upt_rec)

lemma ticks_value:
  assumes "0 < d"
  shows "axis_ticks d xf x = map (\<lambda>k. x + of_nat k * d) [0..<nat \<lceil>(xf - x) / d\<rceil>]"
  using assms
proof (induction d xf x rule: axis_ticks.induct)
  case (1 d xf x)
  show ?case
  proof (cases "x < xf")
    case True
    have "(xf - (x + d)) / d = (xf - x) / d - 1" "0 < (xf - x) / d" using 1(2) True by (simp_all add: field_simps)
    then have "nat \<lceil>(xf - x) / d\<rceil> = Suc (nat \<lceil>(xf - (x + d)) / d\<rceil>)" by linarith
    with 1 True show ?thesis
      by (simp add: axis_ticks.simps [of d xf x] upt_conv_Cons map_Suc_upt [symmetric] algebra_simps del: upt_Suc)
  next
    case False
    then have "(xf - x) / d \<le> 0" using 1(2) by (simp add: divide_nonpos_pos)
    with False show ?thesis by (simp add: axis_ticks.simps [of d xf x])
  qed
qed

lemma ceiling_tick:
  fixes d xi :: rat
  assumes "0 < d" "x0 = d * of_int \<lceil>xi / d\<rceil> - d"
  shows "x0 < xi" "xi \<le> x0 + d"
proof -
  have "of_int \<lceil>xi / d\<rceil> < xi / d + 1" by linarith
  then have "d * of_int \<lceil>xi / d\<rceil> < d * (xi / d + 1)" using assms(1) by simp
  moreover have "d * (xi / d) \<le> d * of_int \<lceil>xi / d\<rceil>"
    using mult_left_mono [OF le_of_int_ceiling, of d "xi / d"] assms(1) by simp
  ultimately show "x0 < xi" "xi \<le> x0 + d" using assms by (simp_all add: algebra_simps)
qed

lemma nearest_division_form: "\<exists>m \<in> {1 / 2, 1, 2}. nearest_division r = m * power_int 10 (rint_log10 r)"
  by (auto simp: nearest_division_def Let_def)

text \<open>
  C34: The ticks of an axis from \<open>xi\<close> to \<open>xf\<close>. Their distance is a power of ten, half of it or
  twice it, where the power is the one nearest to a fifth of the length; there are four to nine of
  them, the first lies before the visible part, and the others are all the multiples of the
  distance in it. (The comment says that five rounds look for the best distance; all
  five compute the same.)
\<close>

theorem ticks_correct:
  assumes "xi < xf" "compute_divisions xi xf = Inr (x0, d)"
  shows "(\<exists>m \<in> {1 / 2, 1, 2}. d = m * power_int 10 \<lfloor>log 10 (real_of_rat ((xf - xi) / 5)) + 1 / 2\<rfloor>) \<and>
    4 \<le> length (axis_ticks d xf x0) \<and> length (axis_ticks d xf x0) \<le> 9 \<and>
    hd (axis_ticks d xf x0) < xi \<and>
    set (tl (axis_ticks d xf x0)) = {x. (\<exists>k. x = of_int k * d) \<and> xi \<le> x \<and> x < xf}"
proof -
  let ?r = "(xf - xi) / 5" and ?c = "\<lceil>xi / d\<rceil>"
  have r: "0 < ?r" using assms(1) by simp
  have d: "d = nearest_division ?r" "x0 = d * of_int ?c - d"
    using assms by (auto simp: compute_divisions_value Let_def)
  note b = nearest_division_bounds [OF r, folded d(1)]
  note t = ceiling_tick [OF b(1) d(2)]
  define n where "n = nat \<lceil>(xf - x0) / d\<rceil>"
  have ts: "axis_ticks d xf x0 = map (\<lambda>k. x0 + of_nat k * d) [0..<n]" unfolding n_def by (rule ticks_value [OF b(1)])
  have "5 * ?r = xf - xi" by simp
  then have "3 * d < xf - x0" "xf - x0 < 9 * d" using b t by linarith+
  then have "3 < (xf - x0) / d" "(xf - x0) / d < 9" using b(1) by (simp_all add: less_divide_eq divide_less_eq)
  then have n: "4 \<le> n" "n \<le> 9" unfolding n_def by linarith+
  then obtain n' where n': "n = Suc n'" by (cases n) auto
  have tl: "tl (axis_ticks d xf x0) = map (\<lambda>k. x0 + of_nat k * d) [1..<n]"
    unfolding ts n' by (simp add: upt_conv_Cons map_tl del: upt_Suc)
  have hd: "hd (axis_ticks d xf x0) = x0" unfolding ts n' by (simp add: upt_conv_Cons del: upt_Suc)
  have lt: "x0 + of_nat k * d < xf \<longleftrightarrow> k < n" for k
  proof -
    have "x0 + of_nat k * d < xf \<longleftrightarrow> of_nat k < (xf - x0) / d" using b(1) by (simp add: less_divide_eq algebra_simps)
    also have "\<dots> \<longleftrightarrow> k < n" unfolding n_def by linarith
    finally show ?thesis .
  qed
  have "set (tl (axis_ticks d xf x0)) = {x. (\<exists>k. x = of_int k * d) \<and> xi \<le> x \<and> x < xf}"
  proof (intro set_eqI iffI)
    fix x
    assume "x \<in> set (tl (axis_ticks d xf x0))"
    then obtain k where k: "1 \<le> k" "k < n" "x = x0 + of_nat k * d" unfolding tl by auto
    have "d \<le> of_nat k * d" using k(1) b(1) by simp
    then have "xi \<le> x" using t(2) k(3) by linarith
    moreover have "x = of_int (?c - 1 + int k) * d" unfolding k(3) d(2) by (simp add: algebra_simps)
    moreover have "x < xf" using lt k by blast
    ultimately show "x \<in> {x. (\<exists>k. x = of_int k * d) \<and> xi \<le> x \<and> x < xf}" by blast
  next
    fix x
    assume "x \<in> {x. (\<exists>k. x = of_int k * d) \<and> xi \<le> x \<and> x < xf}"
    then obtain k where k: "x = of_int k * d" "xi \<le> x" "x < xf" by blast
    have "xi / d \<le> of_int k" using k b(1) by (simp add: divide_le_eq)
    then have c: "?c \<le> k" by linarith
    have x: "x = x0 + of_nat (nat (k - ?c + 1)) * d" using c unfolding k(1) d(2) by (simp add: algebra_simps)
    then have "nat (k - ?c + 1) < n" using lt k(3) by metis
    moreover have "1 \<le> nat (k - ?c + 1)" using c by simp
    ultimately show "x \<in> set (tl (axis_ticks d xf x0))" unfolding tl x by (simp add: rev_image_eqI)
  qed
  moreover have "\<exists>m \<in> {1 / 2, 1, 2}. d = m * power_int 10 \<lfloor>log 10 (real_of_rat ?r) + 1 / 2\<rfloor>"
    using nearest_division_form [of ?r] unfolding d(1) rint_log10_correct [OF r] .
  ultimately show ?thesis using n t hd by (simp add: ts)
qed

section \<open>The labels\<close>

lemma place_labels_result:
  "place_labels ts unused next = (ls, rest, next') \<Longrightarrow>
     map (\<lambda>l. (label_value l, label_pos l)) ls = ts \<and> list_all label_visible ls \<and>
     rest = drop (length ts) unused \<and> next' = next + (length ts - length unused) \<and>
     map label_id ls = take (length ts) (map label_id unused) @ [next..<next']"
proof (induction ts arbitrary: unused "next" ls)
  case (Cons t ts)
  obtain v p where t: "t = (v, p)" by (rule prod.exhaust)
  obtain l u n where l: "get_label unused next = (l, u, n)" by (metis prod_cases3)
  obtain ls1 where one: "place_labels ts u n = (ls1, rest, next')" "ls = l\<lparr>label_value := v, label_pos := p\<rparr> # ls1"
    using Cons.prems by (auto simp: t l split: prod.splits)
  from l have "label_visible l"
    "(case unused of [] \<Rightarrow> label_id l = next \<and> u = [] \<and> n = Suc next | k # ks \<Rightarrow> label_id l = label_id k \<and> u = ks \<and> n = next)"
    by (auto simp: get_label_def split: list.splits)
  with Cons.IH [OF one(1)] one(2) show ?case
    by (cases unused) (auto simp: t upt_conv_Cons simp del: upt_Suc)
qed simp

text \<open>Every label object is in the list once.\<close>

definition labels_ok :: "axes \<Rightarrow> bool" where
  "labels_ok ax \<longleftrightarrow> distinct (map label_id (labels ax)) \<and> (\<forall>l \<in> set (labels ax). label_id l < next_label ax)"

definition shown_labels :: "axes \<Rightarrow> (rat \<times> point) list" where
  "shown_labels ax = map (\<lambda>l. (label_value l, label_pos l)) (filter label_visible (labels ax))"

lemma hidden_labels: "filter label_visible (map hide_label ls) = []" "map label_id (map hide_label ls) = map label_id ls"
  by (simp_all add: filter_empty_conv hide_label_def comp_def)

lemma two_placements:
  assumes "place_labels ts (map hide_label old) next = (a, u, n)" "place_labels us u n = (b, u', n')"
    and "distinct (map label_id old)" "\<forall>l \<in> set old. label_id l < next"
  shows "map (\<lambda>l. (label_value l, label_pos l)) (filter label_visible (a @ b @ u')) = ts @ us"
    "distinct (map label_id (a @ b @ u'))" "\<forall>l \<in> set (a @ b @ u'). label_id l < n'"
    "set (map label_id old) \<subseteq> set (map label_id (a @ b @ u'))"
    "length (a @ b @ u') = max (length old) (length ts + length us)"
proof -
  note A = place_labels_result [OF assms(1)] and B = place_labels_result [OF assms(2)]
  have u': "u' = map hide_label (drop (length ts + length us) old)" using A B by (simp add: drop_map add.commute)
  have "filter label_visible a = a" "filter label_visible b = b" using A B by (simp_all add: filter_id_conv list_all_iff)
  moreover have "filter label_visible u' = []" unfolding u' by (rule hidden_labels(1))
  ultimately show "map (\<lambda>l. (label_value l, label_pos l)) (filter label_visible (a @ b @ u')) = ts @ us" using A B by simp
  let ?k = "length ts" and ?m = "length us" and ?old = "map label_id old"
  have n: "next \<le> n" "n \<le> n'" using A B by simp_all
  have ids: "map label_id a = take ?k ?old @ [next..<n]" "map label_id b = take ?m (drop ?k ?old) @ [n..<n']"
    "map label_id u' = drop (?k + ?m) ?old"
    using A B hidden_labels(2) [of old] by (simp_all add: u' drop_map hide_label_def comp_def add.commute)
  have split: "drop ?k ?old = take ?m (drop ?k ?old) @ drop (?k + ?m) ?old"
    by (metis add.commute append_take_drop_id drop_drop)
  have mset: "mset (map label_id (a @ b @ u')) = mset (?old @ [next..<n'])"
  proof -
    have "mset (map label_id (a @ b @ u')) =
        mset (take ?k ?old) + mset (take ?m (drop ?k ?old) @ drop (?k + ?m) ?old) + (mset [next..<n] + mset [n..<n'])"
      by (simp add: ids)
    also have "\<dots> = mset (take ?k ?old) + mset (drop ?k ?old) + mset ([next..<n] @ [n..<n'])"
      unfolding split [symmetric] by (simp only: mset_append)
    also have "mset (take ?k ?old) + mset (drop ?k ?old) = mset ?old"
      by (simp only: mset_append [symmetric] append_take_drop_id)
    also have "[next..<n] @ [n..<n'] = [next..<n']" using n by (metis le_Suc_ex upt_add_eq_append)
    finally show ?thesis by (simp only: mset_append)
  qed
  have dis: "distinct (?old @ [next..<n'])" using assms(3,4) by auto
  show "distinct (map label_id (a @ b @ u'))" using mset dis by (metis mset_eq_imp_distinct_iff)
  have set: "set (map label_id (a @ b @ u')) = set ?old \<union> {next..<n'}"
    using mset_eq_setD [OF mset] by simp
  then show "set (map label_id old) \<subseteq> set (map label_id (a @ b @ u'))" by blast
  show "\<forall>l \<in> set (a @ b @ u'). label_id l < n'"
  proof
    fix l
    assume "l \<in> set (a @ b @ u')"
    then have "label_id l \<in> set ?old \<union> {next..<n'}" unfolding set [symmetric] by (auto simp: image_iff)
    with assms(4) n show "label_id l < n'" by auto
  qed
  have "length a = ?k" "length b = ?m" using A B by (metis length_map)+
  then show "length (a @ b @ u') = max (length old) (length ts + length us)" by (simp add: u')
qed

lemma update_view_result:
  assumes "from_pixels tk (zoom w) (scroll w) = (x1, y1)"
    and "from_pixels tk (zoom w) (fst (scroll w) + h_page tk, snd (scroll w) + v_page tk) = (x2, y2)"
    and "compute_divisions (x1 / 3) (x2 / 3) = Inr (x0, xd)" "compute_divisions (y1 / 3) (y2 / 3) = Inr (y0, yd)"
    and "place_labels (map (\<lambda>x. (x, (3 * x, y2 - 5 / zoom w / 2 - 10 / zoom w))) (axis_ticks xd (x2 / 3) x0))
           (map hide_label (labels ax)) (next_label ax) = (a, u, n)"
    and "place_labels (map (\<lambda>y. (y, (x1 + 5 / zoom w / 2 + 10 / zoom w, 3 * y))) (axis_ticks yd (y2 / 3) y0)) u n = (b, u', n')"
  shows "\<exists>ax'. axes_update_view tk (Some w) ax = (None, ax') \<and> labels ax' = a @ b @ u' \<and> next_label ax' = n' \<and>
    axes_visible ax' = axes_visible ax \<and> lines_visible ax' = lines_visible ax"
  using assms by (simp add: axes_update_view_def Let_def)

lemma compute_divisions_total: "xi < xf \<Longrightarrow> \<exists>x0 d. compute_divisions xi xf = Inr (x0, d)"
  by (simp add: compute_divisions_value Let_def)

text \<open>
  The labels of the axes. On a canvas that scales linearly an update never fails and shows exactly one label per
  tick, with its value and place, first those of the horizontal and then those of the vertical
  axis; labels of the last drawing are reused, new ones are made only when there are too few, and none is
  lost. After the axes have been switched off and on again the lines are shown without any label until the
  next change of the window.
\<close>

theorem axes_labels_correct:
  assumes "linear_canvas tk c" "0 < zoom w" "0 < h_page tk" "0 < v_page tk" "labels_ok ax"
    and "from_pixels tk (zoom w) (scroll w) = (x1, y1)"
    and "from_pixels tk (zoom w) (fst (scroll w) + h_page tk, snd (scroll w) + v_page tk) = (x2, y2)"
  shows "\<exists>ax' x0 xd y0 yd. axes_update_view tk (Some w) ax = (None, ax') \<and> labels_ok ax' \<and>
    compute_divisions (x1 / 3) (x2 / 3) = Inr (x0, xd) \<and> compute_divisions (y1 / 3) (y2 / 3) = Inr (y0, yd) \<and>
    shown_labels ax' =
      map (\<lambda>x. (x, (3 * x, y2 - 5 / zoom w / 2 - 10 / zoom w))) (axis_ticks xd (x2 / 3) x0) @
      map (\<lambda>y. (y, (x1 + 5 / zoom w / 2 + 10 / zoom w, 3 * y))) (axis_ticks yd (y2 / 3) y0) \<and>
    set (map label_id (labels ax)) \<subseteq> set (map label_id (labels ax')) \<and>
    length (labels ax') = max (length (labels ax)) (length (axis_ticks xd (x2 / 3) x0) + length (axis_ticks yd (y2 / 3) y0)) \<and>
    shown_labels (set_visible True (set_visible False ax')) = [] \<and>
    lines_visible (set_visible True (set_visible False ax'))"
proof -
  have fp: "from_pixels tk (zoom w) (x, y) = (x / zoom w + fst c, y / zoom w + snd c)" for x y
    using assms(1) by (simp add: linear_canvas_def)
  have px: "x1 = fst (scroll w) / zoom w + fst c" "y1 = snd (scroll w) / zoom w + snd c"
    using assms(6) fp [of "fst (scroll w)" "snd (scroll w)"] by simp_all
  have py: "x2 = (fst (scroll w) + h_page tk) / zoom w + fst c" "y2 = (snd (scroll w) + v_page tk) / zoom w + snd c"
    using assms(7) fp by simp_all
  have "x1 < x2" "y1 < y2"
    unfolding px py using assms(2-4) by (intro add_strict_right_mono divide_strict_right_mono; simp)+
  then obtain x0 xd y0 yd where d: "compute_divisions (x1 / 3) (x2 / 3) = Inr (x0, xd)"
      "compute_divisions (y1 / 3) (y2 / 3) = Inr (y0, yd)"
    using compute_divisions_total by (meson divide_strict_right_mono zero_less_numeral)
  obtain a u n where p1: "place_labels (map (\<lambda>x. (x, (3 * x, y2 - 5 / zoom w / 2 - 10 / zoom w))) (axis_ticks xd (x2 / 3) x0))
      (map hide_label (labels ax)) (next_label ax) = (a, u, n)" by (rule prod_cases3)
  obtain b u' n' where p2: "place_labels (map (\<lambda>y. (y, (x1 + 5 / zoom w / 2 + 10 / zoom w, 3 * y))) (axis_ticks yd (y2 / 3) y0)) u n =
      (b, u', n')" by (rule prod_cases3)
  from update_view_result [OF assms(6,7) d p1 p2] obtain ax' where ax':
    "axes_update_view tk (Some w) ax = (None, ax')" "labels ax' = a @ b @ u'" "next_label ax' = n'" by blast
  have "distinct (map label_id (labels ax))" "\<forall>l \<in> set (labels ax). label_id l < next_label ax"
    using assms(5) by (simp_all add: labels_ok_def)
  note placed = two_placements [OF p1 p2 this]
  have "labels_ok ax'" unfolding labels_ok_def ax' using placed(2,3) by blast
  moreover have "shown_labels (set_visible True (set_visible False ax')) = []"
    "lines_visible (set_visible True (set_visible False ax'))"
    by (simp_all add: shown_labels_def set_visible_def hidden_labels(1))
  moreover have "shown_labels ax' =
      map (\<lambda>x. (x, (3 * x, y2 - 5 / zoom w / 2 - 10 / zoom w))) (axis_ticks xd (x2 / 3) x0) @
      map (\<lambda>y. (y, (x1 + 5 / zoom w / 2 + 10 / zoom w, 3 * y))) (axis_ticks yd (y2 / 3) y0)"
    using placed(1) by (simp only: shown_labels_def ax'(2))
  moreover note placed(4,5) [folded ax'(2)]
  ultimately show ?thesis using ax'(1) d unfolding length_map by blast
qed

section \<open>Examples\<close>

lemma rint_log10_demo: "rint_log10 40 = 2"
  by (simp add: rint_log10.simps)

lemma demo_divisions: "compute_divisions 10 210 = Inr (0, 50)"
  by (simp add: compute_divisions_value nearest_division_def rint_log10_demo Let_def ceiling_eq_iff)

theorem ticks_correct_witness: "length (axis_ticks 50 210 0) \<le> 9 \<and> hd (axis_ticks 50 210 0) < (10::rat)"
  using ticks_correct [OF _ demo_divisions] by simp

theorem axes_labels_correct_witness:
  "\<exists>ax'. axes_update_view demo_toolkit (Some (demo_window 1)) (snd (new_axes demo_toolkit None)) = (None, ax') \<and>
     labels_ok ax' \<and> shown_labels (set_visible True (set_visible False ax')) = []"
proof -
  have "labels_ok (snd (new_axes demo_toolkit None))" by (simp add: new_axes_def axes_update_view_def labels_ok_def)
  moreover have "from_pixels demo_toolkit (zoom (demo_window 1)) (scroll (demo_window 1)) = (-90, -80)"
    "from_pixels demo_toolkit (zoom (demo_window 1))
       (fst (scroll (demo_window 1)) + h_page demo_toolkit, snd (scroll (demo_window 1)) + v_page demo_toolkit) = (510, 370)"
    by (simp_all add: demo_toolkit_def demo_window_def)
  ultimately show ?thesis
    using axes_labels_correct [OF demo_canvas, of "demo_window 1" "snd (new_axes demo_toolkit None)" "-90" "-80" 510 370]
    by (auto simp: demo_toolkit_def demo_window_def)
qed

end
