(* ===== verification/VizWifi.thy ===== *)
theory VizWifi
  imports VizView
begin

text \<open>
  \<^verbatim>\<open>src/visualizer/visualizer/plugins/wifi_intrastructure_link.py\<close>: the plugin that draws a dashed
  line from every wireless station to its access point. A \<^verbatim>\<open>WifiLink\<close> is a record in a store
  (the list \<open>wlinks\<close>, a link is named by its position); \<open>ap_links\<close> has for each node the
  wireless links in the list of links of its view, which \<open>add_link\<close> and \<open>remove_link\<close> change.
  The devices of the simulation and the positions of the views are parameters. The lemmas show that
  stations and access points stay consistent after any sequence of events and what is drawn.
\<close>

section \<open>Links\<close>

record wlink =
  w_sta :: "nat option"
  w_ap :: "nat option"
  w_visible :: bool
  w_line :: "(point \<times> point) option"

record wifi =
  wlinks :: "wlink list"
  ap_links :: "nat \<Rightarrow> nat list"
  access_points :: "(string, nat) dict"
  stations :: "((nat \<times> nat) \<times> nat \<times> nat) list"

definition change_link :: "nat \<Rightarrow> (wlink \<Rightarrow> wlink) \<Rightarrow> wifi \<Rightarrow> wifi" where
  "change_link l f st = st\<lparr>wlinks := (wlinks st)[l := f (wlinks st ! l)]\<rparr>"

text \<open>\<^verbatim>\<open>Node.add_link\<close> and \<^verbatim>\<open>Node.remove_link\<close> of \<^verbatim>\<open>core.py\<close>\<close>

definition add_link :: "nat \<Rightarrow> nat \<Rightarrow> wifi \<Rightarrow> wifi" where
  "add_link n l st = st\<lparr>ap_links := (ap_links st)(n := ap_links st n @ [l])\<rparr>"

definition remove_link :: "nat \<Rightarrow> nat \<Rightarrow> wifi \<Rightarrow> wifi result" where
  "remove_link n l st =
     (if l \<in> set (ap_links st n) then Inr (st\<lparr>ap_links := (ap_links st)(n := remove1 l (ap_links st n))\<rparr>)
      else Inl ValueError)"

text \<open>A link that has been destroyed has no station: \<^verbatim>\<open>None\<close> has no position.\<close>

definition update_line :: "(nat \<Rightarrow> point) \<Rightarrow> nat \<Rightarrow> wifi \<Rightarrow> wifi result" where
  "update_line pos l st =
     (case w_ap (wlinks st ! l) of
        None \<Rightarrow> Inr st
      | Some a \<Rightarrow>
          (case w_sta (wlinks st ! l) of
             None \<Rightarrow> Inl AttributeError
           | Some s \<Rightarrow> Inr (change_link l (\<lambda>k. k\<lparr>w_line := Some (pos s, pos a)\<rparr>) st)))"

definition set_ap :: "(nat \<Rightarrow> point) \<Rightarrow> nat \<Rightarrow> nat option \<Rightarrow> wifi \<Rightarrow> wifi result" where
  "set_ap pos l ap st =
     (if ap = w_ap (wlinks st ! l) then Inr st
      else
        rbind (case w_ap (wlinks st ! l) of None \<Rightarrow> Inr st | Some a \<Rightarrow> remove_link a l st) (\<lambda>st.
          let st = change_link l (\<lambda>k. k\<lparr>w_ap := ap\<rparr>) st;
              st = (case ap of
                      None \<Rightarrow> change_link l (\<lambda>k. k\<lparr>w_visible := False\<rparr>) st
                    | Some a \<Rightarrow> change_link l (\<lambda>k. k\<lparr>w_visible := True\<rparr>) (add_link a l st))
          in update_line pos l st))"

text \<open>
  \<^verbatim>\<open>WifiLink.__init__\<close>: a new item is visible, and \<^verbatim>\<open>set_ap(None)\<close> returns at once because there
  is no access point yet.
\<close>

definition new_link :: "(nat \<Rightarrow> point) \<Rightarrow> nat \<Rightarrow> wifi \<Rightarrow> wifi result" where
  "new_link pos s st =
     set_ap pos (length (wlinks st)) None
       (st\<lparr>wlinks := wlinks st @ [\<lparr>w_sta = Some s, w_ap = None, w_visible = True, w_line = None\<rparr>]\<rparr>)"

text \<open>The canvas item is destroyed with its line; the node of the access point is not told.\<close>

definition destroy :: "nat \<Rightarrow> wifi \<Rightarrow> wifi" where
  "destroy l st = change_link l (\<lambda>k. \<lparr>w_sta = None, w_ap = None, w_visible = False, w_line = None\<rparr>) st"

section \<open>The monitor\<close>

datatype wifi_device = StaDevice | ApDevice string | OtherMac | NoWifi

text \<open>The state of the simulation: the devices of the nodes in view, the link state and BSSID of stations.\<close>

record radio =
  views :: "nat list"
  devices :: "nat \<Rightarrow> wifi_device list"
  is_link_up :: "nat \<times> nat \<Rightarrow> bool"
  bssid_of :: "nat \<times> nat \<Rightarrow> string"
  position_of :: "nat \<Rightarrow> point"

definition scan_wifi_device :: "radio \<Rightarrow> nat \<Rightarrow> wifi \<Rightarrow> nat \<times> wifi_device \<Rightarrow> wifi result" where
  "scan_wifi_device r n st d =
     (case snd d of
        StaDevice \<Rightarrow>
          rbind (new_link (position_of r) n st) (\<lambda>st'.
            Inr (st'\<lparr>stations := stations st' @ [((n, fst d), n, length (wlinks st))]\<rparr>))
      | ApDevice b \<Rightarrow> Inr (st\<lparr>access_points := AList.update b n (access_points st)\<rparr>)
      | _ \<Rightarrow> Inr st)"

definition scan_wifi_node :: "radio \<Rightarrow> wifi \<Rightarrow> nat \<Rightarrow> wifi result" where
  "scan_wifi_node r st n = for_each (scan_wifi_device r n) (List.enumerate 0 (devices r n)) st"

definition scan_nodes :: "radio \<Rightarrow> wifi \<Rightarrow> wifi result" where
  "scan_nodes r st =
     for_each (scan_wifi_node r) (views r)
       ((fold (\<lambda>(_, _, l). destroy l) (stations st) st)\<lparr>access_points := [], stations := []\<rparr>)"

definition wanted_ap :: "radio \<Rightarrow> (string, nat) dict \<Rightarrow> nat \<times> nat \<Rightarrow> nat option result" where
  "wanted_ap r aps dev =
     (if \<not> is_link_up r dev then Inr None
      else if bssid_of r dev = ''00:00:00:00:00:00'' then Inr None
      else rbind (dict_get aps (bssid_of r dev)) (\<lambda>a. Inr (Some a)))"

text \<open>The loops over the stations; an exception leaves the state reached.\<close>

fun periodic_wifi_update :: "radio \<Rightarrow> ((nat \<times> nat) \<times> nat \<times> nat) list \<Rightarrow> wifi \<Rightarrow> py_error option \<times> wifi" where
  "periodic_wifi_update r [] st = (None, st)"
| "periodic_wifi_update r ((dev, n, l) # ss) st =
     (case rbind (wanted_ap r (access_points st) dev) (\<lambda>ap. set_ap (position_of r) l ap st) of
        Inl e \<Rightarrow> (Some e, st)
      | Inr st' \<Rightarrow> periodic_wifi_update r ss st')"

definition update_wifi_view :: "(nat \<Rightarrow> point) \<Rightarrow> wifi \<Rightarrow> wifi result" where
  "update_wifi_view pos st = for_each (\<lambda>st (_, _, l). update_line pos l st) (stations st) st"

text \<open>A node that is moved updates the links of its list.\<close>

definition node_moved :: "(nat \<Rightarrow> point) \<Rightarrow> nat \<Rightarrow> wifi \<Rightarrow> wifi result" where
  "node_moved pos n st = for_each (\<lambda>st l. update_line pos l st) (ap_links st n) st"

datatype wifi_event =
    TopologyScanned radio
  | PeriodicUpdate radio
  | UpdateView "nat \<Rightarrow> point"
  | NodeMoved nat "nat \<Rightarrow> point"

definition wifi_step :: "wifi_event \<Rightarrow> wifi \<Rightarrow> py_error option \<times> wifi" where
  "wifi_step ev st =
     (let outcome = (\<lambda>res. case res of Inl e \<Rightarrow> (Some e, st) | Inr st' \<Rightarrow> (None, st'))
      in case ev of
           TopologyScanned r \<Rightarrow> outcome (scan_nodes r st)
         | PeriodicUpdate r \<Rightarrow> periodic_wifi_update r (stations st) st
         | UpdateView pos \<Rightarrow> outcome (update_wifi_view pos st)
         | NodeMoved n pos \<Rightarrow> outcome (node_moved pos n st))"

fun wifi_run :: "wifi_event list \<Rightarrow> wifi \<Rightarrow> py_error list \<times> wifi" where
  "wifi_run [] st = ([], st)"
| "wifi_run (ev # evs) st =
     (case wifi_step ev st of (e, st') \<Rightarrow>
        case wifi_run evs st' of (es, st'') \<Rightarrow> ((case e of None \<Rightarrow> [] | Some x \<Rightarrow> [x]) @ es, st''))"

definition start_wifi :: wifi where
  "start_wifi = \<lparr>wlinks = [], ap_links = (\<lambda>_. []), access_points = [], stations = []\<rparr>"

section \<open>Consistency\<close>

definition live :: "wifi \<Rightarrow> nat set" where
  "live st = (\<lambda>(_, _, l). l) ` set (stations st)"

text \<open>A line is drawn.\<close>

definition drawn :: "wlink \<Rightarrow> bool" where
  "drawn k = (w_visible k \<and> w_line k \<noteq> None)"

definition wlink_ok :: "wifi \<Rightarrow> nat \<Rightarrow> bool" where
  "wlink_ok st l \<longleftrightarrow>
     (let k = wlinks st ! l in
      (drawn k \<longleftrightarrow> w_ap k \<noteq> None) \<and> (w_ap k \<noteq> None \<longrightarrow> l \<in> live st) \<and>
      (l \<in> live st \<longrightarrow> (\<forall>a. count_list (ap_links st a) l = (if w_ap k = Some a then 1 else 0))))"

definition wifi_ok :: "wifi \<Rightarrow> bool" where
  "wifi_ok st \<longleftrightarrow>
     distinct (map (\<lambda>(_, _, l). l) (stations st)) \<and>
     (\<forall>(d, n, l) \<in> set (stations st). l < length (wlinks st) \<and> w_sta (wlinks st ! l) = Some n) \<and>
     (\<forall>a. \<forall>l \<in> set (ap_links st a). l < length (wlinks st)) \<and>
     (\<forall>l < length (wlinks st). wlink_ok st l)"

lemma wifi_ok_start: "wifi_ok start_wifi"
  by (simp add: wifi_ok_def start_wifi_def)

lemma live_station: "l \<in> live st \<longleftrightarrow> (\<exists>d n. (d, n, l) \<in> set (stations st))"
  by (force simp: live_def)

lemma live_update [simp]: "live (st\<lparr>wlinks := ks\<rparr>) = live st" "live (st\<lparr>ap_links := xs\<rparr>) = live st"
  by (simp_all add: live_def)

lemma live_sta: "wifi_ok st \<Longrightarrow> l \<in> live st \<Longrightarrow> l < length (wlinks st) \<and> w_sta (wlinks st ! l) \<noteq> None"
  by (fastforce simp: live_station wifi_ok_def)

text \<open>What every operation but the scan leaves alone.\<close>

definition keeps :: "wifi \<Rightarrow> wifi \<Rightarrow> bool" where
  "keeps st st' \<longleftrightarrow>
     stations st' = stations st \<and> access_points st' = access_points st \<and> length (wlinks st') = length (wlinks st) \<and>
     (\<forall>l. w_sta (wlinks st' ! l) = w_sta (wlinks st ! l))"

lemma keeps_trans: "keeps a b \<Longrightarrow> keeps b c \<Longrightarrow> keeps a c"
  by (simp add: keeps_def)

lemma keeps_refl [simp]: "keeps a a"
  by (simp add: keeps_def)

lemma keeps_live: "keeps st st' \<Longrightarrow> live st' = live st"
  by (simp add: keeps_def live_def)

lemma wifi_ok_keeps:
  assumes "wifi_ok st" "keeps st st'"
    and "\<And>a l. l \<in> set (ap_links st' a) \<Longrightarrow> l < length (wlinks st)"
    and "\<And>l. l < length (wlinks st) \<Longrightarrow> wlink_ok st' l"
  shows "wifi_ok st'"
  using assms unfolding wifi_ok_def keeps_def by auto

lemma change_link_nth:
  "l < length (wlinks st) \<Longrightarrow> wlinks (change_link l f st) ! m = (if m = l then f (wlinks st ! l) else wlinks st ! m)"
  by (simp add: change_link_def nth_list_update)

lemma change_link_simps [simp]:
  "stations (change_link l f st) = stations st" "access_points (change_link l f st) = access_points st"
  "ap_links (change_link l f st) = ap_links st" "length (wlinks (change_link l f st)) = length (wlinks st)"
  by (simp_all add: change_link_def)

lemma update_line_ok:
  assumes ok: "wifi_ok st" and l: "l < length (wlinks st)"
  shows "\<exists>st'. update_line pos l st = Inr st' \<and> wifi_ok st' \<and> keeps st st' \<and> ap_links st' = ap_links st \<and>
    (\<forall>m. w_ap (wlinks st' ! m) = w_ap (wlinks st ! m)) \<and>
    (\<forall>m. wlinks st' ! m = (case (w_sta (wlinks st ! m), w_ap (wlinks st ! m)) of
        (Some s, Some a) \<Rightarrow> if m = l then (wlinks st ! m)\<lparr>w_line := Some (pos s, pos a)\<rparr> else wlinks st ! m
      | _ \<Rightarrow> wlinks st ! m))"
proof (cases "w_ap (wlinks st ! l)")
  case None
  with ok show ?thesis by (auto simp: update_line_def split: option.split)
next
  case (Some a)
  with ok l have "l \<in> live st" by (auto simp: wifi_ok_def wlink_ok_def Let_def)
  then obtain s where s: "w_sta (wlinks st ! l) = Some s" using live_sta [OF ok] by blast
  let ?st = "change_link l (\<lambda>k. k\<lparr>w_line := Some (pos s, pos a)\<rparr>) st"
  have k: "keeps st ?st" by (simp add: keeps_def change_link_nth l)
  have "wlink_ok ?st m" if "m < length (wlinks st)" for m
    using ok that Some unfolding wifi_ok_def wlink_ok_def keeps_live [OF k]
    by (auto simp: change_link_nth l drawn_def Let_def)
  then have "wifi_ok ?st" using wifi_ok_keeps [OF ok k] ok by (simp add: wifi_ok_def)
  with k s Some show ?thesis by (auto simp: update_line_def change_link_nth l split: option.split)
qed

lemma count_list_remove1: "count_list (remove1 l xs) m = (if m = l then count_list xs l - 1 else count_list xs m)"
  by (induction xs) auto

definition moved_links :: "nat option \<Rightarrow> nat option \<Rightarrow> nat \<Rightarrow> nat list \<Rightarrow> nat \<Rightarrow> nat list" where
  "moved_links old ap l xs b =
     (if old = Some b then remove1 l xs else xs) @ (if ap = Some b then [l] else [])"

lemma set_ap_result:
  assumes ok: "wifi_ok st" and l: "l \<in> live st" and ne: "ap \<noteq> w_ap (wlinks st ! l)"
    and s: "w_sta (wlinks st ! l) = Some s"
  shows "set_ap pos l ap st = Inr (st\<lparr>
     wlinks := (wlinks st)[l := (wlinks st ! l)\<lparr>w_ap := ap, w_visible := ap \<noteq> None,
       w_line := (case ap of None \<Rightarrow> w_line (wlinks st ! l) | Some a \<Rightarrow> Some (pos s, pos a))\<rparr>],
     ap_links := (\<lambda>b. moved_links (w_ap (wlinks st ! l)) ap l (ap_links st b) b)\<rparr>)"
proof -
  note len = conjunct1 [OF live_sta [OF ok l]]
  have "wlink_ok st l" using ok len by (simp add: wifi_ok_def)
  then have "count_list (ap_links st a) l = (if w_ap (wlinks st ! l) = Some a then 1 else 0)" for a
    using l by (simp add: wlink_ok_def Let_def)
  then have mem: "l \<in> set (ap_links st a)" if "w_ap (wlinks st ! l) = Some a" for a
    using that by (metis count_list_0_iff zero_neq_one)
  have rem: "(case w_ap (wlinks st ! l) of None \<Rightarrow> Inr st | Some a \<Rightarrow> remove_link a l st) =
      Inr (st\<lparr>ap_links := (\<lambda>b. moved_links (w_ap (wlinks st ! l)) None l (ap_links st b) b)\<rparr>)"
    using mem by (auto simp: remove_link_def moved_links_def fun_eq_iff split: option.split)
  show ?thesis
    using ne s len rem
    by (cases ap) (auto simp: set_ap_def update_line_def change_link_def add_link_def moved_links_def Let_def fun_eq_iff)
qed

lemma set_ap_ok:
  assumes ok: "wifi_ok st" and l: "l \<in> live st"
  shows "\<exists>st'. set_ap pos l ap st = Inr st' \<and> wifi_ok st' \<and> keeps st st' \<and> w_ap (wlinks st' ! l) = ap \<and>
    (\<forall>m. m \<noteq> l \<longrightarrow> wlinks st' ! m = wlinks st ! m)"
proof (cases "ap = w_ap (wlinks st ! l)")
  case True
  with ok show ?thesis by (simp add: set_ap_def)
next
  case False
  obtain s where s: "w_sta (wlinks st ! l) = Some s" and len: "l < length (wlinks st)" using live_sta [OF ok l] by blast
  let ?k = "(wlinks st ! l)\<lparr>w_ap := ap, w_visible := ap \<noteq> None,
       w_line := (case ap of None \<Rightarrow> w_line (wlinks st ! l) | Some a \<Rightarrow> Some (pos s, pos a))\<rparr>"
  let ?st = "st\<lparr>wlinks := (wlinks st)[l := ?k],
     ap_links := (\<lambda>b. moved_links (w_ap (wlinks st ! l)) ap l (ap_links st b) b)\<rparr>"
  have k: "keeps st ?st" using len by (simp add: keeps_def nth_list_update)
  have ap: "wlinks ?st ! m = (if m = l then ?k else wlinks st ! m)" for m using len by (simp add: nth_list_update)
  have "wlink_ok ?st m" if m: "m < length (wlinks st)" for m
  proof -
    have lm: "wlink_ok st m" using ok m by (simp add: wifi_ok_def)
    show ?thesis
    proof (cases "m = l")
      case True
      have "count_list (ap_links ?st a) l = (if ap = Some a then 1 else 0)" for a
        using lm l True by (simp add: moved_links_def count_list_remove1 wlink_ok_def Let_def)
      with True l show ?thesis
        using len by (auto simp: wlink_ok_def keeps_live [OF k] drawn_def Let_def split: option.split)
    next
      case False
      then have "count_list (ap_links ?st a) m = count_list (ap_links st a) m" for a
        by (simp add: moved_links_def count_list_remove1)
      with False lm show ?thesis by (simp add: wlink_ok_def keeps_live [OF k] Let_def)
    qed
  qed
  moreover have "b \<in> set (ap_links ?st a) \<Longrightarrow> b < length (wlinks st)" for a b
    using ok len by (auto simp: moved_links_def wifi_ok_def split: if_splits dest: subsetD [OF set_remove1_subset])
  ultimately have "wifi_ok ?st" using wifi_ok_keeps [OF ok k] by blast
  with k ap set_ap_result [OF ok l False s, of pos] show ?thesis by auto
qed

section \<open>The loops\<close>

lemma update_lines_ok:
  assumes "wifi_ok st" "\<forall>l \<in> set ls. l < length (wlinks st)"
  shows "\<exists>st'. for_each (\<lambda>st l. update_line pos l st) ls st = Inr st' \<and> wifi_ok st' \<and> keeps st st' \<and>
    ap_links st' = ap_links st \<and> (\<forall>m. w_ap (wlinks st' ! m) = w_ap (wlinks st ! m)) \<and>
    (\<forall>m \<in> set ls. \<forall>s a. w_sta (wlinks st ! m) = Some s \<and> w_ap (wlinks st ! m) = Some a \<longrightarrow>
       w_line (wlinks st' ! m) = Some (pos s, pos a)) \<and>
    (\<forall>m. m \<notin> set ls \<longrightarrow> w_line (wlinks st' ! m) = w_line (wlinks st ! m))"
  using assms
proof (induction ls arbitrary: st)
  case (Cons l ls)
  from update_line_ok [of st l pos] Cons.prems obtain st1 where st1:
    "update_line pos l st = Inr st1" "wifi_ok st1" "keeps st st1" "ap_links st1 = ap_links st"
    "\<forall>m. w_ap (wlinks st1 ! m) = w_ap (wlinks st ! m)"
    and ln: "\<forall>m. wlinks st1 ! m = (case (w_sta (wlinks st ! m), w_ap (wlinks st ! m)) of
        (Some s, Some a) \<Rightarrow> if m = l then (wlinks st ! m)\<lparr>w_line := Some (pos s, pos a)\<rparr> else wlinks st ! m
      | _ \<Rightarrow> wlinks st ! m)" by auto
  have "\<forall>l \<in> set ls. l < length (wlinks st1)" using Cons.prems st1(3) by (simp add: keeps_def)
  from Cons.IH [OF st1(2) this] obtain st2 where st2:
    "for_each (\<lambda>st l. update_line pos l st) ls st1 = Inr st2" "wifi_ok st2" "keeps st1 st2"
    "ap_links st2 = ap_links st1" "\<forall>m. w_ap (wlinks st2 ! m) = w_ap (wlinks st1 ! m)"
    "\<forall>m \<in> set ls. \<forall>s a. w_sta (wlinks st1 ! m) = Some s \<and> w_ap (wlinks st1 ! m) = Some a \<longrightarrow>
       w_line (wlinks st2 ! m) = Some (pos s, pos a)"
    "\<forall>m. m \<notin> set ls \<longrightarrow> w_line (wlinks st2 ! m) = w_line (wlinks st1 ! m)" by blast
  have other: "w_line (wlinks st1 ! m) = w_line (wlinks st ! m)" if "m \<noteq> l" for m
    using ln that by (auto split: option.split)
  have head: "w_line (wlinks st1 ! l) = Some (pos s, pos a)"
    if "w_sta (wlinks st ! l) = Some s" "w_ap (wlinks st ! l) = Some a" for s a
    using ln that by auto
  have sta: "w_sta (wlinks st1 ! m) = w_sta (wlinks st ! m)" for m using st1(3) by (simp add: keeps_def)
  have "\<forall>m \<in> set (l # ls). \<forall>s a. w_sta (wlinks st ! m) = Some s \<and> w_ap (wlinks st ! m) = Some a \<longrightarrow>
       w_line (wlinks st2 ! m) = Some (pos s, pos a)"
    using st2(6,7) head st1(5) sta by (metis set_ConsD)
  moreover have "\<forall>m. m \<notin> set (l # ls) \<longrightarrow> w_line (wlinks st2 ! m) = w_line (wlinks st ! m)"
    using st2(7) other by simp
  ultimately show ?case
    using st1(1,4,5) st2(1,2,4,5) keeps_trans [OF st1(3) st2(3)] by simp
qed simp

lemma for_each_map: "for_each f (map g xs) s = for_each (\<lambda>s x. f s (g x)) xs s"
  by (induction xs arbitrary: s) (simp_all add: rbind_def split: sum.split)

lemma update_wifi_view_lines:
  "update_wifi_view pos st = for_each (\<lambda>st l. update_line pos l st) (map (\<lambda>(_, _, l). l) (stations st)) st"
  by (simp add: update_wifi_view_def for_each_map case_prod_unfold)

lemma periodic_ok:
  assumes "wifi_ok st" "\<forall>(d, n, l) \<in> set ss. l \<in> live st" "distinct (map (\<lambda>(_, _, l). l) ss)"
  shows "case periodic_wifi_update r ss st of (e, st') \<Rightarrow>
    wifi_ok st' \<and> keeps st st' \<and>
    (\<forall>m. m \<notin> (\<lambda>(_, _, l). l) ` set ss \<longrightarrow> wlinks st' ! m = wlinks st ! m) \<and>
    (\<exists>done rest. ss = done @ rest \<and>
       (\<forall>(d, n, l) \<in> set done. wanted_ap r (access_points st) d = Inr (w_ap (wlinks st' ! l))) \<and>
       (\<forall>(d, n, l) \<in> set rest. wlinks st' ! l = wlinks st ! l) \<and>
       (case rest of [] \<Rightarrow> e = None | (d, n, l) # _ \<Rightarrow> e = Some KeyError \<and> wanted_ap r (access_points st) d = Inl KeyError))"
  using assms
proof (induction ss arbitrary: st)
  case (Cons x ss)
  obtain d n l where x: "x = (d, n, l)" by (cases x) auto
  have l: "l \<in> live st" using Cons.prems x by simp
  show ?case
  proof (cases "wanted_ap r (access_points st) d")
    case (Inl e)
    then have "e = KeyError" by (auto simp: wanted_ap_def dict_get_def split: if_splits option.splits)
    with Inl Cons.prems(1) show ?thesis by (simp add: x) (rule exI [of _ "[]"], simp)
  next
    case (Inr ap)
    from set_ap_ok [OF Cons.prems(1) l, of "position_of r" ap] obtain st1 where st1:
      "set_ap (position_of r) l ap st = Inr st1" "wifi_ok st1" "keeps st st1" "w_ap (wlinks st1 ! l) = ap"
      "\<And>m. m \<noteq> l \<Longrightarrow> wlinks st1 ! m = wlinks st ! m" by blast
    obtain e st2 where two: "periodic_wifi_update r ss st1 = (e, st2)" by fastforce
    have aps: "access_points st1 = access_points st" using st1(3) by (simp add: keeps_def)
    have fresh: "l \<notin> (\<lambda>(_, _, l). l) ` set ss" using Cons.prems(3) x by simp
    have "case periodic_wifi_update r ss st1 of (e, st') \<Rightarrow>
      wifi_ok st' \<and> keeps st1 st' \<and>
      (\<forall>m. m \<notin> (\<lambda>(_, _, l). l) ` set ss \<longrightarrow> wlinks st' ! m = wlinks st1 ! m) \<and>
      (\<exists>done rest. ss = done @ rest \<and>
         (\<forall>(d, n, l) \<in> set done. wanted_ap r (access_points st1) d = Inr (w_ap (wlinks st' ! l))) \<and>
         (\<forall>(d, n, l) \<in> set rest. wlinks st' ! l = wlinks st1 ! l) \<and>
         (case rest of [] \<Rightarrow> e = None | (d, n, l) # _ \<Rightarrow> e = Some KeyError \<and> wanted_ap r (access_points st1) d = Inl KeyError))"
      using Cons.prems st1(2) keeps_live [OF st1(3)] by (intro Cons.IH) (auto simp: x)
    then obtain done' rest where ih: "wifi_ok st2" "keeps st1 st2"
      "\<And>m. m \<notin> (\<lambda>(_, _, l). l) ` set ss \<Longrightarrow> wlinks st2 ! m = wlinks st1 ! m" "ss = done' @ rest"
      "\<forall>(d, n, l) \<in> set done'. wanted_ap r (access_points st) d = Inr (w_ap (wlinks st2 ! l))"
      "\<forall>(d, n, l) \<in> set rest. wlinks st2 ! l = wlinks st1 ! l"
      "case rest of [] \<Rightarrow> e = None | (d, n, l) # _ \<Rightarrow> e = Some KeyError \<and> wanted_ap r (access_points st) d = Inl KeyError"
      unfolding two aps by auto
    have "l' \<noteq> l" if "(d', n', l') \<in> set rest" for d' n' l' using fresh that ih(4) by force
    then have "\<forall>(d, n, l) \<in> set rest. wlinks st2 ! l = wlinks st ! l" using ih(6) st1(5) by fastforce
    moreover have "\<forall>(d, n, l) \<in> set (x # done'). wanted_ap r (access_points st) d = Inr (w_ap (wlinks st2 ! l))"
      using ih(3,5) fresh st1(4) Inr by (simp add: x)
    moreover have "\<forall>m. m \<notin> (\<lambda>(_, _, l). l) ` set (x # ss) \<longrightarrow> wlinks st2 ! m = wlinks st ! m"
      using ih(3) st1(5) by (simp add: x)
    moreover have "x # ss = (x # done') @ rest" using ih(4) by simp
    moreover have eq: "periodic_wifi_update r (x # ss) st = (e, st2)" using Inr st1(1) two by (simp add: x)
    ultimately show ?thesis
      using ih(1,7) keeps_trans [OF st1(3) ih(2)] unfolding eq prod.case by blast
  qed
qed simp

section \<open>The scan\<close>

text \<open>The devices of the stations and the table of access points that a scan is to find.\<close>

definition sta_devices_of :: "nat \<Rightarrow> (nat \<times> wifi_device) list \<Rightarrow> (nat \<times> nat) list" where
  "sta_devices_of n ds = map (\<lambda>(i, _). (n, i)) (filter (\<lambda>(_, d). d = StaDevice) ds)"

definition sta_devices :: "radio \<Rightarrow> (nat \<times> nat) list" where
  "sta_devices r = concat (map (\<lambda>n. sta_devices_of n (List.enumerate 0 (devices r n))) (views r))"

definition ap_of_device :: "nat \<Rightarrow> nat \<times> wifi_device \<Rightarrow> (string, nat) dict \<Rightarrow> (string, nat) dict" where
  "ap_of_device n d aps = (case snd d of ApDevice b \<Rightarrow> AList.update b n aps | _ \<Rightarrow> aps)"

definition ap_table :: "radio \<Rightarrow> (string, nat) dict" where
  "ap_table r = fold (\<lambda>n. fold (ap_of_device n) (List.enumerate 0 (devices r n))) (views r) []"

definition station_devices :: "wifi \<Rightarrow> (nat \<times> nat) list" where
  "station_devices st = map fst (stations st)"

lemma destroy_all:
  "let st' = fold (\<lambda>(_, _, l). destroy l) ss st in
     length (wlinks st') = length (wlinks st) \<and> ap_links st' = ap_links st \<and>
     (\<forall>m < length (wlinks st). wlinks st' ! m =
        (if m \<in> (\<lambda>(_, _, l). l) ` set ss then \<lparr>w_sta = None, w_ap = None, w_visible = False, w_line = None\<rparr>
         else wlinks st ! m))"
proof (induction ss arbitrary: st)
  case (Cons x ss)
  obtain d n l where x: "x = (d, n, l)" by (cases x) auto
  have "wlinks (destroy l st) ! m = (if m = l then \<lparr>w_sta = None, w_ap = None, w_visible = False, w_line = None\<rparr>
      else wlinks st ! m)" if "m < length (wlinks st)" for m
    using that by (auto simp: destroy_def change_link_def nth_list_update)
  with Cons [of "destroy l st"] show ?case by (auto simp: x Let_def destroy_def)
qed simp

lemma destroyed_ok:
  assumes ok: "wifi_ok st"
  shows "wifi_ok ((fold (\<lambda>(_, _, l). destroy l) (stations st) st)\<lparr>access_points := [], stations := []\<rparr>)"
    (is "wifi_ok (?st\<lparr>access_points := [], stations := []\<rparr>)")
proof -
  note d = destroy_all [of "stations st" st, unfolded Let_def]
  have "wlink_ok (?st\<lparr>access_points := [], stations := []\<rparr>) m" if "m < length (wlinks st)" for m
  proof -
    have "wlink_ok st m" using ok that by (simp add: wifi_ok_def)
    moreover have "live (?st\<lparr>access_points := [], stations := []\<rparr>) = {}" by (simp add: live_def)
    moreover have "wlinks ?st ! m = (if m \<in> live st
        then \<lparr>w_sta = None, w_ap = None, w_visible = False, w_line = None\<rparr> else wlinks st ! m)"
      using d that by (simp add: live_def)
    ultimately show ?thesis by (cases "m \<in> live st") (auto simp: wlink_ok_def drawn_def Let_def)
  qed
  with d ok show ?thesis by (simp add: wifi_ok_def)
qed

lemma scan_wifi_device_ok:
  assumes ok: "wifi_ok st"
  shows "\<exists>st'. scan_wifi_device r n st (i, d) = Inr st' \<and> wifi_ok st' \<and> ap_links st' = ap_links st \<and>
    station_devices st' = station_devices st @ sta_devices_of n [(i, d)] \<and>
    access_points st' = ap_of_device n (i, d) (access_points st)"
proof (cases d)
  case StaDevice
  let ?k = "\<lparr>w_sta = Some n, w_ap = None, w_visible = True, w_line = None\<rparr>" and ?l = "length (wlinks st)"
  let ?st = "st\<lparr>wlinks := wlinks st @ [?k], stations := stations st @ [((n, i), n, ?l)]\<rparr>"
  have scan: "scan_wifi_device r n st (i, d) = Inr ?st"
    by (simp add: scan_wifi_device_def StaDevice new_link_def set_ap_def)
  have bound: "\<forall>a. \<forall>l \<in> set (ap_links st a). l < ?l" and old: "l \<in> live st \<Longrightarrow> l < ?l" for l
    using ok live_sta [OF ok] by (auto simp: wifi_ok_def)
  have live: "live ?st = insert ?l (live st)" by (auto simp: live_def)
  have "wlink_ok ?st m" if "m < Suc ?l" for m
  proof (cases "m = ?l")
    case True
    have "count_list (ap_links st a) ?l = 0" for a using bound by (auto simp: count_list_0_iff)
    with True show ?thesis unfolding wlink_ok_def live by (simp add: drawn_def)
  next
    case False
    with that have "m < ?l" by simp
    with ok have "wlink_ok st m" by (simp add: wifi_ok_def)
    with \<open>m < ?l\<close> show ?thesis unfolding wlink_ok_def live by (auto simp: nth_append Let_def)
  qed
  moreover have "\<forall>(d, n, l) \<in> set (stations ?st). l < Suc ?l \<and> w_sta ((wlinks st @ [?k]) ! l) = Some n"
    using ok by (fastforce simp: wifi_ok_def nth_append)
  moreover have "?l \<notin> (\<lambda>(_, _, l). l) ` set (stations st)" using old [of ?l] unfolding live_def by blast
  ultimately have "wifi_ok ?st"
    using ok bound by (auto simp: wifi_ok_def less_Suc_eq)
  with scan show ?thesis by (simp add: StaDevice sta_devices_of_def station_devices_def ap_of_device_def)
next
  case (ApDevice b)
  with ok show ?thesis
    by (simp add: scan_wifi_device_def sta_devices_of_def station_devices_def ap_of_device_def wifi_ok_def wlink_ok_def live_def)
qed (use ok in \<open>simp_all add: scan_wifi_device_def sta_devices_of_def station_devices_def ap_of_device_def\<close>)

lemma scan_wifi_devices_ok:
  "wifi_ok st \<Longrightarrow> \<exists>st'. for_each (scan_wifi_device r n) ds st = Inr st' \<and> wifi_ok st' \<and> ap_links st' = ap_links st \<and>
    station_devices st' = station_devices st @ sta_devices_of n ds \<and>
    access_points st' = fold (ap_of_device n) ds (access_points st)"
proof (induction ds arbitrary: st)
  case (Cons d ds)
  obtain i k where d: "d = (i, k)" by fastforce
  from scan_wifi_device_ok [OF Cons.prems, of r n i k] obtain st1 where one:
    "scan_wifi_device r n st d = Inr st1" "wifi_ok st1" "ap_links st1 = ap_links st"
    "station_devices st1 = station_devices st @ sta_devices_of n [d]"
    "access_points st1 = ap_of_device n d (access_points st)" by (auto simp: d)
  from Cons.IH [OF one(2)] one show ?case by (auto simp: sta_devices_of_def)
qed (simp add: sta_devices_of_def)

lemma scan_wifi_nodes_ok:
  "wifi_ok st \<Longrightarrow> \<exists>st'. for_each (scan_wifi_node r) ns st = Inr st' \<and> wifi_ok st' \<and> ap_links st' = ap_links st \<and>
    station_devices st' = station_devices st @ concat (map (\<lambda>n. sta_devices_of n (List.enumerate 0 (devices r n))) ns) \<and>
    access_points st' = fold (\<lambda>n. fold (ap_of_device n) (List.enumerate 0 (devices r n))) ns (access_points st)"
proof (induction ns arbitrary: st)
  case (Cons n ns)
  from scan_wifi_devices_ok [OF Cons.prems, of r n "List.enumerate 0 (devices r n)"] obtain st1 where one:
    "scan_wifi_node r st n = Inr st1" "wifi_ok st1" "ap_links st1 = ap_links st"
    "station_devices st1 = station_devices st @ sta_devices_of n (List.enumerate 0 (devices r n))"
    "access_points st1 = fold (ap_of_device n) (List.enumerate 0 (devices r n)) (access_points st)"
    by (auto simp: scan_wifi_node_def)
  from Cons.IH [OF one(2)] one show ?case by auto
qed simp

lemma scan_nodes_ok:
  assumes "wifi_ok st"
  shows "\<exists>st'. scan_nodes r st = Inr st' \<and> wifi_ok st' \<and> ap_links st' = ap_links st \<and>
    station_devices st' = sta_devices r \<and> access_points st' = ap_table r"
  using scan_wifi_nodes_ok [OF destroyed_ok [OF assms], of r "views r"] destroy_all [of "stations st" st]
  by (auto simp: scan_nodes_def sta_devices_def ap_table_def station_devices_def Let_def)

section \<open>Every sequence of events\<close>

lemma periodic_step:
  assumes ok: "wifi_ok st" and step: "wifi_step (PeriodicUpdate r) st = (e, st')"
  shows "wifi_ok st'" "keeps st st'" "e = None \<or> e = Some KeyError"
    "e = None \<longleftrightarrow> (\<forall>(d, n, l) \<in> set (stations st). wanted_ap r (access_points st) d \<noteq> Inl KeyError)"
    "e = None \<Longrightarrow> (d, n, l) \<in> set (stations st) \<Longrightarrow> wanted_ap r (access_points st) d = Inr (w_ap (wlinks st' ! l))"
proof -
  have all: "periodic_wifi_update r (stations st) st = (e, st')" using step by (simp add: wifi_step_def)
  have "\<forall>(d, n, l) \<in> set (stations st). l \<in> live st" "distinct (map (\<lambda>(_, _, l). l) (stations st))"
    using ok by (auto simp: live_station wifi_ok_def)
  from periodic_ok [OF ok this, of r] obtain done' rest where
    p: "wifi_ok st'" "keeps st st'" "stations st = done' @ rest"
    "\<forall>(d, n, l) \<in> set done'. wanted_ap r (access_points st) d = Inr (w_ap (wlinks st' ! l))"
    "case rest of [] \<Rightarrow> e = None | (d, n, l) # _ \<Rightarrow> e = Some KeyError \<and> wanted_ap r (access_points st) d = Inl KeyError"
    unfolding all prod.case by blast
  show "wifi_ok st'" "keeps st st'" by fact+
  show "e = None \<or> e = Some KeyError" using p(5) by (auto split: list.splits)
  show "e = None \<longleftrightarrow> (\<forall>(d, n, l) \<in> set (stations st). wanted_ap r (access_points st) d \<noteq> Inl KeyError)"
    using p(3-5) by (cases rest) (fastforce, force)
  show "wanted_ap r (access_points st) d = Inr (w_ap (wlinks st' ! l))" if "e = None" "(d, n, l) \<in> set (stations st)"
    using that p(3-5) by (cases rest) auto
qed

lemma view_step:
  assumes ok: "wifi_ok st"
  shows "\<exists>st'. wifi_step (UpdateView pos) st = (None, st') \<and> wifi_ok st' \<and> keeps st st' \<and>
    (\<forall>(d, n, l) \<in> set (stations st). w_ap (wlinks st' ! l) = w_ap (wlinks st ! l) \<and>
       (\<forall>a. w_ap (wlinks st ! l) = Some a \<longrightarrow> w_line (wlinks st' ! l) = Some (pos n, pos a)))"
proof -
  have lens: "\<forall>l \<in> set (map (\<lambda>(_, _, l). l) (stations st)). l < length (wlinks st)"
    using ok by (auto simp: wifi_ok_def)
  have sta: "w_sta (wlinks st ! l) = Some n" if "(d, n, l) \<in> set (stations st)" for d n l
    using ok that by (auto simp: wifi_ok_def)
  from update_lines_ok [OF ok lens, of pos] obtain st' where st':
    "update_wifi_view pos st = Inr st'" "wifi_ok st'" "keeps st st'"
    "\<forall>m. w_ap (wlinks st' ! m) = w_ap (wlinks st ! m)"
    "\<forall>m \<in> set (map (\<lambda>(_, _, l). l) (stations st)). \<forall>s a. w_sta (wlinks st ! m) = Some s \<and> w_ap (wlinks st ! m) = Some a \<longrightarrow>
       w_line (wlinks st' ! m) = Some (pos s, pos a)"
    unfolding update_wifi_view_lines by blast
  have "w_line (wlinks st' ! l) = Some (pos n, pos a)"
    if "(d, n, l) \<in> set (stations st)" "w_ap (wlinks st ! l) = Some a" for d n l a
    using st'(5) sta [OF that(1)] that by force
  with st' show ?thesis by (auto simp: wifi_step_def)
qed

lemma wifi_step_ok:
  assumes ok: "wifi_ok st" and step: "wifi_step ev st = (e, st')"
  shows "wifi_ok st' \<and> (e = None \<or> e = Some KeyError)"
proof (cases ev)
  case (TopologyScanned r)
  with scan_nodes_ok [OF ok, of r] step show ?thesis by (auto simp: wifi_step_def)
next
  case (PeriodicUpdate r)
  with periodic_step [OF ok, of r e st'] step show ?thesis by simp
next
  case (UpdateView pos)
  with view_step [OF ok, of pos] step show ?thesis by auto
next
  case (NodeMoved n pos)
  have "\<forall>l \<in> set (ap_links st n). l < length (wlinks st)" using ok by (simp add: wifi_ok_def)
  with update_lines_ok [OF ok, of "ap_links st n" pos] NodeMoved step show ?thesis
    by (auto simp: wifi_step_def node_moved_def)
qed

lemma wifi_run_ok: "wifi_ok st \<Longrightarrow> wifi_run evs st = (es, st') \<Longrightarrow> wifi_ok st' \<and> set es \<subseteq> {KeyError}"
proof (induction evs arbitrary: st es)
  case (Cons ev evs)
  obtain e st1 where one: "wifi_step ev st = (e, st1)" by fastforce
  obtain es1 where two: "wifi_run evs st1 = (es1, st')" using Cons.prems(2) one by (auto split: prod.splits)
  from wifi_step_ok [OF Cons.prems(1) one] Cons.IH [OF _ two] one two Cons.prems(2) show ?case by auto
qed simp

text \<open>
  C32: The wireless links. After any sequence of scans, updates and movements of nodes the links are
  consistent: a line is drawn exactly for the stations that have an access point, and the link is
  in the list of exactly that node, once; the only exception that occurs is \<^verbatim>\<open>KeyError\<close>. A scan
  finds exactly the stations and access points. A periodic update fails exactly when an associated
  station has a BSSID that no access point in the picture has; otherwise it joins every station with
  the access point of its BSSID, or with none when it is not associated. The update of the view
  then draws the lines between the current positions.
\<close>

theorem wifi_links_correct:
  assumes "wifi_run evs start_wifi = (es, st)"
  shows "wifi_ok st \<and> set es \<subseteq> {KeyError} \<and>
    (\<exists>st'. wifi_step (TopologyScanned r) st = (None, st') \<and> station_devices st' = sta_devices r \<and>
       access_points st' = ap_table r) \<and>
    (\<forall>e st'. wifi_step (PeriodicUpdate r) st = (e, st') \<longrightarrow>
       (e = None \<longleftrightarrow> (\<forall>(d, n, l) \<in> set (stations st). wanted_ap r (access_points st) d \<noteq> Inl KeyError)) \<and>
       (e = None \<longrightarrow> (\<forall>(d, n, l) \<in> set (stations st). wanted_ap r (access_points st) d = Inr (w_ap (wlinks st' ! l))))) \<and>
    (\<exists>st'. wifi_step (UpdateView pos) st = (None, st') \<and>
       (\<forall>(d, n, l) \<in> set (stations st). w_ap (wlinks st' ! l) = w_ap (wlinks st ! l) \<and>
          (\<forall>a. w_ap (wlinks st ! l) = Some a \<longrightarrow> w_line (wlinks st' ! l) = Some (pos n, pos a))))"
proof -
  have ok: "wifi_ok st" "set es \<subseteq> {KeyError}" using wifi_run_ok [OF wifi_ok_start assms] by blast+
  moreover have "\<exists>st'. wifi_step (TopologyScanned r) st = (None, st') \<and> station_devices st' = sta_devices r \<and>
       access_points st' = ap_table r"
    using scan_nodes_ok [OF ok(1), of r] by (auto simp: wifi_step_def)
  moreover note view_step [OF ok(1), of pos]
  moreover have "\<forall>e st'. wifi_step (PeriodicUpdate r) st = (e, st') \<longrightarrow>
       (e = None \<longleftrightarrow> (\<forall>(d, n, l) \<in> set (stations st). wanted_ap r (access_points st) d \<noteq> Inl KeyError)) \<and>
       (e = None \<longrightarrow> (\<forall>(d, n, l) \<in> set (stations st). wanted_ap r (access_points st) d = Inr (w_ap (wlinks st' ! l))))"
    using periodic_step(4,5) [OF ok(1), of r] by fast
  ultimately show ?thesis by blast
qed

text \<open>A second scan destroys the links but leaves them in the lists of their access points.\<close>

lemma scan_keeps_destroyed_links:
  assumes "wifi_ok st" "l \<in> live st" "w_ap (wlinks st ! l) = Some a" "scan_nodes r st = Inr st'"
  shows "l \<in> set (ap_links st' a)"
proof -
  have "wlink_ok st l" using assms(1) live_sta [OF assms(1,2)] by (simp add: wifi_ok_def)
  then have "count_list (ap_links st a) l = 1" using assms(2,3) by (simp add: wlink_ok_def Let_def)
  moreover have "ap_links st' = ap_links st" using scan_nodes_ok [OF assms(1), of r] assms(4) by auto
  ultimately show ?thesis by (metis count_list_0_iff zero_neq_one)
qed

section \<open>Example\<close>

text \<open>Node 0 is a station, node 1 the access point; the station leaves for an unknown one.\<close>

definition demo_radio :: "string \<Rightarrow> radio" where
  "demo_radio b = \<lparr>views = [0, 1], devices = (\<lambda>n. if n = 0 then [NoWifi, StaDevice] else [ApDevice ''00:00:00:00:00:01'']),
     is_link_up = (\<lambda>_. True), bssid_of = (\<lambda>_. b), position_of = (\<lambda>n. (of_nat n, 0))\<rparr>"

definition demo_events :: "wifi_event list" where
  "demo_events = [TopologyScanned (demo_radio []), PeriodicUpdate (demo_radio ''00:00:00:00:00:01'')]"

lemma demo_wifi_run:
  "wifi_run demo_events start_wifi =
     ([], start_wifi\<lparr>wlinks := [\<lparr>w_sta = Some 0, w_ap = Some 1, w_visible = True, w_line = Some ((0, 0), (1, 0))\<rparr>],
       ap_links := (\<lambda>n. if n = 1 then [0] else []), access_points := [(''00:00:00:00:00:01'', 1)],
       stations := [((0, 1), 0, 0)]\<rparr>)"
  by (simp add: demo_events_def start_wifi_def demo_radio_def wifi_step_def scan_nodes_def scan_wifi_node_def
      scan_wifi_device_def new_link_def set_ap_def update_line_def change_link_def add_link_def wanted_ap_def
      dict_get_def Let_def fun_eq_iff)

theorem wifi_links_correct_witness:
  "\<exists>st. wifi_run demo_events start_wifi = ([], st) \<and> wifi_ok st \<and> drawn (wlinks st ! 0) \<and>
     fst (wifi_step (PeriodicUpdate (demo_radio ''00:00:00:00:00:02'')) st) = Some KeyError"
proof -
  obtain st where st: "wifi_run demo_events start_wifi = ([], st)" and k: "w_ap (wlinks st ! 0) = Some 1"
      "drawn (wlinks st ! 0)" "stations st = [((0, 1), 0, 0)]" "access_points st = [(''00:00:00:00:00:01'', 1)]"
    by (simp add: demo_wifi_run drawn_def)
  let ?r = "demo_radio ''00:00:00:00:00:02''"
  obtain e st' where step: "wifi_step (PeriodicUpdate ?r) st = (e, st')" by fastforce
  have "wanted_ap ?r (access_points st) (0, 1) = Inl KeyError"
    by (simp add: k wanted_ap_def demo_radio_def dict_get_def)
  with wifi_links_correct [OF st, of ?r "\<lambda>_. (0, 0)"] step k have "wifi_ok st" "e \<noteq> None" by auto
  with step k st periodic_step(3) [of st ?r e st'] show ?thesis by auto
qed

end
