(* ===== verification/VizTraffic.thy ===== *)
theory VizTraffic
  imports Prelude Complex_Main
begin

text \<open>
  The traffic shown by the visualizer, \<^verbatim>\<open>src/visualizer/visualizer/core.py\<close>: the window of the
  last samples (\<^verbatim>\<open>do_simulation_periodic_update\<close>), the averages over it, and the arrows that are
  drawn for them and reused from one update of the view to the next
  (\<^verbatim>\<open>_update_transmissions_view\<close>, \<^verbatim>\<open>_update_drops_view\<close>). A transmission has the pair of
  transmitter and receiver as its key, a drop the transmitter; the definitions are the same for both.
  Left out are the width of an arrow and the places of arrows and labels.
\<close>

section \<open>The window of samples\<close>

type_synonym 'k sample_set = "('k \<times> int) list"

text \<open>\<^verbatim>\<open>while len(window) > smooth_factor: window.pop(0)\<close>\<close>

fun trim_window :: "int \<Rightarrow> 'a list \<Rightarrow> 'a list" where
  "trim_window smooth_factor [] = []"
| "trim_window smooth_factor (x # xs) =
     (if int (length (x # xs)) > smooth_factor then trim_window smooth_factor xs else x # xs)"

definition smooth_factor_of :: "rat \<Rightarrow> int" where
  "smooth_factor_of adjustment = \<lfloor>adjustment * 10\<rfloor>"

definition periodic_update :: "rat \<Rightarrow> 'k sample_set \<Rightarrow> 'k sample_set list \<Rightarrow> 'k sample_set list" where
  "periodic_update adjustment samples window = trim_window (smooth_factor_of adjustment) (window @ [samples])"

section \<open>Averages\<close>

definition add_sample :: "'k \<times> int \<Rightarrow> ('k, int \<times> nat) dict \<Rightarrow> ('k, int \<times> nat) dict" where
  "add_sample smp d =
     (case smp of (key, b) \<Rightarrow>
        (case map_of d key of
           None \<Rightarrow> AList.update key (0 + b, 0 + 1) d
         | Some (rx_bytes, n) \<Rightarrow> AList.update key (rx_bytes + b, n + 1) d))"

definition averages :: "'k sample_set list \<Rightarrow> ('k, int \<times> nat) dict" where
  "averages window = fold (\<lambda>samples d. fold add_sample samples d) window []"

definition kbps :: "rat \<Rightarrow> int \<Rightarrow> nat \<Rightarrow> rat" where
  "kbps sample_period rx_bytes rx_count = of_int (rx_bytes * 8) / 1000 / of_nat rx_count / sample_period"

section \<open>Arrows\<close>

record 'k arrow =
  arrow_id :: nat
  arrow_visible :: bool
  arrow_key :: "'k option"
  arrow_kbps :: rat

definition new_arrow :: "nat \<Rightarrow> 'k arrow" where
  "new_arrow i = \<lparr>arrow_id = i, arrow_visible = True, arrow_key = None, arrow_kbps = 0\<rparr>"

definition hide :: "'k arrow \<Rightarrow> 'k arrow" where
  "hide a = a\<lparr>arrow_visible := False\<rparr>"

text \<open>\<^verbatim>\<open>old_arrows.pop()\<close>, or a new arrow when the list is empty\<close>

definition take_arrow :: "'k arrow list \<Rightarrow> nat \<Rightarrow> 'k arrow \<times> 'k arrow list \<times> nat" where
  "take_arrow old next_id = (if old = [] then (new_arrow next_id, [], Suc next_id) else (last old, butlast old, next_id))"

text \<open>The loop over the averages; the logarithm for the width raises \<^verbatim>\<open>ValueError\<close> at zero.\<close>

fun draw_arrows :: "rat \<Rightarrow> ('k \<times> int \<times> nat) list \<Rightarrow> 'k arrow list \<Rightarrow> 'k arrow list \<Rightarrow> nat \<Rightarrow> ('k arrow list \<times> nat) result" where
  "draw_arrows sample_period [] new old next_id = Inr (new @ old, next_id)"
| "draw_arrows sample_period ((key, rx_bytes, rx_count) # items) new old next_id =
     (case take_arrow old next_id of
        (arrow, old, next_id) \<Rightarrow>
          if rx_bytes \<le> 0 then Inl ValueError
          else
            let arrow = arrow\<lparr>arrow_visible := True, arrow_key := Some key, arrow_kbps := kbps sample_period rx_bytes rx_count\<rparr>
            in draw_arrows sample_period items (new @ [arrow]) old next_id)"

definition update_transmissions_view :: "rat \<Rightarrow> 'k sample_set list \<Rightarrow> 'k arrow list \<times> nat \<Rightarrow> ('k arrow list \<times> nat) result" where
  "update_transmissions_view sample_period window st =
     (case st of (arrows, next_id) \<Rightarrow> draw_arrows sample_period (averages window) [] (map hide arrows) next_id)"

section \<open>What is shown\<close>

lemma trim_window_last:
  assumes "0 \<le> k"
  shows "trim_window k xs = drop (length xs - nat k) xs"
  using assms by (induction xs) (auto simp: Suc_diff_le)

text \<open>The samples of a key, and the window as one list.\<close>

definition bytes_of :: "'k \<Rightarrow> 'k sample_set list \<Rightarrow> int list" where
  "bytes_of key window = map snd (filter (\<lambda>x. fst x = key) (concat window))"

lemma averages_concat: "averages window = fold add_sample (concat window) []"
proof -
  have "fold (\<lambda>samples d. fold add_sample samples d) window d = fold add_sample (concat window) d" for d
    by (induction window arbitrary: d) simp_all
  then show ?thesis by (simp add: averages_def)
qed

lemma add_sample_lookup:
  "map_of (add_sample (k, b) d) x =
    (if x = k then Some (case map_of d k of None \<Rightarrow> (b, 1) | Some (t, c) \<Rightarrow> (t + b, c + 1)) else map_of d x)"
  by (auto simp: add_sample_def split: option.splits)

lemma fold_add_sample_lookup:
  "map_of (fold add_sample xs d) key =
    (let bs = map snd (filter (\<lambda>x. fst x = key) xs) in
     case map_of d key of
       None \<Rightarrow> if bs = [] then None else Some (sum_list bs, length bs)
     | Some (t, c) \<Rightarrow> Some (t + sum_list bs, c + length bs))"
proof (induction xs arbitrary: d)
  case (Cons x xs)
  obtain k b where "x = (k, b)" by fastforce
  with Cons [of "add_sample x d"] show ?case by (auto simp: add_sample_lookup Let_def split: option.splits)
qed (simp split: option.splits)

lemma averages_lookup:
  "map_of (averages window) key =
    (let bs = bytes_of key window in if bs = [] then None else Some (sum_list bs, length bs))"
  by (simp add: averages_concat fold_add_sample_lookup bytes_of_def)

lemma averages_ok:
  fixes window :: "'k sample_set list"
  shows "dict_ok (averages window)"
proof -
  have "dict_ok d \<Longrightarrow> dict_ok (fold add_sample xs d)" for xs and d :: "('k, int \<times> nat) dict"
    by (induction xs arbitrary: d) (auto simp: add_sample_def split: option.splits prod.splits)
  then show ?thesis by (simp add: averages_concat)
qed

definition arrow_data :: "'k arrow \<Rightarrow> bool \<times> 'k option \<times> rat" where
  "arrow_data a = (arrow_visible a, arrow_key a, arrow_kbps a)"

lemma arrow_data_set [simp]: "arrow_data (a\<lparr>arrow_visible := v, arrow_key := k, arrow_kbps := r\<rparr>) = (v, k, r)"
  by (simp add: arrow_data_def)

text \<open>
  The loop draws one arrow per average, leaves the first of the old arrows untouched and takes the
  others, and creates only as many as are missing.
\<close>

lemma draw_arrows_result:
  assumes "list_all (\<lambda>(key, b, c). 0 < b) items"
  shows "\<exists>drawn. draw_arrows p items new old n =
      Inr (new @ drawn @ take (length old - length items) old, n + (length items - length old)) \<and>
    map arrow_data drawn = map (\<lambda>(key, b, c). (True, Some key, kbps p b c)) items \<and>
    mset (map arrow_id drawn) + mset (map arrow_id (take (length old - length items) old)) =
      mset (map arrow_id old) + mset [n..<n + (length items - length old)]"
  using assms
proof (induction items arbitrary: new old n)
  case (Cons item items)
  obtain key b c where item: "item = (key, b, c)" by (cases item) auto
  have items: "list_all (\<lambda>(key, b, c). 0 < b) items" and b: "0 < b" using Cons.prems item by auto
  let ?set = "\<lambda>a. a\<lparr>arrow_visible := True, arrow_key := Some key, arrow_kbps := kbps p b c\<rparr>"
  show ?case
  proof (cases "old = []")
    case True
    let ?a = "?set (new_arrow n)"
    from Cons.IH [OF items, of "new @ [?a]" "[]" "Suc n"] obtain drawn where d:
      "draw_arrows p items (new @ [?a]) [] (Suc n) = Inr ((new @ [?a]) @ drawn, Suc n + length items)"
      "map arrow_data drawn = map (\<lambda>(key, b, c). (True, Some key, kbps p b c)) items"
      "mset (map arrow_id drawn) = mset [Suc n..<Suc n + length items]" by auto
    have "[n..<n + length (item # items)] = n # [Suc n..<Suc n + length items]"
      by (simp add: upt_conv_Cons del: upt_Suc)
    then show ?thesis
      using True d b item by (intro exI [of _ "?a # drawn"])
        (simp add: take_arrow_def del: upt_Suc, simp add: new_arrow_def)
  next
    case False
    let ?a = "?set (last old)"
    from Cons.IH [OF items, of "new @ [?a]" "butlast old" n] obtain drawn where d:
      "draw_arrows p items (new @ [?a]) (butlast old) n =
         Inr ((new @ [?a]) @ drawn @ take (length (butlast old) - length items) (butlast old), n + (length items - length (butlast old)))"
      "map arrow_data drawn = map (\<lambda>(key, b, c). (True, Some key, kbps p b c)) items"
      "mset (map arrow_id drawn) + mset (map arrow_id (take (length (butlast old) - length items) (butlast old))) =
         mset (map arrow_id (butlast old)) + mset [n..<n + (length items - length (butlast old))]" by blast
    have len: "length (butlast old) - length items = length old - length (item # items)"
      "length items - length (butlast old) = length (item # items) - length old" using False by (cases old rule: rev_cases; simp)+
    have "take (length old - length (item # items)) (butlast old) = take (length old - length (item # items)) old"
      using False by (cases old rule: rev_cases) simp_all
    moreover have "mset (map arrow_id old) = add_mset (arrow_id (last old)) (mset (map arrow_id (butlast old)))"
      using False by (cases old rule: rev_cases) simp_all
    ultimately show ?thesis
      using False d b item unfolding len by (intro exI [of _ "?a # drawn"]) (simp add: take_arrow_def)
  qed
qed simp

lemma drop_window:
  "drop (length (drop (length w - k) w) + length h - k) (drop (length w - k) w @ h) = drop (length w + length h - k) (w @ h)"
proof (cases "length w \<le> k")
  case False
  then have "length w + length h - k = length h + (length w - k)" by simp
  then have "drop (length w + length h - k) (w @ h) = drop (length h) (drop (length w - k) (w @ h))"
    by (simp only: drop_drop)
  with False show ?thesis by simp
qed simp

lemma window_of_history:
  assumes "0 < smooth_factor_of adj"
  shows "fold (periodic_update adj) hist w = (if hist = [] then w else
    drop (length w + length hist - nat (smooth_factor_of adj)) (w @ hist))"
proof (induction hist arbitrary: w)
  case (Cons x hist)
  let ?k = "nat (smooth_factor_of adj)"
  have w: "periodic_update adj x w = drop (length (w @ [x]) - ?k) (w @ [x])"
    using assms by (simp add: periodic_update_def trim_window_last)
  show ?case
  proof (cases "hist = []")
    case True
    with w show ?thesis by simp
  next
    case False
    then show ?thesis
      using Cons.IH [of "periodic_update adj x w"] drop_window [of "w @ [x]" ?k hist] by (simp add: w)
  qed
qed simp

lemma sum_list_pos: "xs \<noteq> [] \<Longrightarrow> \<forall>x\<in>set xs. 0 < x \<Longrightarrow> 0 < sum_list (xs :: int list)"
  by (induction xs rule: list_nonempty_induct) auto

lemma positive_averages:
  assumes "list_all (list_all (\<lambda>(key, b). 0 < b)) window"
  shows "list_all (\<lambda>(key, b, c). 0 < b) (averages window)"
proof -
  have "0 < b" if "(key, b, c) \<in> set (averages window)" for key b c
  proof -
    have "map_of (averages window) key = Some (b, c)"
      using averages_ok [of window] that by (simp add: dict_ok_def dict_keys_def)
    then have b: "bytes_of key window \<noteq> []" "b = sum_list (bytes_of key window)"
      by (auto simp: averages_lookup Let_def split: if_splits)
    have "\<forall>x\<in>set (bytes_of key window). 0 < x" using assms by (fastforce simp: bytes_of_def list_all_iff)
    with b show ?thesis by (simp add: sum_list_pos)
  qed
  then show ?thesis by (auto simp: list_all_iff)
qed

lemma drawn_of_key:
  "map arrow_data drawn = map (\<lambda>(key, b, c). (True, Some key, kbps p b c)) items \<Longrightarrow>
   map arrow_kbps (filter (\<lambda>a. arrow_visible a \<and> arrow_key a = Some key) drawn) =
   map (\<lambda>(key, b, c). kbps p b c) (filter (\<lambda>item. fst item = key) items)"
proof (induction items arbitrary: drawn)
  case (Cons item items)
  then obtain a rest where "drawn = a # rest" by (cases drawn) auto
  with Cons show ?case by (cases item) (auto simp: arrow_data_def)
qed simp

lemma filter_dict: "dict_ok d \<Longrightarrow> filter (\<lambda>item. fst item = key) d = (case map_of d key of None \<Rightarrow> [] | Some v \<Rightarrow> [(key, v)])"
proof (induction d)
  case (Cons x d)
  have "fst x \<notin> set (map fst d)" using Cons.prems by (simp add: dict_ok_def dict_keys_def)
  then have "filter (\<lambda>item. fst item = fst x) d = []" by (simp add: filter_empty_conv) (metis image_eqI)
  with Cons show ?case by (cases x) (auto simp: dict_ok_def dict_keys_def)
qed simp

text \<open>
  C38: The traffic in the picture. With samples of a positive number of bytes, after any
  history of simulation periods the window holds the last sample sets, as many as the smoothing
  asks for. The update of the view then shows exactly one arrow for each pair with a sample in
  the window, with the average of its samples as the rate, and hides all others. No arrow is lost:
  the old ones stay in the list, and new ones are made only when there are not enough.
\<close>

theorem traffic_shown:
  fixes hist :: "'k sample_set list"
  assumes "1 / 10 \<le> adj" "list_all (list_all (\<lambda>(key, b). 0 < b)) hist"
  shows "let window = fold (periodic_update adj) hist [] in
    window = drop (length hist - nat (smooth_factor_of adj)) hist \<and>
    (\<exists>arrows' next'. update_transmissions_view p window (arrows, next) = Inr (arrows', next') \<and>
       length arrows' = max (length arrows) (length (averages window)) \<and>
       mset (map arrow_id arrows') = mset (map arrow_id arrows) + mset [next..<next'] \<and>
       (\<forall>key. map arrow_kbps (filter (\<lambda>a. arrow_visible a \<and> arrow_key a = Some key) arrows') =
          (let bs = bytes_of key window in if bs = [] then [] else [kbps p (sum_list bs) (length bs)])))"
proof -
  have k: "0 < smooth_factor_of adj" using assms(1) by (simp add: smooth_factor_of_def)
  define window where "window = fold (periodic_update adj) hist []"
  have w: "window = drop (length hist - nat (smooth_factor_of adj)) hist"
    using window_of_history [OF k, of hist "[]"] by (simp add: window_def)
  have "list_all (list_all (\<lambda>(key, b). 0 < b)) window"
    using assms(2) unfolding w by (auto simp: list_all_iff dest: in_set_dropD)
  from draw_arrows_result [OF positive_averages [OF this], of p "[]" "map hide arrows" "next"]
  obtain drawn where d: "draw_arrows p (averages window) [] (map hide arrows) next =
      Inr (drawn @ take (length arrows - length (averages window)) (map hide arrows), next + (length (averages window) - length arrows))"
    "map arrow_data drawn = map (\<lambda>(key, b, c). (True, Some key, kbps p b c)) (averages window)"
    "mset (map arrow_id drawn) + mset (map arrow_id (take (length arrows - length (averages window)) (map hide arrows))) =
       mset (map arrow_id (map hide arrows)) + mset [next..<next + (length (averages window) - length arrows)]" by auto
  let ?rest = "take (length arrows - length (averages window)) (map hide arrows)"
  have hidden: "filter (\<lambda>a. arrow_visible a \<and> arrow_key a = Some key) ?rest = []" for key
    using in_set_takeD [of _ _ "map hide arrows"] by (fastforce simp: filter_empty_conv hide_def)
  have "length drawn = length (averages window)" using d(2) by (metis length_map)
  then have "length (drawn @ ?rest) = max (length arrows) (length (averages window))" by simp
  moreover have "mset (map arrow_id (drawn @ ?rest)) = mset (map arrow_id arrows) + mset [next..<next + (length (averages window) - length arrows)]"
    using d(3) by (simp add: hide_def comp_def)
  moreover have "map arrow_kbps (filter (\<lambda>a. arrow_visible a \<and> arrow_key a = Some key) (drawn @ ?rest)) =
      (let bs = bytes_of key window in if bs = [] then [] else [kbps p (sum_list bs) (length bs)])" for key
    using drawn_of_key [OF d(2), of key] hidden [of key] filter_dict [OF averages_ok, of key window]
    by (auto simp: averages_lookup Let_def)
  ultimately show ?thesis using w d(1) unfolding window_def [symmetric] update_transmissions_view_def by (auto simp: Let_def)
qed

theorem traffic_shown_witness:
  "\<exists>arrows' next'. update_transmissions_view (1 / 10) (fold (periodic_update (2 / 10)) [[((0 :: nat, 1 :: nat), 99)], [((0, 1), 20)], [((0, 1), 30)]] [])
     ([], 0) = Inr (arrows', next') \<and> length arrows' = max 0 1 \<and>
     map arrow_kbps (filter (\<lambda>a. arrow_visible a \<and> arrow_key a = Some (0, 1)) arrows') = [2]"
proof -
  let ?h = "[[((0 :: nat, 1 :: nat), 99)], [((0, 1), 20)], [((0, 1), 30)]] :: (nat \<times> nat) sample_set list"
  let ?w = "fold (periodic_update (2 / 10)) ?h []"
  have w: "?w = [[((0, 1), 20)], [((0, 1), 30)]]" by (simp add: periodic_update_def smooth_factor_of_def)
  have h: "1 / 10 \<le> (2 / 10 :: rat)" "list_all (list_all (\<lambda>(key, b). 0 < b)) ?h" by simp_all
  from traffic_shown [OF h, of "1 / 10" "[]" 0] obtain arrows' next' where
    "update_transmissions_view (1 / 10) ?w ([], 0) = Inr (arrows', next')"
    "length arrows' = max (length ([] :: (nat \<times> nat) arrow list)) (length (averages ?w))"
    "map arrow_kbps (filter (\<lambda>a. arrow_visible a \<and> arrow_key a = Some (0, 1)) arrows') =
       (if bytes_of (0, 1) ?w = [] then [] else [kbps (1 / 10) (sum_list (bytes_of (0, 1) ?w)) (length (bytes_of (0, 1) ?w))])"
    unfolding Let_def by (elim conjE exE) (drule spec [of _ "(0, 1)"], rule that)
  then show ?thesis unfolding w
    by (intro exI [of _ arrows'] exI [of _ next']) (simp add: bytes_of_def kbps_def averages_def add_sample_def)
qed

end
