(* ===== verification/VizStats.thy ===== *)
theory VizStats
  imports VizTraffic
begin

text \<open>
  \<^verbatim>\<open>src/visualizer/visualizer/plugins/interface_statistics.py\<close>: the plugin that keeps the last
  ten counters of every network interface (\<open>collect\<close>), computes rates from the oldest and the
  newest (\<open>get_interface_statistics\<close>) and shows them in a table (\<open>update_table\<close>). Counters are
  integers, rates and times rational numbers; the reports of the simulator, the names of the
  interfaces and the text of a rate are parameters. The lemmas show which reports the collector
  holds after any history, the rates it computes and when they are the true ones.
\<close>

section \<open>The collector\<close>

record if_stats =
  transmittedPackets :: int
  transmittedBytes :: int
  receivedPackets :: int
  receivedBytes :: int

type_synonym report = "(nat \<times> if_stats list) list"

type_synonym collector = "(nat, if_stats list list) dict"

definition NODE_STATISTICS_MEMORY :: nat where
  "NODE_STATISTICS_MEMORY = 10"

definition collect_node :: "nat \<times> if_stats list \<Rightarrow> collector \<Rightarrow> collector" where
  "collect_node stats d =
     (case stats of (nodeId, statistics) \<Rightarrow>
        let raw_stats_list = (case map_of d nodeId of None \<Rightarrow> [] | Some l \<Rightarrow> l)
        in AList.update nodeId (trim_window (int NODE_STATISTICS_MEMORY) (raw_stats_list @ [statistics])) d)"

text \<open>\<^verbatim>\<open>simulation_periodic_update\<close>\<close>

definition collect :: "report \<Rightarrow> collector \<Rightarrow> collector" where
  "collect nodes_statistics d = fold collect_node nodes_statistics d"

section \<open>Rates\<close>

record NetDevStats =
  txPackets :: int
  txBytes :: int
  rxPackets :: int
  rxBytes :: int
  txPacketRate :: rat
  rxPacketRate :: rat
  txBitRate :: rat
  rxBitRate :: rat

definition py_ratio :: "int \<Rightarrow> rat \<Rightarrow> rat result" where
  "py_ratio n k = (if k = 0 then Inl ZeroDivisionError else Inr (of_int n / k))"

definition out_stat :: "rat \<Rightarrow> if_stats list \<Rightarrow> nat \<times> if_stats \<Rightarrow> NetDevStats result" where
  "out_stat k first entry =
     (case entry of (iface, stats) \<Rightarrow>
        rbind (py_index (map transmittedPackets first) (int iface)) (\<lambda>tp.
        rbind (py_ratio (transmittedPackets stats - tp) k) (\<lambda>tpr.
        rbind (py_index (map receivedPackets first) (int iface)) (\<lambda>rp.
        rbind (py_ratio (receivedPackets stats - rp) k) (\<lambda>rpr.
        rbind (py_index (map transmittedBytes first) (int iface)) (\<lambda>tb.
        rbind (py_ratio ((transmittedBytes stats - tb) * 8) k) (\<lambda>tbr.
        rbind (py_index (map receivedBytes first) (int iface)) (\<lambda>rb.
        rbind (py_ratio ((receivedBytes stats - rb) * 8) k) (\<lambda>rbr.
          Inr \<lparr>txPackets = transmittedPackets stats, txBytes = transmittedBytes stats,
               rxPackets = receivedPackets stats, rxBytes = receivedBytes stats,
               txPacketRate = tpr, rxPacketRate = rpr, txBitRate = tbr, rxBitRate = rbr\<rparr>)))))))))"

definition get_interface_statistics :: "rat \<Rightarrow> nat \<Rightarrow> collector \<Rightarrow> NetDevStats list result" where
  "get_interface_statistics sample_period nodeId d =
     (case map_of d nodeId of
        None \<Rightarrow> Inr []
      | Some raw_stats_list \<Rightarrow>
          if length raw_stats_list < NODE_STATISTICS_MEMORY then Inr []
          else py_assert (length raw_stats_list = NODE_STATISTICS_MEMORY)
            (let k = sample_period * of_nat (NODE_STATISTICS_MEMORY - 1)
             in map_res (out_stat k (hd raw_stats_list)) (List.enumerate 0 (last raw_stats_list))))"

section \<open>The table\<close>

definition interface_name :: "(nat \<Rightarrow> string) \<Rightarrow> nat \<Rightarrow> string" where
  "interface_name find_name iface =
     (let s = find_name iface in if s = [] then ''(interface '' @ show_nat iface @ '')'' else s)"

definition table_row :: "(nat \<Rightarrow> string) \<Rightarrow> (rat \<Rightarrow> string) \<Rightarrow> nat \<times> NetDevStats \<Rightarrow> string list" where
  "table_row find_name show_rate entry =
     (case entry of (iface, s) \<Rightarrow>
        [interface_name find_name iface,
         show_int (txPackets s), show_int (txBytes s), show_rate (txPacketRate s), show_rate (txBitRate s),
         show_int (rxPackets s), show_int (rxBytes s), show_rate (rxPacketRate s), show_rate (rxBitRate s)])"

text \<open>The rows are cleared after the statistics have been computed.\<close>

definition update_table ::
    "(nat \<Rightarrow> string) \<Rightarrow> (rat \<Rightarrow> string) \<Rightarrow> rat \<Rightarrow> nat \<Rightarrow> collector \<Rightarrow> string list list \<Rightarrow> py_error option \<times> string list list" where
  "update_table find_name show_rate sample_period node_index d rows =
     (case get_interface_statistics sample_period node_index d of
        Inl e \<Rightarrow> (Some e, rows)
      | Inr stats_list \<Rightarrow>
          (None, map (table_row find_name show_rate) (List.enumerate 0 stats_list)))"

section \<open>What the collector holds\<close>

text \<open>All the reports of one node in a history of updates.\<close>

definition reports :: "nat \<Rightarrow> report list \<Rightarrow> if_stats list list" where
  "reports nodeId hs = map snd (filter (\<lambda>e. fst e = nodeId) (concat hs))"

definition last_n :: "nat \<Rightarrow> 'a list \<Rightarrow> 'a list" where
  "last_n n xs = drop (length xs - n) xs"

lemma last_n_snoc: "last_n n (last_n n xs @ [x]) = last_n n (xs @ [x])" if "0 < n"
  using that by (cases "n \<le> length xs") (simp_all add: last_n_def Suc_diff_le)

lemma length_last_n [simp]: "length (last_n n xs) = min n (length xs)"
  by (simp add: last_n_def)

lemma last_n_last: "0 < n \<Longrightarrow> xs \<noteq> [] \<Longrightarrow> last (last_n n xs) = last xs"
  by (simp add: last_n_def)

lemma last_n_hd: "n \<le> length xs \<Longrightarrow> 0 < n \<Longrightarrow> hd (last_n n xs) = xs ! (length xs - n)"
  by (simp add: last_n_def hd_drop_conv_nth)

text \<open>The collector holds for each node its last ten reports.\<close>

definition holds :: "(nat \<times> if_stats list) list \<Rightarrow> collector \<Rightarrow> bool" where
  "holds es d \<longleftrightarrow>
     (\<forall>i. let rs = map snd (filter (\<lambda>e. fst e = i) es)
          in map_of d i = (if rs = [] then None else Some (last_n NODE_STATISTICS_MEMORY rs)))"

lemma holds_step: "holds es d \<Longrightarrow> holds (es @ [e]) (collect_node e d)"
proof -
  assume h: "holds es d"
  obtain i st where e: "e = (i, st)" by fastforce
  have t: "trim_window (int NODE_STATISTICS_MEMORY) xs = last_n NODE_STATISTICS_MEMORY xs" for xs :: "if_stats list list"
    by (simp add: trim_window_last last_n_def)
  have "0 < NODE_STATISTICS_MEMORY" by (simp add: NODE_STATISTICS_MEMORY_def)
  note sn = last_n_snoc [OF this]
  have "map_of d i = (if map snd (filter (\<lambda>e. fst e = i) es) = [] then None
      else Some (last_n NODE_STATISTICS_MEMORY (map snd (filter (\<lambda>e. fst e = i) es))))"
    using h by (simp add: holds_def Let_def)
  then have "trim_window (int NODE_STATISTICS_MEMORY) ((case map_of d i of None \<Rightarrow> [] | Some l \<Rightarrow> l) @ [st]) =
      last_n NODE_STATISTICS_MEMORY (map snd (filter (\<lambda>e. fst e = i) es) @ [st])"
    by (auto simp: t sn)
  with h show ?thesis by (auto simp: holds_def collect_node_def e Let_def update_conv')
qed

lemma holds_collect: "holds es d \<Longrightarrow> holds (es @ concat hs) (fold collect hs d)"
proof (induction hs arbitrary: es d)
  case (Cons h hs)
  have "holds (es @ h) (fold collect_node h d)" using \<open>holds es d\<close>
  proof (induction h arbitrary: es d)
    case (Cons e h)
    from Cons.IH [OF holds_step [OF Cons.prems, of e]] show ?case by simp
  qed simp
  from Cons.IH [OF this] show ?case by (simp add: collect_def)
qed simp

lemma collector_content:
  "map_of (fold collect hs []) i =
     (if reports i hs = [] then None else Some (last_n NODE_STATISTICS_MEMORY (reports i hs)))"
  using holds_collect [of "[]" "[]" hs] by (simp add: holds_def reports_def Let_def)

section \<open>The rates\<close>

definition rates :: "rat \<Rightarrow> if_stats \<Rightarrow> if_stats \<Rightarrow> NetDevStats" where
  "rates t old new =
     \<lparr>txPackets = transmittedPackets new, txBytes = transmittedBytes new,
      rxPackets = receivedPackets new, rxBytes = receivedBytes new,
      txPacketRate = of_int (transmittedPackets new - transmittedPackets old) / t,
      rxPacketRate = of_int (receivedPackets new - receivedPackets old) / t,
      txBitRate = of_int ((transmittedBytes new - transmittedBytes old) * 8) / t,
      rxBitRate = of_int ((receivedBytes new - receivedBytes old) * 8) / t\<rparr>"

lemma out_stat_value:
  "k \<noteq> 0 \<Longrightarrow> out_stat k first (i, st) = (if i < length first then Inr (rates k (first ! i) st) else Inl IndexError)"
  by (simp add: out_stat_def py_index_def py_ratio_def rates_def)

lemma out_stats_value:
  assumes "k \<noteq> 0"
  shows "map_res (out_stat k first) (List.enumerate n xs) =
    (if xs = [] \<or> n + length xs \<le> length first then Inr (map2 (rates k) (drop n first) xs) else Inl IndexError)"
proof (induction xs arbitrary: n)
  case (Cons x xs)
  show ?case
  proof (cases "n < length first")
    case True
    with Cons [of "Suc n"] out_stat_value [OF assms, of first n x] show ?thesis
      by (auto simp: Cons_nth_drop_Suc [symmetric])
  next
    case False
    with out_stat_value [OF assms, of first n x] show ?thesis by simp
  qed
qed simp

text \<open>
  The statistics of a node after any history of updates. As long as it was reported less
  than ten times there are none. Then there is one entry per interface, with the newest counters and with the
  differences to the counters nine reports earlier divided by nine sample periods; but when an interface
  has been added since then, \<^verbatim>\<open>IndexError\<close> is raised. For a counter that grows at a constant rate the rate
  shown is the true one exactly when the ten reports span nine of the current sample periods,
  so it is wrong after a change of the speed until the next ten reports.
\<close>

theorem interface_statistics_correct:
  assumes "0 < sample_period" "rs = reports node hs" "n = length rs"
  shows "get_interface_statistics sample_period node (fold collect hs []) =
      (if n < 10 then Inr []
       else if length (last rs) \<le> length (rs ! (n - 10))
       then Inr (map2 (rates (9 * sample_period)) (rs ! (n - 10)) (last rs))
       else Inl IndexError) \<and>
    (\<forall>i c v t0 t1. v \<noteq> 0 \<and> of_int (transmittedBytes (rs ! (n - 10) ! i)) = c + v * t0 \<and>
       of_int (transmittedBytes (last rs ! i)) = c + v * t1 \<longrightarrow>
       (txBitRate (rates (9 * sample_period) (rs ! (n - 10) ! i) (last rs ! i)) = 8 * v \<longleftrightarrow>
        t1 - t0 = 9 * sample_period))"
proof (intro conjI allI impI)
  have k: "sample_period * of_nat (NODE_STATISTICS_MEMORY - 1) = 9 * sample_period" "9 * sample_period \<noteq> 0"
    using assms(1) by (simp_all add: NODE_STATISTICS_MEMORY_def)
  show "get_interface_statistics sample_period node (fold collect hs []) =
      (if n < 10 then Inr []
       else if length (last rs) \<le> length (rs ! (n - 10))
       then Inr (map2 (rates (9 * sample_period)) (rs ! (n - 10)) (last rs))
       else Inl IndexError)"
  proof (cases "n < 10")
    case True
    then show ?thesis
      by (auto simp: get_interface_statistics_def collector_content assms(2,3) NODE_STATISTICS_MEMORY_def)
  next
    case False
    then have "rs \<noteq> []" "10 \<le> length rs" using assms(3) by auto
    then have "get_interface_statistics sample_period node (fold collect hs []) =
        map_res (out_stat (9 * sample_period) (rs ! (length rs - 10))) (List.enumerate 0 (last rs))"
      using k last_n_hd [of 10 rs] last_n_last [of 10 rs]
      by (simp add: get_interface_statistics_def collector_content assms(2) NODE_STATISTICS_MEMORY_def
          py_assert_def Let_def mult.commute)
    with False out_stats_value [OF k(2), of "rs ! (n - 10)" 0 "last rs"] show ?thesis
      by (auto simp: assms(3))
  qed
next
  fix i and c v t0 t1 :: rat
  assume a: "v \<noteq> 0 \<and> of_int (transmittedBytes (rs ! (n - 10) ! i)) = c + v * t0 \<and>
       of_int (transmittedBytes (last rs ! i)) = c + v * t1"
  have "txBitRate (rates (9 * sample_period) (rs ! (n - 10) ! i) (last rs ! i)) =
      8 * v * (t1 - t0) / (9 * sample_period)"
    using a by (simp add: rates_def algebra_simps)
  also have "\<dots> = 8 * v \<longleftrightarrow> 8 * v * (t1 - t0) = 8 * v * (9 * sample_period)"
    using assms(1) by (simp add: divide_eq_eq)
  also have "\<dots> \<longleftrightarrow> t1 - t0 = 9 * sample_period" by (rule mult_left_cancel) (use a in simp)
  finally show "txBitRate (rates (9 * sample_period) (rs ! (n - 10) ! i) (last rs ! i)) = 8 * v \<longleftrightarrow>
        t1 - t0 = 9 * sample_period" .
qed

section \<open>Examples\<close>

text \<open>One interface that sends 100 bytes per second; the period was 1 second and is then doubled.\<close>

definition demo_report :: "int \<Rightarrow> report" where
  "demo_report t = [(7, [\<lparr>transmittedPackets = t, transmittedBytes = 100 * t, receivedPackets = 0, receivedBytes = 0\<rparr>])]"

theorem interface_statistics_correct_witness:
  "get_interface_statistics 1 7 (fold collect (map demo_report [0..9]) []) =
     Inr [\<lparr>txPackets = 9, txBytes = 900, rxPackets = 0, rxBytes = 0,
          txPacketRate = 1, rxPacketRate = 0, txBitRate = 800, rxBitRate = 0\<rparr>] \<and>
   txBitRate (rates (9 * 2) (reports 7 (map demo_report [0..9]) ! 0 ! 0) (last (reports 7 (map demo_report [0..9])) ! 0)) \<noteq> 800"
proof -
  let ?hs = "map demo_report [0..9]"
  have u: "[0..9::int] = [0, 1, 2, 3, 4, 5, 6, 7, 8, 9]" by (simp add: upto.simps)
  have rs: "reports 7 ?hs = map (\<lambda>t. [\<lparr>transmittedPackets = t, transmittedBytes = 100 * t, receivedPackets = 0, receivedBytes = 0\<rparr>])
      [0, 1, 2, 3, 4, 5, 6, 7, 8, 9]"
    by (simp add: u reports_def demo_report_def)
  have "get_interface_statistics 1 7 (fold collect ?hs []) =
     Inr (map2 (rates 9) (reports 7 ?hs ! 0) (last (reports 7 ?hs)))"
    using interface_statistics_correct [of 1 "reports 7 ?hs" 7 ?hs 10] by (simp add: rs)
  moreover have "txBitRate (rates (9 * 2) (reports 7 ?hs ! 0 ! 0) (last (reports 7 ?hs) ! 0)) = 8 * 100 \<longleftrightarrow> (9 - 0 :: rat) = 9 * 2"
    using conjunct2 [OF interface_statistics_correct [of 2 "reports 7 ?hs" 7 ?hs 10], rule_format, of 100 0 0 0 9]
    by (simp add: rs)
  ultimately show ?thesis by (simp add: rs rates_def)
qed

end
