(* ===== verification/VizTables.thy ===== *)
theory VizTables
  imports VizStats
begin

text \<open>
  The information windows of the visualizer: the dialogs under
  \<^verbatim>\<open>src/visualizer/visualizer/plugins\<close> that show tables of a node (routing tables, the tables of
  the NDN forwarder, the last packets, the interface statistics of \<open>VizStats\<close>), the list of open
  windows in \<^verbatim>\<open>core.py\<close> and their place in \<^verbatim>\<open>Visualizer.update_view\<close>; and the choice of the
  packets to capture in \<^verbatim>\<open>show_last_packets.py\<close>. What the bindings return about the simulation is
  the record \<open>simulation_state\<close>. A window is a record with the tables it shows; a table is the list of its rows.
  The lemmas show what the windows show after an update, what an exception in one of them does to
  the rest of the picture, and that the capture options follow the widgets.
\<close>

section \<open>The simulation\<close>

record route =
  route_dest :: string
  route_gateway :: string
  route_interface :: nat

datatype routing =
    StaticRouting "route list"
  | GlobalRouting "route list"
  | ListRouting "(routing \<times> int) list"
  | OtherRouting

text \<open>The device of an interface is missing or has a name, possibly the empty one.\<close>

record ipv4_stack =
  routing_protocol :: "routing option"
  net_device :: "nat \<Rightarrow> string option"

record next_hop =
  hop_face :: string
  hop_face_id :: int
  hop_cost :: int

record forwarder =
  fib :: "(string \<times> next_hop list) list option"
  pit :: "string list option"
  cs :: "string list option"
  face_table :: "(int \<times> string) list"

record packet_sample =
  smp_time :: rat
  smp_device :: "(string \<times> nat) option"
  smp_size :: int
  smp_contents :: string

record simulation_state =
  now :: rat
  ipv4 :: "nat \<Rightarrow> ipv4_stack option"
  olsr_routes :: "nat \<Rightarrow> (route \<times> int) list option"
  l3_protocol :: "nat \<Rightarrow> forwarder option"
  last_packets :: "nat \<Rightarrow> packet_sample list \<times> packet_sample list \<times> packet_sample list"
  if_collector :: collector
  period :: rat
  if_name :: "nat \<Rightarrow> nat \<Rightarrow> string"
  float_text :: "rat \<Rightarrow> string"

section \<open>The tables\<close>

type_synonym rows = "string list list"

definition device_name :: "string option \<Rightarrow> nat \<Rightarrow> string" where
  "device_name dev i =
     (case dev of None \<Rightarrow> ''lo'' | Some s \<Rightarrow> if s = [] then ''(interface '' @ show_nat i @ '')'' else s)"

text \<open>The protocols whose routes are shown: a static one, or the static and global ones of a list.\<close>

fun listed_protocol :: "routing \<times> int \<Rightarrow> (route list \<times> string \<times> int) list" where
  "listed_protocol (StaticRouting rs, prio) = [(rs, ''static'', prio)]"
| "listed_protocol (GlobalRouting rs, prio) = [(rs, ''global'', prio)]"
| "listed_protocol _ = []"

fun routing_protocols :: "routing \<Rightarrow> (route list \<times> string \<times> int) list" where
  "routing_protocols (StaticRouting rs) = [(rs, ''static'', 0)]"
| "routing_protocols (ListRouting ps) = concat (map listed_protocol ps)"
| "routing_protocols _ = []"

definition route_row :: "ipv4_stack \<Rightarrow> string \<Rightarrow> int \<Rightarrow> route \<Rightarrow> string list" where
  "route_row ip type_string prio r =
     [route_dest r, route_gateway r, device_name (net_device ip (route_interface r)) (route_interface r),
      type_string, show_int prio]"

definition update_routing_table :: "simulation_state \<Rightarrow> nat \<Rightarrow> rows \<Rightarrow> py_error option \<times> rows" where
  "update_routing_table sim node rs =
     (case ipv4 sim node of
        None \<Rightarrow> (Some AttributeError, rs)
      | Some ip \<Rightarrow>
         (case routing_protocol ip of
            None \<Rightarrow> (None, rs)
          | Some r \<Rightarrow>
             if routing_protocols r = [] then (None, rs)
             else (None, concat (map (\<lambda>(routes, t, prio). map (route_row ip t prio) routes) (routing_protocols r)))))"

text \<open>OLSR: the row is appended before the stack is asked for the device.\<close>

definition update_olsr_table :: "simulation_state \<Rightarrow> nat \<Rightarrow> rows \<Rightarrow> py_error option \<times> rows" where
  "update_olsr_table sim node rs =
     (case olsr_routes sim node of
        None \<Rightarrow> (None, rs)
      | Some routes \<Rightarrow>
         (case ipv4 sim node of
            None \<Rightarrow> if routes = [] then (None, []) else (Some AttributeError, [[]])
          | Some ip \<Rightarrow>
             (None, map (\<lambda>(r, dist). [route_dest r, route_gateway r,
                device_name (net_device ip (route_interface r)) (route_interface r), show_int dist]) routes)))"

definition hop_text :: "next_hop \<Rightarrow> string" where
  "hop_text h = hop_face h @ show_int (hop_face_id h) @ '' ('' @ show_int (hop_cost h) @ '')''"

definition fib_row :: "string \<times> next_hop list \<Rightarrow> string list" where
  "fib_row e = [fst e, join_with '', '' (map hop_text (snd e))]"

text \<open>A window of the NDN forwarder: a table that may be missing.\<close>

definition update_ndn :: "(forwarder \<Rightarrow> rows option) \<Rightarrow> simulation_state \<Rightarrow> nat \<Rightarrow> rows \<Rightarrow> py_error option \<times> rows" where
  "update_ndn get sim node rs =
     (case l3_protocol sim node of
        None \<Rightarrow> (Some AttributeError, rs)
      | Some fw \<Rightarrow> (case get fw of None \<Rightarrow> (None, rs) | Some rs' \<Rightarrow> (None, rs')))"

definition ndn_fib_rows :: "forwarder \<Rightarrow> rows option" where
  "ndn_fib_rows fw = map_option (map fib_row) (fib fw)"

definition ndn_pit_rows :: "forwarder \<Rightarrow> rows option" where
  "ndn_pit_rows fw = map_option (map (\<lambda>n. [n])) (pit fw)"

definition ndn_cs_rows :: "forwarder \<Rightarrow> rows option" where
  "ndn_cs_rows fw = map_option (map (\<lambda>n. [n])) (cs fw)"

definition ndn_face_rows :: "forwarder \<Rightarrow> rows option" where
  "ndn_face_rows fw = Some (map (\<lambda>(i, s). [show_int i, s]) (face_table fw))"

definition packet_row :: "simulation_state \<Rightarrow> packet_sample \<Rightarrow> string list" where
  "packet_row sim p =
     [float_text sim (smp_time p),
      (case smp_device p of
         None \<Rightarrow> ''(unknown)''
       | Some (s, i) \<Rightarrow> if s = [] then ''(interface '' @ show_nat i @ '')'' else s),
      show_int (smp_size p), smp_contents p]"

section \<open>The windows\<close>

datatype window_kind =
    RoutingTable | OlsrTable | NdnFib | NdnPit | NdnCs | NdnFaces | LastPackets | InterfaceStatistics

definition one_table :: "('t \<Rightarrow> py_error option \<times> 't) \<Rightarrow> 't list \<Rightarrow> py_error option \<times> 't list" where
  "one_table f ts = (case f (hd ts) of (e, rs) \<Rightarrow> (e, [rs]))"

definition update_tables :: "simulation_state \<Rightarrow> window_kind \<Rightarrow> nat \<Rightarrow> rows list \<Rightarrow> py_error option \<times> rows list" where
  "update_tables sim kind node ts =
     (case kind of
        RoutingTable \<Rightarrow> one_table (update_routing_table sim node) ts
      | OlsrTable \<Rightarrow> one_table (update_olsr_table sim node) ts
      | NdnFib \<Rightarrow> one_table (update_ndn ndn_fib_rows sim node) ts
      | NdnPit \<Rightarrow> one_table (update_ndn ndn_pit_rows sim node) ts
      | NdnCs \<Rightarrow> one_table (update_ndn ndn_cs_rows sim node) ts
      | NdnFaces \<Rightarrow> one_table (update_ndn ndn_face_rows sim node) ts
      | LastPackets \<Rightarrow>
          (case last_packets sim node of (tx, rx, dr) \<Rightarrow> (None, map (map (packet_row sim)) [tx, rx, dr]))
      | InterfaceStatistics \<Rightarrow>
          one_table (update_table (if_name sim node) (float_text sim) (period sim) node (if_collector sim)) ts)"

record info_window =
  win_id :: nat
  win_kind :: window_kind
  win_node :: nat
  win_tables :: "rows list"
  win_shown :: bool

text \<open>The picture: the windows, and when each of the other parts was last updated.\<close>

record picture =
  information_windows :: "info_window list"
  next_window :: nat
  label_time :: rat
  positions_time :: rat
  transmissions_time :: rat
  drops_time :: rat
  signal_time :: rat

definition update_window :: "simulation_state \<Rightarrow> info_window \<Rightarrow> py_error option \<times> info_window" where
  "update_window sim w =
     (case update_tables sim (win_kind w) (win_node w) (win_tables w) of (e, ts) \<Rightarrow> (e, w\<lparr>win_tables := ts\<rparr>))"

fun update_windows :: "simulation_state \<Rightarrow> info_window list \<Rightarrow> py_error option \<times> info_window list" where
  "update_windows sim [] = (None, [])"
| "update_windows sim (w # ws) =
     (case update_window sim w of
        (Some e, w') \<Rightarrow> (Some e, w' # ws)
      | (None, w') \<Rightarrow> (case update_windows sim ws of (e, ws') \<Rightarrow> (e, w' # ws')))"

definition viz_update_view :: "simulation_state \<Rightarrow> picture \<Rightarrow> py_error option \<times> picture" where
  "viz_update_view sim p =
     (let p = p\<lparr>label_time := now sim, positions_time := now sim\<rparr> in
      case update_windows sim (information_windows p) of
        (Some e, ws) \<Rightarrow> (Some e, p\<lparr>information_windows := ws\<rparr>)
      | (None, ws) \<Rightarrow>
          (None, p\<lparr>information_windows := ws, transmissions_time := now sim, drops_time := now sim, signal_time := now sim\<rparr>))"

text \<open>
  A window puts itself into the list, is updated and then shown; an exception in the update leaves
  it in the list without showing it.
\<close>

definition open_window :: "simulation_state \<Rightarrow> window_kind \<Rightarrow> nat \<Rightarrow> picture \<Rightarrow> py_error option \<times> picture" where
  "open_window sim kind node p =
     (let w = \<lparr>win_id = next_window p, win_kind = kind, win_node = node, win_tables = [[]], win_shown = False\<rparr>;
          (e, w) = update_window sim w
      in (e, p\<lparr>information_windows := information_windows p @ [w\<lparr>win_shown := e = None\<rparr>], next_window := Suc (next_window p)\<rparr>))"

text \<open>Only the menu entry for OLSR depends on the node.\<close>

definition menu_offers :: "simulation_state \<Rightarrow> window_kind \<Rightarrow> nat \<Rightarrow> bool" where
  "menu_offers sim kind node = (kind = OlsrTable \<longrightarrow> olsr_routes sim node \<noteq> None)"

text \<open>Closing: the user can only close a window that is shown.\<close>

definition close_window :: "nat \<Rightarrow> picture \<Rightarrow> picture" where
  "close_window i p =
     p\<lparr>information_windows := filter (\<lambda>w. \<not> (win_id w = i \<and> win_shown w)) (information_windows p)\<rparr>"

datatype picture_event = UpdatePicture simulation_state | OpenWindow simulation_state window_kind nat | CloseWindow nat

definition picture_step :: "picture_event \<Rightarrow> picture \<Rightarrow> py_error option \<times> picture" where
  "picture_step ev p =
     (case ev of
        UpdatePicture sim \<Rightarrow> viz_update_view sim p
      | OpenWindow sim kind node \<Rightarrow> if menu_offers sim kind node then open_window sim kind node p else (None, p)
      | CloseWindow i \<Rightarrow> (None, close_window i p))"

fun picture_run :: "picture_event list \<Rightarrow> picture \<Rightarrow> picture" where
  "picture_run [] p = p"
| "picture_run (ev # evs) p = picture_run evs (snd (picture_step ev p))"

section \<open>The contract of a table\<close>

text \<open>
  An update that does not fail shows the current contents when there are any and otherwise leaves
  the table as it is. Whoever updates a table repeatedly relies on this.
\<close>

locale table_contract =
  fixes upd :: "'s \<Rightarrow> 't \<Rightarrow> py_error option \<times> 't"
    and contents :: "'s \<Rightarrow> 't option"
    and fails :: "'s \<Rightarrow> bool"
  assumes fails_iff: "fst (upd s t) \<noteq> None \<longleftrightarrow> fails s"
    and shows_contents: "\<not> fails s \<Longrightarrow> snd (upd s t) = (case contents s of None \<Rightarrow> t | Some c \<Rightarrow> c)"
begin

lemma update_ok: "\<not> fails s \<Longrightarrow> upd s t = (None, case contents s of None \<Rightarrow> t | Some c \<Rightarrow> c)"
  using fails_iff [of s t] shows_contents [of s t] by (metis prod.collapse)

lemma update_again: "\<not> fails s \<Longrightarrow> upd s (snd (upd s t)) = upd s t"
  by (simp add: update_ok split: option.split)

lemma one_table_fails: "fst (one_table (upd s) ts) \<noteq> None \<longleftrightarrow> fails s"
  using fails_iff [of s "hd ts"] by (auto simp: one_table_def split: prod.split)

lemma one_table_shows:
  "\<not> fails s \<Longrightarrow> length ts = 1 \<Longrightarrow>
     snd (one_table (upd s) ts) = (case map_option (\<lambda>t. [t]) (contents s) of None \<Rightarrow> ts | Some t \<Rightarrow> t)"
  using shows_contents [of s "hd ts"] by (auto simp: one_table_def length_Suc_conv split: prod.splits option.splits)

text \<open>After a history without failures the table shows the last contents there were.\<close>

lemma last_contents:
  assumes "\<forall>s \<in> set ss. \<not> fails s"
  shows "fold (\<lambda>s t. snd (upd s t)) ss t =
    (case filter (\<lambda>s. contents s \<noteq> None) ss of [] \<Rightarrow> t | xs \<Rightarrow> the (contents (last xs)))"
  using assms
proof (induction ss arbitrary: t)
  case (Cons s ss)
  then show ?case by (cases "contents s") (auto simp: update_ok split: list.split)
qed simp

end

text \<open>The contents of the four kinds of table.\<close>

definition routing_contents :: "nat \<Rightarrow> simulation_state \<Rightarrow> rows option" where
  "routing_contents node sim =
     (case ipv4 sim node of
        None \<Rightarrow> None
      | Some ip \<Rightarrow>
          (case routing_protocol ip of
             None \<Rightarrow> None
           | Some r \<Rightarrow>
               if routing_protocols r = [] then None
               else Some [route_row ip t prio rt. (rts, t, prio) \<leftarrow> routing_protocols r, rt \<leftarrow> rts]))"

definition olsr_contents :: "nat \<Rightarrow> simulation_state \<Rightarrow> rows option" where
  "olsr_contents node sim =
     map_option (map (\<lambda>(r, dist). [route_dest r, route_gateway r,
        device_name (net_device (the (ipv4 sim node)) (route_interface r)) (route_interface r), show_int dist]))
       (olsr_routes sim node)"

definition ndn_contents :: "(forwarder \<Rightarrow> rows option) \<Rightarrow> nat \<Rightarrow> simulation_state \<Rightarrow> rows option" where
  "ndn_contents get node sim = Option.bind (l3_protocol sim node) get"

definition statistics_contents :: "nat \<Rightarrow> simulation_state \<Rightarrow> rows option" where
  "statistics_contents node sim =
     (case get_interface_statistics (period sim) node (if_collector sim) of
        Inl e \<Rightarrow> None
      | Inr l \<Rightarrow> Some (map (table_row (if_name sim node) (float_text sim)) (List.enumerate 0 l)))"

definition update_statistics :: "simulation_state \<Rightarrow> nat \<Rightarrow> rows \<Rightarrow> py_error option \<times> rows" where
  "update_statistics sim node =
     update_table (if_name sim node) (float_text sim) (period sim) node (if_collector sim)"

definition olsr_fails :: "nat \<Rightarrow> simulation_state \<Rightarrow> bool" where
  "olsr_fails node sim = (ipv4 sim node = None \<and> olsr_routes sim node \<notin> {None, Some []})"

definition statistics_fail :: "nat \<Rightarrow> simulation_state \<Rightarrow> bool" where
  "statistics_fail node sim = (\<not> (\<exists>l. get_interface_statistics (period sim) node (if_collector sim) = Inr l))"

interpretation routing_table: table_contract
  "\<lambda>sim. update_routing_table sim node" "routing_contents node" "\<lambda>sim. ipv4 sim node = None" for node
  by unfold_locales (auto simp: update_routing_table_def routing_contents_def case_prod_unfold split: option.split)

interpretation olsr_table: table_contract "\<lambda>sim. update_olsr_table sim node" "olsr_contents node" "olsr_fails node" for node
  by unfold_locales (auto simp: update_olsr_table_def olsr_contents_def olsr_fails_def split: option.split)

interpretation ndn_table: table_contract
  "\<lambda>sim. update_ndn get sim node" "ndn_contents get node" "\<lambda>sim. l3_protocol sim node = None" for get node
  by unfold_locales (auto simp: update_ndn_def ndn_contents_def split: option.split)

interpretation statistics_table: table_contract
  "\<lambda>sim. update_statistics sim node" "statistics_contents node" "statistics_fail node" for node
  by unfold_locales
    (auto simp: update_statistics_def update_table_def statistics_contents_def statistics_fail_def split: sum.split)

definition table_contents :: "window_kind \<Rightarrow> nat \<Rightarrow> simulation_state \<Rightarrow> rows list option" where
  "table_contents kind node sim =
     (case kind of
        RoutingTable \<Rightarrow> map_option (\<lambda>t. [t]) (routing_contents node sim)
      | OlsrTable \<Rightarrow> map_option (\<lambda>t. [t]) (olsr_contents node sim)
      | NdnFib \<Rightarrow> map_option (\<lambda>t. [t]) (ndn_contents ndn_fib_rows node sim)
      | NdnPit \<Rightarrow> map_option (\<lambda>t. [t]) (ndn_contents ndn_pit_rows node sim)
      | NdnCs \<Rightarrow> map_option (\<lambda>t. [t]) (ndn_contents ndn_cs_rows node sim)
      | NdnFaces \<Rightarrow> map_option (\<lambda>t. [t]) (ndn_contents ndn_face_rows node sim)
      | LastPackets \<Rightarrow>
          (case last_packets sim node of (tx, rx, dr) \<Rightarrow> Some (map (map (packet_row sim)) [tx, rx, dr]))
      | InterfaceStatistics \<Rightarrow> map_option (\<lambda>t. [t]) (statistics_contents node sim))"

definition window_fails :: "window_kind \<Rightarrow> nat \<Rightarrow> simulation_state \<Rightarrow> bool" where
  "window_fails kind node sim =
     (case kind of
        RoutingTable \<Rightarrow> ipv4 sim node = None
      | OlsrTable \<Rightarrow> olsr_fails node sim
      | LastPackets \<Rightarrow> False
      | InterfaceStatistics \<Rightarrow> statistics_fail node sim
      | _ \<Rightarrow> l3_protocol sim node = None)"

lemmas table_laws =
  routing_table.one_table_fails routing_table.one_table_shows olsr_table.one_table_fails olsr_table.one_table_shows
  ndn_table.one_table_fails ndn_table.one_table_shows statistics_table.one_table_fails statistics_table.one_table_shows

definition tables_ok :: "info_window \<Rightarrow> bool" where
  "tables_ok w = (win_kind w = LastPackets \<or> length (win_tables w) = 1)"

lemma update_tables_fails: "fst (update_tables sim kind node ts) \<noteq> None \<longleftrightarrow> window_fails kind node sim"
  by (cases kind; simp only: update_tables_def window_fails_def window_kind.case update_statistics_def [symmetric] table_laws)
    (simp split: prod.split)

lemma update_tables_contents:
  assumes "\<not> window_fails kind node sim" "kind = LastPackets \<or> length ts = 1"
  shows "snd (update_tables sim kind node ts) = (case table_contents kind node sim of None \<Rightarrow> ts | Some c \<Rightarrow> c)"
  using assms
  by (cases kind) (simp_all add: update_tables_def window_fails_def table_contents_def
      update_statistics_def [symmetric] table_laws split: prod.split)

text \<open>A window after an update that does not fail.\<close>

definition refreshed :: "simulation_state \<Rightarrow> info_window \<Rightarrow> info_window" where
  "refreshed sim w =
     (case table_contents (win_kind w) (win_node w) sim of None \<Rightarrow> w | Some ts \<Rightarrow> w\<lparr>win_tables := ts\<rparr>)"

definition fails_in :: "simulation_state \<Rightarrow> info_window \<Rightarrow> bool" where
  "fails_in sim w = window_fails (win_kind w) (win_node w) sim"

lemma update_window_ok:
  assumes "tables_ok w" "\<not> fails_in sim w"
  shows "update_window sim w = (None, refreshed sim w)"
  using update_tables_fails [of sim "win_kind w" "win_node w" "win_tables w"]
    update_tables_contents [of "win_kind w" "win_node w" sim "win_tables w"] assms
  by (auto simp: update_window_def refreshed_def fails_in_def tables_ok_def split: prod.split option.split)

lemma update_window_fails:
  assumes "fails_in sim w"
  shows "\<exists>e ts. update_window sim w = (Some e, w\<lparr>win_tables := ts\<rparr>)"
  using update_tables_fails [of sim "win_kind w" "win_node w" "win_tables w"] assms
  by (auto simp: update_window_def fails_in_def split: prod.split)

section \<open>The windows in the update of the view\<close>

lemma update_windows_ok:
  "list_all tables_ok ws \<Longrightarrow> list_all (\<lambda>w. \<not> fails_in sim w) ws \<Longrightarrow> update_windows sim ws = (None, map (refreshed sim) ws)"
  by (induction ws) (simp_all add: update_window_ok)

lemma update_windows_stops:
  assumes "list_all tables_ok a" "list_all (\<lambda>w. \<not> fails_in sim w) a" "fails_in sim w"
  shows "\<exists>e ts. update_windows sim (a @ w # b) = (Some e, map (refreshed sim) a @ w\<lparr>win_tables := ts\<rparr> # b)"
  using assms
proof (induction a)
  case Nil
  then show ?case using update_window_fails [of sim w] by auto
next
  case (Cons x a)
  then show ?case by (auto simp: update_window_ok)
qed

definition start_picture :: picture where
  "start_picture = \<lparr>information_windows = [], next_window = 0, label_time = 0, positions_time = 0,
     transmissions_time = 0, drops_time = 0, signal_time = 0\<rparr>"

lemma update_window_frame:
  "case update_window sim w of (e, w') \<Rightarrow> win_id w' = win_id w \<and> win_kind w' = win_kind w \<and> win_node w' = win_node w \<and>
     win_shown w' = win_shown w \<and> (tables_ok w \<longrightarrow> tables_ok w')"
proof -
  have "length (snd (update_tables sim k n ts)) = 1" if "k \<noteq> LastPackets" for k n ts
    using that by (cases k) (simp_all add: update_tables_def one_table_def split: prod.split)
  then show ?thesis
    by (auto simp: update_window_def tables_ok_def split: prod.split) (metis snd_conv)
qed

text \<open>What identifies the windows is not changed by an update.\<close>

definition identities :: "info_window list \<Rightarrow> (nat \<times> window_kind \<times> nat \<times> bool) list" where
  "identities ws = map (\<lambda>w. (win_id w, win_kind w, win_node w, win_shown w)) ws"

lemma update_windows_frame:
  "case update_windows sim ws of (e, ws') \<Rightarrow> identities ws' = identities ws \<and> (list_all tables_ok ws \<longrightarrow> list_all tables_ok ws')"
proof (induction ws)
  case (Cons w ws)
  then show ?case using update_window_frame [of w sim]
    by (auto simp: identities_def split: prod.splits option.splits)
qed (simp add: identities_def)

lemma update_view_frame:
  "identities (information_windows (snd (viz_update_view sim p))) = identities (information_windows p)"
  "list_all tables_ok (information_windows p) \<Longrightarrow> list_all tables_ok (information_windows (snd (viz_update_view sim p)))"
  using update_windows_frame [of "information_windows p" sim]
  by (auto simp: viz_update_view_def Let_def split: prod.splits option.splits)

lemma open_window_appends:
  "\<exists>w. snd (open_window sim kind node p) = p\<lparr>information_windows := information_windows p @ [w], next_window := Suc (next_window p)\<rparr> \<and>
     tables_ok w \<and> win_kind w = kind \<and> win_node w = node \<and> (win_shown w \<longleftrightarrow> \<not> window_fails kind node sim)"
proof -
  let ?w = "\<lparr>win_id = next_window p, win_kind = kind, win_node = node, win_tables = [[]], win_shown = False\<rparr>"
  obtain e w where u: "update_window sim ?w = (e, w)" by fastforce
  have "e \<noteq> None \<longleftrightarrow> window_fails kind node sim"
    using update_tables_fails [of sim kind node "[[]]"] u by (auto simp: update_window_def split: prod.splits)
  moreover have "tables_ok w" "win_kind w = kind" "win_node w = node"
    using update_window_frame [of ?w sim] u by (auto simp: tables_ok_def)
  ultimately show ?thesis using u
    by (auto simp: open_window_def tables_ok_def Let_def intro!: exI [of _ "w\<lparr>win_shown := e = None\<rparr>"])
qed

lemma picture_step_tables_ok:
  assumes "list_all tables_ok (information_windows p)"
  shows "list_all tables_ok (information_windows (snd (picture_step ev p)))"
proof (cases ev)
  case (OpenWindow sim kind node)
  with assms open_window_appends [of sim kind node p] show ?thesis by (auto simp: picture_step_def)
qed (use assms update_view_frame(2) in \<open>auto simp: picture_step_def close_window_def list_all_iff\<close>)

lemma picture_run_tables_ok:
  "list_all tables_ok (information_windows p) \<Longrightarrow> list_all tables_ok (information_windows (picture_run evs p))"
  by (induction evs arbitrary: p) (simp_all add: picture_step_tables_ok)

text \<open>
  The update of the view, for the windows that any sequence of openings, closings and updates
  has left. When no window fails, every window that has something to show shows the
  current contents, and all the other parts of the picture are up to date. When a window fails, the windows
  before it are updated, those after it keep what they show, and neither the transmissions nor the
  drops are updated, nor do the plugins hear of the update.
\<close>

theorem update_view_outcome:
  assumes "p = picture_run evs start_picture"
  shows "(list_all (\<lambda>w. \<not> fails_in sim w) (information_windows p) \<longrightarrow>
       viz_update_view sim p = (None, p\<lparr>information_windows := map (refreshed sim) (information_windows p), label_time := now sim,
         positions_time := now sim, transmissions_time := now sim, drops_time := now sim, signal_time := now sim\<rparr>)) \<and>
    (\<forall>a w b. information_windows p = a @ w # b \<and> list_all (\<lambda>w. \<not> fails_in sim w) a \<and> fails_in sim w \<longrightarrow>
       (\<exists>e ts. viz_update_view sim p = (Some e, p\<lparr>information_windows := map (refreshed sim) a @ w\<lparr>win_tables := ts\<rparr> # b,
         label_time := now sim, positions_time := now sim\<rparr>)))"
proof (intro conjI allI impI)
  have ok: "list_all tables_ok (information_windows p)"
    using picture_run_tables_ok [of start_picture evs] assms by (simp add: start_picture_def)
  {
    assume "list_all (\<lambda>w. \<not> fails_in sim w) (information_windows p)"
    from update_windows_ok [OF ok this]
    show "viz_update_view sim p = (None, p\<lparr>information_windows := map (refreshed sim) (information_windows p), label_time := now sim,
         positions_time := now sim, transmissions_time := now sim, drops_time := now sim, signal_time := now sim\<rparr>)"
      by (simp add: viz_update_view_def)
  next
    fix a w b
    assume a: "information_windows p = a @ w # b \<and> list_all (\<lambda>w. \<not> fails_in sim w) a \<and> fails_in sim w"
    with ok obtain e ts where "update_windows sim (information_windows p) =
        (Some e, map (refreshed sim) a @ w\<lparr>win_tables := ts\<rparr> # b)" using update_windows_stops [of a sim w b] by auto
    then have "viz_update_view sim p = (Some e, p\<lparr>information_windows := map (refreshed sim) a @ w\<lparr>win_tables := ts\<rparr> # b,
         label_time := now sim, positions_time := now sim\<rparr>)" by (simp add: viz_update_view_def)
    then show "\<exists>e ts. viz_update_view sim p = (Some e, p\<lparr>information_windows := map (refreshed sim) a @ w\<lparr>win_tables := ts\<rparr> # b,
         label_time := now sim, positions_time := now sim\<rparr>)" by blast
  }
qed

text \<open>A window that was never shown stays.\<close>

lemma hidden_window_stays:
  assumes "w \<in> set (information_windows p)" "\<not> win_shown w"
  shows "\<exists>w' \<in> set (information_windows (snd (picture_step ev p))).
    \<not> win_shown w' \<and> win_kind w' = win_kind w \<and> win_node w' = win_node w"
proof (cases ev)
  case (UpdatePicture sim)
  have "(win_id w, win_kind w, win_node w, win_shown w) \<in> set (identities (information_windows (snd (viz_update_view sim p))))"
    unfolding update_view_frame(1) using assms(1) by (auto simp: identities_def)
  with assms(2) UpdatePicture show ?thesis by (auto simp: identities_def picture_step_def)
next
  case (OpenWindow sim kind node)
  with assms open_window_appends [of sim kind node p] show ?thesis by (auto simp: picture_step_def)
next
  case (CloseWindow i)
  with assms show ?thesis by (auto simp: picture_step_def close_window_def)
qed

lemma hidden_window_stays_run:
  "w \<in> set (information_windows p) \<Longrightarrow> \<not> win_shown w \<Longrightarrow>
     \<exists>w' \<in> set (information_windows (picture_run evs p)). \<not> win_shown w' \<and> win_kind w' = win_kind w \<and> win_node w' = win_node w"
proof (induction evs arbitrary: p w)
  case (Cons ev evs)
  from hidden_window_stays [OF Cons.prems, of ev] obtain w1 where w1:
    "w1 \<in> set (information_windows (snd (picture_step ev p)))" "\<not> win_shown w1" "win_kind w1 = win_kind w" "win_node w1 = win_node w"
    by blast
  from Cons.IH [OF w1(1,2)] w1(3,4) show ?case by simp
qed auto

lemma update_view_fails:
  assumes "list_all tables_ok (information_windows p)" "w \<in> set (information_windows p)" "fails_in sim w"
  shows "fst (viz_update_view sim p) \<noteq> None" "transmissions_time (snd (viz_update_view sim p)) = transmissions_time p"
proof -
  have ex: "\<exists>x \<in> set (information_windows p). fails_in sim x" using assms(2,3) by blast
  then obtain a x b where s: "information_windows p = a @ x # b" "fails_in sim x" "\<forall>y \<in> set a. \<not> fails_in sim y"
    using split_list_first_prop [OF ex] by blast
  have "list_all tables_ok a" "list_all (\<lambda>w. \<not> fails_in sim w) a" using assms(1) s by (simp_all add: list_all_iff)
  from update_windows_stops [OF this s(2), of b] s(1)
  show "fst (viz_update_view sim p) \<noteq> None" "transmissions_time (snd (viz_update_view sim p)) = transmissions_time p"
    by (auto simp: viz_update_view_def)
qed

text \<open>
  C33: A window whose first update fails is never shown, so it cannot be closed, but it is in the
  list of windows. The menu offers the IPv4 routing table and the NDN tables for every node. After the
  routing table of a node without an IPv4 stack, or an NDN table of a node without NDN, was chosen, every later
  update of the view fails as long as the node has no such stack, whatever the user opens and closes, and
  the transmissions shown are never updated again.
\<close>

theorem failed_window_blocks_updates:
  assumes "kind = RoutingTable \<and> ipv4 sim0 node = None \<and> ipv4 sim node = None \<or>
      kind \<in> {NdnFib, NdnPit, NdnCs, NdnFaces} \<and> l3_protocol sim0 node = None \<and> l3_protocol sim node = None"
    and "p = snd (picture_step (OpenWindow sim0 kind node) (picture_run evs start_picture))"
    and "q = picture_run evs' p"
  shows "fst (viz_update_view sim q) \<noteq> None \<and> transmissions_time (snd (viz_update_view sim q)) = transmissions_time q"
proof -
  let ?p = "picture_run evs start_picture"
  have ok: "list_all tables_ok (information_windows q)"
    unfolding assms(2,3) by (intro picture_run_tables_ok picture_step_tables_ok) (simp add: start_picture_def)
  have f: "window_fails kind node sim0" "window_fails kind node sim" and off: "menu_offers sim0 kind node"
    using assms(1) by (auto simp: window_fails_def menu_offers_def)
  from open_window_appends [of sim0 kind node ?p] f(1) obtain w where opened:
    "snd (open_window sim0 kind node ?p) =
       ?p\<lparr>information_windows := information_windows ?p @ [w], next_window := Suc (next_window ?p)\<rparr>"
    and w': "\<not> win_shown w" "win_kind w = kind" "win_node w = node" by blast
  have "w \<in> set (information_windows p)" unfolding assms(2) by (simp add: picture_step_def off opened)
  note w = this w'
  from hidden_window_stays_run [OF w(1,2), of evs'] w(3,4) f(2) obtain w' where
    "w' \<in> set (information_windows q)" "fails_in sim w'" unfolding assms(3) by (auto simp: fails_in_def)
  from update_view_fails [OF ok this] show ?thesis by blast
qed

section \<open>The packets to capture\<close>

text \<open>A registered type with the names on its way to the root, itself first.\<close>

type_synonym type_chain = "string list"

datatype capture_mode = FILTER_HEADERS_AND | FILTER_HEADERS_OR

record capture_options =
  capture_mode :: capture_mode
  num_last_packets :: nat
  capture_headers :: "string list"

record type_config =
  tc_name :: string
  tc_selected :: bool

record packet_dialog =
  packet_filter_list :: "type_config list"
  op_AND_active :: bool
  simulator_options :: "capture_options option"

text \<open>The loop up the parents of a type.\<close>

fun type_is_good :: "type_chain \<Rightarrow> bool" where
  "type_is_good [] = False"
| "type_is_good (t # parents) = (if t = ''ns3::Header'' \<or> t = ''ns3::Trailer'' then True else type_is_good parents)"

definition filter_list :: "type_chain list \<Rightarrow> type_config list" where
  "filter_list types =
     map (\<lambda>t. \<lparr>tc_name = hd t, tc_selected = True\<rparr>)
       (filter (\<lambda>t. type_is_good t \<and> hd t \<notin> {''ns3::Header'', ''ns3::Trailer''}) types)"

definition update_capture_options :: "packet_dialog \<Rightarrow> packet_dialog" where
  "update_capture_options d =
     d\<lparr>simulator_options := Some
        \<lparr>capture_mode = (if op_AND_active d then FILTER_HEADERS_AND else FILTER_HEADERS_OR), num_last_packets = 100,
         capture_headers = map tc_name (filter tc_selected (packet_filter_list d))\<rparr>\<rparr>"

definition new_dialog :: "type_chain list \<Rightarrow> packet_dialog" where
  "new_dialog types =
     update_capture_options \<lparr>packet_filter_list = filter_list types, op_AND_active = False, simulator_options = None\<rparr>"

datatype dialog_event = SelectAll | SelectNone | CellEdited nat bool | RadioSet bool

text \<open>The signal of the radio button is sent only when its state changes.\<close>

definition dialog_step :: "dialog_event \<Rightarrow> packet_dialog \<Rightarrow> packet_dialog" where
  "dialog_step ev d =
     (case ev of
        SelectAll \<Rightarrow> update_capture_options (d\<lparr>packet_filter_list := map (\<lambda>c. c\<lparr>tc_selected := True\<rparr>) (packet_filter_list d)\<rparr>)
      | SelectNone \<Rightarrow> update_capture_options (d\<lparr>packet_filter_list := map (\<lambda>c. c\<lparr>tc_selected := False\<rparr>) (packet_filter_list d)\<rparr>)
      | CellEdited i b \<Rightarrow>
          if i < length (packet_filter_list d)
          then update_capture_options (d\<lparr>packet_filter_list :=
                 (packet_filter_list d)[i := (packet_filter_list d ! i)\<lparr>tc_selected := b\<rparr>]\<rparr>)
          else d
      | RadioSet b \<Rightarrow> if b = op_AND_active d then d else update_capture_options (d\<lparr>op_AND_active := b\<rparr>))"

lemma type_is_good_iff: "type_is_good chain \<longleftrightarrow> ''ns3::Header'' \<in> set chain \<or> ''ns3::Trailer'' \<in> set chain"
  by (induction chain) auto

definition dialog_ok :: "type_chain list \<Rightarrow> packet_dialog \<Rightarrow> bool" where
  "dialog_ok types d \<longleftrightarrow>
     map tc_name (packet_filter_list d) = map hd (filter (\<lambda>t. type_is_good t \<and> hd t \<notin> {''ns3::Header'', ''ns3::Trailer''}) types) \<and>
     simulator_options d = simulator_options (update_capture_options d)"

lemma edited_names:
  "i < length cs \<Longrightarrow> map tc_name (cs[i := (cs ! i)\<lparr>tc_selected := b\<rparr>]) = map tc_name cs" for cs :: "type_config list"
  by (simp add: map_update) (metis list_update_id nth_map)

lemma dialog_step_ok: "dialog_ok types d \<Longrightarrow> dialog_ok types (dialog_step ev d)"
  by (cases ev) (auto simp: dialog_ok_def dialog_step_def update_capture_options_def comp_def edited_names)

lemma dialog_run_ok: "dialog_ok types d \<Longrightarrow> dialog_ok types (fold dialog_step evs d)"
  by (induction evs arbitrary: d) (simp_all add: dialog_step_ok)

text \<open>
  After any use of the dialog the simulator has exactly the options the widgets show: the mode,
  the last hundred packets, and the selected headers among the proper subtypes of the types of
  headers and trailers.
\<close>

theorem capture_options_follow:
  assumes "d = fold dialog_step evs (new_dialog types)"
  shows "simulator_options d = Some
      \<lparr>capture_mode = (if op_AND_active d then FILTER_HEADERS_AND else FILTER_HEADERS_OR), num_last_packets = 100,
       capture_headers = map tc_name (filter tc_selected (packet_filter_list d))\<rparr> \<and>
    map tc_name (packet_filter_list d) =
      map hd (filter (\<lambda>t. (''ns3::Header'' \<in> set t \<or> ''ns3::Trailer'' \<in> set t) \<and> hd t \<notin> {''ns3::Header'', ''ns3::Trailer''}) types)"
proof -
  have "dialog_ok types (new_dialog types)"
    by (simp add: dialog_ok_def new_dialog_def update_capture_options_def filter_list_def comp_def)
  then have "dialog_ok types (fold dialog_step evs (new_dialog types))"
    by (rule dialog_run_ok)
  with assms show ?thesis by (simp add: dialog_ok_def update_capture_options_def type_is_good_iff)
qed

section \<open>Examples\<close>

definition demo_sim :: "ipv4_stack option \<Rightarrow> rat \<Rightarrow> simulation_state" where
  "demo_sim ip t = \<lparr>now = t, ipv4 = (\<lambda>_. ip), olsr_routes = (\<lambda>_. None), l3_protocol = (\<lambda>_. None),
     last_packets = (\<lambda>_. ([], [], [])), if_collector = [], period = 1, if_name = (\<lambda>_ _. []), float_text = (\<lambda>_. [])\<rparr>"

definition demo_stack :: ipv4_stack where
  "demo_stack = \<lparr>routing_protocol = Some (ListRouting
       [(StaticRouting [\<lparr>route_dest = ''10.0.0.0'', route_gateway = ''0.0.0.0'', route_interface = 1\<rparr>], 5), (OtherRouting, 3)]),
     net_device = (\<lambda>i. Some [])\<rparr>"

theorem update_view_outcome_witness:
  "\<exists>q. viz_update_view (demo_sim (Some demo_stack) 5)
      (picture_run [OpenWindow (demo_sim (Some demo_stack) 1) RoutingTable 0] start_picture) = (None, q) \<and>
     map win_tables (information_windows q) = [[[[''10.0.0.0'', ''0.0.0.0'', ''(interface 1)'', ''static'', ''5'']]]] \<and>
     signal_time q = 5"
proof -
  define p where p: "p = picture_run [OpenWindow (demo_sim (Some demo_stack) 1) RoutingTable 0] start_picture"
  have "map (\<lambda>w. (win_kind w, win_node w)) (information_windows p) = [(RoutingTable, 0)]"
    by (simp add: p picture_step_def menu_offers_def open_window_def update_window_def update_tables_def one_table_def
        update_routing_table_def demo_sim_def demo_stack_def start_picture_def)
  then obtain w where w: "information_windows p = [w]" "win_kind w = RoutingTable" "win_node w = 0" by auto
  have "list_all (\<lambda>w. \<not> fails_in (demo_sim (Some demo_stack) 5) w) (information_windows p)"
    by (simp add: w fails_in_def window_fails_def demo_sim_def)
  moreover have "show_nat 1 = ''1''" "show_nat 5 = ''5''" by code_simp+
  moreover note update_view_outcome [OF p, of "demo_sim (Some demo_stack) 5"]
  ultimately show ?thesis unfolding p [symmetric]
    by (simp add: w refreshed_def table_contents_def routing_contents_def route_row_def device_name_def
        demo_sim_def demo_stack_def show_int_def)
qed

theorem failed_window_blocks_updates_witness:
  "fst (viz_update_view (demo_sim None 5)
     (picture_run [CloseWindow 0] (snd (picture_step (OpenWindow (demo_sim None 1) RoutingTable 0) start_picture)))) \<noteq> None"
  using failed_window_blocks_updates [of RoutingTable "demo_sim None 1" 0 "demo_sim None 5" _ "[]" _ "[CloseWindow 0]"]
  by (simp add: demo_sim_def)

end
