(* ===== verification/VizPlugins.thy ===== *)
theory VizPlugins
  imports Prelude
begin

text \<open>
  The plugins of the visualizer, \<^verbatim>\<open>src/visualizer/visualizer/base.py\<close>: the module variables
  \<^verbatim>\<open>plugins\<close>, \<^verbatim>\<open>plugin_modules\<close> and \<^verbatim>\<open>plugins_loaded\<close> with the search path of the
  interpreter, and the functions that fill them. Importing a module is a parameter; the state is
  kept also when an exception leaves the function.
\<close>

section \<open>Registering and loading\<close>

text \<open>A module has a function \<^verbatim>\<open>register\<close> or not; its import fails or raises another exception.\<close>

datatype 'p import_outcome = Module "'p option" | ImportFails | ImportRaises py_error

record 'p plugin_state =
  plugins :: "'p list"
  plugin_modules :: "(string, string) dict"
  plugins_loaded :: bool
  sys_path :: "string list"

definition register_plugin :: "'p \<Rightarrow> string \<Rightarrow> 'p plugin_state \<Rightarrow> 'p plugin_state" where
  "register_plugin plugin_init_func plugin_name st =
     st\<lparr>plugins := plugins st @ [plugin_init_func],
        plugin_modules := AList.update plugin_name plugin_name (plugin_modules st)\<rparr>"

text \<open>\<^verbatim>\<open>os.path.splitext\<close> of a file name: the extension starts at the last dot, unless only dots precede it.\<close>

definition splitext :: "string \<Rightarrow> string \<times> string" where
  "splitext f =
     (let ext = takeWhile (\<lambda>c. c \<noteq> CHR ''.'') (rev f); n = length f - length ext in
      if n = 0 \<or> list_all (\<lambda>c. c = CHR ''.'') (take (n - 1) f) then (f, []) else (take (n - 1) f, drop (n - 1) f))"

fun load_loop :: "(string \<Rightarrow> 'p import_outcome) \<Rightarrow> string list \<Rightarrow> 'p plugin_state \<Rightarrow> unit result \<times> 'p plugin_state" where
  "load_loop imp [] st = (Inr (), st)"
| "load_loop imp (filename # filenames) st =
     (case splitext filename of
        (name, ext) \<Rightarrow>
          if ext \<noteq> ''.py'' then load_loop imp filenames st
          else (case imp name of
                  ImportFails \<Rightarrow> load_loop imp filenames st
                | ImportRaises e \<Rightarrow> (Inl e, st)
                | Module None \<Rightarrow> load_loop imp filenames st
                | Module (Some f) \<Rightarrow> load_loop imp filenames (register_plugin f name st)))"

definition load_plugins :: "string \<Rightarrow> string list \<Rightarrow> (string \<Rightarrow> 'p import_outcome) \<Rightarrow> 'p plugin_state \<Rightarrow> unit result \<times> 'p plugin_state" where
  "load_plugins plugins_dir listing imp st =
     (if plugins_loaded st then (Inr (), st)
      else
        let old_path = sys_path st; st = st\<lparr>plugins_loaded := True, sys_path := plugins_dir # old_path\<rparr> in
        case load_loop imp listing st of
          (Inl e, st) \<Rightarrow> (Inl e, st)
        | (Inr _, st) \<Rightarrow> (Inr (), st\<lparr>sys_path := old_path\<rparr>))"

section \<open>What is loaded\<close>

text \<open>The names of the modules of a directory, and the plugins that they register.\<close>

definition module_names :: "string list \<Rightarrow> string list" where
  "module_names listing = map (fst \<circ> splitext) (filter (\<lambda>f. snd (splitext f) = ''.py'') listing)"

fun registered :: "(string \<Rightarrow> 'p import_outcome) \<Rightarrow> string list \<Rightarrow> 'p list" where
  "registered imp [] = []"
| "registered imp (name # names) =
     (case imp name of Module (Some f) \<Rightarrow> f # registered imp names | _ \<Rightarrow> registered imp names)"

definition harmless :: "'p import_outcome \<Rightarrow> bool" where
  "harmless out = (case out of ImportRaises e \<Rightarrow> False | _ \<Rightarrow> True)"

lemma load_loop_result:
  "\<exists>st'. load_loop imp listing st =
     (case find (\<lambda>m. \<not> harmless (imp m)) (module_names listing) of
        None \<Rightarrow> (Inr (), st')
      | Some m \<Rightarrow> (case imp m of ImportRaises e \<Rightarrow> (Inl e, st') | _ \<Rightarrow> (Inr (), st'))) \<and>
     plugins st' = plugins st @ registered imp (takeWhile (\<lambda>m. harmless (imp m)) (module_names listing)) \<and>
     plugins_loaded st' = plugins_loaded st \<and> sys_path st' = sys_path st"
proof (induction listing arbitrary: st)
  case (Cons f fs)
  obtain name ext where f: "splitext f = (name, ext)" by fastforce
  show ?case
  proof (cases "ext = ''.py''")
    case False
    with Cons [of st] f show ?thesis by (simp add: module_names_def)
  next
    case True
    show ?thesis
    proof (cases "imp name")
      case (Module p)
      with True f Cons [of st] Cons [of "register_plugin (the p) name st"] show ?thesis
        by (cases p) (auto simp: module_names_def harmless_def register_plugin_def)
    qed (use True f Cons [of st] in \<open>auto simp: module_names_def harmless_def\<close>)
  qed
qed (simp add: module_names_def)

text \<open>
  Loading the plugins. The first call registers, in the order of the directory, the plugins of
  the Python files that have a function \<^verbatim>\<open>register\<close>; files that cannot be imported are passed
  over, and the search path is as before. When an import raises another exception, only the
  plugins of the files before it are registered, the exception leaves the function and the
  directory stays in the search path. In both cases a second call does nothing.
\<close>

theorem load_plugins_once:
  assumes "\<not> plugins_loaded st"
  shows "\<exists>st'. snd (load_plugins dir listing imp st) = st' \<and>
    plugins st' = plugins st @ registered imp (takeWhile (\<lambda>m. harmless (imp m)) (module_names listing)) \<and>
    (if list_all (\<lambda>m. harmless (imp m)) (module_names listing)
     then fst (load_plugins dir listing imp st) = Inr () \<and> sys_path st' = sys_path st
     else (\<exists>e. fst (load_plugins dir listing imp st) = Inl e) \<and> sys_path st' = dir # sys_path st) \<and>
    load_plugins dir' listing' imp' st' = (Inr (), st')"
proof -
  let ?st = "st\<lparr>plugins_loaded := True, sys_path := dir # sys_path st\<rparr>"
  from load_loop_result [of imp listing ?st] obtain s where s:
    "load_loop imp listing ?st =
     (case find (\<lambda>m. \<not> harmless (imp m)) (module_names listing) of
        None \<Rightarrow> (Inr (), s)
      | Some m \<Rightarrow> (case imp m of ImportRaises e \<Rightarrow> (Inl e, s) | _ \<Rightarrow> (Inr (), s)))"
    "plugins s = plugins st @ registered imp (takeWhile (\<lambda>m. harmless (imp m)) (module_names listing))"
    "plugins_loaded s" "sys_path s = dir # sys_path st" by auto
  show ?thesis
  proof (cases "find (\<lambda>m. \<not> harmless (imp m)) (module_names listing)")
    case None
    then have "list_all (\<lambda>m. harmless (imp m)) (module_names listing)" by (simp add: find_None_iff list_all_iff)
    with None s assms show ?thesis by (simp add: load_plugins_def Let_def)
  next
    case (Some m)
    then have m: "m \<in> set (module_names listing)" "\<not> harmless (imp m)" using find_SomeD [OF Some] by auto
    then obtain e where "imp m = ImportRaises e" by (cases "imp m") (auto simp: harmless_def)
    moreover from m have "\<not> list_all (\<lambda>m. harmless (imp m)) (module_names listing)" by (auto simp: list_all_iff)
    ultimately show ?thesis using Some s assms by (simp add: load_plugins_def Let_def)
  qed
qed

theorem load_plugins_once_witness:
  "plugins (snd (load_plugins ''plugins'' [''olsr.py'', ''README'', ''old.pyc'', ''hud.py'']
     (\<lambda>m. if m = ''olsr'' then Module (Some (7 :: nat)) else Module None)
     \<lparr>plugins = [], plugin_modules = [], plugins_loaded = False, sys_path = []\<rparr>)) = [7]"
proof -
  let ?listing = "[''olsr.py'', ''README'', ''old.pyc'', ''hud.py'']"
  have m: "module_names ?listing = [''olsr'', ''hud'']" by code_simp
  have "\<not> plugins_loaded \<lparr>plugins = [], plugin_modules = [], plugins_loaded = False, sys_path = []\<rparr>" by simp
  from load_plugins_once [OF this, of "''plugins''" ?listing "\<lambda>m. if m = ''olsr'' then Module (Some (7 :: nat)) else Module None"
      "[]" "[]" "\<lambda>m. ImportFails"]
  show ?thesis unfolding m by (simp add: harmless_def)
qed

end
