(* ===== verification/ModuleTemplates.thy ===== *)
theory ModuleTemplates
  imports Prelude
begin

text \<open>
  \<^verbatim>\<open>utils/create-module.py\<close>, first part: the templates of the generated files and how they are
  filled in by \<^verbatim>\<open>str.format\<close>. A template is scanned into literal characters and fields; a text
  that is no template with named fields (a lone brace, a field with an attribute, an index or a
  format specification) is not scanned, and none of the templates is one.
\<close>

section \<open>Filling in a template\<close>

datatype piece = Literal char | Field string bool

datatype format_state = InText | AfterOpen | InField string | AfterClose

definition field_char :: "char \<Rightarrow> bool" where
  "field_char c = (let n = of_char c :: nat in 65 \<le> n \<and> n \<le> 90 \<or> 97 \<le> n \<and> n \<le> 122 \<or> 48 \<le> n \<and> n \<le> 57 \<or> c = CHR ''_'')"

text \<open>A field is a name, possibly with the conversion \<^verbatim>\<open>!r\<close>.\<close>

definition field_of :: "string \<Rightarrow> piece option" where
  "field_of s =
     (if list_all field_char s then Some (Field s False)
      else if endswith s ''!r'' \<and> list_all field_char (slice_to s (-2)) then Some (Field (slice_to s (-2)) True)
      else None)"

fun scan_template :: "format_state \<Rightarrow> string \<Rightarrow> piece list option" where
  "scan_template InText [] = Some []"
| "scan_template _ [] = None"
| "scan_template InText (c # s) =
     (if c = CHR ''{'' then scan_template AfterOpen s
      else if c = CHR ''}'' then scan_template AfterClose s
      else map_option (Cons (Literal c)) (scan_template InText s))"
| "scan_template AfterOpen (c # s) =
     (if c = CHR ''{'' then map_option (Cons (Literal c)) (scan_template InText s)
      else if c = CHR ''}'' then None
      else scan_template (InField [c]) s)"
| "scan_template (InField n) (c # s) =
     (if c = CHR ''}''
      then (case field_of n of None \<Rightarrow> None | Some p \<Rightarrow> map_option (Cons p) (scan_template InText s))
      else if c = CHR ''{'' then None
      else scan_template (InField (n @ [c])) s)"
| "scan_template AfterClose (c # s) =
     (if c = CHR ''}'' then map_option (Cons (Literal c)) (scan_template InText s) else None)"

text \<open>\<^verbatim>\<open>repr\<close> of a string without quotes, backslashes and control characters but the newline.\<close>

definition py_repr :: "string \<Rightarrow> string" where
  "py_repr s = [CHR 0x27] @ concat (map (\<lambda>c. if c = CHR 0x0A then [CHR 0x5C, CHR ''n''] else [c]) s) @ [CHR 0x27]"

definition piece_text :: "(string, string) dict \<Rightarrow> piece \<Rightarrow> string result" where
  "piece_text kw p =
     (case p of
        Literal c \<Rightarrow> Inr [c]
      | Field n r \<Rightarrow> rbind (dict_get kw n) (\<lambda>v. Inr (if r then py_repr v else v)))"

definition py_format :: "string \<Rightarrow> (string, string) dict \<Rightarrow> string result" where
  "py_format template kw =
     (case scan_template InText template of
        None \<Rightarrow> Inl ValueError
      | Some ps \<Rightarrow> rbind (map_res (piece_text kw) ps) (\<lambda>ts. Inr (concat ts)))"

section \<open>The templates\<close>

definition WSCRIPT_TEMPLATE :: string where
  \<open>WSCRIPT_TEMPLATE = join_with [CHR 0x0A]
    [''# -*- Mode: python; py-indent-offset: 4; indent-tabs-mode: nil; coding: utf-8; -*-'',
     [],
     ''# def options(opt):'',
     ''#     pass'',
     [],
     ''# def configure(conf):'',
     ''#     conf.check_nonfatal(header_name='stdint.h', define_name='HAVE_STDINT_H')'',
     [],
     ''def build(bld):'',
     ''    module = bld.create_ns3_module({MODULE!r}, ['core'])'',
     ''    module.source = ['',
     ''        'model/{MODULE}.cc','',
     ''        'helper/{MODULE}-helper.cc','',
     ''        ]'',
     [],
     ''    module_test = bld.create_ns3_module_test_library('{MODULE}')'',
     ''    module_test.source = ['',
     ''        'test/{MODULE}-test-suite.cc','',
     ''        ]'',
     ''    # Tests encapsulating example programs should be listed here'',
     ''    if (bld.env['ENABLE_EXAMPLES']):'',
     ''        module_test.source.extend(['',
     ''        #    'test/{MODULE}-examples-test-suite.cc','',
     ''             ])'',
     [],
     ''    headers = bld(features='ns3header')'',
     ''    headers.module = {MODULE!r}'',
     ''    headers.source = ['',
     ''        'model/{MODULE}.h','',
     ''        'helper/{MODULE}-helper.h','',
     ''        ]'',
     [],
     ''    if bld.env.ENABLE_EXAMPLES:'',
     ''        bld.recurse('examples')'',
     [],
     ''    # bld.ns3_python_bindings()'',
     [],
     []]\<close>

definition MODEL_CC_TEMPLATE :: string where
  \<open>MODEL_CC_TEMPLATE = join_with [CHR 0x0A]
    [''/* -*- Mode:C++; c-file-style:"gnu"; indent-tabs-mode:nil; -*- */'',
     [],
     ''#include "{MODULE}.h"'',
     [],
     ''namespace ns3 {{'',
     [],
     ''/* ... */'',
     [],
     [],
     ''}}'',
     [],
     []]\<close>

definition MODEL_H_TEMPLATE :: string where
  \<open>MODEL_H_TEMPLATE = join_with [CHR 0x0A]
    [''/* -*- Mode:C++; c-file-style:"gnu"; indent-tabs-mode:nil; -*- */'',
     ''#ifndef {INCLUDE_GUARD}'',
     ''#define {INCLUDE_GUARD}'',
     [],
     ''namespace ns3 {{'',
     [],
     ''/* ... */'',
     [],
     ''}}'',
     [],
     ''#endif /* {INCLUDE_GUARD} */'',
     [],
     []]\<close>

definition HELPER_CC_TEMPLATE :: string where
  \<open>HELPER_CC_TEMPLATE = join_with [CHR 0x0A]
    [''/* -*- Mode:C++; c-file-style:"gnu"; indent-tabs-mode:nil; -*- */'',
     [],
     ''#include "{MODULE}-helper.h"'',
     [],
     ''namespace ns3 {{'',
     [],
     ''/* ... */'',
     [],
     [],
     ''}}'',
     [],
     []]\<close>

definition HELPER_H_TEMPLATE :: string where
  \<open>HELPER_H_TEMPLATE = join_with [CHR 0x0A]
    [''/* -*- Mode:C++; c-file-style:"gnu"; indent-tabs-mode:nil; -*- */'',
     ''#ifndef {INCLUDE_GUARD}'',
     ''#define {INCLUDE_GUARD}'',
     [],
     ''#include "ns3/{MODULE}.h"'',
     [],
     ''namespace ns3 {{'',
     [],
     ''/* ... */'',
     [],
     ''}}'',
     [],
     ''#endif /* {INCLUDE_GUARD} */'',
     [],
     []]\<close>

definition EXAMPLES_WSCRIPT_TEMPLATE :: string where
  \<open>EXAMPLES_WSCRIPT_TEMPLATE = join_with [CHR 0x0A]
    [''# -*- Mode: python; py-indent-offset: 4; indent-tabs-mode: nil; coding: utf-8; -*-'',
     [],
     ''def build(bld):'',
     ''    obj = bld.create_ns3_program('{MODULE}-example', [{MODULE!r}])'',
     ''    obj.source = '{MODULE}-example.cc'' @ [CHR 0x27],
     [],
     []]\<close>

definition EXAMPLE_CC_TEMPLATE :: string where
  \<open>EXAMPLE_CC_TEMPLATE = join_with [CHR 0x0A]
    [''/* -*- Mode:C++; c-file-style:"gnu"; indent-tabs-mode:nil; -*- */'',
     [],
     ''#include "ns3/core-module.h"'',
     ''#include "ns3/{MODULE}-helper.h"'',
     [],
     ''using namespace ns3;'',
     [],
     [],
     ''int '',
     ''main (int argc, char *argv[])'',
     ''{{'',
     ''  bool verbose = true;'',
     [],
     ''  CommandLine cmd (__FILE__);'',
     ''  cmd.AddValue ("verbose", "Tell application to log if true", verbose);'',
     [],
     ''  cmd.Parse (argc,argv);'',
     [],
     ''  /* ... */'',
     [],
     ''  Simulator::Run ();'',
     ''  Simulator::Destroy ();'',
     ''  return 0;'',
     ''}}'',
     [],
     [],
     []]\<close>

definition TEST_CC_TEMPLATE :: string where
  \<open>TEST_CC_TEMPLATE = join_with [CHR 0x0A]
    [''/* -*- Mode:C++; c-file-style:"gnu"; indent-tabs-mode:nil; -*- */'',
     [],
     ''// Include a header file from your module to test.'',
     ''#include "ns3/{MODULE}.h"'',
     [],
     ''// An essential include is test.h'',
     ''#include "ns3/test.h"'',
     [],
     ''// Do not put your test classes in namespace ns3.  You may find it useful'',
     ''// to use the using directive to access the ns3 namespace directly'',
     ''using namespace ns3;'',
     [],
     ''// This is an example TestCase.'',
     ''class {CAPITALIZED}TestCase1 : public TestCase'',
     ''{{'',
     ''public:'',
     ''  {CAPITALIZED}TestCase1 ();'',
     ''  virtual ~{CAPITALIZED}TestCase1 ();'',
     [],
     ''private:'',
     ''  virtual void DoRun (void);'',
     ''}};'',
     [],
     ''// Add some help text to this case to describe what it is intended to test'',
     ''{CAPITALIZED}TestCase1::{CAPITALIZED}TestCase1 ()'',
     ''  : TestCase ("{CAPITALIZED} test case (does nothing)")'',
     ''{{'',
     ''}}'',
     [],
     ''// This destructor does nothing but we include it as a reminder that'',
     ''// the test case should clean up after itself'',
     ''{CAPITALIZED}TestCase1::~{CAPITALIZED}TestCase1 ()'',
     ''{{'',
     ''}}'',
     [],
     ''//'',
     ''// This method is the pure virtual method from class TestCase that every'',
     ''// TestCase must implement'',
     ''//'',
     ''void'',
     ''{CAPITALIZED}TestCase1::DoRun (void)'',
     ''{{'',
     ''  // A wide variety of test macros are available in src/core/test.h'',
     ''  NS_TEST_ASSERT_MSG_EQ (true, true, "true doesn't equal true for some reason");'',
     ''  // Use this one for floating point comparisons'',
     ''  NS_TEST_ASSERT_MSG_EQ_TOL (0.01, 0.01, 0.001, "Numbers are not equal within tolerance");'',
     ''}}'',
     [],
     ''// The TestSuite class names the TestSuite, identifies what type of TestSuite,'',
     ''// and enables the TestCases to be run.  Typically, only the constructor for'',
     ''// this class must be defined'',
     ''//'',
     ''class {CAPITALIZED}TestSuite : public TestSuite'',
     ''{{'',
     ''public:'',
     ''  {CAPITALIZED}TestSuite ();'',
     ''}};'',
     [],
     ''{CAPITALIZED}TestSuite::{CAPITALIZED}TestSuite ()'',
     ''  : TestSuite ("{MODULE}", UNIT)'',
     ''{{'',
     ''  // TestDuration for TestCase can be QUICK, EXTENSIVE or TAKES_FOREVER'',
     ''  AddTestCase (new {CAPITALIZED}TestCase1, TestCase::QUICK);'',
     ''}}'',
     [],
     ''// Do not forget to allocate an instance of this TestSuite'',
     ''static {CAPITALIZED}TestSuite s{COMPOUND}TestSuite;'',
     [],
     []]\<close>

definition DOC_RST_TEMPLATE :: string where
  \<open>DOC_RST_TEMPLATE = join_with [CHR 0x0A]
    [''Example Module Documentation'',
     ''----------------------------'',
     [],
     ''.. include:: replace.txt'',
     ''.. highlight:: cpp'',
     [],
     ''.. heading hierarchy:'',
     ''   ------------- Chapter'',
     ''   ************* Section (#.#)'',
     ''   ============= Subsection (#.#.#)'',
     ''   ############# Paragraph (no number)'',
     [],
     ''This is a suggested outline for adding new module documentation to |ns3|.'',
     ''See ``src/click/doc/click.rst`` for an example.'',
     [],
     ''The introductory paragraph is for describing what this code is trying to'',
     ''model.'',
     [],
     ''For consistency (italicized formatting), please use |ns3| to refer to'',
     ''ns-3 in the documentation (and likewise, |ns2| for ns-2).  These macros'',
     ''are defined in the file ``replace.txt``.'',
     [],
     ''Model Description'',
     ''*****************'',
     [],
     ''The source code for the new module lives in the directory ``{MODULE_DIR}``.'',
     [],
     ''Add here a basic description of what is being modeled.'',
     [],
     ''Design'',
     ''======'',
     [],
     ''Briefly describe the software design of the model and how it fits into '',
     ''the existing ns-3 architecture. '',
     [],
     ''Scope and Limitations'',
     ''====================='',
     [],
     ''What can the model do?  What can it not do?  Please use this section to'',
     ''describe the scope and limitations of the model.'',
     [],
     ''References'',
     ''=========='',
     [],
     ''Add academic citations here, such as if you published a paper on this'',
     ''model, or if readers should read a particular specification or other work.'',
     [],
     ''Usage'',
     ''*****'',
     [],
     ''This section is principally concerned with the usage of your model, using'',
     ''the public API.  Focus first on most common usage patterns, then go'',
     ''into more advanced topics.'',
     [],
     ''Building New Module'',
     ''==================='',
     [],
     ''Include this subsection only if there are special build instructions or'',
     ''platform limitations.'',
     [],
     ''Helpers'',
     ''======='',
     [],
     ''What helper API will users typically use?  Describe it here.'',
     [],
     ''Attributes'',
     ''=========='',
     [],
     ''What classes hold attributes, and what are the key ones worth mentioning?'',
     [],
     ''Output'',
     ''======'',
     [],
     ''What kind of data does the model generate?  What are the key trace'',
     ''sources?   What kind of logging output can be enabled?'',
     [],
     ''Advanced Usage'',
     ''=============='',
     [],
     ''Go into further details (such as using the API outside of the helpers)'',
     ''in additional sections, as needed.'',
     [],
     ''Examples'',
     ''========'',
     [],
     ''What examples using this new code are available?  Describe them here.'',
     [],
     ''Troubleshooting'',
     ''==============='',
     [],
     ''Add any tips for avoiding pitfalls, etc.'',
     [],
     ''Validation'',
     ''**********'',
     [],
     ''Describe how the model has been tested/validated.  What tests run in the'',
     ''test suite?  How much API and code is covered by the tests?  Again, '',
     ''references to outside published work may help here.'',
     []]\<close>

section \<open>The templates can be filled in\<close>

text \<open>A template that uses only the given fields, decided in one pass over the text.\<close>

fun uses_only :: "string list \<Rightarrow> format_state \<Rightarrow> string \<Rightarrow> bool" where
  "uses_only names st [] = (case st of InText \<Rightarrow> True | _ \<Rightarrow> False)"
| "uses_only names InText (c # s) =
     (if c = CHR ''{'' then uses_only names AfterOpen s
      else if c = CHR ''}'' then uses_only names AfterClose s
      else uses_only names InText s)"
| "uses_only names AfterOpen (c # s) =
     (if c = CHR ''{'' then uses_only names InText s else if c = CHR ''}'' then False else uses_only names (InField [c]) s)"
| "uses_only names (InField n) (c # s) =
     (if c = CHR ''}''
      then (case field_of n of Some (Field k _) \<Rightarrow> if List.member names k then uses_only names InText s else False | _ \<Rightarrow> False)
      else if c = CHR ''{'' then False
      else uses_only names (InField (n @ [c])) s)"
| "uses_only names AfterClose (c # s) = (if c = CHR ''}'' then uses_only names InText s else False)"

lemma uses_only_scan:
  "uses_only names st s \<Longrightarrow>
     \<exists>ps. scan_template st s = Some ps \<and> (\<forall>n r. Field n r \<in> set ps \<longrightarrow> n \<in> set names)"
proof (induction names st s rule: uses_only.induct)
  case (4 names n c s)
  then show ?case
    by (cases "field_of n") (fastforce split: if_splits piece.splits simp: List.member_iff)+
qed (auto split: if_splits format_state.splits)

lemma py_format_succeeds:
  assumes "uses_only names InText template" "set names \<subseteq> set (dict_keys kw)"
  shows "\<exists>s. py_format template kw = Inr s"
proof -
  obtain ps where ps: "scan_template InText template = Some ps" "\<And>n r. Field n r \<in> set ps \<Longrightarrow> n \<in> set names"
    using uses_only_scan [OF assms(1)] by blast
  have "\<exists>s. piece_text kw p = Inr s" if "p \<in> set ps" for p
  proof (cases p)
    case (Field n r)
    with that ps(2) assms(2) have "has_key kw n" by (auto simp: has_key_iff)
    with Field show ?thesis by (auto simp: piece_text_def dict_get_def has_key_def)
  qed (simp add: piece_text_def)
  then have "\<exists>ts. map_res (piece_text kw) ps = Inr ts" by (simp add: map_res_exists)
  with ps show ?thesis by (auto simp: py_format_def)
qed

text \<open>The templates are checked line by line.\<close>

lemma uses_only_append: "uses_only names st a \<Longrightarrow> uses_only names st (a @ b) = uses_only names InText b"
  by (induction names st a rule: uses_only.induct) (auto split: format_state.splits option.splits piece.splits if_splits)

lemma uses_only_lines:
  "list_all (uses_only names InText) ls \<Longrightarrow> uses_only names InText (join_with [CHR 0x0A] ls)"
proof (induction "[CHR 0x0A]" ls rule: join_with.induct)
  case (3 w v ws)
  then show ?case by (simp add: uses_only_append)
qed simp_all

lemma template_fields:
  "uses_only [''MODULE''] InText WSCRIPT_TEMPLATE" "uses_only [''MODULE''] InText MODEL_CC_TEMPLATE"
  "uses_only [''INCLUDE_GUARD''] InText MODEL_H_TEMPLATE" "uses_only [''MODULE''] InText HELPER_CC_TEMPLATE"
  "uses_only [''MODULE'', ''INCLUDE_GUARD''] InText HELPER_H_TEMPLATE"
  "uses_only [''MODULE''] InText EXAMPLES_WSCRIPT_TEMPLATE" "uses_only [''MODULE''] InText EXAMPLE_CC_TEMPLATE"
  "uses_only [''MODULE'', ''CAPITALIZED'', ''COMPOUND''] InText TEST_CC_TEMPLATE"
  "uses_only [''MODULE_DIR''] InText DOC_RST_TEMPLATE"
  unfolding WSCRIPT_TEMPLATE_def MODEL_CC_TEMPLATE_def MODEL_H_TEMPLATE_def HELPER_CC_TEMPLATE_def HELPER_H_TEMPLATE_def
    EXAMPLES_WSCRIPT_TEMPLATE_def EXAMPLE_CC_TEMPLATE_def TEST_CC_TEMPLATE_def DOC_RST_TEMPLATE_def
  by (rule uses_only_lines, code_simp)+

end
