(* ===== verification/CreateModule.thy ===== *)
theory CreateModule
  imports ModuleTemplates "HOL-Library.Sublist"
begin

text \<open>
  \<^verbatim>\<open>utils/create-module.py\<close>, second part: the directories and files of a new module, their
  removal when something fails, and the checks of \<^verbatim>\<open>main\<close> on its arguments. A path is the list
  of its components from the root, the file system a partial function on paths. The operating
  system is a parameter: which paths it lets the program create or write, and
  \<^verbatim>\<open>os.path.relpath\<close>. Names are ASCII strings; \<^verbatim>\<open>argparse\<close> has already split the arguments.
\<close>

section \<open>Files and directories\<close>

type_synonym path = "string list"

datatype fs_entry = Dir | RegularFile string

type_synonym file_tree = "path \<Rightarrow> fs_entry option"

record host =
  permitted :: "path \<Rightarrow> bool"
  relative :: "path \<Rightarrow> string"

text \<open>An operation returns a value or an exception together with the files it leaves.\<close>

type_synonym 'a io = "file_tree \<Rightarrow> 'a result \<times> file_tree"

definition io_return :: "'a \<Rightarrow> 'a io" where
  "io_return a fs = (Inr a, fs)"

definition io_then :: "'a io \<Rightarrow> 'b io \<Rightarrow> 'b io" where
  "io_then m k fs = (case m fs of (Inl e, fs') \<Rightarrow> (Inl e, fs') | (Inr _, fs') \<Rightarrow> k fs')"

text \<open>\<^verbatim>\<open>path.mkdir(parents=True)\<close>: the missing parents are created first, and stay when it fails.\<close>

function mkdir :: "host \<Rightarrow> path \<Rightarrow> unit io" where
  "mkdir os p fs =
     (if fs p \<noteq> None \<or> p = [] then (Inl OSError, fs)
      else
        case (case fs (butlast p) of
                Some Dir \<Rightarrow> (Inr (), fs)
              | Some (RegularFile _) \<Rightarrow> (Inl OSError, fs)
              | None \<Rightarrow> mkdir os (butlast p) fs) of
          (Inl e, fs') \<Rightarrow> (Inl e, fs')
        | (Inr _, fs') \<Rightarrow> if permitted os p then (Inr (), fs'(p \<mapsto> Dir)) else (Inl OSError, fs'))"
  by pat_completeness auto
termination by (relation "measure (\<lambda>(os, p, fs). length p)") auto

declare mkdir.simps [simp del]

text \<open>\<^verbatim>\<open>create_file\<close>: the file is opened, and so created empty, before the template is filled in.\<close>

definition create_file :: "host \<Rightarrow> path \<Rightarrow> string \<Rightarrow> (string, string) dict \<Rightarrow> unit io" where
  "create_file os p template kw fs =
     (if p = [] \<or> fs p = Some Dir \<or> fs (butlast p) \<noteq> Some Dir \<or> \<not> permitted os p then (Inl OSError, fs)
      else
        case py_format template kw of
          Inl e \<Rightarrow> (Inl e, fs(p \<mapsto> RegularFile []))
        | Inr s \<Rightarrow> (Inr (), fs(p \<mapsto> RegularFile s)))"

text \<open>\<^verbatim>\<open>shutil.rmtree\<close>\<close>

definition rmtree :: "path \<Rightarrow> file_tree \<Rightarrow> file_tree" where
  "rmtree p fs = (\<lambda>q. if prefix p q then None else fs q)"

section \<open>The parts of a module\<close>

definition upper_char :: "char \<Rightarrow> char" where
  "upper_char c = (let n = of_char c :: nat in if 97 \<le> n \<and> n \<le> 122 then char_of (n - 32) else c)"

definition lower_char :: "char \<Rightarrow> char" where
  "lower_char c = (let n = of_char c :: nat in if 65 \<le> n \<and> n \<le> 90 then char_of (n + 32) else c)"

definition capitalize :: "string \<Rightarrow> string" where
  "capitalize s = (case s of [] \<Rightarrow> [] | c # r \<Rightarrow> upper_char c # map lower_char r)"

definition guard_name :: "string \<Rightarrow> string" where
  "guard_name modname = map (\<lambda>c. upper_char (if c = CHR ''-'' then CHR ''_'' else c)) modname"

definition make_wscript :: "host \<Rightarrow> path \<Rightarrow> string \<Rightarrow> bool io" where
  "make_wscript os d m =
     io_then (create_file os (d @ [''wscript'']) WSCRIPT_TEMPLATE [(''MODULE'', m)]) (io_return True)"

definition make_model :: "host \<Rightarrow> path \<Rightarrow> string \<Rightarrow> bool io" where
  "make_model os d m =
     io_then (mkdir os (d @ [''model'']))
     (io_then (create_file os (d @ [''model'', m @ ''.cc'']) MODEL_CC_TEMPLATE [(''MODULE'', m)])
     (io_then (create_file os (d @ [''model'', m @ ''.h'']) MODEL_H_TEMPLATE
                [(''MODULE'', m), (''INCLUDE_GUARD'', guard_name m @ ''_H'')])
       (io_return True)))"

definition make_test :: "host \<Rightarrow> path \<Rightarrow> string \<Rightarrow> bool io" where
  "make_test os d m =
     (let parts = split_on (CHR ''-'') m in
      io_then (mkdir os (d @ [''test'']))
      (io_then (create_file os (d @ [''test'', m @ ''-test-suite.cc'']) TEST_CC_TEMPLATE
                 [(''MODULE'', m), (''CAPITALIZED'', concat (map capitalize parts)),
                  (''COMPOUND'', hd parts @ concat (map capitalize (tl parts)))])
        (io_return True)))"

definition make_helper :: "host \<Rightarrow> path \<Rightarrow> string \<Rightarrow> bool io" where
  "make_helper os d m =
     io_then (mkdir os (d @ [''helper'']))
     (io_then (create_file os (d @ [''helper'', m @ ''-helper.cc'']) HELPER_CC_TEMPLATE [(''MODULE'', m)])
     (io_then (create_file os (d @ [''helper'', m @ ''-helper.h'']) HELPER_H_TEMPLATE
                [(''MODULE'', m), (''INCLUDE_GUARD'', guard_name m @ ''_HELPER_H'')])
       (io_return True)))"

definition make_examples :: "host \<Rightarrow> path \<Rightarrow> string \<Rightarrow> bool io" where
  "make_examples os d m =
     io_then (mkdir os (d @ [''examples'']))
     (io_then (create_file os (d @ [''examples'', ''wscript'']) EXAMPLES_WSCRIPT_TEMPLATE [(''MODULE'', m)])
     (io_then (create_file os (d @ [''examples'', m @ ''-example.cc'']) EXAMPLE_CC_TEMPLATE [(''MODULE'', m)])
       (io_return True)))"

definition make_doc :: "host \<Rightarrow> path \<Rightarrow> string \<Rightarrow> bool io" where
  "make_doc os d m =
     io_then (mkdir os (d @ [''doc'']))
     (io_then (create_file os (d @ [''doc'', m @ ''.rst'']) DOC_RST_TEMPLATE
                [(''MODULE'', m), (''MODULE_DIR'', relative os d)])
       (io_return True))"

section \<open>A module\<close>

datatype message =
    AlreadyExists string
  | Creating path
  | CreationFailed string py_error
  | NameIsPath string
  | BadName string
  | Success

text \<open>\<^verbatim>\<open>all(func(modulepath, modname) for func in functions)\<close>\<close>

fun io_all :: "bool io list \<Rightarrow> bool io" where
  "io_all [] fs = (Inr True, fs)"
| "io_all (f # ms) fs =
     (case f fs of
        (Inl e, fs') \<Rightarrow> (Inl e, fs')
      | (Inr b, fs') \<Rightarrow> if b then io_all ms fs' else (Inr False, fs'))"

definition module_functions :: "host \<Rightarrow> path \<Rightarrow> string \<Rightarrow> bool io list" where
  "module_functions os d m =
     map (\<lambda>f. f os d m) [make_wscript, make_model, make_test, make_helper, make_examples, make_doc]"

definition generate :: "host \<Rightarrow> path \<Rightarrow> string \<Rightarrow> unit io" where
  "generate os d m =
     io_then (mkdir os d)
       (\<lambda>fs. case io_all (module_functions os d m) fs of
               (Inl e, fs') \<Rightarrow> (Inl e, fs')
             | (Inr success, fs') \<Rightarrow> if success then (Inr (), fs') else (Inl ValueError, fs'))"

definition make_module :: "host \<Rightarrow> path \<Rightarrow> string \<Rightarrow> file_tree \<Rightarrow> bool \<times> message list \<times> file_tree" where
  "make_module os modpath modname fs =
     (let d = modpath @ [modname] in
      if fs d \<noteq> None then (False, [AlreadyExists modname], fs)
      else
        case generate os d modname fs of
          (Inr _, fs') \<Rightarrow> (True, [Creating d], fs')
        | (Inl e, fs') \<Rightarrow>
            (False, [Creating d, CreationFailed modname e], if fs' d \<noteq> None then rmtree d fs' else fs'))"

section \<open>The program\<close>

definition word_char :: "char \<Rightarrow> bool" where
  "word_char c = field_char c"

text \<open>\<^verbatim>\<open>re.compile('^(\w|-)+$').match(s)\<close>: the dollar also matches before a newline at the end.\<close>

definition allowedRE :: "string \<Rightarrow> bool" where
  "allowedRE s =
     (let t = (if s \<noteq> [] \<and> last s = CHR 0x0A then butlast s else s)
      in t \<noteq> [] \<and> list_all (\<lambda>c. word_char c \<or> c = CHR ''-'') t)"

text \<open>The components of a relative path, without empty ones and dots.\<close>

definition path_parts :: "string \<Rightarrow> path" where
  "path_parts s = filter (\<lambda>p. p \<noteq> [] \<and> p \<noteq> ''.'') (split_on (CHR ''/'') s)"

definition strip_sep :: "string \<Rightarrow> string" where
  "strip_sep s = rev (dropWhile (\<lambda>c. c = CHR ''/'') (rev (dropWhile (\<lambda>c. c = CHR ''/'') s)))"

text \<open>A project that starts with exactly two slashes has a root of its own.\<close>

definition check_project :: "string \<Rightarrow> path option result" where
  "check_project project =
     (if project = [] then Inr None
      else if startswith project ''//'' \<and> \<not> startswith project ''///'' then Inl ValueError
      else if list_all allowedRE (path_parts project) then Inr (Some (path_parts project))
      else Inl (SystemExit 2))"

text \<open>One name: \<open>Inr None\<close> when it is skipped.\<close>

definition module_of_name ::
    "path \<Rightarrow> path option \<Rightarrow> string \<Rightarrow> message list \<times> (path \<times> string) option result" where
  "module_of_name cwd project name0 =
     (let name = strip_sep name0 in
      if name = [] then ([], Inr None)
      else
        let parts = path_parts name in
        if 2 < length parts then ([NameIsPath name], Inr None)
        else
          case parts of
            [] \<Rightarrow> ([], Inl IndexError)
          | p # ps \<Rightarrow>
             if p = ''src'' \<and> project \<noteq> None then ([], Inl (SystemExit 2))
             else
               let modpath = (if p = ''src'' then cwd @ [''src''] else cwd @ [''contrib'']);
                   rest = (if p = ''src'' \<or> p = ''contrib'' then ps else parts);
                   modpath = (case project of None \<Rightarrow> modpath | Some q \<Rightarrow> cwd @ [''contrib''] @ q)
               in case rest of
                    [] \<Rightarrow> ([], Inl IndexError)
                  | modname # _ \<Rightarrow>
                     if allowedRE modname then ([], Inr (Some (modpath, modname)))
                     else ([BadName modname], Inr None))"

fun collect_modules ::
    "path \<Rightarrow> path option \<Rightarrow> string list \<Rightarrow> message list \<times> (path \<times> string) list result" where
  "collect_modules cwd project [] = ([], Inr [])"
| "collect_modules cwd project (n # ns) =
     (case module_of_name cwd project n of
        (out, Inl e) \<Rightarrow> (out, Inl e)
      | (out, Inr m) \<Rightarrow>
         (case collect_modules cwd project ns of
            (out', r) \<Rightarrow> (out @ out', rbind r (\<lambda>ms. Inr ((case m of None \<Rightarrow> [] | Some x \<Rightarrow> [x]) @ ms)))))"

fun make_modules :: "host \<Rightarrow> (path \<times> string) list \<Rightarrow> file_tree \<Rightarrow> bool \<times> message list \<times> file_tree" where
  "make_modules os [] fs = (True, [], fs)"
| "make_modules os ((p, m) # ms) fs =
     (case make_module os p m fs of
        (False, out, fs') \<Rightarrow> (False, out, fs')
      | (True, out, fs') \<Rightarrow> (case make_modules os ms fs' of (b, out', fs'') \<Rightarrow> (b, out @ out', fs'')))"

definition create_module_main :: "host \<Rightarrow> path \<Rightarrow> string \<Rightarrow> string list \<Rightarrow> file_tree \<Rightarrow> int result \<times> message list \<times> file_tree" where
  "create_module_main os cwd project modnames fs =
     (if fs (cwd @ [''src'']) \<noteq> Some Dir \<or> fs (cwd @ [''contrib'']) \<noteq> Some Dir then (Inl (SystemExit 2), [], fs)
      else
        case check_project project of
          Inl e \<Rightarrow> (Inl e, [], fs)
        | Inr pp \<Rightarrow>
           (case collect_modules cwd pp modnames of
              (out, Inl e) \<Rightarrow> (Inl e, out, fs)
            | (out, Inr ms) \<Rightarrow>
               (case make_modules os ms fs of
                  (b, out', fs') \<Rightarrow> (Inr 0, out @ out' @ (if b then [Success] else []), fs'))))"

text \<open>What the shell sees.\<close>

definition exit_status :: "int result \<Rightarrow> int" where
  "exit_status r = (case r of Inr n \<Rightarrow> n | Inl (SystemExit n) \<Rightarrow> n | Inl _ \<Rightarrow> 1)"

section \<open>Well-formed file systems\<close>

text \<open>The parent of everything that exists is a directory.\<close>

definition wf_files :: "file_tree \<Rightarrow> bool" where
  "wf_files fs \<longleftrightarrow> fs [] = Some Dir \<and> (\<forall>p. p \<noteq> [] \<and> fs p \<noteq> None \<longrightarrow> fs (butlast p) = Some Dir)"

lemma wf_files_above:
  assumes "wf_files fs" "fs (p @ q) \<noteq> None" "q \<noteq> []"
  shows "fs p = Some Dir"
  using assms(2,3)
proof (induction q rule: rev_induct)
  case (snoc x q)
  with assms(1) have "fs (p @ q) = Some Dir" by (auto simp: wf_files_def butlast_append dest!: spec [of _ "p @ q @ [x]"])
  with snoc.IH show ?case by (cases "q = []") auto
qed simp

lemma wf_files_below: "wf_files fs \<Longrightarrow> fs p \<noteq> Some Dir \<Longrightarrow> q \<noteq> [] \<Longrightarrow> fs (p @ q) = None"
  using wf_files_above by blast

lemma wf_files_upd:
  assumes "wf_files fs" "p \<noteq> []" "fs (butlast p) = Some Dir" "e = Dir \<or> fs p \<noteq> Some Dir"
  shows "wf_files (fs(p \<mapsto> e))"
proof -
  have "fs q = None" if "q \<noteq> []" "butlast q = p" "e \<noteq> Dir" for q
    using wf_files_below [OF assms(1), of p "[last q]"] assms(4) that by (metis append_butlast_last_id not_Cons_self2)
  with assms show ?thesis by (auto simp: wf_files_def)
qed

text \<open>The only change are new directories above a path, or the path itself.\<close>

definition adds_dirs :: "path \<Rightarrow> file_tree \<Rightarrow> file_tree \<Rightarrow> bool" where
  "adds_dirs p fs fs' \<longleftrightarrow> (\<forall>q. fs' q = fs q \<or> fs q = None \<and> fs' q = Some Dir \<and> prefix q p)"

lemma prefix_butlast: "prefix q (butlast p) \<Longrightarrow> prefix q p"
  by (metis append_butlast_last_id butlast.simps(1) prefix_prefix)

lemma mkdir_effect:
  assumes "wf_files fs" "mkdir os p fs = (r, fs')"
  shows "wf_files fs' \<and> adds_dirs p fs fs' \<and>
    (case r of Inr _ \<Rightarrow> fs p = None \<and> fs' p = Some Dir | Inl _ \<Rightarrow> fs' p = fs p)"
  using assms
proof (induction os p fs arbitrary: r fs' rule: mkdir.induct)
  case (1 os p fs)
  show ?case
  proof (cases "fs p \<noteq> None \<or> p = []")
    case True
    with 1 show ?thesis by (auto simp: mkdir.simps [of os p] adds_dirs_def)
  next
    case new: False
    obtain r1 fs1 where m: "(case fs (butlast p) of Some Dir \<Rightarrow> (Inr (), fs) | Some (RegularFile _) \<Rightarrow> (Inl OSError, fs)
        | None \<Rightarrow> mkdir os (butlast p) fs) = (r1, fs1)" by fastforce
    have p: "\<not> prefix p (butlast p)" using new by (metis length_butlast not_le prefix_length_le diff_less length_greater_0_conv zero_less_one)
    have one: "wf_files fs1 \<and> adds_dirs (butlast p) fs fs1 \<and> (case r1 of Inr _ \<Rightarrow> fs1 (butlast p) = Some Dir | Inl _ \<Rightarrow> True)"
    proof (cases "fs (butlast p)")
      case None
      with 1 new m show ?thesis by (auto split: sum.splits)
    next
      case (Some e)
      with m 1(2) show ?thesis by (cases e) (auto simp: adds_dirs_def)
    qed
    then have "fs1 p = None" using p new by (metis adds_dirs_def)
    moreover have "adds_dirs p fs fs1" using one prefix_butlast by (fastforce simp: adds_dirs_def)
    ultimately show ?thesis
      using one new 1(3) m wf_files_upd [of fs1 p Dir]
      by (auto simp: mkdir.simps [of os p fs] adds_dirs_def split: sum.splits if_splits)
  qed
qed

section \<open>Operations inside a directory\<close>

text \<open>An operation that works in an existing directory, keeps it and changes nothing outside.\<close>

definition inside :: "path \<Rightarrow> 'a io \<Rightarrow> bool" where
  "inside d f \<longleftrightarrow>
     (\<forall>fs r fs'. wf_files fs \<and> fs d = Some Dir \<and> f fs = (r, fs') \<longrightarrow>
        wf_files fs' \<and> fs' d = Some Dir \<and> (\<forall>q. \<not> prefix d q \<longrightarrow> fs' q = fs q))"

named_theorems inside_intros

lemma insideD:
  "inside d f \<Longrightarrow> wf_files fs \<Longrightarrow> fs d = Some Dir \<Longrightarrow> f fs = (r, fs') \<Longrightarrow>
     wf_files fs' \<and> fs' d = Some Dir \<and> (\<forall>q. \<not> prefix d q \<longrightarrow> fs' q = fs q)"
  unfolding inside_def by blast

lemma inside_return [inside_intros]: "inside d (io_return a)"
  by (simp add: inside_def io_return_def)

lemma inside_then [inside_intros]:
  assumes "inside d m" "inside d k"
  shows "inside d (io_then m k)"
  unfolding inside_def
proof (intro allI impI)
  fix fs r fs'
  assume *: "wf_files fs \<and> fs d = Some Dir \<and> io_then m k fs = (r, fs')"
  obtain r1 fs1 where m: "m fs = (r1, fs1)" by fastforce
  from * m insideD [OF assms(1), of fs r1 fs1] insideD [OF assms(2), of fs1 r fs']
  show "wf_files fs' \<and> fs' d = Some Dir \<and> (\<forall>q. \<not> prefix d q \<longrightarrow> fs' q = fs q)"
    by (auto simp: io_then_def split: sum.splits)
qed

lemma inside_mkdir [inside_intros]: "inside d (mkdir os (d @ [x]))"
  unfolding inside_def
proof (intro allI impI)
  fix fs r fs'
  assume *: "wf_files fs \<and> fs d = Some Dir \<and> mkdir os (d @ [x]) fs = (r, fs')"
  with mkdir_effect [of fs os "d @ [x]" r fs'] have w: "wf_files fs'" "adds_dirs (d @ [x]) fs fs'" by auto
  have "fs' q = fs q" if "\<not> prefix d q" for q
  proof (cases "prefix q (d @ [x])")
    case True
    with that obtain r where "d = q @ r" "r \<noteq> []" by (auto simp: prefix_def append_eq_append_conv2)
    with * have "fs q = Some Dir" using wf_files_above [of fs q r] by auto
    with w(2) show ?thesis by (metis adds_dirs_def option.distinct(1))
  qed (use w(2) in \<open>metis adds_dirs_def\<close>)
  moreover have "fs' d = Some Dir" using w(2) * by (metis adds_dirs_def)
  ultimately show "wf_files fs' \<and> fs' d = Some Dir \<and> (\<forall>q. \<not> prefix d q \<longrightarrow> fs' q = fs q)" using w(1) by blast
qed

lemma inside_create_file [inside_intros]: "xs \<noteq> [] \<Longrightarrow> inside d (create_file os (d @ xs) t kw)"
  unfolding inside_def create_file_def
  by (auto simp: wf_files_upd butlast_append prefix_def split: if_splits sum.splits)

lemma inside_all:
  "list_all (inside d) ms \<Longrightarrow> inside d (io_all ms)"
proof (induction ms)
  case (Cons f ms)
  show ?case
    unfolding inside_def
  proof (intro allI impI)
    fix fs r fs'
    assume *: "wf_files fs \<and> fs d = Some Dir \<and> io_all (f # ms) fs = (r, fs')"
    obtain r1 fs1 where m: "f fs = (r1, fs1)" by fastforce
    from * m insideD [of d f fs r1 fs1] insideD [of d "io_all ms" fs1 r fs'] Cons
    show "wf_files fs' \<and> fs' d = Some Dir \<and> (\<forall>q. \<not> prefix d q \<longrightarrow> fs' q = fs q)"
      by (auto split: sum.splits if_splits)
  qed
qed (simp add: inside_def)

lemma inside_functions: "inside d (io_all (module_functions os d m))"
  by (rule inside_all)
    (simp add: module_functions_def make_wscript_def make_model_def make_test_def make_helper_def make_examples_def
      make_doc_def Let_def inside_intros)

section \<open>The files of a module\<close>

definition filled :: "string \<Rightarrow> (string, string) dict \<Rightarrow> string" where
  "filled t kw = (case py_format t kw of Inr s \<Rightarrow> s | Inl _ \<Rightarrow> [])"

text \<open>Entries written one after the other.\<close>

definition put_all :: "(path \<times> fs_entry) list \<Rightarrow> file_tree \<Rightarrow> file_tree" where
  "put_all es fs = fold (\<lambda>(p, e) fs. fs(p \<mapsto> e)) es fs"

definition make_files :: "host \<Rightarrow> (path \<times> string \<times> (string, string) dict) list \<Rightarrow> bool io" where
  "make_files os cs = foldr (\<lambda>(p, t, kw). io_then (create_file os p t kw)) cs (io_return True)"

definition file_entries :: "(path \<times> string \<times> (string, string) dict) list \<Rightarrow> (path \<times> fs_entry) list" where
  "file_entries cs = map (\<lambda>(p, t, kw). (p, RegularFile (filled t kw))) cs"

text \<open>Files of one directory: all of them are written, or the first that is not permitted raises.\<close>

lemma make_files_result:
  assumes "fs d = Some Dir" "\<And>p t kw. (p, t, kw) \<in> set cs \<Longrightarrow> p \<noteq> [] \<and> butlast p = d \<and> fs p \<noteq> Some Dir \<and> (\<exists>s. py_format t kw = Inr s)"
  shows "if list_all (\<lambda>(p, _). permitted os p) cs then make_files os cs fs = (Inr True, put_all (file_entries cs) fs)
    else \<exists>fs'. make_files os cs fs = (Inl OSError, fs')"
  using assms
proof (induction cs arbitrary: fs)
  case Nil
  show ?case by (simp add: make_files_def io_return_def put_all_def file_entries_def)
next
  case (Cons c cs)
  obtain p t kw where c: "c = (p, t, kw)" by (cases c)
  from Cons.prems(2) [of p t kw] c obtain s where p: "p \<noteq> []" "butlast p = d" "fs p \<noteq> Some Dir" "py_format t kw = Inr s" by auto
  have "p \<noteq> d" using p(1,2) by (metis length_butlast diff_less length_greater_0_conv less_irrefl zero_less_one)
  then have "(fs(p \<mapsto> RegularFile s)) d = Some Dir" using Cons.prems(1) by simp
  then have "if list_all (\<lambda>(p, _). permitted os p) cs
      then make_files os cs (fs(p \<mapsto> RegularFile s)) = (Inr True, put_all (file_entries cs) (fs(p \<mapsto> RegularFile s)))
      else \<exists>fs'. make_files os cs (fs(p \<mapsto> RegularFile s)) = (Inl OSError, fs')"
    by (rule Cons.IH) (use Cons.prems(2) in \<open>fastforce split: if_splits\<close>)
  with p c Cons.prems(1) show ?case
    by (auto simp: make_files_def io_then_def create_file_def put_all_def file_entries_def filled_def)
qed

definition wscript_file :: "path \<Rightarrow> string \<Rightarrow> (path \<times> string \<times> (string, string) dict) list" where
  "wscript_file d m = [(d @ [''wscript''], WSCRIPT_TEMPLATE, [(''MODULE'', m)])]"

definition module_parts :: "host \<Rightarrow> path \<Rightarrow> string \<Rightarrow> (string \<times> (path \<times> string \<times> (string, string) dict) list) list" where
  "module_parts os d m =
     [(''model'',
       [(d @ [''model'', m @ ''.cc''], MODEL_CC_TEMPLATE, [(''MODULE'', m)]),
        (d @ [''model'', m @ ''.h''], MODEL_H_TEMPLATE, [(''MODULE'', m), (''INCLUDE_GUARD'', guard_name m @ ''_H'')])]),
      (''test'',
       [(d @ [''test'', m @ ''-test-suite.cc''], TEST_CC_TEMPLATE,
         [(''MODULE'', m), (''CAPITALIZED'', concat (map capitalize (split_on (CHR ''-'') m))),
          (''COMPOUND'', hd (split_on (CHR ''-'') m) @ concat (map capitalize (tl (split_on (CHR ''-'') m))))])]),
      (''helper'',
       [(d @ [''helper'', m @ ''-helper.cc''], HELPER_CC_TEMPLATE, [(''MODULE'', m)]),
        (d @ [''helper'', m @ ''-helper.h''], HELPER_H_TEMPLATE,
         [(''MODULE'', m), (''INCLUDE_GUARD'', guard_name m @ ''_HELPER_H'')])]),
      (''examples'',
       [(d @ [''examples'', ''wscript''], EXAMPLES_WSCRIPT_TEMPLATE, [(''MODULE'', m)]),
        (d @ [''examples'', m @ ''-example.cc''], EXAMPLE_CC_TEMPLATE, [(''MODULE'', m)])]),
      (''doc'', [(d @ [''doc'', m @ ''.rst''], DOC_RST_TEMPLATE, [(''MODULE'', m), (''MODULE_DIR'', relative os d)])])]"

definition make_part :: "host \<Rightarrow> path \<Rightarrow> string \<times> (path \<times> string \<times> (string, string) dict) list \<Rightarrow> bool io" where
  "make_part os d part = io_then (mkdir os (d @ [fst part])) (make_files os (snd part))"

definition part_entries :: "path \<Rightarrow> string \<times> (path \<times> string \<times> (string, string) dict) list \<Rightarrow> (path \<times> fs_entry) list" where
  "part_entries d part = (d @ [fst part], Dir) # file_entries (snd part)"

definition module_entries :: "host \<Rightarrow> path \<Rightarrow> string \<Rightarrow> (path \<times> fs_entry) list" where
  "module_entries os d m = file_entries (wscript_file d m) @ concat (map (part_entries d) (module_parts os d m))"

lemma module_functions_parts:
  "module_functions os d m = make_files os (wscript_file d m) # map (make_part os d) (module_parts os d m)"
  by (simp add: module_functions_def make_wscript_def make_model_def make_test_def make_helper_def make_examples_def
      make_doc_def make_part_def make_files_def module_parts_def wscript_file_def Let_def)

text \<open>The names of the parts differ, their files lie in their directories and can be filled in.\<close>

definition part_ok :: "path \<Rightarrow> string \<times> (path \<times> string \<times> (string, string) dict) list \<Rightarrow> bool" where
  "part_ok d part \<longleftrightarrow> (\<forall>(p, t, kw) \<in> set (snd part). (\<exists>y. p = d @ [fst part, y]) \<and> (\<exists>s. py_format t kw = Inr s))"

lemma module_parts_ok: "list_all (part_ok d) (module_parts os d m) \<and> distinct (map fst (module_parts os d m))"
  by (simp add: module_parts_def part_ok_def dict_keys_def py_format_succeeds [OF template_fields(2)]
      py_format_succeeds [OF template_fields(3)] py_format_succeeds [OF template_fields(4)]
      py_format_succeeds [OF template_fields(5)] py_format_succeeds [OF template_fields(6)]
      py_format_succeeds [OF template_fields(7)] py_format_succeeds [OF template_fields(8)]
      py_format_succeeds [OF template_fields(9)])

lemma file_entries_paths: "list_all (\<lambda>(p, _). P p) (file_entries cs) = list_all (\<lambda>(p, _). P p) cs"
  by (induction cs) (auto simp: file_entries_def)

lemma put_all_other: "q \<notin> fst ` set es \<Longrightarrow> put_all es fs q = fs q"
  by (induction es arbitrary: fs) (auto simp: put_all_def)

lemma put_all_append: "put_all (es @ es') fs = put_all es' (put_all es fs)"
  by (simp add: put_all_def)

lemma mkdir_direct:
  "fs d = Some Dir \<Longrightarrow> fs (d @ [x]) = None \<Longrightarrow>
     mkdir os (d @ [x]) fs = (if permitted os (d @ [x]) then (Inr (), fs(d @ [x] \<mapsto> Dir)) else (Inl OSError, fs))"
  by (simp add: mkdir.simps [of os "d @ [x]"])

lemma make_part_result:
  assumes "fs d = Some Dir" "fs (d @ [fst part]) = None" "\<And>y. fs (d @ [fst part, y]) = None" "part_ok d part"
  shows "if list_all (\<lambda>(p, _). permitted os p) (part_entries d part)
    then make_part os d part fs = (Inr True, put_all (part_entries d part) fs)
    else \<exists>fs'. make_part os d part fs = (Inl OSError, fs')"
proof (cases "permitted os (d @ [fst part])")
  case True
  let ?fs = "fs(d @ [fst part] \<mapsto> Dir)"
  have "if list_all (\<lambda>(p, _). permitted os p) (snd part)
      then make_files os (snd part) ?fs = (Inr True, put_all (file_entries (snd part)) ?fs)
      else \<exists>fs'. make_files os (snd part) ?fs = (Inl OSError, fs')"
    by (rule make_files_result [of _ "d @ [fst part]"]) (use assms(3,4) in \<open>fastforce simp: part_ok_def butlast_append\<close>)+
  moreover have "list_all (\<lambda>(p, _). permitted os p) (part_entries d part) = list_all (\<lambda>(p, _). permitted os p) (snd part)"
    using True by (simp add: part_entries_def file_entries_paths)
  moreover have "put_all (part_entries d part) fs = put_all (file_entries (snd part)) ?fs"
    by (simp add: part_entries_def put_all_def)
  ultimately show ?thesis using True assms(1,2) by (auto simp: make_part_def io_then_def mkdir_direct)
next
  case False
  with assms(1,2) show ?thesis by (simp add: make_part_def io_then_def mkdir_direct part_entries_def)
qed

lemma make_parts_result:
  assumes "fs d = Some Dir" "\<And>x ys. x \<in> fst ` set parts \<Longrightarrow> fs (d @ x # ys) = None"
    and "list_all (part_ok d) parts" "distinct (map fst parts)"
  shows "if list_all (\<lambda>(p, _). permitted os p) (concat (map (part_entries d) parts))
    then io_all (map (make_part os d) parts) fs = (Inr True, put_all (concat (map (part_entries d) parts)) fs)
    else \<exists>fs'. io_all (map (make_part os d) parts) fs = (Inl OSError, fs')"
  using assms
proof (induction parts arbitrary: fs)
  case Nil
  show ?case by (simp add: put_all_def)
next
  case (Cons part parts)
  let ?fs = "put_all (part_entries d part) fs"
  have one: "if list_all (\<lambda>(p, _). permitted os p) (part_entries d part) then make_part os d part fs = (Inr True, ?fs)
      else \<exists>fs'. make_part os d part fs = (Inl OSError, fs')"
    by (rule make_part_result) (use Cons.prems in auto)
  have paths: "\<exists>ys. p = d @ fst part # ys" if "p \<in> fst ` set (part_entries d part)" for p
    using that Cons.prems(3) by (fastforce simp: part_entries_def file_entries_def part_ok_def)
  have "d \<notin> fst ` set (part_entries d part)" using paths [of d] by auto
  then have "?fs d = Some Dir" using Cons.prems(1) by (simp add: put_all_other)
  moreover have "?fs (d @ x # ys) = None" if "x \<in> fst ` set parts" for x ys
  proof -
    have "d @ x # ys \<notin> fst ` set (part_entries d part)"
    proof
      assume "d @ x # ys \<in> fst ` set (part_entries d part)"
      from paths [OF this] have "x = fst part" by auto
      with that Cons.prems(4) show False by auto
    qed
    with that Cons.prems(2) show ?thesis by (simp add: put_all_other)
  qed
  ultimately have "if list_all (\<lambda>(p, _). permitted os p) (concat (map (part_entries d) parts))
      then io_all (map (make_part os d) parts) ?fs = (Inr True, put_all (concat (map (part_entries d) parts)) ?fs)
      else \<exists>fs'. io_all (map (make_part os d) parts) ?fs = (Inl OSError, fs')"
    by (rule Cons.IH) (use Cons.prems in auto)
  with one show ?case by (auto simp: put_all_append split: if_splits)
qed

section \<open>The whole module\<close>

lemma generate_result:
  assumes "wf_files fs" "fs d = None" "mkdir os d fs = (r, fs1)"
  shows "if (\<exists>u. r = Inr u) \<and> list_all (\<lambda>(p, _). permitted os p) (module_entries os d m)
    then generate os d m fs = (Inr (), put_all (module_entries os d m) fs1)
    else \<exists>e fs'. generate os d m fs = (Inl e, fs')"
proof (cases r)
  case (Inl e)
  with assms(3) show ?thesis by (simp add: generate_def io_then_def)
next
  case (Inr u)
  from mkdir_effect [OF assms(1,3)] Inr have w: "wf_files fs1" "fs1 d = Some Dir" "adds_dirs d fs fs1" by auto
  have below: "fs1 (d @ x # ys) = None" for x ys
  proof -
    have "fs (d @ x # ys) = None" using assms(1,2) by (simp add: wf_files_below)
    moreover have "\<not> prefix (d @ x # ys) d" by (auto simp: prefix_def)
    ultimately show ?thesis using w(3) by (metis adds_dirs_def)
  qed
  let ?w = "wscript_file d m" and ?fs2 = "put_all (file_entries (wscript_file d m)) fs1"
  have one: "if list_all (\<lambda>(p, _). permitted os p) ?w then make_files os ?w fs1 = (Inr True, ?fs2)
      else \<exists>fs'. make_files os ?w fs1 = (Inl OSError, fs')"
    by (rule make_files_result [of _ d])
      (use w below py_format_succeeds [OF template_fields(1)] in \<open>auto simp: wscript_file_def dict_keys_def\<close>)
  have "?fs2 d = Some Dir" using w(2) by (simp add: put_all_def file_entries_def wscript_file_def)
  moreover have "?fs2 (d @ x # ys) = None" if "x \<in> fst ` set (module_parts os d m)" for x ys
    using that below by (auto simp: put_all_def file_entries_def wscript_file_def module_parts_def)
  ultimately have "if list_all (\<lambda>(p, _). permitted os p) (concat (map (part_entries d) (module_parts os d m)))
      then io_all (map (make_part os d) (module_parts os d m)) ?fs2 =
        (Inr True, put_all (concat (map (part_entries d) (module_parts os d m))) ?fs2)
      else \<exists>fs'. io_all (map (make_part os d) (module_parts os d m)) ?fs2 = (Inl OSError, fs')"
    by (rule make_parts_result) (use module_parts_ok in auto)
  moreover have "list_all (\<lambda>(p, _). permitted os p) (module_entries os d m) \<longleftrightarrow>
      list_all (\<lambda>(p, _). permitted os p) ?w \<and>
      list_all (\<lambda>(p, _). permitted os p) (concat (map (part_entries d) (module_parts os d m)))"
    by (simp add: module_entries_def file_entries_paths)
  moreover have "put_all (module_entries os d m) fs1 = put_all (concat (map (part_entries d) (module_parts os d m))) ?fs2"
    by (simp add: module_entries_def put_all_append)
  ultimately show ?thesis
    using one Inr assms(3) by (auto simp: generate_def io_then_def module_functions_parts split: if_splits)
qed

text \<open>When \<^verbatim>\<open>mkdir\<close> succeeds: everything missing on the way is permitted, and nothing on it is a file.\<close>

lemma prefix_last_cases: "prefix q p \<longleftrightarrow> q = p \<or> p \<noteq> [] \<and> prefix q (butlast p)"
  by (cases p rule: rev_cases) auto

lemma mkdir_succeeds_iff:
  assumes "wf_files fs" "fs p = None"
  shows "(\<exists>u fs'. mkdir os p fs = (Inr u, fs')) \<longleftrightarrow>
    (\<forall>q. prefix q p \<longrightarrow> (case fs q of None \<Rightarrow> permitted os q | Some e \<Rightarrow> e = Dir))"
  using assms
proof (induction os p fs rule: mkdir.induct)
  case (1 os p fs)
  then have p: "p \<noteq> []" by (auto simp: wf_files_def)
  let ?ok = "\<lambda>q. case fs q of None \<Rightarrow> permitted os q | Some e \<Rightarrow> e = Dir"
  have all: "(\<forall>q. prefix q p \<longrightarrow> ?ok q) \<longleftrightarrow> permitted os p \<and> (\<forall>q. prefix q (butlast p) \<longrightarrow> ?ok q)"
    using p 1(3) prefix_last_cases [of _ p] by auto
  show ?case
  proof (cases "fs (butlast p)")
    case None
    with 1 p have "(\<exists>u fs'. mkdir os (butlast p) fs = (Inr u, fs')) \<longleftrightarrow> (\<forall>q. prefix q (butlast p) \<longrightarrow> ?ok q)" by simp
    with None p 1(3) show ?thesis
      unfolding all by (auto simp: mkdir.simps [of os p] split: prod.splits sum.splits if_splits)
  next
    case (Some e)
    show ?thesis
    proof (cases e)
      case Dir
      have "?ok q" if q: "prefix q (butlast p)" for q
      proof -
        from q obtain r where r: "butlast p = q @ r" by (auto simp: prefix_def)
        with Some Dir 1(2) wf_files_above [of fs q r] have "fs q = Some Dir" by (cases "r = []") auto
        then show ?thesis by simp
      qed
      with Some Dir p 1(3) show ?thesis unfolding all by (simp add: mkdir.simps [of os p])
    next
      case (RegularFile s)
      with Some have "\<not> ?ok (butlast p)" by simp
      with Some RegularFile p 1(3) show ?thesis unfolding all by (auto simp: mkdir.simps [of os p])
    qed
  qed
qed

lemma put_all_over: "put_all es fs q = (case put_all es Map.empty q of None \<Rightarrow> fs q | Some e \<Rightarrow> Some e)"
  by (induction es rule: rev_induct) (auto simp: put_all_def)

lemma module_entries_below: "p \<in> fst ` set (module_entries os d m) \<Longrightarrow> strict_prefix d p"
  by (auto simp: module_entries_def module_parts_def part_entries_def file_entries_def wscript_file_def strict_prefix_def)

lemma prefix_snoc_cases: "prefix q (mp @ [x]) \<longleftrightarrow> q = mp @ [x] \<or> prefix q mp"
  by auto

lemma wf_rmtree: "wf_files fs \<Longrightarrow> d \<noteq> [] \<Longrightarrow> wf_files (rmtree d fs)"
  using prefix_butlast by (auto simp: wf_files_def rmtree_def)

text \<open>A failure leaves at most new directories above the module.\<close>

lemma make_module_fails:
  assumes w: "wf_files fs" and d: "d = mp @ [m]" "fs d = None" and g: "generate os d m fs = (Inl e, fs2)"
  shows "wf_files (if fs2 d \<noteq> None then rmtree d fs2 else fs2) \<and> adds_dirs mp fs (if fs2 d \<noteq> None then rmtree d fs2 else fs2)"
proof -
  obtain r fs1 where m: "mkdir os d fs = (r, fs1)" by fastforce
  note eff = mkdir_effect [OF w m]
  show ?thesis
  proof (cases r)
    case (Inl e)
    with g m have "fs2 = fs1" by (simp add: generate_def io_then_def)
    with eff Inl d show ?thesis by (auto simp: adds_dirs_def prefix_snoc_cases)
  next
    case (Inr u)
    with g m obtain r2 where "io_all (module_functions os d m) fs1 = (r2, fs2)"
      by (auto simp: generate_def io_then_def split: prod.splits sum.splits if_splits)
    with insideD [OF inside_functions, of fs1 d os m r2 fs2] eff Inr
    have fs2: "wf_files fs2" "fs2 d = Some Dir" "\<And>q. \<not> prefix d q \<Longrightarrow> fs2 q = fs1 q" by auto
    have "fs q = None" if "prefix d q" for q
      using that wf_files_below [OF w, of d] d(2) by (auto simp: prefix_def) (metis append_Nil2 option.distinct(1))
    then have "adds_dirs mp fs (rmtree d fs2)"
      using eff fs2(3) d(1) by (auto simp: adds_dirs_def rmtree_def prefix_snoc_cases)
    with fs2 d(1) show ?thesis by (simp add: wf_rmtree)
  qed
qed

lemma make_module_succeeds:
  assumes w: "wf_files fs" and d: "d = mp @ [m]" "fs d = None" and mk: "mkdir os d fs = (Inr u, fs1)"
  shows "wf_files fs1"
    "put_all (module_entries os d m) fs1 q =
       (if prefix d q then put_all ((d, Dir) # module_entries os d m) Map.empty q
        else if fs q = None \<and> prefix q mp then Some Dir else fs q)"
proof -
  from mkdir_effect [OF w mk] have fs1: "wf_files fs1" "adds_dirs d fs fs1" "fs1 d = Some Dir" by auto
  then show "wf_files fs1" by simp
  have other: "put_all (module_entries os d m) fs1 q = fs1 q" if "\<not> strict_prefix d q"
    using that module_entries_below put_all_other by metis
  show "put_all (module_entries os d m) fs1 q =
       (if prefix d q then put_all ((d, Dir) # module_entries os d m) Map.empty q
        else if fs q = None \<and> prefix q mp then Some Dir else fs q)"
  proof (cases "prefix d q")
    case True
    have "fs1 q = (if q = d then Some Dir else None)"
    proof (cases "q = d")
      case False
      with True obtain r where r: "q = d @ r" "r \<noteq> []" by (auto simp: prefix_def)
      then have "fs q = None" using wf_files_below [OF w] d(2) by simp
      moreover have "\<not> prefix q d" using r by (auto simp: prefix_def)
      ultimately show ?thesis using False fs1(2) by (metis adds_dirs_def)
    qed (use fs1 in simp)
    then have "fs1 q = (Map.empty(d \<mapsto> Dir)) q" by simp
    then have "put_all (module_entries os d m) fs1 q = put_all (module_entries os d m) (Map.empty(d \<mapsto> Dir)) q"
      by (simp only: put_all_over [of _ fs1] put_all_over [of _ "Map.empty(d \<mapsto> Dir)"])
    with True show ?thesis by (simp add: put_all_def)
  next
    case False
    then have "put_all (module_entries os d m) fs1 q = fs1 q" using other strict_prefixE by blast
    moreover have "fs1 q = (if fs q = None \<and> prefix q mp then Some Dir else fs q)"
    proof (cases "fs q = None \<and> prefix q mp")
      case True
      then obtain r where "d = q @ r @ [m]" using d(1) by (auto simp: prefix_def)
      with wf_files_above [OF fs1(1), of q "r @ [m]"] fs1(3) True show ?thesis by auto
    next
      case no: False
      with False d(1) fs1(2) show ?thesis by (metis adds_dirs_def prefix_snoc_cases prefix_order.order_refl)
    qed
    ultimately show ?thesis using False by simp
  qed
qed

text \<open>The two outcomes of a module together.\<close>

lemma make_module_result:
  assumes w: "wf_files fs" and mod: "make_module os mp m fs = (b, out, fs')" and d: "d = mp @ [m]"
  shows "wf_files fs' \<and>
    (b \<longleftrightarrow> fs d = None \<and> (\<exists>u fs1. mkdir os d fs = (Inr u, fs1)) \<and> list_all (\<lambda>(p, _). permitted os p) (module_entries os d m)) \<and>
    (if b then (\<forall>q. fs' q = (if prefix d q then put_all ((d, Dir) # module_entries os d m) Map.empty q
                            else if fs q = None \<and> prefix q mp then Some Dir else fs q))
     else adds_dirs mp fs fs')"
proof (cases "fs d")
  case (Some e)
  with mod d w show ?thesis by (auto simp: make_module_def Let_def adds_dirs_def)
next
  case None
  obtain r fs1 where mk: "mkdir os d fs = (r, fs1)" by fastforce
  note gen = generate_result [OF w None mk, of m]
  show ?thesis
  proof (cases "(\<exists>u. r = Inr u) \<and> list_all (\<lambda>(p, _). permitted os p) (module_entries os d m)")
    case True
    then obtain u where "mkdir os d fs = (Inr u, fs1)" using mk by auto
    note ok = make_module_succeeds [OF w d None this]
    from gen True mod d None have "b" "fs' = put_all (module_entries os d m) fs1" by (auto simp: make_module_def Let_def)
    moreover have "wf_files fs'"
    proof -
      have "generate os d m fs = (Inr (), fs')" using gen True \<open>fs' = _\<close> by simp
      then obtain r2 where "io_all (module_functions os d m) fs1 = (r2, fs')"
        using mk True by (cases "io_all (module_functions os d m) fs1") (auto simp: generate_def io_then_def split: sum.splits if_splits)
      moreover have "fs1 d = Some Dir" using mkdir_effect [OF w mk] True by auto
      ultimately show ?thesis using insideD [OF inside_functions ok(1)] by blast
    qed
    ultimately show ?thesis using ok(2) True None mk by auto
  next
    case False
    with gen obtain e fs2 where g: "generate os d m fs = (Inl e, fs2)" by auto
    with mod d None have "\<not> b" "fs' = (if fs2 d \<noteq> None then rmtree d fs2 else fs2)" by (auto simp: make_module_def Let_def)
    with make_module_fails [OF w d None g] False mk show ?thesis by auto
  qed
qed

text \<open>
  C21: A module is created completely or not at all. The result is true exactly when the module did
  not exist, all its files and directories may be created, and every missing directory on the
  way may be created while nothing on the way is a file; then the module has exactly its six
  directories and nine files, with the templates filled in. Otherwise everything is as before,
  except that directories above the module that were created stay.
\<close>

theorem make_module_atomic:
  assumes "wf_files fs" "make_module os mp m fs = (b, out, fs')"
  shows "let d = mp @ [m]; es = (d, Dir) # module_entries os d m in
    wf_files fs' \<and>
    (b \<longleftrightarrow> fs d = None \<and> list_all (\<lambda>(p, _). permitted os p) es \<and>
       (\<forall>q. prefix q mp \<longrightarrow> (case fs q of None \<Rightarrow> permitted os q | Some e \<Rightarrow> e = Dir))) \<and>
    (if b then (\<forall>q. fs' q = (if prefix d q then put_all es Map.empty q
                            else if fs q = None \<and> prefix q mp then Some Dir else fs q))
     else adds_dirs mp fs fs')"
proof -
  have "(\<exists>u fs1. mkdir os (mp @ [m]) fs = (Inr u, fs1)) \<longleftrightarrow>
      permitted os (mp @ [m]) \<and> (\<forall>q. prefix q mp \<longrightarrow> (case fs q of None \<Rightarrow> permitted os q | Some e \<Rightarrow> e = Dir))"
    if "fs (mp @ [m]) = None"
    using mkdir_succeeds_iff [OF assms(1) that, of os] that by (auto simp: prefix_snoc_cases)
  with make_module_result [OF assms refl] show ?thesis by (auto simp: Let_def)
qed

section \<open>The program stays in its directories\<close>

text \<open>Nothing that exists is changed, and what is new lies below one of the two directories.\<close>

definition confined :: "path \<Rightarrow> file_tree \<Rightarrow> file_tree \<Rightarrow> bool" where
  "confined cwd fs fs' \<longleftrightarrow>
     (\<forall>q. fs' q = fs q \<or> fs q = None \<and> (strict_prefix (cwd @ [''src'']) q \<or> strict_prefix (cwd @ [''contrib'']) q))"

lemma make_module_confined:
  assumes w: "wf_files fs" and mod: "make_module os mp m fs = (b, out, fs')"
    and mp: "prefix (cwd @ [s]) mp" "s = ''src'' \<or> s = ''contrib''" and s: "fs (cwd @ [s]) = Some Dir"
  shows "wf_files fs' \<and> confined cwd fs fs'"
proof -
  note res = make_module_result [OF w mod refl]
  have above: "strict_prefix (cwd @ [s]) q" if "prefix q mp" "fs q = None" for q
  proof -
    from that(1) mp(1) have "prefix q (cwd @ [s]) \<or> strict_prefix (cwd @ [s]) q"
      by (metis prefix_same_cases prefix_order.le_less)
    moreover have "fs q \<noteq> None" if pre: "prefix q (cwd @ [s])"
    proof -
      from pre obtain r where "cwd @ [s] = q @ r" by (auto simp: prefix_def)
      with wf_files_above [OF w, of q r] s show ?thesis by (cases "r = []") auto
    qed
    ultimately show ?thesis using that(2) by blast
  qed
  have below: "strict_prefix (cwd @ [s]) q" if "prefix (mp @ [m]) q" for q
    using that mp(1) by (metis append_prefixD prefix_order.le_less_trans strict_prefixI' strict_prefix_def prefix_order.less_le_trans)
  have "fs' q = fs q \<or> fs q = None \<and> strict_prefix (cwd @ [s]) q" for q
  proof (cases b)
    case True
    then have "fs q = None" if "prefix (mp @ [m]) q"
      using that res wf_files_below [OF w, of "mp @ [m]"] by (auto simp: prefix_def) (metis append_Nil2 append_assoc option.distinct(1))
    with True res above [of q] below [of q] show ?thesis by (auto split: if_splits)
  next
    case False
    with res above [of q] show ?thesis by (auto simp: adds_dirs_def)
  qed
  then have "confined cwd fs fs'" using mp(2) unfolding confined_def by blast
  with res show ?thesis by simp
qed

lemma confined_refl: "confined cwd fs fs"
  by (simp add: confined_def)

lemma confined_trans: "confined cwd fs fs1 \<Longrightarrow> confined cwd fs1 fs2 \<Longrightarrow> confined cwd fs fs2"
  by (simp add: confined_def) (metis option.distinct(1))

definition target_ok :: "path \<Rightarrow> path \<times> string \<Rightarrow> bool" where
  "target_ok cwd t \<longleftrightarrow>
     (prefix (cwd @ [''src'']) (fst t) \<or> prefix (cwd @ [''contrib'']) (fst t)) \<and> allowedRE (snd t)"

lemma module_of_name_target:
  "module_of_name cwd project name = (out, Inr (Some t)) \<Longrightarrow> target_ok cwd t"
  by (cases project) (auto simp: module_of_name_def target_ok_def Let_def split: if_splits list.splits)

lemma module_of_name_output: "module_of_name cwd project name = (out, r) \<Longrightarrow> Success \<notin> set out \<and> r \<noteq> Inl (SystemExit 0)"
  by (auto simp: module_of_name_def Let_def split: if_splits list.splits)

lemma collect_modules_targets:
  "collect_modules cwd project names = (out, r) \<Longrightarrow>
     Success \<notin> set out \<and> r \<noteq> Inl (SystemExit 0) \<and> (\<forall>ms. r = Inr ms \<longrightarrow> list_all (target_ok cwd) ms)"
proof (induction names arbitrary: out r)
  case (Cons n names)
  obtain out1 r1 where one: "module_of_name cwd project n = (out1, r1)" by fastforce
  obtain out2 r2 where two: "collect_modules cwd project names = (out2, r2)" by fastforce
  show ?case
  proof (cases r1)
    case (Inl e)
    with one Cons.prems module_of_name_output [OF one] show ?thesis by auto
  next
    case (Inr t)
    have "list_all (target_ok cwd) (case t of None \<Rightarrow> [] | Some x \<Rightarrow> [x])"
      using module_of_name_target [of cwd project n out1] one Inr by (cases t) auto
    with Inr one two Cons.prems Cons.IH [OF two] module_of_name_output [OF one] show ?thesis
      by (cases r2) auto
  qed
qed auto

lemma make_modules_confined:
  assumes "wf_files fs" "fs (cwd @ [''src'']) = Some Dir" "fs (cwd @ [''contrib'']) = Some Dir"
    and "list_all (target_ok cwd) ms" "make_modules os ms fs = (b, out, fs')"
  shows "wf_files fs' \<and> confined cwd fs fs' \<and> Success \<notin> set out"
  using assms
proof (induction ms arbitrary: fs b out fs')
  case Nil
  then show ?case by (auto simp: confined_refl)
next
  case (Cons t ms)
  obtain mp m where t: "t = (mp, m)" by (cases t)
  obtain b1 out1 fs1 where one: "make_module os mp m fs = (b1, out1, fs1)" by (metis prod_cases3)
  have s: "prefix (cwd @ [''src'']) mp \<or> prefix (cwd @ [''contrib'']) mp" using Cons.prems(4) t by (simp add: target_ok_def)
  then have conf: "wf_files fs1 \<and> confined cwd fs fs1"
    using make_module_confined [OF Cons.prems(1) one, of cwd] Cons.prems(2,3) by blast
  have out1: "Success \<notin> set out1" using one by (auto simp: make_module_def Let_def split: if_splits prod.splits sum.splits)
  have dirs: "fs1 (cwd @ [''src'']) = Some Dir" "fs1 (cwd @ [''contrib'']) = Some Dir"
    using conf Cons.prems(2,3) by (metis confined_def option.distinct(1))+
  obtain b2 out2 fs2 where two: "make_modules os ms fs1 = (b2, out2, fs2)" by (metis prod_cases3)
  from Cons.IH [OF _ dirs _ two] conf Cons.prems(4) have "wf_files fs2 \<and> confined cwd fs1 fs2 \<and> Success \<notin> set out2" by simp
  with conf out1 one two t Cons.prems(5) confined_trans show ?case by (cases b1) auto
qed

lemma check_project_error: "check_project project \<noteq> Inl (SystemExit 0)"
  by (simp add: check_project_def)


text \<open>A name of two components that starts with another directory gives a module of the first component.\<close>

lemma name_with_directory: "module_of_name cwd None ''foo/bar'' = ([], Inr (Some (cwd @ [''contrib''], ''foo'')))"
  by (simp add: module_of_name_def strip_sep_def path_parts_def allowedRE_def word_char_def field_char_def)

text \<open>A name that is only the directory raises \<^verbatim>\<open>IndexError\<close>; a newline at the end is accepted.\<close>

lemma name_is_directory: "module_of_name cwd None ''src'' = ([], Inl IndexError)"
  by (simp add: module_of_name_def strip_sep_def path_parts_def)

lemma newline_allowed: "allowedRE (''foo'' @ [CHR 0x0A])"
  by (simp add: allowedRE_def word_char_def field_char_def)

section \<open>Examples\<close>

definition demo_files :: file_tree where
  "demo_files = [[] \<mapsto> Dir, [''src''] \<mapsto> Dir, [''contrib''] \<mapsto> Dir, [''contrib'', ''old''] \<mapsto> Dir]"

lemma demo_files_wf: "wf_files demo_files"
  by (simp add: wf_files_def demo_files_def)

definition demo_host :: host where
  "demo_host = \<lparr>permitted = (\<lambda>_. True), relative = (\<lambda>_. ''contrib/new'')\<rparr>"

theorem make_module_atomic_witness:
  "fst (make_module demo_host [''contrib''] ''new'' demo_files) \<and>
   \<not> fst (make_module demo_host [''contrib''] ''old'' demo_files) \<and>
   snd (snd (make_module demo_host [''contrib''] ''new'' demo_files)) [''contrib'', ''old''] = Some Dir"
proof -
  obtain b out fs' where new: "make_module demo_host [''contrib''] ''new'' demo_files = (b, out, fs')" by (metis prod_cases3)
  obtain b2 out2 fs2 where old: "make_module demo_host [''contrib''] ''old'' demo_files = (b2, out2, fs2)" by (metis prod_cases3)
  have p: "permitted demo_host q" for q by (simp add: demo_host_def)
  have all: "case demo_files q of None \<Rightarrow> permitted demo_host q | Some e \<Rightarrow> e = Dir" for q
    by (simp add: demo_files_def p split: option.split)
  from make_module_atomic [OF demo_files_wf new] make_module_atomic [OF demo_files_wf old] new old all show ?thesis
    by (simp add: Let_def p demo_files_def list_all_iff case_prod_beta)
qed


end
