(* ===== verification/TestJobs.thy ===== *)
theory TestJobs
  imports Prelude
begin

text \<open>
  \<^verbatim>\<open>test.py\<close>, first part: the configuration, the search paths, the \<^verbatim>\<open>Job\<close> class, the
  synchronous execution of one job and the selection and dispatch of jobs by
  \<^verbatim>\<open>run_tests\<close>. The module's global variables are the record \<open>config\<close>, the command
  line the record \<open>options\<close>. What the program asks of its surroundings is passed in:
  the file system (\<open>fs\<close>), the processes it runs, the evaluation of the condition strings of
  the example lists and \<^verbatim>\<open>fnmatch.filter\<close>.
\<close>

section \<open>Configuration\<close>

record config =
  NS3_BASEDIR :: string
  NS3_BUILDDIR :: string
  NS3_MODULE_PATH :: "string list"
  NS3_ENABLED_MODULES :: "string list"
  NS3_ENABLED_CONTRIBUTED_MODULES :: "string list"
  EXAMPLE_DIRECTORIES :: "string list"
  ENABLE_EXAMPLES :: bool
  ENABLE_PYTHON_BINDINGS :: bool
  NSC_ENABLED :: bool
  APPNAME :: string
  VERSION :: string
  BUILD_PROFILE :: string
  PYTHON :: "string list"

record options =
  buildpath :: string
  constrain :: string
  opt_example :: string
  opt_pyexample :: string
  opt_suite :: string
  fullness :: string
  process_limit :: nat
  valgrind :: bool
  multiple :: bool
  update_data :: bool
  duration :: bool
  kinds :: bool
  list_tests :: bool

definition core_kinds :: "string list" where
  "core_kinds = [''core'', ''performance'', ''system'', ''unit'']"

definition core_valgrind_skip_tests :: "string list" where
  "core_valgrind_skip_tests =
    [''ns3-tcp-cwnd'', ''nsc-tcp-loss'', ''ns3-tcp-interoperability'', ''routing-click'',
     ''lte-rr-ff-mac-scheduler'', ''lte-tdmt-ff-mac-scheduler'', ''lte-fdmt-ff-mac-scheduler'',
     ''lte-pf-ff-mac-scheduler'', ''lte-tta-ff-mac-scheduler'', ''lte-fdbet-ff-mac-scheduler'',
     ''lte-ttbet-ff-mac-scheduler'', ''lte-fdtbfq-ff-mac-scheduler'', ''lte-tdtbfq-ff-mac-scheduler'',
     ''lte-pss-ff-mac-scheduler'']"

definition core_nsc_missing_skip_tests :: "string list" where
  "core_nsc_missing_skip_tests = [''ns3-tcp-cwnd'', ''nsc-tcp-loss'', ''ns3-tcp-interoperability'']"

text \<open>\<^verbatim>\<open>colors_lst\<close> and \<^verbatim>\<open>get_color\<close>; the flag \<^verbatim>\<open>USE\<close> is the first argument.\<close>

definition colors_lst :: "(string, string) dict" where
  "colors_lst =
    [(''BOLD'', CHR 0x1B # ''[01;1m''), (''RED'', CHR 0x1B # ''[01;31m''),
     (''GREEN'', CHR 0x1B # ''[32m''), (''YELLOW'', CHR 0x1B # ''[33m''),
     (''PINK'', CHR 0x1B # ''[35m''), (''BLUE'', CHR 0x1B # ''[01;34m''),
     (''CYAN'', CHR 0x1B # ''[36m''), (''GREY'', CHR 0x1B # ''[37m''),
     (''NORMAL'', CHR 0x1B # ''[0m''), (''cursor_on'', CHR 0x1B # ''[?25h''),
     (''cursor_off'', CHR 0x1B # ''[?25l'')]"

definition get_color :: "bool \<Rightarrow> string \<Rightarrow> string" where
  "get_color use cl =
     (if use then case map_of colors_lst cl of Some s \<Rightarrow> s | None \<Rightarrow> [] else [])"

text \<open>\<^verbatim>\<open>os.path.basename\<close>\<close>

definition basename :: "string \<Rightarrow> string" where
  "basename p = rev (takeWhile (\<lambda>c. c \<noteq> CHR ''/'') (rev p))"

definition profile_suffix :: "config \<Rightarrow> string" where
  "profile_suffix cfg = (if BUILD_PROFILE cfg = ''release'' then [] else ''-'' @ BUILD_PROFILE cfg)"

text \<open>The names that waf gives to the programs: \<^verbatim>\<open>"%s%s-%s%s"\<close>.\<close>

definition program_name :: "config \<Rightarrow> string \<Rightarrow> string" where
  "program_name cfg name = APPNAME cfg @ VERSION cfg @ ''-'' @ name @ profile_suffix cfg"

definition test_runner_name :: "config \<Rightarrow> string" where
  "test_runner_name cfg = program_name cfg ''test-runner''"

section \<open>The environment\<close>

text \<open>
  \<^verbatim>\<open>make_paths\<close> on the environment. The assignment
  \<^verbatim>\<open>pypath = os.environ["PYTHONPATH"] = ...\<close> is executed before the test of the flag that
  was computed from the old environment.
\<close>

definition env_append :: "string \<Rightarrow> string \<Rightarrow> (string, string) dict \<Rightarrow> (string, string) dict result" where
  "env_append key s env = rbind (dict_get env key) (\<lambda>old. Inr (AList.update key (old @ s) env))"

definition python_path :: "config \<Rightarrow> string" where
  "python_path cfg = path_join (path_join (NS3_BUILDDIR cfg) ''bindings'') ''python''"

definition set_python_path :: "config \<Rightarrow> (string, string) dict \<Rightarrow> (string, string) dict result" where
  "set_python_path cfg env =
     (let have_PYTHONPATH = has_key env ''PYTHONPATH'';
          pypath = python_path cfg;
          env = AList.update ''PYTHONPATH'' pypath env
      in if \<not> have_PYTHONPATH then Inr (AList.update ''PYTHONPATH'' pypath env)
         else env_append ''PYTHONPATH'' ('':'' @ pypath) env)"

definition library_variable :: "string \<Rightarrow> string \<times> string" where
  "library_variable platform =
     (if platform = ''darwin'' then (''DYLD_LIBRARY_PATH'', '':'')
      else if platform = ''win32'' then (''PATH'', '';'')
      else if platform = ''cygwin'' then (''PATH'', '':'')
      else (''LD_LIBRARY_PATH'', '':''))"

definition make_paths :: "string \<Rightarrow> config \<Rightarrow> (string, string) dict \<Rightarrow> (string, string) dict result" where
  "make_paths platform cfg env =
     (let (var, sep) = library_variable platform; have_var = has_key env var in
      rbind (set_python_path cfg env) (\<lambda>env.
        for_each (\<lambda>env path. env_append var (sep @ path) env) (NS3_MODULE_PATH cfg)
          (if have_var then env else AList.update var [] env)))"

section \<open>Jobs\<close>

record job =
  is_break :: bool
  is_skip :: bool
  skip_reason :: string
  is_example :: bool
  is_pyexample :: bool
  shell_command :: string
  display_name :: string
  basedir :: string
  tempdir :: string
  job_cwd :: string
  tmp_file_name :: string
  returncode :: int
  elapsed_time :: nat
  build_path :: string

definition new_job :: job where
  "new_job = \<lparr>is_break = False, is_skip = False, skip_reason = [], is_example = False,
     is_pyexample = False, shell_command = [], display_name = [], basedir = [], tempdir = [],
     job_cwd = [], tmp_file_name = [], returncode = 0, elapsed_time = 0, build_path = []\<rparr>"

definition set_is_break :: "bool \<Rightarrow> job \<Rightarrow> job" where "set_is_break b j = j\<lparr>is_break := b\<rparr>"
definition set_is_skip :: "bool \<Rightarrow> job \<Rightarrow> job" where "set_is_skip b j = j\<lparr>is_skip := b\<rparr>"
definition set_skip_reason :: "string \<Rightarrow> job \<Rightarrow> job" where "set_skip_reason s j = j\<lparr>skip_reason := s\<rparr>"
definition set_is_example :: "bool \<Rightarrow> job \<Rightarrow> job" where "set_is_example b j = j\<lparr>is_example := b\<rparr>"
definition set_is_pyexample :: "bool \<Rightarrow> job \<Rightarrow> job" where "set_is_pyexample b j = j\<lparr>is_pyexample := b\<rparr>"
definition set_shell_command :: "string \<Rightarrow> job \<Rightarrow> job" where "set_shell_command s j = j\<lparr>shell_command := s\<rparr>"
definition set_build_path :: "string \<Rightarrow> job \<Rightarrow> job" where "set_build_path s j = j\<lparr>build_path := s\<rparr>"
definition set_display_name :: "string \<Rightarrow> job \<Rightarrow> job" where "set_display_name s j = j\<lparr>display_name := s\<rparr>"
definition set_basedir :: "string \<Rightarrow> job \<Rightarrow> job" where "set_basedir s j = j\<lparr>basedir := s\<rparr>"
definition set_tempdir :: "string \<Rightarrow> job \<Rightarrow> job" where "set_tempdir s j = j\<lparr>tempdir := s\<rparr>"
definition set_cwd :: "string \<Rightarrow> job \<Rightarrow> job" where "set_cwd s j = j\<lparr>job_cwd := s\<rparr>"
definition set_tmp_file_name :: "string \<Rightarrow> job \<Rightarrow> job" where "set_tmp_file_name s j = j\<lparr>tmp_file_name := s\<rparr>"
definition set_elapsed_time :: "nat \<Rightarrow> job \<Rightarrow> job" where "set_elapsed_time t j = j\<lparr>elapsed_time := t\<rparr>"

lemmas job_setters = set_is_break_def set_is_skip_def set_skip_reason_def set_is_example_def
  set_is_pyexample_def set_shell_command_def set_build_path_def set_display_name_def
  set_basedir_def set_tempdir_def set_cwd_def set_tmp_file_name_def set_elapsed_time_def

section \<open>Running a job\<close>

text \<open>
  What a finished process gives back: the return code, the two outputs (\<open>None\<close> when the bytes
  cannot be decoded) and the elapsed time, in thousandths of a second.
\<close>

record process_result =
  p_returncode :: int
  p_stdout :: "string option"
  p_stderr :: "string option"
  p_elapsed :: nat

type_synonym processes = "string \<Rightarrow> string \<Rightarrow> process_result"

definition job_path_cmd :: "config \<Rightarrow> string \<Rightarrow> bool \<Rightarrow> string \<Rightarrow> string result" where
  "job_path_cmd cfg shell_cmd is_python build =
     (if is_python
      then rbind (py_index (PYTHON cfg) 0) (\<lambda>py. Inr (py @ '' '' @ path_join (NS3_BASEDIR cfg) shell_cmd))
      else if length build > 0 then Inr (path_join build shell_cmd)
      else Inr (path_join (NS3_BUILDDIR cfg) shell_cmd))"

definition valgrind_cmd :: "config \<Rightarrow> string \<Rightarrow> string" where
  "valgrind_cmd cfg path_cmd =
     ''valgrind --suppressions='' @ path_join (NS3_BASEDIR cfg) ''testpy.supp'' @
     '' --leak-check=full --show-reachable=yes --error-exitcode=2 --errors-for-leak-kinds=all '' @ path_cmd"

definition run_job_synchronously ::
  "config \<Rightarrow> processes \<Rightarrow> string \<Rightarrow> string \<Rightarrow> bool \<Rightarrow> bool \<Rightarrow> string \<Rightarrow> process_result result" where
  "run_job_synchronously cfg ps shell_cmd directory use_valgrind is_python build =
     rbind (job_path_cmd cfg shell_cmd is_python build) (\<lambda>path_cmd.
       let r = ps (if use_valgrind then valgrind_cmd cfg path_cmd else path_cmd) directory;
           retval = p_returncode r;
           retval = (if p_stdout r = None then 1 else retval);
           retval = (if p_stderr r = None then 1 else retval)
       in Inr (r\<lparr>p_returncode := retval\<rparr>))"

text \<open>The work of a worker thread on a job that is neither a break nor skipped.\<close>

definition execute_job :: "config \<Rightarrow> options \<Rightarrow> processes \<Rightarrow> job \<Rightarrow> job result" where
  "execute_job cfg opts ps j =
     rbind (if is_example j \<or> is_pyexample j
            then run_job_synchronously cfg ps (shell_command j) (job_cwd j) (valgrind opts)
                   (is_pyexample j) (build_path j)
            else run_job_synchronously cfg ps
                   (shell_command j @ '' --xml --tempdir='' @ tempdir j @ '' --out='' @ tmp_file_name j @
                    '' '' @ (if update_data opts then ''--update-data'' else []))
                   (job_cwd j) (valgrind opts) False [])
       (\<lambda>r. Inr (set_elapsed_time (p_elapsed r) (j\<lparr>returncode := p_returncode r\<rparr>)))"

section \<open>The ex_lists of examples\<close>

record fs =
  exists :: "string \<Rightarrow> bool"
  relpath :: "string \<Rightarrow> string \<Rightarrow> string"
  abspath :: "string \<Rightarrow> string"
  getcwd :: string

text \<open>
  The result of \<^verbatim>\<open>get_list_from_file\<close> for the two lists of an \<^verbatim>\<open>examples-to-run.py\<close>:
  the path of the file gives the C++ examples (name, condition, valgrind condition) and the
  Python examples (name, condition).
\<close>

type_synonym example_lists =
  "string \<Rightarrow> (string \<times> string \<times> string) list \<times> (string \<times> string) list"

record example_state =
  example_tests :: "(string \<times> string \<times> string \<times> string) list"
  example_names_original :: "string list"
  python_tests :: "(string \<times> string) list"

text \<open>\<^verbatim>\<open>name.split(' ', 1)\<close>: the program and its arguments.\<close>

definition split_arguments :: "string \<Rightarrow> string \<times> string option" where
  "split_arguments name =
     (case split_once (CHR '' '') name of
        [a, b] \<Rightarrow> (a, Some b)
      | _ \<Rightarrow> (name, None))"

definition with_arguments :: "string \<Rightarrow> string option \<Rightarrow> string" where
  "with_arguments path args = (case args of None \<Rightarrow> path | Some a \<Rightarrow> path @ '' '' @ a)"

definition add_cpp_example ::
  "config \<Rightarrow> fs \<Rightarrow> string \<Rightarrow> string \<times> string \<times> string \<Rightarrow> example_state \<Rightarrow> example_state" where
  "add_cpp_example cfg fs cpp_executable_dir ex st =
     (let (example_name_original, do_run, do_valgrind_run) = ex;
          (example_name, args) = split_arguments example_name_original;
          example_path = path_join cpp_executable_dir (program_name cfg example_name);
          example_name = path_join (relpath fs cpp_executable_dir (NS3_BUILDDIR cfg)) example_name
      in if exists fs example_path
         then st\<lparr>example_tests := example_tests st @
                   [(with_arguments example_name args, with_arguments example_path args, do_run, do_valgrind_run)],
                 example_names_original := example_names_original st @ [example_name_original]\<rparr>
         else st)"

definition add_python_example :: "fs \<Rightarrow> string \<Rightarrow> string \<times> string \<Rightarrow> example_state \<Rightarrow> example_state" where
  "add_python_example fs python_script_dir ex st =
     (let (example_name, do_run) = ex;
          (example_name, args) = split_arguments example_name;
          example_path = path_join python_script_dir example_name
      in if exists fs example_path
         then st\<lparr>python_tests := python_tests st @ [(with_arguments example_path args, do_run)]\<rparr>
         else st)"

definition parse_examples_to_run_file ::
  "config \<Rightarrow> fs \<Rightarrow> example_lists \<Rightarrow> string \<Rightarrow> string \<Rightarrow> string \<Rightarrow> example_state \<Rightarrow> example_state" where
  "parse_examples_to_run_file cfg fs ex_lists examples_to_run_path cpp_executable_dir python_script_dir st =
     (if exists fs examples_to_run_path
      then let (cpp_examples, python_examples) = ex_lists examples_to_run_path in
           fold (add_python_example fs python_script_dir) python_examples
             (fold (add_cpp_example cfg fs cpp_executable_dir) cpp_examples st)
      else st)"

text \<open>The three loops of \<^verbatim>\<open>run_tests\<close> over the directories of examples.\<close>

definition parse_directory :: "config \<Rightarrow> fs \<Rightarrow> example_lists \<Rightarrow> string \<Rightarrow> example_state \<Rightarrow> example_state" where
  "parse_directory cfg fs ex_lists directory =
     (let example_directory = path_join ''examples'' directory in
      parse_examples_to_run_file cfg fs ex_lists (path_join example_directory ''examples-to-run.py'')
        (path_join (NS3_BUILDDIR cfg) example_directory) example_directory)"

definition parse_module ::
  "config \<Rightarrow> fs \<Rightarrow> example_lists \<Rightarrow> string \<Rightarrow> string \<Rightarrow> example_state \<Rightarrow> example_state" where
  "parse_module cfg fs ex_lists topdir modname =
     (let modname = drop (length ''ns3-'') modname;
          module_directory = path_join topdir modname;
          example_directory = path_join module_directory ''examples''
      in parse_examples_to_run_file cfg fs ex_lists
           (path_join (path_join module_directory ''test'') ''examples-to-run.py'')
           (path_join (NS3_BUILDDIR cfg) example_directory) example_directory)"

definition gather_examples :: "config \<Rightarrow> fs \<Rightarrow> example_lists \<Rightarrow> example_state" where
  "gather_examples cfg fs ex_lists =
     fold (parse_module cfg fs ex_lists ''contrib'') (NS3_ENABLED_CONTRIBUTED_MODULES cfg)
       (fold (parse_module cfg fs ex_lists ''src'') (NS3_ENABLED_MODULES cfg)
         (fold (parse_directory cfg fs ex_lists) (EXAMPLE_DIRECTORIES cfg)
           \<lparr>example_tests = [], example_names_original = [], python_tests = []\<rparr>))"

text \<open>The dictionary from the name of a runnable program to its path.\<close>

definition runnable_dictionary :: "string list \<Rightarrow> (string, string) dict" where
  "runnable_dictionary programs = fold (\<lambda>p. AList.update (basename p) p) programs []"

section \<open>Which suites are run\<close>

definition waf_cmd :: "options \<Rightarrow> string" where
  "waf_cmd opts =
     (if kinds opts \<or> list_tests opts \<or> (length (constrain opts) > 0 \<and> constrain opts \<in> set core_kinds)
      then ''./waf --target=test-runner''
      else if length (opt_example opts) > 0 then ''./waf --target='' @ basename (opt_example opts)
      else ''./waf'')"

text \<open>The output of the test runner for a query; bytes that cannot be decoded raise.\<close>

definition query_runner :: "config \<Rightarrow> fs \<Rightarrow> processes \<Rightarrow> string \<Rightarrow> string result" where
  "query_runner cfg fs ps args =
     rbind (run_job_synchronously cfg ps (path_join ''utils'' (test_runner_name cfg @ args)) (getcwd fs)
              False False [])
       (\<lambda>r. case p_stdout r of None \<Rightarrow> Inl UnicodeDecodeError | Some s \<Rightarrow> Inr s)"

definition find_suites ::
  "config \<Rightarrow> options \<Rightarrow> fs \<Rightarrow> processes \<Rightarrow> (string \<Rightarrow> string \<Rightarrow> bool) \<Rightarrow> (string list \<times> bool) result" where
  "find_suites cfg opts fs ps fnmatch =
     (if length (opt_suite opts) > 0
      then rbind (query_runner cfg fs ps '' --print-test-name-list'') (\<lambda>suites.
             let suites_found = filter (\<lambda>s. fnmatch s (opt_suite opts)) (split_on (CHR 0x0A) suites) in
             if suites_found = [] then Inl (SystemExit 2)
             else Inr (split_on (CHR 0x0A) (join_with [CHR 0x0A] suites_found), length suites_found = 1))
      else if length (opt_example opts) = 0 \<and> length (opt_pyexample opts) = 0
      then rbind (query_runner cfg fs ps
             (if length (constrain opts) > 0
              then '' --print-test-name-list --test-type='' @ constrain opts
              else '' --print-test-name-list'')) (\<lambda>suites. Inr (split_on (CHR 0x0A) suites, False))
      else Inr (split_on (CHR 0x0A) [], False))"

definition select_suites ::
  "config \<Rightarrow> options \<Rightarrow> fs \<Rightarrow> processes \<Rightarrow> (string \<Rightarrow> string \<Rightarrow> bool) \<Rightarrow> string list result" where
  "select_suites cfg opts fs ps fnmatch =
     rbind (find_suites cfg opts fs ps fnmatch) (\<lambda>(suite_list, single_suite).
       if \<not> single_suite \<and> constrain opts \<noteq> ''performance''
       then rbind (query_runner cfg fs ps '' --print-test-name-list --test-type=performance'')
              (\<lambda>performance_tests. Inr (fold remove1 (split_on (CHR 0x0A) performance_tests) suite_list))
       else Inr suite_list)"

definition choose_processors :: "options \<Rightarrow> nat \<Rightarrow> nat" where
  "choose_processors opts processors =
     (if process_limit opts > 0
      then if processors < process_limit opts then processors else process_limit opts
      else processors)"

section \<open>Dispatching jobs\<close>

text \<open>The input queue with the two counters of \<^verbatim>\<open>run_tests\<close>.\<close>

record dispatch =
  input_queue :: "job list"
  jobs :: nat
  total_tests :: nat

definition enqueue :: "job \<Rightarrow> dispatch \<Rightarrow> dispatch" where
  "enqueue j d =
     d\<lparr>input_queue := input_queue d @ [j], jobs := jobs d + 1, total_tests := total_tests d + 1\<rparr>"

definition upper :: "string \<Rightarrow> string" where
  "upper s = map (\<lambda>c. let n = of_char c :: nat in if 97 \<le> n \<and> n \<le> 122 then char_of (n - 32) else c) s"

text \<open>\<^verbatim>\<open>job.set_is_skip(True); job.set_skip_reason(r)\<close> under a condition.\<close>

definition skip_if :: "bool \<Rightarrow> string \<Rightarrow> job \<Rightarrow> job" where
  "skip_if b reason j = (if b then set_skip_reason reason (set_is_skip True j) else j)"

definition suite_command :: "config \<Rightarrow> options \<Rightarrow> string \<Rightarrow> string" where
  "suite_command cfg opts test =
     path_join ''utils'' (test_runner_name cfg @ '' --test-name='' @ test @
       (if multiple opts then [] else '' --stop-on-failure'') @
       (if length (fullness opts) > 0 then '' --fullness='' @ upper (fullness opts) else '' --fullness=QUICK''))"

definition suite_job :: "config \<Rightarrow> options \<Rightarrow> fs \<Rightarrow> string \<Rightarrow> string \<Rightarrow> job" where
  "suite_job cfg opts fs outdir test =
     skip_if (\<not> NSC_ENABLED cfg \<and> test \<in> set core_nsc_missing_skip_tests) ''requires NSC''
      (skip_if (valgrind opts \<and> test \<in> set core_valgrind_skip_tests) ''crashes valgrind''
        (set_shell_command (suite_command cfg opts test)
          (set_tempdir outdir (set_basedir (getcwd fs) (set_cwd (getcwd fs)
            (set_tmp_file_name (path_join outdir (test @ ''.xml''))
              (set_display_name test (set_is_pyexample False (set_is_example False new_job)))))))))"

definition dispatch_suite :: "config \<Rightarrow> options \<Rightarrow> fs \<Rightarrow> string \<Rightarrow> string \<Rightarrow> dispatch \<Rightarrow> dispatch" where
  "dispatch_suite cfg opts fs outdir test d =
     (let test = strip test in
      if length test > 0 then enqueue (suite_job cfg opts fs outdir test) d else d)"

definition example_job :: "options \<Rightarrow> fs \<Rightarrow> string \<Rightarrow> string \<Rightarrow> string \<Rightarrow> job" where
  "example_job opts fs outdir name cmd =
     set_build_path (buildpath opts) (set_shell_command cmd (set_tempdir outdir (set_basedir (getcwd fs)
       (set_cwd outdir (set_tmp_file_name [] (set_display_name name
         (set_is_pyexample False (set_is_example True new_job))))))))"

definition pyexample_job :: "fs \<Rightarrow> string \<Rightarrow> string \<Rightarrow> job" where
  "pyexample_job fs outdir test =
     set_build_path [] (set_shell_command test (set_tempdir outdir (set_basedir (getcwd fs)
       (set_cwd outdir (set_tmp_file_name [] (set_display_name test (set_is_pyexample True new_job)))))))"

text \<open>The examples of the lists, with \<^verbatim>\<open>eval\<close> of their conditions.\<close>

definition dispatch_example ::
  "options \<Rightarrow> fs \<Rightarrow> (string \<Rightarrow> bool) \<Rightarrow> string \<Rightarrow> (string, string) dict \<Rightarrow>
   string \<times> string \<times> string \<times> string \<Rightarrow> dispatch \<Rightarrow> dispatch" where
  "dispatch_example opts fs eval_cond outdir runnable ex d =
     (let (name, test, do_run, do_valgrind_run) = ex;
          test_name = basename (fst (split_arguments test))
      in if has_key runnable test_name \<and> eval_cond do_run
         then enqueue (skip_if (valgrind opts \<and> \<not> eval_cond do_valgrind_run) ''skip in valgrind runs''
                (example_job opts fs outdir name test)) d
         else d)"

definition dispatch_python ::
  "config \<Rightarrow> options \<Rightarrow> fs \<Rightarrow> (string \<Rightarrow> bool) \<Rightarrow> string \<Rightarrow> string list \<Rightarrow>
   string \<times> string \<Rightarrow> dispatch \<Rightarrow> dispatch" where
  "dispatch_python cfg opts fs eval_cond outdir scripts ex d =
     (let (test, do_run) = ex; test_name = basename (fst (split_arguments test)) in
      if test_name \<in> set scripts \<and> eval_cond do_run
      then enqueue (skip_if (\<not> ENABLE_PYTHON_BINDINGS cfg) ''requires Python bindings''
             (skip_if (valgrind opts) ''skip in valgrind runs'' (pyexample_job fs outdir test))) d
      else d)"

text \<open>An example named on the command line, by its key in the dictionary of programs.\<close>

definition dispatch_single ::
  "options \<Rightarrow> fs \<Rightarrow> string \<Rightarrow> (string, string) dict \<Rightarrow> string \<Rightarrow> dispatch \<Rightarrow> dispatch" where
  "dispatch_single opts fs outdir runnable key d =
     (case map_of runnable key of
        None \<Rightarrow> d
      | Some p \<Rightarrow> enqueue (example_job opts fs outdir (abspath fs p) (abspath fs p)) d)"

definition dispatch_examples where
  "dispatch_examples cfg opts fs eval_cond fnmatch outdir runnable tests d =
     (if opt_suite opts = [] \<and> opt_example opts = [] \<and> opt_pyexample opts = []
      then if (constrain opts = [] \<or> constrain opts = ''example'') \<and> ENABLE_EXAMPLES cfg
           then fold (dispatch_example opts fs eval_cond outdir runnable) tests d else d
      else if opt_example opts \<noteq> []
      then fold (dispatch_single opts fs outdir runnable)
             (filter (\<lambda>key. fnmatch key (program_name cfg (opt_example opts))) (dict_keys runnable)) d
      else d)"

definition dispatch_pythons where
  "dispatch_pythons cfg opts fs eval_cond outdir scripts tests d =
     (if opt_suite opts = [] \<and> opt_example opts = [] \<and> opt_pyexample opts = []
      then if (constrain opts = [] \<or> constrain opts = ''pyexample'') \<and> ENABLE_EXAMPLES cfg
           then fold (dispatch_python cfg opts fs eval_cond outdir scripts) tests d else d
      else if opt_pyexample opts \<noteq> []
      then if basename (opt_pyexample opts) \<notin> set scripts then d
           else enqueue (pyexample_job fs outdir (opt_pyexample opts)) d
      else d)"

text \<open>All jobs in the order in which they are put on the queue, then one break per worker.\<close>

definition dispatch_all ::
  "config \<Rightarrow> options \<Rightarrow> fs \<Rightarrow> (string \<Rightarrow> bool) \<Rightarrow> (string \<Rightarrow> string \<Rightarrow> bool) \<Rightarrow> string \<Rightarrow>
   string list \<Rightarrow> (string, string) dict \<Rightarrow> string list \<Rightarrow> example_state \<Rightarrow> dispatch" where
  "dispatch_all cfg opts fs eval_cond fnmatch outdir suite_list runnable scripts ex =
     dispatch_pythons cfg opts fs eval_cond outdir scripts (python_tests ex)
       (dispatch_examples cfg opts fs eval_cond fnmatch outdir runnable (example_tests ex)
         (fold (dispatch_suite cfg opts fs outdir) suite_list
           \<lparr>input_queue = [], jobs = 0, total_tests = 0\<rparr>))"

definition break_jobs :: "nat \<Rightarrow> job list" where
  "break_jobs processors = replicate processors (set_is_break True new_job)"

section \<open>Properties of the environment\<close>

lemma append_loop:
  assumes "map_of env var = Some old"
  shows "\<exists>env'. for_each (\<lambda>env path. env_append var (sep @ path) env) paths env = Inr env' \<and>
     (\<forall>k. map_of env' k = (if k = var then Some (old @ concat (map (\<lambda>p. sep @ p) paths)) else map_of env k))"
  using assms
proof (induction paths arbitrary: env old)
  case (Cons p ps)
  let ?env = "AList.update var (old @ sep @ p) env"
  have "env_append var (sep @ p) env = Inr ?env" using Cons.prems by (simp add: env_append_def dict_get_def)
  moreover have "map_of ?env var = Some (old @ sep @ p)" by simp
  ultimately show ?case using Cons.IH [of ?env "old @ sep @ p"] by auto
qed simp

lemma set_python_path_result:
  "\<exists>env'. set_python_path cfg env = Inr env' \<and>
     (\<forall>k. map_of env' k =
        (if k = ''PYTHONPATH''
         then Some (if has_key env ''PYTHONPATH'' then python_path cfg @ '':'' @ python_path cfg
                    else python_path cfg)
         else map_of env k))"
  by (auto simp: set_python_path_def env_append_def dict_get_def Let_def)

text \<open>
  \<^verbatim>\<open>make_paths\<close> raises no \<^verbatim>\<open>KeyError\<close>. The library search variable of the platform
  keeps its old value and gains the module paths in order; no other variable changes, apart from
  \<^verbatim>\<open>PYTHONPATH\<close>: when that variable was set before, its old value is lost and the bindings
  directory stands there twice.
\<close>

theorem make_paths_result:
  "\<exists>env'. make_paths platform cfg env = Inr env' \<and>
     (let (var, sep) = library_variable platform in
      map_of env' var =
        Some ((case map_of env var of None \<Rightarrow> [] | Some old \<Rightarrow> old) @
              concat (map (\<lambda>p. sep @ p) (NS3_MODULE_PATH cfg))) \<and>
      map_of env' ''PYTHONPATH'' =
        Some (if has_key env ''PYTHONPATH'' then python_path cfg @ '':'' @ python_path cfg
              else python_path cfg) \<and>
      {k. k \<noteq> var \<and> k \<noteq> ''PYTHONPATH'' \<and> map_of env' k \<noteq> map_of env k} = {})"
proof -
  obtain var sep where v: "library_variable platform = (var, sep)" by fastforce
  then have ne: "var \<noteq> ''PYTHONPATH''" by (auto simp: library_variable_def split: if_splits)
  obtain e1 where e1: "set_python_path cfg env = Inr e1"
    "\<forall>k. map_of e1 k = (if k = ''PYTHONPATH''
         then Some (if has_key env ''PYTHONPATH'' then python_path cfg @ '':'' @ python_path cfg
                    else python_path cfg)
         else map_of env k)"
    using set_python_path_result [of cfg env] by blast
  let ?e2 = "if has_key env var then e1 else AList.update var [] e1"
  let ?old = "case map_of env var of None \<Rightarrow> [] | Some old \<Rightarrow> old"
  have "map_of ?e2 var = Some ?old"
    using e1(2) ne by (auto simp: has_key_def split: option.splits)
  from append_loop [OF this, of sep "NS3_MODULE_PATH cfg"] obtain e3 where e3:
    "for_each (\<lambda>env path. env_append var (sep @ path) env) (NS3_MODULE_PATH cfg) ?e2 = Inr e3"
    "\<forall>k. map_of e3 k = (if k = var then Some (?old @ concat (map (\<lambda>p. sep @ p) (NS3_MODULE_PATH cfg)))
                            else map_of ?e2 k)" by blast
  have "make_paths platform cfg env = Inr e3"
    using e1(1) e3(1) by (simp add: make_paths_def v)
  then show ?thesis
    using e3(2) e1(2) ne by (intro exI [of _ e3]) (auto simp: v)
qed

section \<open>Properties of the dispatch\<close>

text \<open>What every part of the dispatch keeps: the counters count the queue, and which jobs are on it.\<close>

definition job_sane :: "config \<Rightarrow> options \<Rightarrow> job \<Rightarrow> bool" where
  "job_sane cfg opts j =
     (\<not> is_break j \<and>
      (valgrind opts \<longrightarrow> \<not> is_example j \<longrightarrow> \<not> is_pyexample j \<longrightarrow>
         display_name j \<in> set core_valgrind_skip_tests \<longrightarrow> is_skip j) \<and>
      (\<not> NSC_ENABLED cfg \<longrightarrow> \<not> is_example j \<longrightarrow> \<not> is_pyexample j \<longrightarrow>
         display_name j \<in> set core_nsc_missing_skip_tests \<longrightarrow> is_skip j))"

definition dispatch_ok :: "config \<Rightarrow> options \<Rightarrow> dispatch \<Rightarrow> bool" where
  "dispatch_ok cfg opts d =
     (jobs d = length (input_queue d) \<and> total_tests d = length (input_queue d) \<and>
      list_all (job_sane cfg opts) (input_queue d))"

lemma dispatch_ok_enqueue: "dispatch_ok cfg opts d \<Longrightarrow> job_sane cfg opts j \<Longrightarrow> dispatch_ok cfg opts (enqueue j d)"
  by (simp add: dispatch_ok_def enqueue_def)

lemma fold_keeps: "I s \<Longrightarrow> (\<And>x s. x \<in> set xs \<Longrightarrow> I s \<Longrightarrow> I (f x s)) \<Longrightarrow> I (fold f xs s)"
  by (induction xs arbitrary: s) auto

lemma job_sane_jobs:
  "job_sane cfg opts (suite_job cfg opts fs outdir test)"
  "job_sane cfg opts (example_job opts fs outdir name cmd)"
  "job_sane cfg opts (pyexample_job fs outdir test)"
  "job_sane cfg opts j \<Longrightarrow> job_sane cfg opts (skip_if b r j)"
  by (auto simp: job_sane_def suite_job_def example_job_def pyexample_job_def skip_if_def job_setters new_job_def)

lemma dispatch_step_ok:
  assumes "dispatch_ok cfg opts d"
  shows "dispatch_ok cfg opts (dispatch_suite cfg opts fs outdir test d)"
    and "dispatch_ok cfg opts (dispatch_example opts fs ev outdir runnable ex d)"
    and "dispatch_ok cfg opts (dispatch_single opts fs outdir runnable key d)"
    and "dispatch_ok cfg opts (dispatch_python cfg opts fs ev outdir scripts py d)"
proof -
  note ok = dispatch_ok_enqueue [OF assms] job_sane_jobs assms
  show "dispatch_ok cfg opts (dispatch_suite cfg opts fs outdir test d)"
    by (simp add: dispatch_suite_def Let_def ok)
  show "dispatch_ok cfg opts (dispatch_example opts fs ev outdir runnable ex d)"
    by (cases ex) (simp add: dispatch_example_def Let_def ok)
  show "dispatch_ok cfg opts (dispatch_single opts fs outdir runnable key d)"
    by (simp add: dispatch_single_def ok split: option.splits)
  show "dispatch_ok cfg opts (dispatch_python cfg opts fs ev outdir scripts py d)"
    by (cases py) (simp add: dispatch_python_def Let_def ok)
qed

lemma dispatch_fold_ok:
  assumes "dispatch_ok cfg opts d"
  shows "dispatch_ok cfg opts (fold (dispatch_suite cfg opts fs outdir) ts d)"
    and "dispatch_ok cfg opts (fold (dispatch_example opts fs ev outdir runnable) exs d)"
    and "dispatch_ok cfg opts (fold (dispatch_single opts fs outdir runnable) keys d)"
    and "dispatch_ok cfg opts (fold (dispatch_python cfg opts fs ev outdir scripts) pys d)"
  by (rule fold_keeps [where I = "dispatch_ok cfg opts"], rule assms, erule dispatch_step_ok)+

lemma dispatch_parts_ok:
  assumes "dispatch_ok cfg opts d"
  shows "dispatch_ok cfg opts (dispatch_examples cfg opts fs ev fn outdir runnable tests d)"
    and "dispatch_ok cfg opts (dispatch_pythons cfg opts fs ev outdir scripts pys d)"
  using assms dispatch_fold_ok [OF assms]
  by (simp_all add: dispatch_examples_def dispatch_pythons_def dispatch_ok_enqueue job_sane_jobs)

definition suite_jobs :: "dispatch \<Rightarrow> job list" where
  "suite_jobs d = filter (\<lambda>j. \<not> is_example j \<and> \<not> is_pyexample j) (input_queue d)"

lemma suite_jobs_enqueue:
  "suite_jobs (enqueue j d) = suite_jobs d @ (if is_example j \<or> is_pyexample j then [] else [j])"
  by (simp add: suite_jobs_def enqueue_def)

lemma job_kinds:
  "is_example (skip_if b r j) = is_example j" "is_pyexample (skip_if b r j) = is_pyexample j"
  "\<not> is_example (suite_job cfg opts fs outdir test)" "\<not> is_pyexample (suite_job cfg opts fs outdir test)"
  "is_example (example_job opts fs outdir name cmd)" "is_pyexample (pyexample_job fs outdir test)"
  by (simp_all add: skip_if_def suite_job_def example_job_def pyexample_job_def job_setters new_job_def)

lemma suite_jobs_steps:
  "suite_jobs (dispatch_example opts fs ev outdir runnable ex d) = suite_jobs d"
  "suite_jobs (dispatch_single opts fs outdir runnable key d) = suite_jobs d"
  "suite_jobs (dispatch_python cfg opts fs ev outdir scripts py d) = suite_jobs d"
  subgoal by (cases ex) (simp add: dispatch_example_def Let_def suite_jobs_enqueue job_kinds)
  subgoal by (simp add: dispatch_single_def suite_jobs_enqueue job_kinds split: option.splits)
  subgoal by (cases py) (simp add: dispatch_python_def Let_def suite_jobs_enqueue job_kinds)
  done

lemma fold_same: "(\<And>x s. g (f x s) = g s) \<Longrightarrow> g (fold f xs s) = g s"
  by (induction xs arbitrary: s) simp_all

lemma suite_jobs_examples:
  "suite_jobs (dispatch_examples cfg opts fs ev fn outdir runnable tests d) = suite_jobs d"
  "suite_jobs (dispatch_pythons cfg opts fs ev outdir scripts pys d) = suite_jobs d"
  by (simp_all add: dispatch_examples_def dispatch_pythons_def suite_jobs_enqueue job_kinds
      fold_same [where g = suite_jobs] suite_jobs_steps)

lemma suite_jobs_suites:
  "suite_jobs (fold (dispatch_suite cfg opts fs outdir) ts d) =
     suite_jobs d @ map (suite_job cfg opts fs outdir) (filter (\<lambda>t. t \<noteq> []) (map strip ts))"
  by (induction ts arbitrary: d) (simp_all add: dispatch_suite_def Let_def suite_jobs_enqueue job_kinds)

text \<open>The whole dispatch.\<close>

lemma dispatch_all_summary:
  "let d = dispatch_all cfg opts fs eval_cond fnmatch outdir suite_list runnable scripts ex in
   jobs d = length (input_queue d) \<and> total_tests d = length (input_queue d) \<and>
   list_all (job_sane cfg opts) (input_queue d) \<and>
   suite_jobs d = map (suite_job cfg opts fs outdir) (filter (\<lambda>t. t \<noteq> []) (map strip suite_list))"
proof -
  have "dispatch_ok cfg opts (dispatch_all cfg opts fs eval_cond fnmatch outdir suite_list runnable scripts ex)"
    unfolding dispatch_all_def
    by (intro dispatch_parts_ok dispatch_fold_ok(1)) (simp add: dispatch_ok_def)
  moreover have "suite_jobs (dispatch_all cfg opts fs eval_cond fnmatch outdir suite_list runnable scripts ex) =
      map (suite_job cfg opts fs outdir) (filter (\<lambda>t. t \<noteq> []) (map strip suite_list))"
    unfolding dispatch_all_def suite_jobs_examples suite_jobs_suites by (simp add: suite_jobs_def)
  ultimately show ?thesis by (simp add: dispatch_ok_def Let_def)
qed

text \<open>
  C39: the dispatch. The two counters of \<^verbatim>\<open>run_tests\<close> both equal the number of queued jobs,
  so the main thread later waits for exactly as many results; no queued job is a break; a suite
  that valgrind cannot run, or that needs the missing NSC, is queued only as skipped; and every
  selected suite is queued exactly once, in the order of the list.
\<close>

theorem dispatch_all_correct:
  "let d = dispatch_all cfg opts fs eval_cond fnmatch outdir suite_list runnable scripts ex in
   jobs d = length (input_queue d) \<and> total_tests d = length (input_queue d) \<and>
   list_all (job_sane cfg opts) (input_queue d) \<and>
   suite_jobs d = map (suite_job cfg opts fs outdir) (filter (\<lambda>t. t \<noteq> []) (map strip suite_list))"
  by (rule dispatch_all_summary)

text \<open>A job passes only when its process returned zero and its output could be decoded.\<close>

lemma run_job_result:
  "run_job_synchronously cfg ps c dir v py b = Inr r \<Longrightarrow>
     \<exists>cmd. p_elapsed r = p_elapsed (ps cmd dir) \<and>
       p_returncode r = (if p_stdout (ps cmd dir) = None \<or> p_stderr (ps cmd dir) = None then 1
                         else p_returncode (ps cmd dir))"
  by (auto simp: run_job_synchronously_def rbind_eq_Inr Let_def)

lemma execute_job_pass:
  assumes "execute_job cfg opts ps j = Inr j'" "returncode j' = 0"
  shows "\<exists>cmd. p_returncode (ps cmd (job_cwd j)) = 0 \<and> p_stdout (ps cmd (job_cwd j)) \<noteq> None \<and>
     p_stderr (ps cmd (job_cwd j)) \<noteq> None"
proof -
  obtain c v py b r where r: "run_job_synchronously cfg ps c (job_cwd j) v py b = Inr r"
      and j': "j' = set_elapsed_time (p_elapsed r) (j\<lparr>returncode := p_returncode r\<rparr>)"
    using assms(1) by (auto simp: execute_job_def rbind_eq_Inr split: if_splits)
  from run_job_result [OF r] assms(2) j' show ?thesis
    by (auto simp: set_elapsed_time_def split: if_splits)
qed

end
