(* ===== verification/TestQueue.thy ===== *)
theory TestQueue
  imports TestJobs
begin

text \<open>
  \<^verbatim>\<open>test.py\<close>, second part: the worker threads and the two queues between them and the main
  thread. The threads run concurrently; the model is a step relation on the record \<open>pool\<close>
  in which every access to a queue and every test of the interrupt flag is a step of its own,
  so that all interleavings are covered. The main thread puts the jobs and then one break job
  per worker on the input queue, takes as many results from the output queue as it put jobs,
  and joins the workers. \<^verbatim>\<open>sigint_hook\<close> may set \<^verbatim>\<open>thread_exit\<close> at any moment.

  The locale \<open>terminating_system\<close> of the prelude is interpreted on the pool.
\<close>

section \<open>The pool\<close>

datatype worker = Waiting | Got job | Running job | Stopped | Died

record pool =
  to_put :: "job list"
  in_queue :: "job list"
  out_queue :: "job list"
  workers :: "worker list"
  expected :: nat
  collected :: "job list"
  thread_exit :: bool

text \<open>
  The steps. \<open>run\<close> is the execution of a job (\<open>execute_job\<close>); an exception in it ends
  the thread.
\<close>

inductive pool_step :: "(job \<Rightarrow> job result) \<Rightarrow> pool \<Rightarrow> pool \<Rightarrow> bool" for run where
  put: "to_put s = j # js \<Longrightarrow>
    pool_step run s (s\<lparr>to_put := js, in_queue := in_queue s @ [j]\<rparr>)"
| get: "i < length (workers s) \<Longrightarrow> workers s ! i = Waiting \<Longrightarrow> in_queue s = j # js \<Longrightarrow>
    pool_step run s (s\<lparr>in_queue := js, workers := (workers s)[i := Got j]\<rparr>)"
| stop: "i < length (workers s) \<Longrightarrow> workers s ! i = Got j \<Longrightarrow> is_break j \<Longrightarrow>
    pool_step run s (s\<lparr>workers := (workers s)[i := Stopped]\<rparr>)"
| interrupted: "i < length (workers s) \<Longrightarrow> workers s ! i = Got j \<Longrightarrow> \<not> is_break j \<Longrightarrow> thread_exit s \<Longrightarrow>
    pool_step run s (s\<lparr>out_queue := out_queue s @ [set_is_break True j],
                       workers := (workers s)[i := Waiting]\<rparr>)"
| skip: "i < length (workers s) \<Longrightarrow> workers s ! i = Got j \<Longrightarrow> \<not> is_break j \<Longrightarrow> \<not> thread_exit s \<Longrightarrow> is_skip j \<Longrightarrow>
    pool_step run s (s\<lparr>out_queue := out_queue s @ [j], workers := (workers s)[i := Waiting]\<rparr>)"
| launch: "i < length (workers s) \<Longrightarrow> workers s ! i = Got j \<Longrightarrow> \<not> is_break j \<Longrightarrow> \<not> thread_exit s \<Longrightarrow> \<not> is_skip j \<Longrightarrow>
    pool_step run s (s\<lparr>workers := (workers s)[i := Running j]\<rparr>)"
| finish: "i < length (workers s) \<Longrightarrow> workers s ! i = Running j \<Longrightarrow> run j = Inr j' \<Longrightarrow>
    pool_step run s (s\<lparr>out_queue := out_queue s @ [j'], workers := (workers s)[i := Waiting]\<rparr>)"
| die: "i < length (workers s) \<Longrightarrow> workers s ! i = Running j \<Longrightarrow> run j = Inl e \<Longrightarrow>
    pool_step run s (s\<lparr>workers := (workers s)[i := Died]\<rparr>)"
| collect: "to_put s = [] \<Longrightarrow> expected s = Suc n \<Longrightarrow> out_queue s = j # js \<Longrightarrow>
    pool_step run s (s\<lparr>out_queue := js, expected := n, collected := collected s @ [j]\<rparr>)"
| sigint: "\<not> thread_exit s \<Longrightarrow> pool_step run s (s\<lparr>thread_exit := True\<rparr>)"

inductive_cases pool_stepE: "pool_step run s s'"

definition start_pool :: "job list \<Rightarrow> nat \<Rightarrow> pool" where
  "start_pool js processors =
     \<lparr>to_put = js @ break_jobs processors, in_queue = [], out_queue = [],
      workers = replicate processors Waiting, expected = length js, collected = [], thread_exit = False\<rparr>"

text \<open>The main thread has all its results and every worker has ended: \<^verbatim>\<open>join\<close> returns.\<close>

definition finished :: "pool \<Rightarrow> bool" where
  "finished s = (to_put s = [] \<and> expected s = 0 \<and> list_all (\<lambda>w. w = Stopped) (workers s))"

section \<open>The invariant of the pool\<close>

text \<open>The job that a worker holds, and the parts of the pool a job can be in.\<close>

fun held :: "worker \<Rightarrow> job list" where
  "held (Got j) = [j]"
| "held (Running j) = [j]"
| "held _ = []"

definition pending :: "pool \<Rightarrow> job list" where
  "pending s = in_queue s @ to_put s"

definition in_hand :: "pool \<Rightarrow> job list" where
  "in_hand s = concat (map held (workers s))"

definition real :: "job list \<Rightarrow> job list" where
  "real js = filter (\<lambda>j. \<not> is_break j) js"

definition stopped_workers :: "pool \<Rightarrow> nat" where
  "stopped_workers s = length (filter (\<lambda>w. w = Stopped) (workers s))"

definition breaks :: "job list \<Rightarrow> nat" where
  "breaks js = length (filter is_break js)"

text \<open>A job without the fields that its execution changes.\<close>

definition identity :: "job \<Rightarrow> job" where
  "identity j = j\<lparr>is_break := False, returncode := 0, elapsed_time := 0\<rparr>"

text \<open>
  Every job is in exactly one place; the breaks come after the jobs; each stopped worker has
  consumed one break.
\<close>

definition pool_inv :: "job list \<Rightarrow> nat \<Rightarrow> pool \<Rightarrow> bool" where
  "pool_inv js n s =
     (mset (map identity (real (pending s))) + mset (map identity (real (in_hand s))) +
        mset (map identity (out_queue s)) + mset (map identity (collected s)) = mset (map identity js) \<and>
      breaks (pending s) + breaks (in_hand s) + stopped_workers s = n \<and>
      expected s + length (collected s) = length js \<and>
      length (workers s) = n \<and>
      sorted_wrt (\<lambda>a b. is_break a \<longrightarrow> is_break b) (pending s) \<and>
      (breaks (in_hand s) + stopped_workers s > 0 \<longrightarrow> real (pending s) = []) \<and>
      (\<forall>w\<in>set (workers s). w \<noteq> Died \<and> (\<forall>j. w = Running j \<longrightarrow> \<not> is_break j)))"

lemma job_list_simps [simp]:
  "real [] = []" "real (xs @ ys) = real xs @ real ys"
  "real (j # xs) = (if is_break j then real xs else j # real xs)"
  "breaks [] = 0" "breaks (xs @ ys) = breaks xs + breaks ys"
  "breaks (j # xs) = (if is_break j then Suc (breaks xs) else breaks xs)"
  by (simp_all add: real_def breaks_def)

lemma identity_simps [simp]:
  "identity (set_is_break b j) = identity j" "identity (identity j) = identity j"
  by (simp_all add: identity_def set_is_break_def)

text \<open>A worker list seen around the worker that moves.\<close>

lemma worker_split:
  assumes "i < length ws"
  obtains xs ys where "ws = xs @ (ws ! i) # ys" "\<And>w. ws[i := w] = xs @ w # ys"
  using assms id_take_nth_drop [OF assms] upd_conv_take_nth_drop [OF assms] by blast

text \<open>An execution changes only the return code and the elapsed time.\<close>

lemma execute_job_identity:
  "execute_job cfg opts ps j = Inr j' \<Longrightarrow>
     identity j' = identity j \<and> is_break j' = is_break j \<and> is_skip j' = is_skip j"
  by (auto simp: execute_job_def rbind_eq_Inr identity_def set_elapsed_time_def)

definition well_run :: "(job \<Rightarrow> job result) \<Rightarrow> bool" where
  "well_run run = (\<forall>j. \<exists>j'. run j = Inr j' \<and> identity j' = identity j)"

lemma execute_job_well_run: "PYTHON cfg \<noteq> [] \<Longrightarrow> well_run (execute_job cfg opts ps)"
  unfolding well_run_def
proof
  fix j
  assume "PYTHON cfg \<noteq> []"
  then have "py_index (PYTHON cfg) 0 = Inr (PYTHON cfg ! 0)" by (simp add: py_index_def)
  then have "\<exists>j'. execute_job cfg opts ps j = Inr j'"
    by (simp add: execute_job_def run_job_synchronously_def job_path_cmd_def Let_def)
  then show "\<exists>j'. execute_job cfg opts ps j = Inr j' \<and> identity j' = identity j"
    using execute_job_identity by blast
qed

lemmas pool_inv_simps = pool_inv_def pending_def in_hand_def stopped_workers_def

lemma pool_inv_put:
  assumes "pool_inv js n s" "to_put s = j # r"
  shows "pool_inv js n (s\<lparr>to_put := r, in_queue := in_queue s @ [j]\<rparr>)"
  using assms by (simp add: pool_inv_simps)

lemma pool_inv_get:
  assumes "pool_inv js n s" "i < length (workers s)" "workers s ! i = Waiting" "in_queue s = j # r"
  shows "pool_inv js n (s\<lparr>in_queue := r, workers := (workers s)[i := Got j]\<rparr>)"
proof -
  obtain xs ys where ws: "workers s = xs @ Waiting # ys" "(workers s)[i := Got j] = xs @ Got j # ys"
    using worker_split [OF assms(2)] assms(3) by metis
  have inv: "pool_inv js n (s\<lparr>workers := xs @ Waiting # ys\<rparr>)"
    using assms(1) by (simp add: ws(1) [symmetric])
  have "real (r @ to_put s) = []" if "is_break j"
    using assms(1,4) that by (auto simp: pool_inv_simps real_def filter_empty_conv)
  then show ?thesis unfolding ws(2) using inv assms(4)
    by (cases "is_break j"; clarsimp simp: pool_inv_simps)
qed

text \<open>
  The steps of a worker that holds a job \<open>j\<close>: it keeps the job, gives it to the output queue
  or consumes it when it is a break.
\<close>

lemma pool_inv_worker:
  assumes "pool_inv js n s" "i < length (workers s)" "held (workers s ! i) = [j]"
  shows "is_break j \<Longrightarrow> pool_inv js n (s\<lparr>workers := (workers s)[i := Stopped]\<rparr>)"
    and "\<not> is_break j \<Longrightarrow> pool_inv js n (s\<lparr>workers := (workers s)[i := Running j]\<rparr>)"
    and "\<not> is_break j \<Longrightarrow> identity j' = identity j \<Longrightarrow>
      pool_inv js n (s\<lparr>out_queue := out_queue s @ [j'], workers := (workers s)[i := Waiting]\<rparr>)"
proof -
  obtain xs ys where ws: "workers s = xs @ (workers s ! i) # ys" "\<And>w. (workers s)[i := w] = xs @ w # ys"
    using worker_split [OF assms(2)] by metis
  have ne: "workers s ! i \<noteq> Stopped" "workers s ! i \<noteq> Died" using assms(3) by auto
  have inv: "pool_inv js n (s\<lparr>workers := xs @ (workers s ! i) # ys\<rparr>)" using assms(1) ws(1) by simp
  show "is_break j \<Longrightarrow> pool_inv js n (s\<lparr>workers := (workers s)[i := Stopped]\<rparr>)"
    using inv ne assms(3) by (auto simp: pool_inv_simps ws(2))
  show "\<not> is_break j \<Longrightarrow> pool_inv js n (s\<lparr>workers := (workers s)[i := Running j]\<rparr>)"
    using inv ne assms(3) by (auto simp: pool_inv_simps ws(2))
  show "\<not> is_break j \<Longrightarrow> identity j' = identity j \<Longrightarrow>
      pool_inv js n (s\<lparr>out_queue := out_queue s @ [j'], workers := (workers s)[i := Waiting]\<rparr>)"
    using inv ne assms(3) by (auto simp: pool_inv_simps ws(2))
qed

lemma pool_inv_step:
  assumes "well_run run" "pool_inv js n s" "pool_step run s s'"
  shows "pool_inv js n s'"
  using assms(3)
proof cases
  case (put j r)
  with assms(2) show ?thesis by (simp add: pool_inv_put)
next
  case (get i j r)
  with assms(2) show ?thesis by (simp add: pool_inv_get)
next
  case (finish i j j')
  moreover from finish have "Running j \<in> set (workers s)" by (metis nth_mem)
  with assms(2) have "\<not> is_break j" by (auto simp: pool_inv_def)
  moreover from finish assms(1) have "identity j' = identity j"
    by (metis Inr_inject well_run_def)
  ultimately show ?thesis using pool_inv_worker(3) [OF assms(2), of i j j'] by simp
next
  case (die i j e)
  with assms(1) show ?thesis by (metis Inl_Inr_False well_run_def)
next
  case (collect k j r)
  with assms(2) show ?thesis by (simp add: pool_inv_simps)
next
  case sigint
  with assms(2) show ?thesis by (simp add: pool_inv_simps)
qed (use assms(2) in \<open>simp_all add: pool_inv_worker\<close>)

section \<open>Progress and termination\<close>

fun worker_weight :: "worker \<Rightarrow> nat" where
  "worker_weight (Got j) = 3"
| "worker_weight (Running j) = 2"
| "worker_weight _ = 0"

definition pool_weight :: "pool \<Rightarrow> nat" where
  "pool_weight s =
     5 * length (to_put s) + 4 * length (in_queue s) + sum_list (map worker_weight (workers s)) +
     length (out_queue s) + (if thread_exit s then 0 else 1)"

lemma pool_weight_worker:
  assumes "i < length ws" "ws ! i = w0"
  shows "sum_list (map worker_weight (ws[i := w])) + worker_weight w0 =
     sum_list (map worker_weight ws) + worker_weight w"
proof -
  obtain xs ys where "ws = xs @ w0 # ys" "ws[i := w] = xs @ w # ys"
    using worker_split [OF assms(1)] assms(2) by metis
  then show ?thesis by simp
qed

lemma pool_weight_step: "pool_step run s s' \<Longrightarrow> pool_weight s' < pool_weight s"
proof (induction rule: pool_step.induct)
  case (get i s j js)
  then show ?case using pool_weight_worker [of i "workers s" Waiting "Got j"] by (simp add: pool_weight_def)
next
  case (stop i s j)
  then show ?case using pool_weight_worker [of i "workers s" "Got j" Stopped] by (simp add: pool_weight_def)
next
  case (interrupted i s j)
  then show ?case using pool_weight_worker [of i "workers s" "Got j" Waiting] by (simp add: pool_weight_def)
next
  case (skip i s j)
  then show ?case using pool_weight_worker [of i "workers s" "Got j" Waiting] by (simp add: pool_weight_def)
next
  case (launch i s j)
  then show ?case using pool_weight_worker [of i "workers s" "Got j" "Running j"] by (simp add: pool_weight_def)
next
  case (finish i s j j')
  then show ?case using pool_weight_worker [of i "workers s" "Running j" Waiting] by (simp add: pool_weight_def)
next
  case (die i s j e)
  then show ?case using pool_weight_worker [of i "workers s" "Running j" Died] by (simp add: pool_weight_def)
qed (simp_all add: pool_weight_def)

text \<open>A worker with a job can always go on.\<close>

lemma worker_progress:
  assumes "well_run run" "i < length (workers s)" "held (workers s ! i) = [j]"
  shows "\<exists>s'. pool_step run s s'"
proof (cases "workers s ! i")
  case (Got k)
  with assms(2) show ?thesis by (meson pool_step.stop pool_step.interrupted pool_step.skip pool_step.launch)
next
  case (Running k)
  with assms(1,2) show ?thesis by (meson pool_step.finish well_run_def)
qed (use assms(3) in simp_all)

lemma all_stopped:
  assumes "\<forall>w\<in>set ws. w = Waiting \<or> w = Stopped"
  shows "concat (map held ws) = []" "length (filter (\<lambda>w. w = Stopped) ws) = length ws \<longleftrightarrow> Waiting \<notin> set ws"
  using assms by (induction ws) (auto simp: le_less_Suc_eq dest: length_filter_less)

lemma pool_progress:
  assumes "well_run run" "0 < n" "pool_inv js n s" "\<not> finished s"
  shows "\<exists>s'. pool_step run s s'"
proof (cases "to_put s")
  case (Cons j r)
  then show ?thesis by (meson pool_step.put)
next
  case Nil
  note inv = assms(3) [unfolded pool_inv_simps]
  show ?thesis
  proof (cases "\<exists>i<length (workers s). held (workers s ! i) \<noteq> []")
    case True
    then obtain i j where "i < length (workers s)" "held (workers s ! i) = [j]"
      by (metis held.elims)
    then show ?thesis by (rule worker_progress [OF assms(1)])
  next
    case False
    have idle: "w = Waiting \<or> w = Stopped" if "w \<in> set (workers s)" for w
    proof -
      from that False have "held w = []" by (auto simp: in_set_conv_nth)
      moreover have "w \<noteq> Died" using that inv by blast
      ultimately show ?thesis by (cases w) simp_all
    qed
    note st = all_stopped [of "workers s"]
    show ?thesis
    proof (cases "Waiting \<in> set (workers s)")
      case True
      then obtain i where i: "i < length (workers s)" "workers s ! i = Waiting" by (auto simp: in_set_conv_nth)
      have "length (filter (\<lambda>w. w = Stopped) (workers s)) < length (workers s)"
        using True by (auto intro: length_filter_less)
      then have "in_queue s \<noteq> []" using inv idle st(1) Nil by auto
      then obtain j r where "in_queue s = j # r" by (cases "in_queue s") auto
      with i show ?thesis by (meson pool_step.get)
    next
      case False
      then have all: "length (filter (\<lambda>w. w = Stopped) (workers s)) = n" using st(2) idle inv by auto
      then have "breaks (in_queue s) = 0" "real (in_queue s) = []" using inv assms(2) Nil by auto
      then have "in_queue s = []" by (cases "in_queue s") (auto split: if_splits)
      then have "size (mset (map identity (out_queue s)) + mset (map identity (collected s))) =
          size (mset (map identity js))"
        using inv idle st(1) Nil by simp
      then have out: "length (out_queue s) = expected s" using inv by simp
      have "list_all (\<lambda>w. w = Stopped) (workers s)" using False idle by (auto simp: list_all_iff)
      with assms(4) Nil have "expected s \<noteq> 0" by (simp add: finished_def)
      with out obtain k j r where "expected s = Suc k" "out_queue s = j # r"
        by (cases "expected s"; cases "out_queue s") auto
      with Nil show ?thesis by (meson pool_step.collect)
    qed
  qed
qed

text \<open>The pool as a terminating system.\<close>

interpretation worker_pool: terminating_system "pool_step run"
    "\<lambda>s. well_run run \<and> 0 < n \<and> pool_inv js n s" pool_weight finished
  for run n js
  using pool_inv_step pool_weight_step pool_progress by unfold_locales blast+

lemma start_pool_inv:
  assumes "list_all (\<lambda>j. \<not> is_break j) js"
  shows "pool_inv js n (start_pool js n)"
proof -
  have "real js = js" using assms by (simp add: real_def list_all_iff)
  moreover have "real (break_jobs n) = []" "breaks (break_jobs n) = n"
    by (simp_all add: real_def breaks_def break_jobs_def set_is_break_def filter_replicate)
  moreover have "breaks js = 0" using assms by (simp add: breaks_def list_all_iff filter_empty_conv)
  moreover have "sorted_wrt (\<lambda>a b. is_break a \<longrightarrow> is_break b) (js @ break_jobs n)"
    using assms by (auto simp: sorted_wrt_iff_nth_less nth_append list_all_length
        break_jobs_def set_is_break_def)
  moreover have "concat (map held (replicate n Waiting)) = []" by (induction n) simp_all
  ultimately show ?thesis
    by (simp add: pool_inv_simps start_pool_def filter_replicate)
qed

text \<open>A small configuration for the examples: every process succeeds.\<close>

definition demo_config :: config where
  "demo_config = \<lparr>NS3_BASEDIR = ''/ns3'', NS3_BUILDDIR = ''/ns3/build'', NS3_MODULE_PATH = [''/ns3/build''],
     NS3_ENABLED_MODULES = [''ns3-core''], NS3_ENABLED_CONTRIBUTED_MODULES = [],
     EXAMPLE_DIRECTORIES = [], ENABLE_EXAMPLES = True, ENABLE_PYTHON_BINDINGS = True,
     NSC_ENABLED = False, APPNAME = ''ns'', VERSION = ''3'', BUILD_PROFILE = ''debug'',
     PYTHON = [''python'']\<rparr>"

definition demo_options :: options where
  "demo_options = \<lparr>buildpath = [], constrain = [], opt_example = [], opt_pyexample = [],
     opt_suite = [], fullness = ''QUICK'', process_limit = 0, valgrind = False, multiple = False,
     update_data = False, duration = False, kinds = False, list_tests = False\<rparr>"

definition demo_processes :: processes where
  "demo_processes cmd dir = \<lparr>p_returncode = 0, p_stdout = Some [], p_stderr = Some [], p_elapsed = 7\<rparr>"

abbreviation demo_run :: "job \<Rightarrow> job result" where
  "demo_run \<equiv> execute_job demo_config demo_options demo_processes"

section \<open>Properties of the pool\<close>

text \<open>
  C2: the run of the tests terminates, whatever the interleaving of the threads and whenever the
  interrupt comes. With at least one worker and a Python interpreter configured, no execution is
  longer than \<open>5 * (jobs + workers) + 1\<close> steps, and an execution that cannot go on has
  finished: the main thread has all its results and every worker has stopped. There is no
  deadlock on the queues.
\<close>

theorem pool_terminates:
  assumes "PYTHON cfg \<noteq> []" "0 < processors" "list_all (\<lambda>j. \<not> is_break j) js"
  shows "((pool_step (execute_job cfg opts ps) ^^ n) (start_pool js processors) s \<longrightarrow>
            n \<le> 5 * (length js + processors) + 1) \<and>
         ((pool_step (execute_job cfg opts ps))\<^sup>*\<^sup>* (start_pool js processors) s \<longrightarrow>
            (\<nexists>t. pool_step (execute_job cfg opts ps) s t) \<longrightarrow> finished s) \<and>
         (\<exists>t. (pool_step (execute_job cfg opts ps))\<^sup>*\<^sup>* (start_pool js processors) t \<and> finished t)"
proof -
  have inv: "well_run (execute_job cfg opts ps) \<and> 0 < processors \<and>
      pool_inv js processors (start_pool js processors)"
    using execute_job_well_run [OF assms(1)] assms(2) start_pool_inv [OF assms(3)] by blast
  have w: "pool_weight (start_pool js processors) = 5 * (length js + processors) + 1"
    by (simp add: pool_weight_def start_pool_def break_jobs_def sum_list_replicate)
  show ?thesis
    using worker_pool.execution_bounded [of n "execute_job cfg opts ps" "start_pool js processors" s]
      worker_pool.stuck_final [OF inv, of s] worker_pool.reaches_final [OF inv] w by auto
qed

theorem pool_terminates_witness:
  "\<exists>t. (pool_step demo_run)\<^sup>*\<^sup>* (start_pool [new_job] 2) t \<and> finished t"
  using pool_terminates [of demo_config 2 "[new_job]" 0 demo_options demo_processes]
  by (simp add: demo_config_def new_job_def)

text \<open>The results of a reachable state.\<close>

lemma reachable_results:
  assumes "PYTHON cfg \<noteq> []" "0 < processors" "list_all (\<lambda>j. \<not> is_break j) js"
    and "(pool_step (execute_job cfg opts ps))\<^sup>*\<^sup>* (start_pool js processors) s"
  shows "mset (map identity (collected s)) \<subseteq># mset (map identity js) \<and>
         (finished s \<longrightarrow> mset (map identity (collected s)) = mset (map identity js))"
proof -
  have inv: "pool_inv js processors s"
    using worker_pool.inv_execution [OF assms(4)] execute_job_well_run [OF assms(1)] assms(2)
      start_pool_inv [OF assms(3)] by blast
  then have sub: "mset (map identity (collected s)) \<subseteq># mset (map identity js)"
    unfolding pool_inv_def by (metis mset_subset_eq_add_right)
  moreover have "mset (map identity (collected s)) = mset (map identity js)" if "finished s"
  proof -
    from that inv have "length (collected s) = length js" by (simp add: finished_def pool_inv_def)
    with sub show ?thesis by (metis length_map mset_subset_size nat_neq_iff size_mset subset_mset.le_imp_less_or_eq)
  qed
  ultimately show ?thesis by blast
qed



text \<open>
  What a job becomes when no interrupt comes: a skipped job is passed on, the others are executed.
\<close>

definition outcome :: "(job \<Rightarrow> job result) \<Rightarrow> job \<Rightarrow> job" where
  "outcome run j = (if is_skip j then j else case run j of Inr j' \<Rightarrow> j' | Inl e \<Rightarrow> j)"

definition outcome_inv :: "(job \<Rightarrow> job result) \<Rightarrow> job list \<Rightarrow> pool \<Rightarrow> bool" where
  "outcome_inv run js s =
     (thread_exit s \<or>
      mset (map (outcome run) (real (pending s))) + mset (map (outcome run) (real (in_hand s))) +
        mset (out_queue s) + mset (collected s) = mset (map (outcome run) js) \<and>
      (\<forall>w\<in>set (workers s). \<forall>j. w = Running j \<longrightarrow> \<not> is_skip j \<and> \<not> is_break j))"

lemma outcome_inv_worker:
  assumes "outcome_inv run js s" "\<not> thread_exit s" "i < length (workers s)" "held (workers s ! i) = [j]"
  shows "is_break j \<Longrightarrow> outcome_inv run js (s\<lparr>workers := (workers s)[i := Stopped]\<rparr>)"
    and "\<not> is_break j \<Longrightarrow> \<not> is_skip j \<Longrightarrow> outcome_inv run js (s\<lparr>workers := (workers s)[i := Running j]\<rparr>)"
    and "\<not> is_break j \<Longrightarrow> outcome_inv run js (s\<lparr>out_queue := out_queue s @ [outcome run j],
           workers := (workers s)[i := Waiting]\<rparr>)"
proof -
  obtain xs ys where ws: "workers s = xs @ (workers s ! i) # ys" "\<And>w. (workers s)[i := w] = xs @ w # ys"
    using worker_split [OF assms(3)] by metis
  have inv: "outcome_inv run js (s\<lparr>workers := xs @ (workers s ! i) # ys\<rparr>)" using assms(1) ws(1) by simp
  note defs = outcome_inv_def pending_def in_hand_def ws(2)
  show "is_break j \<Longrightarrow> outcome_inv run js (s\<lparr>workers := (workers s)[i := Stopped]\<rparr>)"
    using inv assms(2,4) by (auto simp: defs)
  show "\<not> is_break j \<Longrightarrow> \<not> is_skip j \<Longrightarrow> outcome_inv run js (s\<lparr>workers := (workers s)[i := Running j]\<rparr>)"
    using inv assms(2,4) by (auto simp: defs)
  show "\<not> is_break j \<Longrightarrow> outcome_inv run js (s\<lparr>out_queue := out_queue s @ [outcome run j],
           workers := (workers s)[i := Waiting]\<rparr>)"
    using inv assms(2,4) by (auto simp: defs)
qed

lemma outcome_inv_get:
  assumes "outcome_inv run js s" "i < length (workers s)" "workers s ! i = Waiting" "in_queue s = j # r"
  shows "outcome_inv run js (s\<lparr>in_queue := r, workers := (workers s)[i := Got j]\<rparr>)"
proof -
  obtain xs ys where ws: "workers s = xs @ Waiting # ys" "(workers s)[i := Got j] = xs @ Got j # ys"
    using worker_split [OF assms(2)] assms(3) by metis
  have inv: "outcome_inv run js (s\<lparr>workers := xs @ Waiting # ys\<rparr>)"
    using assms(1) by (simp add: ws(1) [symmetric])
  then show ?thesis unfolding ws(2) using assms(4)
    by (cases "is_break j"; clarsimp simp: outcome_inv_def pending_def in_hand_def)
qed

lemma outcome_inv_step:
  assumes "well_run run" "outcome_inv run js s" "pool_step run s s'"
  shows "outcome_inv run js s'"
  using assms(3)
proof cases
  case (get i j r)
  with assms(2) show ?thesis by (simp add: outcome_inv_get)
next
  case (stop i j)
  with assms(2) show ?thesis
    by (cases "thread_exit s") (simp_all add: outcome_inv_worker(1), simp add: outcome_inv_def)
next
  case (skip i j)
  moreover from skip have "outcome run j = j" by (simp add: outcome_def)
  ultimately show ?thesis using outcome_inv_worker(3) [OF assms(2), of i j] by simp
next
  case (launch i j)
  with assms(2) show ?thesis by (simp add: outcome_inv_worker(2))
next
  case (finish i j j')
  show ?thesis
  proof (cases "thread_exit s")
    case False
    from finish have "Running j \<in> set (workers s)" by (metis nth_mem)
    with assms(2) False have "\<not> is_skip j" "\<not> is_break j" by (auto simp: outcome_inv_def)
    moreover from this finish have "outcome run j = j'" by (simp add: outcome_def)
    ultimately show ?thesis using finish outcome_inv_worker(3) [OF assms(2) False, of i j] by simp
  qed (use finish in \<open>simp add: outcome_inv_def\<close>)
next
  case (die i j e)
  with assms(1) show ?thesis by (metis Inl_Inr_False well_run_def)
qed (use assms(2) in \<open>auto simp: outcome_inv_def pending_def in_hand_def\<close>)

lemma outcome_inv_execution:
  assumes "(pool_step run)\<^sup>*\<^sup>* s s'" "well_run run" "outcome_inv run js s"
  shows "outcome_inv run js s'"
  using assms by (induction rule: rtranclp_induct) (auto intro: outcome_inv_step)

text \<open>The results of a finished run, for the properties below and of the whole program.\<close>

lemma finished_results:
  assumes "PYTHON cfg \<noteq> []" "0 < processors" "list_all (\<lambda>j. \<not> is_break j) js"
    and "(pool_step (execute_job cfg opts ps))\<^sup>*\<^sup>* (start_pool js processors) s"
    and "finished s" "\<not> thread_exit s"
  shows "mset (collected s) = mset (map (outcome (execute_job cfg opts ps)) js)"
proof -
  let ?run = "execute_job cfg opts ps"
  have run: "well_run ?run" by (rule execute_job_well_run [OF assms(1)])
  have "real js = js" using assms(3) by (simp add: real_def list_all_iff)
  moreover have "real (break_jobs processors) = []"
    by (simp add: real_def break_jobs_def set_is_break_def filter_replicate)
  moreover have "concat (map held (replicate processors Waiting)) = []" by (induction processors) simp_all
  ultimately have "outcome_inv ?run js (start_pool js processors)"
    by (simp add: outcome_inv_def start_pool_def pending_def in_hand_def)
  then have out: "outcome_inv ?run js s" using outcome_inv_execution [OF assms(4) run] by blast
  have "pool_inv js processors s"
    using worker_pool.inv_execution [OF assms(4)] run assms(2) start_pool_inv [OF assms(3)] by blast
  with assms(5) have len: "length (collected s) = length js" by (simp add: finished_def pool_inv_def)
  from out assms(6) have eq: "mset (map (outcome ?run) (real (pending s))) +
      mset (map (outcome ?run) (real (in_hand s))) + mset (out_queue s) + mset (collected s) =
      mset (map (outcome ?run) js)" by (simp add: outcome_inv_def)
  have "size (mset (map (outcome ?run) (real (pending s))) + mset (map (outcome ?run) (real (in_hand s))) +
      mset (out_queue s) + mset (collected s)) = length js" unfolding eq by simp
  with len have "real (pending s) = []" "real (in_hand s) = []" "out_queue s = []" by simp_all
  with eq show ?thesis by simp
qed

text \<open>
  The results do not depend on the scheduling. When the run finishes without an interrupt, the
  collected results are, as a multiset, exactly the outcomes of the dispatched jobs: the number
  of workers and the interleaving change only their order.
\<close>

theorem pool_results_deterministic:
  assumes "PYTHON cfg \<noteq> []" "0 < processors" "list_all (\<lambda>j. \<not> is_break j) js"
    and "(pool_step (execute_job cfg opts ps))\<^sup>*\<^sup>* (start_pool js processors) s"
    and "finished s" "\<not> thread_exit s"
  shows "mset (collected s) = mset (map (outcome (execute_job cfg opts ps)) js)"
  using assms by (rule finished_results)

definition demo_result :: job where
  "demo_result = new_job\<lparr>elapsed_time := 7\<rparr>"

definition demo_break :: job where
  "demo_break = set_is_break True new_job"

definition demo_pool :: "job list \<Rightarrow> job list \<Rightarrow> job list \<Rightarrow> worker \<Rightarrow> nat \<Rightarrow> job list \<Rightarrow> pool" where
  "demo_pool a b c w e d = \<lparr>to_put = a, in_queue = b, out_queue = c, workers = [w], expected = e,
     collected = d, thread_exit = False\<rparr>"

lemma demo_steps:
  "pool_step demo_run (demo_pool (j # a) b c w e d) (demo_pool a (b @ [j]) c w e d)"
  "pool_step demo_run (demo_pool a (j # b) c Waiting e d) (demo_pool a b c (Got j) e d)"
  "is_break j \<Longrightarrow> pool_step demo_run (demo_pool a b c (Got j) e d) (demo_pool a b c Stopped e d)"
  "\<not> is_break j \<Longrightarrow> \<not> is_skip j \<Longrightarrow>
     pool_step demo_run (demo_pool a b c (Got j) e d) (demo_pool a b c (Running j) e d)"
  "demo_run j = Inr j' \<Longrightarrow>
     pool_step demo_run (demo_pool a b c (Running j) e d) (demo_pool a b (c @ [j']) Waiting e d)"
  "pool_step demo_run (demo_pool [] b (j # c) w (Suc e) d) (demo_pool [] b c w e (d @ [j]))"
  using pool_step.put [of "demo_pool (j # a) b c w e d" j a demo_run]
    pool_step.get [of 0 "demo_pool a (j # b) c Waiting e d" j b demo_run]
    pool_step.stop [of 0 "demo_pool a b c (Got j) e d" j demo_run]
    pool_step.launch [of 0 "demo_pool a b c (Got j) e d" j demo_run]
    pool_step.finish [of 0 "demo_pool a b c (Running j) e d" j demo_run j']
    pool_step.collect [of "demo_pool [] b (j # c) w (Suc e) d" e j c demo_run]
  by (simp_all add: demo_pool_def)

lemma demo_execution:
  assumes "\<not> is_break j" "\<not> is_skip j" and run: "demo_run j = Inr j'"
  shows "(pool_step demo_run)\<^sup>*\<^sup>* (start_pool [j] 1) (demo_pool [] [] [] Stopped 0 [j'])"
proof -
  have j: "\<not> is_break j" "\<not> is_skip j" "is_break demo_break"
    using assms by (simp_all add: demo_break_def set_is_break_def)
  have "start_pool [j] 1 = demo_pool [j, demo_break] [] [] Waiting 1 []"
    by (simp add: start_pool_def demo_pool_def break_jobs_def demo_break_def)
  also have "(pool_step demo_run)\<^sup>*\<^sup>* \<dots> (demo_pool [demo_break] [j] [] Waiting 1 [])"
    using demo_steps(1) [of j "[demo_break]" "[]"] by auto
  also have "(pool_step demo_run)\<^sup>*\<^sup>* \<dots> (demo_pool [] [j, demo_break] [] Waiting 1 [])"
    using demo_steps(1) [of demo_break "[]" "[j]"] by auto
  also have "(pool_step demo_run)\<^sup>*\<^sup>* \<dots> (demo_pool [] [demo_break] [] (Got j) 1 [])"
    using demo_steps(2) by blast
  also have "(pool_step demo_run)\<^sup>*\<^sup>* \<dots> (demo_pool [] [demo_break] [] (Running j) 1 [])"
    using demo_steps(4) j by blast
  also have "(pool_step demo_run)\<^sup>*\<^sup>* \<dots> (demo_pool [] [demo_break] [j'] Waiting 1 [])"
    using demo_steps(5) [OF run, of "[]" "[demo_break]" "[]"] by auto
  also have "(pool_step demo_run)\<^sup>*\<^sup>* \<dots> (demo_pool [] [] [j'] (Got demo_break) 1 [])"
    using demo_steps(2) by blast
  also have "(pool_step demo_run)\<^sup>*\<^sup>* \<dots> (demo_pool [] [] [j'] Stopped 1 [])"
    using demo_steps(3) j by blast
  also have "(pool_step demo_run)\<^sup>*\<^sup>* \<dots> (demo_pool [] [] [] Stopped 0 [j'])"
    using demo_steps(6) [of "[]" j' "[]" Stopped 0 "[]"] by auto
  finally show ?thesis .
qed

lemma demo_run_new_job: "\<not> is_break new_job" "\<not> is_skip new_job" "demo_run new_job = Inr demo_result"
  by (simp_all add: execute_job_def run_job_synchronously_def job_path_cmd_def demo_result_def
      demo_processes_def demo_options_def set_elapsed_time_def Let_def new_job_def)

theorem pool_results_deterministic_witness:
  "mset (collected (demo_pool [] [] [] Stopped 0 [demo_result])) = mset (map (outcome demo_run) [new_job])"
  by (rule pool_results_deterministic [OF _ _ _ demo_execution [OF demo_run_new_job]])
    (simp_all add: demo_config_def new_job_def finished_def demo_pool_def)

end
