(* ===== verification/TestReport.thy ===== *)
theory TestReport
  imports TestQueue XmlTree
begin

text \<open>
  \<^verbatim>\<open>test.py\<close>, third part: the loop of \<^verbatim>\<open>run_tests\<close> over the results (classification,
  counters, the lines printed and the results file), the return code, and the translation of the
  results file to text and HTML. The state of the loop is the record \<open>summary\<close>. XML
  elements are those of \<^verbatim>\<open>XmlTree\<close>; parsing the file is left to the XML library.
\<close>

section \<open>The loop over the results\<close>

datatype status = PASS | FAIL | VALGR | CRASH | SKIP

fun status_name :: "status \<Rightarrow> string" where
  "status_name PASS = ''PASS''"
| "status_name FAIL = ''FAIL''"
| "status_name VALGR = ''VALGR''"
| "status_name CRASH = ''CRASH''"
| "status_name SKIP = ''SKIP''"

fun status_color :: "status \<Rightarrow> string" where
  "status_color PASS = ''GREEN''"
| "status_color FAIL = ''RED''"
| "status_color VALGR = ''CYAN''"
| "status_color CRASH = ''PINK''"
| "status_color SKIP = ''GREY''"

definition job_status :: "job \<Rightarrow> status" where
  "job_status j =
     (if is_skip j then SKIP
      else if returncode j = 0 then PASS
      else if returncode j = 1 then FAIL
      else if returncode j = 2 then VALGR
      else CRASH)"

record summary =
  passed_tests :: nat
  failed_tests :: nat
  crashed_tests :: nat
  skipped_tests :: nat
  valgrind_errors :: nat
  skipped_testnames :: "string list"
  failed_testnames :: "string list"
  crashed_testnames :: "string list"
  valgrind_testnames :: "string list"
  printed :: "string list"
  results_file :: string

definition count_result :: "job \<Rightarrow> summary \<Rightarrow> summary" where
  "count_result j st =
     (case job_status j of
        SKIP \<Rightarrow> st\<lparr>skipped_tests := skipped_tests st + 1,
                   skipped_testnames := skipped_testnames st @ [display_name j @ '' ('' @ skip_reason j @ '')'']\<rparr>
      | PASS \<Rightarrow> st\<lparr>passed_tests := passed_tests st + 1\<rparr>
      | FAIL \<Rightarrow> st\<lparr>failed_tests := failed_tests st + 1,
                   failed_testnames := failed_testnames st @ [display_name j]\<rparr>
      | VALGR \<Rightarrow> st\<lparr>valgrind_errors := valgrind_errors st + 1,
                    valgrind_testnames := valgrind_testnames st @ [display_name j]\<rparr>
      | CRASH \<Rightarrow> st\<lparr>crashed_tests := crashed_tests st + 1,
                    crashed_testnames := crashed_testnames st @ [display_name j]\<rparr>)"

text \<open>\<^verbatim>\<open>'%.3f'\<close> of a time in thousandths of a second\<close>

definition show_time :: "nat \<Rightarrow> string" where
  "show_time t =
     show_nat (t div 1000) @ ''.'' @
     [digit_char (t div 100 mod 10), digit_char (t div 10 mod 10), digit_char (t mod 10)]"

definition job_kind :: "job \<Rightarrow> string" where
  "job_kind j = (if is_example j \<or> is_pyexample j then ''Example'' else ''TestSuite'')"

text \<open>The number that the progress line shows.\<close>

definition progress_index :: "summary \<Rightarrow> nat" where
  "progress_index st = passed_tests st + failed_tests st + skipped_tests st + crashed_tests st"

definition progress_line :: "bool \<Rightarrow> options \<Rightarrow> nat \<Rightarrow> job \<Rightarrow> summary \<Rightarrow> string" where
  "progress_line use opts n_total j st =
     ''['' @ show_nat (progress_index st) @ ''/'' @ show_nat n_total @ ''] '' @
     get_color use (status_color (job_status j)) @ status_name (job_status j) @ get_color use ''NORMAL'' @
     (if duration opts \<or> constrain opts = ''performance'' then '' ('' @ show_time (elapsed_time j) @ '')'' else []) @
     '': '' @ job_kind j @ '' '' @ display_name j"

definition nl :: string where "nl = [CHR 0x0A]"

definition dq :: string where "dq = [CHR 0x22]"

text \<open>What is appended to the results file; \<open>tmp\<close> are the contents of the temporary files.\<close>

definition result_entry :: "(string \<Rightarrow> string option) \<Rightarrow> job \<Rightarrow> string result" where
  "result_entry tmp j =
     (if is_example j \<or> is_pyexample j
      then Inr (''<Example>'' @ nl @ ''  <Name>'' @ display_name j @ ''</Name>'' @ nl @
                ''  <Result>'' @ status_name (job_status j) @ ''</Result>'' @ nl @
                ''  <Time real='' @ dq @ show_time (elapsed_time j) @ dq @ ''/>'' @ nl @ ''</Example>'' @ nl)
      else if is_skip j
      then Inr (''<Test>'' @ nl @ ''  <Name>'' @ display_name j @ ''</Name>'' @ nl @
                ''  <Result>SKIP</Result>'' @ nl @ ''  <Reason>'' @ skip_reason j @ ''</Reason>'' @ nl @
                ''</Test>'' @ nl)
      else if returncode j = 0 \<or> returncode j = 1 \<or> returncode j = 2
      then case tmp (tmp_file_name j) of None \<Rightarrow> Inl IOError | Some s \<Rightarrow> Inr s
      else Inr (''<Test>'' @ nl @ ''  <Name>'' @ display_name j @ ''</Name>'' @ nl @
                ''  <Result>CRASH</Result>'' @ nl @ ''</Test>'' @ nl))"

definition handle_result ::
  "bool \<Rightarrow> options \<Rightarrow> nat \<Rightarrow> (string \<Rightarrow> string option) \<Rightarrow> summary \<Rightarrow> job \<Rightarrow> summary result" where
  "handle_result use opts n_total tmp st j =
     (if is_break j then Inr st
      else let st = count_result j st;
               st = st\<lparr>printed := printed st @ [progress_line use opts n_total j st]\<rparr>
           in rbind (result_entry tmp j) (\<lambda>s. Inr (st\<lparr>results_file := results_file st @ s\<rparr>)))"

definition start_summary :: summary where
  "start_summary = \<lparr>passed_tests = 0, failed_tests = 0, crashed_tests = 0, skipped_tests = 0,
     valgrind_errors = 0, skipped_testnames = [], failed_testnames = [], crashed_testnames = [],
     valgrind_testnames = [], printed = [],
     results_file = ''<?xml version='' @ dq @ ''1.0'' @ dq @ ''?>'' @ nl @ ''<Results>'' @ nl\<rparr>"

definition handle_results ::
  "bool \<Rightarrow> options \<Rightarrow> nat \<Rightarrow> (string \<Rightarrow> string option) \<Rightarrow> job list \<Rightarrow> summary result" where
  "handle_results use opts n_total tmp results =
     rbind (for_each (handle_result use opts n_total tmp) results start_summary) (\<lambda>st.
       Inr (st\<lparr>results_file := results_file st @ ''</Results>'' @ nl\<rparr>))"

text \<open>The summary lines and the return code.\<close>

definition summary_line :: "nat \<Rightarrow> summary \<Rightarrow> string" where
  "summary_line n_total st =
     show_nat (passed_tests st) @ '' of '' @ show_nat n_total @ '' tests passed ('' @
     show_nat (passed_tests st) @ '' passed, '' @ show_nat (skipped_tests st) @ '' skipped, '' @
     show_nat (failed_tests st) @ '' failed, '' @ show_nat (crashed_tests st) @ '' crashed, '' @
     show_nat (valgrind_errors st) @ '' valgrind errors)''"

definition return_code :: "nat \<Rightarrow> summary \<Rightarrow> int" where
  "return_code n_total st = (if passed_tests st + skipped_tests st = n_total then 0 else 1)"

section \<open>Reading the results file\<close>

text \<open>\<^verbatim>\<open>e.find(t).text\<close>, which fails on \<^verbatim>\<open>None\<close>\<close>

definition find_text :: "xml \<Rightarrow> string \<Rightarrow> string option result" where
  "find_text e t = (case find_child e t of None \<Rightarrow> Inl AttributeError | Some c \<Rightarrow> Inr (xtext c))"

definition read_test :: "xml \<Rightarrow> (string option \<times> string option \<times> string option \<times> string option) result" where
  "read_test test =
     rbind (find_text test ''Result'') (\<lambda>r.
     rbind (find_text test ''Name'') (\<lambda>name.
       Inr (r, name,
            (case find_child test ''Reason'' of None \<Rightarrow> Some [] | Some c \<Rightarrow> xtext c),
            (case find_child test ''Time'' of None \<Rightarrow> Some [] | Some c \<Rightarrow> map_of (attrs c) ''real''))))"

definition detail_fields :: "string list" where
  "detail_fields = [''Message'', ''Condition'', ''Actual'', ''Limit'', ''File'', ''Line'']"

section \<open>The text report\<close>

text \<open>The report as the list of the lines written.\<close>

definition header_line :: "string \<Rightarrow> string option \<times> string option \<times> string option \<times> string option \<Rightarrow> string" where
  "header_line test_type t =
     (case t of (r, name, reason, time_real) \<Rightarrow>
        show_opt r @ '': Test '' @ test_type @ '' '' @ dq @ show_opt name @ dq @ '' ('' @ show_opt time_real @ '')'' @
        (if reason = None then ''None'' else if reason = Some [] then [] else '' ('' @ show_opt reason @ '')''))"

definition detail_line :: "xml \<Rightarrow> string \<Rightarrow> string result" where
  "detail_line details field =
     rbind (find_text details field) (\<lambda>v.
       Inr (''      '' @ field @ '':'' @ replicate (10 - length field) (CHR '' '') @ show_opt v))"

definition detail_lines :: "xml \<Rightarrow> string list result" where
  "detail_lines details =
     rbind (map_res (detail_line details) detail_fields) (\<lambda>ls. Inr (''    Details:'' # ls))"

lemma findall_size [termination_simp]: "c \<in> set (findall e t) \<Longrightarrow> size c < size e"
  by (cases e) (auto simp: findall_def dest!: size_list_estimation' [of _ _ _ size, OF _ order_refl])

fun node_to_text :: "xml \<Rightarrow> string \<Rightarrow> string list result" where
  "node_to_text test test_type =
     rbind (read_test test) (\<lambda>t.
     rbind (map_res detail_lines (findall test ''FailureDetails'')) (\<lambda>ds.
     rbind (map_res (\<lambda>child. node_to_text child ''Case'') (findall test ''Test'')) (\<lambda>cs.
       Inr (header_line test_type t # concat ds @ concat cs))))"

declare node_to_text.simps [simp del]

definition example_line :: "xml \<Rightarrow> string result" where
  "example_line e =
     rbind (find_text e ''Result'') (\<lambda>r.
     rbind (find_text e ''Name'') (\<lambda>name.
       Inr (show_opt r @ '': Example '' @ dq @ show_opt name @ dq @ '' ('' @
            show_opt (case find_child e ''Time'' of None \<Rightarrow> Some [] | Some c \<Rightarrow> map_of (attrs c) ''real'') @ '')'')))"

definition translate_to_text :: "xml \<Rightarrow> string list result" where
  "translate_to_text et =
     rbind (map_res (\<lambda>test. node_to_text test ''Suite'') (findall et ''Test'')) (\<lambda>ts.
     rbind (map_res example_line (findall et ''Example'')) (\<lambda>es. Inr (concat ts @ es)))"

section \<open>The HTML report\<close>

text \<open>
  The pieces written, in order, without their line ends; the tags that structure a table are
  pieces of their own, as they are in the code.
\<close>

definition colored :: "string \<Rightarrow> string \<Rightarrow> string \<Rightarrow> string" where
  "colored t color s =
     ''<'' @ t @ '' style='' @ dq @ ''color:'' @ color @ dq @ ''>'' @ s @ ''</'' @ t @ ''>''"

definition cell :: "string \<Rightarrow> string" where
  "cell s = ''<td>'' @ s @ ''</td>''"

definition suite_header :: "string \<Rightarrow> string \<Rightarrow> string \<Rightarrow> string \<Rightarrow> string" where
  "suite_header r name time reason =
     (if r = ''PASS'' then colored ''h3'' ''green'' (r @ '': '' @ name @ '' ('' @ time @ '')'')
      else if r = ''SKIP''
      then colored ''h3'' ''#ff6600'' (r @ '': '' @ name @ '' ('' @ time @ '') ('' @ reason @ '')'')
      else colored ''h3'' ''red'' (r @ '': '' @ name @ '' ('' @ time @ '')''))"

definition html_details :: "xml \<Rightarrow> string result" where
  "html_details details =
     rbind (map_res (find_text details) detail_fields) (\<lambda>vs.
       Inr (join_with '', '' (map (\<lambda>(f, v). ''<b>'' @ f @ '': </b>'' @ show_opt v) (zip detail_fields vs))))"

text \<open>The rows of a failed test case, one per failure; only the first repeats the name.\<close>

fun failure_rows :: "string list \<Rightarrow> bool \<Rightarrow> xml list \<Rightarrow> string list result" where
  "failure_rows first_cells first_row [] = Inr []"
| "failure_rows first_cells first_row (d # ds) =
     rbind (html_details d) (\<lambda>s.
     rbind (failure_rows first_cells False ds) (\<lambda>rest.
       Inr ([''<tr>''] @ (if first_row then first_cells else replicate 3 (cell [])) @
            [''<td>'' @ s @ ''</td>'', ''</td>''] @ rest)))"

definition case_rows :: "xml \<Rightarrow> string list result" where
  "case_rows c =
     rbind (read_test c) (\<lambda>(r, name, reason, time).
       if r = Some ''FAIL''
       then failure_rows [colored ''td'' ''red'' (show_opt r), cell (show_opt name), cell (show_opt time)]
              True (findall c ''FailureDetails'')
       else Inr [''<tr>'', colored ''td'' ''green'' (show_opt r), cell (show_opt name), cell (show_opt time),
                 cell (show_opt reason), ''</tr>''])"

definition table_open :: string where
  "table_open = ''<table border='' @ dq @ ''1'' @ dq @ ''>''"

definition suite_html :: "xml \<Rightarrow> string list result" where
  "suite_html suite =
     rbind (read_test suite) (\<lambda>(r, name, reason, time).
       let start = [suite_header (show_opt r) (show_opt name) (show_opt time) (show_opt reason),
                    table_open, ''<th> Result </th>''] in
       if r \<in> {Some ''CRASH'', Some ''SKIP'', Some ''VALGR''}
       then Inr (start @ [''<tr>'',
              colored ''td'' (if r = Some ''SKIP'' then ''#ff6600'' else ''red'') (show_opt r),
              ''</tr>'', ''</table>''])
       else rbind (map_res case_rows (findall suite ''Test'')) (\<lambda>rows.
              Inr (start @ [''<th>Test Case Name</th>'', ''<th> Time </th>''] @
                   (if r = Some ''FAIL'' then [''<th>Failure Details</th>''] else []) @
                   concat rows @ [''</table>''])))"

definition example_html :: "xml \<Rightarrow> string list result" where
  "example_html e =
     rbind (read_test e) (\<lambda>(r, name, reason, time).
       Inr [''<tr>'',
            (if r = Some ''PASS'' then colored ''td'' ''green'' (show_opt r)
             else if r = Some ''SKIP''
             then ''<td style='' @ dq @ ''color:#ff6600'' @ dq @ ''>'' @ show_opt r @ ''</fd>''
             else colored ''td'' ''red'' (show_opt r)),
            cell (show_opt name), cell (show_opt time), cell (show_opt reason), ''</tr>''])"

definition translate_to_html :: "xml \<Rightarrow> string list result" where
  "translate_to_html et =
     rbind (map_res suite_html (findall et ''Test'')) (\<lambda>suites.
     rbind (map_res example_html (findall et ''Example'')) (\<lambda>examples.
       Inr ([''<html>'', ''<body>'', ''<center><h1>ns-3 Test Results</h1></center>'', ''<h2>Test Suites</h2>''] @
            concat suites @
            [''<h2>Examples</h2>'', table_open, ''<th> Result </th>'', ''<th>Example Name</th>'',
             ''<th>Elapsed Time</th>'', ''<th>Details</th>''] @
            concat examples @ [''</table>'', ''</body>'', ''</html>''])))"

section \<open>Properties of the counters\<close>

definition results_with :: "status \<Rightarrow> job list \<Rightarrow> job list" where
  "results_with v js = filter (\<lambda>j. \<not> is_break j \<and> job_status j = v) js"

lemma handle_loop:
  assumes "for_each (handle_result use opts n_total tmp) js st = Inr st'"
  shows "passed_tests st' = passed_tests st + length (results_with PASS js) \<and>
    failed_tests st' = failed_tests st + length (results_with FAIL js) \<and>
    crashed_tests st' = crashed_tests st + length (results_with CRASH js) \<and>
    skipped_tests st' = skipped_tests st + length (results_with SKIP js) \<and>
    valgrind_errors st' = valgrind_errors st + length (results_with VALGR js) \<and>
    failed_testnames st' = failed_testnames st @ map display_name (results_with FAIL js) \<and>
    crashed_testnames st' = crashed_testnames st @ map display_name (results_with CRASH js) \<and>
    valgrind_testnames st' = valgrind_testnames st @ map display_name (results_with VALGR js)"
  using assms
proof (induction js arbitrary: st)
  case (Cons j js)
  then obtain t where t: "handle_result use opts n_total tmp st j = Inr t"
    and rest: "for_each (handle_result use opts n_total tmp) js t = Inr st'" by (auto simp: rbind_eq_Inr)
  from Cons.IH [OF rest] t show ?case
    by (cases "is_break j"; cases "job_status j")
      (auto simp: handle_result_def count_result_def results_with_def rbind_eq_Inr Let_def)
qed (simp add: results_with_def)

lemma results_partition:
  "length (results_with PASS js) + length (results_with FAIL js) + length (results_with CRASH js) +
   length (results_with SKIP js) + length (results_with VALGR js) = length (real js)"
  by (induction js) (auto simp: results_with_def job_status_def)

text \<open>The counters after the loop.\<close>

lemma handle_results_summary:
  assumes "handle_results use opts n_total tmp results = Inr st"
  shows "passed_tests st = length (results_with PASS results) \<and>
    failed_tests st = length (results_with FAIL results) \<and>
    crashed_tests st = length (results_with CRASH results) \<and>
    skipped_tests st = length (results_with SKIP results) \<and>
    valgrind_errors st = length (results_with VALGR results) \<and>
    passed_tests st + failed_tests st + crashed_tests st + skipped_tests st + valgrind_errors st =
      length (real results) \<and>
    failed_testnames st = map display_name (results_with FAIL results) \<and>
    crashed_testnames st = map display_name (results_with CRASH results) \<and>
    progress_index st = length (real results) - valgrind_errors st"
proof -
  obtain t where t: "for_each (handle_result use opts n_total tmp) results start_summary = Inr t"
      and st: "st = t\<lparr>results_file := results_file t @ ''</Results>'' @ nl\<rparr>"
    using assms by (auto simp: handle_results_def rbind_eq_Inr)
  from handle_loop [OF t] results_partition [of results] show ?thesis
    by (simp add: st start_summary_def progress_index_def)
qed

text \<open>
  C16: the counters. Whatever results come in, each of the five counters is the number of results
  of its class, every result that is not a break is counted exactly once, the lists of names
  match, and the number shown in the progress line at the end falls short of the number of
  results by the number of valgrind errors, which it leaves out.
\<close>

theorem handle_results_counts:
  assumes "handle_results use opts n_total tmp results = Inr st"
  shows "passed_tests st = length (results_with PASS results) \<and>
    failed_tests st = length (results_with FAIL results) \<and>
    crashed_tests st = length (results_with CRASH results) \<and>
    skipped_tests st = length (results_with SKIP results) \<and>
    valgrind_errors st = length (results_with VALGR results) \<and>
    passed_tests st + failed_tests st + crashed_tests st + skipped_tests st + valgrind_errors st =
      length (real results) \<and>
    failed_testnames st = map display_name (results_with FAIL results) \<and>
    crashed_testnames st = map display_name (results_with CRASH results) \<and>
    progress_index st = length (real results) - valgrind_errors st"
  using assms by (rule handle_results_summary)

theorem handle_results_counts_witness:
  "\<exists>st. handle_results False demo_options 2 (\<lambda>_. Some []) [new_job, new_job\<lparr>returncode := 2\<rparr>] = Inr st \<and>
     passed_tests st = 1 \<and> valgrind_errors st = 1 \<and> progress_index st = 1"
proof -
  obtain st where st: "handle_results False demo_options 2 (\<lambda>_. Some []) [new_job, new_job\<lparr>returncode := 2\<rparr>] = Inr st"
    by (simp add: handle_results_def handle_result_def result_entry_def new_job_def Let_def)
  from handle_results_counts [OF st] st show ?thesis
    by (simp add: results_with_def job_status_def new_job_def)
qed

section \<open>Properties of the text report\<close>

text \<open>The tests that the report can print, and how many lines they need.\<close>

definition has_child :: "xml \<Rightarrow> string \<Rightarrow> bool" where
  "has_child e t = (find_child e t \<noteq> None)"

fun complete_test :: "xml \<Rightarrow> bool" where
  "complete_test e =
     (has_child e ''Result'' \<and> has_child e ''Name'' \<and>
      list_all (\<lambda>d. list_all (has_child d) detail_fields) (findall e ''FailureDetails'') \<and>
      list_all complete_test (findall e ''Test''))"

fun text_size :: "xml \<Rightarrow> nat" where
  "text_size e =
     1 + 7 * length (findall e ''FailureDetails'') + sum_list (map text_size (findall e ''Test''))"

declare complete_test.simps [simp del] text_size.simps [simp del]

lemma find_text_cases:
  "has_child e t \<Longrightarrow> \<exists>v. find_text e t = Inr v" "\<not> has_child e t \<Longrightarrow> find_text e t = Inl AttributeError"
  by (auto simp: has_child_def find_text_def)

lemma read_test_cases:
  "if has_child e ''Result'' \<and> has_child e ''Name'' then \<exists>t. read_test e = Inr t
   else read_test e = Inl AttributeError"
  using find_text_cases [of e "''Result''"] find_text_cases [of e "''Name''"]
  by (cases "has_child e ''Result''"; cases "has_child e ''Name''") (auto simp: read_test_def)

lemma detail_lines_cases:
  "if list_all (has_child d) detail_fields then \<exists>ls. detail_lines d = Inr ls \<and> length ls = 7
   else detail_lines d = Inl AttributeError"
proof -
  have "if list_all (has_child d) detail_fields
      then \<exists>ls. map_res (detail_line d) detail_fields = Inr ls \<and> list_all2 (\<lambda>_ _. True) detail_fields ls
      else map_res (detail_line d) detail_fields = Inl AttributeError"
    by (rule map_res_cases) (use find_text_cases [of d] in \<open>auto simp: detail_line_def rbind_eq_Inr\<close>)
  then show ?thesis
    by (auto simp: detail_lines_def detail_fields_def dest!: list_all2_lengthD split: if_splits)
qed

lemma length_concat_all2:
  "list_all2 (\<lambda>x ls. length ls = g x) xs yss \<Longrightarrow> length (concat yss) = sum_list (map g xs)"
  by (induction rule: list_all2_induct) simp_all

lemma node_to_text_cases:
  "if complete_test e then \<exists>ls. node_to_text e ty = Inr ls \<and> length ls = text_size e
   else node_to_text e ty = Inl AttributeError"
proof (induction e ty rule: node_to_text.induct)
  case (1 e ty)
  let ?D = "list_all (\<lambda>d. list_all (has_child d) detail_fields) (findall e ''FailureDetails'')"
  have d: "if ?D then \<exists>dss. map_res detail_lines (findall e ''FailureDetails'') = Inr dss \<and>
        list_all2 (\<lambda>_ ls. length ls = 7) (findall e ''FailureDetails'') dss
      else map_res detail_lines (findall e ''FailureDetails'') = Inl AttributeError"
    using detail_lines_cases by (intro map_res_cases) (metis (full_types))+
  have c: "if list_all complete_test (findall e ''Test'')
      then \<exists>css. map_res (\<lambda>c. node_to_text c ''Case'') (findall e ''Test'') = Inr css \<and>
        list_all2 (\<lambda>c ls. length ls = text_size c) (findall e ''Test'') css
      else map_res (\<lambda>c. node_to_text c ''Case'') (findall e ''Test'') = Inl AttributeError"
    using "1.IH" by (intro map_res_cases) (metis (full_types))+
  show ?case
  proof (cases "has_child e ''Result'' \<and> has_child e ''Name'' \<and> ?D")
    case True
    then obtain t dss where t: "read_test e = Inr t"
        "map_res detail_lines (findall e ''FailureDetails'') = Inr dss"
        "list_all2 (\<lambda>_ ls. length ls = 7) (findall e ''FailureDetails'') dss"
      using d read_test_cases [of e] by auto
    from length_concat_all2 [OF t(3)] have "length (concat dss) = 7 * length (findall e ''FailureDetails'')"
      by (simp add: sum_list_triv)
    with t True c show ?thesis
      by (auto simp: node_to_text.simps [of e] complete_test.simps [of e] text_size.simps [of e]
          dest!: length_concat_all2)
  next
    case False
    with d read_test_cases [of e] show ?thesis
      by (auto simp: node_to_text.simps [of e] complete_test.simps [of e] split: if_splits)
  qed
qed

definition complete_example :: "xml \<Rightarrow> bool" where
  "complete_example e = (has_child e ''Result'' \<and> has_child e ''Name'')"

lemma example_line_cases:
  "if complete_example e then \<exists>l. example_line e = Inr l else example_line e = Inl AttributeError"
  using find_text_cases [of e "''Result''"] find_text_cases [of e "''Name''"]
  by (cases "has_child e ''Result''"; cases "has_child e ''Name''")
    (auto simp: example_line_def complete_example_def)

text \<open>
  The text report is written exactly when every test of the results file, at any depth, has a
  result and a name and every failure has its six fields; it then has one line for each test and
  seven for each failure, and one line for each example. Otherwise the report fails with
  \<^verbatim>\<open>AttributeError\<close>.
\<close>

theorem translate_to_text_correct:
  "if list_all complete_test (findall et ''Test'') \<and> list_all complete_example (findall et ''Example'')
   then \<exists>ls. translate_to_text et = Inr ls \<and>
          length ls = sum_list (map text_size (findall et ''Test'')) + length (findall et ''Example'')
   else translate_to_text et = Inl AttributeError"
proof -
  have t: "if list_all complete_test (findall et ''Test'')
      then \<exists>tss. map_res (\<lambda>c. node_to_text c ''Suite'') (findall et ''Test'') = Inr tss \<and>
        list_all2 (\<lambda>c ls. length ls = text_size c) (findall et ''Test'') tss
      else map_res (\<lambda>c. node_to_text c ''Suite'') (findall et ''Test'') = Inl AttributeError"
    using node_to_text_cases by (intro map_res_cases) (metis (full_types))+
  have e: "if list_all complete_example (findall et ''Example'')
      then \<exists>es. map_res example_line (findall et ''Example'') = Inr es \<and>
        list_all2 (\<lambda>_ _. True) (findall et ''Example'') es
      else map_res example_line (findall et ''Example'') = Inl AttributeError"
    using example_line_cases by (intro map_res_cases) (metis (full_types))+
  then have e': "if list_all complete_example (findall et ''Example'')
      then \<exists>es. map_res example_line (findall et ''Example'') = Inr es \<and> length es = length (findall et ''Example'')
      else map_res example_line (findall et ''Example'') = Inl AttributeError"
    by (auto simp: list_all2_conv_all_nth)
  show ?thesis
  proof (cases "list_all complete_test (findall et ''Test'')")
    case True
    with t e' show ?thesis
      by (cases "list_all complete_example (findall et ''Example'')")
        (auto simp: translate_to_text_def dest!: length_concat_all2)
  next
    case False
    with t show ?thesis by (simp add: translate_to_text_def)
  qed
qed

section \<open>Properties of the HTML report\<close>

text \<open>How many rows are opened and how many are closed.\<close>

definition opened_rows :: "string list \<Rightarrow> nat" where
  "opened_rows ps = length (filter (\<lambda>p. p = ''<tr>'') ps)"

definition closed_rows :: "string list \<Rightarrow> nat" where
  "closed_rows ps = length (filter (\<lambda>p. p = ''</tr>'') ps)"

lemma rows_append [simp]:
  "opened_rows (ps @ qs) = opened_rows ps + opened_rows qs" "opened_rows [] = 0"
  "opened_rows (p # ps) = (if p = ''<tr>'' then 1 else 0) + opened_rows ps"
  "closed_rows (ps @ qs) = closed_rows ps + closed_rows qs" "closed_rows [] = 0"
  "closed_rows (p # ps) = (if p = ''</tr>'' then 1 else 0) + closed_rows ps"
  by (simp_all add: opened_rows_def closed_rows_def)

lemma pieces_not_rows [simp]:
  "cell s \<noteq> ''<tr>''" "cell s \<noteq> ''</tr>''" "colored ''td'' c s \<noteq> ''<tr>''" "colored ''td'' c s \<noteq> ''</tr>''"
  "suite_header r n t x \<noteq> ''<tr>''" "suite_header r n t x \<noteq> ''</tr>''"
  "table_open \<noteq> ''<tr>''" "table_open \<noteq> ''</tr>''"
  by (auto simp: cell_def colored_def suite_header_def table_open_def)

text \<open>The failures that a report shows: those of the failed cases of the suites with a table of cases.\<close>

definition case_failures :: "xml \<Rightarrow> nat" where
  "case_failures c =
     (case read_test c of
        Inr (r, _) \<Rightarrow> if r = Some ''FAIL'' then length (findall c ''FailureDetails'') else 0
      | Inl _ \<Rightarrow> 0)"

definition suite_failures :: "xml \<Rightarrow> nat" where
  "suite_failures s =
     (case read_test s of
        Inr (r, _) \<Rightarrow> if r \<in> {Some ''CRASH'', Some ''SKIP'', Some ''VALGR''} then 0
                       else sum_list (map case_failures (findall s ''Test''))
      | Inl _ \<Rightarrow> 0)"

lemma failure_rows_balance:
  "failure_rows cs b ds = Inr ps \<Longrightarrow> list_all (\<lambda>c. c \<noteq> ''<tr>'' \<and> c \<noteq> ''</tr>'') cs \<Longrightarrow>
     opened_rows ps = length ds \<and> closed_rows ps = 0"
proof (induction cs b ds arbitrary: ps rule: failure_rows.induct)
  case (2 cs b d ds)
  have "opened_rows cs = 0" "closed_rows cs = 0"
    using "2.prems"(2) by (auto simp: opened_rows_def closed_rows_def list_all_iff filter_empty_conv)
  with 2 show ?case by (auto simp: rbind_eq_Inr numeral_3_eq_3)
qed simp

lemma case_rows_balance:
  "case_rows c = Inr ps \<Longrightarrow> opened_rows ps = closed_rows ps + case_failures c"
  by (auto simp: case_rows_def case_failures_def rbind_eq_Inr split: if_splits
      dest!: failure_rows_balance)

lemma concat_balance:
  "list_all2 (\<lambda>x ps. opened_rows ps = closed_rows ps + g x) xs pss \<Longrightarrow>
     opened_rows (concat pss) = closed_rows (concat pss) + sum_list (map g xs)"
  by (induction rule: list_all2_induct) simp_all

lemma suite_html_balance:
  assumes "suite_html s = Inr ps"
  shows "opened_rows ps = closed_rows ps + suite_failures s"
proof -
  have "opened_rows (concat rows) = closed_rows (concat rows) + sum_list (map case_failures (findall s ''Test''))"
    if "map_res case_rows (findall s ''Test'') = Inr rows" for rows
    using that by (intro concat_balance) (auto simp: map_res_eq_Inr elim!: list_all2_mono case_rows_balance)
  with assms show ?thesis
    by (auto simp: suite_html_def suite_failures_def rbind_eq_Inr Let_def split: if_splits)
qed

lemma example_html_balance: "example_html e = Inr ps \<Longrightarrow> opened_rows ps = closed_rows ps"
  by (auto simp: example_html_def rbind_eq_Inr)

text \<open>
  The rows of the HTML report. Every row opened with \<^verbatim>\<open><tr>\<close> is closed, except the rows
  of failure details: these end with a second \<^verbatim>\<open></td>\<close> where the closing tag of the row
  belongs, so the report has exactly as many unclosed rows as failures shown.
\<close>

theorem translate_to_html_rows:
  assumes "translate_to_html et = Inr ps"
  shows "opened_rows ps = closed_rows ps + sum_list (map suite_failures (findall et ''Test''))"
proof -
  obtain suites examples where se: "map_res suite_html (findall et ''Test'') = Inr suites"
      "map_res example_html (findall et ''Example'') = Inr examples"
    using assms by (auto simp: translate_to_html_def rbind_eq_Inr)
  have "opened_rows (concat suites) = closed_rows (concat suites) + sum_list (map suite_failures (findall et ''Test''))"
    using se(1) by (intro concat_balance) (auto simp: map_res_eq_Inr elim!: list_all2_mono suite_html_balance)
  moreover have "opened_rows (concat examples) =
      closed_rows (concat examples) + sum_list (map (\<lambda>_. 0) (findall et ''Example''))"
    using se(2) by (intro concat_balance) (auto simp: map_res_eq_Inr elim!: list_all2_mono example_html_balance)
  ultimately show ?thesis using assms se by (auto simp: translate_to_html_def)
qed

definition leaf :: "string \<Rightarrow> string \<Rightarrow> xml" where
  "leaf t s = Elem t (Some s) [] []"

definition demo_results :: xml where
  "demo_results =
     (let failure = Elem ''FailureDetails'' None [] (map (\<lambda>f. leaf f ''x'') detail_fields);
          failing = Elem ''Test'' None [] [leaf ''Result'' ''FAIL'', leaf ''Name'' ''case'', failure];
          suite = Elem ''Test'' None [] [leaf ''Result'' ''FAIL'', leaf ''Name'' ''suite'', failing]
      in Elem ''Results'' None [] [suite])"

theorem translate_to_html_rows_witness:
  "\<exists>ps. translate_to_html demo_results = Inr ps \<and> opened_rows ps = closed_rows ps + 1"
proof -
  note defs = demo_results_def leaf_def detail_fields_def findall_def find_child_def
    find_text_def read_test_def Let_def
  have "\<exists>ps. translate_to_html demo_results = Inr ps"
    by (simp add: translate_to_html_def suite_html_def case_rows_def html_details_def defs)
  moreover have "sum_list (map suite_failures (findall demo_results ''Test'')) = 1"
    by (simp add: suite_failures_def case_failures_def defs)
  ultimately show ?thesis using translate_to_html_rows by fastforce
qed

end
