(* ===== verification/Spec2Isabelle.thy ===== *)
theory Spec2Isabelle
  imports ModuleScan BindingGen Boost MiscTools CompileDb NfdStatus VizItems TestConfig PortTests Bianchi
    FindCycles RadFloat CommandTask CheckStyle ConfigFile Wutils Cflags VersionInfo GridGui FlowMon
    VizThread VizAxes VizWifi VizTables VizPlugins CreateModule TestReport
begin

text \<open>
  \<^bold>\<open>The program.\<close> The repository is the network simulator ns-3 with the module ndnSIM. This
  development models its own Python programs: the tools that configure, build, run, test and
  inspect the simulator. (The simulator itself is C++ and its Python bindings are generated code;
  neither is modelled.)

  \<^bold>\<open>Parts, theories and correspondence.\<close> Paths are relative to the root of the repository.

  \<^item> \<^verbatim>\<open>Prelude\<close>: Python constructs shared by all parts. An exception is a value of
    \<open>py_error\<close> or of an error type of the component, in the left half of a sum;
    \<open>rbind\<close> is sequencing, \<open>for_each\<close> a loop whose body may raise, \<open>map_res\<close> a
    comprehension. A dictionary is an association list in insertion order (locale
    \<open>dictionary\<close>, interpreted on the association lists). Indexing, slicing and the string
    methods are written out.
  \<^item> \<^verbatim>\<open>RadUtil\<close>, \<^verbatim>\<open>RadFloat\<close>: \<^verbatim>\<open>bindings/python/rad_util.py\<close>, the helper functions of the binding
    generator, one definition per function: conversion between integers and binary strings,
    greatest common factor and fractions, Gray code, rounding to a grid, permutations, removal of
    duplicates, common prefixes, rotations; on floats the area of polygons, quantiles, outliers,
    unit prefixes and ranges (a loop that may not end, \<open>float_range\<close>, returns an option).
  \<^item> \<^verbatim>\<open>Topsort\<close>, \<^verbatim>\<open>FindCycles\<close>: \<^verbatim>\<open>bindings/python/topsort.py\<close>. \<open>topsort\<close> with the two
    dictionaries it keeps and the list that it extends while iterating over it, the generator of
    levels, and \<open>find_cycles\<close> with its stack of paths.
  \<^item> \<^verbatim>\<open>ShellCmd\<close>, \<^verbatim>\<open>ShellRun\<close>: \<^verbatim>\<open>waf-tools/shellcmd.py\<close>. The parser of command lines as a
    state machine on tokens (\<open>parse_step\<close>), and the interpreter \<open>run\<close> over an operating
    system that logs opened files and started processes. \<^verbatim>\<open>CommandTask\<close>:
    \<^verbatim>\<open>waf-tools/command.py\<close>, the build task that replaces \<^verbatim>\<open>${...}\<close> in a command line and runs it
    with these two (\<open>command_run\<close>).
  \<^item> \<^verbatim>\<open>Timeline\<close>, \<^verbatim>\<open>GridData\<close>: the data half of \<^verbatim>\<open>utils/grid.py\<close>, the viewer of timelines:
    ranges and events with their binary searches, the find-or-create collections, bounds, the
    reader of data files and the colours of the legend.
  \<^item> \<^verbatim>\<open>GridDraw\<close>, \<^verbatim>\<open>GridGui\<close>: the graphical half of \<^verbatim>\<open>utils/grid.py\<close>. \<open>GridDraw\<close> has the
    renderers of the legend, the timelines and the scales (a drawing is the list of its strokes,
    fills and texts); \<open>GridGui\<close> has \<^verbatim>\<open>GraphicRenderer\<close> and the GTK window: one definition per
    callback, a callback that raises leaves the state it has reached (\<open>gui_step\<close>, \<open>gui_run\<close>),
    and \<open>grid_main\<close> builds the window over the data of \<open>read_data\<close>.
  \<^item> \<^verbatim>\<open>TestJobs\<close>, \<^verbatim>\<open>TestQueue\<close>, \<^verbatim>\<open>TestReport\<close>: \<^verbatim>\<open>test.py\<close>. The class \<^verbatim>\<open>Job\<close>, the selection
    and queueing of jobs by \<^verbatim>\<open>run_tests\<close> and the execution of one job; the worker threads and
    their two queues as a step relation with every interleaving; the handling of the results and
    the text and HTML reports. \<^verbatim>\<open>TestConfig\<close>: what \<^verbatim>\<open>read_waf_config\<close> takes from the files of
    the build, and the list of tests. Dispatch puts jobs on the input queue, the workers move each of
    them to the output queue, the report reads that queue: the property of this theory,
    \<open>run_tests_verdict\<close>, spans the three.
  \<^item> \<^verbatim>\<open>CheckStyle\<close>: \<^verbatim>\<open>utils/check-style.py\<close>. Unified diffs as objects with shared lines,
    their parser and printer, the correction of trailing blanks and the driver.
  \<^item> \<^verbatim>\<open>ConfigFile\<close>: \<^verbatim>\<open>utils.py\<close>, the reader of \<^verbatim>\<open>.ns3rc\<close>. \<^verbatim>\<open>Wutils\<close>: \<^verbatim>\<open>wutils.py\<close>, how the
    build runs a program. \<^verbatim>\<open>Cflags\<close>: \<^verbatim>\<open>waf-tools/cflags.py\<close>, the flags of the build profiles.
    \<^verbatim>\<open>VersionInfo\<close>: \<^verbatim>\<open>waf-tools/versioning.py\<close>, the version read from the output of git.
  \<^item> \<^verbatim>\<open>ModuleScan\<close>: \<^verbatim>\<open>bindings/python/ns3modulescan-modular.py\<close>, the scanner of headers: the path
    of a header (\<open>get_ns3_relative_path\<close>, and the older \<open>old_relative_path\<close> of
    \<^verbatim>\<open>ns3modulescan.py\<close>), the table of annotations, and the hook that is called with every
    definition and changes the table (\<open>pre_scan_hook\<close>, one step per paragraph of the code).
    \<^verbatim>\<open>BindingGen\<close>: \<^verbatim>\<open>ns3modulegen_core_customizations.py\<close> and \<^verbatim>\<open>ns3modulegen-modular.py\<close>, the
    generator of the bindings: the types of smart pointers, the handlers and classes of callbacks
    and the phases of the driver. The callbacks that the scanner lists are those the generator
    registers.
  \<^item> \<^verbatim>\<open>Boost\<close>, \<^verbatim>\<open>MiscTools\<close>, \<^verbatim>\<open>CompileDb\<close>: further files of \<^verbatim>\<open>waf-tools\<close>. \<^verbatim>\<open>boost.py\<close>, the
    search for the headers and libraries of Boost, with the patterns of file names as a datatype
    of regular expressions and their matcher (\<open>check_boost\<close>); \<^verbatim>\<open>misc.py\<close>, file copies,
    substitution in templates (\<open>subst_func\<close>) and the task that runs a command;
    \<^verbatim>\<open>clang_compilation_database.py\<close>, the database of compile commands with the quoting of their
    arguments, and \<^verbatim>\<open>relocation.py\<close>, the nodes of a project that was moved.
  \<^item> \<^verbatim>\<open>NfdStatus\<close>: \<^verbatim>\<open>src/ndnSIM/NFD/tools/nfd-status-http-server.py\<close>, the answers of the status
    server and the checks of its arguments.
  \<^item> \<^verbatim>\<open>PortTests\<close>: \<^verbatim>\<open>utils/tests\<close>, the suites that run waf and \<^verbatim>\<open>test.py\<close> with many options
    (\<open>waf_suite\<close>, \<open>test_py_suite\<close>, \<open>runtests\<close>). \<^verbatim>\<open>Bianchi\<close>:
    \<^verbatim>\<open>src/wifi/examples/reference/bianchi11ax.py\<close>, the reference values for the throughput of a
    wireless network (\<open>bianchi_ax\<close>).
  \<^item> \<^verbatim>\<open>XmlTree\<close>: the elements of an XML document, for \<open>TestReport\<close> and \<open>FlowMon\<close>.
    \<^verbatim>\<open>FlowMon\<close>: \<^verbatim>\<open>src/flow-monitor/examples/flowmon-parse-results.py\<close>, the report of the flow
    monitor, from the conversion of the attributes to the printed lines.
  \<^item> \<^verbatim>\<open>VizThread\<close>: \<^verbatim>\<open>src/visualizer/visualizer/core.py\<close>, the simulation thread, the main thread
    and the lock, event and timers between them, as step relations \<open>sim_step\<close> and
    \<open>main_step\<close> over program counters, with an executable scheduler that takes exactly the same
    steps (\<open>run_schedule\<close>).
  \<^item> \<^verbatim>\<open>VizView\<close>, \<^verbatim>\<open>VizSession\<close>: the same file and \<^verbatim>\<open>base.py\<close>: nodes, channels and links of the
    picture and the scan of the topology; then the events of the user on them (selection, modes,
    dragging with its signal handlers). \<^verbatim>\<open>VizScroll\<close>: the scrolled canvas around the picture:
    panning, zoom, following of a node and automatic scaling (\<open>autoscale_view\<close>).
    \<^verbatim>\<open>VizAxes\<close>: \<^verbatim>\<open>hud.py\<close>, the axes with their ticks and labels over the part that is shown.
  \<^item> \<^verbatim>\<open>VizTraffic\<close>: the windows of traffic samples and the arrows that show them.
    \<^verbatim>\<open>VizPlugins\<close>: the loader of plugins in \<^verbatim>\<open>base.py\<close>. \<^verbatim>\<open>VizItems\<close>: \<^verbatim>\<open>svgitem.py\<close>, the icons of
    nodes, the text of tooltips and the order of the start.
  \<^item> \<^verbatim>\<open>VizStats\<close>, \<^verbatim>\<open>VizWifi\<close>, \<^verbatim>\<open>VizTables\<close>: the plugins under \<^verbatim>\<open>src/visualizer/visualizer/plugins\<close>. The
    collector of interface counters and its rates; the lines from wireless stations to their
    access points (a store of links, \<open>wifi_run\<close>); the information windows with their tables, the
    list of open windows and its place in \<^verbatim>\<open>update_view\<close> (\<open>picture_run\<close>), and the dialog that
    chooses the packets to capture.
  \<^item> \<^verbatim>\<open>ModuleTemplates\<close>, \<^verbatim>\<open>CreateModule\<close>: \<^verbatim>\<open>utils/create-module.py\<close>. The templates of the files of a
    new module with the format language they are written in; the functions that create its
    directories and files over a file system that may refuse (\<open>make_module\<close>), and the program
    \<open>create_module_main\<close>.

  \<^bold>\<open>What the lemmas show.\<close> For \<open>topsort\<close>: soundness, and completeness (a list exactly for an
  acyclic relation, otherwise \<^verbatim>\<open>CycleError\<close>), the levels, and that \<open>find_cycles\<close> yields each
  elementary cycle once. For \<^verbatim>\<open>shellcmd\<close>: the language of the parser, its round trip, that the
  interpreter refines a short-circuit semantics and releases files and processes. For the viewer:
  what the searches return on sorted data, that the reader stores exactly the entries of the
  file, the placement of legend, rows and ticks, an invariant of the window over all event
  sequences, and when a redraw fails. For the visualizer: mutual exclusion, freedom from deadlock,
  delivery of messages and the distance of simulator and view for every interleaving; the links
  that the scan creates; the consistency of selection and picture after every event sequence; the
  arrows shown for the samples; the handlers and the result of a pan, and when automatic scaling
  shows all nodes; number and places of the ticks of the axes, and the reuse of their labels; the
  rates of the interfaces and when they are the true ones; the consistency of the wireless links; what a
  window that fails does to the rest of the picture. For the build task: values replaced in a
  command line never change its structure. For the module generator: a module is created completely or not at all, and
  the program stays below its two directories. For the version tool and the flow monitor: round trip and
  equivalence with a reference, and every way to fail. For \<^verbatim>\<open>test.py\<close>: the pool cannot deadlock, conserves the jobs and collects a result that
  does not depend on the interleaving; counters, reports and return code agree with the results.
  For the binding generator: the path function ends, and where the older one does not; a scan
  gives every definition what the initial table says, although the table is consumed; which
  callbacks get a class and which are refused; one canonical type for all spellings of a smart
  pointer. For the further waf tools: the libraries stored are the best files of one directory;
  the substitution is a single pass over the template; the database has one entry per file, and a
  shell splits its command into the one that was run.
  For the portability suites: every command is run once and the status is zero exactly when all
  succeed. For the throughput model: the search on the grid ends next to the fixed point, and the
  values are positive and below the data rate (the grid has 100000 points in the code; the
  theorem holds for any number from two).
  For the style checker: the image of the parser, the round trip with the printer and the limits of
  the correction. For the build helpers: the values read, the environment of a process, when a run
  succeeds, the flags of a profile. Several properties state behaviour that looks unintended
  (an exception on a documented use, an option without effect); they say so in their text.

  \<^bold>\<open>Interfaces.\<close> Locales state what a client relies on and are interpreted on the model's own
  definitions: \<open>dictionary\<close> (association lists), \<open>bisection\<close> (the two binary searches),
  \<open>named_collection\<close> (the four find-or-create methods), \<open>terminating_system\<close> (the worker pool of
  the tests and the simulation thread of the visualizer), \<open>traits_contract\<close> (the three
  compilers), \<open>table_contract\<close> (the four kinds of table in the information windows).

  \<^bold>\<open>Termination, bounds and fuel.\<close> No definition uses fuel. Loops that may not end are
  partial functions into options (\<open>float_range\<close>, \<open>old_relative_path\<close>); all others are structural recursions or
  \<open>function\<close>s with a measure: the unsorted elements for \<open>topsort\<close>, the paths still possible
  in a finite graph for \<open>find_cycles\<close>, the width of the interval for the searches, the
  rounded logarithm for the divisions of the axes, the rest of the path or text for the scanners. The worker
  pool is a relation, and a measure bounds the length of its executions. Python integers are
  \<open>int\<close>; times, coordinates and the floats of the flow monitor are rational numbers, so rounding
  is not part of the model; colours of the visualizer are 32-bit words. While the main thread of
  the visualizer waits, the simulation thread makes at most 16 steps.

  \<^bold>\<open>Parameters.\<close> The operating system (processes, files, clock), \<^verbatim>\<open>eval\<close>, \<^verbatim>\<open>fnmatch\<close>,
  \<^verbatim>\<open>shlex\<close>, \<^verbatim>\<open>difflib\<close>, the XML parser, the extents of texts, the simulator under the
  visualizer with its network and graph layout, and the programs that are called (uncrustify, patch, git,
  valgrind) are arguments of the definitions; the theorems hold for all of them unless a
  hypothesis says otherwise.

  \<^bold>\<open>Not modelled.\<close> Of \<^verbatim>\<open>src/visualizer\<close>: the construction of widgets, labels, screenshots,
  and \<^verbatim>\<open>ipython_view.py\<close>, which cannot be loaded (it is written for modules of Python 2 and uses
  \<^verbatim>\<open>Gtk\<close> without importing it). Of the binding generator: the calls that pass constants to
  pybindgen (\<^verbatim>\<open>ns3_ptr.py\<close>, \<^verbatim>\<open>modulegen_customizations.py\<close>, the fixed customizations), the C++ text
  of a callback class, and \<^verbatim>\<open>ns3_module_scan\<close> of \<^verbatim>\<open>ns3modulescan.py\<close>, which fails on Python 3. The
  wscript files, the option parser of \<^verbatim>\<open>test.py\<close> (a table of arguments of \<^verbatim>\<open>argparse\<close>), generated
  bindings, examples, unit tests, and the C++ code. Of \<^verbatim>\<open>rad_util.py\<close>: the random source, the
  clock and the reflection helper. What is left has no logic of its own or belongs to an external
  package.
\<close>

section \<open>The verdict of the test runner\<close>

definition good_result :: "job \<Rightarrow> bool" where
  "good_result j = (\<not> is_break j \<and> (job_status j = PASS \<or> job_status j = SKIP))"

lemma good_results_count:
  "length (results_with PASS js) + length (results_with SKIP js) = length (filter good_result js)"
  by (induction js) (auto simp: results_with_def good_result_def)

lemma filter_all: "length (filter P xs) = length xs \<longleftrightarrow> list_all P xs"
  by (metis filter_True length_filter_less list_all_iff order_less_irrefl)

lemma outcome_good:
  assumes "\<not> is_break j" "PYTHON cfg \<noteq> []"
  shows "good_result (outcome (execute_job cfg opts ps) j) \<longleftrightarrow>
     is_skip j \<or> returncode (outcome (execute_job cfg opts ps) j) = 0"
proof -
  obtain j' where j': "execute_job cfg opts ps j = Inr j'"
    using execute_job_well_run [OF assms(2)] by (meson well_run_def)
  from execute_job_identity [OF j'] assms(1) j' show ?thesis
    by (auto simp: outcome_def good_result_def job_status_def)
qed

text \<open>
  C1: the verdict of \<^verbatim>\<open>run_tests\<close>, over dispatch, worker threads and report together. When the
  run has finished and the results are handled, the return code is zero exactly when every
  dispatched job came back as passed or skipped. Without an interrupt this holds exactly when
  every dispatched job is skipped or its process succeeds, for any number of workers and any
  interleaving.
\<close>

theorem run_tests_verdict:
  assumes "PYTHON cfg \<noteq> []" "0 < processors"
    and "d = dispatch_all cfg opts fs eval_cond fnmatch outdir suite_list runnable scripts ex"
    and "(pool_step (execute_job cfg opts ps))\<^sup>*\<^sup>* (start_pool (input_queue d) processors) s" "finished s"
    and "handle_results use opts (total_tests d) tmp (collected s) = Inr st"
  shows "(return_code (total_tests d) st = 0 \<longleftrightarrow> list_all good_result (collected s)) \<and>
     (\<not> thread_exit s \<longrightarrow>
       (return_code (total_tests d) st = 0 \<longleftrightarrow>
         list_all (\<lambda>j. is_skip j \<or> returncode (outcome (execute_job cfg opts ps) j) = 0) (input_queue d)))"
proof -
  let ?run = "execute_job cfg opts ps" and ?js = "input_queue d"
  have d: "total_tests d = length ?js" "list_all (job_sane cfg opts) ?js"
    using dispatch_all_summary [of cfg opts fs eval_cond fnmatch outdir suite_list runnable scripts ex]
    by (simp_all add: assms(3) Let_def)
  then have nb: "list_all (\<lambda>j. \<not> is_break j) ?js" by (auto simp: job_sane_def elim: list.pred_mono_strong)
  have "mset (map identity (collected s)) = mset (map identity ?js)"
    using reachable_results [OF assms(1,2) nb assms(4)] assms(5) by blast
  then have len: "length (collected s) = total_tests d" by (metis d(1) length_map size_mset)
  have "passed_tests st + skipped_tests st = length (filter good_result (collected s))"
    using handle_results_summary [OF assms(6)] good_results_count by metis
  then have rc: "return_code (total_tests d) st = 0 \<longleftrightarrow> list_all good_result (collected s)"
    by (simp add: return_code_def filter_all flip: len)
  moreover have "list_all good_result (collected s) \<longleftrightarrow>
      list_all (\<lambda>j. is_skip j \<or> returncode (outcome ?run j) = 0) ?js" if "\<not> thread_exit s"
  proof -
    have "set (collected s) = outcome ?run ` set ?js"
      using finished_results [OF assms(1,2) nb assms(4,5) that] by (metis mset_eq_setD set_map)
    then show ?thesis using outcome_good [OF _ assms(1)] nb by (auto simp: list_all_iff)
  qed
  ultimately show ?thesis by blast
qed

definition demo_fs :: fs where
  "demo_fs = \<lparr>exists = (\<lambda>_. True), relpath = (\<lambda>a b. a), abspath = (\<lambda>p. p), getcwd = ''/ns3''\<rparr>"

definition demo_dispatch :: dispatch where
  "demo_dispatch = dispatch_all demo_config demo_options demo_fs (\<lambda>_. True) (\<lambda>_ _. False) ''out'' [''core''] [] []
     \<lparr>example_tests = [], example_names_original = [], python_tests = []\<rparr>"

definition demo_job :: job where
  "demo_job = suite_job demo_config demo_options demo_fs ''out'' ''core''"

theorem run_tests_verdict_witness:
  "\<exists>s st. finished s \<and> \<not> thread_exit s \<and>
     (pool_step demo_run)\<^sup>*\<^sup>* (start_pool (input_queue demo_dispatch) 1) s \<and>
     handle_results False demo_options (total_tests demo_dispatch) (\<lambda>_. Some []) (collected s) = Inr st \<and>
     return_code (total_tests demo_dispatch) st = 0"
proof -
  let ?r = "demo_job\<lparr>elapsed_time := 7\<rparr>" and ?s = "demo_pool [] [] [] Stopped 0 [demo_job\<lparr>elapsed_time := 7\<rparr>]"
  have q: "input_queue demo_dispatch = [demo_job]" "total_tests demo_dispatch = 1"
    by (simp_all add: demo_dispatch_def dispatch_all_def dispatch_suite_def dispatch_examples_def
        dispatch_pythons_def demo_job_def enqueue_def demo_options_def strip_def is_space_def Let_def)
  have flags: "\<not> is_break demo_job" "\<not> is_skip demo_job" "returncode demo_job = 0"
      "\<not> is_example demo_job" "\<not> is_pyexample demo_job"
    by (simp_all add: demo_job_def suite_job_def skip_if_def job_setters new_job_def
        core_nsc_missing_skip_tests_def demo_options_def)
  have run: "demo_run demo_job = Inr ?r"
    using flags by (simp add: execute_job_def run_job_synchronously_def job_path_cmd_def
        demo_processes_def set_elapsed_time_def Let_def)
  have exec: "(pool_step demo_run)\<^sup>*\<^sup>* (start_pool (input_queue demo_dispatch) 1) ?s"
    unfolding q by (rule demo_execution [OF flags(1,2) run])
  have fin: "finished ?s" "\<not> thread_exit ?s" "collected ?s = [?r]" by (simp_all add: finished_def demo_pool_def)
  obtain st where st: "handle_results False demo_options (total_tests demo_dispatch) (\<lambda>_. Some []) (collected ?s) = Inr st"
    using flags by (simp add: fin handle_results_def handle_result_def result_entry_def Let_def)
  have "list_all good_result (collected ?s)"
    using flags by (simp add: fin good_result_def job_status_def)
  then have "return_code (total_tests demo_dispatch) st = 0"
    using run_tests_verdict [OF _ _ demo_dispatch_def exec fin(1) st] by (simp add: demo_config_def)
  with exec fin st show ?thesis by blast
qed

end
